(* ===== verification/Prelude.thy ===== *)
theory Prelude
  imports Main "HOL-Library.Char_ord" "HOL-Library.List_Lexorder" "HOL-Library.Sublist"
begin

text \<open>
  Shared ground of the development: the results of fallible Go functions, the error values
  of \<^verbatim>\<open>internal/domain/errors.go\<close> as far as \<^verbatim>\<open>errors.Is\<close> can see them, and the generic
  facts on lists, options and maps that several components use. A Go \<^verbatim>\<open>string\<close> is a byte
  sequence and is modelled by \<^typ>\<open>string\<close>, whose characters are exactly the 256 bytes.
\<close>

named_theorems go_defs \<open>unfolding rules of the models of Go's string functions\<close>
named_theorems res_simps \<open>facts about results and their sequencing\<close>

section \<open>Results\<close>

text \<open>
  A Go function that returns \<^verbatim>\<open>(T, error)\<close> returns \<open>Inl e\<close> for a non-nil error and
  \<open>Inr v\<close> otherwise; \<open>rbind\<close> is the \<^verbatim>\<open>if err != nil { return err }\<close> chain.
\<close>

definition rbind :: "'e + 'a \<Rightarrow> ('a \<Rightarrow> 'e + 'b) \<Rightarrow> 'e + 'b" where
  "rbind r f = (case r of Inl e \<Rightarrow> Inl e | Inr a \<Rightarrow> f a)"

lemma rbind_Inl [simp, res_simps]: "rbind (Inl e) f = Inl e"
  by (simp add: rbind_def)

lemma rbind_Inr [simp, res_simps]: "rbind (Inr a) f = f a"
  by (simp add: rbind_def)

lemma rbind_eq_Inr [res_simps]: "rbind r f = Inr b \<longleftrightarrow> (\<exists>a. r = Inr a \<and> f a = Inr b)"
  by (cases r) auto

lemma rbind_split:
  "P (rbind r f) \<longleftrightarrow> (\<forall>e. r = Inl e \<longrightarrow> P (Inl e)) \<and> (\<forall>a. r = Inr a \<longrightarrow> P (f a))"
  by (cases r) auto

text \<open>A loop over a list whose body can fail and threads an accumulator.\<close>

fun rfold :: "('a \<Rightarrow> 's \<Rightarrow> 'e + 's) \<Rightarrow> 'a list \<Rightarrow> 's \<Rightarrow> 'e + 's" where
  "rfold f [] s = Inr s"
| "rfold f (x # xs) s = rbind (f x s) (rfold f xs)"

lemma rfold_append:
  "rfold f (xs @ ys) s = rbind (rfold f xs s) (rfold f ys)"
proof (induction xs arbitrary: s)
  case Nil
  show ?case by simp
next
  case (Cons x xs)
  then show ?case by (cases "f x s") simp_all
qed

text \<open>An invariant of the accumulator that every successful body keeps.\<close>

lemma rfold_invariant:
  assumes "rfold f xs s = Inr t" and "P s"
    and "\<And>x s t. x \<in> set xs \<Longrightarrow> P s \<Longrightarrow> f x s = Inr t \<Longrightarrow> P t"
  shows "P t"
  using assms
proof (induction xs arbitrary: s)
  case Nil
  then show ?case by simp
next
  case (Cons x xs)
  from Cons.prems(1) obtain u where u: "f x s = Inr u" "rfold f xs u = Inr t"
    by (auto simp: rbind_eq_Inr)
  show ?case
  proof (rule Cons.IH [OF u(2)])
    show "P u" using Cons.prems(2,3) u(1) by (metis list.set_intros(1))
    show "\<And>x s t. x \<in> set xs \<Longrightarrow> P s \<Longrightarrow> f x s = Inr t \<Longrightarrow> P t"
      using Cons.prems(3) by (metis list.set_intros(2))
  qed
qed

section \<open>Errors\<close>

text \<open>
  The sentinel classes of \<^verbatim>\<open>errors.go\<close>. An error value keeps what the program can test
  (the classes it wraps) and what it says: the format string of the
  \<^verbatim>\<open>fmt.Errorf\<close> call and its string arguments, not the rendered text.
  \<^verbatim>\<open>domain.FieldError\<close> is one diagnostic of a configuration source; it always unwraps to
  \<open>ErrInvalid\<close>. Its message is kept in the same form.
\<close>

datatype err_class =
  ErrNotFound | ErrConflict | ErrInvalid | ErrUnavailable | ErrNotSupported | ErrCanceled

record field_error =
  fe_path :: string
  fe_line :: int
  fe_column :: int
  fe_message :: string
  fe_args :: "string list"

datatype error =
    Plain string "string list"
  | Class err_class string "string list"
  | Wrapped string "string list" error
  | Field field_error
  | Joined "error list"

text \<open>\<^verbatim>\<open>errors.Is(err, class)\<close>: the chain of \<^verbatim>\<open>Unwrap\<close> calls reaches the class.\<close>

fun errors_is :: "error \<Rightarrow> err_class \<Rightarrow> bool" where
  "errors_is (Plain _ _) c = False"
| "errors_is (Class d _ _) c = (c = d)"
| "errors_is (Wrapped _ _ e) c = errors_is e c"
| "errors_is (Field _) c = (c = ErrInvalid)"
| "errors_is (Joined es) c = list_ex (\<lambda>e. errors_is e c) es"

text \<open>
  \<^verbatim>\<open>errors.Join\<close> drops nil errors and is nil when nothing is left. (\<^verbatim>\<open>nil\<close> is \<open>None\<close>.)
\<close>

definition errors_join :: "error option list \<Rightarrow> error option" where
  "errors_join es =
     (case List.map_filter id es of [] \<Rightarrow> None | xs \<Rightarrow> Some (Joined xs))"

lemma errors_join_None: "errors_join es = None \<longleftrightarrow> (\<forall>e \<in> set es. e = None)"
  by (induction es) (auto simp: errors_join_def map_filter_simps split: option.splits list.splits)

section \<open>Lists and maps\<close>

lemma find_Some_iff_unique:
  assumes "distinct (map f xs)"
  shows "List.find (\<lambda>x. f x = k) xs = Some x \<longleftrightarrow> x \<in> set xs \<and> f x = k"
  using assms by (induction xs) auto

lemma find_None_iff_key:
  "List.find (\<lambda>x. f x = k) xs = None \<longleftrightarrow> k \<notin> f ` set xs"
  by (induction xs) auto

lemma distinct_map_inj:
  "distinct (map f xs) \<Longrightarrow> x \<in> set xs \<Longrightarrow> y \<in> set xs \<Longrightarrow> f x = f y \<Longrightarrow> x = y"
  by (simp add: distinct_map inj_on_def)

lemma list_all_find:
  "list_all P xs \<Longrightarrow> List.find Q xs = Some x \<Longrightarrow> P x"
  by (induction xs) (auto split: if_splits)

lemma find_SomeD: "List.find P xs = Some x \<Longrightarrow> x \<in> set xs \<and> P x"
  by (induction xs) (auto split: if_splits)

lemma map_pair_zip: "map (\<lambda>x. (f x, g x)) xs = zip (map f xs) (map g xs)"
  by (induction xs) simp_all

text \<open>Reading a Go map: a missing key yields the zero value of the element type.\<close>

definition map_get :: "('k \<rightharpoonup> 'v) \<Rightarrow> 'v \<Rightarrow> 'k \<Rightarrow> 'v" where
  "map_get m z k = (case m k of None \<Rightarrow> z | Some v \<Rightarrow> v)"

lemma map_get_upd [simp]: "map_get (m(k \<mapsto> v)) z k' = (if k' = k then v else map_get m z k')"
  by (simp add: map_get_def)

lemma map_get_empty [simp]: "map_get Map.empty z k = z"
  by (simp add: map_get_def)

end
