(* ===== verification/GoStrings.thy ===== *)
theory GoStrings
  imports Prelude
begin

text \<open>
  The functions of Go's \<^verbatim>\<open>strings\<close>, \<^verbatim>\<open>strconv\<close> and \<^verbatim>\<open>path\<close> packages that the modelled
  sources call, on byte strings. Nothing here is specific to the program; the theory keeps
  the facts about these functions that several components use.
\<close>

section \<open>Prefixes, suffixes, searching\<close>

definition has_prefix :: "string \<Rightarrow> string \<Rightarrow> bool" where
  "has_prefix s p = (take (length p) s = p)"

definition has_suffix :: "string \<Rightarrow> string \<Rightarrow> bool" where
  "has_suffix s p = (length p \<le> length s \<and> drop (length s - length p) s = p)"

definition trim_prefix :: "string \<Rightarrow> string \<Rightarrow> string" where
  "trim_prefix s p = (if has_prefix s p then drop (length p) s else s)"

definition trim_suffix :: "string \<Rightarrow> string \<Rightarrow> string" where
  "trim_suffix s p = (if has_suffix s p then take (length s - length p) s else s)"

definition cut_prefix :: "string \<Rightarrow> string \<Rightarrow> string \<times> bool" where
  "cut_prefix s p = (if has_prefix s p then (drop (length p) s, True) else (s, False))"

definition cut_suffix :: "string \<Rightarrow> string \<Rightarrow> string \<times> bool" where
  "cut_suffix s p = (if has_suffix s p then (take (length s - length p) s, True) else (s, False))"

text \<open>\<^verbatim>\<open>strings.Index\<close>: the first position where the separator occurs.\<close>

fun index_of :: "string \<Rightarrow> string \<Rightarrow> nat option" where
  "index_of [] sep = (if sep = [] then Some 0 else None)"
| "index_of (c # cs) sep =
     (if has_prefix (c # cs) sep then Some 0 else map_option Suc (index_of cs sep))"

definition contains :: "string \<Rightarrow> string \<Rightarrow> bool" where
  "contains s sub = (index_of s sub \<noteq> None)"

text \<open>\<^verbatim>\<open>strings.Cut\<close>: text before and after the first separator, and whether there was one.\<close>

definition cut :: "string \<Rightarrow> string \<Rightarrow> string \<times> string \<times> bool" where
  "cut s sep =
     (case index_of s sep of
        Some i \<Rightarrow> (take i s, drop (i + length sep) s, True)
      | None \<Rightarrow> (s, [], False))"

text \<open>\<^verbatim>\<open>strings.Split\<close> on a one-byte separator, as every call of the modelled code has it.\<close>

fun split_on :: "char \<Rightarrow> string \<Rightarrow> string list" where
  "split_on d [] = [[]]"
| "split_on d (c # cs) =
     (if c = d then [] # split_on d cs
      else (case split_on d cs of [] \<Rightarrow> [[c]] | w # ws \<Rightarrow> (c # w) # ws))"

definition join :: "string \<Rightarrow> string list \<Rightarrow> string" where
  "join sep ws = (case ws of [] \<Rightarrow> [] | w # us \<Rightarrow> w @ concat (map (\<lambda>u. sep @ u) us))"

text \<open>\<^verbatim>\<open>strings.ReplaceAll\<close> for a non-empty old string.\<close>

function replace_all :: "string \<Rightarrow> string \<Rightarrow> string \<Rightarrow> string" where
  "replace_all s old new =
     (if s = [] \<or> old = [] then s
      else if has_prefix s old then new @ replace_all (drop (length old) s) old new
      else hd s # replace_all (tl s) old new)"
  by pat_completeness auto
termination
  by (relation "measure (\<lambda>(s, old, new). length s)") auto

declare replace_all.simps [simp del]

lemma replace_all_Nil [simp]: "replace_all [] old new = []"
  by (simp add: replace_all.simps)

lemma has_prefix_iff: "has_prefix s p \<longleftrightarrow> (\<exists>t. s = p @ t)"
  unfolding has_prefix_def by (metis append_eq_conv_conj append_take_drop_id)

lemma has_prefix_Nil [simp]: "has_prefix s []"
  by (simp add: has_prefix_def)

lemma has_prefix_append [simp]: "has_prefix (p @ s) p"
  by (simp add: has_prefix_def)

lemma has_suffix_iff: "has_suffix s p \<longleftrightarrow> (\<exists>t. s = t @ p)"
  unfolding has_suffix_def
  by (metis add_diff_cancel_right' append_eq_conv_conj append_take_drop_id le_add2 length_append)

lemma has_suffix_append [simp]: "has_suffix (s @ p) p"
  by (auto simp: has_suffix_iff)

lemma index_of_single_None: "index_of s [c] = None \<longleftrightarrow> c \<notin> set s"
  by (induction s) (auto simp: has_prefix_def)

lemma index_of_single_Some:
  "index_of s [c] = Some i \<longleftrightarrow> i < length s \<and> s ! i = c \<and> c \<notin> set (take i s)"
proof (induction s arbitrary: i)
  case Nil
  show ?case by simp
next
  case (Cons a s)
  show ?case by (cases i) (auto simp: Cons.IH has_prefix_def)
qed

text \<open>\<^verbatim>\<open>strings.Cut\<close> at a byte: the first occurrence decides.\<close>

lemma cut_single:
  "c \<notin> set a \<Longrightarrow> cut (a @ c # b) [c] = (a, b, True)"
proof -
  assume "c \<notin> set a"
  then have "index_of (a @ c # b) [c] = Some (length a)"
    by (auto simp: index_of_single_Some)
  then show ?thesis by (simp add: cut_def)
qed

lemma cut_single_True:
  assumes "cut s [c] = (a, b, True)"
  shows "s = a @ c # b \<and> c \<notin> set a"
proof -
  from assms obtain i where i: "index_of s [c] = Some i"
      and ab: "a = take i s" "b = drop (Suc i) s"
    by (auto simp: cut_def split: option.splits)
  from i have "i < length s" "s ! i = c" "c \<notin> set (take i s)"
    by (auto simp: index_of_single_Some)
  with ab show ?thesis by (metis id_take_nth_drop)
qed

lemma cut_single_False:
  "cut s [c] = (a, b, False) \<longleftrightarrow> a = s \<and> b = [] \<and> c \<notin> set s"
  by (auto simp: cut_def index_of_single_None [symmetric] split: option.splits)

lemma split_on_not_Nil [simp]: "split_on d s \<noteq> []"
  by (induction s) (auto split: list.splits)

lemma split_on_no_sep: "d \<notin> set s \<Longrightarrow> split_on d s = [s]"
  by (induction s) auto

lemma split_on_append: "d \<notin> set a \<Longrightarrow> split_on d (a @ d # s) = a # split_on d s"
  by (induction a) (auto split: list.splits)

lemma split_on_elem: "w \<in> set (split_on d s) \<Longrightarrow> d \<notin> set w"
  by (induction s arbitrary: w) (auto split: if_splits list.splits)

lemma join_simps [simp]:
  "join sep [] = []"
  "join sep [w] = w"
  "join sep (w # u # us) = w @ sep @ join sep (u # us)"
  by (simp_all add: join_def)

lemma join_set: "c \<in> set (join sep ws) \<Longrightarrow> c \<in> set sep \<or> (\<exists>w \<in> set ws. c \<in> set w)"
  by (auto simp: join_def split: list.splits if_splits)

lemma join_split_on: "join [d] (split_on d s) = s"
proof (induction s)
  case Nil
  show ?case by simp
next
  case (Cons c s)
  obtain w ws where split: "split_on d s = w # ws"
    by (cases "split_on d s") auto
  with Cons.IH show ?case by (cases ws) auto
qed

lemma split_on_join:
  "ws \<noteq> [] \<Longrightarrow> (\<forall>w \<in> set ws. d \<notin> set w) \<Longrightarrow> split_on d (join [d] ws) = ws"
proof (induction ws)
  case Nil
  then show ?case by simp
next
  case (Cons w ws)
  then show ?case
    by (cases ws) (simp_all add: split_on_no_sep split_on_append)
qed

section \<open>Decimal numbers\<close>

abbreviation byte :: "char \<Rightarrow> nat" where
  "byte c \<equiv> of_char c"

definition is_digit :: "char \<Rightarrow> bool" where
  "is_digit c = (48 \<le> byte c \<and> byte c \<le> 57)"

definition is_lower :: "char \<Rightarrow> bool" where
  "is_lower c = (97 \<le> byte c \<and> byte c \<le> 122)"

definition is_upper :: "char \<Rightarrow> bool" where
  "is_upper c = (65 \<le> byte c \<and> byte c \<le> 90)"

definition digit_char :: "nat \<Rightarrow> char" where
  "digit_char d = char_of (48 + d)"

fun itoa :: "nat \<Rightarrow> string" where
  "itoa n = (if n < 10 then [digit_char n] else itoa (n div 10) @ [digit_char (n mod 10)])"

declare itoa.simps [simp del]

definition itoa_int :: "int \<Rightarrow> string" where
  "itoa_int i = (if i < 0 then CHR ''-'' # itoa (nat (- i)) else itoa (nat i))"

definition digits_value :: "string \<Rightarrow> nat" where
  "digits_value ds = foldl (\<lambda>n c. 10 * n + (byte c - 48)) 0 ds"

text \<open>
  \<^verbatim>\<open>strconv.Atoi\<close> on a 64-bit platform: an optional sign, at least one digit, and a value
  in the range of \<^verbatim>\<open>int64\<close>; anything else is an error (\<open>None\<close>).
\<close>

definition atoi :: "string \<Rightarrow> int option" where
  "atoi s =
     (let neg = has_prefix s ''-'';
          ds = (if neg \<or> has_prefix s ''+'' then tl s else s);
          v = int (digits_value ds);
          n = (if neg then - v else v)
      in if ds \<noteq> [] \<and> list_all is_digit ds \<and> - (2 ^ 63) \<le> n \<and> n < 2 ^ 63
         then Some n else None)"

lemma byte_digit_char [simp]: "d < 10 \<Longrightarrow> byte (digit_char d) = 48 + d"
  by (simp add: digit_char_def)

lemma is_digit_digit_char [simp]: "d < 10 \<Longrightarrow> is_digit (digit_char d)"
  by (simp add: is_digit_def)

lemma itoa_not_Nil [simp]: "itoa n \<noteq> []"
  by (subst itoa.simps) simp

lemma itoa_digits: "list_all is_digit (itoa n)"
  by (induction n rule: itoa.induct) (subst itoa.simps, simp)

lemma digits_value_snoc: "digits_value (ds @ [c]) = 10 * digits_value ds + (byte c - 48)"
  by (simp add: digits_value_def)

lemma digits_value_itoa: "digits_value (itoa n) = n"
proof (induction n rule: itoa.induct)
  case (1 n)
  show ?case
  proof (cases "n < 10")
    case True
    then show ?thesis by (simp add: itoa.simps [of n] digits_value_def)
  next
    case False
    then have "digits_value (itoa (n div 10)) = n div 10" by (rule "1.IH")
    with False show ?thesis by (simp add: itoa.simps [of n] digits_value_snoc)
  qed
qed

lemma itoa_inj: "itoa m = itoa n \<Longrightarrow> m = n"
  by (metis digits_value_itoa)

lemma itoa_hd_digit: "is_digit (hd (itoa n))"
  using itoa_digits [of n] by (cases "itoa n") (auto simp: list_all_iff)

lemma itoa_hd_nonzero: "n \<noteq> 0 \<Longrightarrow> hd (itoa n) \<noteq> CHR ''0''"
proof (induction n rule: itoa.induct)
  case (1 n)
  show ?case
  proof (cases "n < 10")
    case True
    then show ?thesis using 1(2) byte_digit_char [of n] by (auto simp: itoa.simps [of n] simp del: byte_digit_char)
  next
    case False
    then have "n div 10 \<noteq> 0" by simp
    with False 1(1) show ?thesis by (simp add: itoa.simps [of n])
  qed
qed

lemma itoa_no_char: "\<not> is_digit c \<Longrightarrow> c \<notin> set (itoa n)"
  using itoa_digits [of n] by (auto simp: list_all_iff)

lemma digit_not_sign: "is_digit c \<Longrightarrow> c \<noteq> CHR ''-'' \<and> c \<noteq> CHR ''+''"
  by (auto simp: is_digit_def)

lemma atoi_itoa: "n < 2 ^ 63 \<Longrightarrow> atoi (itoa n) = Some (int n)"
proof -
  assume n: "n < 2 ^ 63"
  obtain c cs where it: "itoa n = c # cs" by (cases "itoa n") auto
  have c: "c \<noteq> CHR ''-''" "c \<noteq> CHR ''+''"
    using itoa_hd_digit [of n] by (auto simp: it dest: digit_not_sign)
  have "int n < 2 ^ 63" using n by (metis of_nat_less_iff of_nat_numeral of_nat_power)
  then show ?thesis
    using c itoa_digits [of n] digits_value_itoa [of n]
    by (simp add: atoi_def has_prefix_def it Let_def)
qed

end
