(* ===== verification/Utf8.thy ===== *)
theory Utf8
  imports GoStrings
begin

text \<open>
  Go's view of a string as a sequence of runes (\<^verbatim>\<open>for _, r := range s\<close>, \<^verbatim>\<open>[]rune(s)\<close>,
  \<^verbatim>\<open>utf8.Valid\<close>, \<^verbatim>\<open>Builder.WriteRune\<close>, \<^verbatim>\<open>string(runes)\<close>): the decoder of
  \<^verbatim>\<open>unicode/utf8\<close>, which reads one scalar value or, on any malformed byte, U+FFFD with
  width one; its encoder; and the round trip of the two. Also \<^verbatim>\<open>strings.TrimSpace\<close>,
  \<^verbatim>\<open>strings.Fields\<close> and ASCII case folding, which work on runes.
\<close>

section \<open>Decoding\<close>

definition rune_error :: nat where
  "rune_error = 65533"

definition is_cont :: "nat \<Rightarrow> bool" where
  "is_cont b = (128 \<le> b \<and> b \<le> 191)"

text \<open>The range of the second byte that \<^verbatim>\<open>unicode/utf8\<close> accepts after a lead byte.\<close>

definition accept2 :: "nat \<Rightarrow> nat \<Rightarrow> bool" where
  "accept2 b b1 =
     (if b = 224 then 160 \<le> b1 \<and> b1 \<le> 191
      else if b = 237 then 128 \<le> b1 \<and> b1 \<le> 159
      else if b = 240 then 144 \<le> b1 \<and> b1 \<le> 191
      else if b = 244 then 128 \<le> b1 \<and> b1 \<le> 143
      else is_cont b1)"

text \<open>\<^verbatim>\<open>utf8.DecodeRuneInString\<close>: the rune and its width in bytes, and whether it was valid.\<close>

fun decode_rune :: "nat list \<Rightarrow> nat \<times> nat \<times> bool" where
  "decode_rune [] = (rune_error, 0, False)"
| "decode_rune (b # bs) =
     (if b < 128 then (b, 1, True)
      else if 194 \<le> b \<and> b \<le> 223 then
        (case bs of
           b1 # _ \<Rightarrow> if is_cont b1 then ((b - 192) * 64 + (b1 - 128), 2, True)
                     else (rune_error, 1, False)
         | [] \<Rightarrow> (rune_error, 1, False))
      else if 224 \<le> b \<and> b \<le> 239 then
        (case bs of
           b1 # b2 # _ \<Rightarrow>
             if accept2 b b1 \<and> is_cont b2
             then ((b - 224) * 4096 + (b1 - 128) * 64 + (b2 - 128), 3, True)
             else (rune_error, 1, False)
         | _ \<Rightarrow> (rune_error, 1, False))
      else if 240 \<le> b \<and> b \<le> 244 then
        (case bs of
           b1 # b2 # b3 # _ \<Rightarrow>
             if accept2 b b1 \<and> is_cont b2 \<and> is_cont b3
             then ((b - 240) * 262144 + (b1 - 128) * 4096 + (b2 - 128) * 64 + (b3 - 128), 4, True)
             else (rune_error, 1, False)
         | _ \<Rightarrow> (rune_error, 1, False))
      else (rune_error, 1, False))"

lemma decode_rune_width: "bs \<noteq> [] \<Longrightarrow> 0 < fst (snd (decode_rune bs))"
  by (cases bs) (auto split: list.splits)

text \<open>
  The decoded sequence: each rune with the bytes it came from and whether they were well
  formed. \<open>runes\<close> is what \<^verbatim>\<open>range\<close> yields.
\<close>

function decode :: "string \<Rightarrow> (nat \<times> string \<times> bool) list" where
  "decode s =
     (if s = [] then []
      else (let d = decode_rune (map of_char s); w = fst (snd d)
            in (fst d, take w s, snd (snd d)) # decode (drop w s)))"
  by pat_completeness auto
termination
  by (relation "measure length") (simp_all add: decode_rune_width)

declare decode.simps [simp del]

definition runes :: "string \<Rightarrow> nat list" where
  "runes s = map fst (decode s)"

text \<open>\<^verbatim>\<open>utf8.Valid\<close>.\<close>

definition utf8_valid :: "string \<Rightarrow> bool" where
  "utf8_valid s = list_all (\<lambda>(_, _, ok). ok) (decode s)"

lemma decode_Nil [simp]: "decode [] = []"
  by (simp add: decode.simps)

lemma runes_Nil [simp]: "runes [] = []"
  by (simp add: runes_def)

lemma decode_ascii_Cons [simp]:
  "byte c < 128 \<Longrightarrow> decode (c # s) = (byte c, [c], True) # decode s"
  by (subst decode.simps) simp

lemma runes_ascii_Cons [simp]: "byte c < 128 \<Longrightarrow> runes (c # s) = byte c # runes s"
  by (simp add: runes_def)

lemma runes_ascii: "list_all (\<lambda>c. byte c < 128) s \<Longrightarrow> runes s = map of_char s"
  by (induction s) auto

definition is_scalar :: "nat \<Rightarrow> bool" where
  "is_scalar r = (r \<le> 1114111 \<and> \<not> (55296 \<le> r \<and> r \<le> 57343))"

text \<open>
  The four ways a lead byte outside ASCII decodes: malformed, or a sequence of two, three
  or four bytes.
\<close>

lemma decode_rune_cases:
  assumes "128 \<le> b"
  obtains (bad) "decode_rune (b # bs) = (rune_error, 1, False)"
    | (two) b1 where "194 \<le> b" "b \<le> 223" "is_cont b1"
        "fst (decode_rune (b # bs)) = (b - 192) * 64 + (b1 - 128)"
    | (three) b1 b2 where "224 \<le> b" "b \<le> 239" "accept2 b b1" "is_cont b2"
        "fst (decode_rune (b # bs)) = (b - 224) * 4096 + (b1 - 128) * 64 + (b2 - 128)"
    | (four) b1 b2 b3 where "240 \<le> b" "b \<le> 244" "accept2 b b1" "is_cont b2" "is_cont b3"
        "fst (decode_rune (b # bs)) =
           (b - 240) * 262144 + (b1 - 128) * 4096 + (b2 - 128) * 64 + (b3 - 128)"
proof -
  consider "194 \<le> b" "b \<le> 223" | "224 \<le> b" "b \<le> 239" | "240 \<le> b" "b \<le> 244"
    | "b < 194 \<or> 244 < b" by linarith
  then show thesis
  proof cases
    case 1
    show ?thesis
    proof (cases "bs \<noteq> [] \<and> is_cont (hd bs)")
      case True
      with assms 1 show ?thesis by (intro two [of "hd bs"]) (auto simp: neq_Nil_conv)
    next
      case False
      with assms 1 show ?thesis by (intro bad) (auto split: list.split)
    qed
  next
    case 2
    show ?thesis
    proof (cases "\<exists>b1 b2 cs. bs = b1 # b2 # cs \<and> accept2 b b1 \<and> is_cont b2")
      case True
      with assms 2 show ?thesis by (elim exE) (rule three, auto)
    next
      case False
      with assms 2 show ?thesis by (intro bad) (auto split: list.split)
    qed
  next
    case 3
    show ?thesis
    proof (cases "\<exists>b1 b2 b3 cs. bs = b1 # b2 # b3 # cs \<and> accept2 b b1 \<and> is_cont b2 \<and> is_cont b3")
      case True
      with assms 3 show ?thesis by (elim exE) (rule four, auto)
    next
      case False
      with assms 3 show ?thesis by (intro bad) (auto split: list.split)
    qed
  next
    case 4
    with assms bad show ?thesis by auto
  qed
qed

lemma accept2_low: "accept2 b b1 \<Longrightarrow> 128 \<le> b1 \<and> b1 \<le> 191 \<and> (b = 224 \<longrightarrow> 160 \<le> b1) \<and>
    (b = 237 \<longrightarrow> b1 \<le> 159) \<and> (b = 240 \<longrightarrow> 144 \<le> b1) \<and> (b = 244 \<longrightarrow> b1 \<le> 143)"
  by (simp add: accept2_def is_cont_def split: if_splits)

text \<open>A byte outside ASCII decodes to a scalar value outside ASCII.\<close>

lemma decode_rune_non_ascii:
  assumes "128 \<le> b"
  shows "128 \<le> fst (decode_rune (b # bs)) \<and> is_scalar (fst (decode_rune (b # bs)))"
using assms
proof (cases rule: decode_rune_cases [where bs = bs])
  case bad
  then show ?thesis by (simp add: rune_error_def is_scalar_def)
next
  case (two b1)
  define x y where xy: "x = b - 192" "y = b1 - 128"
  have "2 \<le> x" "x < 32" "y < 64" using two(1,2,3) by (auto simp: xy is_cont_def)
  then show ?thesis unfolding two(4) xy [symmetric] is_scalar_def by simp
next
  case (three b1 b2)
  define x y z where xyz: "x = b - 224" "y = b1 - 128" "z = b2 - 128"
  have "x < 16" "y < 64" "z < 64" "x = 0 \<longrightarrow> 32 \<le> y" "x = 13 \<longrightarrow> y < 32"
    using three(1,2,4) accept2_low [OF three(3)] by (auto simp: xyz is_cont_def)
  moreover from this have "x \<le> 12 \<or> x = 13 \<and> y < 32 \<or> 14 \<le> x" by linarith
  ultimately show ?thesis unfolding three(5) xyz [symmetric] is_scalar_def by (elim disjE) auto
next
  case (four b1 b2 b3)
  define x y z u where xyz: "x = b - 240" "y = b1 - 128" "z = b2 - 128" "u = b3 - 128"
  have "x \<le> 4" "y < 64" "z < 64" "u < 64" "x = 0 \<longrightarrow> 16 \<le> y" "x = 4 \<longrightarrow> y < 16"
    using four(1,2,4,5) accept2_low [OF four(3)] by (auto simp: xyz is_cont_def)
  then show ?thesis unfolding four(6) xyz [symmetric] is_scalar_def by auto
qed

lemma decode_Cons_non_ascii:
  "128 \<le> byte c \<Longrightarrow> \<exists>r w ok rest. decode (c # s) = (r, w, ok) # rest \<and> 128 \<le> r"
proof -
  assume c: "128 \<le> byte c"
  obtain r w ok where d: "decode_rune (map of_char (c # s)) = (r, w, ok)"
    by (cases "decode_rune (map of_char (c # s) :: nat list)")
  have "128 \<le> r" using decode_rune_non_ascii [OF c, of "map of_char s"] d by simp
  with d show ?thesis by (subst decode.simps) auto
qed

lemma list_all_runes_ascii_imp:
  assumes "list_all P (runes s)" and "\<And>r. P r \<Longrightarrow> r < 128"
  shows "list_all (\<lambda>c. byte c < 128) s"
  using assms(1)
proof (induction s)
  case Nil
  then show ?case by simp
next
  case (Cons c s)
  show ?case
  proof (cases "byte c < 128")
    case True
    with Cons show ?thesis by simp
  next
    case False
    then obtain r w ok rest where "decode (c # s) = (r, w, ok) # rest" "128 \<le> r"
      using decode_Cons_non_ascii [of c s] by auto
    with Cons.prems have "P r" by (simp add: runes_def)
    with assms(2) [of r] \<open>128 \<le> r\<close> show ?thesis by simp
  qed
qed

text \<open>
  A check that only ASCII runes can pass may be read bytewise: this is what makes the
  \<^verbatim>\<open>for _, c := range s\<close> validators of the sources properties of the bytes.
\<close>

lemma list_all_runes_ascii:
  assumes "\<And>r. P r \<Longrightarrow> r < 128"
  shows "list_all P (runes s) \<longleftrightarrow> list_all (\<lambda>c. P (byte c)) s"
proof
  assume "list_all P (runes s)"
  moreover from this assms have "list_all (\<lambda>c. byte c < 128) s"
    by (rule list_all_runes_ascii_imp)
  ultimately show "list_all (\<lambda>c. P (byte c)) s" by (simp add: runes_ascii list_all_iff)
next
  assume p: "list_all (\<lambda>c. P (byte c)) s"
  with assms have "list_all (\<lambda>c. byte c < 128) s" by (auto simp: list_all_iff)
  with p show "list_all P (runes s)" by (simp add: runes_ascii list_all_iff)
qed

section \<open>Encoding\<close>

text \<open>\<^verbatim>\<open>utf8.AppendRune\<close>: an invalid rune is written as U+FFFD.\<close>

definition encode_rune :: "nat \<Rightarrow> string" where
  "encode_rune r0 =
     (let r = (if is_scalar r0 then r0 else rune_error) in
      map char_of
        (if r < 128 then [r]
         else if r < 2048 then [192 + r div 64, 128 + r mod 64]
         else if r < 65536 then [224 + r div 4096, 128 + r div 64 mod 64, 128 + r mod 64]
         else [240 + r div 262144, 128 + r div 4096 mod 64, 128 + r div 64 mod 64,
               128 + r mod 64]))"

definition encode :: "nat list \<Rightarrow> string" where
  "encode rs = concat (map encode_rune rs)"

lemma encode_rune_ascii: "byte c < 128 \<Longrightarrow> encode_rune (byte c) = [c]"
  by (simp add: encode_rune_def is_scalar_def)

lemma encode_ascii: "list_all (\<lambda>c. byte c < 128) s \<Longrightarrow> encode (map of_char s) = s"
  by (induction s) (simp_all add: encode_def encode_rune_ascii)

lemma encode_Nil [simp]: "encode [] = []"
  by (simp add: encode_def)

lemma encode_Cons [simp]: "encode (r # rs) = encode_rune r @ encode rs"
  by (simp add: encode_def)

lemma encode_append [simp]: "encode (rs @ ts) = encode rs @ encode ts"
  by (simp add: encode_def)

lemma decode_encode_rune:
  assumes "is_scalar r"
  shows "decode_rune (map of_char (encode_rune r @ s)) = (r, length (encode_rune r), True)"
proof -
  consider "r < 128" | "128 \<le> r" "r < 2048" | "2048 \<le> r" "r < 65536" | "65536 \<le> r"
    by linarith
  then show ?thesis
  proof cases
    case 1
    with assms show ?thesis by (simp add: encode_rune_def)
  next
    case 2
    define a b where ab: "a = r div 64" "b = r mod 64"
    have "2 \<le> a" "a < 32" "b < 64" "a * 64 + b = r" using 2 by (auto simp: ab)
    moreover have "encode_rune r = map char_of [192 + a, 128 + b]"
      using 2 assms by (simp add: encode_rune_def ab)
    ultimately show ?thesis by (simp add: is_cont_def)
  next
    case 3
    define q a b c where abc: "q = r div 64" "a = q div 64" "b = q mod 64" "c = r mod 64"
    have "q * 64 + c = r" "a * 64 + b = q" by (simp_all add: abc)
    then have r: "a * 4096 + b * 64 + c = r" by linarith
    have bd: "b < 64" "c < 64" "a < 16" using 3 r by (simp_all add: abc)
    have "a = 0 \<longrightarrow> 32 \<le> b" "a = 13 \<longrightarrow> b < 32"
      using 3 assms r bd by (auto simp: is_scalar_def)
    moreover have "encode_rune r = map char_of [224 + a, 128 + b, 128 + c]"
      using 3 assms by (simp add: encode_rune_def abc div_mult2_eq [symmetric])
    ultimately show ?thesis using r bd by (auto simp: is_cont_def accept2_def)
  next
    case 4
    define p q a b c d where abcd: "p = r div 64" "q = p div 64" "a = q div 64" "b = q mod 64"
      "c = p mod 64" "d = r mod 64"
    have "p * 64 + d = r" "q * 64 + c = p" "a * 64 + b = q" by (simp_all add: abcd)
    then have r: "a * 262144 + b * 4096 + c * 64 + d = r" by linarith
    have bd: "b < 64" "c < 64" "d < 64" by (simp_all add: abcd)
    have "a \<le> 4" using assms r by (simp add: is_scalar_def)
    have "a = 0 \<longrightarrow> 16 \<le> b" "a = 4 \<longrightarrow> b < 16"
      using 4 assms r bd by (auto simp: is_scalar_def)
    moreover have "encode_rune r = map char_of [240 + a, 128 + b, 128 + c, 128 + d]"
      using 4 assms by (simp add: encode_rune_def abcd div_mult2_eq [symmetric])
    ultimately show ?thesis using r bd \<open>a \<le> 4\<close> by (auto simp: is_cont_def accept2_def)
  qed
qed

lemma encode_rune_not_Nil [simp]: "encode_rune r \<noteq> []"
  by (simp add: encode_rune_def Let_def)

lemma decode_encode_rune_append:
  assumes "is_scalar r"
  shows "decode (encode_rune r @ s) = (r, encode_rune r, True) # decode s"
  using decode_encode_rune [OF assms, of s] by (subst decode.simps) simp

lemma runes_encode_rune_append:
  "is_scalar r \<Longrightarrow> runes (encode_rune r @ s) = r # runes s"
  by (simp add: runes_def decode_encode_rune_append)

text \<open>\<^verbatim>\<open>[]rune(string(rs))\<close> is \<^verbatim>\<open>rs\<close>, for scalar values.\<close>

lemma runes_encode: "list_all is_scalar rs \<Longrightarrow> runes (encode rs) = rs"
  by (induction rs) (auto simp: runes_encode_rune_append)

lemma runes_encode_append:
  "list_all is_scalar rs \<Longrightarrow> runes (encode rs @ s) = rs @ runes s"
  by (induction rs) (auto simp: runes_encode_rune_append)

lemma utf8_valid_encode: "list_all is_scalar rs \<Longrightarrow> utf8_valid (encode rs)"
  by (induction rs) (auto simp: utf8_valid_def decode_encode_rune_append)

lemma is_scalar_rune_error [simp]: "is_scalar rune_error"
  by (simp add: is_scalar_def rune_error_def)

lemma decode_rune_scalar: "is_scalar (fst (decode_rune bs))"
proof (cases bs)
  case Nil
  then show ?thesis by simp
next
  case (Cons b bs')
  show ?thesis
  proof (cases "b < 128")
    case True
    with Cons show ?thesis by (simp add: is_scalar_def)
  next
    case False
    then show ?thesis using decode_rune_non_ascii [of b bs'] unfolding Cons by simp
  qed
qed

lemma runes_scalar: "list_all is_scalar (runes s)"
proof (induction s rule: decode.induct)
  case (1 s)
  show ?case
  proof (cases "s = []")
    case True
    then show ?thesis by simp
  next
    case False
    obtain r w ok where d: "decode_rune (map of_char s) = (r, w, ok)"
      by (cases "decode_rune (map of_char s :: nat list)")
    have "runes s = r # runes (drop w s)"
      using False d by (simp add: runes_def decode.simps [of s])
    moreover have "is_scalar r" using decode_rune_scalar [of "map of_char s"] d by simp
    ultimately show ?thesis using "1.IH" [OF False refl refl] d by simp
  qed
qed

section \<open>Spaces and case\<close>

text \<open>\<^verbatim>\<open>unicode.IsSpace\<close>.\<close>

definition is_space :: "nat \<Rightarrow> bool" where
  "is_space r =
     (9 \<le> r \<and> r \<le> 13 \<or> r = 32 \<or> r = 133 \<or> r = 160 \<or> r = 5760 \<or> 8192 \<le> r \<and> r \<le> 8202
      \<or> r = 8232 \<or> r = 8233 \<or> r = 8239 \<or> r = 8287 \<or> r = 12288)"

text \<open>For evaluation: numerals of \<^typ>\<open>nat\<close> are unary.\<close>

lemma is_space_code [code]:
  "is_space r =
     (let i = int r in 9 \<le> i \<and> i \<le> 13 \<or> i = 32 \<or> i = 133 \<or> i = 160 \<or> i = 5760 \<or> 8192 \<le> i \<and> i \<le> 8202
      \<or> i = 8232 \<or> i = 8233 \<or> i = 8239 \<or> i = 8287 \<or> i = 12288)"
  unfolding is_space_def Let_def by presburger

definition trim_space :: "string \<Rightarrow> string" where
  "trim_space s =
     (let sp = (\<lambda>(r, _, ok). ok \<and> is_space r) in
      concat (map (\<lambda>(_, w, _). w) (rev (dropWhile sp (rev (dropWhile sp (decode s)))))))"

text \<open>\<^verbatim>\<open>strings.Fields\<close>: the maximal runs of non-space runes.\<close>

fun group_fields :: "(nat \<times> string \<times> bool) list \<Rightarrow> string \<Rightarrow> string list" where
  "group_fields [] acc = (if acc = [] then [] else [acc])"
| "group_fields ((r, w, ok) # ds) acc =
     (if ok \<and> is_space r then (if acc = [] then [] else [acc]) @ group_fields ds []
      else group_fields ds (acc @ w))"

definition fields :: "string \<Rightarrow> string list" where
  "fields s = group_fields (decode s) []"

definition ascii_lower :: "char \<Rightarrow> char" where
  "ascii_lower c = (if is_upper c then char_of (byte c + 32) else c)"

definition ascii_upper :: "char \<Rightarrow> char" where
  "ascii_upper c = (if is_lower c then char_of (byte c - 32) else c)"

text \<open>
  \<^verbatim>\<open>strings.ToLower\<close> and \<^verbatim>\<open>strings.ToUpper\<close>. Outside ASCII they map every rune with the tables of
  the \<^verbatim>\<open>unicode\<close> package, which are the parameter \<open>table\<close>; a malformed byte becomes U+FFFD.
\<close>

definition map_case :: "(char \<Rightarrow> char) \<Rightarrow> (nat \<Rightarrow> nat) \<Rightarrow> string \<Rightarrow> string" where
  "map_case ascii table s =
     (if list_all (\<lambda>c. byte c < 128) s then map ascii s
      else encode (map (\<lambda>r. if r < 128 then byte (ascii (char_of r)) else table r) (runes s)))"

definition to_lower :: "(nat \<Rightarrow> nat) \<Rightarrow> string \<Rightarrow> string" where
  "to_lower table = map_case ascii_lower table"

definition to_upper :: "(nat \<Rightarrow> nat) \<Rightarrow> string \<Rightarrow> string" where
  "to_upper table = map_case ascii_upper table"

lemma map_case_Cons:
  assumes "byte c < 128" "byte (ascii c) < 128"
  shows "map_case ascii table (c # s) = ascii c # map_case ascii table s"
proof -
  have "encode_rune (byte (ascii c)) = [ascii c]" using assms(2) by (rule encode_rune_ascii)
  then show ?thesis using assms(1) by (simp add: map_case_def)
qed

lemma ascii_case: "byte c < 128 \<Longrightarrow> byte (ascii_lower c) < 128" "byte c < 128 \<Longrightarrow> byte (ascii_upper c) < 128"
  by (auto simp: ascii_lower_def ascii_upper_def is_upper_def is_lower_def)

lemma to_lower_Cons: "byte c < 128 \<Longrightarrow> to_lower table (c # s) = ascii_lower c # to_lower table s"
  by (simp add: to_lower_def map_case_Cons ascii_case)

lemma to_upper_Cons: "byte c < 128 \<Longrightarrow> to_upper table (c # s) = ascii_upper c # to_upper table s"
  by (simp add: to_upper_def map_case_Cons ascii_case)

lemma decode_concat: "concat (map (\<lambda>(_, w, _). w) (decode s)) = s"
proof (induction s rule: decode.induct)
  case (1 s)
  show ?case
  proof (cases "s = []")
    case True
    then show ?thesis by simp
  next
    case False
    obtain r w ok where d: "decode_rune (map of_char s) = (r, w, ok)"
      by (cases "decode_rune (map of_char s :: nat list)")
    have "decode s = (r, take w s, ok) # decode (drop w s)"
      using False d by (simp add: decode.simps [of s])
    with "1.IH" [OF False refl refl] d show ?thesis by simp
  qed
qed

lemma trim_space_Nil [simp]: "trim_space [] = []"
  by (simp add: trim_space_def)

end
