(* ===== verification/Domain.thy ===== *)
theory Domain
  imports Utf8 "HOL-Library.Word"
begin

text \<open>
  \<^verbatim>\<open>internal/domain\<close>: content digests, project and request identifiers, platforms, and
  the rendering of field diagnostics. Every textual value type of the program is a parser
  and a printer that are inverse to each other; that contract is the locale
  \<open>text_codec\<close>, interpreted here for digests, optional digests, project
  identifiers, request identifiers and platforms, and in the schema for its enumerations.
\<close>

unbundle bit_operations_syntax

section \<open>The contract of a textual value\<close>

locale text_codec =
  fixes parse :: "string \<Rightarrow> 'e + 'a"
    and show_text :: "'a \<Rightarrow> string"
    and wf :: "'a \<Rightarrow> bool"
  assumes parse_show: "wf x \<Longrightarrow> parse (show_text x) = Inr x"
    and parse_sound: "parse s = Inr x \<Longrightarrow> wf x \<and> show_text x = s"
begin

lemma parse_eq_Inr_iff: "parse s = Inr x \<longleftrightarrow> wf x \<and> show_text x = s"
  using parse_show parse_sound by blast

lemma show_inj: "wf x \<Longrightarrow> wf y \<Longrightarrow> show_text x = show_text y \<Longrightarrow> x = y"
  using parse_show by (metis sum.inject(2))

lemma parse_inj: "parse s = Inr x \<Longrightarrow> parse t = Inr x \<Longrightarrow> s = t"
  using parse_sound by blast

lemma accepts_iff: "(\<exists>x. parse s = Inr x) \<longleftrightarrow> s \<in> show_text ` {x. wf x}"
  using parse_show parse_sound by auto

end

section \<open>Digests (digest.go)\<close>

record digest =
  algorithm :: string
  hex :: string

definition zero_digest :: digest where
  "zero_digest = \<lparr>algorithm = '''', hex = ''''\<rparr>"

definition sha256Alg :: string where
  "sha256Alg = ''sha256''"

definition is_lower_hex :: "nat \<Rightarrow> bool" where
  "is_lower_hex c = (48 \<le> c \<and> c \<le> 57 \<or> 97 \<le> c \<and> c \<le> 102)"

definition ParseDigest :: "string \<Rightarrow> error + digest" where
  "ParseDigest s =
     (case cut s '':'' of
        (alg, hx, ok) \<Rightarrow>
          if \<not> ok \<or> alg \<noteq> sha256Alg
          then Inl (Class ErrInvalid ''%w: digest %q: want sha256:<hex>'' [s])
          else if length hx \<noteq> 64
          then Inl (Class ErrInvalid ''%w: digest %q: want %d hex characters'' [s, itoa 64])
          else if \<not> list_all is_lower_hex (runes hx)
          then Inl (Class ErrInvalid ''%w: digest %q: non-lowercase-hex character'' [s])
          else Inr \<lparr>algorithm = sha256Alg, hex = hx\<rparr>)"

text \<open>
  \<^verbatim>\<open>crypto/sha256\<close> followed by \<^verbatim>\<open>hex.EncodeToString\<close> is the parameter \<open>sha\<close> of the
  definitions that hash; \<open>hex_hash\<close> is the documented shape of its result.
\<close>

definition hex_hash :: "(string \<Rightarrow> string) \<Rightarrow> bool" where
  "hex_hash sha = (\<forall>b. length (sha b) = 64 \<and> list_all (\<lambda>c. is_lower_hex (byte c)) (sha b))"

definition SHA256 :: "(string \<Rightarrow> string) \<Rightarrow> string \<Rightarrow> digest" where
  "SHA256 sha b = \<lparr>algorithm = sha256Alg, hex = sha b\<rparr>"

definition Digest_IsZero :: "digest \<Rightarrow> bool" where
  "Digest_IsZero d = (d = zero_digest)"

definition Digest_String :: "digest \<Rightarrow> string" where
  "Digest_String d = (if Digest_IsZero d then '''' else algorithm d @ '':'' @ hex d)"

definition Digest_Short :: "digest \<Rightarrow> string" where
  "Digest_Short d = (if length (hex d) > 12 then take 12 (hex d) else hex d)"

definition Digest_MarshalText :: "digest \<Rightarrow> string" where
  "Digest_MarshalText d = Digest_String d"

definition Digest_UnmarshalText :: "string \<Rightarrow> error + digest" where
  "Digest_UnmarshalText b =
     (if b = [] then Inr zero_digest else ParseDigest b)"

text \<open>A digest is valid when a constructor made it: the non-zero values of the type.\<close>

definition valid_digest :: "digest \<Rightarrow> bool" where
  "valid_digest d =
     (algorithm d = sha256Alg \<and> length (hex d) = 64 \<and> list_all (\<lambda>c. is_lower_hex (byte c)) (hex d))"

lemma is_lower_hex_ascii: "is_lower_hex r \<Longrightarrow> r < 128"
  by (auto simp: is_lower_hex_def)

lemma valid_digest_not_zero: "valid_digest d \<Longrightarrow> \<not> Digest_IsZero d"
  by (auto simp: valid_digest_def Digest_IsZero_def zero_digest_def sha256Alg_def)

lemma valid_digest_SHA256: "hex_hash sha \<Longrightarrow> valid_digest (SHA256 sha b)"
  by (simp add: valid_digest_def SHA256_def hex_hash_def)

lemma Digest_String_valid:
  "valid_digest d \<Longrightarrow> Digest_String d = ''sha256'' @ CHR '':'' # hex d"
  by (simp add: Digest_String_def valid_digest_not_zero) (simp add: valid_digest_def sha256Alg_def)

interpretation digest_text: text_codec ParseDigest Digest_String valid_digest
proof
  fix d :: digest
  assume d: "valid_digest d"
  have "cut (Digest_String d) '':'' = (''sha256'', hex d, True)"
    unfolding Digest_String_valid [OF d] by (rule cut_single) simp
  with d show "ParseDigest (Digest_String d) = Inr d"
    by (simp add: ParseDigest_def valid_digest_def sha256Alg_def
        list_all_runes_ascii [OF is_lower_hex_ascii])
next
  fix s d
  assume p: "ParseDigest s = Inr d"
  then obtain hx where c: "cut s '':'' = (sha256Alg, hx, True)"
      and d: "d = \<lparr>algorithm = sha256Alg, hex = hx\<rparr>"
      and ok: "length hx = 64" "list_all (\<lambda>c. is_lower_hex (byte c)) hx"
    by (auto simp: ParseDigest_def list_all_runes_ascii [OF is_lower_hex_ascii]
        split: prod.splits if_splits)
  have v: "valid_digest d" using d ok by (simp add: valid_digest_def)
  moreover have "s = sha256Alg @ CHR '':'' # hx" using cut_single_True [OF c] by simp
  ultimately show "valid_digest d \<and> Digest_String d = s"
    using d by (simp add: Digest_String_valid sha256Alg_def)
qed

text \<open>With the empty text for the zero digest, optional digest fields round-trip too.\<close>

interpretation optional_digest_text: text_codec
  Digest_UnmarshalText Digest_MarshalText "\<lambda>d. valid_digest d \<or> d = zero_digest"
proof
  fix d :: digest
  assume "valid_digest d \<or> d = zero_digest"
  then show "Digest_UnmarshalText (Digest_MarshalText d) = Inr d"
  proof
    assume d: "valid_digest d"
    then have "Digest_String d \<noteq> []" by (simp add: Digest_String_valid)
    with d show ?thesis
      by (simp add: Digest_UnmarshalText_def Digest_MarshalText_def digest_text.parse_show)
  next
    assume "d = zero_digest"
    then show ?thesis
      by (simp add: Digest_UnmarshalText_def Digest_MarshalText_def Digest_String_def Digest_IsZero_def)
  qed
next
  fix s d
  assume "Digest_UnmarshalText s = Inr d"
  then show "(valid_digest d \<or> d = zero_digest) \<and> Digest_MarshalText d = s"
    by (auto simp: Digest_UnmarshalText_def Digest_MarshalText_def Digest_String_def Digest_IsZero_def
        dest: digest_text.parse_sound split: if_splits)
qed

section \<open>Identifiers (ids.go)\<close>

definition base32lower :: string where
  "base32lower = ''abcdefghijklmnopqrstuvwxyz234567''"

definition projectIDLen :: nat where
  "projectIDLen = 26"

definition base32_char :: "64 word \<Rightarrow> char" where
  "base32_char w = base32lower ! unat (w AND 31)"

text \<open>The inner loop of \<^verbatim>\<open>NewProjectID\<close>: emit a character for every five pending bits.\<close>

fun emit5 :: "64 word \<Rightarrow> nat \<Rightarrow> string \<Rightarrow> nat \<times> string" where
  "emit5 acc bits out =
     (if bits \<ge> 5 then emit5 acc (bits - 5) (out @ [base32_char (drop_bit (bits - 5) acc)])
      else (bits, out))"

declare emit5.simps [simp del]

fun encode_bytes :: "8 word list \<Rightarrow> 64 word \<Rightarrow> nat \<Rightarrow> string \<Rightarrow> 64 word \<times> nat \<times> string" where
  "encode_bytes [] acc bits out = (acc, bits, out)"
| "encode_bytes (b # bs) acc bits out =
     (let acc' = push_bit 8 acc OR ucast b;
          (bits', out') = emit5 acc' (bits + 8) out
      in encode_bytes bs acc' bits' out')"

text \<open>
  \<^verbatim>\<open>NewProjectID\<close>: the sixteen random bytes (or the failure of \<^verbatim>\<open>rand.Read\<close>) are the
  argument. \<^verbatim>\<open>uint\<close> is 64 bits wide on every supported platform, so \<^verbatim>\<open>acc\<close> wraps there.
\<close>

definition NewProjectID :: "error + 8 word list \<Rightarrow> error + string" where
  "NewProjectID rand =
     (case rand of
        Inl e \<Rightarrow> Inl (Wrapped ''generate project id: %w'' [] e)
      | Inr raw \<Rightarrow>
          (case encode_bytes raw 0 0 [] of
             (acc, bits, out) \<Rightarrow>
               Inr (if bits > 0 then out @ [base32_char (push_bit (5 - bits) acc)] else out)))"

definition is_base32_rune :: "nat \<Rightarrow> bool" where
  "is_base32_rune c = (97 \<le> c \<and> c \<le> 122 \<or> 50 \<le> c \<and> c \<le> 55)"

definition ParseProjectID :: "string \<Rightarrow> error + string" where
  "ParseProjectID s =
     (if length s \<noteq> projectIDLen
      then Inl (Class ErrInvalid ''%w: project id %q: want %d characters'' [s, itoa projectIDLen])
      else if \<not> list_all is_base32_rune (runes s)
      then Inl (Class ErrInvalid ''%w: project id %q: non-base32 character'' [s])
      else Inr s)"

definition request_rune_ok :: "nat \<Rightarrow> nat \<Rightarrow> bool" where
  "request_rune_ok i c = (97 \<le> c \<and> c \<le> 122 \<or> 48 \<le> c \<and> c \<le> 57 \<or> c = 45 \<and> i > 0)"

definition ParseRequestID :: "string \<Rightarrow> error + string" where
  "ParseRequestID s =
     (if length s = 0 \<or> length s > 64
      then Inl (Class ErrInvalid ''%w: request id: want 1-64 characters, got %d'' [itoa (length s)])
      else if \<not> list_all (\<lambda>(i, c). request_rune_ok i c) (enumerate 0 (runes s))
      then Inl (Class ErrInvalid
             ''%w: request id %q: allowed are [a-z0-9-], starting alphanumeric'' [s])
      else Inr s)"

lemma is_base32_rune_ascii: "is_base32_rune r \<Longrightarrow> r < 128"
  by (auto simp: is_base32_rune_def)

definition valid_project_id :: "string \<Rightarrow> bool" where
  "valid_project_id s = (length s = 26 \<and> list_all (\<lambda>c. is_base32_rune (byte c)) s)"

interpretation project_id_text: text_codec ParseProjectID "\<lambda>s. s" valid_project_id
  by unfold_locales
     (auto simp: ParseProjectID_def valid_project_id_def projectIDLen_def
       list_all_runes_ascii [OF is_base32_rune_ascii] split: if_splits)

lemma base32_char_ok: "is_base32_rune (byte (base32_char w))"
proof -
  have "unat (w AND 31) \<le> unat (31 :: 64 word)"
    by (rule word_and_le1 [THEN word_le_nat_alt [THEN iffD1]])
  then have "unat (w AND 31) < 32" by simp
  moreover have "\<forall>i < 32. is_base32_rune (byte (base32lower ! i))"
    by (simp add: base32lower_def is_base32_rune_def All_less_Suc numeral_eq_Suc)
  ultimately show ?thesis by (simp add: base32_char_def)
qed

text \<open>
  The encoder keeps its books: five bits per emitted character plus the pending ones are
  the bits read so far, fewer than five stay pending, and only alphabet characters appear.
\<close>

lemma emit5_invariant:
  assumes "emit5 acc bits out = (bits', out')"
    and "list_all (\<lambda>c. is_base32_rune (byte c)) out"
  shows "5 * length out' + bits' = 5 * length out + bits \<and> bits' < 5 \<and>
    list_all (\<lambda>c. is_base32_rune (byte c)) out'"
  using assms
proof (induction acc bits out rule: emit5.induct)
  case (1 acc bits out)
  show ?case
  proof (cases "bits \<ge> 5")
    case True
    with 1 show ?thesis
      by (force simp: emit5.simps [of acc bits out] base32_char_ok)
  next
    case False
    with "1.prems" show ?thesis by (simp add: emit5.simps [of acc bits out])
  qed
qed

lemma encode_bytes_invariant:
  assumes "encode_bytes bs acc bits out = (acc', bits', out')" and "bits < 5"
    and "list_all (\<lambda>c. is_base32_rune (byte c)) out"
  shows "5 * length out' + bits' = 5 * length out + bits + 8 * length bs \<and> bits' < 5 \<and>
    list_all (\<lambda>c. is_base32_rune (byte c)) out'"
  using assms
proof (induction bs arbitrary: acc bits out)
  case Nil
  then show ?case by simp
next
  case (Cons b bs)
  let ?acc = "push_bit 8 acc OR ucast b"
  obtain bits1 out1 where e: "emit5 ?acc (bits + 8) out = (bits1, out1)"
    by (cases "emit5 ?acc (bits + 8) out")
  from emit5_invariant [OF e Cons.prems(3)] Cons.IH [of ?acc bits1 out1] Cons.prems(1) e
  show ?case by simp
qed

section \<open>Platforms (platform.go)\<close>

record platform =
  OS :: string
  Arch :: string

definition supported :: "platform \<Rightarrow> bool" where
  "supported p =
     (p \<in> {\<lparr>OS = ''linux'', Arch = ''amd64''\<rparr>, \<lparr>OS = ''linux'', Arch = ''arm64''\<rparr>,
           \<lparr>OS = ''darwin'', Arch = ''arm64''\<rparr>})"

definition ParsePlatform :: "string \<Rightarrow> error + platform" where
  "ParsePlatform s =
     (case cut s ''-'' of
        (os, arch, ok) \<Rightarrow>
          if \<not> ok \<or> os = '''' \<or> arch = ''''
          then Inl (Class ErrInvalid ''%w: platform %q: want <os>-<arch>'' [s])
          else if \<not> supported \<lparr>OS = os, Arch = arch\<rparr>
          then Inl (Class ErrNotSupported ''%w: platform %q'' [s])
          else Inr \<lparr>OS = os, Arch = arch\<rparr>)"

definition Platform_String :: "platform \<Rightarrow> string" where
  "Platform_String p = OS p @ ''-'' @ Arch p"

interpretation platform_text: text_codec ParsePlatform Platform_String supported
proof
  fix p
  assume "supported p"
  then show "ParsePlatform (Platform_String p) = Inr p"
    by (auto simp: supported_def Platform_String_def ParsePlatform_def cut_def has_prefix_def)
next
  fix s p
  assume "ParsePlatform s = Inr p"
  then show "supported p \<and> Platform_String p = s"
    by (auto simp: ParsePlatform_def Platform_String_def dest: cut_single_True
        split: prod.splits if_splits)
qed

section \<open>Diagnostics (errors.go)\<close>

text \<open>
  \<^verbatim>\<open>FieldError.Error\<close>: the four shapes of a rendered diagnostic, as a format string with
  its arguments.
\<close>

definition FieldError_Error :: "field_error \<Rightarrow> string \<times> string list" where
  "FieldError_Error e =
     (if fe_path e \<noteq> '''' \<and> fe_line e > 0
      then (''%s (line %d, column %d): '' @ fe_message e,
            [fe_path e, itoa_int (fe_line e), itoa_int (fe_column e)] @ fe_args e)
      else if fe_path e \<noteq> '''' then (''%s: '' @ fe_message e, fe_path e # fe_args e)
      else if fe_line e > 0
      then (''line %d, column %d: '' @ fe_message e,
            [itoa_int (fe_line e), itoa_int (fe_column e)] @ fe_args e)
      else (fe_message e, fe_args e))"

record op_error =
  oe_op :: string
  oe_project :: string
  oe_err :: error

definition OpError_is :: "op_error \<Rightarrow> err_class \<Rightarrow> bool" where
  "OpError_is e c = errors_is (oe_err e) c"

section \<open>Properties\<close>

text \<open>
  Every identifier the host generates is one the host accepts: for any sixteen
  random bytes \<^verbatim>\<open>NewProjectID\<close> yields 26 characters of the base32 alphabet, and
  \<^verbatim>\<open>ParseProjectID\<close> returns exactly that identifier.
\<close>

theorem NewProjectID_parses:
  assumes "length raw = 16"
  shows "\<exists>pid. NewProjectID (Inr raw) = Inr pid \<and> length pid = projectIDLen \<and>
    ParseProjectID pid = Inr pid"
proof -
  obtain acc bits out where e: "encode_bytes raw 0 0 [] = (acc, bits, out)"
    by (cases "encode_bytes raw 0 0 []")
  from encode_bytes_invariant [OF e] assms
  have inv: "5 * length out + bits = 128" "bits < 5" "list_all (\<lambda>c. is_base32_rune (byte c)) out"
    by simp_all
  then have bits: "bits = 3" "length out = 25" by presburger+
  have "valid_project_id (out @ [base32_char (push_bit (5 - bits) acc)])"
    using inv(3) bits by (simp add: valid_project_id_def base32_char_ok)
  with bits e show ?thesis
    by (auto simp: NewProjectID_def projectIDLen_def project_id_text.parse_show valid_project_id_def)
qed

theorem NewProjectID_parses_witness:
  "\<exists>pid. NewProjectID (Inr (replicate 16 255)) = Inr pid \<and> length pid = projectIDLen \<and>
    ParseProjectID pid = Inr pid"
  by (rule NewProjectID_parses) simp

end
