(* ===== verification/Sanitize.thy ===== *)
theory Sanitize
  imports Utf8
begin

text \<open>
  \<^verbatim>\<open>internal/terminal/sanitize.go\<close>: the encoder every piece of untrusted text passes
  through on its way to the operator's terminal. The lemmas show that its output contains
  no control or format character, whatever bytes go in, that the width and line bounds
  hold, and that harmless text comes out unchanged.
\<close>

section \<open>Limits and results\<close>

record limits =
  MaxWidth :: int
  MaxLines :: int

definition limits_withDefaults :: "limits \<Rightarrow> limits" where
  "limits_withDefaults l =
     \<lparr>MaxWidth = (if MaxWidth l \<le> 0 then 120 else MaxWidth l),
      MaxLines = (if MaxLines l \<le> 0 then 40 else MaxLines l)\<rparr>"

record encoded =
  Lines :: "string list"
  Truncated :: bool

section \<open>Runes\<close>

text \<open>\<^verbatim>\<open>unicode.Cf\<close>, the format characters of Unicode 15.\<close>

definition is_format :: "nat \<Rightarrow> bool" where
  "is_format r =
     (r = 0xAD \<or> 0x600 \<le> r \<and> r \<le> 0x605 \<or> r = 0x61C \<or> r = 0x6DD \<or> r = 0x70F
      \<or> 0x890 \<le> r \<and> r \<le> 0x891 \<or> r = 0x8E2 \<or> r = 0x180E \<or> 0x200B \<le> r \<and> r \<le> 0x200F
      \<or> 0x202A \<le> r \<and> r \<le> 0x202E \<or> 0x2060 \<le> r \<and> r \<le> 0x2064 \<or> 0x2066 \<le> r \<and> r \<le> 0x206F
      \<or> r = 0xFEFF \<or> 0xFFF9 \<le> r \<and> r \<le> 0xFFFB \<or> r = 0x110BD \<or> r = 0x110CD
      \<or> 0x13430 \<le> r \<and> r \<le> 0x1343F \<or> 0x1BCA0 \<le> r \<and> r \<le> 0x1BCA3
      \<or> 0x1D173 \<le> r \<and> r \<le> 0x1D17A \<or> r = 0xE0001 \<or> 0xE0020 \<le> r \<and> r \<le> 0xE007F)"

definition is_control :: "nat \<Rightarrow> bool" where
  "is_control r = (r < 0x20 \<or> r = 0x7F \<or> 0x80 \<le> r \<and> r \<le> 0x9F)"

definition hex_digit :: "nat \<Rightarrow> nat" where
  "hex_digit d = (if d < 10 then 48 + d else 55 + d)"

fun hex_digits :: "nat \<Rightarrow> nat list" where
  "hex_digits n = (if n < 16 then [hex_digit n] else hex_digits (n div 16) @ [hex_digit (n mod 16)])"

declare hex_digits.simps [simp del]

text \<open>\<^verbatim>\<open>fmt.Fprintf(&b, "\<dots>U+%04X\<dots>", r)\<close> between U+27E8 and U+27E9, as runes.\<close>

definition visible_notation :: "nat \<Rightarrow> nat list" where
  "visible_notation r =
     (let ds = hex_digits r
      in [0x27E8, 85, 43] @ replicate (4 - length ds) 48 @ ds @ [0x27E9])"

definition sanitize_rune :: "nat \<Rightarrow> nat list" where
  "sanitize_rune r =
     (if r = 9 then [32, 32, 32, 32]
      else if r = rune_error then [rune_error]
      else if is_control r then visible_notation r
      else if is_format r then visible_notation r
      else [r])"

definition sanitizeLine :: "string \<Rightarrow> string" where
  "sanitizeLine s = encode (concat (map sanitize_rune (runes s)))"

text \<open>
  The \<^verbatim>\<open>for len(runes) > width\<close> loop of \<^verbatim>\<open>wrap\<close>. Every caller passes a positive width
  (\<open>limits_withDefaults\<close>); the loop would not end at width 0, and the guard only makes the
  definition total there.
\<close>

function wrap_runes :: "nat \<Rightarrow> nat list \<Rightarrow> nat list list" where
  "wrap_runes width rs =
     (if length rs > width \<and> width > 0
      then take width rs # wrap_runes width (drop width rs) else [rs])"
  by pat_completeness auto
termination
  by (relation "measure (\<lambda>(width, rs). length rs)") auto

declare wrap_runes.simps [simp del]

definition wrap :: "string \<Rightarrow> nat \<Rightarrow> string list" where
  "wrap s width = (if s = [] then [[]] else map encode (wrap_runes width (runes s)))"

definition truncateRunes :: "string \<Rightarrow> nat \<Rightarrow> string" where
  "truncateRunes s n = (if length (runes s) \<le> n then s else encode (take n (runes s)))"

section \<open>Encode and Line\<close>

fun add_lines :: "int \<Rightarrow> string list \<Rightarrow> encoded \<Rightarrow> encoded" where
  "add_lines maxl [] out = out"
| "add_lines maxl (w # ws) out =
     (if int (length (Lines out)) \<ge> maxl then out\<lparr>Truncated := True\<rparr>
      else add_lines maxl ws (out\<lparr>Lines := Lines out @ [w]\<rparr>))"

definition newline_char :: char where
  "newline_char = CHR 0x0A"

definition normalize_newlines :: "string \<Rightarrow> string" where
  "normalize_newlines s = replace_all (replace_all s [CHR 0x0D, CHR 0x0A] [CHR 0x0A]) [CHR 0x0D] [CHR 0x0A]"

definition Encode :: "string \<Rightarrow> limits \<Rightarrow> encoded" where
  "Encode s lim0 =
     (let lim = limits_withDefaults lim0;
          s' = normalize_newlines s
      in add_lines (MaxLines lim)
           (concat (map (\<lambda>line. wrap (sanitizeLine line) (nat (MaxWidth lim)))
              (split_on newline_char s')))
           \<lparr>Lines = [], Truncated = False\<rparr>)"

definition ellipsis :: nat where
  "ellipsis = 0x2026"

definition Line :: "string \<Rightarrow> int \<Rightarrow> string" where
  "Line s maxWidth =
     (let w = (if maxWidth < 8 then 8 else maxWidth);
          enc = Encode s \<lparr>MaxWidth = w, MaxLines = 1\<rparr>
      in case Lines enc of
           [] \<Rightarrow> []
         | l # _ \<Rightarrow> if Truncated enc then truncateRunes l (nat (w - 1)) @ encode_rune ellipsis else l)"

section \<open>Only safe runes leave the encoder\<close>

definition safe_rune :: "nat \<Rightarrow> bool" where
  "safe_rune r = (is_scalar r \<and> \<not> is_control r \<and> \<not> is_format r)"

lemma safe_rune_scalar: "list_all safe_rune rs \<Longrightarrow> list_all is_scalar rs"
  by (simp add: list_all_iff safe_rune_def)

lemma hex_digits_safe: "list_all safe_rune (hex_digits n)"
proof (induction n rule: hex_digits.induct)
  case (1 n)
  have d: "d < 16 \<Longrightarrow> safe_rune (hex_digit d)" for d
    by (simp add: safe_rune_def hex_digit_def is_scalar_def is_control_def is_format_def)
  show ?case
    using 1 by (simp add: hex_digits.simps [of n] d)
qed

lemma visible_notation_safe: "list_all safe_rune (visible_notation r)"
proof -
  have "safe_rune 0x27E8" "safe_rune 85" "safe_rune 43" "safe_rune 48" "safe_rune 0x27E9"
    by (simp_all add: safe_rune_def is_scalar_def is_control_def is_format_def)
  with hex_digits_safe [of r] show ?thesis
    by (auto simp: visible_notation_def Let_def list_all_iff)
qed

lemma sanitize_rune_safe: "is_scalar r \<Longrightarrow> list_all safe_rune (sanitize_rune r)"
proof -
  assume "is_scalar r"
  moreover have "safe_rune 32" "safe_rune rune_error"
    by (simp_all add: safe_rune_def is_scalar_def is_control_def is_format_def rune_error_def)
  ultimately show ?thesis
    by (simp add: sanitize_rune_def visible_notation_safe) (simp add: safe_rune_def)
qed

lemma sanitized_safe: "list_all safe_rune (concat (map sanitize_rune (runes s)))"
  using runes_scalar [of s] sanitize_rune_safe by (fastforce simp: list_all_iff)

lemma runes_sanitizeLine: "runes (sanitizeLine s) = concat (map sanitize_rune (runes s))"
  unfolding sanitizeLine_def by (intro runes_encode safe_rune_scalar sanitized_safe)

lemma sanitizeLine_safe: "list_all safe_rune (runes (sanitizeLine s))"
  by (simp add: runes_sanitizeLine sanitized_safe)

lemma wrap_runes_concat: "concat (wrap_runes w rs) = rs"
  by (induction w rs rule: wrap_runes.induct) (subst wrap_runes.simps, simp)

lemma wrap_runes_width: "0 < w \<Longrightarrow> \<forall>l \<in> set (wrap_runes w rs). length l \<le> w"
  by (induction w rs rule: wrap_runes.induct) (subst wrap_runes.simps, auto)

lemma wrap_runes_elem: "l \<in> set (wrap_runes w rs) \<Longrightarrow> set l \<subseteq> set rs"
  using arg_cong [OF wrap_runes_concat [of w rs], of set] by auto

lemma wrap_safe:
  assumes "list_all safe_rune (runes s)" and "0 < w" and "l \<in> set (wrap s w)"
  shows "list_all safe_rune (runes l) \<and> length (runes l) \<le> w"
proof (cases "s = []")
  case True
  with assms(3) show ?thesis by (simp add: wrap_def)
next
  case False
  with assms(3) obtain rs where rs: "rs \<in> set (wrap_runes w (runes s))" "l = encode rs"
    by (auto simp: wrap_def)
  have "list_all safe_rune rs"
    using wrap_runes_elem [OF rs(1)] assms(1) by (auto simp: list_all_iff)
  moreover from this have "runes l = rs" using rs(2) by (simp add: runes_encode safe_rune_scalar)
  ultimately show ?thesis using wrap_runes_width [OF assms(2)] rs(1) by auto
qed

lemma add_lines_Lines:
  "0 \<le> maxl \<Longrightarrow> int (length (Lines out)) \<le> maxl \<Longrightarrow>
   Lines (add_lines maxl ws out) = take (nat maxl) (Lines out @ ws)"
proof (induction ws arbitrary: out)
  case Nil
  then show ?case by (simp add: nat_le_iff le_nat_iff)
next
  case (Cons w ws)
  show ?case
  proof (cases "maxl \<le> int (length (Lines out))")
    case True
    with Cons.prems show ?thesis by simp
  next
    case False
    then have "nat maxl - length (Lines out) = Suc (nat maxl - Suc (length (Lines out)))" by linarith
    with False Cons show ?thesis by simp
  qed
qed

lemma add_lines_Truncated:
  "0 \<le> maxl \<Longrightarrow> int (length (Lines out)) \<le> maxl \<Longrightarrow>
   Truncated (add_lines maxl ws out) \<longleftrightarrow> Truncated out \<or> int (length (Lines out @ ws)) > maxl"
  by (induction ws arbitrary: out) auto

lemma limits_positive:
  "0 < MaxWidth (limits_withDefaults l)" "0 < MaxLines (limits_withDefaults l)"
  by (auto simp: limits_withDefaults_def)

lemma Encode_lines_subset:
  "set (Lines (Encode s lim)) \<subseteq>
     (\<Union>line \<in> set (split_on newline_char (normalize_newlines s)).
        set (wrap (sanitizeLine line) (nat (MaxWidth (limits_withDefaults lim)))))"
  using limits_positive [of lim]
  by (auto simp: Encode_def Let_def add_lines_Lines dest!: in_set_takeD)

lemma truncateRunes_safe:
  assumes "list_all safe_rune (runes s)"
  shows "runes (truncateRunes s n) = take n (runes s)" "list_all safe_rune (runes (truncateRunes s n))"
proof -
  have t: "list_all safe_rune (take n (runes s))"
    using assms by (auto simp: list_all_iff dest: in_set_takeD)
  then show *: "runes (truncateRunes s n) = take n (runes s)"
    by (simp add: truncateRunes_def runes_encode safe_rune_scalar)
  show "list_all safe_rune (runes (truncateRunes s n))" unfolding * by (rule t)
qed

lemma Encode_line_safe:
  assumes "l \<in> set (Lines (Encode s lim))"
  shows "list_all safe_rune (runes l) \<and>
    int (length (runes l)) \<le> MaxWidth (limits_withDefaults lim)"
proof -
  from assms Encode_lines_subset [of s lim] obtain line where
    "l \<in> set (wrap (sanitizeLine line) (nat (MaxWidth (limits_withDefaults lim))))"
    by auto
  from wrap_safe [OF sanitizeLine_safe _ this] limits_positive [of lim] show ?thesis by auto
qed

lemma Encode_line_count:
  "int (length (Lines (Encode s lim))) \<le> MaxLines (limits_withDefaults lim)"
  using limits_positive [of lim] by (simp add: Encode_def Let_def add_lines_Lines)

section \<open>Harmless text is unchanged\<close>

lemma sanitize_rune_id: "safe_rune r \<Longrightarrow> sanitize_rune r = [r]"
  by (auto simp: sanitize_rune_def safe_rune_def is_control_def)

lemma sanitize_runes_id: "list_all safe_rune rs \<Longrightarrow> concat (map sanitize_rune rs) = rs"
  by (induction rs) (auto simp: sanitize_rune_id)

lemma sanitizeLine_id: "list_all safe_rune rs \<Longrightarrow> sanitizeLine (encode rs) = encode rs"
  by (simp add: sanitizeLine_def runes_encode safe_rune_scalar sanitize_runes_id)

text \<open>A byte below 128 in an encoded text is one of its runes: no stray line breaks appear.\<close>

lemma encode_rune_byte:
  assumes "is_scalar r" and "c \<in> set (encode_rune r)" and "byte c < 128"
  shows "r = byte c"
proof -
  have "r \<le> 1114111" using assms(1) by (simp add: is_scalar_def)
  then have "r div 262144 \<le> 1114111 div 262144" by (rule div_le_mono)
  with assms show ?thesis by (auto simp: encode_rune_def Let_def split: if_splits)
qed

lemma encode_byte:
  assumes "list_all is_scalar rs" and "c \<in> set (encode rs)" and "byte c < 128"
  shows "byte c \<in> set rs"
  using assms by (auto simp: encode_def list_all_iff dest: encode_rune_byte)

lemma encode_safe_no_control:
  assumes "list_all safe_rune rs" and "byte c < 0x20"
  shows "c \<notin> set (encode rs)"
proof
  assume "c \<in> set (encode rs)"
  then have "byte c \<in> set rs"
    using assms by (intro encode_byte safe_rune_scalar) auto
  with assms show False by (auto simp: list_all_iff safe_rune_def is_control_def)
qed

lemma replace_all_absent: "c \<notin> set s \<Longrightarrow> replace_all s (c # old) new = s"
proof (induction s)
  case Nil
  show ?case by simp
next
  case (Cons a s)
  then have "\<not> has_prefix (a # s) (c # old)" by (auto simp: has_prefix_def)
  with Cons show ?case by (simp add: replace_all.simps [of "a # s"])
qed

lemma normalize_newlines_id: "CHR 0x0D \<notin> set s \<Longrightarrow> normalize_newlines s = s"
  by (simp add: normalize_newlines_def replace_all_absent)

lemma wrap_id:
  "list_all safe_rune rs \<Longrightarrow> length rs \<le> w \<Longrightarrow> wrap (encode rs) w = [encode rs]"
  by (auto simp: wrap_def runes_encode safe_rune_scalar wrap_runes.simps)

lemma encode_eq_Nil [simp]: "encode rs = [] \<longleftrightarrow> rs = []"
  by (cases rs) auto

lemma wrap_encoded: "l \<in> set (wrap (encode rs) w) \<Longrightarrow> list_all is_scalar rs \<Longrightarrow> encode (runes l) = l"
proof -
  assume l: "l \<in> set (wrap (encode rs) w)" and rs: "list_all is_scalar rs"
  show ?thesis
  proof (cases "rs = []")
    case True
    with l show ?thesis by (simp add: wrap_def)
  next
    case False
    with l rs obtain ls where ls: "ls \<in> set (wrap_runes w rs)" "l = encode ls"
      by (auto simp: wrap_def runes_encode)
    have "list_all is_scalar ls" using wrap_runes_elem [OF ls(1)] rs by (auto simp: list_all_iff)
    with ls(2) show ?thesis by (simp add: runes_encode)
  qed
qed

lemma Encode_line_encoded: "l \<in> set (Lines (Encode s lim)) \<Longrightarrow> encode (runes l) = l"
  using Encode_lines_subset [of s lim]
  by (force simp: sanitizeLine_def dest: wrap_encoded
      intro: safe_rune_scalar sanitized_safe)

lemma Line_safe:
  "list_all safe_rune (runes (Line s w)) \<and> int (length (runes (Line s w))) \<le> max 8 w"
proof -
  define v where "v = (if w < 8 then 8 else w)"
  define enc where "enc = Encode s \<lparr>MaxWidth = v, MaxLines = 1\<rparr>"
  have v: "8 \<le> v" "v = max 8 w" by (auto simp: v_def)
  have wd: "MaxWidth (limits_withDefaults \<lparr>MaxWidth = v, MaxLines = 1\<rparr>) = v"
    using v by (simp add: limits_withDefaults_def)
  show ?thesis
  proof (cases "Lines enc")
    case Nil
    then show ?thesis by (simp add: Line_def v_def [symmetric] enc_def [symmetric] Let_def)
  next
    case (Cons l ls)
    then have "l \<in> set (Lines (Encode s \<lparr>MaxWidth = v, MaxLines = 1\<rparr>))" by (simp add: enc_def)
    note l = Encode_line_safe [OF this, unfolded wd] Encode_line_encoded [OF this]
    have "truncateRunes l n = encode (take n (runes l))" for n
      using l(2) by (auto simp: truncateRunes_def)
    moreover have t: "list_all safe_rune (take n (runes l))" for n
      using l(1) by (auto simp: list_all_iff dest: in_set_takeD)
    moreover have e: "safe_rune ellipsis"
      by (simp add: safe_rune_def ellipsis_def is_scalar_def is_control_def is_format_def)
    moreover have "is_scalar ellipsis" using e by (simp add: safe_rune_def)
    ultimately have "runes (truncateRunes l n @ encode_rune ellipsis) = take n (runes l) @ [ellipsis]"
        for n
      using runes_encode_append [of "take n (runes l)" "encode_rune ellipsis"]
        runes_encode_rune_append [of ellipsis "[]"] by (simp add: safe_rune_scalar)
    moreover have "Line s w =
        (if Truncated enc then truncateRunes l (nat (v - 1)) @ encode_rune ellipsis else l)"
      using Cons by (simp add: Line_def Let_def enc_def v_def)
    ultimately show ?thesis using l(1) t e v by auto
  qed
qed

section \<open>Properties\<close>

text \<open>
  C22. Whatever the input bytes, every line \<^verbatim>\<open>Encode\<close> returns consists of scalar values that
  are neither control nor format characters, holds at most \<^verbatim>\<open>MaxWidth\<close> runes, and there are
  at most \<^verbatim>\<open>MaxLines\<close> lines: no escape sequence, bidirectional override or line break of
  untrusted text reaches the terminal.
\<close>

theorem Encode_output_safe:
  "list_all (\<lambda>l. list_all safe_rune (runes l) \<and>
       int (length (runes l)) \<le> MaxWidth (limits_withDefaults lim)) (Lines (Encode s lim)) \<and>
   int (length (Lines (Encode s lim))) \<le> MaxLines (limits_withDefaults lim)"
  using Encode_line_safe [of _ s lim] Encode_line_count [of s lim] by (auto simp: list_all_iff)

text \<open>
  \<^verbatim>\<open>Line\<close> yields one row: only safe runes, and at most \<^verbatim>\<open>max 8 maxWidth\<close> of them, the
  ellipsis of a truncated text included.
\<close>

theorem Line_output_safe:
  "list_all safe_rune (runes (Line s w)) \<and> int (length (runes (Line s w))) \<le> max 8 w"
  by (rule Line_safe)

text \<open>
  Text that is already harmless reaches the operator unchanged: lines of safe runes that
  fit the limits come out of \<^verbatim>\<open>Encode\<close> one for one, untruncated.
\<close>

theorem Encode_identity_on_safe_text:
  assumes "rss \<noteq> []" and "list_all (list_all safe_rune) rss"
    and "list_all (\<lambda>rs. int (length rs) \<le> MaxWidth (limits_withDefaults lim)) rss"
    and "int (length rss) \<le> MaxLines (limits_withDefaults lim)"
  shows "Encode (join [newline_char] (map encode rss)) lim =
    \<lparr>Lines = map encode rss, Truncated = False\<rparr>"
proof -
  let ?s = "join [newline_char] (map encode rss)" and ?l = "limits_withDefaults lim"
  have no_nl: "\<forall>w \<in> set (map encode rss). newline_char \<notin> set w"
    using assms(2) encode_safe_no_control [of _ newline_char]
    by (auto simp: list_all_iff newline_char_def)
  have split: "split_on newline_char ?s = map encode rss"
    using assms(1) no_nl by (intro split_on_join) auto
  have "CHR 0x0D \<notin> set ?s"
  proof
    assume "CHR 0x0D \<in> set ?s"
    then obtain rs where "rs \<in> set rss" "CHR 0x0D \<in> set (encode rs)"
      by (auto dest!: join_set simp: newline_char_def)
    with assms(2) encode_safe_no_control [of rs "CHR 0x0D"] show False
      by (auto simp: list_all_iff)
  qed
  then have nn: "normalize_newlines ?s = ?s" by (rule normalize_newlines_id)
  have each: "\<forall>rs \<in> set rss. wrap (sanitizeLine (encode rs)) (nat (MaxWidth ?l)) = [encode rs]"
    using assms(2,3) by (auto simp: list_all_iff sanitizeLine_id wrap_id)
  have "concat (map (\<lambda>line. wrap (sanitizeLine line) (nat (MaxWidth ?l))) (map encode rss)) =
      map encode rss"
    using each by (induction rss) auto
  with split nn assms(4) limits_positive [of lim] add_lines_Lines [of "MaxLines ?l" "\<lparr>Lines = [], Truncated = False\<rparr>"]
    add_lines_Truncated [of "MaxLines ?l" "\<lparr>Lines = [], Truncated = False\<rparr>"]
  show ?thesis by (simp add: Encode_def Let_def)
qed

theorem Encode_identity_on_safe_text_witness:
  "Encode (join [newline_char] (map encode [[72, 105], [0x20AC]])) \<lparr>MaxWidth = 4, MaxLines = 2\<rparr> =
    \<lparr>Lines = map encode [[72, 105], [0x20AC]], Truncated = False\<rparr>"
  by (rule Encode_identity_on_safe_text)
     (simp_all add: safe_rune_def is_scalar_def is_control_def is_format_def limits_withDefaults_def)

end
