(* ===== verification/Diff.thy ===== *)
theory Diff
  imports Sanitize
begin

text \<open>
  \<^verbatim>\<open>internal/terminal/diff.go\<close>: the bounded line diff an operator reads before approving a
  rebuild. The lemmas show that the alignment is correct (both sides can be read off it),
  that it keeps as many lines as any common subsequence, that it is empty exactly when the
  line sequences agree, and that a diff that is not marked truncated shows every change.
\<close>

section \<open>Limits and operations\<close>

record diff_limits =
  DMaxLines :: int
  DMaxWidth :: int
  DMaxInputLines :: int

definition diff_withDefaults :: "diff_limits \<Rightarrow> diff_limits" where
  "diff_withDefaults l =
     (let w = (if DMaxWidth l \<le> 0 then 120 else DMaxWidth l)
      in \<lparr>DMaxLines = (if DMaxLines l \<le> 0 then 80 else DMaxLines l),
          DMaxWidth = (if w < 8 then 8 else w),
          DMaxInputLines = (if DMaxInputLines l \<le> 0 then 4000 else DMaxInputLines l)\<rparr>)"

definition diffContext :: nat where
  "diffContext = 2"

text \<open>One aligned step through both sequences: \<^verbatim>\<open>' '\<close> keep, \<^verbatim>\<open>'-'\<close> delete, \<^verbatim>\<open>'+'\<close> insert.\<close>

datatype op_kind = Keep | Delete | Insert

record diff_op =
  kind :: op_kind
  line :: string

definition mk_ops :: "op_kind \<Rightarrow> string list \<Rightarrow> diff_op list" where
  "mk_ops k ls = map (\<lambda>l. \<lparr>kind = k, line = l\<rparr>) ls"

text \<open>\<^verbatim>\<open>splitDiffLines\<close>: no trailing phantom line.\<close>

definition splitDiffLines :: "string \<Rightarrow> string list" where
  "splitDiffLines s =
     (if s = [] then []
      else split_on newline_char
             (trim_suffix (replace_all s [CHR 0x0D, CHR 0x0A] [CHR 0x0A]) [newline_char]))"

section \<open>Alignment\<close>

text \<open>
  The table of \<^verbatim>\<open>diffOps\<close>, row by row from the last: \<open>next_row x b row\<close> computes row \<open>i\<close> for
  \<open>a[i] = x\<close> from row \<open>i+1\<close>, filling columns from the right as the inner loop does.
\<close>

fun next_row :: "string \<Rightarrow> string list \<Rightarrow> nat list \<Rightarrow> nat list" where
  "next_row x (y # ys) (p # ps) =
     (let r = next_row x ys ps
      in (if x = y then hd ps + 1 else max p (hd r)) # r)"
| "next_row x _ _ = [0]"

definition lcs_table :: "string list \<Rightarrow> string list \<Rightarrow> nat list list" where
  "lcs_table a b =
     foldr (\<lambda>x rows. next_row x b (hd rows) # rows) a [replicate (length b + 1) 0]"

text \<open>The walk from the top left corner of the table.\<close>

function walk :: "nat list list \<Rightarrow> string list \<Rightarrow> string list \<Rightarrow> nat \<Rightarrow> nat \<Rightarrow> diff_op list" where
  "walk t a b i j =
     (if i < length a \<and> j < length b then
        (if a ! i = b ! j then \<lparr>kind = Keep, line = a ! i\<rparr> # walk t a b (i + 1) (j + 1)
         else if t ! (i + 1) ! j \<ge> t ! i ! (j + 1)
         then \<lparr>kind = Delete, line = a ! i\<rparr> # walk t a b (i + 1) j
         else \<lparr>kind = Insert, line = b ! j\<rparr> # walk t a b i (j + 1))
      else mk_ops Delete (drop i a) @ mk_ops Insert (drop j b))"
  by pat_completeness auto
termination
  by (relation "measure (\<lambda>(t, a, b, i, j). (length a - i) + (length b - j))") auto

declare walk.simps [simp del]

definition maxCells :: nat where
  "maxCells = 1048576"

definition diffOps :: "string list \<Rightarrow> string list \<Rightarrow> diff_op list" where
  "diffOps a b =
     (if length a = 0 \<and> length b = 0 then []
      else if length a * length b > maxCells then mk_ops Delete a @ mk_ops Insert b
      else walk (lcs_table a b) a b 0 0)"

text \<open>The length of the common prefix: the first loop of \<^verbatim>\<open>Diff\<close>.\<close>

fun common_prefix :: "string list \<Rightarrow> string list \<Rightarrow> nat" where
  "common_prefix (x # xs) (y # ys) = (if x = y then Suc (common_prefix xs ys) else 0)"
| "common_prefix _ _ = 0"

text \<open>The second loop counts from the ends, without running into the prefix.\<close>

definition common_suffix :: "nat \<Rightarrow> string list \<Rightarrow> string list \<Rightarrow> nat" where
  "common_suffix pre a b = common_prefix (rev (drop pre a)) (rev (drop pre b))"

text \<open>The aligned sequence \<^verbatim>\<open>Diff\<close> hands to \<^verbatim>\<open>renderHunks\<close>, and its changed middle.\<close>

definition diff_middle :: "string list \<Rightarrow> string list \<Rightarrow> diff_op list" where
  "diff_middle a b =
     (let pre = common_prefix a b; suf = common_suffix pre a b
      in diffOps (drop pre (take (length a - suf) a)) (drop pre (take (length b - suf) b)))"

definition aligned :: "string list \<Rightarrow> string list \<Rightarrow> diff_op list" where
  "aligned a b =
     (let pre = common_prefix a b; suf = common_suffix pre a b
      in mk_ops Keep (take pre a) @ diff_middle a b @ mk_ops Keep (drop (length a - suf) a))"

section \<open>Rendering\<close>

definition op_prefix :: "op_kind \<Rightarrow> string" where
  "op_prefix k = (case k of Keep \<Rightarrow> ''  '' | Delete \<Rightarrow> ''- '' | Insert \<Rightarrow> ''+ '')"

definition renderOp :: "diff_op \<Rightarrow> int \<Rightarrow> string" where
  "renderOp p maxWidth =
     (let content = sanitizeLine (line p); width = maxWidth - 2
      in op_prefix (kind p) @
         (if int (length (runes content)) > width
          then truncateRunes content (nat (width - 1)) @ encode_rune ellipsis else content))"

text \<open>\<^verbatim>\<open>fmt.Sprintf("\<dots> %d unchanged line(s)", gap)\<close>, with three middle dots (U+00B7).\<close>

definition gap_line :: "nat \<Rightarrow> string" where
  "gap_line gap = encode [0xB7, 0xB7, 0xB7, 32] @ itoa gap @ '' unchanged line(s)''"

text \<open>
  The \<^verbatim>\<open>emit\<close> closure: append a line, or mark the output truncated and report that
  rendering stops. Rendering a list of lines stops at the first that does not fit.
\<close>

definition emit :: "int \<Rightarrow> string \<Rightarrow> encoded \<Rightarrow> encoded \<times> bool" where
  "emit maxl l out =
     (if int (length (Lines out)) \<ge> maxl then (out\<lparr>Truncated := True\<rparr>, False)
      else (out\<lparr>Lines := Lines out @ [l]\<rparr>, True))"

fun emit_all :: "int \<Rightarrow> string list \<Rightarrow> encoded \<Rightarrow> encoded \<times> bool" where
  "emit_all maxl [] out = (out, True)"
| "emit_all maxl (l # ls) out =
     (case emit maxl l out of
        (out', ok) \<Rightarrow> if ok then emit_all maxl ls out' else (out', False))"

text \<open>The merge loop: runs of changes whose gap fits one context window share a hunk.\<close>

fun merge_runs :: "nat \<Rightarrow> nat list \<Rightarrow> nat \<times> nat list" where
  "merge_runs end [] = (end, [])"
| "merge_runs end (c # cs) =
     (if c - end \<le> 2 * diffContext + 1 then merge_runs c cs else (end, c # cs))"

lemma merge_runs_length: "length (snd (merge_runs e cs)) \<le> length cs"
  by (induction cs arbitrary: e) (auto intro: le_SucI)

text \<open>
  The hunk loop. \<open>nxt\<close> is \<^verbatim>\<open>last + 1\<close>, the first operation not yet emitted.
\<close>

function render_loop ::
  "diff_op list \<Rightarrow> diff_limits \<Rightarrow> nat list \<Rightarrow> nat \<Rightarrow> encoded \<Rightarrow> encoded" where
  "render_loop ops lim [] nxt out =
     (let gap = length ops - nxt
      in if gap > 0 then fst (emit (DMaxLines lim) (gap_line gap) out) else out)"
| "render_loop ops lim (c # cs) nxt out =
     (let hunkStart = max (c - diffContext) nxt;
          merged = merge_runs c cs;
          hunkEnd = min (fst merged + diffContext) (length ops - 1);
          gap = hunkStart - nxt;
          e1 = (if gap > 0 then emit (DMaxLines lim) (gap_line gap) out else (out, True))
      in if \<not> snd e1 then fst e1
         else (let e2 = emit_all (DMaxLines lim)
                          (map (\<lambda>p. renderOp p (DMaxWidth lim))
                            (take (hunkEnd + 1 - hunkStart) (drop hunkStart ops))) (fst e1)
               in if \<not> snd e2 then fst e2
                  else render_loop ops lim (snd merged) (hunkEnd + 1) (fst e2)))"
  by pat_completeness auto
termination
  by (relation "measure (\<lambda>(ops, lim, cs, nxt, out). length cs)")
     (auto simp: less_Suc_eq_le merge_runs_length)

declare render_loop.simps [simp del]

definition changed_positions :: "diff_op list \<Rightarrow> nat list" where
  "changed_positions ops = filter (\<lambda>i. kind (ops ! i) \<noteq> Keep) [0..<length ops]"

definition renderHunks :: "diff_op list \<Rightarrow> diff_limits \<Rightarrow> encoded" where
  "renderHunks ops lim =
     (let changed = changed_positions ops
      in if changed = [] then \<lparr>Lines = [], Truncated = False\<rparr>
         else render_loop ops lim changed 0 \<lparr>Lines = [], Truncated = False\<rparr>)"

text \<open>\<^verbatim>\<open>fmt.Sprintf("(too large to diff: %d \<rightarrow> %d lines)", \<dots>)\<close>.\<close>

definition too_large_note :: "nat \<Rightarrow> nat \<Rightarrow> string" where
  "too_large_note n m =
     ''(too large to diff: '' @ itoa n @ '' '' @ encode_rune 0x2192 @ '' '' @ itoa m @ '' lines)''"

definition Diff :: "string \<Rightarrow> string \<Rightarrow> diff_limits \<Rightarrow> encoded" where
  "Diff before after lim0 =
     (let lim = diff_withDefaults lim0;
          a = splitDiffLines before; b = splitDiffLines after
      in if int (length a) > DMaxInputLines lim \<or> int (length b) > DMaxInputLines lim
         then \<lparr>Lines = [too_large_note (length a) (length b)], Truncated = True\<rparr>
         else if diff_middle a b = [] then \<lparr>Lines = [], Truncated = False\<rparr>
         else renderHunks (aligned a b) lim)"

section \<open>The table is the length of a longest common subsequence\<close>

text \<open>The specification the table is compared with.\<close>

fun lcs_len :: "string list \<Rightarrow> string list \<Rightarrow> nat" where
  "lcs_len (x # xs) (y # ys) =
     (if x = y then lcs_len xs ys + 1 else max (lcs_len xs (y # ys)) (lcs_len (x # xs) ys))"
| "lcs_len _ _ = 0"

lemma lcs_len_Nil2 [simp]: "lcs_len xs [] = 0"
  by (cases xs) auto

definition spec_row :: "string list \<Rightarrow> string list \<Rightarrow> nat list" where
  "spec_row a b = map (\<lambda>j. lcs_len a (drop j b)) [0..<length b + 1]"

lemma spec_row_Cons: "spec_row a (y # ys) = lcs_len a (y # ys) # spec_row a ys"
proof -
  have "[0..<length (y # ys) + 1] = 0 # map Suc [0..<length ys + 1]"
    by (metis add.commute length_Cons map_Suc_upt plus_1_eq_Suc upt_conv_Cons zero_less_Suc)
  then show ?thesis by (simp add: spec_row_def comp_def del: upt_Suc)
qed

lemma spec_row_Nil: "spec_row a [] = [0]"
  by (simp add: spec_row_def)

lemma hd_spec_row: "hd (spec_row a b) = lcs_len a b"
  by (cases b) (auto simp: spec_row_Cons spec_row_Nil)

lemma next_row_spec: "next_row x b (spec_row a b) = spec_row (x # a) b"
  by (induction b) (auto simp: spec_row_Nil spec_row_Cons hd_spec_row Let_def)

lemma lcs_table_rows: "lcs_table a b = map (\<lambda>i. spec_row (drop i a) b) [0..<length a + 1]"
proof (induction a)
  case Nil
  have "spec_row [] b = replicate (length b + 1) 0"
    by (intro nth_equalityI) (simp_all add: spec_row_def del: upt_Suc replicate_Suc)
  then show ?case by (simp add: lcs_table_def)
next
  case (Cons x a)
  have upt: "[0..<length (x # a) + 1] = 0 # map Suc [0..<length a + 1]"
    by (metis add.commute length_Cons map_Suc_upt plus_1_eq_Suc upt_conv_Cons zero_less_Suc)
  have "lcs_table (x # a) b = next_row x b (hd (lcs_table a b)) # lcs_table a b"
    by (simp add: lcs_table_def)
  also have "hd (lcs_table a b) = spec_row a b"
    unfolding Cons.IH by (simp add: hd_map del: upt_Suc)
  finally show ?case
    unfolding upt by (simp add: next_row_spec Cons.IH comp_def del: upt_Suc)
qed

lemma lcs_table_nth:
  "i \<le> length a \<Longrightarrow> j \<le> length b \<Longrightarrow> lcs_table a b ! i ! j = lcs_len (drop i a) (drop j b)"
  by (simp add: lcs_table_rows spec_row_def del: upt_Suc)

section \<open>The alignment is correct and longest\<close>

definition before_lines :: "diff_op list \<Rightarrow> string list" where
  "before_lines ops = map line (filter (\<lambda>p. kind p \<noteq> Insert) ops)"

definition after_lines :: "diff_op list \<Rightarrow> string list" where
  "after_lines ops = map line (filter (\<lambda>p. kind p \<noteq> Delete) ops)"

definition kept_lines :: "diff_op list \<Rightarrow> string list" where
  "kept_lines ops = map line (filter (\<lambda>p. kind p = Keep) ops)"

lemma lines_Nil [simp]: "before_lines [] = []" "after_lines [] = []" "kept_lines [] = []"
  by (simp_all add: before_lines_def after_lines_def kept_lines_def)

lemma lines_append [simp]:
  "before_lines (p @ q) = before_lines p @ before_lines q"
  "after_lines (p @ q) = after_lines p @ after_lines q"
  "kept_lines (p @ q) = kept_lines p @ kept_lines q"
  by (simp_all add: before_lines_def after_lines_def kept_lines_def)

lemma lines_Cons [simp]:
  "before_lines (p # q) = (if kind p = Insert then [] else [line p]) @ before_lines q"
  "after_lines (p # q) = (if kind p = Delete then [] else [line p]) @ after_lines q"
  "kept_lines (p # q) = (if kind p = Keep then [line p] else []) @ kept_lines q"
  by (simp_all add: before_lines_def after_lines_def kept_lines_def)

lemma lines_mk_ops [simp]:
  "before_lines (mk_ops k ls) = (if k = Insert then [] else ls)"
  "after_lines (mk_ops k ls) = (if k = Delete then [] else ls)"
  "kept_lines (mk_ops k ls) = (if k = Keep then ls else [])"
  by (induction ls) (simp_all add: mk_ops_def)

lemma mk_ops_Nil_iff [simp]: "mk_ops k ls = [] \<longleftrightarrow> ls = []"
  by (simp add: mk_ops_def)

lemma walk_lines:
  "before_lines (walk t a b i j) = drop i a \<and> after_lines (walk t a b i j) = drop j b"
proof (induction t a b i j rule: walk.induct)
  case (1 t a b i j)
  show ?case
  proof (cases "i < length a \<and> j < length b")
    case True
    then have d: "a ! i # drop (Suc i) a = drop i a" "b ! j # drop (Suc j) b = drop j b"
      by (simp_all add: Cons_nth_drop_Suc)
    show ?thesis
    proof (cases "a ! i = b ! j")
      case eq: True
      with 1 True d(2) show ?thesis
        by (simp add: walk.simps [of t a b i j] d(1) [unfolded eq])
    next
      case False
      with 1 True d show ?thesis by (simp add: walk.simps [of t a b i j])
    qed
  next
    case False
    then show ?thesis by (auto simp: walk.simps [of t a b i j])
  qed
qed

lemma walk_kept:
  "t = lcs_table a b \<Longrightarrow> length (kept_lines (walk t a b i j)) = lcs_len (drop i a) (drop j b)"
proof (induction t a b i j rule: walk.induct)
  case (1 t a b i j)
  show ?case
  proof (cases "i < length a \<and> j < length b")
    case True
    then have d: "drop i a = a ! i # drop (i + 1) a" "drop j b = b ! j # drop (j + 1) b"
      by (simp_all add: Cons_nth_drop_Suc)
    have tn: "t ! (i + 1) ! j = lcs_len (drop (i + 1) a) (drop j b)"
        "t ! i ! (j + 1) = lcs_len (drop i a) (drop (j + 1) b)"
      unfolding "1.prems" using True by (auto intro!: lcs_table_nth)
    show ?thesis
      using 1 True tn d by (simp add: walk.simps [of "lcs_table a b" a b i j] max_def)
  next
    case False
    then have "drop i a = [] \<or> drop j b = []" by auto
    with False show ?thesis
      unfolding "1.prems" by (auto simp: walk.simps [of "lcs_table a b" a b i j])
  qed
qed

text \<open>No common subsequence is longer than \<open>lcs_len\<close>.\<close>

lemma subseq_le_lcs_len: "subseq zs xs \<Longrightarrow> subseq zs ys \<Longrightarrow> length zs \<le> lcs_len xs ys"
proof (induction xs ys arbitrary: zs rule: lcs_len.induct)
  case (1 x xs y ys)
  show ?case
  proof (cases "x = y")
    case True
    show ?thesis
    proof (cases zs)
      case Nil
      then show ?thesis by simp
    next
      case (Cons z zs')
      with "1.prems" have "subseq zs' xs" "subseq zs' ys"
        by (auto elim: subseq_Cons' simp: subseq_Cons2_iff split: if_splits intro: subseq_Cons')
      with "1.IH"(1) [OF True, of zs'] True Cons show ?thesis by simp
    qed
  next
    case False
    have "subseq zs xs \<or> subseq zs ys"
      using "1.prems" False by (cases zs) (auto simp: subseq_Cons2_iff split: if_splits)
    with "1.IH"(2,3) [OF False] "1.prems" False show ?thesis by fastforce
  qed
qed auto

lemma diffOps_lines: "before_lines (diffOps a b) = a \<and> after_lines (diffOps a b) = b"
  by (auto simp: diffOps_def walk_lines)

lemma diffOps_kept:
  assumes "length a * length b \<le> maxCells"
  shows "length (kept_lines (diffOps a b)) = lcs_len a b"
  using assms walk_kept [OF refl, of a b 0 0] by (auto simp: diffOps_def)

lemma diffOps_Nil_iff: "diffOps a b = [] \<longleftrightarrow> a = [] \<and> b = []"
  using diffOps_lines [of a b] by (auto simp: diffOps_def)

section \<open>Trimming the common frame\<close>

lemma common_prefix_le: "common_prefix a b \<le> length a" "common_prefix a b \<le> length b"
  by (induction a b rule: common_prefix.induct) auto

lemma common_prefix_take: "take (common_prefix a b) a = take (common_prefix a b) b"
  by (induction a b rule: common_prefix.induct) auto

lemma common_prefix_refl [simp]: "common_prefix a a = length a"
  by (induction a) auto

lemma common_suffix_le:
  "common_suffix pre a b \<le> length a - pre" "common_suffix pre a b \<le> length b - pre"
  using common_prefix_le [of "rev (drop pre a)" "rev (drop pre b)"]
  by (auto simp: common_suffix_def)

lemma drop_take_rev: "n \<le> length xs \<Longrightarrow> take n (rev xs) = rev (drop (length xs - n) xs)"
  by (simp add: rev_drop)

lemma common_suffix_drop:
  assumes "pre \<le> length a" "pre \<le> length b"
  shows "drop (length a - common_suffix pre a b) a = drop (length b - common_suffix pre a b) b"
proof -
  let ?n = "common_suffix pre a b"
  have n: "?n \<le> length (drop pre a)" "?n \<le> length (drop pre b)"
    using common_suffix_le [of pre a b] by auto
  have "take ?n (rev (drop pre a)) = take ?n (rev (drop pre b))"
    unfolding common_suffix_def by (rule common_prefix_take)
  then have "drop (length (drop pre a) - ?n) (drop pre a) = drop (length (drop pre b) - ?n) (drop pre b)"
    using n by (simp add: drop_take_rev)
  moreover have "length a - pre - ?n + pre = length a - ?n" "length b - pre - ?n + pre = length b - ?n"
    using n assms by simp_all
  ultimately show ?thesis by (simp add: add.commute)
qed

lemma frame_split:
  assumes "pre \<le> length a" "suf \<le> length a - pre"
  shows "a = take pre a @ drop pre (take (length a - suf) a) @ drop (length a - suf) a"
proof -
  have "a = take (length a - suf) a @ drop (length a - suf) a" by simp
  moreover have "take (length a - suf) a = take pre a @ drop pre (take (length a - suf) a)"
    using assms by (metis append_take_drop_id le_diff_conv2 diff_le_mono2 min.absorb1 take_take
        add.commute le_diff_conv le_add_diff_inverse2 nat_le_linear diff_diff_cancel)
  ultimately show ?thesis by (metis append_assoc)
qed

lemma aligned_lines: "before_lines (aligned a b) = a \<and> after_lines (aligned a b) = b"
proof -
  let ?p = "common_prefix a b"
  let ?s = "common_suffix ?p a b"
  have p: "?p \<le> length a" "?p \<le> length b" by (rule common_prefix_le)+
  have fa: "a = take ?p a @ drop ?p (take (length a - ?s) a) @ drop (length a - ?s) a"
    using p(1) common_suffix_le(1) by (rule frame_split)
  have fb: "b = take ?p b @ drop ?p (take (length b - ?s) b) @ drop (length b - ?s) b"
    using p(2) common_suffix_le(2) by (rule frame_split)
  have "before_lines (aligned a b) =
      take ?p a @ drop ?p (take (length a - ?s) a) @ drop (length a - ?s) a"
    by (simp add: aligned_def diff_middle_def Let_def diffOps_lines)
  moreover have "after_lines (aligned a b) =
      take ?p b @ drop ?p (take (length b - ?s) b) @ drop (length b - ?s) b"
    using common_prefix_take [of a b] common_suffix_drop [OF p]
    by (simp add: aligned_def diff_middle_def Let_def diffOps_lines)
  ultimately show ?thesis using fa fb by simp
qed

lemma diff_middle_Nil_iff: "diff_middle a b = [] \<longleftrightarrow> a = b"
proof
  assume "diff_middle a b = []"
  then have "before_lines (aligned a b) = after_lines (aligned a b)"
    by (simp add: aligned_def Let_def)
  then show "a = b" using aligned_lines [of a b] by simp
next
  assume "a = b"
  then show "diff_middle a b = []"
    by (simp add: diff_middle_def Let_def diffOps_Nil_iff common_suffix_def)
qed


section \<open>Rendering shows every change\<close>

lemma emit_all_fits:
  "emit_all m ls out = (out', ok) \<Longrightarrow>
     (if ok then out' = out\<lparr>Lines := Lines out @ ls\<rparr> else Truncated out')"
proof (induction m ls out rule: emit_all.induct)
  case (1 m out)
  then show ?case by simp
next
  case (2 m l ls out)
  then show ?case
    by (cases "int (length (Lines out)) \<ge> m") (auto simp: emit_def)
qed

definition changed_from :: "diff_op list \<Rightarrow> nat \<Rightarrow> nat list" where
  "changed_from ops n = filter (\<lambda>i. kind (ops ! i) \<noteq> Keep) [n..<length ops]"

lemma changed_from_unfold:
  "changed_from ops n =
     (if n < length ops then (if kind (ops ! n) \<noteq> Keep then [n] else []) @ changed_from ops (Suc n)
      else [])"
  by (simp add: changed_from_def upt_conv_Cons)

lemma changed_from_ConsD:
  assumes "changed_from ops n = c # cs"
  shows "n \<le> c \<and> c < length ops \<and> kind (ops ! c) \<noteq> Keep \<and> cs = changed_from ops (Suc c) \<and>
    (\<forall>i. n \<le> i \<longrightarrow> i < c \<longrightarrow> kind (ops ! i) = Keep)"
  using assms
proof (induction "length ops - n" arbitrary: n)
  case 0
  then show ?case by (simp add: changed_from_unfold [of ops n])
next
  case (Suc k)
  show ?case
  proof (cases "kind (ops ! n) = Keep")
    case True
    with Suc have "changed_from ops (Suc n) = c # cs"
      by (simp add: changed_from_unfold [of ops n] split: if_splits)
    with Suc(1) [of "Suc n"] Suc(2) True show ?thesis
      by (metis Suc_leD Suc_leI diff_Suc_eq_diff_pred diff_Suc_Suc diff_commute diff_diff_left
          le_neq_implies_less minus_nat.diff_0 plus_1_eq_Suc diff_Suc_1)
  next
    case False
    with Suc show ?thesis by (auto simp: changed_from_unfold [of ops n] split: if_splits)
  qed
qed

lemma changed_from_Nil:
  assumes "changed_from ops n = []"
  shows "filter (\<lambda>p. kind p \<noteq> Keep) (drop n ops) = []"
  using assms by (force simp: changed_from_def filter_empty_conv in_set_conv_nth)

lemma changed_from_filter:
  "n \<le> m \<Longrightarrow> filter (\<lambda>i. m \<le> i) (changed_from ops n) = changed_from ops m"
proof (induction "m - n" arbitrary: n)
  case 0
  then show ?case by (auto simp: changed_from_def intro!: filter_cong)
next
  case (Suc k)
  then have "n < m" and "filter (\<lambda>i. m \<le> i) (changed_from ops (Suc n)) = changed_from ops m"
    by auto
  then show ?case
    by (cases "n < length ops") (auto simp: changed_from_def upt_conv_Cons)
qed

lemma changed_from_sorted: "sorted_wrt (<) (changed_from ops n)"
  by (auto simp: changed_from_def intro: sorted_wrt_filter)

text \<open>What is merged lies at or before the new end, what is left beyond its context.\<close>

lemma merge_runs_filter:
  assumes "sorted_wrt (<) (e # cs)" "merge_runs e cs = (e', rest)"
  shows "e \<le> e' \<and> rest = filter (\<lambda>i. e' + diffContext + 1 \<le> i) cs"
  using assms
proof (induction e cs rule: merge_runs.induct)
  case (1 e)
  then show ?case by simp
next
  case (2 e c cs)
  show ?case
  proof (cases "c - e \<le> 2 * diffContext + 1")
    case True
    with 2 show ?thesis by auto
  next
    case False
    with 2(3) have "e' = e" "rest = c # cs" by auto
    moreover have "filter (\<lambda>i. e + diffContext + 1 \<le> i) (c # cs) = c # cs"
      using 2(2) False by (intro filter_True) (auto simp: diffContext_def)
    ultimately show ?thesis by simp
  qed
qed

lemma filter_Keep_range:
  assumes "\<forall>i. n \<le> i \<longrightarrow> i < h \<longrightarrow> kind (ops ! i) = Keep"
  shows "filter (\<lambda>p. kind p \<noteq> Keep) (take (h - n) (drop n ops)) = []"
  using assms by (auto simp: filter_empty_conv in_set_conv_nth)

definition shows_from :: "diff_limits \<Rightarrow> diff_op list \<Rightarrow> nat \<Rightarrow> encoded \<Rightarrow> encoded \<Rightarrow> bool" where
  "shows_from lim ops nxt out res \<longleftrightarrow>
     (Truncated res \<or>
      (\<exists>ls. Lines res = Lines out @ ls \<and>
         subseq (map (\<lambda>p. renderOp p (DMaxWidth lim))
           (filter (\<lambda>p. kind p \<noteq> Keep) (drop nxt ops))) ls))"

lemma emit_fits: "emit m l out = (out', ok) \<Longrightarrow>
    (if ok then out' = out\<lparr>Lines := Lines out @ [l]\<rparr> else Truncated out')"
  by (auto simp: emit_def split: if_splits)

lemma render_loop_shows:
  assumes "cs = changed_from ops nxt"
  shows "shows_from lim ops nxt out (render_loop ops lim cs nxt out)"
  using assms
proof (induction ops lim cs nxt out rule: render_loop.induct)
  case (1 ops lim nxt out)
  have "filter (\<lambda>p. kind p \<noteq> Keep) (drop nxt ops) = []"
    using 1 by (intro changed_from_Nil) simp
  then show ?case
    by (auto simp: render_loop.simps shows_from_def Let_def emit_def)
next
  case (2 ops lim c cs nxt out)
  have c: "nxt \<le> c" "c < length ops" "kind (ops ! c) \<noteq> Keep" "cs = changed_from ops (Suc c)"
      "\<forall>i. nxt \<le> i \<longrightarrow> i < c \<longrightarrow> kind (ops ! i) = Keep"
    using changed_from_ConsD [OF "2.prems" [symmetric]] by simp_all
  obtain e' rest where mr: "merge_runs c cs = (e', rest)" by (cases "merge_runs c cs")
  define hs where "hs = max (c - diffContext) nxt"
  define he where "he = min (e' + diffContext) (length ops - 1)"
  obtain o1 k1 where e1: "(if hs - nxt > 0 then emit (DMaxLines lim) (gap_line (hs - nxt)) out
      else (out, True)) = (o1, k1)" by fastforce
  define body where "body = map (\<lambda>p. renderOp p (DMaxWidth lim))
      (take (he + 1 - hs) (drop hs ops))"
  obtain o2 k2 where e2: "emit_all (DMaxLines lim) body o1 = (o2, k2)" by fastforce
  have res: "render_loop ops lim (c # cs) nxt out =
      (if \<not> k1 then o1 else if \<not> k2 then o2 else render_loop ops lim rest (he + 1) o2)"
    by (simp only: render_loop.simps Let_def mr fst_conv snd_conv hs_def [symmetric]
        he_def [symmetric] e1 body_def [symmetric] e2)
  have sorted: "sorted_wrt (<) (c # cs)"
    using changed_from_sorted [of ops nxt] "2.prems" by simp
  have e': "c \<le> e'" "rest = filter (\<lambda>i. e' + diffContext + 1 \<le> i) (changed_from ops (Suc c))"
    using merge_runs_filter [OF sorted mr] c(4) by auto
  have rest: "rest = changed_from ops (he + 1)"
  proof (cases "e' + diffContext \<le> length ops - 1")
    case True
    then show ?thesis using e' by (simp add: he_def changed_from_filter)
  next
    case False
    then have "rest = changed_from ops (e' + diffContext + 1)" using e' by (simp add: changed_from_filter)
    with False c(2) show ?thesis by (simp add: he_def changed_from_def)
  qed
  have hs: "nxt \<le> hs" "hs \<le> c" "c \<le> he" using c(1,2) e'(1) by (auto simp: hs_def he_def)
  have split: "filter (\<lambda>p. kind p \<noteq> Keep) (drop nxt ops) =
      filter (\<lambda>p. kind p \<noteq> Keep) (take (he + 1 - hs) (drop hs ops)) @
      filter (\<lambda>p. kind p \<noteq> Keep) (drop (he + 1) ops)"
  proof -
    have "drop nxt ops = take (hs - nxt) (drop nxt ops) @ drop hs ops"
      using hs by (metis append_take_drop_id drop_drop le_add_diff_inverse2)
    moreover have "drop hs ops = take (he + 1 - hs) (drop hs ops) @ drop (he + 1) ops"
      using hs by (metis append_take_drop_id drop_drop le_add_diff_inverse2 le_SucI le_trans Suc_eq_plus1)
    moreover have "filter (\<lambda>p. kind p \<noteq> Keep) (take (hs - nxt) (drop nxt ops)) = []"
      using c(5) hs by (intro filter_Keep_range) auto
    ultimately show ?thesis by (metis append_Nil filter_append)
  qed
  show ?case
  proof (cases "k1 \<and> k2")
    case False
    then show ?thesis
      using e1 e2 emit_all_fits [OF e2]
      by (auto simp: res shows_from_def split: if_splits dest: emit_fits)
  next
    case True
    have o1: "\<exists>g. Lines o1 = Lines out @ g"
      using e1 True by (auto split: if_splits dest: emit_fits)
    have o2: "Lines o2 = Lines o1 @ body" using emit_all_fits [OF e2] True by simp
    have "shows_from lim ops (he + 1) o2 (render_loop ops lim rest (he + 1) o2)"
      using "2.IH" [OF refl refl refl refl refl _ refl] True rest
      by (simp only: mr fst_conv snd_conv hs_def [symmetric] he_def [symmetric] e1
          body_def [symmetric] e2 simp_thms)
    then show ?thesis
      unfolding shows_from_def
    proof (elim disjE exE conjE)
      fix ls
      assume ls: "Lines (render_loop ops lim rest (he + 1) o2) = Lines o2 @ ls"
        "subseq (map (\<lambda>p. renderOp p (DMaxWidth lim))
          (filter (\<lambda>p. kind p \<noteq> Keep) (drop (he + 1) ops))) ls"
      obtain g where g: "Lines o1 = Lines out @ g" using o1 by blast
      have "subseq (map (\<lambda>p. renderOp p (DMaxWidth lim))
          (filter (\<lambda>p. kind p \<noteq> Keep) (take (he + 1 - hs) (drop hs ops)))) body"
        unfolding body_def by (intro subseq_map subseq_filter_left)
      from list_emb_append_mono [OF this ls(2)]
      have "subseq (map (\<lambda>p. renderOp p (DMaxWidth lim)) (filter (\<lambda>p. kind p \<noteq> Keep) (drop nxt ops)))
          (g @ body @ ls)"
        by (simp add: split list_emb_append2)
      then show "Truncated (render_loop ops lim (c # cs) nxt out) \<or>
          (\<exists>ls. Lines (render_loop ops lim (c # cs) nxt out) = Lines out @ ls \<and>
            subseq (map (\<lambda>p. renderOp p (DMaxWidth lim))
              (filter (\<lambda>p. kind p \<noteq> Keep) (drop nxt ops))) ls)"
        using True g o2 ls(1) by (auto simp: res)
    qed (use True in \<open>simp add: res\<close>)
  qed
qed


lemma renderHunks_shows:
  "shows_from lim ops 0 \<lparr>Lines = [], Truncated = False\<rparr> (renderHunks ops lim)"
proof (cases "changed_from ops 0 = []")
  case True
  then show ?thesis
    using changed_from_Nil [OF True]
    by (simp add: renderHunks_def changed_positions_def changed_from_def shows_from_def)
next
  case False
  then have "renderHunks ops lim =
      render_loop ops lim (changed_from ops 0) 0 \<lparr>Lines = [], Truncated = False\<rparr>"
    by (simp only: renderHunks_def changed_positions_def changed_from_def Let_def if_False)
  then show ?thesis by (simp add: render_loop_shows)
qed

text \<open>The output is only marked truncated when it is full.\<close>

definition full_if_truncated :: "int \<Rightarrow> encoded \<Rightarrow> bool" where
  "full_if_truncated m out \<longleftrightarrow> (Truncated out \<longrightarrow> int (length (Lines out)) \<ge> m)"

lemma emit_full: "full_if_truncated m out \<Longrightarrow> full_if_truncated m (fst (emit m l out))"
  by (auto simp: emit_def full_if_truncated_def)

lemma emit_all_invariant:
  assumes step: "\<And>out l. P out \<Longrightarrow> P (fst (emit m l out))"
  shows "P out \<Longrightarrow> P (fst (emit_all m ls out))"
proof (induction ls arbitrary: out)
  case Nil
  then show ?case by simp
next
  case (Cons l ls)
  then show ?case using step [of out l] by (cases "emit m l out") auto
qed

text \<open>Whatever \<open>emit\<close> keeps, rendering keeps.\<close>

lemma render_loop_invariant:
  assumes step: "\<And>out l. P out \<Longrightarrow> P (fst (emit (DMaxLines lim) l out))"
  shows "P out \<Longrightarrow> P (render_loop ops lim cs nxt out)"
  using step
proof (induction ops lim cs nxt out rule: render_loop.induct)
  case (1 ops lim nxt out)
  then show ?case by (simp add: render_loop.simps Let_def)
next
  case (2 ops lim c cs nxt out)
  define hs where "hs = max (c - diffContext) nxt"
  define m where "m = merge_runs c cs"
  define he where "he = min (fst m + diffContext) (length ops - 1)"
  define e1 where "e1 = (if hs - nxt > 0 then emit (DMaxLines lim) (gap_line (hs - nxt)) out
      else (out, True))"
  define e2 where "e2 = emit_all (DMaxLines lim) (map (\<lambda>p. renderOp p (DMaxWidth lim))
      (take (he + 1 - hs) (drop hs ops))) (fst e1)"
  note defs = m_def [symmetric] hs_def [symmetric] he_def [symmetric] e1_def [symmetric]
    e2_def [symmetric]
  have P1: "P (fst e1)" using 2(2,3) by (simp add: e1_def)
  have P2: "P (fst e2)"
    unfolding e2_def by (rule emit_all_invariant [where P = P, OF 2(3) P1])
  have res: "render_loop ops lim (c # cs) nxt out =
      (if \<not> snd e1 then fst e1 else if \<not> snd e2 then fst e2
       else render_loop ops lim (snd m) (he + 1) (fst e2))"
    by (simp only: render_loop.simps Let_def defs)
  show ?case
  proof (cases "snd e1 \<and> snd e2")
    case True
    have "P (render_loop ops lim (snd m) (he + 1) (fst e2))"
    proof (rule 2(1) [OF refl refl refl refl refl _ refl, unfolded defs])
      show "\<not> \<not> snd e1" "\<not> \<not> snd e2" using True by simp_all
    qed (use P2 2(3) in simp_all)
    with True show ?thesis by (simp add: res)
  qed (use P1 P2 in \<open>auto simp: res\<close>)
qed

lemma render_loop_full:
  "full_if_truncated (DMaxLines lim) out \<Longrightarrow>
     full_if_truncated (DMaxLines lim) (render_loop ops lim cs nxt out)"
  by (rule render_loop_invariant) (auto intro: emit_full)

lemma emit_bound:
  "int (length (Lines out)) \<le> m \<Longrightarrow> int (length (Lines (fst (emit m l out)))) \<le> m"
  by (auto simp: emit_def)

lemma render_loop_bound:
  "int (length (Lines out)) \<le> DMaxLines lim \<Longrightarrow>
     int (length (Lines (render_loop ops lim cs nxt out))) \<le> DMaxLines lim"
  by (rule render_loop_invariant [where P = "\<lambda>out. int (length (Lines out)) \<le> DMaxLines lim"])
     (auto intro: emit_bound)

lemma renderHunks_full: "full_if_truncated (DMaxLines lim) (renderHunks ops lim)"
  unfolding renderHunks_def Let_def
  by (auto intro!: render_loop_full simp: full_if_truncated_def [of _ "\<lparr>Lines = [], Truncated = False\<rparr>"])

lemma all_Keep_sides: "filter (\<lambda>p. kind p \<noteq> Keep) ops = [] \<Longrightarrow> before_lines ops = after_lines ops"
  by (induction ops) (auto split: if_splits)

lemma renderHunks_Nil:
  assumes "Lines (renderHunks ops lim) = []" "1 \<le> DMaxLines lim"
  shows "before_lines ops = after_lines ops"
  using assms renderHunks_full [of lim ops] renderHunks_shows [of lim ops]
  by (intro all_Keep_sides)
     (auto simp: full_if_truncated_def shows_from_def dest: list_emb_length)

lemma diff_middle_unchanged:
  "diff_middle a b = [] \<Longrightarrow> filter (\<lambda>p. kind p \<noteq> Keep) (aligned a b) = []"
  by (simp add: aligned_def Let_def mk_ops_def)

section \<open>Properties\<close>

lemma Diff_MaxLines_pos: "1 \<le> DMaxLines (diff_withDefaults l)"
  by (simp add: diff_withDefaults_def Let_def)

text \<open>The alignment is a correct edit script: dropping its insertions gives the lines before,
  dropping its deletions gives the lines after.\<close>

theorem aligned_is_edit_script:
  "before_lines (aligned a b) = a \<and> after_lines (aligned a b) = b"
  by (rule aligned_lines)



text \<open>C24. A diff that is not marked truncated hides nothing: the rendered form of every deleted
  and inserted line appears among its lines, in order.\<close>

theorem Diff_complete:
  assumes "\<not> Truncated (Diff before after lim)"
  shows "subseq
    (map (\<lambda>p. renderOp p (DMaxWidth (diff_withDefaults lim)))
      (filter (\<lambda>p. kind p \<noteq> Keep) (aligned (splitDiffLines before) (splitDiffLines after))))
    (Lines (Diff before after lim))"
  using assms renderHunks_shows [of "diff_withDefaults lim"
      "aligned (splitDiffLines before) (splitDiffLines after)"]
  by (auto simp: Diff_def Let_def shows_from_def diff_middle_unchanged split: if_splits)

lemma Diff_complete_witness:
  "subseq [''- a'', ''+ b''] (Lines (Diff ''a'' ''b'' \<lparr>DMaxLines = 0, DMaxWidth = 0, DMaxInputLines = 0\<rparr>))"
proof -
  let ?l = "\<lparr>DMaxLines = 0, DMaxWidth = 0, DMaxInputLines = 0\<rparr>"
  let ?ops = "[\<lparr>kind = Delete, line = ''a''\<rparr>, \<lparr>kind = Insert, line = ''b''\<rparr>]"
  have lines: "splitDiffLines ''a'' = [''a'']" "splitDiffLines ''b'' = [''b'']" by code_simp+
  have middle: "diff_middle [''a''] [''b''] = ?ops"
  proof -
    have w: "walk t [''a''] [''b''] 1 0 = mk_ops Insert [''b'']"
        "walk t [''a''] [''b''] 0 1 = mk_ops Delete [''a'']" for t
      by (simp_all add: walk.simps [of t "[''a'']" "[''b'']" "Suc 0" 0]
          walk.simps [of t "[''a'']" "[''b'']" 0 "Suc 0"] mk_ops_def)
    have "diffOps [''a''] [''b''] = ?ops"
      by (simp add: diffOps_def maxCells_def lcs_table_def walk.simps [of _ _ _ 0 0] w [simplified]
          mk_ops_def)
    then show ?thesis by (simp add: diff_middle_def common_suffix_def)
  qed
  have ops: "aligned [''a''] [''b''] = ?ops"
    by (simp add: aligned_def middle common_suffix_def mk_ops_def)
  have lim: "diff_withDefaults ?l = \<lparr>DMaxLines = 80, DMaxWidth = 120, DMaxInputLines = 4000\<rparr>"
    by (simp add: diff_withDefaults_def)
  have r: "renderOp \<lparr>kind = Delete, line = ''a''\<rparr> 120 = ''- a''"
      "renderOp \<lparr>kind = Insert, line = ''b''\<rparr> 120 = ''+ b''"
  proof -
    have "encode (map of_char ''a'') = ''a''" "encode (map of_char ''b'') = ''b''"
      by (simp_all add: encode_ascii del: list.map)
    then have "encode [97] = ''a''" "encode [98] = ''b''" by simp_all
    moreover have "list_all safe_rune [97, 98]"
      by (simp add: safe_rune_def is_scalar_def is_control_def is_format_def)
    ultimately have "sanitizeLine ''a'' = ''a''" "sanitizeLine ''b'' = ''b''"
        "runes ''a'' = [97]" "runes ''b'' = [98]"
      using sanitizeLine_id [of "[97]"] sanitizeLine_id [of "[98]"]
        runes_encode [of "[97]"] runes_encode [of "[98]"]
      by (simp_all add: safe_rune_scalar)
    then show "renderOp \<lparr>kind = Delete, line = ''a''\<rparr> 120 = ''- a''"
        "renderOp \<lparr>kind = Insert, line = ''b''\<rparr> 120 = ''+ b''"
      by (simp_all add: renderOp_def op_prefix_def)
  qed
  have "\<not> Truncated (Diff ''a'' ''b'' ?l)"
    by (simp add: Diff_def lines middle ops lim renderHunks_def changed_positions_def
        render_loop.simps diffContext_def emit_def r)
  from Diff_complete [OF this] show ?thesis by (simp add: lines ops lim r)
qed

text \<open>Neither side too large: the diff is empty exactly when the line sequences agree.\<close>

theorem Diff_empty_iff:
  assumes "int (length (splitDiffLines before)) \<le> DMaxInputLines (diff_withDefaults lim)"
    "int (length (splitDiffLines after)) \<le> DMaxInputLines (diff_withDefaults lim)"
  shows "Lines (Diff before after lim) = [] \<longleftrightarrow> splitDiffLines before = splitDiffLines after"
  using assms aligned_lines [of "splitDiffLines before" "splitDiffLines after"]
    renderHunks_Nil [OF _ Diff_MaxLines_pos]
  by (auto simp: Diff_def Let_def diff_middle_Nil_iff)

lemma Diff_empty_iff_witness:
  "Lines (Diff ''a'' ''b'' \<lparr>DMaxLines = 0, DMaxWidth = 0, DMaxInputLines = 0\<rparr>) \<noteq> []"
proof -
  let ?l = "\<lparr>DMaxLines = 0, DMaxWidth = 0, DMaxInputLines = 0\<rparr>"
  have "splitDiffLines ''a'' = [''a'']" "splitDiffLines ''b'' = [''b'']" by code_simp+
  then show ?thesis
    using Diff_empty_iff [of "''a''" ?l "''b''"] by (simp add: diff_withDefaults_def)
qed

end
