(* ===== verification/EnvFile.thy ===== *)
theory EnvFile
  imports Domain Utf8
begin

text \<open>
  \<^verbatim>\<open>internal/envfile/envfile.go\<close>: the literal parser of project env files. The lemmas show
  that whatever \<^verbatim>\<open>Parse\<close> returns is within its contract (valid distinct keys, no NUL or line
  break in a value, every limit respected) and that a file written line by line from such
  entries parses back to them.
\<close>

section \<open>The parser\<close>

record env_entry =
  Key :: string
  Value :: string

record env_limits =
  MaxEntries :: int
  MaxKeyBytes :: int
  MaxValueBytes :: int
  MaxTotalBytes :: int

definition env_withDefaults :: "env_limits \<Rightarrow> env_limits" where
  "env_withDefaults l =
     \<lparr>MaxEntries = (if MaxEntries l = 0 then 1000 else MaxEntries l),
      MaxKeyBytes = (if MaxKeyBytes l = 0 then 128 else MaxKeyBytes l),
      MaxValueBytes = (if MaxValueBytes l = 0 then 32 * 1024 else MaxValueBytes l),
      MaxTotalBytes = (if MaxTotalBytes l = 0 then 256 * 1024 else MaxTotalBytes l)\<rparr>"

definition LF :: char where "LF = CHR 0x0A"
definition CR :: char where "CR = CHR 0x0D"
definition NUL :: char where "NUL = CHR 0x00"

text \<open>
  The tokens of \<^verbatim>\<open>bufio.ScanLines\<close>: the line breaks and one trailing carriage return each are
  dropped, and there is no token after a final line break. The scanner's buffer is one byte
  larger than the data can be, so a line is never too long for it.
\<close>

definition scan_lines :: "string \<Rightarrow> string list" where
  "scan_lines data =
     (let ls = split_on LF data
      in map (\<lambda>l. trim_suffix l [CR]) (if last ls = [] then butlast ls else ls))"

definition env_fieldErr :: "nat \<Rightarrow> string \<Rightarrow> string list \<Rightarrow> error" where
  "env_fieldErr line msg args =
     Field \<lparr>fe_path = '''', fe_line = int line, fe_column = 1, fe_message = msg, fe_args = args\<rparr>"

text \<open>The switch of \<^verbatim>\<open>validateKey\<close> on one rune, and the loop around it.\<close>

definition key_start_rune :: "nat \<Rightarrow> bool" where
  "key_start_rune c = (c = 95 \<or> 65 \<le> c \<and> c \<le> 90 \<or> 97 \<le> c \<and> c \<le> 122)"

definition digit_rune :: "nat \<Rightarrow> bool" where
  "digit_rune c = (48 \<le> c \<and> c \<le> 57)"

fun check_key_runes :: "string \<Rightarrow> bool \<Rightarrow> nat list \<Rightarrow> (string \<times> string list) option" where
  "check_key_runes key first [] = None"
| "check_key_runes key first (c # cs) =
     (if key_start_rune c then check_key_runes key False cs
      else if digit_rune c
      then (if first then Some (''key %q starts with a digit'', [key])
            else check_key_runes key False cs)
      else Some (''key %q contains %q; allowed are [A-Za-z0-9_]'', [key, encode_rune c]))"

definition validateKey :: "string \<Rightarrow> int \<Rightarrow> (string \<times> string list) option" where
  "validateKey key maxBytes =
     (if key = [] then Some (''empty key'', [])
      else if int (length key) > maxBytes then Some (''key exceeds %d bytes'', [itoa_int maxBytes])
      else check_key_runes key True (runes key))"

text \<open>
  The scanning loop. \<open>line\<close> is the number of the next line, \<open>seen\<close> maps a key to the line
  that set it.
\<close>

fun env_scan ::
  "env_limits \<Rightarrow> nat \<Rightarrow> string list \<Rightarrow> (string \<rightharpoonup> nat) \<Rightarrow> env_entry list \<Rightarrow> error + env_entry list" where
  "env_scan lim line [] seen entries = Inr entries"
| "env_scan lim line (text # rest) seen entries =
     (let raw = trim_suffix text [CR] in
      if NUL \<in> set raw then Inl (env_fieldErr line ''NUL byte'' [])
      else if trim_space raw = [] \<or> has_prefix (trim_space raw) ''#''
      then env_scan lim (line + 1) rest seen entries
      else (case cut raw ''='' of
              (key, value, ok) \<Rightarrow>
                if \<not> ok then Inl (env_fieldErr line ''expected KEY=VALUE'' [])
                else (case validateKey key (MaxKeyBytes lim) of
                  Some (msg, args) \<Rightarrow> Inl (env_fieldErr line msg args)
                | None \<Rightarrow>
                    if int (length value) > MaxValueBytes lim
                    then Inl (env_fieldErr line ''value exceeds %d bytes'' [itoa_int (MaxValueBytes lim)])
                    else (case seen key of
                      Some prev \<Rightarrow>
                        Inl (env_fieldErr line ''duplicate key %q (first set on line %d)'' [key, itoa prev])
                    | None \<Rightarrow>
                        if int (length (entries @ [\<lparr>Key = key, Value = value\<rparr>])) > MaxEntries lim
                        then Inl (env_fieldErr line ''more than %d entries'' [itoa_int (MaxEntries lim)])
                        else env_scan lim (line + 1) rest (seen(key \<mapsto> line))
                               (entries @ [\<lparr>Key = key, Value = value\<rparr>])))))"

text \<open>
  \<^verbatim>\<open>Parse\<close>. The reader is what it yields: its bytes, or the error of reading it;
  \<^verbatim>\<open>io.LimitReader\<close> cuts the bytes off one past the limit.
\<close>

definition Parse :: "error + string \<Rightarrow> env_limits \<Rightarrow> error + env_entry list" where
  "Parse r lim0 =
     (let lim = env_withDefaults lim0 in
      case r of
        Inl e \<Rightarrow> Inl (Wrapped ''read env file: %w'' [] e)
      | Inr bytes \<Rightarrow>
          (let data = take (nat (MaxTotalBytes lim + 1)) bytes in
           if int (length data) > MaxTotalBytes lim
           then Inl (Class ErrInvalid ''%w: env file exceeds %d bytes'' [itoa_int (MaxTotalBytes lim)])
           else if \<not> utf8_valid data
           then Inl (Class ErrInvalid ''%w: env file is not valid UTF-8'' [])
           else env_scan lim 1 (scan_lines data) Map.empty []))"

section \<open>What a parsed file looks like\<close>

definition key_char :: "char \<Rightarrow> bool" where
  "key_char c = (key_start_rune (byte c) \<or> digit_rune (byte c))"

definition valid_key :: "string \<Rightarrow> bool" where
  "valid_key k = (k \<noteq> [] \<and> list_all key_char k \<and> key_start_rune (byte (hd k)))"

lemma key_runes_ascii: "key_start_rune r \<or> digit_rune r \<Longrightarrow> r < 128"
  by (auto simp: key_start_rune_def digit_rune_def)

lemma check_key_runes_None:
  "check_key_runes key first cs = None \<longleftrightarrow>
     list_all (\<lambda>c. key_start_rune c \<or> digit_rune c) cs \<and>
     (first \<and> cs \<noteq> [] \<longrightarrow> key_start_rune (hd cs))"
  by (induction key first cs rule: check_key_runes.induct)
     (auto simp: key_start_rune_def digit_rune_def)

lemma validateKey_None:
  "validateKey key maxBytes = None \<longleftrightarrow> valid_key key \<and> int (length key) \<le> maxBytes"
proof -
  have all: "list_all (\<lambda>c. key_start_rune c \<or> digit_rune c) (runes key) \<longleftrightarrow> list_all key_char key"
    by (simp add: list_all_runes_ascii key_runes_ascii key_char_def [abs_def])
  have "runes key = map of_char key" if "list_all key_char key"
    using that by (intro runes_ascii) (auto simp: list_all_iff key_char_def intro: key_runes_ascii)
  with all show ?thesis
    by (cases key) (auto simp: validateKey_def check_key_runes_None valid_key_def)
qed

definition env_entry_ok :: "env_limits \<Rightarrow> env_entry \<Rightarrow> bool" where
  "env_entry_ok lim e =
     (valid_key (Key e) \<and> int (length (Key e)) \<le> MaxKeyBytes lim \<and>
      int (length (Value e)) \<le> MaxValueBytes lim \<and> NUL \<notin> set (Value e) \<and> LF \<notin> set (Value e))"

definition env_ok :: "env_limits \<Rightarrow> env_entry list \<Rightarrow> bool" where
  "env_ok lim es =
     (distinct (map Key es) \<and> int (length es) \<le> max 0 (MaxEntries lim) \<and>
      list_all (env_entry_ok lim) es)"

lemma trim_suffix_subset: "set (trim_suffix s t) \<subseteq> set s"
  by (auto simp: trim_suffix_def dest: in_set_takeD)

lemma env_scan_ok:
  assumes "env_scan lim line ls seen entries = Inr es"
    "env_ok lim entries" "dom seen = Key ` set entries" "\<forall>l \<in> set ls. LF \<notin> set l"
  shows "env_ok lim es"
  using assms
proof (induction lim line ls seen entries rule: env_scan.induct)
  case (1 lim line seen entries)
  then show ?case by simp
next
  case (2 lim line tok rest seen entries)
  define raw where "raw = trim_suffix tok [CR]"
  have raw: "LF \<notin> set raw" using "2.prems"(4) trim_suffix_subset [of tok "[CR]"] by (auto simp: raw_def)
  note eq = "2.prems"(1) [unfolded env_scan.simps Let_def raw_def [symmetric]]
  have nul: "NUL \<notin> set raw" using eq by (auto split: if_splits)
  show ?case
  proof (cases "trim_space raw = [] \<or> has_prefix (trim_space raw) ''#''")
    case True
    with 2 nul show ?thesis by (simp add: raw_def Let_def)
  next
    case False
    obtain key val ok where c: "cut raw ''='' = (key, val, ok)" by (cases "cut raw ''=''")
    from eq False nul c have ok: ok "validateKey key (MaxKeyBytes lim) = None"
        "\<not> int (length val) > MaxValueBytes lim" "seen key = None"
        "\<not> int (length (entries @ [\<lparr>Key = key, Value = val\<rparr>])) > MaxEntries lim"
      by (auto split: if_splits option.splits)
    have raw_eq: "raw = key @ CHR ''='' # val" using cut_single_True [of raw "CHR ''=''" key val] c ok(1) by simp
    have entry: "env_entry_ok lim \<lparr>Key = key, Value = val\<rparr>"
      using ok raw nul raw_eq by (auto simp: env_entry_ok_def validateKey_None)
    have new: "key \<notin> Key ` set entries" using ok(4) "2.prems"(3) by (auto simp: domIff)
    have eq': "env_scan lim (line + 1) rest (seen(key \<mapsto> line))
        (entries @ [\<lparr>Key = key, Value = val\<rparr>]) = Inr es"
      using eq False nul c ok by simp
    have dom': "dom (seen(key \<mapsto> line)) = Key ` set (entries @ [\<lparr>Key = key, Value = val\<rparr>])"
      using "2.prems"(3) by simp
    have ok': "env_ok lim (entries @ [\<lparr>Key = key, Value = val\<rparr>])"
      using "2.prems"(2) entry new ok(5) by (auto simp: env_ok_def)
    show ?thesis
      by (rule "2.IH"(2) [OF raw_def nul False c [symmetric] refl _ ok(2-5) eq' ok' dom'])
         (use ok(1) "2.prems"(4) in simp_all)
  qed
qed

lemma scan_lines_no_LF: "l \<in> set (scan_lines data) \<Longrightarrow> LF \<notin> set l"
  by (auto simp: scan_lines_def Let_def split: if_splits
      dest!: split_on_elem in_set_butlastD dest: trim_suffix_subset [THEN subsetD])

section \<open>Printing\<close>

text \<open>A file that holds the given entries, one line each.\<close>

definition render_env :: "env_entry list \<Rightarrow> string" where
  "render_env es = concat (map (\<lambda>e. Key e @ ''='' @ Value e @ [LF]) es)"

definition env_line :: "env_entry \<Rightarrow> string" where
  "env_line e = Key e @ ''='' @ Value e"

lemma key_char_bytes: "key_char c \<Longrightarrow> c \<noteq> LF \<and> c \<noteq> CR \<and> c \<noteq> NUL \<and> c \<noteq> CHR ''='' \<and> c \<noteq> CHR ''#''"
  by (auto simp: key_char_def key_start_rune_def digit_rune_def LF_def CR_def NUL_def)

lemma valid_key_bytes:
  "valid_key k \<Longrightarrow> c \<in> set k \<Longrightarrow> c \<noteq> LF \<and> c \<noteq> CR \<and> c \<noteq> NUL \<and> c \<noteq> CHR ''='' \<and> c \<noteq> CHR ''#''"
  using key_char_bytes [of c] by (simp add: valid_key_def list_all_iff)

lemma env_line_no_LF: "env_entry_ok lim e \<Longrightarrow> LF \<notin> set (env_line e)"
  by (auto simp: env_line_def env_entry_ok_def LF_def dest: valid_key_bytes [unfolded LF_def])

lemma scan_lines_render:
  assumes "\<forall>e \<in> set es. LF \<notin> set (env_line e)"
  shows "scan_lines (render_env es) = map (\<lambda>e. trim_suffix (env_line e) [CR]) es"
proof -
  have "split_on LF (render_env es) = map env_line es @ [[]]"
    using assms
  proof (induction es)
    case Nil
    show ?case by (simp add: render_env_def)
  next
    case (Cons e es)
    have "render_env (e # es) = env_line e @ LF # render_env es"
      by (simp add: render_env_def env_line_def)
    with Cons show ?case by (simp add: split_on_append)
  qed
  then show ?thesis by (simp add: scan_lines_def comp_def)
qed

lemma no_CR_end:
  assumes "\<not> has_suffix (Value e) [CR]"
  shows "trim_suffix (env_line e) [CR] = env_line e"
proof -
  have "\<not> has_suffix (env_line e) [CR]"
    using assms by (cases "Value e" rule: rev_cases) (auto simp: env_line_def has_suffix_iff CR_def)
  then show ?thesis by (simp add: trim_suffix_def)
qed

lemma dropWhile_snoc: "\<not> P x \<Longrightarrow> dropWhile P (xs @ [x]) = dropWhile P xs @ [x]"
  by (induction xs) auto

lemma trim_space_starts:
  assumes "byte c < 128" "\<not> is_space (byte c)"
  shows "\<exists>t. trim_space (c # s) = c # t"
proof -
  let ?sp = "\<lambda>(r, w :: string, ok). ok \<and> is_space r"
  have "\<not> ?sp (byte c, [c], True)" using assms(2) by simp
  from dropWhile_snoc [where P = ?sp, OF this] assms show ?thesis
    by (simp add: trim_space_def Let_def)
qed

lemma env_scan_render:
  assumes "env_ok lim (done @ es)" "dom seen = Key ` set done"
    "\<forall>e \<in> set es. \<not> has_suffix (Value e) [CR]"
  shows "env_scan lim line (map env_line es) seen done = Inr (done @ es)"
  using assms
proof (induction es arbitrary: line seen "done")
  case Nil
  show ?case by simp
next
  case (Cons e es)
  have e: "env_entry_ok lim e" "Key e \<notin> Key ` set done"
      "int (length (done @ [e])) \<le> MaxEntries lim"
    using Cons.prems(1) by (auto simp: env_ok_def)
  then have k: "valid_key (Key e)" by (simp add: env_entry_ok_def)
  then obtain c cs where key: "Key e = c # cs" by (cases "Key e") (auto simp: valid_key_def)
  then have c: "byte c < 128" "\<not> is_space (byte c)" "c \<noteq> CHR ''#''"
    using k valid_key_bytes [OF k, of c]
    by (auto simp: valid_key_def key_start_rune_def is_space_def)
  then obtain t where t: "trim_space (env_line e) = c # t"
    using trim_space_starts [of c "cs @ ''='' @ Value e"] key by (auto simp: env_line_def)
  have raw: "trim_suffix (env_line e) [CR] = env_line e"
    using Cons.prems(3) by (simp add: no_CR_end)
  have nul: "NUL \<notin> set (env_line e)"
    using e(1) valid_key_bytes [OF k, of NUL] by (auto simp: env_line_def env_entry_ok_def NUL_def)
  have cut: "cut (env_line e) ''='' = (Key e, Value e, True)"
    using valid_key_bytes [OF k, of "CHR ''=''"] by (auto simp: env_line_def intro!: cut_single)
  have "seen (Key e) = None" using e(2) Cons.prems(2) by auto
  moreover have "validateKey (Key e) (MaxKeyBytes lim) = None"
    using e(1) by (simp add: validateKey_None env_entry_ok_def)
  moreover have e_eq: "\<lparr>Key = Key e, Value = Value e\<rparr> = e" by (cases e) simp
  ultimately have "env_scan lim line (map env_line (e # es)) seen done =
      env_scan lim (line + 1) (map env_line es) (seen(Key e \<mapsto> line)) (done @ [e])"
    using e k c nul t by (simp add: raw cut env_entry_ok_def has_prefix_iff e_eq)
  also have "\<dots> = Inr ((done @ [e]) @ es)"
  proof (rule Cons.IH)
    show "dom (seen(Key e \<mapsto> line)) = Key ` set (done @ [e])" using Cons.prems(2) by simp
  qed (use Cons.prems in simp_all)
  finally show ?case by simp
qed

section \<open>Properties\<close>

text \<open>C25. Whatever \<^verbatim>\<open>Parse\<close> accepts is within the contract: distinct valid keys, no NUL and no
  line break in a value, every size limit respected.\<close>

theorem Parse_wellformed:
  assumes "Parse r lim = Inr es"
  shows "env_ok (env_withDefaults lim) es"
proof -
  from assms obtain data where d: "env_scan (env_withDefaults lim) 1 (scan_lines data) Map.empty [] = Inr es"
    by (auto simp: Parse_def Let_def split: sum.splits if_splits)
  show ?thesis
    by (rule env_scan_ok [OF d]) (auto simp: env_ok_def scan_lines_no_LF)
qed

text \<open>C26. A file written from such entries parses back to exactly them.\<close>

theorem Parse_render_env:
  assumes "env_ok (env_withDefaults lim) es" "list_all (\<lambda>e. \<not> has_suffix (Value e) [CR]) es"
    "utf8_valid (render_env es)" "int (length (render_env es)) \<le> MaxTotalBytes (env_withDefaults lim)"
  shows "Parse (Inr (render_env es)) lim = Inr es"
proof -
  have "\<forall>e \<in> set es. LF \<notin> set (env_line e)"
    using assms(1) by (auto simp: env_ok_def list_all_iff dest: env_line_no_LF)
  then have "scan_lines (render_env es) = map env_line es"
    using assms(2) no_CR_end by (auto simp: scan_lines_render list_all_iff)
  then have "env_scan (env_withDefaults lim) 1 (scan_lines (render_env es)) Map.empty [] = Inr es"
    using env_scan_render [of "env_withDefaults lim" "[]" es Map.empty 1] assms(1,2)
    by (simp add: list_all_iff)
  then show ?thesis using assms(3,4) by (simp add: Parse_def Let_def)
qed

lemma Parse_wellformed_witness:
  "env_ok (env_withDefaults \<lparr>MaxEntries = 0, MaxKeyBytes = 0, MaxValueBytes = 0, MaxTotalBytes = 0\<rparr>)
     [\<lparr>Key = ''A'', Value = ''1''\<rparr>]"
proof (rule Parse_wellformed)
  show "Parse (Inr (''A=1'' @ [LF])) \<lparr>MaxEntries = 0, MaxKeyBytes = 0, MaxValueBytes = 0, MaxTotalBytes = 0\<rparr> =
      Inr [\<lparr>Key = ''A'', Value = ''1''\<rparr>]"
  proof -
    have "scan_lines (''A=1'' @ [LF]) = [''A=1'']"
      by (simp add: scan_lines_def LF_def CR_def trim_suffix_def has_suffix_def)
    moreover have "trim_space ''A=1'' = ''A=1''" by (simp add: trim_space_def is_space_def)
    moreover have "cut ''A=1'' ''='' = (''A'', ''1'', True)"
      by (simp add: cut_def has_prefix_def)
    moreover have "validateKey ''A'' 128 = None" by (simp add: validateKey_def key_start_rune_def)
    ultimately show ?thesis
      by (simp add: Parse_def env_withDefaults_def utf8_valid_def LF_def CR_def NUL_def
          trim_suffix_def has_suffix_def has_prefix_def)
  qed
qed

lemma Parse_render_env_witness:
  "Parse (Inr (render_env [\<lparr>Key = ''A'', Value = ''1''\<rparr>]))
     \<lparr>MaxEntries = 0, MaxKeyBytes = 0, MaxValueBytes = 0, MaxTotalBytes = 0\<rparr> =
    Inr [\<lparr>Key = ''A'', Value = ''1''\<rparr>]"
  by (rule Parse_render_env)
     (simp_all add: env_ok_def env_entry_ok_def env_withDefaults_def valid_key_def key_char_def
        key_start_rune_def NUL_def LF_def has_suffix_def CR_def render_env_def utf8_valid_def)

end
