(* ===== verification/Plan.thy ===== *)
theory Plan
  imports Domain
begin

text \<open>
  \<^verbatim>\<open>internal/model/plan.go\<close> and \<^verbatim>\<open>names.go\<close>: the canonical plan, the handoff between
  configuration and execution, and the names of the Docker objects it uses. The lemmas show
  that the generated container names never carry the dotted suffixes of a replacement
  transaction and that distinct roles of a project get distinct names.
\<close>

section \<open>Object names\<close>

definition namePrefix :: string where
  "namePrefix = ''vibe-''"

definition idTag :: "string \<Rightarrow> string" where
  "idTag i = (if length i > 12 then take 12 i else i)"

definition DevContainerName :: "string \<Rightarrow> string" where
  "DevContainerName i = namePrefix @ idTag i @ ''-dev''"

definition SidecarContainerName :: "string \<Rightarrow> string \<Rightarrow> string" where
  "SidecarContainerName i service = namePrefix @ idTag i @ ''-svc-'' @ service"

definition NetworkName :: "string \<Rightarrow> string" where
  "NetworkName i = namePrefix @ idTag i"

definition AgentStateVolumeName :: "string \<Rightarrow> string" where
  "AgentStateVolumeName i = namePrefix @ idTag i @ ''-agent-state''"

definition ServiceVolumeName :: "string \<Rightarrow> string \<Rightarrow> string" where
  "ServiceVolumeName i volume = namePrefix @ idTag i @ ''-vol-'' @ volume"

definition ExtensionImageRef :: "string \<Rightarrow> string" where
  "ExtensionImageRef i = namePrefix @ idTag i @ ''-ext''"

definition ToolsImageRef :: "string \<Rightarrow> string" where
  "ToolsImageRef i = namePrefix @ idTag i @ ''-tools''"

definition WorkspaceTarget :: string where "WorkspaceTarget = ''/workspace''"
definition PayloadTarget :: string where "PayloadTarget = ''/vibe/payload''"
definition AgentStateTarget :: string where "AgentStateTarget = ''/vibe/agent-state''"
definition ResultsTarget :: string where "ResultsTarget = ''/vibe/results''"
definition RuntimeDirTarget :: string where "RuntimeDirTarget = ''/run/user/1000''"
definition DNSConfTarget :: string where "DNSConfTarget = ''/vibe/dns''"

definition ReservedTargets :: "string list" where
  "ReservedTargets =
     [WorkspaceTarget, PayloadTarget, AgentStateTarget, ResultsTarget, RuntimeDirTarget, DNSConfTarget]"

text \<open>The first reserved target that \<open>t\<close> equals, contains or is contained by.\<close>

definition reservedTargetFor :: "string \<Rightarrow> string" where
  "reservedTargetFor t =
     (case List.find (\<lambda>r. t = r \<or> has_prefix t (r @ ''/'') \<or> has_prefix r (t @ ''/'')) ReservedTargets of
        Some r \<Rightarrow> r | None \<Rightarrow> '''')"

definition PayloadEntrypoint :: string where
  "PayloadEntrypoint = PayloadTarget @ ''/container/entrypoint.sh''"

definition PayloadLifecycle :: string where
  "PayloadLifecycle = PayloadTarget @ ''/container/lifecycle.sh''"

definition DNSServiceName :: string where "DNSServiceName = ''dns''"

definition CoreDNSImageRef :: string where
  "CoreDNSImageRef =
     ''coredns/coredns:1.14.6@sha256:900f9c109f7a33545d3c811516e8376df9019147b750f5ce3e254468769176ea''"

definition PayloadDNSDir :: string where "PayloadDNSDir = ''dns''"
definition DNSCorefile :: string where "DNSCorefile = DNSConfTarget @ ''/Corefile''"
definition DNSConfRelPath :: string where "DNSConfRelPath = PayloadDNSDir @ ''/Corefile''"

section \<open>The plan\<close>

definition PlanFormat :: int where "PlanFormat = 1"

record image_id =
  im_ref :: string
  im_digest :: digest

record env_var =
  ev_key :: string
  ev_value :: string

text \<open>\<^verbatim>\<open>MountKind\<close> is a string type; \<open>OtherMount\<close> is any value but the three named ones.\<close>

datatype mount_kind = BindMount | VolumeMount | TmpfsMount | OtherMount string

record mount =
  mo_kind :: mount_kind
  mo_source :: string
  mo_target :: string
  mo_read_only :: bool

record port_binding =
  pb_host_ip :: string
  pb_host_port :: int
  pb_container_port :: int

record log_policy =
  lo_max_size :: string
  lo_max_files :: int

text \<open>
  \<^verbatim>\<open>NetworkMode\<close> is an open string type in the code; \<^verbatim>\<open>NetworkProject\<close> is its only named value.
\<close>

definition NetworkProject :: string where "NetworkProject = ''project''"

record container_policy =
  po_drop_all_capabilities :: bool
  po_no_new_privileges :: bool
  po_readonly_root_fs :: bool
  po_network :: string
  po_net_bind_service :: bool

record container =
  c_name :: string
  c_image :: image_id
  c_user :: string
  c_command :: "string list"
  c_environment :: "env_var list"
  c_mounts :: "mount list"
  c_ports :: "port_binding list"
  c_labels :: "(string \<times> string) list"
  c_dns_from_service :: string
  c_log :: "log_policy option"
  c_policy :: container_policy

record tools =
  to_agents :: "string list"
  to_toolchains :: "string list"

text \<open>The plan; \<^verbatim>\<open>Extension\<close> is its one field, the Dockerfile path.\<close>

record plan =
  p_format :: int
  p_project_id :: string
  p_project_root :: string
  p_display_name :: string
  p_artifact_digest :: digest
  p_artifact_version :: string
  p_dev :: container
  p_services :: "container list"
  p_networks :: "string list"
  p_volumes :: "string list"
  p_images :: "image_id list"
  p_snapshot :: digest
  p_env_file :: string
  p_tools :: "tools option"
  p_extension :: "string option"
  p_canonical_hash :: digest

section \<open>Names carry no dot\<close>

text \<open>The container name grammar of the engine, \<^verbatim>\<open>[a-z0-9-]\<close>, as far as the runtime relies on it.\<close>

definition canonical_name :: "string \<Rightarrow> bool" where
  "canonical_name n = (CHR ''.'' \<notin> set n)"

lemma idTag_subset: "set (idTag i) \<subseteq> set i"
  by (auto simp: idTag_def dest: in_set_takeD)

lemma project_id_no_dot:
  assumes "ParseProjectID s = Inr i"
  shows "CHR ''.'' \<notin> set i"
proof -
  from assms have "valid_project_id i"
    by (auto simp: project_id_text.parse_eq_Inr_iff)
  then show ?thesis by (auto simp: valid_project_id_def list_all_iff is_base32_rune_def)
qed

lemma DevContainerName_canonical:
  "ParseProjectID s = Inr i \<Longrightarrow> canonical_name (DevContainerName i)"
  using project_id_no_dot [of s i] idTag_subset [of i]
  by (auto simp: canonical_name_def DevContainerName_def namePrefix_def)

lemma SidecarContainerName_canonical:
  "ParseProjectID s = Inr i \<Longrightarrow> CHR ''.'' \<notin> set service \<Longrightarrow>
     canonical_name (SidecarContainerName i service)"
  using project_id_no_dot [of s i] idTag_subset [of i]
  by (auto simp: canonical_name_def SidecarContainerName_def namePrefix_def)

lemma SidecarContainerName_inj:
  "SidecarContainerName i a = SidecarContainerName i b \<longleftrightarrow> a = b"
  by (simp add: SidecarContainerName_def)

lemma Dev_not_Sidecar: "DevContainerName i \<noteq> SidecarContainerName i service"
  by (simp add: SidecarContainerName_def DevContainerName_def)

end
