(* ===== verification/Journal.thy ===== *)
theory Journal
  imports Plan
begin

text \<open>
  The data of \<^verbatim>\<open>internal/runtime/journal.go\<close> and \<^verbatim>\<open>labels.go\<close>: the label vocabulary, the
  replacement journal with its entries, the ownership test, and the contract a journal file
  must satisfy before recovery trusts it. The journal file itself is JSON; what the standard
  library's strict decoder makes of its bytes is the value of type \<open>journal_file\<close>.
\<close>

section \<open>Labels (labels.go)\<close>

type_synonym labels = "string \<rightharpoonup> string"

abbreviation label :: "labels \<Rightarrow> string \<Rightarrow> string" where
  "label m k \<equiv> map_get m '''' k"

definition ManagedLabel :: string where "ManagedLabel = ''dev.vibe.managed''"
definition ProjectLabel :: string where "ProjectLabel = ''dev.vibe.project''"
definition CandidateLabel :: string where "CandidateLabel = ''dev.vibe.candidate''"
definition ArtifactLabel :: string where "ArtifactLabel = ''dev.vibe.artifact''"
definition RoleLabel :: string where "RoleLabel = ''dev.vibe.role''"
definition TxnLabel :: string where "TxnLabel = ''dev.vibe.txn''"
definition DNSLabel :: string where "DNSLabel = ''dev.vibe.dns''"

lemmas label_defs = ManagedLabel_def ProjectLabel_def CandidateLabel_def ArtifactLabel_def
  RoleLabel_def TxnLabel_def DNSLabel_def

definition objectLabels :: "string \<Rightarrow> labels" where
  "objectLabels project = [ManagedLabel \<mapsto> ''true'', ProjectLabel \<mapsto> project]"

definition containerLabels :: "labels \<Rightarrow> digest \<Rightarrow> digest \<Rightarrow> labels" where
  "containerLabels planLabels candidate artifact =
     (let l = planLabels(CandidateLabel \<mapsto> Digest_String candidate)
      in if Digest_IsZero artifact then l else l(ArtifactLabel \<mapsto> Digest_String artifact))"

section \<open>The journal (journal.go)\<close>

definition journalVersion :: int where
  "journalVersion = 1"

record journal_entry =
  je_kind :: string
  je_name :: string
  je_old_id :: string
  je_was_running :: bool
  je_new_id :: string
  je_id :: string

record journal =
  j_version :: int
  j_candidate :: string
  j_nonce :: string
  j_entries :: "journal_entry list"

definition owns :: "journal \<Rightarrow> labels \<Rightarrow> string \<Rightarrow> bool" where
  "owns j ls project =
     (label ls TxnLabel = j_nonce j \<and> label ls ManagedLabel = ''true'' \<and>
      label ls ProjectLabel = project \<and> label ls CandidateLabel = j_candidate j)"

text \<open>\<^verbatim>\<open>mintNonce\<close>: sixteen random bytes in hex.\<close>

definition hex_char :: "nat \<Rightarrow> char" where
  "hex_char d = char_of (if d < 10 then 48 + d else 87 + d)"

definition mintNonce :: "error + 8 word list \<Rightarrow> error + string" where
  "mintNonce rand =
     (case rand of
        Inl e \<Rightarrow> Inl (Wrapped ''mint transaction nonce: %w'' [] e)
      | Inr bs \<Rightarrow> Inr (concat (map (\<lambda>b. [hex_char (unat b div 16), hex_char (unat b mod 16)]) bs)))"

text \<open>\<^verbatim>\<open>nonceRe\<close>: \<^verbatim>\<open>^[0-9a-f]{32}$\<close>.\<close>

definition nonceRe :: "string \<Rightarrow> bool" where
  "nonceRe s = (length s = 32 \<and> list_all (\<lambda>c. is_lower_hex (byte c)) s)"

datatype journal_file = Unreadable error | Document journal

definition journalCorrupt :: "string \<Rightarrow> string \<Rightarrow> string list \<Rightarrow> error" where
  "journalCorrupt path msg args =
     Class ErrConflict
       (''%w: replacement journal %s is unreadable ('' @ msg @
        ''); inspect `docker ps -a` for .prev/.next containers, resolve by hand, then remove the file'')
       (path # args)"

definition check_entry :: "string \<Rightarrow> journal_entry \<Rightarrow> error option" where
  "check_entry path e =
     (if je_name e = '''' then Some (journalCorrupt path ''entry without a name'' [])
      else if je_kind e = ''replace''
      then (if je_old_id e = ''''
            then Some (journalCorrupt path ''replace entry %s without old_id'' [je_name e]) else None)
      else if je_kind e = ''create'' then None
      else if je_kind e = ''start''
      then (if je_id e = '''' then Some (journalCorrupt path ''start entry %s without id'' [je_name e])
            else None)
      else Some (journalCorrupt path ''unknown entry kind %q'' [je_kind e]))"

fun check_entries :: "string \<Rightarrow> journal_entry list \<Rightarrow> error option" where
  "check_entries path [] = None"
| "check_entries path (e # es) =
     (case check_entry path e of Some err \<Rightarrow> Some err | None \<Rightarrow> check_entries path es)"

text \<open>
  \<^verbatim>\<open>loadJournal\<close> on what the path holds: nothing, bytes the strict decoder rejects, or a
  decoded document.
\<close>

definition loadJournal :: "string \<Rightarrow> journal_file option \<Rightarrow> error + journal option" where
  "loadJournal path f =
     (case f of
        None \<Rightarrow> Inr None
      | Some (Unreadable e) \<Rightarrow> Inl (journalCorrupt path ''%v'' [])
      | Some (Document j) \<Rightarrow>
          (if j_version j \<noteq> journalVersion
           then Inl (journalCorrupt path ''unsupported version %d'' [itoa_int (j_version j)])
           else if \<not> nonceRe (j_nonce j) then Inl (journalCorrupt path ''malformed nonce'' [])
           else (case ParseDigest (j_candidate j) of
                   Inl _ \<Rightarrow> Inl (journalCorrupt path ''malformed candidate digest'' [])
                 | Inr _ \<Rightarrow>
                     (case check_entries path (j_entries j) of
                        Some err \<Rightarrow> Inl err | None \<Rightarrow> Inr (Some j)))))"

section \<open>Well-formed journals\<close>

definition entry_ok :: "journal_entry \<Rightarrow> bool" where
  "entry_ok e =
     (je_name e \<noteq> '''' \<and>
      (je_kind e = ''replace'' \<and> je_old_id e \<noteq> '''' \<or> je_kind e = ''create'' \<or>
       je_kind e = ''start'' \<and> je_id e \<noteq> ''''))"

definition journal_ok :: "journal \<Rightarrow> bool" where
  "journal_ok j =
     (j_version j = journalVersion \<and> nonceRe (j_nonce j) \<and>
      (\<exists>d. ParseDigest (j_candidate j) = Inr d) \<and> list_all entry_ok (j_entries j))"

lemma check_entry_None: "check_entry path e = None \<longleftrightarrow> entry_ok e"
  by (auto simp: check_entry_def entry_ok_def)

lemma check_entries_None: "check_entries path es = None \<longleftrightarrow> list_all entry_ok es"
proof (induction es)
  case Nil
  show ?case by simp
next
  case (Cons e es)
  then show ?case using check_entry_None [of path e] by (cases "check_entry path e") auto
qed

lemma loadJournal_Document:
  "loadJournal path (Some (Document j)) = Inr r \<longleftrightarrow> journal_ok j \<and> r = Some j"
  by (auto simp: loadJournal_def journal_ok_def check_entries_None [of path, symmetric]
      split: sum.splits option.splits if_splits)

lemma loadJournal_absent [simp]: "loadJournal path None = Inr None"
  by (simp add: loadJournal_def)

lemma hex_char_lower: "d < 16 \<Longrightarrow> is_lower_hex (byte (hex_char d))"
  by (auto simp: hex_char_def is_lower_hex_def)

lemma mintNonce_ok:
  assumes "mintNonce rand = Inr n" "case rand of Inl _ \<Rightarrow> True | Inr bs \<Rightarrow> length bs = 16"
  shows "nonceRe n"
proof -
  from assms(1) obtain bs where r: "rand = Inr bs" by (cases rand) (auto simp: mintNonce_def)
  then have bs: "length bs = 16"
      "n = concat (map (\<lambda>b. [hex_char (unat b div 16), hex_char (unat b mod 16)]) bs)"
    using assms by (simp_all add: mintNonce_def)
  have "unat b div 16 < 16" for b :: "8 word"
    using unsigned_less [of b, where ?'a = nat] by (simp add: div_less_iff_less_mult)
  then have "list_all (\<lambda>c. is_lower_hex (byte c)) n"
    using bs(2) by (auto simp: list_all_iff intro: hex_char_lower)
  moreover have "length (concat (map (\<lambda>b. [hex_char (unat b div 16), hex_char (unat b mod 16)]) bs)) =
      2 * length bs" by (induction bs) auto
  ultimately show ?thesis using bs by (simp add: nonceRe_def)
qed

end
