(* ===== verification/Effect.thy ===== *)
theory Effect
  imports Prelude
begin

text \<open>
  Operations with effects: a call takes the state of its machine and returns with a value, with an
  error, or not at all because the process died in it. The machines of the development (the one the
  runtime transactions run on and the file system of the host store) share these definitions, the
  fault schedules that say which call of a run goes wrong, and the rules by which their
  operations are proved.
\<close>

section \<open>Calls and their sequencing\<close>

text \<open>
  One fault per external call: \<open>Done\<close> lets it be, \<open>Fails e\<close> and \<open>FailsAfter e\<close> make it report
  \<open>e\<close> without or with its effect, \<open>Dies\<close> ends the process before the call. An exhausted
  schedule means no further faults.
\<close>

datatype outcome = Done | Fails error | FailsAfter error | Dies

datatype 'a res = Ret 'a | Err error | Crashed

type_synonym ('s, 'a) eff = "'s \<Rightarrow> 'a res \<times> 's"

definition io_ret :: "'a \<Rightarrow> ('s, 'a) eff" where
  "io_ret x s = (Ret x, s)"

definition io_fail :: "error \<Rightarrow> ('s, 'a) eff" where
  "io_fail e s = (Err e, s)"

definition io_bind :: "('s, 'a) eff \<Rightarrow> ('a \<Rightarrow> ('s, 'b) eff) \<Rightarrow> ('s, 'b) eff" where
  "io_bind m f s =
     (case m s of
        (Ret x, s') \<Rightarrow> f x s' | (Err e, s') \<Rightarrow> (Err e, s') | (Crashed, s') \<Rightarrow> (Crashed, s'))"

abbreviation io_then :: "('s, 'a) eff \<Rightarrow> ('s, 'b) eff \<Rightarrow> ('s, 'b) eff" where
  "io_then m k \<equiv> io_bind m (\<lambda>_. k)"

text \<open>Go code that looks at an error instead of returning it; a dead process looks at nothing.\<close>

definition io_try :: "('s, 'a) eff \<Rightarrow> ('s, error + 'a) eff" where
  "io_try m s =
     (case m s of
        (Ret x, s') \<Rightarrow> (Ret (Inr x), s')
      | (Err e, s') \<Rightarrow> (Ret (Inl e), s')
      | (Crashed, s') \<Rightarrow> (Crashed, s'))"

definition io_wrap :: "string \<Rightarrow> string list \<Rightarrow> ('s, 'a) eff \<Rightarrow> ('s, 'a) eff" where
  "io_wrap msg args m s =
     (case m s of (Err e, s') \<Rightarrow> (Err (Wrapped msg args e), s') | r \<Rightarrow> r)"

definition io_when :: "bool \<Rightarrow> ('s, unit) eff \<Rightarrow> ('s, unit) eff" where
  "io_when b m = (if b then m else io_ret ())"

text \<open>\<^verbatim>\<open>if err != nil && !errors.Is(err, ErrNotFound) { return err }\<close>.\<close>

definition io_ignore_not_found :: "('s, unit) eff \<Rightarrow> ('s, unit) eff" where
  "io_ignore_not_found m s =
     (case m s of
        (Err e, s') \<Rightarrow> if errors_is e ErrNotFound then (Ret (), s') else (Err e, s')
      | r \<Rightarrow> r)"

fun io_each :: "('a \<Rightarrow> ('s, unit) eff) \<Rightarrow> 'a list \<Rightarrow> ('s, unit) eff" where
  "io_each f [] = io_ret ()"
| "io_each f (x # xs) = io_bind (f x) (\<lambda>_. io_each f xs)"

definition of_sum :: "error + 'a \<Rightarrow> 'a res" where
  "of_sum r = (case r of Inl e \<Rightarrow> Err e | Inr x \<Rightarrow> Ret x)"

text \<open>\<^verbatim>\<open>defer\<close>: the cleanup runs however the body returns, its own outcome is dropped; a dead process runs none.\<close>

definition io_defer :: "('s, unit) eff \<Rightarrow> ('s, 'a) eff \<Rightarrow> ('s, 'a) eff" where
  "io_defer c m s =
     (case m s of
        (Crashed, s') \<Rightarrow> (Crashed, s')
      | (r, s') \<Rightarrow> (case c s' of (Crashed, s'') \<Rightarrow> (Crashed, s'') | (_, s'') \<Rightarrow> (r, s'')))"

text \<open>A loop that threads a value.\<close>

fun io_fold :: "('a \<Rightarrow> 'b \<Rightarrow> ('s, 'b) eff) \<Rightarrow> 'a list \<Rightarrow> 'b \<Rightarrow> ('s, 'b) eff" where
  "io_fold f [] b = io_ret b"
| "io_fold f (x # xs) b = io_bind (f x b) (io_fold f xs)"

text \<open>A pure step that can fail.\<close>

definition io_of :: "error + 'a \<Rightarrow> ('s, 'a) eff" where
  "io_of r s = (of_sum r, s)"

text \<open>
  A call under a fault schedule. The schedule is a component of the machine's state, read by \<open>get\<close>
  and replaced by \<open>put\<close>.
\<close>

definition scheduled ::
  "('s \<Rightarrow> outcome list) \<Rightarrow> (outcome list \<Rightarrow> 's \<Rightarrow> 's) \<Rightarrow> ('s \<Rightarrow> (error + 'a) \<times> 's) \<Rightarrow> ('s, 'a) eff" where
  "scheduled get put f s =
     (case get s of
        [] \<Rightarrow> map_prod of_sum id (f s)
      | Done # fs \<Rightarrow> map_prod of_sum id (f (put fs s))
      | Fails e # fs \<Rightarrow> (Err e, put fs s)
      | FailsAfter e # fs \<Rightarrow>
          (case f (put fs s) of (Inl e', s') \<Rightarrow> (Err e', s') | (Inr _, s') \<Rightarrow> (Err e, s'))
      | Dies # fs \<Rightarrow> (Crashed, put fs s))"

section \<open>Triples\<close>

text \<open>
  \<open>triple P m Q E C\<close>: started with \<open>P\<close>, the call ends with \<open>Q\<close> when it returns, with \<open>E\<close> when it
  fails and with \<open>C\<close> when the process dies in it.
\<close>

definition triple ::
  "('s \<Rightarrow> bool) \<Rightarrow> ('s, 'a) eff \<Rightarrow> ('a \<Rightarrow> 's \<Rightarrow> bool) \<Rightarrow> (error \<Rightarrow> 's \<Rightarrow> bool) \<Rightarrow> ('s \<Rightarrow> bool) \<Rightarrow> bool" where
  "triple P m Q E C \<longleftrightarrow>
     (\<forall>s. P s \<longrightarrow> (case m s of (Ret x, s') \<Rightarrow> Q x s' | (Err e, s') \<Rightarrow> E e s' | (Crashed, s') \<Rightarrow> C s'))"

named_theorems triple_rules \<open>rules of the sequencing operators for triples\<close>

lemma tripleI:
  "(\<And>s. P s \<Longrightarrow> (case m s of (Ret x, s') \<Rightarrow> Q x s' | (Err e, s') \<Rightarrow> E e s' | (Crashed, s') \<Rightarrow> C s')) \<Longrightarrow>
   triple P m Q E C"
  by (simp add: triple_def)

lemma tripleD:
  "triple P m Q E C \<Longrightarrow> P s \<Longrightarrow>
   (case m s of (Ret x, s') \<Rightarrow> Q x s' | (Err e, s') \<Rightarrow> E e s' | (Crashed, s') \<Rightarrow> C s')"
  by (simp add: triple_def)

lemma triple_Ret: "triple P m Q E C \<Longrightarrow> P s \<Longrightarrow> m s = (Ret x, s') \<Longrightarrow> Q x s'"
  by (drule (1) tripleD) simp

lemma triple_Err: "triple P m Q E C \<Longrightarrow> P s \<Longrightarrow> m s = (Err e, s') \<Longrightarrow> E e s'"
  by (drule (1) tripleD) simp

lemma triple_Crashed: "triple P m Q E C \<Longrightarrow> P s \<Longrightarrow> m s = (Crashed, s') \<Longrightarrow> C s'"
  by (drule (1) tripleD) simp

lemma triple_pre: "triple P' m Q E C \<Longrightarrow> (\<And>s. P s \<Longrightarrow> P' s) \<Longrightarrow> triple P m Q E C"
  by (simp add: triple_def)

lemma triple_post:
  assumes "triple P m Q' E' C'" "\<And>x s. Q' x s \<Longrightarrow> Q x s" "\<And>e s. E' e s \<Longrightarrow> E e s" "\<And>s. C' s \<Longrightarrow> C s"
  shows "triple P m Q E C"
  using assms unfolding triple_def by (fastforce split: prod.splits res.splits)

lemma triple_pure: "(A \<Longrightarrow> triple P m Q E C) \<Longrightarrow> triple (\<lambda>s. A \<and> P s) m Q E C"
  by (simp add: triple_def)

lemma triple_ex: "(\<And>y. triple (P y) m Q E C) \<Longrightarrow> triple (\<lambda>s. \<exists>y. P y s) m Q E C"
  by (rule tripleI) (elim exE, drule meta_spec, erule (1) tripleD)

lemma triple_ret [triple_rules]: "(\<And>s. P s \<Longrightarrow> Q x s) \<Longrightarrow> triple P (io_ret x) Q E C"
  by (simp add: triple_def io_ret_def)

lemma triple_fail [triple_rules]: "(\<And>s. P s \<Longrightarrow> E e s) \<Longrightarrow> triple P (io_fail e) Q E C"
  by (simp add: triple_def io_fail_def)

lemma triple_bind [triple_rules]:
  assumes "triple P m R E C" "\<And>x. triple (R x) (f x) Q E C"
  shows "triple P (io_bind m f) Q E C"
  using assms unfolding triple_def io_bind_def by (fastforce split: prod.splits res.splits)

lemma triple_try [triple_rules]:
  assumes "triple P m (\<lambda>x. Q (Inr x)) (\<lambda>e. Q (Inl e)) C"
  shows "triple P (io_try m) Q E C"
  using assms unfolding triple_def io_try_def by (fastforce split: prod.splits res.splits)

lemma triple_wrap [triple_rules]:
  assumes "triple P m Q (\<lambda>e. E (Wrapped f as e)) C"
  shows "triple P (io_wrap f as m) Q E C"
  using assms unfolding triple_def io_wrap_def by (fastforce split: prod.splits res.splits)

lemma triple_when [triple_rules]:
  assumes "b \<Longrightarrow> triple P m Q E C" "\<And>s. \<not> b \<Longrightarrow> P s \<Longrightarrow> Q () s"
  shows "triple P (io_when b m) Q E C"
  using assms by (auto simp: io_when_def intro: triple_ret)

lemma triple_each:
  assumes "\<And>x. x \<in> set xs \<Longrightarrow> triple P (f x) (\<lambda>_. P) E C"
  shows "triple P (io_each f xs) (\<lambda>_. P) E C"
  using assms by (induction xs) (auto intro!: triple_ret triple_bind)

lemma triple_defer [triple_rules]:
  assumes "triple P m Q' E' C" "\<And>x. triple (Q' x) c (\<lambda>_. Q x) (\<lambda>_. Q x) C" "\<And>e. triple (E' e) c (\<lambda>_. E e) (\<lambda>_. E e) C"
  shows "triple P (io_defer c m) Q E C"
proof (rule tripleI)
  fix s assume P: "P s"
  obtain r t where m: "m s = (r, t)" by (cases "m s")
  obtain r' t' where c: "c t = (r', t')" by (cases "c t")
  show "case io_defer c m s of (Ret x, s') \<Rightarrow> Q x s' | (Err e, s') \<Rightarrow> E e s' | (Crashed, s') \<Rightarrow> C s'"
  proof (cases r)
    case (Ret x)
    then have "Q' x t" using tripleD [OF assms(1) P] m by simp
    then show ?thesis using tripleD [OF assms(2), of x t] m c Ret by (cases r') (simp_all add: io_defer_def)
  next
    case (Err e)
    then have "E' e t" using tripleD [OF assms(1) P] m by simp
    then show ?thesis using tripleD [OF assms(3), of e t] m c Err by (cases r') (simp_all add: io_defer_def)
  next
    case Crashed
    then show ?thesis using tripleD [OF assms(1) P] m by (simp add: io_defer_def)
  qed
qed

lemma triple_of [triple_rules]:
  "(\<And>x s. r = Inr x \<Longrightarrow> P s \<Longrightarrow> Q x s) \<Longrightarrow> (\<And>e s. r = Inl e \<Longrightarrow> P s \<Longrightarrow> E e s) \<Longrightarrow> triple P (io_of r) Q E C"
  by (cases r) (simp_all add: triple_def io_of_def of_sum_def)

lemma triple_fold:
  assumes "\<And>x b. x \<in> set xs \<Longrightarrow> triple (P b) (f x b) P E C"
  shows "triple (P b) (io_fold f xs b) P E C"
  using assms
proof (induction xs arbitrary: b)
  case Nil
  then show ?case by (auto intro: triple_ret)
next
  case (Cons x xs)
  have "triple (P c) (io_fold f xs c) P E C" for c by (rule Cons.IH) (use Cons.prems in auto)
  then show ?case by (auto intro!: triple_bind Cons.prems)
qed

lemma triple_sum:
  "(\<And>e. r = Inl e \<Longrightarrow> triple P (f e) Q E C) \<Longrightarrow> (\<And>x. r = Inr x \<Longrightarrow> triple P (g x) Q E C) \<Longrightarrow>
   triple P (case r of Inl e \<Rightarrow> f e | Inr x \<Rightarrow> g x) Q E C"
  by (cases r) auto

lemma triple_option:
  "(r = None \<Longrightarrow> triple P f Q E C) \<Longrightarrow> (\<And>x. r = Some x \<Longrightarrow> triple P (g x) Q E C) \<Longrightarrow>
   triple P (case r of None \<Rightarrow> f | Some x \<Rightarrow> g x) Q E C"
  by (cases r) auto

lemma triple_if:
  "(b \<Longrightarrow> triple P f Q E C) \<Longrightarrow> (\<not> b \<Longrightarrow> triple P g Q E C) \<Longrightarrow> triple P (if b then f else g) Q E C"
  by simp

text \<open>An assertion that a call keeps however it ends.\<close>

abbreviation keeps :: "('s \<Rightarrow> bool) \<Rightarrow> ('s, 'a) eff \<Rightarrow> bool" where
  "keeps I m \<equiv> triple I m (\<lambda>_. I) (\<lambda>_. I) I"

lemma keeps_bind [triple_rules]: "keeps I m \<Longrightarrow> (\<And>x. keeps I (f x)) \<Longrightarrow> keeps I (io_bind m f)"
  by (rule triple_bind)

lemma triple_conj:
  "triple P m Q E C \<Longrightarrow> triple P' m Q' E' C' \<Longrightarrow>
   triple (\<lambda>s. P s \<and> P' s) m (\<lambda>x s. Q x s \<and> Q' x s) (\<lambda>e s. E e s \<and> E' e s) (\<lambda>s. C s \<and> C' s)"
  by (auto simp: triple_def split: prod.splits res.splits)

lemma triple_scheduled:
  assumes ret: "\<And>s s' x. P s \<Longrightarrow> f s = (Inr x, s') \<Longrightarrow> Q x s' \<and> (\<forall>e. E e s')"
    and fail: "\<And>s s' e. P s \<Longrightarrow> f s = (Inl e, s') \<Longrightarrow> E e s'"
    and put: "\<And>s fs. P s \<Longrightarrow> P (put fs s)"
    and noop: "\<And>s e. P s \<Longrightarrow> E e s" "\<And>s. P s \<Longrightarrow> C s"
  shows "triple P (scheduled get put f) Q E C"
proof (rule tripleI)
  fix s assume P: "P s"
  show "case scheduled get put f s of (Ret x, s') \<Rightarrow> Q x s' | (Err e, s') \<Rightarrow> E e s' | (Crashed, s') \<Rightarrow> C s'"
  proof (cases "get s")
    case Nil
    then show ?thesis using ret [OF P] fail [OF P]
      by (cases "f s"; cases "fst (f s)") (auto simp: scheduled_def of_sum_def)
  next
    case (Cons flt fs)
    note q = put [OF P, of fs]
    show ?thesis using Cons ret [OF q] fail [OF q] noop [OF q]
      by (cases flt; cases "f (put fs s)"; cases "fst (f (put fs s))") (auto simp: scheduled_def of_sum_def)
  qed
qed

end
