(* ===== verification/Docker.thy ===== *)
theory Docker
  imports Journal Effect
begin

text \<open>
  The Docker surface of the engine: the value types of \<^verbatim>\<open>internal/dockerapi/types.go\<close> and the
  world model of \<^verbatim>\<open>internal/dockerapi/fake/client.go\<close>, the cooperative daemon the repository
  tests the runtime against. Every call may additionally be hit by one fault of a schedule:
  it fails before or after it took effect (the scripted errors of the fake client, a cancelled
  context, a broken connection), or the process dies at that point.
\<close>

section \<open>Types (types.go)\<close>

record ctr =
  cid :: string
  cname :: string
  cimage :: string
  crunning :: bool
  cexit :: int
  clabels :: labels

record docker_policy =
  dp_drop_all :: bool
  dp_no_new_privileges :: bool
  dp_readonly_rootfs :: bool
  dp_net_bind_service :: bool

record create_request =
  cr_name :: string
  cr_image :: string
  cr_user :: string
  cr_command :: "string list"
  cr_env :: "string list"
  cr_labels :: labels
  cr_mounts :: "mount list"
  cr_ports :: "port_binding list"
  cr_workdir :: string
  cr_network :: string
  cr_dns :: "string list"
  cr_log :: log_policy
  cr_policy :: docker_policy

record exec_request =
  ex_container :: string
  ex_user :: string
  ex_workdir :: string
  ex_env :: "string list"
  ex_argv :: "string list"

section \<open>The world (fake/client.go)\<close>

text \<open>
  The container map of the client, keyed by name, is the list \<open>conts\<close> of its values;
  \<open>addrs\<close> is the \<^verbatim>\<open>Networks\<close> field of a container, which only inspection reports, keyed by
  the immutable identifier. The scripted behaviour is part of the world; the scripted errors
  of single calls are faults of the schedule, below.
\<close>

record world =
  conts :: "ctr list"
  next_id :: nat
  next_ip :: nat
  create_networks :: "string \<rightharpoonup> string"
  minted_ips :: "string \<rightharpoonup> string"
  addrs :: "string \<rightharpoonup> (string \<times> string)"
  volumes :: "string \<rightharpoonup> labels"
  networks :: "string \<rightharpoonup> labels"
  create_err_once :: "error option"
  start_exits :: "string \<Rightarrow> bool"
  pull_errs :: "string \<Rightarrow> error option"
  exec_results :: "string list \<Rightarrow> int"
  logs_outputs :: "string \<Rightarrow> string"

definition ctr_id :: "nat \<Rightarrow> string" where
  "ctr_id n = ''ctr-'' @ replicate (3 - length (itoa n)) (CHR ''0'') @ itoa n"

definition find_name :: "ctr list \<Rightarrow> string \<Rightarrow> ctr option" where
  "find_name cs n = List.find (\<lambda>c. cname c = n) cs"

definition find_id :: "ctr list \<Rightarrow> string \<Rightarrow> ctr option" where
  "find_id cs i = List.find (\<lambda>c. cid c = i) cs"

definition upd_ctr :: "string \<Rightarrow> (ctr \<Rightarrow> ctr) \<Rightarrow> world \<Rightarrow> world" where
  "upd_ctr i f w = w\<lparr>conts := map (\<lambda>c. if cid c = i then f c else c) (conts w)\<rparr>"

definition not_found_id :: "string \<Rightarrow> error" where
  "not_found_id i = Class ErrNotFound ''%w: container id %s'' [i]"

definition w_inspect :: "string \<Rightarrow> world \<Rightarrow> error + (ctr \<times> (string \<times> string) option)" where
  "w_inspect n w =
     (case find_name (conts w) n of
        Some c \<Rightarrow> Inr (c, addrs w (cid c))
      | None \<Rightarrow> Inl (Class ErrNotFound ''%w: container %s'' [n]))"

definition w_create :: "create_request \<Rightarrow> world \<Rightarrow> (error + string) \<times> world" where
  "w_create req w =
     (case create_err_once w of
        Some e \<Rightarrow> (Inl e, w\<lparr>create_err_once := None\<rparr>)
      | None \<Rightarrow>
          if find_name (conts w) (cr_name req) \<noteq> None
          then (Inl (Class ErrConflict ''%w: container %s already exists'' [cr_name req]), w)
          else (let n = next_id w + 1; i = ctr_id n in
                (Inr i, w\<lparr>next_id := n,
                   conts := conts w @ [\<lparr>cid = i, cname = cr_name req, cimage = cr_image req,
                                        crunning = False, cexit = 0, clabels = cr_labels req\<rparr>],
                   create_networks := (if cr_network req = '''' then create_networks w
                                       else (create_networks w)(i \<mapsto> cr_network req))\<rparr>)))"

definition ip_text :: "nat \<Rightarrow> string" where
  "ip_text n = ''10.90.0.'' @ itoa n"

text \<open>The address a start assigns: sticky per container, minted on first use.\<close>

definition assign_ip :: "string \<Rightarrow> world \<Rightarrow> world" where
  "assign_ip i w =
     (case create_networks w i of
        None \<Rightarrow> w
      | Some net \<Rightarrow>
          (case minted_ips w i of
             Some ip \<Rightarrow> w\<lparr>addrs := (addrs w)(i \<mapsto> (net, ip))\<rparr>
           | None \<Rightarrow>
               (let n = next_ip w + 1; ip = ip_text n
                in w\<lparr>next_ip := n, minted_ips := (minted_ips w)(i \<mapsto> ip),
                     addrs := (addrs w)(i \<mapsto> (net, ip))\<rparr>)))"

definition w_start :: "string \<Rightarrow> world \<Rightarrow> (error + unit) \<times> world" where
  "w_start i w =
     (case find_id (conts w) i of
        None \<Rightarrow> (Inl (not_found_id i), w)
      | Some c \<Rightarrow>
          (let run = (\<not> start_exits w i); w' = upd_ctr i (crunning_update (\<lambda>_. run)) w
           in (Inr (), if run then assign_ip i w' else w')))"

definition w_stop :: "string \<Rightarrow> world \<Rightarrow> (error + unit) \<times> world" where
  "w_stop i w =
     (case find_id (conts w) i of
        None \<Rightarrow> (Inl (not_found_id i), w)
      | Some c \<Rightarrow>
          (Inr (), (upd_ctr i (crunning_update (\<lambda>_. False)) w)\<lparr>addrs := (addrs w)(i := None)\<rparr>))"

definition w_remove :: "string \<Rightarrow> world \<Rightarrow> (error + unit) \<times> world" where
  "w_remove i w =
     (case find_id (conts w) i of
        None \<Rightarrow> (Inl (not_found_id i), w)
      | Some c \<Rightarrow> (Inr (), w\<lparr>conts := filter (\<lambda>c. cid c \<noteq> i) (conts w)\<rparr>))"

definition w_rename :: "string \<Rightarrow> string \<Rightarrow> world \<Rightarrow> (error + unit) \<times> world" where
  "w_rename i n w =
     (case find_id (conts w) i of
        None \<Rightarrow> (Inl (not_found_id i), w)
      | Some c \<Rightarrow>
          if cname c = n then (Inr (), w)
          else if find_name (conts w) n \<noteq> None
          then (Inl (Class ErrConflict ''%w: container %s already exists'' [n]), w)
          else (Inr (), upd_ctr i (cname_update (\<lambda>_. n)) w))"

definition w_list_project :: "string \<Rightarrow> world \<Rightarrow> ctr list" where
  "w_list_project project w = filter (\<lambda>c. label (clabels c) ProjectLabel = project) (conts w)"

definition w_list_managed :: "world \<Rightarrow> ctr list" where
  "w_list_managed w = filter (\<lambda>c. label (clabels c) ManagedLabel = ''true'') (conts w)"

definition w_logs :: "string \<Rightarrow> world \<Rightarrow> error + string" where
  "w_logs n w =
     (if find_name (conts w) n = None then Inl (Class ErrNotFound ''%w: container %s'' [n])
      else Inr (logs_outputs w n))"

section \<open>The machine the runtime runs on\<close>

text \<open>
  The machine: the daemon, the directory of journal files (by project, and the other
  file names in it), the leased objects and snapshot files
  of the store, the transaction value a running \<^verbatim>\<open>Up\<close> allocates (\<^verbatim>\<open>txn.j\<close> and
  \<^verbatim>\<open>txn.written\<close>), and the fault schedule.
\<close>

record sys =
  wd :: world
  replace_dir :: string
  jfiles :: "string \<rightharpoonup> journal_file"
  jtemps :: "string list"
  objects :: "string \<times> digest \<rightharpoonup> string"
  files :: "string \<rightharpoonup> string"
  tx_j :: journal
  tx_written :: bool
  faults :: "outcome list"

type_synonym 'a io = "(sys, 'a) eff"

definition perform :: "(sys \<Rightarrow> (error + 'a) \<times> sys) \<Rightarrow> 'a io" where
  "perform = scheduled faults (\<lambda>fs s. s\<lparr>faults := fs\<rparr>)"

definition docker_call :: "(world \<Rightarrow> (error + 'a) \<times> world) \<Rightarrow> 'a io" where
  "docker_call f = perform (\<lambda>s. case f (wd s) of (r, w) \<Rightarrow> (r, s\<lparr>wd := w\<rparr>))"

definition docker_query :: "(world \<Rightarrow> error + 'a) \<Rightarrow> 'a io" where
  "docker_query f = perform (\<lambda>s. (f (wd s), s))"

definition InspectContainer :: "string \<Rightarrow> (ctr \<times> (string \<times> string) option) io" where
  "InspectContainer n = docker_query (w_inspect n)"

definition CreateContainer :: "create_request \<Rightarrow> string io" where
  "CreateContainer req = docker_call (w_create req)"

definition StartContainer :: "string \<Rightarrow> unit io" where
  "StartContainer i = docker_call (w_start i)"

definition StopContainer :: "string \<Rightarrow> unit io" where
  "StopContainer i = docker_call (w_stop i)"

definition RemoveContainer :: "string \<Rightarrow> unit io" where
  "RemoveContainer i = docker_call (w_remove i)"

definition RenameContainer :: "string \<Rightarrow> string \<Rightarrow> unit io" where
  "RenameContainer i n = docker_call (w_rename i n)"

definition ListProjectContainers :: "string \<Rightarrow> ctr list io" where
  "ListProjectContainers project = docker_query (\<lambda>w. Inr (w_list_project project w))"

definition ListManagedContainers :: "ctr list io" where
  "ListManagedContainers = docker_query (\<lambda>w. Inr (w_list_managed w))"

definition PullImage :: "string \<Rightarrow> unit io" where
  "PullImage ref = docker_query (\<lambda>w. case pull_errs w ref of Some e \<Rightarrow> Inl e | None \<Rightarrow> Inr ())"

definition Exec :: "exec_request \<Rightarrow> int io" where
  "Exec req = docker_query (\<lambda>w. Inr (exec_results w (ex_argv req)))"

definition Logs :: "string \<Rightarrow> string io" where
  "Logs n = docker_query (w_logs n)"

definition EnsureVolume :: "string \<Rightarrow> labels \<Rightarrow> unit io" where
  "EnsureVolume n ls = docker_call (\<lambda>w. (Inr (), w\<lparr>volumes := (volumes w)(n \<mapsto> ls)\<rparr>))"

definition RemoveVolume :: "string \<Rightarrow> unit io" where
  "RemoveVolume n = docker_call (\<lambda>w. (Inr (), w\<lparr>volumes := (volumes w)(n := None)\<rparr>))"

definition EnsureNetwork :: "string \<Rightarrow> labels \<Rightarrow> unit io" where
  "EnsureNetwork n ls = docker_call (\<lambda>w. (Inr (), w\<lparr>networks := (networks w)(n \<mapsto> ls)\<rparr>))"

definition RemoveNetwork :: "string \<Rightarrow> unit io" where
  "RemoveNetwork n = docker_call (\<lambda>w. (Inr (), w\<lparr>networks := (networks w)(n := None)\<rparr>))"

end
