(* ===== verification/Transaction.thy ===== *)
theory Transaction
  imports Docker
begin

text \<open>
  \<^verbatim>\<open>internal/runtime/transaction.go\<close> and the file operations of \<^verbatim>\<open>journal.go\<close>: the
  replacement transaction of one \<^verbatim>\<open>Up\<close>. A journal on disk is the phase marker: present means
  uncommitted, and \<^verbatim>\<open>sweep\<close> rolls back; absent means leftovers are debris, and \<^verbatim>\<open>sweep\<close>
  clears them. Every definition follows its Go function call by call.
\<close>

definition retiredSuffix :: string where "retiredSuffix = ''.prev''"
definition stagedSuffix :: string where "stagedSuffix = ''.next''"

section \<open>Journal files\<close>

definition journalPath :: "string \<Rightarrow> string \<Rightarrow> string" where
  "journalPath dir project = dir @ ''/'' @ project @ ''.json''"

text \<open>A file system call that only reads or prepares, and one that changes the machine.\<close>

definition fs_query :: "(sys \<Rightarrow> 'a) \<Rightarrow> 'a io" where
  "fs_query f = perform (\<lambda>s. (Inr (f s), s))"

definition fs_update :: "(sys \<Rightarrow> sys) \<Rightarrow> unit io" where
  "fs_update f = perform (\<lambda>s. (Inr (), f s))"

definition writeJournal :: "string \<Rightarrow> journal \<Rightarrow> unit io" where
  "writeJournal project j =
     io_bind (fs_query (\<lambda>_. ())) (\<lambda>_.
     fs_update (jfiles_update (\<lambda>d. d(project \<mapsto> Document j))))"

definition readJournal :: "string \<Rightarrow> journal option io" where
  "readJournal project =
     perform (\<lambda>s. (loadJournal (journalPath (replace_dir s) project) (jfiles s project), s))"

definition deleteJournal :: "string \<Rightarrow> unit io" where
  "deleteJournal project =
     io_bind (fs_update (jfiles_update (\<lambda>d. d(project := None)))) (\<lambda>_.
     fs_query (\<lambda>_. ()))"

definition sweepTempFiles :: "string \<Rightarrow> unit io" where
  "sweepTempFiles project =
     (let prefix = ''.'' @ project @ ''.json.tmp-'' in
      io_bind (io_try (fs_query jtemps)) (\<lambda>r.
      case r of
        Inl _ \<Rightarrow> io_ret ()
      | Inr entries \<Rightarrow>
          io_each
            (\<lambda>e. io_when (length e > length prefix \<and> take (length prefix) e = prefix)
               (io_bind (io_try (fs_update (jtemps_update (filter (\<lambda>f. f \<noteq> e))))) (\<lambda>_. io_ret ())))
            entries))"

section \<open>The transaction value\<close>

definition new_journal :: "digest \<Rightarrow> string \<Rightarrow> journal" where
  "new_journal candidate nonce =
     \<lparr>j_version = journalVersion, j_candidate = Digest_String candidate, j_nonce = nonce, j_entries = []\<rparr>"

definition newTxn :: "error + 8 word list \<Rightarrow> digest \<Rightarrow> unit io" where
  "newTxn rand candidate =
     (case mintNonce rand of
        Inl e \<Rightarrow> io_fail e
      | Inr nonce \<Rightarrow> (\<lambda>s. (Ret (), s\<lparr>tx_j := new_journal candidate nonce, tx_written := False\<rparr>)))"

definition write_err :: "unit io \<Rightarrow> unit io" where
  "write_err m = io_wrap ''write replacement journal: %w'' [] m"

definition add_entry :: "journal_entry \<Rightarrow> journal \<Rightarrow> journal" where
  "add_entry e j = j\<lparr>j_entries := j_entries j @ [e]\<rparr>"

definition txn_append :: "string \<Rightarrow> journal_entry \<Rightarrow> nat io" where
  "txn_append project e s =
     (let j = tx_j s; j' = add_entry e j in
      case write_err (writeJournal project j') (s\<lparr>tx_j := j'\<rparr>) of
        (Ret _, s') \<Rightarrow> (Ret (length (j_entries j)), s'\<lparr>tx_written := True\<rparr>)
      | (Err err, s') \<Rightarrow> (Err err, s'\<lparr>tx_j := j'\<lparr>j_entries := butlast (j_entries j')\<rparr>\<rparr>)
      | (Crashed, s') \<Rightarrow> (Crashed, s'))"

definition set_entry :: "nat \<Rightarrow> (journal_entry \<Rightarrow> journal_entry) \<Rightarrow> journal \<Rightarrow> journal" where
  "set_entry i f j = j\<lparr>j_entries := (j_entries j)[i := f (j_entries j ! i)]\<rparr>"

definition txn_backfill :: "string \<Rightarrow> nat \<Rightarrow> (journal_entry \<Rightarrow> journal_entry) \<Rightarrow> unit io" where
  "txn_backfill project i f s =
     (let j' = set_entry i f (tx_j s)
      in write_err (writeJournal project j') (s\<lparr>tx_j := j'\<rparr>))"

definition txn_commit :: "string \<Rightarrow> unit io" where
  "txn_commit project s =
     (if \<not> tx_written s then (Ret (), s)
      else io_bind (io_wrap ''commit replacement journal: %w'' [] (deleteJournal project))
             (\<lambda>_ s'. (Ret (), s'\<lparr>tx_written := False\<rparr>)) s)"

section \<open>Undo\<close>

definition owned_at :: "ctr list \<Rightarrow> journal \<Rightarrow> string \<Rightarrow> journal_entry \<Rightarrow> string \<Rightarrow> ctr option" where
  "owned_at cs j project e n =
     (case find_name cs n of
        Some c \<Rightarrow> if cid c \<noteq> je_old_id e \<and> owns j (clabels c) project then Some c else None
      | None \<Rightarrow> None)"

definition findNew :: "ctr list \<Rightarrow> journal \<Rightarrow> string \<Rightarrow> journal_entry \<Rightarrow> ctr option" where
  "findNew cs j project e =
     (if je_new_id e \<noteq> '''' then find_id cs (je_new_id e)
      else (case owned_at cs j project e (je_name e) of
              Some c \<Rightarrow> Some c
            | None \<Rightarrow> owned_at cs j project e (je_name e @ stagedSuffix)))"

text \<open>The steps of \<^verbatim>\<open>undoReplace\<close>: stop, park, check the occupant, restore, restart, delete.\<close>

definition stop_new :: "ctr option \<Rightarrow> unit io" where
  "stop_new newC =
     (case newC of Some n \<Rightarrow> io_when (crunning n) (StopContainer (cid n)) | None \<Rightarrow> io_ret ())"

definition park_new :: "ctr list \<Rightarrow> journal_entry \<Rightarrow> ctr option \<Rightarrow> unit io" where
  "park_new cs e newC =
     (let staged = je_name e @ stagedSuffix in
      case newC of
        Some n \<Rightarrow>
          io_when (cname n = je_name e)
            (case find_name cs staged of
               Some f \<Rightarrow>
                 if cid f \<noteq> cid n
                 then io_fail (Class ErrConflict ''%w: unexpected container %s at %s; not touching it''
                                 [cid f, staged])
                 else RenameContainer (cid n) staged
             | None \<Rightarrow> RenameContainer (cid n) staged)
      | None \<Rightarrow> io_ret ())"

definition check_occupant :: "ctr list \<Rightarrow> journal_entry \<Rightarrow> ctr option \<Rightarrow> unit io" where
  "check_occupant cs e newC =
     (case find_name cs (je_name e) of
        Some occ \<Rightarrow>
          if cid occ \<noteq> je_old_id e \<and> (case newC of None \<Rightarrow> True | Some n \<Rightarrow> cid occ \<noteq> cid n)
          then io_fail (Class ErrConflict ''%w: container %s (id %s) occupies %s; not touching it''
                          [cname occ, cid occ, je_name e])
          else io_ret ()
      | None \<Rightarrow> io_ret ())"

definition restart_old :: "journal_entry \<Rightarrow> ctr \<Rightarrow> unit io" where
  "restart_old e old =
     io_when (je_was_running e \<and> \<not> crunning old)
       (io_bind (StartContainer (cid old)) (\<lambda>_.
        io_bind (InspectContainer (je_name e)) (\<lambda>(st, _).
        if \<not> crunning st
        then io_fail (Plain ''restored container %s did not stay running'' [je_name e])
        else io_ret ())))"

definition delete_new :: "ctr option \<Rightarrow> unit io" where
  "delete_new newC =
     (case newC of
        Some n \<Rightarrow> io_bind (io_try (RemoveContainer (cid n))) (\<lambda>_. io_ret ())
      | None \<Rightarrow> io_ret ())"

definition old_gone :: "journal_entry \<Rightarrow> ctr option \<Rightarrow> error" where
  "old_gone e newC =
     (case newC of
        Some n \<Rightarrow> Class ErrConflict
          ''%w: old container %s (id %s) is gone; keeping unproven replacement %s untouched''
          [je_name e, je_old_id e, cid n]
      | None \<Rightarrow> Class ErrConflict
          ''%w: neither old container %s (id %s) nor its replacement exists; inspect `docker ps -a`, resolve by hand, then remove the journal''
          [je_name e, je_old_id e])"

definition undoReplace :: "string \<Rightarrow> journal \<Rightarrow> journal_entry \<Rightarrow> unit io" where
  "undoReplace project j e =
     io_bind (ListProjectContainers project) (\<lambda>cs.
     let newC = findNew cs j project e in
     case find_id cs (je_old_id e) of
       None \<Rightarrow> io_fail (old_gone e newC)
     | Some old \<Rightarrow>
         io_bind (stop_new newC) (\<lambda>_.
         io_bind (park_new cs e newC) (\<lambda>_.
         io_bind (check_occupant cs e newC) (\<lambda>_.
         io_bind (io_when (cname old \<noteq> je_name e) (RenameContainer (cid old) (je_name e))) (\<lambda>_.
         io_bind (restart_old e old) (\<lambda>_.
         delete_new newC))))))"

definition stop_and_remove :: "ctr \<Rightarrow> unit io" where
  "stop_and_remove c =
     io_bind (io_when (crunning c) (StopContainer (cid c))) (\<lambda>_.
     io_ignore_not_found (RemoveContainer (cid c)))"

definition undoCreate :: "string \<Rightarrow> journal \<Rightarrow> journal_entry \<Rightarrow> unit io" where
  "undoCreate project j e =
     io_bind (ListProjectContainers project) (\<lambda>cs.
     case (if je_new_id e \<noteq> '''' then find_id cs (je_new_id e)
           else (case find_name cs (je_name e) of
                   Some c \<Rightarrow> if owns j (clabels c) project then Some c else None
                 | None \<Rightarrow> None)) of
       None \<Rightarrow> io_ret ()
     | Some target \<Rightarrow> stop_and_remove target)"

definition undoStart :: "string \<Rightarrow> journal_entry \<Rightarrow> unit io" where
  "undoStart project e =
     io_bind (ListProjectContainers project) (\<lambda>cs.
     case find_id cs (je_id e) of
       None \<Rightarrow> io_ret ()
     | Some c \<Rightarrow> if \<not> crunning c then io_ret () else StopContainer (cid c))"

definition undo_entry :: "string \<Rightarrow> journal \<Rightarrow> journal_entry \<Rightarrow> unit io" where
  "undo_entry project j e =
     (if je_kind e = ''replace'' then undoReplace project j e
      else if je_kind e = ''create'' then undoCreate project j e
      else if je_kind e = ''start'' then undoStart project e
      else io_ret ())"

fun undo_loop :: "string \<Rightarrow> journal \<Rightarrow> journal_entry list \<Rightarrow> error list \<Rightarrow> error list io" where
  "undo_loop project j [] errs = io_ret errs"
| "undo_loop project j (e # es) errs =
     io_bind (io_try (undo_entry project j e)) (\<lambda>r.
     case r of
       Inl err \<Rightarrow>
         undo_loop project j es (errs @ [Wrapped ''undo %s %s: %w'' [je_kind e, je_name e] err])
     | Inr _ \<Rightarrow> undo_loop project j es errs)"

definition undo :: "string \<Rightarrow> journal \<Rightarrow> unit io" where
  "undo project j =
     io_bind (undo_loop project j (rev (j_entries j)) []) (\<lambda>errs.
     if errs = [] then io_ret () else io_fail (Joined errs))"

text \<open>\<^verbatim>\<open>rollback\<close> always returns an error: the cause, joined with what went wrong undoing it.\<close>

definition rollback :: "string \<Rightarrow> error \<Rightarrow> 'a io" where
  "rollback project cause s =
     (if \<not> tx_written s then (Err cause, s)
      else io_bind (io_try (undo project (tx_j s))) (\<lambda>r.
           case r of
             Inl err \<Rightarrow> io_fail (Joined [cause, err])
           | Inr _ \<Rightarrow>
               io_bind (io_try (deleteJournal project)) (\<lambda>r'.
               case r' of Inl err \<Rightarrow> io_fail (Joined [cause, err]) | Inr _ \<Rightarrow> io_fail cause)) s)"

section \<open>Sweep\<close>

definition is_debris :: "ctr \<Rightarrow> bool" where
  "is_debris c =
     (label (clabels c) ManagedLabel = ''true'' \<and>
      (has_suffix (cname c) retiredSuffix \<or> has_suffix (cname c) stagedSuffix))"

definition clearDebris :: "string \<Rightarrow> unit io" where
  "clearDebris project =
     io_bind (ListProjectContainers project) (\<lambda>cs.
     io_each (\<lambda>c. io_when (is_debris c) (stop_and_remove c)) cs)"

definition sweep :: "string \<Rightarrow> unit io" where
  "sweep project =
     io_bind (readJournal project) (\<lambda>jo.
     io_bind (case jo of
         Some j \<Rightarrow>
           io_bind (io_wrap ''recover interrupted replacement: %w'' [] (undo project j)) (\<lambda>_.
           deleteJournal project)
       | None \<Rightarrow> io_ret ()) (\<lambda>_.
     io_bind (clearDebris project) (\<lambda>_.
     sweepTempFiles project)))"

end
