(* ===== verification/Reconcile.thy ===== *)
theory Reconcile
  imports Transaction EnvFile Sanitize
begin

text \<open>
  \<^verbatim>\<open>internal/runtime/reconcile.go\<close>, \<^verbatim>\<open>state.go\<close> and the teardown of \<^verbatim>\<open>runtime.go\<close>: bringing a
  project's containers to the state of a candidate's plan, one journaled transaction per
  \<^verbatim>\<open>Up\<close>. The leases of the store hold immutable objects for the duration of the call; the
  model opens them where the code does and needs no release.
\<close>

section \<open>State (state.go)\<close>

record ctr_status =
  st_name :: string
  st_role :: string
  st_running :: bool
  st_candidate :: digest
  st_in_sync :: bool

record run_state =
  rs_project :: string
  rs_approved :: digest
  rs_containers :: "ctr_status list"

definition Running :: "run_state \<Rightarrow> bool" where
  "Running s =
     (if length (rs_containers s) = 0 then False
      else list_all (\<lambda>c. st_running c \<and> st_in_sync c) (rs_containers s))"

definition ctr_status_of :: "digest \<Rightarrow> ctr \<Rightarrow> ctr_status" where
  "ctr_status_of approved c =
     (let cand = (case ParseDigest (label (clabels c) CandidateLabel) of Inr d \<Rightarrow> d | Inl _ \<Rightarrow> zero_digest)
      in \<lparr>st_name = cname c, st_role = label (clabels c) RoleLabel, st_running = crunning c,
          st_candidate = cand, st_in_sync = (\<not> Digest_IsZero approved \<and> cand = approved)\<rparr>)"

definition summarize :: "string \<Rightarrow> digest \<Rightarrow> ctr list \<Rightarrow> run_state" where
  "summarize project approved cs =
     \<lparr>rs_project = project, rs_approved = approved,
      rs_containers = sort_key st_name (map (ctr_status_of approved) cs)\<rparr>"

section \<open>Requests\<close>

text \<open>\<^verbatim>\<open>strings.LastIndex\<close> of one character, \<open>-1\<close> when absent.\<close>

definition last_index :: "string \<Rightarrow> char \<Rightarrow> int" where
  "last_index s c =
     (if c \<in> set s then int (length s) - 1 - int (length (takeWhile (\<lambda>d. d \<noteq> c) (rev s))) else -1)"

definition pinnedRef :: "string \<Rightarrow> digest \<Rightarrow> string" where
  "pinnedRef ref d =
     (let repo = fst (cut ref ''@''); i = last_index repo (CHR '':'')
      in (if i > last_index repo (CHR ''/'') then take (nat i) repo else repo) @ ''@'' @ Digest_String d)"

record up_options =
  uo_force :: bool

record candidate_ref =
  cr_digest :: digest
  cr_snapshot :: digest

definition plan_labels :: "container \<Rightarrow> labels" where
  "plan_labels c = foldl (\<lambda>m (k, v). m(k \<mapsto> v)) Map.empty (c_labels c)"

definition createRequest ::
  "plan \<Rightarrow> digest \<Rightarrow> container \<Rightarrow> string \<Rightarrow> string \<Rightarrow> create_request" where
  "createRequest plan recDigest c nonce dnsIP =
     (let link = (c_dns_from_service c \<noteq> '''' \<and> dnsIP \<noteq> '''');
          l = (plan_labels c)(TxnLabel \<mapsto> nonce)
      in \<lparr>cr_name = c_name c,
          cr_image = (if \<not> Digest_IsZero (im_digest (c_image c))
                      then pinnedRef (im_ref (c_image c)) (im_digest (c_image c))
                      else im_ref (c_image c)),
          cr_user = c_user c,
          cr_command = c_command c,
          cr_env = map (\<lambda>e. ev_key e @ ''='' @ ev_value e) (c_environment c),
          cr_labels = containerLabels (if link then l(DNSLabel \<mapsto> dnsIP) else l)
                        recDigest (p_artifact_digest plan),
          cr_mounts = c_mounts c,
          cr_ports = c_ports c,
          cr_workdir = '''',
          cr_network = (if po_network (c_policy c) = NetworkProject \<and> p_networks plan \<noteq> []
                        then hd (p_networks plan) else ''''),
          cr_dns = (if link then [dnsIP] else []),
          cr_log = (case c_log c of Some l \<Rightarrow> l | None \<Rightarrow> \<lparr>lo_max_size = '''', lo_max_files = 0\<rparr>),
          cr_policy = \<lparr>dp_drop_all = po_drop_all_capabilities (c_policy c),
                       dp_no_new_privileges = po_no_new_privileges (c_policy c),
                       dp_readonly_rootfs = po_readonly_root_fs (c_policy c),
                       dp_net_bind_service = po_net_bind_service (c_policy c)\<rparr>\<rparr>)"

section \<open>One container\<close>

datatype containerAction = actionNone | actionStarted | actionCreated

definition zero_entry :: journal_entry where
  "zero_entry = \<lparr>je_kind = '''', je_name = '''', je_old_id = '''', je_was_running = False,
                 je_new_id = '''', je_id = ''''\<rparr>"

definition createOnly :: "create_request \<Rightarrow> string io" where
  "createOnly req =
     io_bind (io_try (CreateContainer req)) (\<lambda>r.
     case r of
       Inr i \<Rightarrow> io_ret i
     | Inl e \<Rightarrow>
         if errors_is e ErrNotFound
         then io_bind (PullImage (cr_image req)) (\<lambda>_. CreateContainer req)
         else io_fail e)"

definition createFresh :: "string \<Rightarrow> create_request \<Rightarrow> containerAction io" where
  "createFresh project req =
     io_bind (txn_append project (zero_entry\<lparr>je_kind := ''create'', je_name := cr_name req\<rparr>)) (\<lambda>idx.
     io_bind (createOnly req) (\<lambda>i.
     io_bind (txn_backfill project idx (je_new_id_update (\<lambda>_. i))) (\<lambda>_.
     io_bind (StartContainer i) (\<lambda>_. io_ret actionCreated))))"

definition replaceContainer :: "string \<Rightarrow> create_request \<Rightarrow> ctr \<Rightarrow> containerAction io" where
  "replaceContainer project req existing =
     io_bind (txn_append project (zero_entry\<lparr>je_kind := ''replace'', je_name := cr_name req,
                je_old_id := cid existing, je_was_running := crunning existing\<rparr>)) (\<lambda>idx.
     io_bind (createOnly (req\<lparr>cr_name := cr_name req @ stagedSuffix\<rparr>)) (\<lambda>newID.
     io_bind (txn_backfill project idx (je_new_id_update (\<lambda>_. newID))) (\<lambda>_.
     io_bind (io_when (crunning existing) (StopContainer (cid existing))) (\<lambda>_.
     io_bind (RenameContainer (cid existing) (cr_name req @ retiredSuffix)) (\<lambda>_.
     io_bind (RenameContainer newID (cr_name req)) (\<lambda>_.
     io_bind (StartContainer newID) (\<lambda>_. io_ret actionCreated)))))))"

definition same_desired :: "ctr \<Rightarrow> create_request \<Rightarrow> bool" where
  "same_desired existing req =
     (label (clabels existing) CandidateLabel = label (cr_labels req) CandidateLabel \<and>
      label (clabels existing) DNSLabel = label (cr_labels req) DNSLabel)"

definition reconcileContainer :: "string \<Rightarrow> create_request \<Rightarrow> up_options \<Rightarrow> containerAction io" where
  "reconcileContainer project req opts =
     io_bind (io_try (InspectContainer (cr_name req))) (\<lambda>r.
     case r of
       Inl e \<Rightarrow> if errors_is e ErrNotFound then createFresh project req else io_fail e
     | Inr (existing, _) \<Rightarrow>
         if label (clabels existing) ManagedLabel \<noteq> ''true''
         then io_fail (Class ErrConflict ''%w: container %s exists but is not managed by vibe'' [cr_name req])
         else if same_desired existing req \<and> \<not> uo_force opts
         then (if crunning existing then io_ret actionNone
               else io_bind (txn_append project (zero_entry\<lparr>je_kind := ''start'', je_name := cr_name req,
                               je_id := cid existing\<rparr>)) (\<lambda>_.
                    io_bind (StartContainer (cid existing)) (\<lambda>_. io_ret actionStarted)))
         else replaceContainer project req existing)"

section \<open>Around the containers\<close>

definition checkLiveness :: "container list \<Rightarrow> unit io" where
  "checkLiveness desired =
     io_each (\<lambda>c.
       io_bind (io_wrap ''container %s: %w'' [c_name c] (InspectContainer (c_name c))) (\<lambda>(st, _).
       if \<not> crunning st
       then io_fail (Plain ''container %s exited after start; failing the reconcile before commit'' [c_name c])
       else io_ret ())) desired"

definition mountsPayload :: "container \<Rightarrow> bool" where
  "mountsPayload c = list_ex (\<lambda>m. mo_target m = PayloadTarget) (c_mounts c)"

definition run_hook :: "plan \<Rightarrow> string \<Rightarrow> unit io" where
  "run_hook plan mode =
     io_bind (io_wrap ''%s hook: %w'' [mode] (Exec
        \<lparr>ex_container = c_name (p_dev plan), ex_user = c_user (p_dev plan), ex_workdir = WorkspaceTarget,
         ex_env = [''VIBE_PROJECT='' @ p_project_id plan, ''VIBE_PROJECT_NAME='' @ p_display_name plan],
         ex_argv = [''bash'', PayloadLifecycle, mode]\<rparr>)) (\<lambda>code.
     if code \<noteq> 0 then io_fail (Plain ''%s hook failed with exit code %d'' [mode, itoa_int code])
     else io_ret ())"

definition runLifecycle :: "plan \<Rightarrow> containerAction \<Rightarrow> unit io" where
  "runLifecycle plan action =
     (if \<not> mountsPayload (p_dev plan) then io_ret ()
      else io_bind (io_wrap ''lifecycle probe: %w'' [] (Exec
             \<lparr>ex_container = c_name (p_dev plan), ex_user = c_user (p_dev plan), ex_workdir = '''',
              ex_env = [], ex_argv = [''test'', ''-r'', PayloadLifecycle]\<rparr>)) (\<lambda>code.
           if code \<noteq> 0 then io_ret ()
           else io_bind (run_hook plan ''post-create'') (\<lambda>_.
                if action = actionCreated \<or> action = actionStarted
                then run_hook plan ''post-start'' else io_ret ())))"

text \<open>
  \<^verbatim>\<open>loadEnvFile\<close>: opening and reading the snapshotted file are the two calls; the file's
  content is the machine's.
\<close>

definition SnapshotEnvFilePath :: string where
  "SnapshotEnvFilePath = ''env-file''"

definition loadEnvFile :: "plan \<Rightarrow> string \<Rightarrow> env_entry list io" where
  "loadEnvFile plan snapPath =
     (if p_env_file plan = '''' then io_ret []
      else if snapPath = ''''
      then io_fail (Class ErrInvalid ''%w: plan declares env file but candidate has no snapshot'' [])
      else io_bind (io_wrap ''open snapshotted env file: %w'' []
             (perform (\<lambda>s. (case files s (snapPath @ ''/'' @ SnapshotEnvFilePath) of
                  None \<Rightarrow> Inl (Plain ''no such file'' []) | Some d \<Rightarrow> Inr d, s)))) (\<lambda>data.
           io_bind (io_try (fs_query (\<lambda>_. ()))) (\<lambda>rd.
           case Parse (case rd of Inl e \<Rightarrow> Inl e | Inr _ \<Rightarrow> Inr data)
                  \<lparr>MaxEntries = 0, MaxKeyBytes = 0, MaxValueBytes = 0, MaxTotalBytes = 0\<rparr> of
             Inl e \<Rightarrow> io_fail (Wrapped ''env file %s: %w'' [p_env_file plan] e)
           | Inr es \<Rightarrow> io_ret es)))"

text \<open>\<^verbatim>\<open>dnsCrashDetail\<close>: the state and the encoded last output of an addressless sidecar.\<close>

definition dnsCrashDetail :: "ctr \<Rightarrow> string list io" where
  "dnsCrashDetail st =
     (let detail = [if crunning st then ''true'' else ''false'', itoa_int (cexit st)] in
      io_bind (io_try (Logs (cname st))) (\<lambda>r.
      case r of
        Inl _ \<Rightarrow> io_ret detail
      | Inr out \<Rightarrow>
          (let tail = take 4096 out
           in io_ret (if tail = [] then detail
                      else detail @ Lines (Encode tail \<lparr>MaxWidth = 200, MaxLines = 5\<rparr>)))))"

definition resolveDNS :: "plan \<Rightarrow> string io" where
  "resolveDNS plan =
     (if c_dns_from_service (p_dev plan) = '''' then io_ret ''''
      else (let name = SidecarContainerName (p_project_id plan) (c_dns_from_service (p_dev plan)) in
        io_bind (io_wrap ''resolve dns sidecar %s: %w'' [name] (InspectContainer name)) (\<lambda>(st, addr).
        case p_networks plan of
          [] \<Rightarrow> io_fail (Class ErrInvalid ''%w: plan links dns to %s but declares no network'' [name])
        | net # _ \<Rightarrow>
            (case addr of
               Some (n, ip) \<Rightarrow>
                 if n = net \<and> ip \<noteq> '''' then io_ret ip
                 else io_bind (dnsCrashDetail st) (\<lambda>detail. io_fail (Class ErrUnavailable
                        ''%w: dns sidecar %s has no address on network %s (%s)'' ([name, net] @ detail)))
             | None \<Rightarrow>
                 io_bind (dnsCrashDetail st) (\<lambda>detail. io_fail (Class ErrUnavailable
                        ''%w: dns sidecar %s has no address on network %s (%s)'' ([name, net] @ detail)))))))"

definition open_object :: "string \<Rightarrow> digest \<Rightarrow> string io" where
  "open_object kind d =
     perform (\<lambda>s.
       (if Digest_IsZero d then Inl (Class ErrInvalid ''%w: zero digest'' [])
        else (case objects s (kind, d) of
                None \<Rightarrow> Inl (Class ErrNotFound ''%w: %s %s'' [kind, Digest_String d])
              | Some path \<Rightarrow> Inr path), s))"

section \<open>Up\<close>

text \<open>
  The part of \<^verbatim>\<open>Up\<close> between opening the transaction and committing it; every error of it goes
  to \<^verbatim>\<open>rollback\<close>.
\<close>

definition with_rollback :: "string \<Rightarrow> 'a io \<Rightarrow> 'a io" where
  "with_rollback project m =
     io_bind (io_try m) (\<lambda>r. case r of Inl e \<Rightarrow> rollback project e | Inr x \<Rightarrow> io_ret x)"

definition reconcile_named :: "string \<Rightarrow> up_options \<Rightarrow> create_request \<Rightarrow> containerAction io" where
  "reconcile_named project opts req =
     io_wrap ''container %s: %w'' [cr_name req] (reconcileContainer project req opts)"

definition up_body :: "plan \<Rightarrow> digest \<Rightarrow> string \<Rightarrow> up_options \<Rightarrow> unit io" where
  "up_body plan recDigest nonce opts =
     (let project = p_project_id plan in
      io_bind (io_each (\<lambda>c. io_bind (reconcile_named project opts (createRequest plan recDigest c nonce ''''))
                          (\<lambda>_. io_ret ())) (p_services plan)) (\<lambda>_.
      io_bind (resolveDNS plan) (\<lambda>dnsIP.
      io_bind (reconcile_named project opts (createRequest plan recDigest (p_dev plan) nonce dnsIP)) (\<lambda>action.
      io_bind (runLifecycle plan action) (\<lambda>_.
      checkLiveness (p_services plan @ [p_dev plan]))))))"

definition up_prepare :: "plan \<Rightarrow> candidate_ref \<Rightarrow> unit io" where
  "up_prepare plan cand =
     (let project = p_project_id plan in
      io_bind (fs_query (\<lambda>_. ())) (\<lambda>_.
      io_bind (sweep project) (\<lambda>_.
      io_bind (open_object ''candidate'' (cr_digest cand)) (\<lambda>_.
      io_bind (if Digest_IsZero (p_artifact_digest plan) then io_ret ''''
               else open_object ''artifact'' (p_artifact_digest plan)) (\<lambda>_.
      io_bind (if Digest_IsZero (cr_snapshot cand) then io_ret ''''
               else open_object ''snapshot'' (cr_snapshot cand)) (\<lambda>snapPath.
      io_bind (loadEnvFile plan snapPath) (\<lambda>_.
      io_bind (io_each (\<lambda>n. EnsureNetwork n (objectLabels project)) (p_networks plan)) (\<lambda>_.
      io_each (\<lambda>v. EnsureVolume v (objectLabels project)) (p_volumes plan))))))))) "

definition Up :: "error + 8 word list \<Rightarrow> plan \<Rightarrow> candidate_ref \<Rightarrow> up_options \<Rightarrow> run_state io" where
  "Up rand plan cand opts =
     (let project = p_project_id plan in
      io_bind (up_prepare plan cand) (\<lambda>_.
      io_bind (newTxn rand (cr_digest cand)) (\<lambda>_.
      io_bind (with_rollback project
                 (\<lambda>s. up_body plan (cr_digest cand) (j_nonce (tx_j s)) opts s)) (\<lambda>_.
      io_bind (txn_commit project) (\<lambda>_.
      io_bind (io_try (clearDebris project)) (\<lambda>_.
      io_bind (ListProjectContainers project) (\<lambda>cs.
      io_ret (summarize project (cr_digest cand) cs))))))))"

section \<open>Down and Status (runtime.go)\<close>

definition Status :: "string \<Rightarrow> digest option \<Rightarrow> run_state io" where
  "Status project approved =
     io_bind (ListProjectContainers project) (\<lambda>cs.
     io_ret (summarize project (case approved of Some d \<Rightarrow> d | None \<Rightarrow> zero_digest) cs))"

text \<open>
  \<^verbatim>\<open>Down\<close>. The plan volumes of the approved candidate come from \<^verbatim>\<open>LoadCandidate\<close>, whose result
  is the argument \<open>load\<close>.
\<close>

definition Down :: "string \<Rightarrow> bool \<Rightarrow> string list io option \<Rightarrow> unit io" where
  "Down project removeVolumes load =
     io_bind (fs_query (\<lambda>_. ())) (\<lambda>_.
     io_bind (ListProjectContainers project) (\<lambda>cs.
     io_bind (io_each (\<lambda>c. io_when (label (clabels c) ManagedLabel = ''true'') (stop_and_remove c)) cs) (\<lambda>_.
     io_bind (deleteJournal project) (\<lambda>_.
     io_bind (io_ignore_not_found (RemoveNetwork (NetworkName project))) (\<lambda>_.
     if \<not> removeVolumes then io_ret ()
     else io_bind (case load of
              None \<Rightarrow> io_ret []
            | Some m \<Rightarrow> io_wrap ''down --volumes: load approved candidate: %w'' [] m) (\<lambda>vols.
          io_each (\<lambda>v. io_ignore_not_found (RemoveVolume v)) (AgentStateVolumeName project # vols)))))))"

end
