(* ===== verification/IoRules.thy ===== *)
theory IoRules
  imports Reconcile
begin

text \<open>
  Reasoning about the runtime's calls: \<open>hoare q P m Q E C\<close> says that from a state with \<open>P\<close> the
  operation \<open>m\<close> ends with \<open>Q\<close> when it returns, \<open>E\<close> when it returns an error and \<open>C\<close> when the
  process dies inside it (which takes a fault), for every fault schedule whose injected errors are not \<^verbatim>\<open>ErrNotFound\<close>
  (the one class the code reads as an answer). The flag \<open>q\<close> restricts the claim to runs
  without faults. Assertions speak about everything but the schedule.
\<close>

definition fault_ok :: "outcome \<Rightarrow> bool" where
  "fault_ok f =
     (case f of Fails e \<Rightarrow> \<not> errors_is e ErrNotFound | FailsAfter e \<Rightarrow> \<not> errors_is e ErrNotFound
      | Done \<Rightarrow> True | Dies \<Rightarrow> True)"

definition faults_ok :: "bool \<Rightarrow> sys \<Rightarrow> bool" where
  "faults_ok q s = (list_all fault_ok (faults s) \<and> (q \<longrightarrow> faults s = []))"

definition core :: "sys \<Rightarrow> sys" where
  "core s = s\<lparr>faults := []\<rparr>"

lemma core_simps [simp]:
  "wd (core s) = wd s" "jfiles (core s) = jfiles s" "tx_j (core s) = tx_j s"
  "tx_written (core s) = tx_written s" "core (s\<lparr>faults := fs\<rparr>) = core s"
  "objects (core s) = objects s" "files (core s) = files s" "jtemps (core s) = jtemps s"
  "replace_dir (core s) = replace_dir s"
  "core (s\<lparr>wd := w\<rparr>) = (core s)\<lparr>wd := w\<rparr>" "core (s\<lparr>jfiles := d\<rparr>) = (core s)\<lparr>jfiles := d\<rparr>"
  "core (s\<lparr>tx_j := j\<rparr>) = (core s)\<lparr>tx_j := j\<rparr>"
  "core (s\<lparr>tx_written := b\<rparr>) = (core s)\<lparr>tx_written := b\<rparr>"
  "core (s\<lparr>jtemps := ts\<rparr>) = (core s)\<lparr>jtemps := ts\<rparr>"
  by (simp_all add: core_def)

definition io_post ::
  "bool \<Rightarrow> ('a \<Rightarrow> sys \<Rightarrow> bool) \<Rightarrow> (error \<Rightarrow> sys \<Rightarrow> bool) \<Rightarrow> (sys \<Rightarrow> bool) \<Rightarrow> 'a res \<times> sys \<Rightarrow> bool" where
  "io_post q Q E C r =
     (case r of
        (Ret x, s') \<Rightarrow> faults_ok q s' \<and> Q x (core s')
      | (Err e, s') \<Rightarrow> faults_ok q s' \<and> E e (core s')
      | (Crashed, s') \<Rightarrow> \<not> q \<and> C (core s'))"

lemma io_post_simps [simp]:
  "io_post q Q E C (Ret x, s') \<longleftrightarrow> faults_ok q s' \<and> Q x (core s')"
  "io_post q Q E C (Err e, s') \<longleftrightarrow> faults_ok q s' \<and> E e (core s')"
  "io_post q Q E C (Crashed, s') \<longleftrightarrow> \<not> q \<and> C (core s')"
  by (simp_all add: io_post_def)

definition hoare ::
  "bool \<Rightarrow> (sys \<Rightarrow> bool) \<Rightarrow> 'a io \<Rightarrow> ('a \<Rightarrow> sys \<Rightarrow> bool) \<Rightarrow> (error \<Rightarrow> sys \<Rightarrow> bool) \<Rightarrow>
     (sys \<Rightarrow> bool) \<Rightarrow> bool" where
  "hoare q P m Q E C \<longleftrightarrow> (\<forall>s. faults_ok q s \<longrightarrow> P (core s) \<longrightarrow> io_post q Q E C (m s))"

named_theorems hoare_rules \<open>sequencing rules\<close>

lemma hoareI:
  "(\<And>s. faults_ok q s \<Longrightarrow> P (core s) \<Longrightarrow> io_post q Q E C (m s)) \<Longrightarrow> hoare q P m Q E C"
  by (simp add: hoare_def)

lemma hoareD:
  "hoare q P m Q E C \<Longrightarrow> faults_ok q s \<Longrightarrow> P (core s) \<Longrightarrow> io_post q Q E C (m s)"
  by (simp add: hoare_def)

lemma io_post_cases:
  assumes "io_post q Q E C r"
  obtains x s' where "r = (Ret x, s')" "faults_ok q s'" "Q x (core s')"
    | e s' where "r = (Err e, s')" "faults_ok q s'" "E e (core s')"
    | s' where "r = (Crashed, s')" "\<not> q" "C (core s')"
  using assms by (cases r; cases "fst r") auto

lemma hoare_pre: "hoare q P' m Q E C \<Longrightarrow> (\<And>s. P s \<Longrightarrow> P' s) \<Longrightarrow> hoare q P m Q E C"
  by (simp add: hoare_def)

lemma hoare_post:
  assumes "hoare q P m Q' E' C'" "\<And>x s. Q' x s \<Longrightarrow> Q x s" "\<And>e s. E' e s \<Longrightarrow> E e s" "\<And>s. C' s \<Longrightarrow> C s"
  shows "hoare q P m Q E C"
proof (rule hoareI)
  fix s assume "faults_ok q s" "P (core s)"
  from hoareD [OF assms(1) this] show "io_post q Q E C (m s)"
    by (cases rule: io_post_cases) (simp_all add: assms(2-4))
qed

lemma hoare_or:
  assumes "hoare q A m Q E C" "hoare q B m Q E C"
  shows "hoare q (\<lambda>s. A s \<or> B s) m Q E C"
  using assms by (auto simp: hoare_def)

lemma hoare_pure: "(A \<Longrightarrow> hoare q P m Q E C) \<Longrightarrow> hoare q (\<lambda>s. A \<and> P s) m Q E C"
  by (simp add: hoare_def)

lemma hoare_ex: "(\<And>y. hoare q (P y) m Q E C) \<Longrightarrow> hoare q (\<lambda>s. \<exists>y. P y s) m Q E C"
  by (auto simp: hoare_def)

lemma hoare_ret [hoare_rules]: "(\<And>s. P s \<Longrightarrow> Q x s) \<Longrightarrow> hoare q P (io_ret x) Q E C"
  by (simp add: hoare_def io_ret_def)

lemma hoare_fail [hoare_rules]: "(\<And>s. P s \<Longrightarrow> E e s) \<Longrightarrow> hoare q P (io_fail e) Q E C"
  by (simp add: hoare_def io_fail_def)

lemma hoare_bind [hoare_rules]:
  assumes "hoare q P m R E C" "\<And>x. hoare q (R x) (f x) Q E C"
  shows "hoare q P (io_bind m f) Q E C"
proof (rule hoareI)
  fix s assume "faults_ok q s" "P (core s)"
  from hoareD [OF assms(1) this] show "io_post q Q E C (io_bind m f s)"
  proof (cases rule: io_post_cases)
    case (1 x s')
    from hoareD [OF assms(2) this(2,3)] show ?thesis by (simp add: io_bind_def 1)
  qed (simp_all add: io_bind_def)
qed

lemma hoare_try [hoare_rules]:
  assumes "hoare q P m (\<lambda>x. Q (Inr x)) (\<lambda>e. Q (Inl e)) C"
  shows "hoare q P (io_try m) Q E C"
proof (rule hoareI)
  fix s assume "faults_ok q s" "P (core s)"
  from hoareD [OF assms this] show "io_post q Q E C (io_try m s)"
    by (cases rule: io_post_cases) (simp_all add: io_try_def)
qed

lemma hoare_wrap [hoare_rules]:
  assumes "hoare q P m Q (\<lambda>e. E (Wrapped f as e)) C"
  shows "hoare q P (io_wrap f as m) Q E C"
proof (rule hoareI)
  fix s assume "faults_ok q s" "P (core s)"
  from hoareD [OF assms this] show "io_post q Q E C (io_wrap f as m s)"
    by (cases rule: io_post_cases) (simp_all add: io_wrap_def)
qed

lemma hoare_when [hoare_rules]:
  assumes "b \<Longrightarrow> hoare q P m Q E C" "\<And>s. \<not> b \<Longrightarrow> P s \<Longrightarrow> Q () s"
  shows "hoare q P (io_when b m) Q E C"
  using assms by (auto simp: io_when_def intro: hoare_ret)

lemma hoare_each:
  assumes "\<And>x. x \<in> set xs \<Longrightarrow> hoare q P (f x) (\<lambda>_. P) E C"
  shows "hoare q P (io_each f xs) (\<lambda>_. P) E C"
  using assms by (induction xs) (auto intro!: hoare_ret hoare_bind)

lemma hoare_each_acc:
  assumes "\<And>x ys. x \<in> set xs \<Longrightarrow> hoare q (P ys) (f x) (\<lambda>_. P (ys @ [x])) E C"
  shows "hoare q (P ys) (io_each f xs) (\<lambda>_. P (ys @ xs)) E C"
  using assms
proof (induction xs arbitrary: ys)
  case Nil
  then show ?case by (auto intro: hoare_ret)
next
  case (Cons x xs)
  have "hoare q (P (ys @ [x])) (io_each f xs) (\<lambda>_. P ((ys @ [x]) @ xs)) E C"
    by (rule Cons.IH) (use Cons.prems in auto)
  then show ?case by (auto intro!: hoare_bind Cons.prems)
qed

lemma hoare_ignore_not_found [hoare_rules]:
  assumes "hoare q P m Q (\<lambda>e s. if errors_is e ErrNotFound then Q () s else E e s) C"
  shows "hoare q P (io_ignore_not_found m) Q E C"
proof (rule hoareI)
  fix s assume "faults_ok q s" "P (core s)"
  from hoareD [OF assms this] show "io_post q Q E C (io_ignore_not_found m s)"
    by (cases rule: io_post_cases) (simp_all add: io_ignore_not_found_def split: if_splits)
qed

text \<open>A call: it may fail before or after its effect when faults are allowed, or be the last.\<close>

definition ignores_faults :: "(sys \<Rightarrow> (error + 'a) \<times> sys) \<Rightarrow> bool" where
  "ignores_faults f \<longleftrightarrow>
     (\<forall>s fs. f (s\<lparr>faults := fs\<rparr>) = map_prod id (\<lambda>s'. s'\<lparr>faults := fs\<rparr>) (f s))"

definition call_post ::
  "bool \<Rightarrow> (error + 'a) \<times> sys \<Rightarrow> ('a \<Rightarrow> sys \<Rightarrow> bool) \<Rightarrow> (error \<Rightarrow> sys \<Rightarrow> bool) \<Rightarrow> bool" where
  "call_post q r Q E =
     (case r of
        (Inr x, s) \<Rightarrow> Q x s \<and> (\<not> q \<longrightarrow> (\<forall>e. \<not> errors_is e ErrNotFound \<longrightarrow> E e s))
      | (Inl e, s) \<Rightarrow> E e s)"

lemma call_post_simps [simp]:
  "call_post q (Inr x, s) Q E \<longleftrightarrow> Q x s \<and> (\<not> q \<longrightarrow> (\<forall>e. \<not> errors_is e ErrNotFound \<longrightarrow> E e s))"
  "call_post q (Inl e, s) Q E \<longleftrightarrow> E e s"
  by (simp_all add: call_post_def)

lemma hoare_perform:
  assumes ign: "ignores_faults f"
    and post: "\<And>s. P s \<Longrightarrow> call_post q (f s) Q E"
    and err: "\<And>s e. P s \<Longrightarrow> \<not> q \<Longrightarrow> \<not> errors_is e ErrNotFound \<Longrightarrow> E e s"
    and crash: "\<And>s. P s \<Longrightarrow> C s"
  shows "hoare q P (perform f) Q E C"
proof (rule hoareI)
  fix s assume s: "faults_ok q s" "P (core s)"
  obtain r s1 where f1: "f (core s) = (r, s1)" by (cases "f (core s)")
  have fs: "f (s\<lparr>faults := fs\<rparr>) = (r, s1\<lparr>faults := fs\<rparr>)" for fs
  proof -
    from ign have "f ((core s)\<lparr>faults := fs\<rparr>) = map_prod id (\<lambda>s'. s'\<lparr>faults := fs\<rparr>) (f (core s))"
      by (simp only: ignores_faults_def)
    then show ?thesis by (simp add: f1) (simp add: core_def)
  qed
  have c1: "core s1 = s1" using fs [of "[]"] f1 by (simp add: core_def)
  have p: "call_post q (r, s1) Q E" using post [OF s(2)] f1 by simp
  show "io_post q Q E C (perform f s)"
  proof (cases "faults s")
    case Nil
    then have "s\<lparr>faults := []\<rparr> = s" by (cases s) simp
    with fs [of "[]"] have "f s = (r, s1\<lparr>faults := []\<rparr>)" by simp
    with Nil p c1 show ?thesis
      by (cases r) (simp_all add: perform_def scheduled_def of_sum_def faults_ok_def)
  next
    case (Cons flt fs')
    then have ok: "list_all fault_ok fs'" "fault_ok flt" "\<not> q" using s(1) by (auto simp: faults_ok_def)
    show ?thesis
      using p ok s(2) err [OF s(2)] crash
      by (cases flt; cases r) (simp_all add: perform_def scheduled_def Cons fs of_sum_def faults_ok_def c1 fault_ok_def)
  qed
qed

lemma hoare_docker_call:
  assumes "\<And>s. P s \<Longrightarrow> call_post q (map_prod id (\<lambda>w. s\<lparr>wd := w\<rparr>) (f (wd s))) Q E"
    and "\<And>s e. P s \<Longrightarrow> \<not> q \<Longrightarrow> \<not> errors_is e ErrNotFound \<Longrightarrow> E e s"
    and "\<And>s. P s \<Longrightarrow> C s"
  shows "hoare q P (docker_call f) Q E C"
  unfolding docker_call_def
proof (rule hoare_perform)
  show "ignores_faults (\<lambda>s. case f (wd s) of (r, w) \<Rightarrow> (r, s\<lparr>wd := w\<rparr>))"
    by (auto simp: ignores_faults_def split: prod.splits)
qed (use assms in \<open>auto simp: map_prod_def split: prod.splits\<close>)

lemma hoare_docker_query:
  assumes "\<And>s. P s \<Longrightarrow> (case f (wd s) of Inr x \<Rightarrow> Q x s | Inl e \<Rightarrow> E e s)"
    and "\<And>s e. P s \<Longrightarrow> \<not> q \<Longrightarrow> \<not> errors_is e ErrNotFound \<Longrightarrow> E e s"
    and "\<And>s. P s \<Longrightarrow> C s"
  shows "hoare q P (docker_query f) Q E C"
  unfolding docker_query_def
proof (rule hoare_perform)
  show "ignores_faults (\<lambda>s. (f (wd s), s))" by (auto simp: ignores_faults_def)
  show "call_post q (f (wd s), s) Q E" if "P s" for s
    using assms(1) [OF that] assms(2) [OF that] by (auto simp: call_post_def split: sum.splits)
qed (use assms in auto)

lemma hoare_fs_query:
  assumes "\<And>s. P s \<Longrightarrow> Q (f s) s" "\<And>s fs. f (s\<lparr>faults := fs\<rparr>) = f s"
    and "\<And>s e. P s \<Longrightarrow> \<not> q \<Longrightarrow> \<not> errors_is e ErrNotFound \<Longrightarrow> E e s" "\<And>s. P s \<Longrightarrow> C s"
  shows "hoare q P (fs_query f) Q E C"
  unfolding fs_query_def
  by (rule hoare_perform) (use assms in \<open>auto simp: ignores_faults_def\<close>)

lemma hoare_fs_update:
  assumes "\<And>s. P s \<Longrightarrow> Q () (f s)" "\<And>s fs. f (s\<lparr>faults := fs\<rparr>) = (f s)\<lparr>faults := fs\<rparr>"
    and "\<And>s e. P s \<Longrightarrow> \<not> q \<Longrightarrow> \<not> errors_is e ErrNotFound \<Longrightarrow> E e s \<and> E e (f s)" "\<And>s. P s \<Longrightarrow> C s"
  shows "hoare q P (fs_update f) Q E C"
  unfolding fs_update_def
  by (rule hoare_perform) (use assms in \<open>auto simp: ignores_faults_def\<close>)

section \<open>The calls on containers\<close>

text \<open>
  What the runtime's proofs track of the machine: the containers, the identifier counter, and
  the fixed rest (journal files, transaction value, which containers exit on start).
\<close>

type_synonym rest = "(string \<rightharpoonup> journal_file) \<times> journal \<times> bool \<times> (string \<Rightarrow> bool)"

definition rest_of :: "sys \<Rightarrow> rest" where
  "rest_of s = (jfiles s, tx_j s, tx_written s, start_exits (wd s))"

definition at :: "ctr list \<Rightarrow> nat \<Rightarrow> rest \<Rightarrow> sys \<Rightarrow> bool" where
  "at cs k r s = (conts (wd s) = cs \<and> next_id (wd s) = k \<and> rest_of s = r)"

definition upd :: "string \<Rightarrow> (ctr \<Rightarrow> ctr) \<Rightarrow> ctr list \<Rightarrow> ctr list" where
  "upd i f cs = map (\<lambda>c. if cid c = i then f c else c) cs"

abbreviation stop_ctr :: "string \<Rightarrow> ctr list \<Rightarrow> ctr list" where
  "stop_ctr i \<equiv> upd i (crunning_update (\<lambda>_. False))"

abbreviation run_ctr :: "string \<Rightarrow> bool \<Rightarrow> ctr list \<Rightarrow> ctr list" where
  "run_ctr i b \<equiv> upd i (crunning_update (\<lambda>_. b))"

abbreviation rename_ctr :: "string \<Rightarrow> string \<Rightarrow> ctr list \<Rightarrow> ctr list" where
  "rename_ctr i n \<equiv> upd i (cname_update (\<lambda>_. n))"

abbreviation remove_ctr :: "string \<Rightarrow> ctr list \<Rightarrow> ctr list" where
  "remove_ctr i cs \<equiv> filter (\<lambda>c. cid c \<noteq> i) cs"

lemma find_id_None: "find_id cs i = None \<longleftrightarrow> i \<notin> cid ` set cs"
  unfolding find_id_def by (rule find_None_iff_key)

lemma find_name_None: "find_name cs n = None \<longleftrightarrow> n \<notin> cname ` set cs"
  unfolding find_name_def by (rule find_None_iff_key)

lemma find_id_SomeD: "find_id cs i = Some c \<Longrightarrow> c \<in> set cs \<and> cid c = i"
  unfolding find_id_def by (rule find_SomeD)

lemma find_name_SomeD: "find_name cs n = Some c \<Longrightarrow> c \<in> set cs \<and> cname c = n"
  unfolding find_name_def by (rule find_SomeD)

lemma at_world:
  "at cs k r (s\<lparr>wd := w\<rparr>) \<longleftrightarrow>
     conts w = cs \<and> next_id w = k \<and> (jfiles s, tx_j s, tx_written s, start_exits w) = r"
  by (simp add: at_def rest_of_def)

lemma assign_ip_simps [simp]:
  "conts (assign_ip i w) = conts w" "next_id (assign_ip i w) = next_id w"
  "start_exits (assign_ip i w) = start_exits w"
  by (simp_all add: assign_ip_def Let_def split: option.splits)

lemma hoare_stop:
  assumes "i \<in> cid ` set cs" "\<And>s. at cs k r s \<Longrightarrow> C s"
    and "\<And>e s. \<not> q \<Longrightarrow> at cs k r s \<Longrightarrow> E e s"
    and "\<And>e s. \<not> q \<Longrightarrow> at (stop_ctr i cs) k r s \<Longrightarrow> E e s"
    and "\<And>s. at (stop_ctr i cs) k r s \<Longrightarrow> Q () s"
  shows "hoare q (at cs k r) (StopContainer i) Q E C"
  unfolding StopContainer_def
proof (rule hoare_docker_call)
  fix s assume s: "at cs k r s"
  then obtain c where c: "find_id (conts (wd s)) i = Some c"
    using assms(1) by (cases "find_id cs i") (auto simp: find_id_None at_def)
  obtain w where w: "w_stop i (wd s) = (Inr (), w)" "at (stop_ctr i cs) k r (s\<lparr>wd := w\<rparr>)"
    using s c by (auto simp: w_stop_def upd_ctr_def at_def rest_of_def upd_def)
  with assms(4,5) show "call_post q (map_prod id (\<lambda>w. s\<lparr>wd := w\<rparr>) (w_stop i (wd s))) Q E"
    by simp
qed (use assms in auto)

lemma hoare_start:
  assumes "i \<in> cid ` set cs" "b = (\<not> snd (snd (snd r)) i)" "\<And>s. at cs k r s \<Longrightarrow> C s"
    and "\<And>e s. \<not> q \<Longrightarrow> at cs k r s \<Longrightarrow> E e s"
    and "\<And>e s. \<not> q \<Longrightarrow> at (run_ctr i b cs) k r s \<Longrightarrow> E e s"
    and "\<And>s. at (run_ctr i b cs) k r s \<Longrightarrow> Q () s"
  shows "hoare q (at cs k r) (StartContainer i) Q E C"
  unfolding StartContainer_def
proof (rule hoare_docker_call)
  fix s assume s: "at cs k r s"
  then obtain c where c: "find_id (conts (wd s)) i = Some c"
    using assms(1) by (cases "find_id cs i") (auto simp: find_id_None at_def)
  obtain w where w: "w_start i (wd s) = (Inr (), w)" "at (run_ctr i b cs) k r (s\<lparr>wd := w\<rparr>)"
    using s c assms(2) by (auto simp: w_start_def upd_ctr_def at_def rest_of_def upd_def Let_def)
  with assms(5,6) show "call_post q (map_prod id (\<lambda>w. s\<lparr>wd := w\<rparr>) (w_start i (wd s))) Q E"
    by simp
qed (use assms in auto)

lemma hoare_remove:
  assumes "i \<in> cid ` set cs" "\<And>s. at cs k r s \<Longrightarrow> C s"
    and "\<And>e s. \<not> q \<Longrightarrow> \<not> errors_is e ErrNotFound \<Longrightarrow> at cs k r s \<Longrightarrow> E e s"
    and "\<And>e s. \<not> q \<Longrightarrow> \<not> errors_is e ErrNotFound \<Longrightarrow> at (remove_ctr i cs) k r s \<Longrightarrow> E e s"
    and "\<And>s. at (remove_ctr i cs) k r s \<Longrightarrow> Q () s"
  shows "hoare q (at cs k r) (RemoveContainer i) Q E C"
  unfolding RemoveContainer_def
proof (rule hoare_docker_call)
  fix s assume s: "at cs k r s"
  then obtain c where c: "find_id (conts (wd s)) i = Some c"
    using assms(1) by (cases "find_id cs i") (auto simp: find_id_None at_def)
  obtain w where w: "w_remove i (wd s) = (Inr (), w)" "at (remove_ctr i cs) k r (s\<lparr>wd := w\<rparr>)"
    using s c by (auto simp: w_remove_def at_def rest_of_def)
  with assms(4,5) show "call_post q (map_prod id (\<lambda>w. s\<lparr>wd := w\<rparr>) (w_remove i (wd s))) Q E"
    by simp
qed (use assms in auto)

lemma hoare_rename:
  assumes "i \<in> cid ` set cs" "\<forall>c \<in> set cs. cid c = i \<longrightarrow> cname c \<noteq> n"
    and "\<And>s. at cs k r s \<Longrightarrow> C s"
    and "\<And>e s. \<not> q \<or> n \<in> cname ` set cs \<Longrightarrow> at cs k r s \<Longrightarrow> E e s"
    and "\<And>e s. \<not> q \<Longrightarrow> n \<notin> cname ` set cs \<Longrightarrow> at (rename_ctr i n cs) k r s \<Longrightarrow> E e s"
    and "\<And>s. n \<notin> cname ` set cs \<Longrightarrow> at (rename_ctr i n cs) k r s \<Longrightarrow> Q () s"
  shows "hoare q (at cs k r) (RenameContainer i n) Q E C"
  unfolding RenameContainer_def
proof (rule hoare_docker_call)
  fix s assume s: "at cs k r s"
  then obtain c where c: "find_id (conts (wd s)) i = Some c"
    using assms(1) by (cases "find_id cs i") (auto simp: find_id_None at_def)
  then have "cname c \<noteq> n" using assms(2) s by (auto simp: at_def dest: find_id_SomeD)
  show "call_post q (map_prod id (\<lambda>w. s\<lparr>wd := w\<rparr>) (w_rename i n (wd s))) Q E"
  proof (cases "n \<in> cname ` set cs")
    case True
    then have "find_name (conts (wd s)) n \<noteq> None" using s by (simp add: at_def find_name_None)
    with True \<open>cname c \<noteq> n\<close> c s assms(4) show ?thesis by (auto simp: w_rename_def)
  next
    case False
    then have "find_name (conts (wd s)) n = None" using s by (simp add: at_def find_name_None)
    then obtain w where "w_rename i n (wd s) = (Inr (), w)" "at (rename_ctr i n cs) k r (s\<lparr>wd := w\<rparr>)"
      using s c \<open>cname c \<noteq> n\<close> by (auto simp: w_rename_def upd_ctr_def at_def rest_of_def upd_def)
    with False assms(5,6) show ?thesis by simp
  qed
qed (use assms in auto)

lemma hoare_create:
  assumes "\<And>s. at cs k r s \<Longrightarrow> C s" "\<And>e s. at cs k r s \<Longrightarrow> E e s"
    and new: "new = \<lparr>cid = ctr_id (k + 1), cname = cr_name req, cimage = cr_image req,
                crunning = False, cexit = 0, clabels = cr_labels req\<rparr>"
    and "\<And>e s. \<not> errors_is e ErrNotFound \<Longrightarrow> cr_name req \<notin> cname ` set cs \<Longrightarrow>
          at (cs @ [new]) (k + 1) r s \<Longrightarrow> E e s"
    and "\<And>s. cr_name req \<notin> cname ` set cs \<Longrightarrow> at (cs @ [new]) (k + 1) r s \<Longrightarrow> Q (cid new) s"
  shows "hoare q (at cs k r) (CreateContainer req) Q E C"
  unfolding CreateContainer_def
proof (rule hoare_docker_call)
  fix s assume s: "at cs k r s"
  show "call_post q (map_prod id (\<lambda>w. s\<lparr>wd := w\<rparr>) (w_create req (wd s))) Q E"
  proof (cases "create_err_once (wd s)")
    case (Some e)
    then have "at cs k r (s\<lparr>wd := (wd s)\<lparr>create_err_once := None\<rparr>\<rparr>)"
      using s by (simp add: at_def rest_of_def)
    with Some assms(2) show ?thesis by (simp add: w_create_def)
  next
    case None
    show ?thesis
    proof (cases "cr_name req \<in> cname ` set cs")
      case True
      then have "find_name (conts (wd s)) (cr_name req) \<noteq> None"
        using s by (simp add: at_def find_name_None)
      with None s assms(2) show ?thesis by (auto simp: w_create_def)
    next
      case False
      then have "find_name (conts (wd s)) (cr_name req) = None"
        using s by (simp add: at_def find_name_None)
      then obtain w where "w_create req (wd s) = (Inr (cid new), w)"
          "at (cs @ [new]) (k + 1) r (s\<lparr>wd := w\<rparr>)"
        using s None new by (auto simp: w_create_def at_def rest_of_def Let_def)
      with False assms(4,5) show ?thesis by simp
    qed
  qed
qed (use assms in auto)

lemma hoare_list:
  assumes "\<And>s. at cs k r s \<Longrightarrow> C s" "\<And>e s. \<not> q \<Longrightarrow> at cs k r s \<Longrightarrow> E e s"
    and "\<And>s. at cs k r s \<Longrightarrow> Q (filter (\<lambda>c. label (clabels c) ProjectLabel = p) cs) s"
  shows "hoare q (at cs k r) (ListProjectContainers p) Q E C"
  unfolding ListProjectContainers_def
  by (rule hoare_docker_query) (use assms in \<open>auto simp: w_list_project_def at_def\<close>)

lemma hoare_inspect:
  assumes "\<And>s. at cs k r s \<Longrightarrow> C s"
    and "\<And>e s. \<not> q \<or> n \<notin> cname ` set cs \<Longrightarrow> (errors_is e ErrNotFound \<longrightarrow> n \<notin> cname ` set cs) \<Longrightarrow>
          at cs k r s \<Longrightarrow> E e s"
    and "\<And>c a s. c \<in> set cs \<Longrightarrow> cname c = n \<Longrightarrow> at cs k r s \<Longrightarrow> Q (c, a) s"
  shows "hoare q (at cs k r) (InspectContainer n) Q E C"
  unfolding InspectContainer_def
proof (rule hoare_docker_query)
  fix s assume s: "at cs k r s"
  show "case w_inspect n (wd s) of Inr x \<Rightarrow> Q x s | Inl e \<Rightarrow> E e s"
  proof (cases "find_name cs n")
    case None
    then have "n \<notin> cname ` set cs" by (simp add: find_name_None)
    with None s assms(2) show ?thesis by (auto simp: w_inspect_def at_def)
  next
    case (Some c)
    with s assms(3) show ?thesis by (auto simp: w_inspect_def at_def dest: find_name_SomeD)
  qed
qed (use assms in auto)

text \<open>Calls that leave all of this alone.\<close>

lemma hoare_query:
  assumes "\<And>x s. at cs k r s \<Longrightarrow> Q x s" "\<And>e s. at cs k r s \<Longrightarrow> E e s" "\<And>s. at cs k r s \<Longrightarrow> C s"
  shows "hoare q (at cs k r) (docker_query f) Q E C"
  by (rule hoare_docker_query) (use assms in \<open>auto split: sum.splits\<close>)

end
