(* ===== verification/Recovery.thy ===== *)
theory Recovery
  imports IoRules
begin

text \<open>
  Crash recovery of the replacement transaction. \<open>recoverable\<close> relates the containers a
  transaction found (\<open>cs0\<close>), the entries of its journal and the containers there are now: every
  old container is still there, at most renamed aside or stopped as its entry says, and every
  other container is provably the transaction's own. The first part shows which single updates
  keep this relation; the rest that undo, rollback and sweep only make such updates under any
  faults, and that a sweep that runs without faults restores the old containers exactly.
\<close>

section \<open>Well-formed container lists\<close>

definition wf_ctrs :: "ctr list \<Rightarrow> bool" where
  "wf_ctrs cs = (distinct (map cname cs) \<and> distinct (map cid cs) \<and> list_all (\<lambda>c. cid c \<noteq> '''') cs)"

definition fresh_ids :: "ctr list \<Rightarrow> nat \<Rightarrow> bool" where
  "fresh_ids cs k = (\<forall>n > k. ctr_id n \<notin> cid ` set cs)"

lemma set_upd: "set (upd i f cs) = (\<lambda>c. if cid c = i then f c else c) ` set cs"
  by (simp add: upd_def)

lemma map_cid_upd: "(\<And>c. cid (f c) = cid c) \<Longrightarrow> map cid (upd i f cs) = map cid cs"
  by (simp add: upd_def)

lemma ids_upd: "(\<And>c. cid (f c) = cid c) \<Longrightarrow> cid ` set (upd i f cs) = cid ` set cs"
  by (metis map_cid_upd set_map)

lemma map_cname_upd: "(\<And>c. cname (f c) = cname c) \<Longrightarrow> map cname (upd i f cs) = map cname cs"
  by (simp add: upd_def)

lemma wf_ctrsD:
  assumes "wf_ctrs cs" "c \<in> set cs" "d \<in> set cs"
  shows "cid c = cid d \<Longrightarrow> c = d" "cname c = cname d \<Longrightarrow> c = d" "cid c \<noteq> ''''"
  using assms by (auto simp: wf_ctrs_def list_all_iff dest: distinct_map_inj)

lemma distinct_rename:
  "distinct (map cname cs) \<Longrightarrow> distinct (map cid cs) \<Longrightarrow> n \<notin> cname ` set cs \<Longrightarrow>
     distinct (map cname (rename_ctr i n cs))"
  by (induction cs) (auto simp: upd_def rev_image_eqI split: if_splits)

lemma wf_upd:
  assumes "wf_ctrs cs" "\<And>c. cid (f c) = cid c"
    "(\<forall>c \<in> set cs. cid c = i \<longrightarrow> cname (f c) = cname c) \<or>
     (\<forall>c. cname (f c) = n) \<and> n \<notin> cname ` set cs"
  shows "wf_ctrs (upd i f cs)"
proof -
  have ids: "distinct (map cid (upd i f cs))" "list_all (\<lambda>c. cid c \<noteq> '''') (upd i f cs)"
    using assms(1,2) by (auto simp: wf_ctrs_def map_cid_upd list_all_iff set_upd)
  from assms(3) have "distinct (map cname (upd i f cs))"
  proof
    assume "\<forall>c \<in> set cs. cid c = i \<longrightarrow> cname (f c) = cname c"
    then have "map cname (upd i f cs) = map cname cs" by (auto simp: upd_def)
    with assms(1) show ?thesis by (simp add: wf_ctrs_def)
  next
    assume n: "(\<forall>c. cname (f c) = n) \<and> n \<notin> cname ` set cs"
    then have "map cname (upd i f cs) = map cname (rename_ctr i n cs)" by (auto simp: upd_def)
    with n assms(1) distinct_rename show ?thesis by (simp add: wf_ctrs_def)
  qed
  with ids show ?thesis by (simp add: wf_ctrs_def)
qed

lemma wf_remove: "wf_ctrs cs \<Longrightarrow> wf_ctrs (remove_ctr i cs)"
  by (auto simp: wf_ctrs_def distinct_map_filter list_all_iff)

lemma wf_filter: "wf_ctrs cs \<Longrightarrow> wf_ctrs (filter P cs)"
  by (auto simp: wf_ctrs_def distinct_map_filter list_all_iff)

lemma wf_snoc:
  "wf_ctrs cs \<Longrightarrow> cname c \<notin> cname ` set cs \<Longrightarrow> cid c \<notin> cid ` set cs \<Longrightarrow> cid c \<noteq> '''' \<Longrightarrow>
     wf_ctrs (cs @ [c])"
  by (auto simp: wf_ctrs_def)

lemma fresh_remove: "fresh_ids cs k \<Longrightarrow> fresh_ids (filter P cs) k"
  by (auto simp: fresh_ids_def)

lemma digits_value_zeros: "digits_value (replicate n (CHR ''0'') @ s) = digits_value s"
  by (induction n) (simp_all add: digits_value_def)

lemma ctr_id_inj: "ctr_id m = ctr_id n \<longleftrightarrow> m = n"
proof
  assume "ctr_id m = ctr_id n"
  then have "digits_value (drop 4 (ctr_id m)) = digits_value (drop 4 (ctr_id n))" by simp
  then show "m = n" by (simp add: ctr_id_def digits_value_zeros digits_value_itoa)
qed simp

lemma fresh_snoc:
  "fresh_ids cs k \<Longrightarrow> cid c = ctr_id (Suc k) \<Longrightarrow> fresh_ids (cs @ [c]) (Suc k)"
  by (auto simp: fresh_ids_def ctr_id_inj)

section \<open>The recovery relation\<close>

definition mine :: "string \<Rightarrow> ctr \<Rightarrow> bool" where
  "mine p c = (label (clabels c) ManagedLabel = ''true'' \<and> label (clabels c) ProjectLabel = p)"

definition debris :: "string \<Rightarrow> ctr \<Rightarrow> bool" where
  "debris p c = (mine p c \<and> is_debris c)"

text \<open>What may have become of an old container.\<close>

definition same_ctr :: "ctr \<Rightarrow> ctr \<Rightarrow> bool" where
  "same_ctr c d = (cid c = cid d \<and> cimage c = cimage d \<and> cexit c = cexit d \<and> clabels c = clabels d)"

lemma same_ctr_eq: "same_ctr c d \<Longrightarrow> cname c = cname d \<Longrightarrow> crunning c = crunning d \<Longrightarrow> c = d"
  by (simp add: same_ctr_def)

lemma same_ctr_upd [simp]:
  "same_ctr (c\<lparr>crunning := b\<rparr>) d = same_ctr c d" "same_ctr (c\<lparr>cname := n\<rparr>) d = same_ctr c d"
  by (simp_all add: same_ctr_def)

definition moved :: "journal_entry set \<Rightarrow> ctr \<Rightarrow> ctr \<Rightarrow> bool" where
  "moved E c0 c \<longleftrightarrow>
     same_ctr c c0 \<and>
     (c = c0 \<or>
      (\<exists>e \<in> E. je_kind e = ''replace'' \<and> je_old_id e = cid c0 \<and>
         cname c \<in> {cname c0, cname c0 @ retiredSuffix} \<and> (crunning c \<longrightarrow> crunning c0)) \<or>
      (\<exists>e \<in> E. je_kind e = ''start'' \<and> je_id e = cid c0 \<and> cname c = cname c0))"

text \<open>What an entry must say about the old containers.\<close>

definition entry_about :: "string \<Rightarrow> ctr list \<Rightarrow> journal_entry \<Rightarrow> bool" where
  "entry_about p cs0 e \<longleftrightarrow>
     je_name e \<noteq> '''' \<and> canonical_name (je_name e) \<and> je_new_id e \<notin> cid ` set cs0 \<and>
     (je_kind e = ''replace'' \<and>
        (\<exists>c0 \<in> set cs0. cid c0 = je_old_id e \<and> cname c0 = je_name e \<and>
           crunning c0 = je_was_running e \<and> mine p c0) \<or>
      je_kind e = ''create'' \<and> je_name e \<notin> cname ` set cs0 \<or>
      je_kind e = ''start'' \<and>
        (\<exists>c0 \<in> set cs0. cid c0 = je_id e \<and> cname c0 = je_name e \<and> \<not> crunning c0 \<and>
           mine p c0))"

text \<open>Why a container that is not old is the transaction's own.\<close>

definition own_new :: "string \<Rightarrow> journal \<Rightarrow> journal_entry set \<Rightarrow> ctr \<Rightarrow> bool" where
  "own_new p j E c \<longleftrightarrow>
     mine p c \<and>
     (is_debris c \<or>
      (\<exists>e \<in> E. cname c = je_name e \<and>
         (je_kind e = ''replace'' \<and> je_new_id e = cid c \<or>
          je_kind e = ''create'' \<and> owns j (clabels c) p \<and> je_new_id e \<in> {'''', cid c})))"

definition staged_free :: "journal_entry set \<Rightarrow> ctr \<Rightarrow> bool" where
  "staged_free E c \<longleftrightarrow>
     (\<forall>e \<in> E. je_kind e = ''replace'' \<longrightarrow> je_new_id e \<noteq> '''' \<longrightarrow>
        cname c = je_name e @ stagedSuffix \<longrightarrow> cid c = je_new_id e)"

definition recoverable ::
  "string \<Rightarrow> ctr list \<Rightarrow> journal \<Rightarrow> journal_entry set \<Rightarrow> ctr list \<Rightarrow> nat \<Rightarrow> bool" where
  "recoverable p cs0 j E cs k \<longleftrightarrow>
     wf_ctrs cs0 \<and> wf_ctrs cs \<and> fresh_ids cs k \<and> (\<forall>c \<in> set cs0. \<not> debris p c) \<and>
     (\<forall>e \<in> E. entry_about p cs0 e) \<and> inj_on je_name E \<and>
     (\<forall>c0 \<in> set cs0. \<exists>c \<in> set cs. moved E c0 c) \<and>
     (\<forall>c \<in> set cs. cid c \<notin> cid ` set cs0 \<longrightarrow> own_new p j E c) \<and>
     (\<forall>c \<in> set cs. staged_free E c)"

lemma moved_same: "moved E c0 c \<Longrightarrow> cid c = cid c0 \<and> clabels c = clabels c0"
  by (auto simp: moved_def same_ctr_def)

lemma moved_refl [simp]: "moved E c0 c0"
  by (simp add: moved_def same_ctr_def)

lemma moved_name: "moved E c0 c \<Longrightarrow> cname c \<in> {cname c0, cname c0 @ retiredSuffix}"
  by (auto simp: moved_def)

lemma moved_mono: "moved E c0 c \<Longrightarrow> E \<subseteq> F \<Longrightarrow> moved F c0 c"
  by (auto simp: moved_def)

lemma own_new_mono: "own_new p j E c \<Longrightarrow> E \<subseteq> F \<Longrightarrow> own_new p j F c"
  by (auto simp: own_new_def)

lemma suffixes_dot: "CHR ''.'' \<in> set retiredSuffix" "CHR ''.'' \<in> set stagedSuffix"
  by (simp_all add: retiredSuffix_def stagedSuffix_def)

lemma canonical_no_suffix:
  "canonical_name n \<Longrightarrow> n \<noteq> m @ retiredSuffix \<and> n \<noteq> m @ stagedSuffix"
  using suffixes_dot by (auto simp: canonical_name_def)

lemma canonical_not_debris: "canonical_name (cname c) \<Longrightarrow> \<not> is_debris c"
  using canonical_no_suffix by (auto simp: is_debris_def has_suffix_iff)

lemma staged_not_retired: "n @ stagedSuffix \<noteq> m @ retiredSuffix"
proof
  assume "n @ stagedSuffix = m @ retiredSuffix"
  then have "last (n @ stagedSuffix) = last (m @ retiredSuffix)" by simp
  then show False by (simp add: stagedSuffix_def retiredSuffix_def)
qed

text \<open>The old container an entry is about, and where it is now.\<close>

lemma recoverable_old:
  assumes "recoverable p cs0 j E cs k" "c0 \<in> set cs0"
  obtains c where "c \<in> set cs" "moved E c0 c" "cid c = cid c0"
  using assms moved_same by (fastforce simp: recoverable_def)

lemma recoverable_old_unique:
  assumes "recoverable p cs0 j E cs k" "c0 \<in> set cs0" "c \<in> set cs" "cid c = cid c0"
  shows "moved E c0 c"
proof -
  obtain d where "d \<in> set cs" "moved E c0 d" "cid d = cid c0"
    using recoverable_old [OF assms(1,2)] by blast
  with assms wf_ctrsD(1) [of cs c d] show ?thesis by (auto simp: recoverable_def)
qed

text \<open>A container at a canonical name is the old one of that name or the entry's new one.\<close>

lemma recoverable_at_canonical:
  assumes "recoverable p cs0 j E cs k" "c \<in> set cs" "canonical_name (cname c)"
  shows "(\<exists>c0 \<in> set cs0. cid c = cid c0 \<and> cname c = cname c0) \<or>
    (cid c \<notin> cid ` set cs0 \<and> mine p c \<and>
     (\<exists>e \<in> E. cname c = je_name e \<and>
        (je_kind e = ''replace'' \<and> je_new_id e = cid c \<or>
         je_kind e = ''create'' \<and> owns j (clabels c) p \<and> je_new_id e \<in> {'''', cid c})))"
proof (cases "cid c \<in> cid ` set cs0")
  case True
  then obtain c0 where c0: "c0 \<in> set cs0" "cid c = cid c0" by auto
  with assms have "moved E c0 c" by (auto intro: recoverable_old_unique)
  then have "cname c = cname c0"
    using moved_name canonical_no_suffix [OF assms(3)] by fastforce
  with c0 show ?thesis by auto
next
  case False
  with assms have "own_new p j E c" by (auto simp: recoverable_def)
  with False canonical_not_debris [OF assms(3)] show ?thesis by (auto simp: own_new_def)
qed

section \<open>Updates that keep the relation\<close>

lemma recoverable_upd:
  assumes r: "recoverable p cs0 j E cs k" and c: "c \<in> set cs" "cid c = i"
    and f: "\<And>c. cid (f c) = cid c"
      "cname (f c) = cname c \<or> (\<forall>d. cname (f d) = cname (f c)) \<and> cname (f c) \<notin> cname ` set cs"
    and old: "\<And>c0. c0 \<in> set cs0 \<Longrightarrow> cid c0 = i \<Longrightarrow> moved E c0 (f c)"
    and new: "i \<notin> cid ` set cs0 \<Longrightarrow> own_new p j E (f c)"
    and staged: "staged_free E (f c)"
  shows "recoverable p cs0 j E (upd i f cs) k"
proof -
  have uniq: "d = c" if "d \<in> set cs" "cid d = i" for d
    using r that c wf_ctrsD(1) [of cs d c] by (auto simp: recoverable_def)
  have wf: "wf_ctrs (upd i f cs)"
  proof (rule wf_upd [where n = "cname (f c)"])
    show "(\<forall>c\<in>set cs. cid c = i \<longrightarrow> cname (f c) = cname c) \<or>
        (\<forall>d. cname (f d) = cname (f c)) \<and> cname (f c) \<notin> cname ` set cs"
      using f(2) uniq by metis
  qed (use r f(1) in \<open>simp_all add: recoverable_def\<close>)
  have mem: "d \<in> set (upd i f cs) \<longleftrightarrow> d = f c \<or> d \<in> set cs \<and> cid d \<noteq> i" for d
    unfolding set_upd image_iff using uniq c by metis
  have "\<exists>d \<in> set (upd i f cs). moved E c0 d" if c0: "c0 \<in> set cs0" for c0
  proof (cases "cid c0 = i")
    case True
    with old c0 mem show ?thesis by blast
  next
    case False
    obtain d where "d \<in> set cs" "moved E c0 d" "cid d = cid c0"
      using recoverable_old [OF r c0] by blast
    with False mem show ?thesis by auto
  qed
  moreover have "fresh_ids (upd i f cs) k"
    using r f(1) by (simp add: recoverable_def fresh_ids_def ids_upd)
  moreover have "own_new p j E d" if "d \<in> set (upd i f cs)" "cid d \<notin> cid ` set cs0" for d
    using that r new c f(1) by (auto simp: mem recoverable_def)
  moreover have "staged_free E d" if "d \<in> set (upd i f cs)" for d
    using that r staged by (auto simp: mem recoverable_def)
  ultimately show ?thesis
    using r wf by (simp add: recoverable_def)
qed

lemma recoverable_remove:
  assumes "recoverable p cs0 j E cs k" "i \<notin> cid ` set cs0"
  shows "recoverable p cs0 j E (remove_ctr i cs) k"
proof -
  have "\<exists>c \<in> set (remove_ctr i cs). moved E c0 c" if c0: "c0 \<in> set cs0" for c0
  proof -
    obtain c where "c \<in> set cs" "moved E c0 c" "cid c = cid c0"
      using recoverable_old [OF assms(1) c0] by blast
    with assms(2) c0 show ?thesis by (intro bexI [of _ c]) auto
  qed
  then show ?thesis
    using assms(1) by (simp add: recoverable_def wf_remove fresh_remove)
qed

lemma recoverable_snoc:
  assumes "recoverable p cs0 j E cs k" "cname c \<notin> cname ` set cs" "cid c = ctr_id (Suc k)"
    "own_new p j E c" "staged_free E c"
  shows "recoverable p cs0 j E (cs @ [c]) (Suc k)"
proof -
  have "cid c \<notin> cid ` set cs" using assms(1,3) by (auto simp: recoverable_def fresh_ids_def)
  moreover have "cid c \<noteq> ''''" by (simp add: assms(3) ctr_id_def)
  ultimately have "wf_ctrs (cs @ [c])" using assms(1,2) by (simp add: recoverable_def wf_snoc)
  moreover have "fresh_ids (cs @ [c]) (Suc k)"
    using assms(1,3) by (simp add: recoverable_def fresh_snoc)
  ultimately show ?thesis using assms(1,4,5) by (auto simp: recoverable_def)
qed

lemma old_ids: "recoverable p cs0 j E cs k \<Longrightarrow> cid ` set cs0 \<subseteq> cid ` set cs"
  by (auto simp: recoverable_def dest!: bspec moved_same intro: rev_image_eqI)

text \<open>Stopping, parking and removing a new container.\<close>

lemma recoverable_stop_new:
  assumes "recoverable p cs0 j E cs k" "c \<in> set cs" "cid c = i" "i \<notin> cid ` set cs0"
  shows "recoverable p cs0 j E (run_ctr i b cs) k"
proof (rule recoverable_upd [OF assms(1-3)])
  have "own_new p j E c" "staged_free E c" using assms by (auto simp: recoverable_def)
  then show "own_new p j E (c\<lparr>crunning := b\<rparr>)" "staged_free E (c\<lparr>crunning := b\<rparr>)"
    by (auto simp: own_new_def staged_free_def mine_def is_debris_def)
qed (use assms(4) in auto)

lemma recoverable_rename_new:
  assumes "recoverable p cs0 j E cs k" "c \<in> set cs" "cid c = i" "i \<notin> cid ` set cs0"
    "n \<notin> cname ` set cs" "own_new p j E (c\<lparr>cname := n\<rparr>)" "staged_free E (c\<lparr>cname := n\<rparr>)"
  shows "recoverable p cs0 j E (rename_ctr i n cs) k"
  by (rule recoverable_upd [OF assms(1-3)]) (use assms(4-7) in auto)

text \<open>Bringing an old container closer to what it was.\<close>

lemma recoverable_old_upd:
  assumes r: "recoverable p cs0 j E cs k" and c: "c \<in> set cs" "cid c = cid c0" "c0 \<in> set cs0"
    and f: "\<And>c. cid (f c) = cid c"
      "cname (f c) = cname c \<or> (\<forall>d. cname (f d) = cname (f c)) \<and> cname (f c) \<notin> cname ` set cs"
    and m: "moved E c0 (f c)" and staged: "staged_free E (f c)"
  shows "recoverable p cs0 j E (upd (cid c0) f cs) k"
proof (rule recoverable_upd [OF r c(1,2) f(1,2)])
  show "moved E c1 (f c)" if "c1 \<in> set cs0" "cid c1 = cid c0" for c1
    using that m c(3) r wf_ctrsD(1) [of cs0 c1 c0] by (auto simp: recoverable_def)
  show "own_new p j E (f c)" if "cid c0 \<notin> cid ` set cs0" using that c(3) by simp
qed (rule staged)

lemma staged_free_canonical: "canonical_name (cname c) \<Longrightarrow> staged_free E c"
  using canonical_no_suffix by (auto simp: staged_free_def)

lemma recoverable_restore_name:
  assumes "recoverable p cs0 j E cs k" "c \<in> set cs" "cid c = cid c0" "c0 \<in> set cs0"
    "canonical_name (cname c0)" "cname c0 \<notin> cname ` set cs"
  shows "recoverable p cs0 j E (rename_ctr (cid c0) (cname c0) cs) k"
proof (rule recoverable_old_upd [OF assms(1-4)])
  have "moved E c0 c" using assms by (blast intro: recoverable_old_unique)
  then show "moved E c0 (c\<lparr>cname := cname c0\<rparr>)"
    using same_ctr_eq [of "c\<lparr>cname := cname c0\<rparr>" c0] by (auto simp: moved_def)
  show "staged_free E (c\<lparr>cname := cname c0\<rparr>)"
    using assms(5) by (intro staged_free_canonical) simp
qed (use assms(6) in auto)

text \<open>Setting the run state of an old container that has its name back.\<close>

lemma recoverable_restore_run:
  assumes "recoverable p cs0 j E cs k" "c \<in> set cs" "cid c = cid c0" "c0 \<in> set cs0"
    "cname c = cname c0" "b = crunning c0 \<or> b = crunning c"
  shows "recoverable p cs0 j E (run_ctr (cid c0) b cs) k"
proof (rule recoverable_old_upd [OF assms(1-4)])
  have m: "moved E c0 c" using assms by (blast intro: recoverable_old_unique)
  from assms(6) show "moved E c0 (c\<lparr>crunning := b\<rparr>)"
  proof
    assume "b = crunning c0"
    then have "c\<lparr>crunning := b\<rparr> = c0" using m assms(5) by (intro same_ctr_eq) (simp_all add: moved_def)
    then show ?thesis by simp
  next
    assume "b = crunning c"
    then have "c\<lparr>crunning := b\<rparr> = c" by (intro same_ctr_eq) (simp_all add: same_ctr_def)
    with m show ?thesis by simp
  qed
  show "staged_free E (c\<lparr>crunning := b\<rparr>)"
    using assms(1,2) by (auto simp: recoverable_def staged_free_def)
qed auto

text \<open>An entry whose containers are as they were before can be forgotten.\<close>

lemma recoverable_forget:
  assumes r: "recoverable p cs0 j (insert e E) cs k"
    and old: "\<And>c0. c0 \<in> set cs0 \<Longrightarrow>
      je_kind e = ''replace'' \<and> je_old_id e = cid c0 \<or> je_kind e = ''start'' \<and> je_id e = cid c0 \<Longrightarrow>
      c0 \<in> set cs"
    and new: "\<And>c. c \<in> set cs \<Longrightarrow> cname c = je_name e \<Longrightarrow> cid c \<in> cid ` set cs0"
  shows "recoverable p cs0 j E cs k"
proof -
  have "\<exists>c \<in> set cs. moved E c0 c" if c0: "c0 \<in> set cs0" for c0
  proof -
    obtain c where c: "c \<in> set cs" "moved (insert e E) c0 c"
      using recoverable_old [OF r c0] by blast
    show ?thesis
    proof (cases "c0 \<in> set cs")
      case True
      then show ?thesis using moved_refl by blast
    next
      case False
      with c old [OF c0] have "moved E c0 c" by (auto simp: moved_def)
      with c(1) show ?thesis by blast
    qed
  qed
  moreover have "own_new p j E c" if "c \<in> set cs" "cid c \<notin> cid ` set cs0" for c
    using r that new [OF that(1)] by (fastforce simp: recoverable_def own_new_def)
  moreover have "staged_free E c" if "c \<in> set cs" for c
    using r that by (auto simp: recoverable_def staged_free_def)
  ultimately show ?thesis using r by (auto simp: recoverable_def inj_on_insert)
qed

text \<open>With no entries left the old containers are all there, and everything else is debris.\<close>

lemma recoverable_no_entries:
  assumes "recoverable p cs0 j {} cs k"
  shows "set cs0 \<subseteq> set cs" "\<And>c. c \<in> set cs \<Longrightarrow> c \<in> set cs0 \<or> debris p c"
proof -
  show sub: "set cs0 \<subseteq> set cs" using assms by (auto simp: recoverable_def moved_def)
  show "c \<in> set cs0 \<or> debris p c" if c: "c \<in> set cs" for c
  proof (cases "cid c \<in> cid ` set cs0")
    case True
    then obtain c0 where "c0 \<in> set cs0" "cid c0 = cid c" by auto
    with sub c wf_ctrsD(1) [of cs c c0] assms show ?thesis by (auto simp: recoverable_def)
  next
    case False
    with assms c show ?thesis by (auto simp: recoverable_def own_new_def debris_def)
  qed
qed

end
