(* ===== verification/Undo.thy ===== *)
theory Undo
  imports Recovery
begin

text \<open>
  \<^verbatim>\<open>undo\<close> makes only updates that keep the recovery relation, whatever fails and wherever the
  process dies, and every entry it undoes without an error can be forgotten. The claims are
  about two journals at once: the one being undone and the one on disk, which may lag behind.
\<close>

section \<open>Finding the containers of an entry\<close>

abbreviation in_project :: "string \<Rightarrow> ctr list \<Rightarrow> ctr list" where
  "in_project p cs \<equiv> filter (\<lambda>c. label (clabels c) ProjectLabel = p) cs"

lemma wf_find_name:
  "wf_ctrs cs \<Longrightarrow> find_name cs n = Some c \<longleftrightarrow> c \<in> set cs \<and> cname c = n"
  unfolding find_name_def wf_ctrs_def by (simp add: find_Some_iff_unique)

lemma wf_find_id:
  "wf_ctrs cs \<Longrightarrow> find_id cs i = Some c \<longleftrightarrow> c \<in> set cs \<and> cid c = i"
  unfolding find_id_def wf_ctrs_def by (simp add: find_Some_iff_unique)

lemma recoverable_wf: "recoverable p cs0 j E cs k \<Longrightarrow> wf_ctrs cs \<and> wf_ctrs cs0"
  by (simp add: recoverable_def)

lemma recoverable_entry: "recoverable p cs0 j E cs k \<Longrightarrow> e \<in> E \<Longrightarrow> entry_about p cs0 e"
  by (simp add: recoverable_def)

lemma recoverable_name_inj:
  "recoverable p cs0 j E cs k \<Longrightarrow> e \<in> E \<Longrightarrow> e' \<in> E \<Longrightarrow> je_name e = je_name e' \<Longrightarrow> e = e'"
  by (auto simp: recoverable_def inj_on_def)

lemma recoverable_new_mine:
  "recoverable p cs0 j E cs k \<Longrightarrow> c \<in> set cs \<Longrightarrow> cid c \<notin> cid ` set cs0 \<Longrightarrow> mine p c"
  by (auto simp: recoverable_def own_new_def)

text \<open>The old container of a replacement is listed, at its name or parked.\<close>

lemma replace_old:
  assumes r: "recoverable p cs0 j E cs k" and e: "e \<in> E" "je_kind e = ''replace''"
  obtains c0 old where "c0 \<in> set cs0" "cid c0 = je_old_id e" "cname c0 = je_name e"
    "crunning c0 = je_was_running e" "canonical_name (cname c0)"
    "old \<in> set cs" "cid old = cid c0" "moved E c0 old"
    "find_id (in_project p cs) (je_old_id e) = Some old"
proof -
  have a: "entry_about p cs0 e" using r e by (auto simp: recoverable_def)
  then obtain c0 where c0: "c0 \<in> set cs0" "cid c0 = je_old_id e" "cname c0 = je_name e"
      "crunning c0 = je_was_running e" "label (clabels c0) ProjectLabel = p" "canonical_name (cname c0)"
    using e(2) by (auto simp: entry_about_def mine_def)
  obtain old where old: "old \<in> set cs" "moved E c0 old" "cid old = cid c0"
    using recoverable_old [OF r c0(1)] by blast
  have "find_id (in_project p cs) (je_old_id e) = Some old"
    using r old c0 moved_same [OF old(2)]
    by (subst wf_find_id) (auto simp: recoverable_def wf_filter)
  with c0 old that show thesis by blast
qed

text \<open>Whatever \<^verbatim>\<open>findNew\<close> finds is not an old container; a new one at the name is found.\<close>

lemma findNew_sound:
  assumes r: "recoverable p cs0 j E cs k" and e: "e \<in> E" "je_kind e = ''replace''"
    and n: "findNew (in_project p cs) j p e = Some n"
  shows "n \<in> set cs" "cid n \<notin> cid ` set cs0"
proof -
  have wf: "wf_ctrs (in_project p cs)" using r by (simp add: recoverable_def wf_filter)
  show "n \<in> set cs"
    using n by (auto simp: findNew_def owned_at_def split: if_splits option.splits
        dest!: find_id_SomeD find_name_SomeD)
  show "cid n \<notin> cid ` set cs0"
  proof (cases "je_new_id e = ''''")
    case False
    then have "cid n = je_new_id e" using n by (auto simp: findNew_def dest: find_id_SomeD)
    with recoverable_entry [OF r e(1)] show ?thesis by (simp add: entry_about_def)
  next
    case True
    obtain c0 old where c0: "c0 \<in> set cs0" "cid c0 = je_old_id e" "cname c0 = je_name e"
        "canonical_name (cname c0)"
      using replace_old [OF r e] by blast
    from n True have own: "cid n \<noteq> je_old_id e" "owns j (clabels n) p"
        and name: "cname n = je_name e \<or> cname n = je_name e @ stagedSuffix"
      by (auto simp: findNew_def owned_at_def split: if_splits option.splits dest!: find_name_SomeD)
    show ?thesis
    proof
      assume "cid n \<in> cid ` set cs0"
      then obtain c1 where c1: "c1 \<in> set cs0" "cid n = cid c1" by auto
      have m: "moved E c1 n" using r c1 \<open>n \<in> set cs\<close> by (auto intro: recoverable_old_unique)
      from name show False
      proof
        assume "cname n = je_name e"
        then have "cname c1 = cname c0"
          using moved_name [OF m] c0 canonical_no_suffix [of "cname c0"] by auto
        with r c0(1) c1(1) have "c1 = c0" by (auto simp: recoverable_def dest: wf_ctrsD(2))
        with own(1) c1(2) c0(2) show False by simp
      next
        assume st: "cname n = je_name e @ stagedSuffix"
        then have "cname c1 = je_name e @ stagedSuffix"
          using st moved_name [OF m] staged_not_retired [of "je_name e" "cname c1"] by auto
        then have "debris p c1"
          using own(2) moved_same [OF m]
          by (auto simp: debris_def mine_def owns_def is_debris_def has_suffix_iff)
        with r c1(1) show False by (simp add: recoverable_def)
      qed
    qed
  qed
qed

lemma findNew_complete:
  assumes r: "recoverable p cs0 j E cs k" and e: "e \<in> E" "je_kind e = ''replace''"
    and c: "c \<in> set cs" "cname c = je_name e" "cid c \<notin> cid ` set cs0"
  shows "findNew (in_project p cs) j p e = Some c" "je_new_id e = cid c"
    "je_name e @ stagedSuffix \<notin> cname ` set cs"
proof -
  have wf: "wf_ctrs cs" using r by (simp add: recoverable_def)
  have can: "canonical_name (cname c)" using recoverable_entry [OF r e(1)] c by (simp add: entry_about_def)
  from recoverable_at_canonical [OF r c(1) can] c(3)
  obtain e' where e': "e' \<in> E" "cname c = je_name e'"
      "je_kind e' = ''replace'' \<and> je_new_id e' = cid c \<or> je_kind e' = ''create''" "mine p c"
    by auto
  have "e' = e" using recoverable_name_inj [OF r e'(1) e(1)] e'(2) c(2) by simp
  with e' e show nid: "je_new_id e = cid c" by auto
  have "cid c \<noteq> ''''" using wf c(1) by (auto dest: wf_ctrsD(3))
  with nid show "findNew (in_project p cs) j p e = Some c"
    using e'(4) c(1) wf by (simp add: findNew_def wf_find_id wf_filter mine_def)
  show "je_name e @ stagedSuffix \<notin> cname ` set cs"
  proof
    assume "je_name e @ stagedSuffix \<in> cname ` set cs"
    then obtain f where f: "f \<in> set cs" "cname f = je_name e @ stagedSuffix" by auto
    then have "cid f = cid c"
      using r e nid \<open>cid c \<noteq> ''''\<close> by (auto simp: recoverable_def staged_free_def)
    with wf f c have "je_name e = je_name e @ stagedSuffix" by (auto dest: wf_ctrsD(1))
    then show False by (simp add: stagedSuffix_def)
  qed
qed

text \<open>Whoever sits at the entry's name is the old container or the one \<^verbatim>\<open>findNew\<close> found.\<close>

lemma at_entry_name:
  assumes r: "recoverable p cs0 j E cs k" and e: "e \<in> E" "je_kind e = ''replace''"
    and c: "c \<in> set cs" "cname c = je_name e"
  shows "cid c = je_old_id e \<or> cid c \<notin> cid ` set cs0 \<and> findNew (in_project p cs) j p e = Some c"
proof (cases "cid c \<in> cid ` set cs0")
  case True
  obtain c0 old where c0: "c0 \<in> set cs0" "cid c0 = je_old_id e" "cname c0 = je_name e"
      "canonical_name (cname c0)"
    using replace_old [OF r e] by blast
  from True obtain c1 where c1: "c1 \<in> set cs0" "cid c = cid c1" by auto
  with r c(1) have m: "moved E c1 c" by (auto intro: recoverable_old_unique)
  have "cname c1 = cname c0"
    using moved_name [OF m] c(2) c0 canonical_no_suffix [of "cname c0"] by auto
  with r c0(1) c1(1) have "c1 = c0" by (auto simp: recoverable_def dest: wf_ctrsD(2))
  with c1(2) c0(2) show ?thesis by simp
next
  case False
  with findNew_complete(1) [OF r e c] show ?thesis by blast
qed

section \<open>Two journals at once\<close>

text \<open>
  The journal \<open>jd\<close> with entries \<open>Ed\<close> is the one on disk, \<open>j\<close> with \<open>F\<close> the one being undone.
  They agree on an entry when the disk knows the same new container or none.
\<close>

definition agree :: "journal_entry set \<Rightarrow> journal_entry \<Rightarrow> bool" where
  "agree Ed e \<longleftrightarrow> (\<forall>e' \<in> Ed. je_name e' = je_name e \<longrightarrow> je_new_id e' \<in> {'''', je_new_id e})"

definition both ::
  "string \<Rightarrow> ctr list \<Rightarrow> journal \<Rightarrow> journal_entry set \<Rightarrow> journal \<Rightarrow> journal_entry set \<Rightarrow> nat \<Rightarrow>
     ctr list \<Rightarrow> bool" where
  "both p cs0 jd Ed j F k cs = (recoverable p cs0 jd Ed cs k \<and> recoverable p cs0 j F cs k)"

definition ok_at :: "nat \<Rightarrow> rest \<Rightarrow> (ctr list \<Rightarrow> bool) \<Rightarrow> sys \<Rightarrow> bool" where
  "ok_at k r P s \<longleftrightarrow> (\<exists>cs. at cs k r s \<and> P cs)"

lemma ok_atI: "at cs k r s \<Longrightarrow> P cs \<Longrightarrow> ok_at k r P s"
  by (auto simp: ok_at_def)

lemma hoare_ret_at: "P cs \<Longrightarrow> hoare q (at cs k r) (io_ret x) (\<lambda>_. ok_at k r P) E C"
  by (rule hoare_ret) (rule ok_atI)

lemma hoare_ok_at:
  "(\<And>cs. P cs \<Longrightarrow> hoare q (at cs k r) m Q E C) \<Longrightarrow> hoare q (ok_at k r P) m Q E C"
  unfolding hoare_def ok_at_def by blast

lemma hoare_nothing:
  "m = io_ret x \<Longrightarrow> P cs \<Longrightarrow> hoare q (at cs k r) m (\<lambda>_. ok_at k r P) E C"
  by (simp add: hoare_ret_at)

lemma agree_same: "recoverable p cs0 j F cs k \<Longrightarrow> e \<in> F \<Longrightarrow> agree F e"
  by (auto simp: agree_def dest: recoverable_name_inj)

lemma upd_absent: "i \<notin> cid ` set cs \<Longrightarrow> upd i f cs = cs"
  by (induction cs) (auto simp: upd_def)

text \<open>Stopping and removing containers that are not old keeps both relations.\<close>

lemma both_stop_new:
  "both p cs0 jd Ed j F k cs \<Longrightarrow> i \<in> cid ` set cs \<Longrightarrow> i \<notin> cid ` set cs0 \<Longrightarrow>
     both p cs0 jd Ed j F k (stop_ctr i cs)"
  by (auto simp: both_def intro: recoverable_stop_new)

lemma both_remove_new:
  "both p cs0 jd Ed j F k cs \<Longrightarrow> i \<notin> cid ` set cs0 \<Longrightarrow> both p cs0 jd Ed j F k (remove_ctr i cs)"
  by (auto simp: both_def intro: recoverable_remove)

lemma hoare_stop_new:
  assumes "both p cs0 jd Ed j F k cs"
    "case N of Some n \<Rightarrow> n \<in> set cs \<and> cid n \<notin> cid ` set cs0 | None \<Rightarrow> True"
  defines "cs1 \<equiv> (case N of Some n \<Rightarrow> if crunning n then stop_ctr (cid n) cs else cs | None \<Rightarrow> cs)"
  shows "both p cs0 jd Ed j F k cs1"
    "hoare q (at cs k r) (stop_new N) (\<lambda>_. at cs1 k r)
       (\<lambda>_ s. \<not> q \<and> ok_at k r (both p cs0 jd Ed j F k) s) (ok_at k r (both p cs0 jd Ed j F k))"
proof -
  show "both p cs0 jd Ed j F k cs1"
    using assms(1,2) by (auto simp: cs1_def both_stop_new split: option.splits)
  then show "hoare q (at cs k r) (stop_new N) (\<lambda>_. at cs1 k r)
       (\<lambda>_ s. \<not> q \<and> ok_at k r (both p cs0 jd Ed j F k) s) (ok_at k r (both p cs0 jd Ed j F k))"
    using assms(1,2) unfolding stop_new_def cs1_def
    by (auto split: option.splits intro!: hoare_ret hoare_when hoare_stop intro: ok_atI)
qed

lemma park_keeps:
  assumes r: "recoverable p cs0 j E cs k" and n: "n \<in> set cs" "cid n \<notin> cid ` set cs0"
    and free: "m @ stagedSuffix \<notin> cname ` set cs"
    and agree: "\<And>e. e \<in> E \<Longrightarrow> je_name e = m \<Longrightarrow> je_new_id e \<in> {'''', cid n}"
  shows "recoverable p cs0 j E (rename_ctr (cid n) (m @ stagedSuffix) cs) k"
proof (rule recoverable_rename_new [OF r n(1) refl n(2) free])
  have "mine p n" using r n by (rule recoverable_new_mine)
  then show "own_new p j E (n\<lparr>cname := m @ stagedSuffix\<rparr>)"
    by (simp add: own_new_def mine_def is_debris_def has_suffix_iff)
  show "staged_free E (n\<lparr>cname := m @ stagedSuffix\<rparr>)"
    using agree by (fastforce simp: staged_free_def)
qed

lemma hoare_park_new:
  assumes b: "both p cs0 jd Ed j F k cs1" and e: "e \<in> F" "je_kind e = ''replace''" "agree Ed e"
    and N: "N = findNew (in_project p cs) j p e" "recoverable p cs0 j F cs k"
    and same: "map cid cs1 = map cid cs" "map cname cs1 = map cname cs"
  defines "cs2 \<equiv> (case N of Some n \<Rightarrow> if cname n = je_name e
                      then rename_ctr (cid n) (je_name e @ stagedSuffix) cs1 else cs1 | None \<Rightarrow> cs1)"
  shows "both p cs0 jd Ed j F k cs2"
    "hoare q (at cs1 k r) (park_new (in_project p cs) e N) (\<lambda>_. at cs2 k r)
       (\<lambda>_ s. \<not> q \<and> ok_at k r (both p cs0 jd Ed j F k) s) (ok_at k r (both p cs0 jd Ed j F k))"
proof -
  have facts: "cid n \<in> cid ` set cs1" "\<forall>c \<in> set cs1. cid c = cid n \<longrightarrow> cname c = je_name e"
      "je_name e @ stagedSuffix \<notin> cname ` set cs1" "both p cs0 jd Ed j F k cs2"
      "find_name (in_project p cs) (je_name e @ stagedSuffix) = None"
    if "N = Some n" "cname n = je_name e" for n
  proof -
    have n: "n \<in> set cs" "cid n \<notin> cid ` set cs0" using findNew_sound [OF N(2) e(1,2)] that N(1) by auto
    note c = findNew_complete [OF N(2) e(1,2) n(1) that(2) n(2)]
    have cs: "wf_ctrs cs" "wf_ctrs cs1" using N(2) b by (auto simp: both_def recoverable_def)
    have pairs: "map (\<lambda>c. (cid c, cname c)) cs1 = map (\<lambda>c. (cid c, cname c)) cs"
      using same by (simp add: map_pair_zip)
    have ids: "(\<lambda>c. (cid c, cname c)) ` set cs1 = (\<lambda>c. (cid c, cname c)) ` set cs"
      using pairs by (metis set_map)
    show free: "je_name e @ stagedSuffix \<notin> cname ` set cs1" using c(3) same(2) by (metis set_map)
    have "cid ` set cs1 = cid ` set cs" using same(1) by (metis set_map)
    then show "cid n \<in> cid ` set cs1" using n(1) by simp
    obtain n1 where n1: "n1 \<in> set cs1" "cid n1 = cid n" "cname n1 = je_name e"
    proof -
      have "(cid n, cname n) \<in> (\<lambda>c. (cid c, cname c)) ` set cs1" using n(1) ids by simp
      then show thesis using that \<open>cname n = je_name e\<close> by auto
    qed
    show "\<forall>c \<in> set cs1. cid c = cid n \<longrightarrow> cname c = je_name e"
      using n1 cs(2) by (metis wf_ctrsD(1))
    have "agree F e" using N(2) e(1) by (rule agree_same)
    with e(3) have "\<And>e'. e' \<in> Ed \<Longrightarrow> je_name e' = je_name e \<Longrightarrow> je_new_id e' \<in> {'''', cid n1}"
        "\<And>e'. e' \<in> F \<Longrightarrow> je_name e' = je_name e \<Longrightarrow> je_new_id e' \<in> {'''', cid n1}"
      using c(2) n1(2) by (auto simp: agree_def)
    then have "recoverable p cs0 jd Ed (rename_ctr (cid n1) (je_name e @ stagedSuffix) cs1) k"
        "recoverable p cs0 j F (rename_ctr (cid n1) (je_name e @ stagedSuffix) cs1) k"
      using b n1 n(2) free by (intro park_keeps; simp add: both_def)+
    then show "both p cs0 jd Ed j F k cs2"
      using that n1(2) by (simp add: both_def cs2_def)
    show "find_name (in_project p cs) (je_name e @ stagedSuffix) = None"
      using c(3) by (auto simp: find_name_None)
  qed
  show both2: "both p cs0 jd Ed j F k cs2"
  proof (cases "\<exists>n. N = Some n \<and> cname n = je_name e")
    case True
    then show ?thesis using facts(4) by blast
  next
    case False
    then have "cs2 = cs1" by (auto simp: cs2_def split: option.splits)
    with b show ?thesis by simp
  qed
  show "hoare q (at cs1 k r) (park_new (in_project p cs) e N) (\<lambda>_. at cs2 k r)
       (\<lambda>_ s. \<not> q \<and> ok_at k r (both p cs0 jd Ed j F k) s) (ok_at k r (both p cs0 jd Ed j F k))"
  proof (cases N)
    case None
    then show ?thesis by (auto simp: park_new_def cs2_def intro: hoare_ret)
  next
    case (Some n)
    show ?thesis
    proof (cases "cname n = je_name e")
      case True
      note f = facts [OF Some True]
      have "je_name e \<noteq> je_name e @ stagedSuffix" by (simp add: stagedSuffix_def)
      with f b both2 True Some show ?thesis
        by (auto simp: park_new_def Let_def cs2_def io_when_def intro!: hoare_rename intro: ok_atI)
    qed (use Some in \<open>auto simp: park_new_def Let_def cs2_def io_when_def intro: hoare_ret\<close>)
  qed
qed

section \<open>Undoing one entry\<close>

text \<open>
  After an entry is undone the old container it is about is as it was, and nothing but an old
  container has its name.
\<close>

definition undone :: "ctr list \<Rightarrow> journal_entry \<Rightarrow> ctr list \<Rightarrow> bool" where
  "undone cs0 e cs \<longleftrightarrow>
     (\<forall>c0 \<in> set cs0. je_kind e = ''replace'' \<and> je_old_id e = cid c0 \<or>
        je_kind e = ''start'' \<and> je_id e = cid c0 \<longrightarrow> c0 \<in> set cs) \<and>
     (\<forall>c \<in> set cs. cname c = je_name e \<longrightarrow> cid c \<in> cid ` set cs0)"

lemma recoverable_undone:
  assumes "recoverable p cs0 j F cs k" "undone cs0 e cs"
  shows "recoverable p cs0 j (F - {e}) cs k"
proof (cases "e \<in> F")
  case True
  then have F: "F = insert e (F - {e})" by blast
  show ?thesis
    by (rule recoverable_forget [where e = e]) (use assms F in \<open>auto simp: undone_def\<close>)
next
  case False
  with assms(1) show ?thesis by simp
qed

text \<open>No container starts and exits at once: what a quiet recovery may rely on.\<close>

definition stays :: "ctr list \<Rightarrow> rest \<Rightarrow> bool" where
  "stays cs0 r \<longleftrightarrow> (\<forall>c0 \<in> set cs0. crunning c0 \<longrightarrow> \<not> snd (snd (snd r)) (cid c0))"

lemma hoare_restore_old:
  assumes b: "both p cs0 jd Ed j F k cs2" and c0: "c0 \<in> set cs0" "canonical_name (cname c0)"
    and o: "o2 \<in> set cs2" "cid o2 = cid c0" "cname old = cname o2"
    and free: "\<forall>c \<in> set cs2. cname c = cname c0 \<longrightarrow> cid c = cid c0"
  defines "cs3 \<equiv> (if cname old \<noteq> cname c0 then rename_ctr (cid c0) (cname c0) cs2 else cs2)"
  shows "both p cs0 jd Ed j F k cs3"
    "hoare q (at cs2 k r) (io_when (cname old \<noteq> cname c0) (RenameContainer (cid c0) (cname c0)))
       (\<lambda>_. at cs3 k r)
       (\<lambda>_ s. \<not> q \<and> ok_at k r (both p cs0 jd Ed j F k) s) (ok_at k r (both p cs0 jd Ed j F k))"
    "o2\<lparr>cname := cname c0\<rparr> \<in> set cs3"
    "\<forall>c \<in> set cs3. cname c = cname c0 \<longrightarrow> cid c = cid c0"
proof -
  have wf: "wf_ctrs cs2" using b by (simp add: both_def recoverable_def)
  have uniq: "\<forall>c \<in> set cs2. cid c = cid c0 \<longrightarrow> c = o2" using wf o by (metis wf_ctrsD(1))
  have fr: "cname c0 \<notin> cname ` set cs2" if "cname old \<noteq> cname c0"
    using free uniq o(3) that by auto
  show both3: "both p cs0 jd Ed j F k cs3"
    using b o c0 fr by (auto simp: both_def cs3_def intro: recoverable_restore_name)
  show "hoare q (at cs2 k r) (io_when (cname old \<noteq> cname c0) (RenameContainer (cid c0) (cname c0)))
       (\<lambda>_. at cs3 k r)
       (\<lambda>_ s. \<not> q \<and> ok_at k r (both p cs0 jd Ed j F k) s) (ok_at k r (both p cs0 jd Ed j F k))"
  proof (rule hoare_when)
    assume ne: "cname old \<noteq> cname c0"
    show "hoare q (at cs2 k r) (RenameContainer (cid c0) (cname c0)) (\<lambda>_. at cs3 k r)
       (\<lambda>_ s. \<not> q \<and> ok_at k r (both p cs0 jd Ed j F k) s) (ok_at k r (both p cs0 jd Ed j F k))"
      using ne uniq o(3) fr [OF ne] b both3
      by (intro hoare_rename) (auto simp: cs3_def intro: ok_atI rev_image_eqI [OF o(1)] o(2) [symmetric])
  qed (simp add: cs3_def)
  show "o2\<lparr>cname := cname c0\<rparr> \<in> set cs3"
  proof (cases "cname old = cname c0")
    case True
    then have "o2\<lparr>cname := cname c0\<rparr> = o2" using o(3) by (intro same_ctr_eq) (simp_all add: same_ctr_def)
    with True o(1) show ?thesis by (simp add: cs3_def)
  next
    case False
    with o show ?thesis by (force simp: cs3_def set_upd)
  qed
  show "\<forall>c \<in> set cs3. cname c = cname c0 \<longrightarrow> cid c = cid c0"
    using free by (auto simp: cs3_def set_upd)
qed

lemma hoare_restart_old:
  assumes b: "both p cs0 jd Ed j F k cs3" and c0: "c0 \<in> set cs0" "cid c0 = je_old_id e"
      "cname c0 = je_name e" "crunning c0 = je_was_running e"
    and o3: "o3 \<in> set cs3" "cid o3 = cid c0" "cname o3 = cname c0" "crunning o3 = crunning old"
    and old: "cid old = cid c0" and free: "\<forall>c \<in> set cs3. cname c = cname c0 \<longrightarrow> cid c = cid c0"
    and e: "e \<in> F" "je_kind e = ''replace''" and quiet: "q \<Longrightarrow> stays cs0 r"
  shows "hoare q (at cs3 k r) (restart_old e old)
       (\<lambda>_. ok_at k r (\<lambda>cs. both p cs0 jd Ed j F k cs \<and> c0 \<in> set cs \<and> cid ` set cs = cid ` set cs3 \<and>
          (\<forall>c \<in> set cs. cname c = cname c0 \<longrightarrow> cid c = cid c0)))
       (\<lambda>_ s. \<not> q \<and> ok_at k r (both p cs0 jd Ed j F k) s) (ok_at k r (both p cs0 jd Ed j F k))"
proof -
  have wf: "wf_ctrs cs3" "wf_ctrs cs0" using b by (auto simp: both_def recoverable_def)
  have m: "moved F c0 o3" using b c0(1) o3 by (auto simp: both_def intro: recoverable_old_unique)
  have run: "crunning o3 \<longrightarrow> crunning c0"
  proof (rule ccontr)
    assume no: "\<not> (crunning o3 \<longrightarrow> crunning c0)"
    with m obtain e' where e': "e' \<in> F" "je_kind e' = ''start''" "je_id e' = cid c0"
      by (auto simp: moved_def)
    have r: "recoverable p cs0 j F cs3 k" using b by (simp add: both_def)
    from recoverable_entry [OF r e'(1)] e'(2,3) obtain c1 where
      c1: "c1 \<in> set cs0" "cid c1 = cid c0" "cname c1 = je_name e'"
      by (auto simp: entry_about_def)
    then have "c1 = c0" using wf(2) c0(1) by (auto dest: wf_ctrsD(1))
    with c1(3) c0(3) have "e' = e" using recoverable_name_inj [OF r e'(1) e(1)] by simp
    with e'(2) e(2) show False by simp
  qed
  show ?thesis
  proof (cases "je_was_running e \<and> \<not> crunning old")
    case False
    have "same_ctr o3 c0" using m by (simp add: moved_def)
    moreover have "crunning o3 = crunning c0" using False run o3(4) c0(4) by auto
    ultimately have "o3 = c0" using o3(3) by (intro same_ctr_eq)
    with o3(1) have c0_in: "c0 \<in> set cs3" by simp
    have idle: "restart_old e old = io_ret ()"
      unfolding restart_old_def io_when_def by (rule if_not_P [OF False])
    show ?thesis 
      by (rule hoare_nothing, rule idle) (intro conjI b c0_in free refl)
  next
    case True
    let ?b = "\<not> snd (snd (snd r)) (cid old)"
    let ?cs = "run_ctr (cid old) ?b cs3"
    have b4: "both p cs0 jd Ed j F k ?cs"
    proof -
      have "?b = crunning c0 \<or> ?b = crunning o3" using True c0(4) o3(4) by simp
      then show ?thesis
        using b recoverable_restore_run [OF _ o3(1,2) c0(1) o3(3), where b = ?b]
        by (simp add: both_def old)
    qed
    have wf4: "wf_ctrs ?cs" using b4 by (simp add: both_def recoverable_def)
    have mem: "o3\<lparr>crunning := ?b\<rparr> \<in> set ?cs" using o3 old by (force simp: set_upd)
    have at_name: "c = o3\<lparr>crunning := ?b\<rparr>" if "c \<in> set ?cs" "cname c = je_name e" for c
      using wf4 mem that o3(3) c0(3) by (auto dest: wf_ctrsD(2))
    have restored: "c0 \<in> set ?cs" if ?b
    proof -
      have "o3\<lparr>crunning := ?b\<rparr> = c0"
        using m that o3(3) True c0(4) by (intro same_ctr_eq) (auto simp: moved_def)
      with mem show ?thesis by simp
    qed
    have st: "q \<Longrightarrow> ?b" using quiet c0 old True by (auto simp: stays_def)
    have names: "\<forall>c \<in> set ?cs. cname c = cname c0 \<longrightarrow> cid c = cid c0"
      using free by (auto simp: set_upd)
    have ids: "cid ` set ?cs = cid ` set cs3" by (simp add: ids_upd)
    have here: "je_name e \<in> cname ` set ?cs" using mem o3(3) c0(3) by force
    have i: "cid old \<in> cid ` set cs3" using o3(1,2) old by (metis image_eqI)
    show ?thesis
      unfolding restart_old_def io_when_def if_P [OF True]
    proof (rule hoare_bind [where R = "\<lambda>_. at ?cs k r"])
      show "hoare q (at cs3 k r) (StartContainer (cid old)) (\<lambda>_. at ?cs k r)
         (\<lambda>_ s. \<not> q \<and> ok_at k r (both p cs0 jd Ed j F k) s) (ok_at k r (both p cs0 jd Ed j F k))"
        using i b b4 by (intro hoare_start) (auto intro: ok_atI)
      show "hoare q (at ?cs k r)
         (io_bind (InspectContainer (je_name e)) (\<lambda>(st, _).
            if \<not> crunning st
            then io_fail (Plain ''restored container %s did not stay running'' [je_name e])
            else io_ret ()))
         (\<lambda>_. ok_at k r (\<lambda>cs. both p cs0 jd Ed j F k cs \<and> c0 \<in> set cs \<and> cid ` set cs = cid ` set cs3 \<and>
            (\<forall>c \<in> set cs. cname c = cname c0 \<longrightarrow> cid c = cid c0)))
         (\<lambda>_ s. \<not> q \<and> ok_at k r (both p cs0 jd Ed j F k) s) (ok_at k r (both p cs0 jd Ed j F k))"
      proof (rule hoare_bind [where R = "\<lambda>x s. fst x = o3\<lparr>crunning := ?b\<rparr> \<and> at ?cs k r s"])
        show "hoare q (at ?cs k r) (InspectContainer (je_name e))
           (\<lambda>x s. fst x = o3\<lparr>crunning := ?b\<rparr> \<and> at ?cs k r s)
           (\<lambda>_ s. \<not> q \<and> ok_at k r (both p cs0 jd Ed j F k) s) (ok_at k r (both p cs0 jd Ed j F k))"
          using here b4 at_name by (intro hoare_inspect) (auto intro: ok_atI)
        fix x :: "ctr \<times> (string \<times> string) option"
        let ?m = "(\<lambda>(st, _). if \<not> crunning st
            then io_fail (Plain ''restored container %s did not stay running'' [je_name e])
            else io_ret ()) x"
        show "hoare q (\<lambda>s. fst x = o3\<lparr>crunning := ?b\<rparr> \<and> at ?cs k r s) ?m
          (\<lambda>_. ok_at k r (\<lambda>cs. both p cs0 jd Ed j F k cs \<and> c0 \<in> set cs \<and> cid ` set cs = cid ` set cs3 \<and>
             (\<forall>c \<in> set cs. cname c = cname c0 \<longrightarrow> cid c = cid c0)))
          (\<lambda>_ s. \<not> q \<and> ok_at k r (both p cs0 jd Ed j F k) s) (ok_at k r (both p cs0 jd Ed j F k))"
        proof (rule hoare_pure)
          assume x: "fst x = o3\<lparr>crunning := ?b\<rparr>"
          show "hoare q (at ?cs k r) ?m
            (\<lambda>_. ok_at k r (\<lambda>cs. both p cs0 jd Ed j F k cs \<and> c0 \<in> set cs \<and>
               cid ` set cs = cid ` set cs3 \<and>
               (\<forall>c \<in> set cs. cname c = cname c0 \<longrightarrow> cid c = cid c0)))
            (\<lambda>_ s. \<not> q \<and> ok_at k r (both p cs0 jd Ed j F k) s) (ok_at k r (both p cs0 jd Ed j F k))"
          proof (cases ?b)
            case True
            then have idle: "?m = io_ret ()" by (simp add: case_prod_beta x)
            show ?thesis
              by (rule hoare_nothing, rule idle) (intro conjI b4 restored True ids names)
          next
            case False
            then have failing: "?m = io_fail (Plain ''restored container %s did not stay running'' [je_name e])"
              by (simp add: case_prod_beta x)
            have "\<not> q" using False st by blast
            then show ?thesis unfolding failing by (intro hoare_fail) (blast intro: ok_atI b4)
          qed
        qed
      qed
    qed
  qed
qed

lemma hoare_delete_new:
  assumes b: "both p cs0 jd Ed j F k cs4" and c0: "c0 \<in> set cs4" "c0 \<in> set cs0"
    and N: "case N of Some n \<Rightarrow> cid n \<in> cid ` set cs4 \<and> cid n \<notin> cid ` set cs0 | None \<Rightarrow> True"
    and free: "\<forall>c \<in> set cs4. cname c = cname c0 \<longrightarrow> cid c = cid c0"
  shows "hoare q (at cs4 k r) (delete_new N)
     (\<lambda>_. ok_at k r (\<lambda>cs. both p cs0 jd Ed j F k cs \<and> c0 \<in> set cs \<and>
        (\<forall>c \<in> set cs. cname c = cname c0 \<longrightarrow> cid c = cid c0)))
     E (ok_at k r (both p cs0 jd Ed j F k))"
proof (cases N)
  case None
  show ?thesis
    unfolding None delete_new_def option.case by (intro hoare_ret_at conjI b c0 free)
next
  case (Some n)
  let ?P = "\<lambda>cs. both p cs0 jd Ed j F k cs \<and> c0 \<in> set cs \<and>
        (\<forall>c \<in> set cs. cname c = cname c0 \<longrightarrow> cid c = cid c0)"
  have n: "cid n \<in> cid ` set cs4" "cid n \<notin> cid ` set cs0" using N Some by auto
  have P: "?P cs4" using b c0(1) free by blast
  have P': "?P (remove_ctr (cid n) cs4)"
  proof (intro conjI)
    show "both p cs0 jd Ed j F k (remove_ctr (cid n) cs4)" using b n(2) by (rule both_remove_new)
    have "cid c0 \<noteq> cid n" using c0(2) n(2) by (metis image_eqI)
    with c0(1) show "c0 \<in> set (remove_ctr (cid n) cs4)" by simp
    show "\<forall>c \<in> set (remove_ctr (cid n) cs4). cname c = cname c0 \<longrightarrow> cid c = cid c0"
      using free by (meson filter_is_subset subsetD)
  qed
  show ?thesis
    unfolding delete_new_def Some option.case
  proof (rule hoare_bind [where R = "\<lambda>_. ok_at k r ?P"])
    show "hoare q (at cs4 k r) (io_try (RemoveContainer (cid n))) (\<lambda>_. ok_at k r ?P) E
        (ok_at k r (both p cs0 jd Ed j F k))"
      by (intro hoare_try hoare_remove n(1)) (use P P' b in \<open>blast intro: ok_atI\<close>)+
  qed (rule hoare_ret)
qed

text \<open>
  \<^verbatim>\<open>undoReplace\<close> on a recoverable state: it returns with the old container restored, and an
  error (only under a fault) or a crash leaves both relations as they were.
\<close>

lemma hoare_undoReplace:
  assumes b: "both p cs0 jd Ed j F k cs" and e: "e \<in> F" "je_kind e = ''replace''" "agree Ed e"
    and quiet: "q \<Longrightarrow> stays cs0 r"
  shows "hoare q (at cs k r) (undoReplace p j e)
     (\<lambda>_. ok_at k r (\<lambda>cs. both p cs0 jd Ed j F k cs \<and> undone cs0 e cs))
     (\<lambda>_ s. \<not> q \<and> ok_at k r (both p cs0 jd Ed j F k) s) (ok_at k r (both p cs0 jd Ed j F k))"
    (is "hoare q _ _ _ ?E ?C")
proof -
  have r: "recoverable p cs0 j F cs k" using b by (simp add: both_def)
  then have wf: "wf_ctrs cs" "wf_ctrs cs0" by (simp_all add: recoverable_def)
  obtain c0 old where c0: "c0 \<in> set cs0" "cid c0 = je_old_id e" "cname c0 = je_name e"
      "crunning c0 = je_was_running e" "canonical_name (cname c0)"
    and old: "old \<in> set cs" "cid old = cid c0" "find_id (in_project p cs) (je_old_id e) = Some old"
    using replace_old [OF r e(1,2)] by blast
  define N where "N = findNew (in_project p cs) j p e"
  have N: "case N of Some n \<Rightarrow> n \<in> set cs \<and> cid n \<notin> cid ` set cs0 | None \<Rightarrow> True"
    using findNew_sound [OF r e(1,2)] by (auto simp: N_def split: option.splits)
  define cs1 where "cs1 = (case N of Some n \<Rightarrow> if crunning n then stop_ctr (cid n) cs else cs | None \<Rightarrow> cs)"
  note stop = hoare_stop_new [OF b N, folded cs1_def]
  have same: "map cid cs1 = map cid cs" "map cname cs1 = map cname cs"
    by (auto simp: cs1_def map_cid_upd map_cname_upd split: option.splits)
  define cs2 where "cs2 = (case N of Some n \<Rightarrow> if cname n = je_name e
      then rename_ctr (cid n) (je_name e @ stagedSuffix) cs1 else cs1 | None \<Rightarrow> cs1)"
  note park = hoare_park_new [OF stop(1) e N_def r same, folded cs2_def]
  have new_id: "cid n \<noteq> cid c0" if "N = Some n" for n using N that c0(1) by auto
  have ids: "cid ` set cs2 = cid ` set cs"
  proof -
    have "cid ` set cs1 = cid ` set cs" using same(1) by (metis set_map)
    then show ?thesis by (auto simp: cs2_def ids_upd split: option.splits)
  qed
  have old2: "old \<in> set cs2"
    using old(1) new_id old(2) by (force simp: cs1_def cs2_def set_upd split: option.splits)
  have free2: "\<forall>c \<in> set cs2. cname c = cname c0 \<longrightarrow> cid c = cid c0"
  proof (intro ballI impI)
    fix c assume c: "c \<in> set cs2" "cname c = cname c0"
    show "cid c = cid c0"
    proof (rule ccontr)
      assume ne: "cid c \<noteq> cid c0"
      have src: "\<exists>d \<in> set cs. cid d = cid x \<and> cname d = cname x" if "x \<in> set cs1" for x
        using that by (auto simp: cs1_def set_upd split: option.splits if_splits)
      have hit: "N = Some d" if "d \<in> set cs" "cid d = cid c" "cname d = cname c" for d
        using at_entry_name [OF r e(1,2) that(1)] that(2,3) c(2) ne c0(2,3) by (simp add: N_def)
      have "je_name e @ stagedSuffix \<noteq> je_name e" by (simp add: stagedSuffix_def)
      show False
      proof (cases "\<exists>n. N = Some n \<and> cname n = je_name e")
        case True
        then obtain n where n: "N = Some n" "cname n = je_name e" by blast
        with c(1) obtain x where x: "x \<in> set cs1"
            "c = (if cid x = cid n then x\<lparr>cname := je_name e @ stagedSuffix\<rparr> else x)"
          by (auto simp: cs2_def set_upd)
        have "cid x \<noteq> cid n" using x(2) c(2) c0(3) \<open>je_name e @ stagedSuffix \<noteq> je_name e\<close> by auto
        with x src [OF x(1)] hit n(1) show False by auto
      next
        case False
        then have "cs2 = cs1" by (auto simp: cs2_def split: option.splits)
        with src [of c] c(1) obtain d where d: "d \<in> set cs" "cid d = cid c" "cname d = cname c" by blast
        from hit [OF d] d(3) c(2) c0(3) False show False by auto
      qed
    qed
  qed
  have occ: "check_occupant (in_project p cs) e N = io_ret ()"
  proof (cases "find_name (in_project p cs) (je_name e)")
    case None
    then show ?thesis by (simp add: check_occupant_def)
  next
    case (Some o')
    then have "o' \<in> set cs" "cname o' = je_name e" by (auto dest: find_name_SomeD)
    with at_entry_name [OF r e(1,2), of o'] Some show ?thesis by (auto simp: check_occupant_def N_def)
  qed
  define cs3 where "cs3 = (if cname old \<noteq> cname c0 then rename_ctr (cid c0) (cname c0) cs2 else cs2)"
  note restore = hoare_restore_old [OF park(1) c0(1,5) old2 old(2) refl free2, folded cs3_def]
  have ids3: "cid ` set cs3 = cid ` set cs" using ids by (simp add: cs3_def ids_upd)
  let ?P = "\<lambda>cs'. both p cs0 jd Ed j F k cs' \<and> c0 \<in> set cs' \<and> cid ` set cs' = cid ` set cs3 \<and>
      (\<forall>c \<in> set cs'. cname c = cname c0 \<longrightarrow> cid c = cid c0)"
  have restart: "hoare q (at cs3 k r) (restart_old e old) (\<lambda>_. ok_at k r ?P) ?E ?C"
    by (rule hoare_restart_old [OF restore(1) c0(1-4) restore(3) _ _ _ old(2) restore(4) e(1,2) quiet])
       (use old(2) in simp_all)
  have fin: "ok_at k r (\<lambda>cs. both p cs0 jd Ed j F k cs \<and> undone cs0 e cs) s"
    if "ok_at k r (\<lambda>cs. both p cs0 jd Ed j F k cs \<and> c0 \<in> set cs \<and>
        (\<forall>c \<in> set cs. cname c = cname c0 \<longrightarrow> cid c = cid c0)) s" for s
  proof -
    from that obtain cs' where cs': "at cs' k r s" "both p cs0 jd Ed j F k cs'" "c0 \<in> set cs'"
        "\<forall>c \<in> set cs'. cname c = cname c0 \<longrightarrow> cid c = cid c0"
      by (auto simp: ok_at_def)
    have "c1 = c0" if "c1 \<in> set cs0" "je_old_id e = cid c1" for c1
      using wf(2) c0(1,2) that by (auto dest: wf_ctrsD(1))
    then have "\<forall>c1 \<in> set cs0. je_old_id e = cid c1 \<longrightarrow> c1 \<in> set cs'" using cs'(3) by blast
    moreover have "\<forall>c \<in> set cs'. cname c = je_name e \<longrightarrow> cid c \<in> cid ` set cs0"
    proof (intro ballI impI)
      fix c assume "c \<in> set cs'" "cname c = je_name e"
      then have "cid c = cid c0" using cs'(4) c0(3) by metis
      then show "cid c \<in> cid ` set cs0" using c0(1) by (rule image_eqI)
    qed
    ultimately have "undone cs0 e cs'" unfolding undone_def using e(2) by simp
    with cs'(1,2) show ?thesis by (blast intro: ok_atI)
  qed
  have delete: "hoare q (ok_at k r ?P) (delete_new N)
      (\<lambda>_. ok_at k r (\<lambda>cs. both p cs0 jd Ed j F k cs \<and> undone cs0 e cs)) ?E ?C"
  proof (rule hoare_ok_at)
    fix cs4 assume cs4: "?P cs4"
    have "case N of Some n \<Rightarrow> cid n \<in> cid ` set cs4 \<and> cid n \<notin> cid ` set cs0 | None \<Rightarrow> True"
      using N cs4 ids3 by (auto split: option.splits)
    with cs4 c0(1) show "hoare q (at cs4 k r) (delete_new N)
        (\<lambda>_. ok_at k r (\<lambda>cs. both p cs0 jd Ed j F k cs \<and> undone cs0 e cs)) ?E ?C"
      by (intro hoare_post [OF hoare_delete_new [where E = ?E]] fin; blast)
  qed
  show ?thesis
    unfolding undoReplace_def
  proof (rule hoare_bind [where R = "\<lambda>l s. l = in_project p cs \<and> at cs k r s"])
    show "hoare q (at cs k r) (ListProjectContainers p) (\<lambda>l s. l = in_project p cs \<and> at cs k r s) ?E ?C"
      using b by (intro hoare_list) (auto intro: ok_atI)
    fix l
    show "hoare q (\<lambda>s. l = in_project p cs \<and> at cs k r s)
      (let newC = findNew l j p e in
       case find_id l (je_old_id e) of None \<Rightarrow> io_fail (old_gone e newC)
       | Some old \<Rightarrow> io_bind (stop_new newC) (\<lambda>_. io_bind (park_new l e newC) (\<lambda>_.
           io_bind (check_occupant l e newC) (\<lambda>_.
           io_bind (io_when (cname old \<noteq> je_name e) (RenameContainer (cid old) (je_name e))) (\<lambda>_.
           io_bind (restart_old e old) (\<lambda>_. delete_new newC))))))
      (\<lambda>_. ok_at k r (\<lambda>cs. both p cs0 jd Ed j F k cs \<and> undone cs0 e cs)) ?E ?C"
    proof (rule hoare_pure)
      assume l: "l = in_project p cs"
      show "hoare q (at cs k r)
        (let newC = findNew l j p e in
         case find_id l (je_old_id e) of None \<Rightarrow> io_fail (old_gone e newC)
         | Some old \<Rightarrow> io_bind (stop_new newC) (\<lambda>_. io_bind (park_new l e newC) (\<lambda>_.
             io_bind (check_occupant l e newC) (\<lambda>_.
             io_bind (io_when (cname old \<noteq> je_name e) (RenameContainer (cid old) (je_name e))) (\<lambda>_.
             io_bind (restart_old e old) (\<lambda>_. delete_new newC))))))
        (\<lambda>_. ok_at k r (\<lambda>cs. both p cs0 jd Ed j F k cs \<and> undone cs0 e cs)) ?E ?C"
        unfolding l old(3) option.case Let_def N_def [symmetric] occ
        by (rule hoare_bind [OF stop(2)], rule hoare_bind [OF park(2)], rule hoare_bind [OF hoare_ret],
            assumption, rule hoare_bind [OF restore(2) [folded old(2), unfolded c0(3)]],
            rule hoare_bind [OF restart delete])
    qed
  qed
qed

section \<open>Created and started containers\<close>

lemma remove_upd: "(\<And>c. cid (f c) = cid c) \<Longrightarrow> remove_ctr i (upd i f cs) = remove_ctr i cs"
  by (induction cs) (auto simp: upd_def)

lemma hoare_stop_and_remove:
  assumes b: "both p cs0 jd Ed j F k cs" and i: "cid c \<in> cid ` set cs" "cid c \<notin> cid ` set cs0"
  shows "hoare q (at cs k r) (stop_and_remove c) (\<lambda>_. at (remove_ctr (cid c) cs) k r)
     (\<lambda>_ s. \<not> q \<and> ok_at k r (both p cs0 jd Ed j F k) s) (ok_at k r (both p cs0 jd Ed j F k))"
    (is "hoare q _ _ _ ?E ?C")
proof -
  define cs1 where "cs1 = (if crunning c then stop_ctr (cid c) cs else cs)"
  have b1: "both p cs0 jd Ed j F k cs1" using both_stop_new [OF b i] b by (simp add: cs1_def)
  have i1: "cid c \<in> cid ` set cs1" using i(1) by (simp add: cs1_def ids_upd)
  have rm: "remove_ctr (cid c) cs1 = remove_ctr (cid c) cs" by (simp add: cs1_def remove_upd)
  have b2: "both p cs0 jd Ed j F k (remove_ctr (cid c) cs)" using b i(2) by (rule both_remove_new)
  have "hoare q (at cs k r) (io_when (crunning c) (StopContainer (cid c))) (\<lambda>_. at cs1 k r) ?E ?C"
  proof (rule hoare_when)
    assume run: "crunning c"
    with b1 have b1': "both p cs0 jd Ed j F k (stop_ctr (cid c) cs)" by (simp add: cs1_def)
    show "hoare q (at cs k r) (StopContainer (cid c)) (\<lambda>_. at cs1 k r) ?E ?C"
      using run by (intro hoare_stop i(1)) (auto intro: ok_atI b b1' simp: cs1_def)
  qed (simp add: cs1_def)
  moreover have "hoare q (at cs1 k r) (io_ignore_not_found (RemoveContainer (cid c)))
      (\<lambda>_. at (remove_ctr (cid c) cs) k r) ?E ?C"
    by (intro hoare_ignore_not_found hoare_remove i1) (auto simp: rm intro: ok_atI b1 b2)
  ultimately show ?thesis unfolding stop_and_remove_def by (rule hoare_bind)
qed

text \<open>The container a \<open>create\<close> entry is about, as \<^verbatim>\<open>undoCreate\<close> looks for it.\<close>

definition created_target :: "ctr list \<Rightarrow> string \<Rightarrow> journal \<Rightarrow> journal_entry \<Rightarrow> ctr option" where
  "created_target cs p j e =
     (if je_new_id e \<noteq> '''' then find_id cs (je_new_id e)
      else (case find_name cs (je_name e) of
              Some c \<Rightarrow> if owns j (clabels c) p then Some c else None
            | None \<Rightarrow> None))"

lemma created_at_name:
  assumes r: "recoverable p cs0 j E cs k" and e: "e \<in> E" "je_kind e = ''create''"
    and c: "c \<in> set cs" "cname c = je_name e"
  shows "cid c \<notin> cid ` set cs0" "created_target (in_project p cs) p j e = Some c"
proof -
  have wf: "wf_ctrs cs" using r by (simp add: recoverable_def)
  have a: "entry_about p cs0 e" using recoverable_entry [OF r e(1)] .
  then have can: "canonical_name (cname c)" and no: "je_name e \<notin> cname ` set cs0"
    using c e(2) by (auto simp: entry_about_def)
  from recoverable_at_canonical [OF r c(1) can] no c(2)
  obtain e' where e': "cid c \<notin> cid ` set cs0" "mine p c" "e' \<in> E" "cname c = je_name e'"
      "je_kind e' = ''replace'' \<and> je_new_id e' = cid c \<or>
       je_kind e' = ''create'' \<and> owns j (clabels c) p \<and> je_new_id e' \<in> {'''', cid c}"
    by force
  then show "cid c \<notin> cid ` set cs0" by simp
  have "e' = e" using recoverable_name_inj [OF r e'(3) e(1)] e'(4) c(2) by simp
  with e'(5) e(2) have "owns j (clabels c) p" "je_new_id e \<in> {'''', cid c}" by auto
  moreover have "find_id (in_project p cs) (cid c) = Some c"
      "find_name (in_project p cs) (je_name e) = Some c"
    using e'(2) c wf by (auto simp: wf_find_id wf_find_name wf_filter mine_def)
  ultimately show "created_target (in_project p cs) p j e = Some c"
    by (auto simp: created_target_def)
qed

lemma created_target_new:
  assumes r: "recoverable p cs0 j E cs k" and e: "e \<in> E" "je_kind e = ''create''"
    and t: "created_target (in_project p cs) p j e = Some c"
  shows "c \<in> set cs" "cid c \<notin> cid ` set cs0"
proof -
  show mem: "c \<in> set cs"
    using t by (auto simp: created_target_def split: if_splits option.splits
        dest!: find_id_SomeD find_name_SomeD)
  show "cid c \<notin> cid ` set cs0"
  proof (cases "je_new_id e = ''''")
    case True
    with t have "cname c = je_name e"
      by (auto simp: created_target_def split: if_splits option.splits dest!: find_name_SomeD)
    with created_at_name(1) [OF r e mem] show ?thesis by simp
  next
    case False
    with t have "cid c = je_new_id e" by (auto simp: created_target_def dest: find_id_SomeD)
    with recoverable_entry [OF r e(1)] show ?thesis by (simp add: entry_about_def)
  qed
qed

lemma hoare_undoCreate:
  assumes b: "both p cs0 jd Ed j F k cs" and e: "e \<in> F" "je_kind e = ''create''"
  shows "hoare q (at cs k r) (undoCreate p j e)
     (\<lambda>_. ok_at k r (\<lambda>cs. both p cs0 jd Ed j F k cs \<and> undone cs0 e cs))
     (\<lambda>_ s. \<not> q \<and> ok_at k r (both p cs0 jd Ed j F k) s) (ok_at k r (both p cs0 jd Ed j F k))"
    (is "hoare q _ _ ?Q ?E ?C")
proof -
  have r: "recoverable p cs0 j F cs k" using b by (simp add: both_def)
  let ?T = "created_target (in_project p cs) p j e"
  have body: "hoare q (at cs k r) (case ?T of None \<Rightarrow> io_ret () | Some t \<Rightarrow> stop_and_remove t) ?Q ?E ?C"
  proof (cases ?T)
    case None
    have "undone cs0 e cs"
      using created_at_name(2) [OF r e] None e(2) by (auto simp: undone_def)
    with b show ?thesis unfolding None option.case by (intro hoare_ret_at conjI)
  next
    case (Some t)
    note t = created_target_new [OF r e Some]
    have "undone cs0 e (remove_ctr (cid t) cs)"
      using created_at_name(2) [OF r e] Some e(2) by (auto simp: undone_def)
    moreover have "both p cs0 jd Ed j F k (remove_ctr (cid t) cs)" using b t(2) by (rule both_remove_new)
    ultimately show ?thesis
      unfolding Some option.case using t(1)
      by (intro hoare_post [OF hoare_stop_and_remove [OF b _ t(2)]]) (auto intro: ok_atI)
  qed
  have "hoare q (at cs k r) (ListProjectContainers p) (\<lambda>l s. l = in_project p cs \<and> at cs k r s) ?E ?C"
    using b by (intro hoare_list) (auto intro: ok_atI)
  then show ?thesis
    unfolding undoCreate_def
    by (rule hoare_bind) (rule hoare_pure, use body in \<open>simp add: created_target_def\<close>)
qed

lemma hoare_undoStart:
  assumes b: "both p cs0 jd Ed j F k cs" and e: "e \<in> F" "je_kind e = ''start''"
  shows "hoare q (at cs k r) (undoStart p e)
     (\<lambda>_. ok_at k r (\<lambda>cs. both p cs0 jd Ed j F k cs \<and> undone cs0 e cs))
     (\<lambda>_ s. \<not> q \<and> ok_at k r (both p cs0 jd Ed j F k) s) (ok_at k r (both p cs0 jd Ed j F k))"
    (is "hoare q _ _ ?Q ?E ?C")
proof -
  have r: "recoverable p cs0 j F cs k" using b by (simp add: both_def)
  then have wf: "wf_ctrs cs" "wf_ctrs cs0" by (simp_all add: recoverable_def)
  have a: "entry_about p cs0 e" using recoverable_entry [OF r e(1)] .
  then obtain c0 where c0: "c0 \<in> set cs0" "cid c0 = je_id e" "cname c0 = je_name e" "\<not> crunning c0"
      "label (clabels c0) ProjectLabel = p" "canonical_name (je_name e)"
    using e(2) by (auto simp: entry_about_def mine_def)
  obtain c where c: "c \<in> set cs" "moved F c0 c" "cid c = cid c0"
    using recoverable_old [OF r c0(1)] by blast
  have same_id: "c1 = c0" if "c1 \<in> set cs0" "cid c1 = cid c0" for c1
    using wf(2) c0(1) that by (auto dest: wf_ctrsD(1))
  have other: "False" if "e' \<in> F" "je_kind e' \<noteq> ''start''" "je_name e' = je_name e" for e'
    using recoverable_name_inj [OF r that(1) e(1) that(3)] that(2) e(2) by simp
  have name: "cname c = cname c0"
  proof -
    have False if e': "e' \<in> F" "je_kind e' = ''replace''" "je_old_id e' = cid c0" for e'
    proof -
      from recoverable_entry [OF r e'(1)] e'(2,3) obtain c1 where
        c1: "c1 \<in> set cs0" "cid c1 = cid c0" "cname c1 = je_name e'" by (auto simp: entry_about_def)
      from same_id [OF c1(1,2)] c1(3) c0(3) have "je_name e' = je_name e" by simp
      with other [OF e'(1)] e'(2) show False by simp
    qed
    with c(2) show ?thesis by (auto simp: moved_def)
  qed
  have find: "find_id (in_project p cs) (je_id e) = Some c"
    using wf(1) c c0 moved_same [OF c(2)] by (simp add: wf_find_id wf_filter)
  have at_name: "cid d \<in> cid ` set cs0" if d: "d \<in> set cs" "cname d = je_name e" for d
  proof (rule ccontr)
    assume no: "cid d \<notin> cid ` set cs0"
    have "canonical_name (cname d)" using d(2) c0(6) by simp
    from recoverable_at_canonical [OF r d(1) this] no obtain e' where
      e': "e' \<in> F" "cname d = je_name e'" "je_kind e' = ''replace'' \<or> je_kind e' = ''create''" by auto
    from e'(3) have "je_kind e' \<noteq> ''start''" by auto
    with other [OF e'(1)] e'(2) d(2) show False by simp
  qed
  have undone: "undone cs0 e cs'" if "c0 \<in> set cs'" "\<forall>d \<in> set cs'. \<exists>d' \<in> set cs. cid d' = cid d \<and> cname d' = cname d"
    for cs'
    unfolding undone_def
  proof (intro conjI ballI impI)
    fix c1 assume "c1 \<in> set cs0" "je_kind e = ''replace'' \<and> je_old_id e = cid c1 \<or>
        je_kind e = ''start'' \<and> je_id e = cid c1"
    with e(2) c0(2) same_id that(1) show "c1 \<in> set cs'" by auto
  next
    fix d assume "d \<in> set cs'" "cname d = je_name e"
    with that(2) at_name show "cid d \<in> cid ` set cs0" by metis
  qed
  have stopped: "both p cs0 jd Ed j F k (stop_ctr (cid c0) cs)" "c0 \<in> set (stop_ctr (cid c0) cs)"
  proof -
    show "both p cs0 jd Ed j F k (stop_ctr (cid c0) cs)"
      using b recoverable_restore_run [OF _ c(1,3) c0(1) name, where b = False] c0(4)
      by (simp add: both_def)
    have "c\<lparr>crunning := False\<rparr> = c0"
      using c(2) name c0(4) by (intro same_ctr_eq) (simp_all add: moved_def)
    with c(1,3) show "c0 \<in> set (stop_ctr (cid c0) cs)" by (force simp: set_upd)
  qed
  have body: "hoare q (at cs k r)
      (if \<not> crunning c then io_ret () else StopContainer (cid c)) ?Q ?E ?C"
  proof (cases "crunning c")
    case True
    have "undone cs0 e (stop_ctr (cid c0) cs)"
      by (rule undone [OF stopped(2)]) (force simp: set_upd)
    moreover have "cid c0 \<in> cid ` set cs" using c(1,3) by (metis image_eqI)
    ultimately show ?thesis
      using stopped(1) b True by (simp add: c(3)) (intro hoare_stop, auto intro: ok_atI)
  next
    case False
    then have "c = c0" using c(2) name c0(4) by (intro same_ctr_eq) (simp_all add: moved_def)
    with c(1) have "undone cs0 e cs" by (intro undone) auto
    with b False show ?thesis by (simp add: hoare_ret_at)
  qed
  have "hoare q (at cs k r) (ListProjectContainers p) (\<lambda>l s. l = in_project p cs \<and> at cs k r s) ?E ?C"
    using b by (intro hoare_list) (auto intro: ok_atI)
  then show ?thesis
    unfolding undoStart_def
    by (rule hoare_bind) (rule hoare_pure, use body find in simp)
qed

section \<open>Undoing a journal\<close>

lemma entry_kinds:
  "entry_about p cs0 e \<Longrightarrow> je_kind e = ''replace'' \<or> je_kind e = ''create'' \<or> je_kind e = ''start''"
  by (auto simp: entry_about_def)

lemma hoare_undo_entry:
  assumes b: "both p cs0 jd Ed j F k cs" and e: "e \<in> F" "agree Ed e" and quiet: "q \<Longrightarrow> stays cs0 r"
  shows "hoare q (at cs k r) (undo_entry p j e)
     (\<lambda>_. ok_at k r (both p cs0 jd Ed j (F - {e}) k))
     (\<lambda>_ s. \<not> q \<and> ok_at k r (both p cs0 jd Ed j F k) s) (ok_at k r (both p cs0 jd Ed j F k))"
proof (rule hoare_post)
  have "je_kind e = ''replace'' \<or> je_kind e = ''create'' \<or> je_kind e = ''start''"
    using b recoverable_entry [of p cs0 j F cs k e] e(1) by (simp add: both_def entry_kinds)
  then show "hoare q (at cs k r) (undo_entry p j e)
     (\<lambda>_. ok_at k r (\<lambda>cs. both p cs0 jd Ed j F k cs \<and> undone cs0 e cs))
     (\<lambda>_ s. \<not> q \<and> ok_at k r (both p cs0 jd Ed j F k) s) (ok_at k r (both p cs0 jd Ed j F k))"
    using hoare_undoReplace [OF b e(1) _ e(2) quiet] hoare_undoCreate [OF b e(1)] hoare_undoStart [OF b e(1)]
    by (auto simp: undo_entry_def)
  show "ok_at k r (both p cs0 jd Ed j (F - {e}) k) s"
    if "ok_at k r (\<lambda>cs. both p cs0 jd Ed j F k cs \<and> undone cs0 e cs) s" for s
    using that by (auto simp: ok_at_def both_def intro: recoverable_undone)
qed

abbreviation safe_at :: "string \<Rightarrow> ctr list \<Rightarrow> journal \<Rightarrow> journal_entry set \<Rightarrow> nat \<Rightarrow> rest \<Rightarrow> sys \<Rightarrow> bool" where
  "safe_at p cs0 jd Ed k r \<equiv> ok_at k r (\<lambda>cs. recoverable p cs0 jd Ed cs k)"

lemma both_safe: "ok_at k r (both p cs0 jd Ed j F k) s \<Longrightarrow> safe_at p cs0 jd Ed k r s"
  by (auto simp: ok_at_def both_def)

lemma hoare_undo_loop:
  assumes "distinct es" "set es \<subseteq> F" "\<forall>e \<in> F. agree Ed e" "q \<Longrightarrow> stays cs0 r"
  shows "hoare q (ok_at k r (both p cs0 jd Ed j F k)) (undo_loop p j es errs)
     (\<lambda>errs' s. safe_at p cs0 jd Ed k r s \<and> (q \<and> errs = [] \<longrightarrow> errs' = []) \<and>
        (errs' = [] \<longrightarrow> errs = [] \<and> ok_at k r (both p cs0 jd Ed j (F - set es) k) s))
     E (safe_at p cs0 jd Ed k r)"
  using assms
proof (induction es arbitrary: F errs)
  case Nil
  then show ?case by (auto intro!: hoare_ret both_safe)
next
  case (Cons e es)
  let ?R = "\<lambda>r' s. case r' of
      Inl _ \<Rightarrow> \<not> q \<and> ok_at k r (both p cs0 jd Ed j F k) s
    | Inr _ \<Rightarrow> ok_at k r (both p cs0 jd Ed j (F - {e}) k) s"
  have e: "e \<in> F" "agree Ed e" using Cons.prems(2,3) by auto
  have step: "hoare q (ok_at k r (both p cs0 jd Ed j F k)) (io_try (undo_entry p j e)) ?R E
      (safe_at p cs0 jd Ed k r)"
  proof (rule hoare_try, rule hoare_ok_at)
    fix cs assume b: "both p cs0 jd Ed j F k cs"
    show "hoare q (at cs k r) (undo_entry p j e) (\<lambda>x. ?R (Inr x)) (\<lambda>e. ?R (Inl e)) (safe_at p cs0 jd Ed k r)"
      by (rule hoare_post [OF hoare_undo_entry [OF b e Cons.prems(4)]]) (auto intro: both_safe)
  qed
  show ?case
    unfolding undo_loop.simps
  proof (rule hoare_bind [OF step])
    fix r' :: "error + unit"
    show "hoare q (?R r')
      (case r' of
         Inl err \<Rightarrow> undo_loop p j es (errs @ [Wrapped ''undo %s %s: %w'' [je_kind e, je_name e] err])
       | Inr _ \<Rightarrow> undo_loop p j es errs)
      (\<lambda>errs' s. safe_at p cs0 jd Ed k r s \<and> (q \<and> errs = [] \<longrightarrow> errs' = []) \<and>
        (errs' = [] \<longrightarrow> errs = [] \<and> ok_at k r (both p cs0 jd Ed j (F - set (e # es)) k) s))
      E (safe_at p cs0 jd Ed k r)"
    proof (cases r')
      case (Inl err)
      have "hoare q (ok_at k r (both p cs0 jd Ed j F k))
          (undo_loop p j es (errs @ [Wrapped ''undo %s %s: %w'' [je_kind e, je_name e] err]))
          (\<lambda>errs' s. safe_at p cs0 jd Ed k r s \<and> errs' \<noteq> []) E (safe_at p cs0 jd Ed k r)"
        by (rule hoare_post [OF Cons.IH]) (use Cons.prems in auto)
      then show ?thesis
        unfolding Inl sum.case by (intro hoare_pure) (auto elim!: hoare_post)
    next
      case (Inr u)
      have "F - {e} - set es = F - set (e # es)" by auto
      then show ?thesis
        using Cons.IH [of "F - {e}" errs] Cons.prems unfolding Inr sum.case by auto
    qed
  qed
qed

text \<open>\<^verbatim>\<open>undo\<close>: without an error everything is as it was, up to debris.\<close>

lemma hoare_undo:
  assumes "distinct (j_entries j)" "\<forall>e \<in> set (j_entries j). agree Ed e" "q \<Longrightarrow> stays cs0 r"
  shows "hoare q (ok_at k r (both p cs0 jd Ed j (set (j_entries j)) k)) (undo p j)
     (\<lambda>_ s. safe_at p cs0 jd Ed k r s \<and> safe_at p cs0 j {} k r s)
     (\<lambda>_ s. \<not> q \<and> safe_at p cs0 jd Ed k r s) (safe_at p cs0 jd Ed k r)"
  unfolding undo_def
proof (rule hoare_bind)
  show "hoare q (ok_at k r (both p cs0 jd Ed j (set (j_entries j)) k)) (undo_loop p j (rev (j_entries j)) [])
     (\<lambda>errs' s. safe_at p cs0 jd Ed k r s \<and> (q \<and> [] = ([] :: error list) \<longrightarrow> errs' = []) \<and>
        (errs' = [] \<longrightarrow> [] = ([] :: error list) \<and>
           ok_at k r (both p cs0 jd Ed j (set (j_entries j) - set (rev (j_entries j))) k) s))
     (\<lambda>_ s. \<not> q \<and> safe_at p cs0 jd Ed k r s) (safe_at p cs0 jd Ed k r)"
    by (rule hoare_undo_loop) (use assms in auto)
  fix errs :: "error list"
  show "hoare q
     (\<lambda>s. safe_at p cs0 jd Ed k r s \<and> (q \<and> [] = ([] :: error list) \<longrightarrow> errs = []) \<and>
        (errs = [] \<longrightarrow> [] = ([] :: error list) \<and>
           ok_at k r (both p cs0 jd Ed j (set (j_entries j) - set (rev (j_entries j))) k) s))
     (if errs = [] then io_ret () else io_fail (Joined errs))
     (\<lambda>_ s. safe_at p cs0 jd Ed k r s \<and> safe_at p cs0 j {} k r s)
     (\<lambda>_ s. \<not> q \<and> safe_at p cs0 jd Ed k r s) (safe_at p cs0 jd Ed k r)"
    by (cases "errs = []") (auto intro!: hoare_ret hoare_fail simp: ok_at_def both_def)
qed

end
