(* ===== verification/Sweep.thy ===== *)
theory Sweep
  imports Undo
begin

text \<open>
  \<^verbatim>\<open>sweep\<close>, \<^verbatim>\<open>clearDebris\<close> and \<^verbatim>\<open>rollback\<close>: what a crash or a failure leaves behind is a
  recoverable state of the machine (\<open>recoverable_state\<close>), and recovery from it can be repeated
  until it succeeds. A recovery without faults restores the old containers exactly.
\<close>

section \<open>Recoverable states of the machine\<close>

definition recoverable_state :: "string \<Rightarrow> ctr list \<Rightarrow> sys \<Rightarrow> bool" where
  "recoverable_state p cs0 s =
     (case jfiles s p of
        None \<Rightarrow> recoverable p cs0 (tx_j s) {} (conts (wd s)) (next_id (wd s))
      | Some (Unreadable _) \<Rightarrow> False
      | Some (Document j) \<Rightarrow> journal_ok j \<and> distinct (j_entries j) \<and>
          recoverable p cs0 j (set (j_entries j)) (conts (wd s)) (next_id (wd s)))"

lemma recoverable_empty: "recoverable p cs0 j {} cs k = recoverable p cs0 j' {} cs k"
  by (simp add: recoverable_def own_new_def)

lemma recoverable_state_None:
  "safe_at p cs0 j {} k (d, t, w, se) s \<Longrightarrow> d p = None \<Longrightarrow> recoverable_state p cs0 s"
  using recoverable_empty [of p cs0 j _ k "tx_j s"]
  by (auto simp: recoverable_state_def ok_at_def at_def rest_of_def)

lemma recoverable_state_Some:
  "safe_at p cs0 j (set (j_entries j)) k (d, t, w, se) s \<Longrightarrow> d p = Some (Document j) \<Longrightarrow> journal_ok j \<Longrightarrow>
     distinct (j_entries j) \<Longrightarrow> recoverable_state p cs0 s"
  by (auto simp: recoverable_state_def ok_at_def at_def rest_of_def)

section \<open>Files\<close>

lemma hoare_update_files:
  assumes "\<And>s. at cs k (g d, t, w, se) s \<Longrightarrow> Q () s"
    and "\<And>e s. \<not> q \<Longrightarrow> at cs k (d, t, w, se) s \<Longrightarrow> E e s"
    and "\<And>e s. \<not> q \<Longrightarrow> at cs k (g d, t, w, se) s \<Longrightarrow> E e s"
    and "\<And>s. at cs k (d, t, w, se) s \<Longrightarrow> C s"
  shows "hoare q (at cs k (d, t, w, se)) (fs_update (jfiles_update g)) Q E C"
proof (rule hoare_fs_update)
  fix s assume "at cs k (d, t, w, se) s"
  then have s: "at cs k (g d, t, w, se) (jfiles_update g s)" by (simp add: at_def rest_of_def)
  then show "Q () (jfiles_update g s)" by (rule assms(1))
  show "E e s \<and> E e (jfiles_update g s)" if "\<not> q" for e
    using assms(2,3) that s \<open>at cs k (d, t, w, se) s\<close> by blast
qed (use assms(4) in simp_all)

lemma hoare_idle_call:
  assumes "\<And>s. P s \<Longrightarrow> Q () s" "\<And>e s. \<not> q \<Longrightarrow> P s \<Longrightarrow> E e s" "\<And>s. P s \<Longrightarrow> C s"
  shows "hoare q P (fs_query (\<lambda>_. ())) Q E C"
  by (rule hoare_fs_query) (use assms in auto)

lemma hoare_deleteJournal:
  assumes "\<And>s. at cs k (d(p := None), t, w, se) s \<Longrightarrow> Q () s"
    and "\<And>e s. \<not> q \<Longrightarrow> at cs k (d, t, w, se) s \<or> at cs k (d(p := None), t, w, se) s \<Longrightarrow> E e s"
    and "\<And>s. at cs k (d, t, w, se) s \<or> at cs k (d(p := None), t, w, se) s \<Longrightarrow> C s"
  shows "hoare q (at cs k (d, t, w, se)) (deleteJournal p) Q E C"
  unfolding deleteJournal_def
  by (rule hoare_bind [where R = "\<lambda>_. at cs k (d(p := None), t, w, se)"])
     (use assms in \<open>auto intro!: hoare_update_files hoare_idle_call\<close>)

lemma at_temps: "at cs k r (s\<lparr>jtemps := ts\<rparr>) = at cs k r s"
  by (simp add: at_def rest_of_def)

lemma hoare_sweepTempFiles:
  assumes "\<And>s. at cs k r s \<Longrightarrow> C s"
  shows "hoare q (at cs k r) (sweepTempFiles p) (\<lambda>_. at cs k r) E C"
proof -
  have rm: "hoare q (at cs k r)
      (io_bind (io_try (fs_update (jtemps_update (filter (\<lambda>f. f \<noteq> e))))) (\<lambda>_. io_ret ())) (\<lambda>_. at cs k r) E C"
    for e
    by (intro hoare_bind [where R = "\<lambda>_. at cs k r"] hoare_try hoare_fs_update hoare_ret)
       (use assms in \<open>auto simp: at_def rest_of_def\<close>)
  have lst: "hoare q (at cs k r) (io_try (fs_query jtemps)) (\<lambda>_. at cs k r) E C"
    by (intro hoare_try hoare_fs_query) (use assms in auto)
  have "hoare q (at cs k r)
      (case x of Inl _ \<Rightarrow> io_ret ()
       | Inr entries \<Rightarrow> io_each (\<lambda>e. io_when (length e > n \<and> take n e = pre)
           (io_bind (io_try (fs_update (jtemps_update (filter (\<lambda>f. f \<noteq> e))))) (\<lambda>_. io_ret ()))) entries)
      (\<lambda>_. at cs k r) E C" for x :: "error + string list" and n pre
    by (cases x) (auto intro!: hoare_ret hoare_each hoare_when rm)
  then show ?thesis
    unfolding sweepTempFiles_def Let_def by (intro hoare_bind [OF lst])
qed

section \<open>Debris\<close>

lemma hoare_clear_loop:
  assumes "both p cs0 jd Ed j F k cs" "set xs \<subseteq> set cs" "distinct (map cid xs)"
    "\<forall>x \<in> set xs. is_debris x \<longrightarrow> cid x \<notin> cid ` set cs0"
  shows "hoare q (at cs k r) (io_each (\<lambda>c. io_when (is_debris c) (stop_and_remove c)) xs)
     (\<lambda>_. ok_at k r (\<lambda>cs'. both p cs0 jd Ed j F k cs' \<and> set cs' \<subseteq> set cs \<and>
        (\<forall>x \<in> set xs. is_debris x \<longrightarrow> x \<notin> set cs')))
     (\<lambda>_ s. \<not> q \<and> ok_at k r (both p cs0 jd Ed j F k) s) (ok_at k r (both p cs0 jd Ed j F k))"
  using assms
proof (induction xs arbitrary: cs)
  case Nil
  then show ?case by (auto intro!: hoare_ret intro: ok_atI)
next
  case (Cons x xs)
  let ?E = "\<lambda>_ s. \<not> q \<and> ok_at k r (both p cs0 jd Ed j F k) s" and ?C = "ok_at k r (both p cs0 jd Ed j F k)"
  define cs1 where "cs1 = (if is_debris x then remove_ctr (cid x) cs else cs)"
  have b1: "both p cs0 jd Ed j F k cs1"
    using Cons.prems(1,4) by (auto simp: cs1_def intro: both_remove_new)
  have head: "hoare q (at cs k r) (io_when (is_debris x) (stop_and_remove x)) (\<lambda>_. at cs1 k r) ?E ?C"
  proof (rule hoare_when)
    assume "is_debris x"
    then show "hoare q (at cs k r) (stop_and_remove x) (\<lambda>_. at cs1 k r) ?E ?C"
      using hoare_stop_and_remove [OF Cons.prems(1), of x] Cons.prems(2,4) by (auto simp: cs1_def)
  qed (simp add: cs1_def)
  have "cid y \<noteq> cid x" if "y \<in> set xs" for y using Cons.prems(3) that by (metis distinct.simps(2) image_eqI list.simps(9) set_map)
  with Cons.prems(2) have sub: "set xs \<subseteq> set cs1" by (auto simp: cs1_def)
  have gone: "is_debris x \<longrightarrow> x \<notin> set cs1" by (simp add: cs1_def)
  have cs1: "set cs1 \<subseteq> set cs" by (auto simp: cs1_def)
  have "hoare q (at cs1 k r) (io_each (\<lambda>c. io_when (is_debris c) (stop_and_remove c)) xs)
     (\<lambda>_. ok_at k r (\<lambda>cs'. both p cs0 jd Ed j F k cs' \<and> set cs' \<subseteq> set cs \<and>
        (\<forall>x' \<in> set (x # xs). is_debris x' \<longrightarrow> x' \<notin> set cs'))) ?E ?C"
  proof (rule hoare_post [OF Cons.IH [OF b1 sub]])
    fix s assume "ok_at k r (\<lambda>cs'. both p cs0 jd Ed j F k cs' \<and> set cs' \<subseteq> set cs1 \<and>
        (\<forall>x \<in> set xs. is_debris x \<longrightarrow> x \<notin> set cs')) s"
    then obtain cs' where cs': "at cs' k r s" "both p cs0 jd Ed j F k cs'" "set cs' \<subseteq> set cs1"
        "\<forall>x \<in> set xs. is_debris x \<longrightarrow> x \<notin> set cs'" by (auto simp: ok_at_def)
    moreover have "set cs' \<subseteq> set cs" using cs'(3) cs1 by (rule order.trans)
    moreover have "is_debris x \<longrightarrow> x \<notin> set cs'" using gone cs'(3) by blast
    ultimately show "ok_at k r (\<lambda>cs'. both p cs0 jd Ed j F k cs' \<and> set cs' \<subseteq> set cs \<and>
        (\<forall>x' \<in> set (x # xs). is_debris x' \<longrightarrow> x' \<notin> set cs')) s"
      by (intro ok_atI) auto
  qed (use Cons.prems in auto)
  with head show ?case unfolding io_each.simps by (rule hoare_bind)
qed

lemma hoare_clearDebris:
  assumes r: "recoverable p cs0 j {} cs k"
  shows "hoare q (at cs k r) (clearDebris p)
     (\<lambda>_. ok_at k r (\<lambda>cs. recoverable p cs0 j {} cs k \<and> set cs = set cs0))
     (\<lambda>_ s. \<not> q \<and> safe_at p cs0 j {} k r s) (safe_at p cs0 j {} k r)"
    (is "hoare q _ _ ?Q ?E ?C")
proof -
  have b: "both p cs0 j {} j {} k cs" using r by (simp add: both_def)
  have wf: "wf_ctrs cs" using r by (simp add: recoverable_def)
  have new: "cid x \<notin> cid ` set cs0" if "x \<in> set (in_project p cs)" "is_debris x" for x
  proof
    assume "cid x \<in> cid ` set cs0"
    then obtain c0 where c0: "c0 \<in> set cs0" "cid x = cid c0" by auto
    with recoverable_no_entries(1) [OF r] wf that have "x = c0" by (auto dest: wf_ctrsD(1))
    with that have "debris p c0" by (simp add: debris_def mine_def is_debris_def)
    with r c0(1) show False by (simp add: recoverable_def)
  qed
  have loop: "hoare q (at cs k r)
      (io_each (\<lambda>c. io_when (is_debris c) (stop_and_remove c)) (in_project p cs)) ?Q ?E ?C"
  proof (rule hoare_post [OF hoare_clear_loop [OF b]])
    show "distinct (map cid (in_project p cs))" using wf by (simp add: wf_ctrs_def distinct_map_filter)
    show "\<forall>x \<in> set (in_project p cs). is_debris x \<longrightarrow> cid x \<notin> cid ` set cs0" using new by blast
    fix s assume "ok_at k r (\<lambda>cs'. both p cs0 j {} j {} k cs' \<and> set cs' \<subseteq> set cs \<and>
        (\<forall>x \<in> set (in_project p cs). is_debris x \<longrightarrow> x \<notin> set cs')) s"
    then obtain cs' where cs': "at cs' k r s" "recoverable p cs0 j {} cs' k" "set cs' \<subseteq> set cs"
        "\<forall>x \<in> set (in_project p cs). is_debris x \<longrightarrow> x \<notin> set cs'"
      by (auto simp: ok_at_def both_def)
    have "c \<in> set cs0" if c: "c \<in> set cs'" for c
    proof (rule ccontr)
      assume "c \<notin> set cs0"
      with recoverable_no_entries(2) [OF cs'(2) c] have "debris p c" by simp
      with cs'(3,4) c show False by (auto simp: debris_def mine_def)
    qed
    with recoverable_no_entries(1) [OF cs'(2)] have "set cs' = set cs0" by blast
    with cs'(1,2) show "?Q () s" by (auto intro: ok_atI)
  qed (auto simp: ok_at_def both_def)
  have "hoare q (at cs k r) (ListProjectContainers p) (\<lambda>l s. l = in_project p cs \<and> at cs k r s) ?E ?C"
    using r by (intro hoare_list) (auto intro: ok_atI)
  then show ?thesis
    unfolding clearDebris_def by (rule hoare_bind) (rule hoare_pure, use loop in simp)
qed

section \<open>Recovery as a whole\<close>

text \<open>\<open>recov\<close> also fixes which containers the daemon lets exit at start.\<close>

definition recov :: "string \<Rightarrow> ctr list \<Rightarrow> (string \<Rightarrow> bool) \<Rightarrow> sys \<Rightarrow> bool" where
  "recov p cs0 se s = (recoverable_state p cs0 s \<and> start_exits (wd s) = se)"

definition recovered :: "string \<Rightarrow> ctr list \<Rightarrow> (string \<Rightarrow> bool) \<Rightarrow> sys \<Rightarrow> bool" where
  "recovered p cs0 se s = (recov p cs0 se s \<and> jfiles s p = None \<and> set (conts (wd s)) = set cs0)"

definition restartable :: "ctr list \<Rightarrow> (string \<Rightarrow> bool) \<Rightarrow> bool" where
  "restartable cs0 se = list_all (\<lambda>c. crunning c \<longrightarrow> \<not> se (cid c)) cs0"

lemma restartable_stays: "restartable cs0 se \<Longrightarrow> stays cs0 (d, t, w, se)"
  by (simp add: restartable_def stays_def list_all_iff)

lemma at_recov_None:
  "at cs k (d, t, w, se) s \<Longrightarrow> recoverable p cs0 j {} cs k \<Longrightarrow> d p = None \<Longrightarrow> recov p cs0 se s"
  using recoverable_state_None [of k d t w se p cs0 j s]
  by (auto simp: recov_def intro: ok_atI) (simp add: at_def rest_of_def)

lemma at_recov_Some:
  "at cs k (d, t, w, se) s \<Longrightarrow> recoverable p cs0 j (set (j_entries j)) cs k \<Longrightarrow>
     d p = Some (Document j) \<Longrightarrow> journal_ok j \<Longrightarrow> distinct (j_entries j) \<Longrightarrow> recov p cs0 se s"
  using recoverable_state_Some [of k d t w se p cs0 j s]
  by (auto simp: recov_def intro: ok_atI) (simp add: at_def rest_of_def)

lemma safe_recov_None: "safe_at p cs0 j {} k (d, t, w, se) s \<Longrightarrow> d p = None \<Longrightarrow> recov p cs0 se s"
  by (auto simp: ok_at_def intro: at_recov_None)

lemma safe_recov_Some:
  "safe_at p cs0 j (set (j_entries j)) k (d, t, w, se) s \<Longrightarrow> d p = Some (Document j) \<Longrightarrow>
     journal_ok j \<Longrightarrow> distinct (j_entries j) \<Longrightarrow> recov p cs0 se s"
  by (auto simp: ok_at_def intro: at_recov_Some)

lemma hoare_sweep_debris:
  assumes "d p = None"
  shows "hoare q (safe_at p cs0 j {} k (d, t, w, se))
     (io_bind (clearDebris p) (\<lambda>_. sweepTempFiles p))
     (\<lambda>_. recovered p cs0 se) (\<lambda>_ s. \<not> q \<and> recov p cs0 se s) (recov p cs0 se)"
proof (rule hoare_ok_at)
  fix cs assume r: "recoverable p cs0 j {} cs k"
  have fin: "recovered p cs0 se s"
    if "at cs' k (d, t, w, se) s" "recoverable p cs0 j {} cs' k" "set cs' = set cs0" for cs' s
    using that assms at_recov_None [of cs' k d t w se s p cs0 j]
    by (auto simp: recovered_def at_def rest_of_def)
  have "hoare q (ok_at k (d, t, w, se) (\<lambda>cs. recoverable p cs0 j {} cs k \<and> set cs = set cs0))
      (sweepTempFiles p) (\<lambda>_. recovered p cs0 se) (\<lambda>_ s. \<not> q \<and> recov p cs0 se s) (recov p cs0 se)"
    by (rule hoare_ok_at, rule hoare_post [OF hoare_sweepTempFiles])
       (use fin in \<open>auto simp: recovered_def\<close>)
  then show "hoare q (at cs k (d, t, w, se)) (io_bind (clearDebris p) (\<lambda>_. sweepTempFiles p))
      (\<lambda>_. recovered p cs0 se) (\<lambda>_ s. \<not> q \<and> recov p cs0 se s) (recov p cs0 se)"
    by (rule hoare_bind [OF hoare_post [OF hoare_clearDebris [OF r]], rotated 3])
       (use assms safe_recov_None in auto)
qed

lemma hoare_readJournal:
  assumes "\<And>path. loadJournal path (d p) = Inr jo"
    and "\<And>s. at cs k (d, t, w, se) s \<Longrightarrow> Q jo s" "\<And>e s. \<not> q \<Longrightarrow> at cs k (d, t, w, se) s \<Longrightarrow> E e s"
    and "\<And>s. at cs k (d, t, w, se) s \<Longrightarrow> C s"
  shows "hoare q (at cs k (d, t, w, se)) (readJournal p) Q E C"
  unfolding readJournal_def
  by (rule hoare_perform)
     (use assms in \<open>auto simp: ignores_faults_def call_post_def at_def rest_of_def\<close>)

lemma hoare_finish:
  assumes d: "d p = Some (Document j)" "journal_ok j" "distinct (j_entries j)"
  shows "hoare q (\<lambda>s. safe_at p cs0 j (set (j_entries j)) k (d, t, w, se) s \<and> safe_at p cs0 j' {} k (d, t, w, se) s)
     (deleteJournal p) (\<lambda>_. safe_at p cs0 j' {} k (d(p := None), t, w, se))
     (\<lambda>_ s. \<not> q \<and> recov p cs0 se s) (recov p cs0 se)"
proof -
  have "hoare q (ok_at k (d, t, w, se) (both p cs0 j (set (j_entries j)) j' {} k)) (deleteJournal p)
     (\<lambda>_. safe_at p cs0 j' {} k (d(p := None), t, w, se))
     (\<lambda>_ s. \<not> q \<and> recov p cs0 se s) (recov p cs0 se)"
  proof (rule hoare_ok_at)
    fix cs assume b: "both p cs0 j (set (j_entries j)) j' {} k cs"
    have kept: "recov p cs0 se s" if "at cs k (d, t, w, se) s \<or> at cs k (d(p := None), t, w, se) s" for s
      using that b at_recov_Some [where d = d and p = p and j = j, OF _ _ d] at_recov_None [of cs k "d(p := None)"]
      by (auto simp: both_def)
    show "hoare q (at cs k (d, t, w, se)) (deleteJournal p)
       (\<lambda>_. safe_at p cs0 j' {} k (d(p := None), t, w, se))
       (\<lambda>_ s. \<not> q \<and> recov p cs0 se s) (recov p cs0 se)"
      by (rule hoare_deleteJournal) (use b kept in \<open>auto simp: both_def intro: ok_atI\<close>)
  qed
  then show ?thesis by (rule hoare_pre) (auto simp: ok_at_def both_def at_def)
qed

lemma hoare_sweep:
  assumes "q \<Longrightarrow> restartable cs0 se"
  shows "hoare q (recov p cs0 se) (sweep p)
     (\<lambda>_. recovered p cs0 se) (\<lambda>_ s. \<not> q \<and> recov p cs0 se s) (recov p cs0 se)" (is "hoare q _ _ ?Q ?E ?C")
proof (rule hoareI)
  fix s assume s: "faults_ok q s" "recov p cs0 se (core s)"
  define cs k d t w where "cs = conts (wd s)" "k = next_id (wd s)" "d = jfiles s" "t = tx_j s" "w = tx_written s"
  note defs = this
  have at: "at cs k (d, t, w, se) (core s)"
    using s(2) by (simp add: at_def rest_of_def defs recov_def)
  have "d p = None \<and> recoverable p cs0 t {} cs k \<or>
      (\<exists>j. d p = Some (Document j) \<and> journal_ok j \<and> distinct (j_entries j) \<and>
         recoverable p cs0 j (set (j_entries j)) cs k)"
    using s(2) by (auto simp: recov_def recoverable_state_def defs split: option.splits journal_file.splits)
  then have "hoare q (at cs k (d, t, w, se)) (sweep p) ?Q ?E ?C"
  proof (elim disjE exE conjE)
    assume d: "d p = None" and r: "recoverable p cs0 t {} cs k"
    have "hoare q (at cs k (d, t, w, se)) (readJournal p)
        (\<lambda>jo s. jo = None \<and> at cs k (d, t, w, se) s) ?E ?C"
      by (rule hoare_readJournal) (use d r at_recov_None in auto)
    then show ?thesis
      unfolding sweep_def
    proof (rule hoare_bind, intro hoare_pure)
      fix jo :: "journal option" assume jo: "jo = None"
      show "hoare q (at cs k (d, t, w, se))
        (io_bind (case jo of Some j \<Rightarrow> io_bind (io_wrap ''recover interrupted replacement: %w'' [] (undo p j))
             (\<lambda>_. deleteJournal p) | None \<Rightarrow> io_ret ())
           (\<lambda>_. io_bind (clearDebris p) (\<lambda>_. sweepTempFiles p))) ?Q ?E ?C"
        unfolding jo option.case
        by (rule hoare_bind [OF hoare_ret_at [where P = "\<lambda>cs. recoverable p cs0 t {} cs k"]])
           (use r d hoare_sweep_debris in auto)
    qed
  next
    fix j assume d: "d p = Some (Document j)" "journal_ok j" "distinct (j_entries j)"
      and r: "recoverable p cs0 j (set (j_entries j)) cs k"
    have "hoare q (at cs k (d, t, w, se)) (readJournal p)
        (\<lambda>jo s. jo = Some j \<and> at cs k (d, t, w, se) s) ?E ?C"
      by (rule hoare_readJournal) (use d r at_recov_Some [where d = d and p = p and j = j, OF _ _ d] in \<open>auto simp: loadJournal_Document\<close>)
    then show ?thesis
      unfolding sweep_def
    proof (rule hoare_bind, intro hoare_pure)
      fix jo :: "journal option" assume jo: "jo = Some j"
      have wrap: "hoare q (at cs k (d, t, w, se)) (io_wrap ''recover interrupted replacement: %w'' [] (undo p j))
          (\<lambda>_ s. safe_at p cs0 j (set (j_entries j)) k (d, t, w, se) s \<and> safe_at p cs0 j {} k (d, t, w, se) s) ?E ?C"
        by (rule hoare_wrap, rule hoare_post [OF hoare_pre [OF hoare_undo [of j "set (j_entries j)" q cs0 "(d, t, w, se)" k p j]]])
           (use d r assms restartable_stays agree_same safe_recov_Some [where d = d and p = p and j = j, OF _ d] in \<open>auto simp: both_def intro!: ok_atI\<close>)
      note finish = hoare_finish [where d = d and p = p and j = j and j' = j, OF d]
      have debris: "hoare q (safe_at p cs0 j {} k (d(p := None), t, w, se))
          (io_bind (clearDebris p) (\<lambda>_. sweepTempFiles p)) ?Q ?E ?C"
        by (rule hoare_sweep_debris) simp
      show "hoare q (at cs k (d, t, w, se))
        (io_bind (case jo of Some j \<Rightarrow> io_bind (io_wrap ''recover interrupted replacement: %w'' [] (undo p j))
             (\<lambda>_. deleteJournal p) | None \<Rightarrow> io_ret ())
           (\<lambda>_. io_bind (clearDebris p) (\<lambda>_. sweepTempFiles p))) ?Q ?E ?C"
        unfolding jo option.case
        by (rule hoare_bind [OF hoare_bind [OF wrap finish] debris])
    qed
  qed
  then show "io_post q ?Q ?E ?C (sweep p s)" using s(1) at by (rule hoareD)
qed

section \<open>Properties\<close>

lemma core_of: "core s = s\<lparr>faults := []\<rparr>"
  by (simp add: core_def)

lemma recoverable_state_core [simp]: "recoverable_state p cs0 (core s) = recoverable_state p cs0 s"
  by (auto simp: recoverable_state_def core_def split: option.splits journal_file.splits)

lemma recov_core [simp]: "recov p cs0 se (core s) = recov p cs0 se s"
  by (simp add: recov_def)

lemma recovered_core [simp]: "recovered p cs0 se (core s) = recovered p cs0 se s"
  by (simp add: recovered_def)

lemma recov_faults [simp]: "recov p cs0 se (s\<lparr>faults := fs\<rparr>) = recov p cs0 se s"
  using recov_core [of p cs0 se s] recov_core [of p cs0 se "s\<lparr>faults := fs\<rparr>"] by (simp add: core_def)

text \<open>One recovery attempt of a restarted process, under its own fault schedule.\<close>

definition attempt :: "string \<Rightarrow> outcome list \<Rightarrow> sys \<Rightarrow> sys" where
  "attempt p fs s = snd (sweep p (s\<lparr>faults := fs\<rparr>))"

lemma attempt_recov:
  assumes "recov p cs0 se s" "list_all fault_ok fs"
  shows "recov p cs0 se (attempt p fs s)"
proof -
  have "io_post False (\<lambda>_. recovered p cs0 se) (\<lambda>_ s. \<not> False \<and> recov p cs0 se s) (recov p cs0 se)
      (sweep p (s\<lparr>faults := fs\<rparr>))"
    by (rule hoareD [OF hoare_sweep]) (use assms in \<open>simp_all add: faults_ok_def\<close>)
  then show ?thesis
    by (cases rule: io_post_cases) (auto simp: attempt_def recovered_def)
qed

lemma attempts_recov:
  "recov p cs0 se s \<Longrightarrow> list_all (list_all fault_ok) fss \<Longrightarrow> recov p cs0 se (fold (attempt p) fss s)"
  by (induction fss arbitrary: s) (simp_all add: attempt_recov)

lemma quiet_sweep_restores:
  assumes "recoverable_state p cs0 s" "list_all (list_all fault_ok) fss"
    "restartable cs0 (start_exits (wd s))"
  shows "\<exists>s'. sweep p ((fold (attempt p) fss s)\<lparr>faults := []\<rparr>) = (Ret (), s') \<and>
    jfiles s' p = None \<and> set (conts (wd s')) = set cs0"
proof -
  let ?se = "start_exits (wd s)"
  let ?t = "(fold (attempt p) fss s)\<lparr>faults := []\<rparr>"
  have "recov p cs0 ?se (fold (attempt p) fss s)"
    by (rule attempts_recov) (use assms in \<open>simp_all add: recov_def\<close>)
  then have "io_post True (\<lambda>_. recovered p cs0 ?se) (\<lambda>_ s. \<not> True \<and> recov p cs0 ?se s) (recov p cs0 ?se) (sweep p ?t)"
    by (intro hoareD [OF hoare_sweep]) (use assms in \<open>simp_all add: faults_ok_def\<close>)
  then show ?thesis
    by (cases rule: io_post_cases) (auto simp: recovered_def)
qed

end
