(* ===== verification/UpSafe.thy ===== *)
theory UpSafe
  imports Sweep
begin

text \<open>
  \<^verbatim>\<open>Up\<close> under faults. While the body of an \<^verbatim>\<open>Up\<close> runs, the containers are recoverable through
  the transaction's own journal, which is the document on disk (\<open>in_txn\<close>). A call that fails
  leaves a state from which both the disk and the transaction value recover (\<open>failed_txn\<close>), so
  \<^verbatim>\<open>rollback\<close> and a later \<^verbatim>\<open>sweep\<close> apply. A run that commits turns the containers it made into
  the next generation.
\<close>

section \<open>The state of a running transaction\<close>

fun in_txn :: "string \<Rightarrow> ctr list \<Rightarrow> rest \<Rightarrow> nat \<Rightarrow> ctr list \<Rightarrow> bool" where
  "in_txn p cs0 (d, t, w, se) k cs =
     (recoverable p cs0 t (set (j_entries t)) cs k \<and> journal_ok t \<and> distinct (j_entries t) \<and>
      (if w then d p = Some (Document t) else d p = None \<and> j_entries t = []))"

fun failed_txn :: "bool \<Rightarrow> string \<Rightarrow> ctr list \<Rightarrow> rest \<Rightarrow> nat \<Rightarrow> ctr list \<Rightarrow> bool" where
  "failed_txn q p cs0 (d, t, w, se) k cs =
     (distinct (j_entries t) \<and>
      (if w
       then (\<exists>jd. d p = Some (Document jd) \<and> journal_ok jd \<and> distinct (j_entries jd) \<and>
               (\<forall>e \<in> set (j_entries t). agree (set (j_entries jd)) e) \<and>
               both p cs0 jd (set (j_entries jd)) t (set (j_entries t)) k cs)
       else d p = None \<and> recoverable p cs0 t {} cs k \<or>
            \<not> q \<and> (\<exists>jd. d p = Some (Document jd) \<and> journal_ok jd \<and> distinct (j_entries jd) \<and>
               recoverable p cs0 jd (set (j_entries jd)) cs k)))"

lemma in_txn_failed: "in_txn p cs0 r k cs \<Longrightarrow> failed_txn q p cs0 r k cs"
  by (cases r) (auto simp: both_def agree_same)

lemma failed_recov:
  assumes "failed_txn q p cs0 (d, t, w, se) k cs" "at cs k (d, t, w, se) s"
  shows "recov p cs0 se s"
  using assms at_recov_None [OF assms(2)] at_recov_Some [OF assms(2)]
  by (auto simp: both_def split: if_splits)

lemma in_txn_recov: "in_txn p cs0 (d, t, w, se) k cs \<Longrightarrow> at cs k (d, t, w, se) s \<Longrightarrow> recov p cs0 se s"
  by (rule failed_recov [OF in_txn_failed [of _ _ _ _ _ True]])

section \<open>Rollback\<close>

text \<open>What holds when \<^verbatim>\<open>Up\<close> has reported an error: a later sweep restores; without faults nothing is left to it but debris.\<close>

definition rolled_back :: "bool \<Rightarrow> string \<Rightarrow> ctr list \<Rightarrow> (string \<Rightarrow> bool) \<Rightarrow> sys \<Rightarrow> bool" where
  "rolled_back q p cs0 se s = (recov p cs0 se s \<and> (q \<longrightarrow> jfiles s p = None))"

lemma hoare_rollback:
  assumes f: "failed_txn q p cs0 (d, t, w, se) k cs" and rs: "q \<Longrightarrow> restartable cs0 se"
  shows "hoare q (at cs k (d, t, w, se)) (rollback p cause) Q
     (\<lambda>_. rolled_back q p cs0 se) (recov p cs0 se)"
proof (cases w)
  case False
  have "rolled_back q p cs0 se s" if "at cs k (d, t, w, se) s" for s
    using that f False failed_recov [OF f] by (auto simp: rolled_back_def at_def rest_of_def)
  then show ?thesis
    using False by (intro hoareI) (auto simp: rollback_def at_def rest_of_def)
next
  case True
  then obtain jd where jd: "d p = Some (Document jd)" "journal_ok jd" "distinct (j_entries jd)"
      "\<forall>e \<in> set (j_entries t). agree (set (j_entries jd)) e" "distinct (j_entries t)"
      and b: "both p cs0 jd (set (j_entries jd)) t (set (j_entries t)) k cs"
    using f by auto
  let ?r = "(d, t, w, se)"
  let ?E = "\<lambda>_ :: error. rolled_back q p cs0 se" and ?C = "recov p cs0 se"
  let ?safe = "safe_at p cs0 jd (set (j_entries jd)) k ?r"
  note finish = hoare_finish [where d = d and p = p and j = jd and j' = t, OF jd(1-3)]
  have kept: "?safe s \<Longrightarrow> recov p cs0 se s" for s
    by (rule safe_recov_Some [where d = d and j = jd, OF _ jd(1-3)])
  have undo: "hoare q (at cs k ?r) (io_try (undo p t))
      (\<lambda>x. case x of Inl _ \<Rightarrow> \<lambda>s. \<not> q \<and> ?safe s | Inr _ \<Rightarrow> \<lambda>s. ?safe s \<and> safe_at p cs0 t {} k ?r s) ?E ?C"
    by (rule hoare_try, rule hoare_post [OF hoare_pre [OF hoare_undo
          [of t "set (j_entries jd)" q cs0 ?r k p jd]]])
       (use jd b kept rs restartable_stays in \<open>auto intro: ok_atI\<close>)
  have commit: "hoare q (\<lambda>s. ?safe s \<and> safe_at p cs0 t {} k ?r s) (io_try (deleteJournal p))
      (\<lambda>x. case x of Inl _ \<Rightarrow> \<lambda>s. \<not> q \<and> recov p cs0 se s
         | Inr _ \<Rightarrow> safe_at p cs0 t {} k (d(p := None), t, w, se)) ?E ?C"
    by (rule hoare_try, rule hoare_post [OF finish]) auto
  have last: "hoare q (safe_at p cs0 t {} k (d(p := None), t, w, se)) (io_fail cause) Q ?E ?C"
    by (rule hoare_fail)
       (auto simp: rolled_back_def ok_at_def at_def rest_of_def intro: safe_recov_None [unfolded ok_at_def])
  have run: "hoare q (at cs k ?r) (io_bind (io_try (undo p t)) (\<lambda>x.
      case x of
        Inl err \<Rightarrow> io_fail (Joined [cause, err])
      | Inr _ \<Rightarrow> io_bind (io_try (deleteJournal p)) (\<lambda>y.
          case y of Inl err \<Rightarrow> io_fail (Joined [cause, err]) | Inr _ \<Rightarrow> io_fail cause))) Q ?E ?C"
  proof (rule hoare_bind [OF undo])
    fix x :: "error + unit"
    have "hoare q (\<lambda>s. ?safe s \<and> safe_at p cs0 t {} k ?r s) (io_bind (io_try (deleteJournal p)) (\<lambda>y.
          case y of Inl err \<Rightarrow> io_fail (Joined [cause, err]) | Inr _ \<Rightarrow> io_fail cause)) Q ?E ?C"
    proof (rule hoare_bind [OF commit])
      fix y :: "error + unit"
      show "hoare q (case y of Inl _ \<Rightarrow> \<lambda>s. \<not> q \<and> recov p cs0 se s
           | Inr _ \<Rightarrow> safe_at p cs0 t {} k (d(p := None), t, w, se))
          (case y of Inl err \<Rightarrow> io_fail (Joined [cause, err]) | Inr _ \<Rightarrow> io_fail cause) Q ?E ?C"
        using last by (cases y) (auto intro!: hoare_fail simp: rolled_back_def)
    qed
    then show "hoare q (case x of Inl _ \<Rightarrow> \<lambda>s. \<not> q \<and> ?safe s | Inr _ \<Rightarrow> \<lambda>s. ?safe s \<and> safe_at p cs0 t {} k ?r s)
        (case x of Inl err \<Rightarrow> io_fail (Joined [cause, err])
         | Inr _ \<Rightarrow> io_bind (io_try (deleteJournal p)) (\<lambda>y.
             case y of Inl err \<Rightarrow> io_fail (Joined [cause, err]) | Inr _ \<Rightarrow> io_fail cause)) Q ?E ?C"
      using kept by (cases x) (auto intro!: hoare_fail simp: rolled_back_def)
  qed
  show ?thesis
  proof (rule hoareI)
    fix s assume s: "faults_ok q s" "at cs k ?r (core s)"
    then have "tx_written s" "tx_j s = t" using True by (auto simp: at_def rest_of_def)
    with hoareD [OF run s] show "io_post q Q ?E ?C (rollback p cause s)"
      by (simp only: rollback_def not_True_eq_False if_False)
  qed
qed

definition failing :: "bool \<Rightarrow> string \<Rightarrow> ctr list \<Rightarrow> (string \<Rightarrow> bool) \<Rightarrow> sys \<Rightarrow> bool" where
  "failing q p cs0 se s \<longleftrightarrow>
     (\<exists>cs k d t w. at cs k (d, t, w, se) s \<and> failed_txn q p cs0 (d, t, w, se) k cs)"

lemma failingI: "at cs k (d, t, w, se) s \<Longrightarrow> failed_txn q p cs0 (d, t, w, se) k cs \<Longrightarrow> failing q p cs0 se s"
  unfolding failing_def by blast

lemma hoare_rollback_failing:
  assumes "q \<Longrightarrow> restartable cs0 se"
  shows "hoare q (failing q p cs0 se) (rollback p cause) Q
     (\<lambda>_. rolled_back q p cs0 se) (recov p cs0 se)"
proof -
  have "hoare q (\<lambda>s. \<exists>cs k d t w. failed_txn q p cs0 (d, t, w, se) k cs \<and> at cs k (d, t, w, se) s)
     (rollback p cause) Q (\<lambda>_. rolled_back q p cs0 se) (recov p cs0 se)"
    by (intro hoare_ex hoare_pure hoare_rollback) (use assms in auto)
  then show ?thesis by (rule hoare_pre) (unfold failing_def, blast)
qed

section \<open>Entries\<close>

definition same_owner :: "journal \<Rightarrow> journal \<Rightarrow> bool" where
  "same_owner t t' = (j_nonce t' = j_nonce t \<and> j_candidate t' = j_candidate t)"

lemma same_owner_own: "same_owner t t' \<Longrightarrow> own_new p t' E c = own_new p t E c"
  by (simp add: same_owner_def own_new_def owns_def)

lemma same_owner_recoverable:
  "same_owner t t' \<Longrightarrow> recoverable p cs0 t' E cs k = recoverable p cs0 t E cs k"
  by (simp add: recoverable_def same_owner_own)

lemma same_owner_add [simp]: "same_owner t (add_entry e t)" "same_owner t (set_entry i f (add_entry e t))"
  by (simp_all add: same_owner_def add_entry_def set_entry_def)

lemma entries_add [simp]: "j_entries (add_entry e t) = j_entries t @ [e]"
  by (simp add: add_entry_def)

lemma entries_set_last [simp]:
  "j_entries (set_entry (length (j_entries t)) f (add_entry e t)) = j_entries t @ [f e]"
  by (simp add: set_entry_def)

text \<open>A name no entry is about is as it was.\<close>

lemma untouched_old:
  assumes r: "recoverable p cs0 t E cs k" and c0: "c0 \<in> set cs0" "cname c0 \<notin> je_name ` E"
  shows "c0 \<in> set cs"
proof -
  obtain c where c: "c \<in> set cs" "moved E c0 c" using recoverable_old [OF r c0(1)] by blast
  have about: "je_name e = cname c0"
    if e: "e \<in> E" "je_kind e = ''replace'' \<and> je_old_id e = cid c0 \<or> je_kind e = ''start'' \<and> je_id e = cid c0" for e
  proof -
    have "entry_about p cs0 e" using r e(1) by (rule recoverable_entry)
    then obtain c1 where "c1 \<in> set cs0" "cid c1 = cid c0" "cname c1 = je_name e"
      using e(2) by (auto simp: entry_about_def)
    moreover have "wf_ctrs cs0" using r by (simp add: recoverable_def)
    ultimately show ?thesis using c0(1) wf_ctrsD(1) [of cs0 c1 c0] by simp
  qed
  have "e \<notin> E \<or> \<not> (je_kind e = ''replace'' \<and> je_old_id e = cid c0 \<or> je_kind e = ''start'' \<and> je_id e = cid c0)" for e
    using about c0(2) by (metis image_eqI)
  then have "c = c0" using c(2) unfolding moved_def by blast
  with c(1) show ?thesis by simp
qed

lemma untouched_name:
  assumes r: "recoverable p cs0 t E cs k" and n: "canonical_name n" "n \<notin> je_name ` E"
    and c: "c \<in> set cs" "cname c = n"
  shows "c \<in> set cs0"
proof -
  from recoverable_at_canonical [OF r c(1)] n c(2)
  obtain c0 where c0: "c0 \<in> set cs0" "cid c = cid c0" "cname c = cname c0" by auto
  then have "c0 \<in> set cs" using untouched_old [OF r c0(1)] n c(2) by simp
  with c0 c(1) r wf_ctrsD(1) [of cs c c0] show ?thesis by (simp add: recoverable_def)
qed

lemma recoverable_add:
  assumes "recoverable p cs0 t E cs k" "entry_about p cs0 e" "je_name e \<notin> je_name ` E" "je_new_id e = ''''"
  shows "recoverable p cs0 t (insert e E) cs k"
proof -
  have "inj_on je_name (insert e E)" using assms(1,3) by (auto simp: recoverable_def)
  moreover have "\<exists>c \<in> set cs. moved (insert e E) c0 c" if "c0 \<in> set cs0" for c0
    using recoverable_old [OF assms(1) that] moved_mono by (metis subset_insertI)
  moreover have "own_new p t (insert e E) c" if "c \<in> set cs" "cid c \<notin> cid ` set cs0" for c
    using assms(1) that own_new_mono [OF _ subset_insertI] by (simp add: recoverable_def)
  moreover have "staged_free (insert e E) c" if "c \<in> set cs" for c
    using assms(1,4) that by (simp add: recoverable_def staged_free_def)
  ultimately show ?thesis using assms(1,2) by (simp add: recoverable_def)
qed

lemma moved_backfill: "moved (insert e E) c0 c \<Longrightarrow> moved (insert (e\<lparr>je_new_id := i\<rparr>) E) c0 c"
  by (auto simp: moved_def)

lemma entry_about_backfill:
  "entry_about p cs0 e \<Longrightarrow> i \<notin> cid ` set cs0 \<Longrightarrow> entry_about p cs0 (e\<lparr>je_new_id := i\<rparr>)"
  by (auto simp: entry_about_def)

lemma recoverable_backfill:
  assumes r: "recoverable p cs0 t (insert e E) cs k" and e: "je_new_id e = ''''" "je_name e \<notin> je_name ` E"
    and c: "c \<in> set cs" "cid c \<notin> cid ` set cs0"
    and at: "cname c = (if je_kind e = ''replace'' then je_name e @ stagedSuffix else je_name e)"
  shows "recoverable p cs0 t (insert (e\<lparr>je_new_id := cid c\<rparr>) E) cs k"
proof -
  let ?e = "e\<lparr>je_new_id := cid c\<rparr>"
  have wf: "wf_ctrs cs" using r by (simp add: recoverable_def)
  have uniq: "x = c" if "x \<in> set cs" "cname x = cname c" for x
    using wf that c(1) by (auto dest: wf_ctrsD(2))
  have "own_new p t (insert ?e E) x" if x: "x \<in> set cs" "cid x \<notin> cid ` set cs0" for x
  proof -
    have o: "own_new p t (insert e E) x" using r x by (simp add: recoverable_def)
    have "cid x \<noteq> ''''" using wf x(1) by (auto dest: wf_ctrsD(3))
    then show ?thesis using o e(1) uniq [OF x(1)] at by (auto simp: own_new_def)
  qed
  moreover have "staged_free (insert ?e E) x" if x: "x \<in> set cs" for x
    using r x at uniq [OF x] by (auto simp: recoverable_def staged_free_def)
  moreover have "\<exists>x \<in> set cs. moved (insert ?e E) c0 x" if "c0 \<in> set cs0" for c0
    using recoverable_old [OF r that] moved_backfill by metis
  moreover have "entry_about p cs0 ?e" using r c(2) by (auto simp: recoverable_def intro: entry_about_backfill)
  moreover have "inj_on je_name (insert ?e E)" using r e(2) by (auto simp: recoverable_def)
  ultimately show ?thesis using r by (simp add: recoverable_def)
qed

section \<open>Writing the journal\<close>

lemma in_txn_fails: "in_txn p cs0 (d, t, w, se) k cs \<Longrightarrow> at cs k (d, t, w, se) s \<Longrightarrow> failing q p cs0 se s"
  by (rule failingI [OF _ in_txn_failed])

lemma in_txnI:
  assumes "recoverable p cs0 t (set (j_entries t)) cs k" "journal_ok t" "distinct (j_entries t)"
  shows "in_txn p cs0 (d(p \<mapsto> Document t), t, True, se) k cs"
  using assms by simp

lemma hoare_writeJournal:
  assumes "\<And>s. at cs k (d(p \<mapsto> Document j), t, w, se) s \<Longrightarrow> Q () s"
    and "\<And>e s. \<not> q \<Longrightarrow> at cs k (d, t, w, se) s \<or> at cs k (d(p \<mapsto> Document j), t, w, se) s \<Longrightarrow> E e s"
    and "\<And>s. at cs k (d, t, w, se) s \<or> at cs k (d(p \<mapsto> Document j), t, w, se) s \<Longrightarrow> C s"
  shows "hoare q (at cs k (d, t, w, se)) (write_err (writeJournal p j)) Q E C"
  unfolding write_err_def writeJournal_def
  by (rule hoare_wrap, rule hoare_bind [where R = "\<lambda>_. at cs k (d, t, w, se)"])
     (use assms in \<open>auto intro!: hoare_update_files hoare_idle_call\<close>)

lemma at_tx_j: "at cs k (d, t', w, se) (s\<lparr>tx_j := t\<rparr>) \<longleftrightarrow> t' = t \<and> at cs k (d, tx_j s, w, se) s"
  by (auto simp: at_def rest_of_def)

lemma at_written: "at cs k (d, t, w', se) (s\<lparr>tx_written := w\<rparr>) \<longleftrightarrow> w' = w \<and> at cs k (d, t, tx_written s, se) s"
  by (auto simp: at_def rest_of_def)

lemma hoare_append:
  assumes i: "in_txn p cs0 (d, t, w, se) k cs"
    and e: "recoverable p cs0 t (insert e (set (j_entries t))) cs k" "entry_ok e" "e \<notin> set (j_entries t)"
  defines "t' \<equiv> add_entry e t"
  shows "in_txn p cs0 (d(p \<mapsto> Document t'), t', True, se) k cs"
    "hoare q (at cs k (d, t, w, se)) (txn_append p e)
       (\<lambda>idx s. idx = length (j_entries t) \<and> at cs k (d(p \<mapsto> Document t'), t', True, se) s)
       (\<lambda>_. failing q p cs0 se) (recov p cs0 se)"
proof -
  have "journal_ok t'" using i e(2) by (auto simp: journal_ok_def t'_def add_entry_def)
  then have r': "recoverable p cs0 t' (set (j_entries t')) cs k" "journal_ok t'" "distinct (j_entries t')"
    using i e same_owner_recoverable [of t t'] by (simp_all add: t'_def)
  show in': "in_txn p cs0 (d(p \<mapsto> Document t'), t', True, se) k cs" using r' by (rule in_txnI)
  have r: "recoverable p cs0 t (set (j_entries t)) cs k" "distinct (j_entries t)" using i by auto
  have agr: "\<forall>x \<in> set (j_entries t). agree (set (j_entries t')) x"
    using agree_same [OF r'(1)] by (simp add: t'_def)
  have half: "failed_txn q p cs0 (d(p \<mapsto> Document t'), t, w, se) k cs" if "\<not> q"
    using that r r' agr by (simp add: both_def)
  have mid: "recov p cs0 se s" if "at cs k (d, t', w, se) s \<or> at cs k (d(p \<mapsto> Document t'), t', w, se) s" for s
    using that i r' at_recov_Some [of cs k _ t' w se s p cs0 t'] at_recov_Some [of cs k _ t' w se s p cs0 t]
      at_recov_None [of cs k _ t' w se s p cs0 t] by (auto split: if_splits)
  show "hoare q (at cs k (d, t, w, se)) (txn_append p e)
       (\<lambda>idx s. idx = length (j_entries t) \<and> at cs k (d(p \<mapsto> Document t'), t', True, se) s)
       (\<lambda>_. failing q p cs0 se) (recov p cs0 se)"
  proof (rule hoareI)
    fix s assume s: "faults_ok q s" "at cs k (d, t, w, se) (core s)"
    then have ts: "tx_j s = t" by (simp add: at_def rest_of_def)
    have "io_post q (\<lambda>_. at cs k (d(p \<mapsto> Document t'), t', w, se))
        (\<lambda>_ s. \<not> q \<and> (at cs k (d, t', w, se) s \<or> at cs k (d(p \<mapsto> Document t'), t', w, se) s)) (recov p cs0 se)
        (write_err (writeJournal p t') (s\<lparr>tx_j := t'\<rparr>))"
      by (rule hoareD [OF hoare_writeJournal]) (use s ts mid in \<open>auto simp: at_tx_j faults_ok_def\<close>)
    then show "io_post q (\<lambda>idx s. idx = length (j_entries t) \<and> at cs k (d(p \<mapsto> Document t'), t', True, se) s)
        (\<lambda>_. failing q p cs0 se) (recov p cs0 se) (txn_append p e s)"
    proof (cases rule: io_post_cases)
      case (1 x s')
      then show ?thesis
        by (simp add: txn_append_def Let_def ts t'_def [symmetric] at_written faults_ok_def)
           (simp add: at_def rest_of_def)
    next
      case (2 err s')
      have shrunk: "t'\<lparr>j_entries := butlast (j_entries t')\<rparr> = t" by (simp add: t'_def add_entry_def)
      have "at cs k (d, t, w, se) (core (s'\<lparr>tx_j := t\<rparr>)) \<or>
          at cs k (d(p \<mapsto> Document t'), t, w, se) (core (s'\<lparr>tx_j := t\<rparr>))"
        using 2(3) by (auto simp: at_def rest_of_def)
      then have "failing q p cs0 se (core (s'\<lparr>tx_j := t\<rparr>))"
        using 2(3) half in_txn_fails [OF i] failingI by blast
      with 2 show ?thesis
        by (simp add: txn_append_def Let_def ts t'_def [symmetric] shrunk faults_ok_def)
    next
      case (3 s')
      then show ?thesis by (simp add: txn_append_def Let_def ts t'_def [symmetric])
    qed
  qed
qed

lemma hoare_backfill:
  assumes i: "in_txn p cs0 (d, t, True, se) k cs" and t: "j_entries t = es @ [e]" "je_new_id e = ''''"
    and e: "recoverable p cs0 t (insert (f e) (set es)) cs k" "entry_ok (f e)" "f e \<notin> set es" "je_name (f e) = je_name e"
  defines "t' \<equiv> set_entry (length es) f t"
  shows "in_txn p cs0 (d(p \<mapsto> Document t'), t', True, se) k cs" "j_entries t' = es @ [f e]" "same_owner t t'"
    "hoare q (at cs k (d, t, True, se)) (txn_backfill p (length es) f)
       (\<lambda>_. at cs k (d(p \<mapsto> Document t'), t', True, se))
       (\<lambda>_. failing q p cs0 se) (recov p cs0 se)"
proof -
  show t': "j_entries t' = es @ [f e]" "same_owner t t'"
    using t by (simp_all add: t'_def set_entry_def same_owner_def)
  have "journal_ok t'" using i e(2) t by (auto simp: journal_ok_def t'_def set_entry_def)
  then have r': "recoverable p cs0 t' (set (j_entries t')) cs k" "journal_ok t'" "distinct (j_entries t')"
    using i e t t' same_owner_recoverable [of t t'] by simp_all
  show in': "in_txn p cs0 (d(p \<mapsto> Document t'), t', True, se) k cs" using r' by (rule in_txnI)
  have r: "recoverable p cs0 t (set (j_entries t)) cs k" "distinct (j_entries t)" "d p = Some (Document t)"
    "journal_ok t" using i by auto
  have "agree (set (j_entries t)) x" if "x \<in> set (j_entries t')" for x
  proof (cases "x \<in> set es")
    case True
    then show ?thesis using agree_same [OF r(1)] t by simp
  next
    case False
    then have "x = f e" using that t' by simp
    then show ?thesis
      using recoverable_name_inj [OF r(1), of _ e] t e(4) by (auto simp: agree_def)
  qed
  then have half: "failed_txn q p cs0 (d, t', True, se) k cs" using r r' by (simp add: both_def)
  have mid: "recov p cs0 se s" if "at cs k (d, t', True, se) s \<or> at cs k (d(p \<mapsto> Document t'), t', True, se) s" for s
    using that failed_recov [OF half] in_txn_recov [OF in'] by blast
  show "hoare q (at cs k (d, t, True, se)) (txn_backfill p (length es) f)
       (\<lambda>_. at cs k (d(p \<mapsto> Document t'), t', True, se)) (\<lambda>_. failing q p cs0 se) (recov p cs0 se)"
  proof (rule hoareI)
    fix s assume s: "faults_ok q s" "at cs k (d, t, True, se) (core s)"
    then have ts: "tx_j s = t" by (simp add: at_def rest_of_def)
    have fails: "failing q p cs0 se s" if "at cs k (d, t', True, se) s \<or> at cs k (d(p \<mapsto> Document t'), t', True, se) s" for s
      using that failingI [OF _ half] in_txn_fails [OF in'] by blast
    have "io_post q (\<lambda>_. at cs k (d(p \<mapsto> Document t'), t', True, se)) (\<lambda>_. failing q p cs0 se) (recov p cs0 se)
        (write_err (writeJournal p t') (s\<lparr>tx_j := t'\<rparr>))"
      by (rule hoareD [OF hoare_writeJournal]) (use s ts mid fails in \<open>auto simp: at_tx_j faults_ok_def\<close>)
    then show "io_post q (\<lambda>_. at cs k (d(p \<mapsto> Document t'), t', True, se)) (\<lambda>_. failing q p cs0 se) (recov p cs0 se)
        (txn_backfill p (length es) f s)"
      by (simp add: txn_backfill_def Let_def ts t'_def [symmetric])
  qed
qed

section \<open>One container\<close>

definition made :: "string \<Rightarrow> string \<Rightarrow> string set \<Rightarrow> ctr list \<Rightarrow> bool" where
  "made p cd D cs \<longleftrightarrow>
     (\<forall>n \<in> D. \<exists>c \<in> set cs. cname c = n \<and> mine p c \<and> label (clabels c) CandidateLabel = cd)"

definition going ::
  "string \<Rightarrow> ctr list \<Rightarrow> (string \<Rightarrow> bool) \<Rightarrow> string \<Rightarrow> string \<Rightarrow> string set \<Rightarrow> sys \<Rightarrow> bool" where
  "going p cs0 se cd nonce D s \<longleftrightarrow>
     (\<exists>cs k d t w. at cs k (d, t, w, se) s \<and> in_txn p cs0 (d, t, w, se) k cs \<and>
        je_name ` set (j_entries t) \<subseteq> D \<and> j_nonce t = nonce \<and> j_candidate t = cd \<and> made p cd D cs)"

lemma goingI:
  "at cs k (d, t, w, se) s \<Longrightarrow> in_txn p cs0 (d, t, w, se) k cs \<Longrightarrow> je_name ` set (j_entries t) \<subseteq> D \<Longrightarrow>
     j_nonce t = nonce \<Longrightarrow> j_candidate t = cd \<Longrightarrow> made p cd D cs \<Longrightarrow> going p cs0 se cd nonce D s"
  unfolding going_def by blast

lemma in_txn_step:
  "in_txn p cs0 (d, t, w, se) k cs \<Longrightarrow> recoverable p cs0 t (set (j_entries t)) cs' k' \<Longrightarrow>
     in_txn p cs0 (d, t, w, se) k' cs'"
  by simp

lemma in_txn_recoverable:
  "in_txn p cs0 (d, t, w, se) k cs \<Longrightarrow> recoverable p cs0 t (set (j_entries t)) cs k"
  by simp

declare in_txn.simps [simp del]

lemma made_insert:
  "made p cd D cs \<Longrightarrow> c \<in> set cs \<Longrightarrow> cname c = n \<Longrightarrow> mine p c \<Longrightarrow> label (clabels c) CandidateLabel = cd \<Longrightarrow>
     made p cd (insert n D) cs"
  by (auto simp: made_def)

lemma made_snoc: "made p cd D cs \<Longrightarrow> made p cd D (cs @ [c])"
  by (auto simp: made_def)

lemma made_upd:
  assumes "made p cd D cs"
    "\<forall>c \<in> set cs. cid c = i \<longrightarrow> cname c \<notin> D \<or> cname (f c) = cname c \<and> clabels (f c) = clabels c"
  shows "made p cd D (upd i f cs)"
  unfolding made_def
proof
  fix m assume m: "m \<in> D"
  then obtain c where c: "c \<in> set cs" "cname c = m" "mine p c" "label (clabels c) CandidateLabel = cd"
    using assms(1) by (auto simp: made_def)
  let ?c = "if cid c = i then f c else c"
  have "?c \<in> set (upd i f cs)" using c(1) by (auto simp: set_upd)
  moreover have "cname ?c = m \<and> clabels ?c = clabels c" using assms(2) c m by auto
  ultimately show "\<exists>c \<in> set (upd i f cs). cname c = m \<and> mine p c \<and> label (clabels c) CandidateLabel = cd"
    using c(3,4) by (intro bexI [of _ ?c]) (auto simp: mine_def)
qed

lemma made_run: "made p cd D cs \<Longrightarrow> made p cd D (run_ctr i b cs)"
  by (rule made_upd) auto

lemma made_rename:
  "made p cd D cs \<Longrightarrow> \<forall>c \<in> set cs. cid c = i \<longrightarrow> cname c \<notin> D \<Longrightarrow> made p cd D (rename_ctr i n cs)"
  by (rule made_upd) auto

definition created_ctr :: "nat \<Rightarrow> create_request \<Rightarrow> ctr" where
  "created_ctr k req =
     \<lparr>cid = ctr_id (Suc k), cname = cr_name req, cimage = cr_image req,
      crunning = False, cexit = 0, clabels = cr_labels req\<rparr>"

lemma created_simps [simp]:
  "cid (created_ctr k req) = ctr_id (Suc k)" "cname (created_ctr k req) = cr_name req"
  "clabels (created_ctr k req) = cr_labels req" "crunning (created_ctr k req) = False"
  by (simp_all add: created_ctr_def)

lemma hoare_createOnly:
  assumes i: "in_txn p cs0 r k cs" and new: "cr_name req \<notin> cname ` set cs \<Longrightarrow>
      in_txn p cs0 r (Suc k) (cs @ [created_ctr k req])"
    and r: "r = (d, t, w, se)"
  shows "hoare q (at cs k r) (createOnly req)
     (\<lambda>x s. x = ctr_id (Suc k) \<and> cr_name req \<notin> cname ` set cs \<and> at (cs @ [created_ctr k req]) (Suc k) r s)
     (\<lambda>_. failing q p cs0 se) (recov p cs0 se)" (is "hoare q ?P _ ?Q ?E ?C")
proof -
  have a: "at cs k r s \<Longrightarrow> failing q p cs0 se s \<and> recov p cs0 se s" for s
    using in_txn_fails in_txn_recov i unfolding r by blast
  have b: "cr_name req \<notin> cname ` set cs \<Longrightarrow> at (cs @ [created_ctr k req]) (Suc k) r s \<Longrightarrow>
      failing q p cs0 se s \<and> recov p cs0 se s" for s
    using in_txn_fails in_txn_recov new unfolding r by blast
  let ?half = "\<lambda>e s. at cs k r s \<or> \<not> errors_is e ErrNotFound \<and> cr_name req \<notin> cname ` set cs \<and>
      at (cs @ [created_ctr k req]) (Suc k) r s"
  have create: "hoare q ?P (CreateContainer req) ?Q ?half ?C"
    by (rule hoare_create [where new = "created_ctr k req"]) (use a in \<open>auto simp: created_ctr_def\<close>)
  have again: "hoare q ?P (CreateContainer req) ?Q ?E ?C"
    by (rule hoare_post [OF create]) (use a b in auto)
  have pull: "hoare q ?P (PullImage ref) (\<lambda>_. ?P) ?E ?C" for ref
    unfolding PullImage_def by (rule hoare_query) (use a in auto)
  have "hoare q ?P (io_try (CreateContainer req)) (\<lambda>x. case x of Inr i \<Rightarrow> ?Q i | Inl e \<Rightarrow> ?half e) ?E ?C"
    by (rule hoare_try) (use create in simp)
  then show ?thesis
    unfolding createOnly_def
  proof (rule hoare_bind)
    fix x :: "error + string"
    show "hoare q (case x of Inr i \<Rightarrow> ?Q i | Inl e \<Rightarrow> ?half e)
        (case x of Inl e \<Rightarrow> if errors_is e ErrNotFound
             then io_bind (PullImage (cr_image req)) (\<lambda>_. CreateContainer req) else io_fail e
         | Inr i \<Rightarrow> io_ret i) ?Q ?E ?C"
    proof (cases x)
      case (Inl e)
      show ?thesis
      proof (cases "errors_is e ErrNotFound")
        case True
        have "hoare q ?P (io_bind (PullImage (cr_image req)) (\<lambda>_. CreateContainer req)) ?Q ?E ?C"
          by (rule hoare_bind [OF pull again])
        with True show ?thesis by (auto simp: Inl intro: hoare_pre)
      next
        case False
        then show ?thesis using a b by (auto simp: Inl intro!: hoare_fail)
      qed
    next
      case (Inr i)
      then show ?thesis by (auto intro: hoare_ret)
    qed
  qed
qed

text \<open>What a request must be for the transaction to recognise its container again.\<close>

definition req_ok :: "string \<Rightarrow> ctr list \<Rightarrow> string \<Rightarrow> string \<Rightarrow> create_request \<Rightarrow> bool" where
  "req_ok p cs0 cd nonce req \<longleftrightarrow>
     cr_name req \<noteq> '''' \<and> canonical_name (cr_name req) \<and>
     label (cr_labels req) ManagedLabel = ''true'' \<and> label (cr_labels req) ProjectLabel = p \<and>
     label (cr_labels req) TxnLabel = nonce \<and> label (cr_labels req) CandidateLabel = cd \<and>
     (\<forall>c0 \<in> set cs0. cname c0 = cr_name req \<and> label (clabels c0) ManagedLabel = ''true'' \<longrightarrow>
        label (clabels c0) ProjectLabel = p)"

lemma hoare_txn_start:
  assumes i: "in_txn p cs0 (d, t, w, se) k cs" and c: "i \<in> cid ` set cs"
    and i': "\<And>b. b = (\<not> se i) \<Longrightarrow> in_txn p cs0 (d, t, w, se) k (run_ctr i b cs)"
  shows "hoare q (at cs k (d, t, w, se)) (StartContainer i)
     (\<lambda>_. at (run_ctr i (\<not> se i) cs) k (d, t, w, se)) (\<lambda>_. failing q p cs0 se) (recov p cs0 se)"
  by (rule hoare_start [OF c refl])
     (use in_txn_fails [OF i] in_txn_recov [OF i] in_txn_fails [OF i' [OF refl]] in auto)

lemma new_id_fresh:
  assumes "recoverable p cs0 t E cs k"
  shows "ctr_id (Suc k) \<notin> cid ` set cs" "ctr_id (Suc k) \<notin> cid ` set cs0"
  using assms old_ids [OF assms] by (auto simp: recoverable_def fresh_ids_def)

lemma hoare_createFresh:
  assumes i: "in_txn p cs0 (d, t, w, se) k cs" and D: "je_name ` set (j_entries t) \<subseteq> D" "cr_name req \<notin> D"
    and t: "j_nonce t = nonce" "j_candidate t = cd" and req: "req_ok p cs0 cd nonce req"
    and m: "made p cd D cs" and absent: "cr_name req \<notin> cname ` set cs"
  shows "hoare q (at cs k (d, t, w, se)) (createFresh p req)
     (\<lambda>_. going p cs0 se cd nonce (insert (cr_name req) D)) (\<lambda>_. failing q p cs0 se) (recov p cs0 se)"
    (is "hoare q _ _ ?Q ?E ?C")
proof -
  let ?n = "cr_name req" and ?es = "set (j_entries t)"
  define e where "e = zero_entry\<lparr>je_kind := ''create'', je_name := ?n\<rparr>"
  define new where "new = created_ctr k req"
  define t1 where "t1 = add_entry e t"
  define d1 where "d1 = d(p \<mapsto> Document t1)"
  have e: "je_name e = ?n" "je_kind e = ''create''" "je_new_id e = ''''" by (simp_all add: e_def zero_entry_def)
  have name: "?n \<notin> je_name ` ?es" using D by auto
  have r0: "recoverable p cs0 t ?es cs k" using i by (rule in_txn_recoverable)
  have "?n \<notin> cname ` set cs0" using untouched_old [OF r0] name absent by force
  moreover have "'''' \<notin> cid ` set cs0" using r0 by (auto simp: recoverable_def wf_ctrs_def list_all_iff)
  ultimately have about: "entry_about p cs0 e" using req e by (simp add: entry_about_def req_ok_def)
  have r1: "recoverable p cs0 t (insert e ?es) cs k"
    by (rule recoverable_add [OF r0 about]) (use e name in auto)
  have ok: "entry_ok e" "e \<notin> ?es" using e req name image_eqI [of ?n je_name e]
    by (auto simp: entry_ok_def req_ok_def)
  note ap = hoare_append [OF i r1 ok, folded t1_def, folded d1_def]
  have t1: "j_entries t1 = j_entries t @ [e]" "same_owner t t1" by (simp_all add: t1_def)
  have r1': "recoverable p cs0 t1 (set (j_entries t1)) cs k" using ap(1) by (rule in_txn_recoverable)
  have new: "mine p new" "owns t1 (clabels new) p" "cid new \<notin> cid ` set cs0" "cid new \<notin> cid ` set cs"
    using req t t1(2) new_id_fresh [OF r0]
    by (auto simp: new_def mine_def req_ok_def owns_def same_owner_def)
  have r2: "recoverable p cs0 t1 (set (j_entries t1)) (cs @ [new]) (Suc k)"
    by (rule recoverable_snoc [OF r1'])
       (use absent new req e t1 in \<open>auto simp: new_def own_new_def req_ok_def intro: staged_free_canonical\<close>)
  have i2: "in_txn p cs0 (d1, t1, True, se) (Suc k) (cs @ [new])" using ap(1) r2 by (rule in_txn_step)
  define f :: "journal_entry \<Rightarrow> journal_entry" where "f = je_new_id_update (\<lambda>_. cid new)"
  have r3: "recoverable p cs0 t1 (insert (f e) ?es) (cs @ [new]) (Suc k)"
    using recoverable_backfill [of p cs0 t1 e ?es "cs @ [new]" "Suc k" new] r2 t1 e name new
    by (simp add: new_def f_def)
  have ok3: "entry_ok (f e)" "f e \<notin> ?es" "je_name (f e) = je_name e"
    using ok(1) name e(1) image_eqI [of ?n je_name "f e"] by (auto simp: f_def entry_ok_def)
  define t2 where "t2 = set_entry (length (j_entries t)) f t1"
  define d2 where "d2 = d1(p \<mapsto> Document t2)"
  note bf = hoare_backfill [where f = f and e = e, OF i2 t1(1) e(3) r3 ok3, folded t2_def, folded d2_def]
  have r4: "recoverable p cs0 t2 (set (j_entries t2)) (run_ctr (cid new) b (cs @ [new])) (Suc k)" for b
    by (rule recoverable_stop_new [OF in_txn_recoverable [OF bf(1)], of new]) (use new in auto)
  have i4: "in_txn p cs0 (d2, t2, True, se) (Suc k) (run_ctr (cid new) b (cs @ [new]))" for b
    using bf(1) r4 by (rule in_txn_step)
  have m4: "made p cd (insert ?n D) (run_ctr (cid new) b (cs @ [new]))" for b
    by (rule made_run, rule made_insert [OF made_snoc [OF m], of new])
       (use new(1) req in \<open>auto simp: new_def req_ok_def\<close>)
  have fin: "going p cs0 se cd nonce (insert ?n D) s"
    if "at (run_ctr (cid new) (\<not> se (cid new)) (cs @ [new])) (Suc k) (d2, t2, True, se) s" for s
    by (rule goingI [OF that i4 _ _ _ m4])
       (use D t t1 bf(2,3) ok3(3) e(1) in \<open>auto simp: same_owner_def\<close>)
  have start: "hoare q (at (cs @ [new]) (Suc k) (d2, t2, True, se))
      (io_bind (StartContainer (cid new)) (\<lambda>_. io_ret actionCreated)) ?Q ?E ?C"
    by (rule hoare_bind [OF hoare_txn_start [OF bf(1) _ i4]]) (use fin in \<open>auto intro: hoare_ret\<close>)
  have fill: "hoare q (at (cs @ [new]) (Suc k) (d1, t1, True, se))
      (io_bind (txn_backfill p (length (j_entries t)) f)
         (\<lambda>_. io_bind (StartContainer (cid new)) (\<lambda>_. io_ret actionCreated))) ?Q ?E ?C"
    by (rule hoare_bind [OF bf(4) start])
  have create: "hoare q (at cs k (d1, t1, True, se)) (createOnly req)
      (\<lambda>x s. x = ctr_id (Suc k) \<and> ?n \<notin> cname ` set cs \<and> at (cs @ [new]) (Suc k) (d1, t1, True, se) s) ?E ?C"
    using hoare_createOnly [OF ap(1) _ refl] i2 unfolding new_def by blast
  show ?thesis
    unfolding createFresh_def e_def [symmetric]
  proof (rule hoare_bind [OF ap(2)], rule hoare_pure, rule hoare_bind)
    show "hoare q (at cs k (d1, t1, True, se)) (createOnly req)
      (\<lambda>x s. x = ctr_id (Suc k) \<and> at (cs @ [new]) (Suc k) (d1, t1, True, se) s) ?E ?C"
      by (rule hoare_post [OF create]) auto
    fix idx x assume idx: "idx = length (j_entries t)"
    show "hoare q (\<lambda>s. x = ctr_id (Suc k) \<and> at (cs @ [new]) (Suc k) (d1, t1, True, se) s)
      (io_bind (txn_backfill p idx (je_new_id_update (\<lambda>_. x)))
         (\<lambda>_. io_bind (StartContainer x) (\<lambda>_. io_ret actionCreated))) ?Q ?E ?C"
      by (rule hoare_pure) (use fill idx in \<open>simp add: f_def new_def\<close>)
  qed
qed

lemma hoare_txn_stop:
  assumes "in_txn p cs0 (d, t, w, se) k cs" "in_txn p cs0 (d, t, w, se) k (stop_ctr i cs)" "i \<in> cid ` set cs"
  shows "hoare q (at cs k (d, t, w, se)) (StopContainer i)
     (\<lambda>_. at (stop_ctr i cs) k (d, t, w, se)) (\<lambda>_. failing q p cs0 se) (recov p cs0 se)"
  by (rule hoare_stop [OF assms(3)])
     (use in_txn_fails [OF assms(1)] in_txn_recov [OF assms(1)] in_txn_fails [OF assms(2)] in auto)

lemma hoare_txn_rename:
  assumes "in_txn p cs0 (d, t, w, se) k cs" "i \<in> cid ` set cs" "\<forall>c \<in> set cs. cid c = i \<longrightarrow> cname c \<noteq> n"
    and "n \<notin> cname ` set cs \<Longrightarrow> in_txn p cs0 (d, t, w, se) k (rename_ctr i n cs)"
  shows "hoare q (at cs k (d, t, w, se)) (RenameContainer i n)
     (\<lambda>_ s. n \<notin> cname ` set cs \<and> at (rename_ctr i n cs) k (d, t, w, se) s)
     (\<lambda>_. failing q p cs0 se) (recov p cs0 se)"
  by (rule hoare_rename [OF assms(2,3)])
     (use in_txn_fails [OF assms(1)] in_txn_recov [OF assms(1)] in_txn_fails [OF assms(4)] in auto)

text \<open>The old container at the name a request is about.\<close>

lemma existing_old:
  assumes "in_txn p cs0 (d, t, w, se) k cs" "je_name ` set (j_entries t) \<subseteq> D" "cr_name req \<notin> D"
    "req_ok p cs0 cd nonce req" "c \<in> set cs" "cname c = cr_name req" "label (clabels c) ManagedLabel = ''true''"
  shows "c \<in> set cs0" "mine p c" "canonical_name (cname c)" "cname c \<notin> je_name ` set (j_entries t)"
proof -
  show "canonical_name (cname c)" "cname c \<notin> je_name ` set (j_entries t)"
    using assms by (auto simp: req_ok_def)
  then show "c \<in> set cs0"
    using untouched_name [OF in_txn_recoverable [OF assms(1)] _ _ assms(5) refl] by simp
  with assms(4,6,7) show "mine p c" by (auto simp: req_ok_def mine_def)
qed

lemma hoare_startExisting:
  assumes i: "in_txn p cs0 (d, t, w, se) k cs" and D: "je_name ` set (j_entries t) \<subseteq> D" "cr_name req \<notin> D"
    and t: "j_nonce t = nonce" "j_candidate t = cd" and req: "req_ok p cs0 cd nonce req"
    and m: "made p cd D cs" and c: "c \<in> set cs" "cname c = cr_name req" "label (clabels c) ManagedLabel = ''true''"
    and same: "label (clabels c) CandidateLabel = cd" and stopped: "\<not> crunning c"
  shows "hoare q (at cs k (d, t, w, se))
     (io_bind (txn_append p (zero_entry\<lparr>je_kind := ''start'', je_name := cr_name req, je_id := cid c\<rparr>)) (\<lambda>_.
      io_bind (StartContainer (cid c)) (\<lambda>_. io_ret actionStarted)))
     (\<lambda>_. going p cs0 se cd nonce (insert (cr_name req) D)) (\<lambda>_. failing q p cs0 se) (recov p cs0 se)"
    (is "hoare q _ _ ?Q ?E ?C")
proof -
  let ?n = "cr_name req" and ?es = "set (j_entries t)"
  define e where "e = zero_entry\<lparr>je_kind := ''start'', je_name := ?n, je_id := cid c\<rparr>"
  define t1 where "t1 = add_entry e t"
  define d1 where "d1 = d(p \<mapsto> Document t1)"
  have e: "je_name e = ?n" "je_kind e = ''start''" "je_new_id e = ''''" "je_id e = cid c"
    by (simp_all add: e_def zero_entry_def)
  note old = existing_old [OF i D req c]
  have r0: "recoverable p cs0 t ?es cs k" using i by (rule in_txn_recoverable)
  have ids: "cid c \<noteq> ''''" "'''' \<notin> cid ` set cs0"
    using r0 c(1) by (auto simp: recoverable_def wf_ctrs_def list_all_iff)
  have about: "entry_about p cs0 e"
    using req e ids old stopped c by (auto simp: entry_about_def req_ok_def mine_def)
  have r1: "recoverable p cs0 t (insert e ?es) cs k"
    by (rule recoverable_add [OF r0 about]) (use e old c in auto)
  have ok: "entry_ok e" "e \<notin> ?es" using e req old c ids image_eqI [of ?n je_name e]
    by (auto simp: entry_ok_def req_ok_def)
  note ap = hoare_append [OF i r1 ok, folded t1_def, folded d1_def]
  have t1: "j_entries t1 = j_entries t @ [e]" "same_owner t t1" by (simp_all add: t1_def)
  have r1': "recoverable p cs0 t1 (set (j_entries t1)) cs k" using ap(1) by (rule in_txn_recoverable)
  have "moved (set (j_entries t1)) c (c\<lparr>crunning := b\<rparr>)" for b
    using e t1(1) by (auto simp: moved_def same_ctr_def)
  then have r2: "recoverable p cs0 t1 (set (j_entries t1)) (run_ctr (cid c) b cs) k" for b
    by (intro recoverable_old_upd [OF r1' c(1) refl old(1)])
       (use old(3) in \<open>auto intro: staged_free_canonical\<close>)
  have i2: "in_txn p cs0 (d1, t1, True, se) k (run_ctr (cid c) b cs)" for b
    using ap(1) r2 by (rule in_txn_step)
  have m2: "made p cd (insert ?n D) (run_ctr (cid c) b cs)" for b
    by (rule made_run, rule made_insert [OF m c(1,2) old(2) same])
  have fin: "going p cs0 se cd nonce (insert ?n D) s"
    if "at (run_ctr (cid c) (\<not> se (cid c)) cs) k (d1, t1, True, se) s" for s
    by (rule goingI [OF that i2 _ _ _ m2]) (use D t t1 e(1) in \<open>auto simp: same_owner_def\<close>)
  have "hoare q (at cs k (d1, t1, True, se)) (io_bind (StartContainer (cid c)) (\<lambda>_. io_ret actionStarted)) ?Q ?E ?C"
    by (rule hoare_bind [OF hoare_txn_start [OF ap(1) _ i2]]) (use fin c(1) in \<open>auto intro: hoare_ret\<close>)
  then show ?thesis
    unfolding e_def [symmetric] by (intro hoare_bind [OF ap(2)] hoare_pure)
qed

text \<open>The swap: everything of a replacement after its journal entry is complete.\<close>

definition swap :: "create_request \<Rightarrow> ctr \<Rightarrow> string \<Rightarrow> containerAction io" where
  "swap req existing newID =
     io_bind (io_when (crunning existing) (StopContainer (cid existing))) (\<lambda>_.
     io_bind (RenameContainer (cid existing) (cr_name req @ retiredSuffix)) (\<lambda>_.
     io_bind (RenameContainer newID (cr_name req)) (\<lambda>_.
     io_bind (StartContainer newID) (\<lambda>_. io_ret actionCreated))))"

lemma replaceContainer_swap:
  "replaceContainer project req existing =
     io_bind (txn_append project (zero_entry\<lparr>je_kind := ''replace'', je_name := cr_name req,
                je_old_id := cid existing, je_was_running := crunning existing\<rparr>)) (\<lambda>idx.
     io_bind (createOnly (req\<lparr>cr_name := cr_name req @ stagedSuffix\<rparr>)) (\<lambda>newID.
     io_bind (txn_backfill project idx (je_new_id_update (\<lambda>_. newID))) (\<lambda>_. swap req existing newID)))"
  by (simp add: replaceContainer_def swap_def)

lemma hoare_swap:
  assumes i: "in_txn p cs0 (d, t, True, se) k cs" and D: "je_name ` set (j_entries t) \<subseteq> insert (cr_name req) D"
      "cr_name req \<notin> D" "\<forall>m \<in> D. canonical_name m"
    and t: "j_nonce t = nonce" "j_candidate t = cd" and n: "canonical_name (cr_name req)" and m: "made p cd D cs"
    and c: "c \<in> set cs0" "c \<in> set cs" "cname c = cr_name req"
    and new: "new \<in> set cs" "cid new \<notin> cid ` set cs0" "cname new = cr_name req @ stagedSuffix"
      "mine p new" "label (clabels new) CandidateLabel = cd"
    and e: "e \<in> set (j_entries t)" "je_kind e = ''replace''" "je_name e = cr_name req" "je_old_id e = cid c" "je_new_id e = cid new"
  shows "hoare q (at cs k (d, t, True, se)) (swap req c (cid new))
     (\<lambda>_. going p cs0 se cd nonce (insert (cr_name req) D)) (\<lambda>_. failing q p cs0 se) (recov p cs0 se)"
    (is "hoare q _ _ ?Q ?E ?C")
proof -
  let ?n = "cr_name req" and ?r = "(d, t, True, se)" and ?es = "set (j_entries t)"
  have r0: "recoverable p cs0 t ?es cs k" using i by (rule in_txn_recoverable)
  have wf: "wf_ctrs cs" using r0 by (simp add: recoverable_def)
  have diff: "cid c \<noteq> cid new" using c(1) new(2) by (metis image_eqI)
  define c1 where "c1 = (if crunning c then c\<lparr>crunning := False\<rparr> else c)"
  define cs1 where "cs1 = (if crunning c then stop_ctr (cid c) cs else cs)"
  have c1: "cid c1 = cid c" "cname c1 = ?n" "same_ctr c1 c" "crunning c1 = False"
    using c(3) by (auto simp: c1_def same_ctr_def)
  have in1: "c1 \<in> set cs1" "new \<in> set cs1"
    using c(2) new(1) diff by (auto simp: c1_def cs1_def set_upd)
  have "moved ?es c (c\<lparr>crunning := False\<rparr>)" using e by (auto simp: moved_def same_ctr_def)
  then have "recoverable p cs0 t ?es (stop_ctr (cid c) cs) k"
    by (intro recoverable_old_upd [OF r0 c(2) refl c(1)]) (use n c(3) in \<open>auto intro: staged_free_canonical\<close>)
  then have i1: "in_txn p cs0 ?r k cs1" using i by (auto simp: cs1_def intro: in_txn_step)
  have r1: "recoverable p cs0 t ?es cs1 k" using i1 by (rule in_txn_recoverable)
  have wf1: "wf_ctrs cs1" using r1 by (simp add: recoverable_def)
  have m1: "made p cd D cs1" using m by (simp add: cs1_def made_run)
  have stop: "hoare q (at cs k ?r) (io_when (crunning c) (StopContainer (cid c))) (\<lambda>_. at cs1 k ?r) ?E ?C"
  proof (rule hoare_when)
    assume "crunning c"
    then show "hoare q (at cs k ?r) (StopContainer (cid c)) (\<lambda>_. at cs1 k ?r) ?E ?C"
      using hoare_txn_stop [OF i, of "cid c" q] i1 c(2) by (simp add: cs1_def)
  qed (simp add: cs1_def)
  define c2 where "c2 = c1\<lparr>cname := ?n @ retiredSuffix\<rparr>"
  define cs2 where "cs2 = rename_ctr (cid c) (?n @ retiredSuffix) cs1"
  have uniq1: "x = c1" if "x \<in> set cs1" "cid x = cid c" for x
    using that in1(1) c1(1) wf1 by (auto dest: wf_ctrsD(1))
  have "moved ?es c c2" using e c1 c(3) by (auto simp: moved_def c2_def)
  moreover have "staged_free ?es c2"
    using staged_not_retired by (auto simp: staged_free_def c2_def dest: sym)
  ultimately have r2: "recoverable p cs0 t ?es cs2 k" if "?n @ retiredSuffix \<notin> cname ` set cs1"
    unfolding cs2_def by (intro recoverable_old_upd [OF r1 in1(1) c1(1) c(1)]) (use that in \<open>simp_all add: c2_def\<close>)
  then have i2: "in_txn p cs0 ?r k cs2" if "?n @ retiredSuffix \<notin> cname ` set cs1"
    using that i by (auto intro: in_txn_step)
  have retire: "hoare q (at cs1 k ?r) (RenameContainer (cid c) (?n @ retiredSuffix))
      (\<lambda>_ s. ?n @ retiredSuffix \<notin> cname ` set cs1 \<and> at cs2 k ?r s) ?E ?C"
    unfolding cs2_def
  proof (rule hoare_txn_rename [OF i1])
    show "cid c \<in> cid ` set cs1" using in1(1) c1(1) by (metis image_eqI)
    have "cname x \<noteq> ?n @ retiredSuffix" if "x \<in> set cs1" "cid x = cid c" for x
      using uniq1 [OF that] c1(2) by (simp add: retiredSuffix_def)
    then show "\<forall>x \<in> set cs1. cid x = cid c \<longrightarrow> cname x \<noteq> ?n @ retiredSuffix" by blast
  qed (use i2 in \<open>simp add: cs2_def\<close>)
  have in2: "new \<in> set cs2" using in1(2) diff by (auto simp: cs2_def set_upd)
  have m2: "made p cd D cs2"
    unfolding cs2_def using uniq1 c1(2) D(2) by (intro made_rename [OF m1]) metis
  define cs3 where "cs3 = rename_ctr (cid new) ?n cs2"
  define n3 where "n3 = new\<lparr>cname := ?n\<rparr>"
  have uniq2: "x = new" if "x \<in> set cs2" "cid x = cid new" "?n @ retiredSuffix \<notin> cname ` set cs1" for x
    using that in2 r2 by (auto simp: recoverable_def dest: wf_ctrsD(1))
  have "own_new p t ?es n3" using new(4) e by (auto simp: own_new_def n3_def mine_def)
  moreover have "staged_free ?es n3" using n by (intro staged_free_canonical) (simp add: n3_def)
  ultimately have r3: "recoverable p cs0 t ?es cs3 k"
    if "?n @ retiredSuffix \<notin> cname ` set cs1" "?n \<notin> cname ` set cs2"
    unfolding cs3_def by (intro recoverable_rename_new [OF r2 in2 refl new(2)]) (use that in \<open>simp_all add: n3_def\<close>)
  then have i3: "in_txn p cs0 ?r k cs3" if "?n @ retiredSuffix \<notin> cname ` set cs1" "?n \<notin> cname ` set cs2"
    using that i by (auto intro: in_txn_step)
  have in3: "n3 \<in> set cs3" using in2 by (auto simp: cs3_def n3_def set_upd)
  have m3: "made p cd D cs3" if "?n @ retiredSuffix \<notin> cname ` set cs1"
    unfolding cs3_def
    using uniq2 [OF _ _ that] new(3) D(3) canonical_no_suffix by (intro made_rename [OF m2]) metis
  have swap: "hoare q (at cs2 k ?r) (RenameContainer (cid new) ?n)
      (\<lambda>_ s. ?n \<notin> cname ` set cs2 \<and> at cs3 k ?r s) ?E ?C" if free: "?n @ retiredSuffix \<notin> cname ` set cs1"
    unfolding cs3_def
  proof (rule hoare_txn_rename [OF i2 [OF free]])
    show "cid new \<in> cid ` set cs2" using in2 by simp
    have "cname x \<noteq> ?n" if x: "x \<in> set cs2" "cid x = cid new" for x
      using uniq2 [OF x free] new(3) by (simp add: stagedSuffix_def)
    then show "\<forall>x \<in> set cs2. cid x = cid new \<longrightarrow> cname x \<noteq> ?n" by blast
  qed (use i3 free in \<open>simp add: cs3_def\<close>)
  have start: "hoare q (at cs3 k ?r) (io_bind (StartContainer (cid new)) (\<lambda>_. io_ret actionCreated)) ?Q ?E ?C"
    if free: "?n @ retiredSuffix \<notin> cname ` set cs1" "?n \<notin> cname ` set cs2"
  proof -
    have i4: "in_txn p cs0 ?r k (run_ctr (cid new) b cs3)" for b
      using recoverable_stop_new [OF r3 [OF free] in3, of "cid new" b] new(2) i
      by (auto simp: n3_def intro: in_txn_step)
    have m4: "made p cd (insert ?n D) (run_ctr (cid new) b cs3)" for b
      by (rule made_run, rule made_insert [OF m3 [OF free(1)] in3])
         (use new(4,5) in \<open>auto simp: n3_def mine_def\<close>)
    have fin: "going p cs0 se cd nonce (insert ?n D) s"
      if "at (run_ctr (cid new) (\<not> se (cid new)) cs3) k ?r s" for s
      by (rule goingI [OF that i4 _ _ _ m4]) (use D t in auto)
    have "cid new \<in> cid ` set cs3" using in3 by (auto simp: n3_def intro: rev_image_eqI)
    then show ?thesis
      by (intro hoare_bind [OF hoare_txn_start [OF i3 [OF free] _ i4]]) (use fin in \<open>auto intro: hoare_ret\<close>)
  qed
  show ?thesis
    unfolding swap_def
    by (intro hoare_bind [OF stop] hoare_bind [OF retire] hoare_pure hoare_bind [OF swap] start)
qed

lemma hoare_replaceContainer:
  assumes i: "in_txn p cs0 (d, t, w, se) k cs" and D: "je_name ` set (j_entries t) \<subseteq> D" "cr_name req \<notin> D"
      "\<forall>m \<in> D. canonical_name m"
    and t: "j_nonce t = nonce" "j_candidate t = cd" and req: "req_ok p cs0 cd nonce req"
    and m: "made p cd D cs" and c: "c \<in> set cs" "cname c = cr_name req" "label (clabels c) ManagedLabel = ''true''"
  shows "hoare q (at cs k (d, t, w, se)) (replaceContainer p req c)
     (\<lambda>_. going p cs0 se cd nonce (insert (cr_name req) D)) (\<lambda>_. failing q p cs0 se) (recov p cs0 se)"
    (is "hoare q _ _ ?Q ?E ?C")
proof -
  let ?n = "cr_name req" and ?es = "set (j_entries t)"
  define sreq where "sreq = req\<lparr>cr_name := ?n @ stagedSuffix\<rparr>"
  define e where "e = zero_entry\<lparr>je_kind := ''replace'', je_name := ?n, je_old_id := cid c, je_was_running := crunning c\<rparr>"
  define new where "new = created_ctr k sreq"
  define t1 where "t1 = add_entry e t"
  define d1 where "d1 = d(p \<mapsto> Document t1)"
  have e: "je_name e = ?n" "je_kind e = ''replace''" "je_new_id e = ''''" "je_old_id e = cid c"
    "je_was_running e = crunning c" by (simp_all add: e_def zero_entry_def)
  note old = existing_old [OF i D(1,2) req c]
  have r0: "recoverable p cs0 t ?es cs k" using i by (rule in_txn_recoverable)
  have ids: "cid c \<noteq> ''''" "'''' \<notin> cid ` set cs0"
    using r0 c(1) by (auto simp: recoverable_def wf_ctrs_def list_all_iff)
  have about: "entry_about p cs0 e"
    using req e ids old c by (auto simp: entry_about_def req_ok_def mine_def)
  have name: "je_name e \<notin> je_name ` ?es" using e old c by simp
  have r1: "recoverable p cs0 t (insert e ?es) cs k"
    by (rule recoverable_add [OF r0 about name]) (use e in simp)
  have ok: "entry_ok e" "e \<notin> ?es" using e req name ids image_eqI [of ?n je_name e]
    by (auto simp: entry_ok_def req_ok_def)
  note ap = hoare_append [OF i r1 ok, folded t1_def, folded d1_def]
  have t1: "j_entries t1 = j_entries t @ [e]" "same_owner t t1" by (simp_all add: t1_def)
  have r1': "recoverable p cs0 t1 (set (j_entries t1)) cs k" using ap(1) by (rule in_txn_recoverable)
  have new: "mine p new" "cid new \<notin> cid ` set cs0" "cname new = ?n @ stagedSuffix" "is_debris new"
      "label (clabels new) CandidateLabel = cd"
    using req new_id_fresh [OF r0] by (auto simp: new_def sreq_def mine_def req_ok_def is_debris_def)
  have free: "staged_free (set (j_entries t1)) new"
    using t1(1) e name new(3) by (auto simp: staged_free_def)
  have i2: "in_txn p cs0 (d1, t1, True, se) (Suc k) (cs @ [new])" if "?n @ stagedSuffix \<notin> cname ` set cs"
  proof (rule in_txn_step [OF ap(1)], rule recoverable_snoc [OF r1'])
    show "own_new p t1 (set (j_entries t1)) new" using new by (simp add: own_new_def)
  qed (use that free new in \<open>auto simp: new_def sreq_def\<close>)
  have create: "hoare q (at cs k (d1, t1, True, se)) (createOnly sreq)
      (\<lambda>x s. x = cid new \<and> ?n @ stagedSuffix \<notin> cname ` set cs \<and> at (cs @ [new]) (Suc k) (d1, t1, True, se) s) ?E ?C"
    using hoare_createOnly [OF ap(1) _ refl, of sreq q] i2 by (simp add: new_def sreq_def)
  define f :: "journal_entry \<Rightarrow> journal_entry" where "f = je_new_id_update (\<lambda>_. cid new)"
  have rest: "hoare q (at (cs @ [new]) (Suc k) (d1, t1, True, se))
      (io_bind (txn_backfill p (length (j_entries t)) f) (\<lambda>_. swap req c (cid new))) ?Q ?E ?C"
    if nn: "?n @ stagedSuffix \<notin> cname ` set cs"
  proof -
    note i2 = i2 [OF nn]
    have r3: "recoverable p cs0 t1 (insert (f e) ?es) (cs @ [new]) (Suc k)"
      using recoverable_backfill [of p cs0 t1 e ?es "cs @ [new]" "Suc k" new]
        in_txn_recoverable [OF i2] t1 e name new by (simp add: f_def)
    have ok3: "entry_ok (f e)" "f e \<notin> ?es" "je_name (f e) = je_name e"
      using ok(1) name e(1) image_eqI [of ?n je_name "f e"] by (auto simp: f_def entry_ok_def)
    define t2 where "t2 = set_entry (length (j_entries t)) f t1"
    define d2 where "d2 = d1(p \<mapsto> Document t2)"
    note bf = hoare_backfill [where f = f and e = e, OF i2 t1(1) e(3) r3 ok3, folded t2_def, folded d2_def]
    have "hoare q (at (cs @ [new]) (Suc k) (d2, t2, True, se)) (swap req c (cid new)) ?Q ?E ?C"
    proof (rule hoare_swap [OF bf(1) _ D(2,3), where e = "f e"])
      show "canonical_name ?n" using req by (simp add: req_ok_def)
      show "made p cd D (cs @ [new])" using m by (rule made_snoc)
    qed (use D(1) t t1(2) bf(2,3) ok3 e new old(1) c in \<open>auto simp: same_owner_def f_def\<close>)
    then show ?thesis by (rule hoare_bind [OF bf(4)])
  qed
  show ?thesis
    unfolding replaceContainer_swap e_def [symmetric] sreq_def [symmetric]
  proof (rule hoare_bind [OF ap(2)], rule hoare_pure, rule hoare_bind [OF create], intro hoare_pure)
    fix idx x assume "idx = length (j_entries t)" "x = cid new" "?n @ stagedSuffix \<notin> cname ` set cs"
    then show "hoare q (at (cs @ [new]) (Suc k) (d1, t1, True, se))
      (io_bind (txn_backfill p idx (je_new_id_update (\<lambda>_. x))) (\<lambda>_. swap req c x)) ?Q ?E ?C"
      using rest by (simp add: f_def)
  qed
qed

lemma hoare_going:
  assumes "\<And>cs k d t w. in_txn p cs0 (d, t, w, se) k cs \<Longrightarrow> je_name ` set (j_entries t) \<subseteq> D \<Longrightarrow>
      j_nonce t = nonce \<Longrightarrow> j_candidate t = cd \<Longrightarrow> made p cd D cs \<Longrightarrow> hoare q (at cs k (d, t, w, se)) m Q E C"
  shows "hoare q (going p cs0 se cd nonce D) m Q E C"
proof -
  have "hoare q (\<lambda>s. \<exists>cs k d t w. (in_txn p cs0 (d, t, w, se) k cs \<and> je_name ` set (j_entries t) \<subseteq> D \<and>
      j_nonce t = nonce \<and> j_candidate t = cd \<and> made p cd D cs) \<and> at cs k (d, t, w, se) s) m Q E C"
    by (intro hoare_ex hoare_pure) (use assms in blast)
  then show ?thesis by (rule hoare_pre) (unfold going_def, blast)
qed

text \<open>\<^verbatim>\<open>reconcileContainer\<close> leaves its container made, and the transaction recoverable.\<close>

lemma hoare_reconcileContainer:
  assumes D: "cr_name req \<notin> D" "\<forall>m \<in> D. canonical_name m" and req: "req_ok p cs0 cd nonce req"
  shows "hoare q (going p cs0 se cd nonce D) (reconcileContainer p req opts)
     (\<lambda>_. going p cs0 se cd nonce (insert (cr_name req) D)) (\<lambda>_. failing q p cs0 se) (recov p cs0 se)"
    (is "hoare q _ _ ?Q ?E ?C")
proof (rule hoare_going)
  fix cs k d t w
  assume i: "in_txn p cs0 (d, t, w, se) k cs" and es: "je_name ` set (j_entries t) \<subseteq> D"
    and t: "j_nonce t = nonce" "j_candidate t = cd" and m: "made p cd D cs"
  let ?n = "cr_name req" and ?P = "at cs k (d, t, w, se)"
  have fails: "?P s \<Longrightarrow> failing q p cs0 se s" and dies: "?P s \<Longrightarrow> recov p cs0 se s" for s
    using in_txn_fails [OF i] in_txn_recov [OF i] by blast+
  let ?R = "\<lambda>x s. (case x of Inl e \<Rightarrow> errors_is e ErrNotFound \<longrightarrow> ?n \<notin> cname ` set cs
      | Inr (c, a) \<Rightarrow> c \<in> set cs \<and> cname c = ?n) \<and> ?P s"
  have inspect: "hoare q ?P (io_try (InspectContainer ?n)) ?R ?E ?C"
    by (rule hoare_try, rule hoare_inspect) (use dies in auto)
  show "hoare q ?P (reconcileContainer p req opts) ?Q ?E ?C"
    unfolding reconcileContainer_def
  proof (rule hoare_bind [OF inspect], rule hoare_pure)
    fix x :: "error + ctr \<times> (string \<times> string) option"
    assume x: "case x of Inl e \<Rightarrow> errors_is e ErrNotFound \<longrightarrow> ?n \<notin> cname ` set cs
      | Inr (c, a) \<Rightarrow> c \<in> set cs \<and> cname c = ?n"
    show "hoare q ?P (case x of
        Inl e \<Rightarrow> if errors_is e ErrNotFound then createFresh p req else io_fail e
      | Inr (existing, _) \<Rightarrow>
         if label (clabels existing) ManagedLabel \<noteq> ''true''
         then io_fail (Class ErrConflict ''%w: container %s exists but is not managed by vibe'' [?n])
         else if same_desired existing req \<and> \<not> uo_force opts
         then (if crunning existing then io_ret actionNone
               else io_bind (txn_append p (zero_entry\<lparr>je_kind := ''start'', je_name := ?n,
                               je_id := cid existing\<rparr>)) (\<lambda>_.
                    io_bind (StartContainer (cid existing)) (\<lambda>_. io_ret actionStarted)))
         else replaceContainer p req existing) ?Q ?E ?C"
    proof (cases x)
      case (Inl e)
      then show ?thesis
        using x fails hoare_createFresh [OF i es D(1) t req m] by (auto intro: hoare_fail)
    next
      case (Inr ca)
      obtain c a where ca: "ca = (c, a)" by (cases ca)
      with x Inr have c: "c \<in> set cs" "cname c = ?n" by auto
      show ?thesis
      proof (cases "label (clabels c) ManagedLabel = ''true''")
        case False
        then show ?thesis using fails by (auto simp: Inr ca intro: hoare_fail)
      next
        case managed: True
        have same: "label (clabels c) CandidateLabel = cd" if "same_desired c req"
          using that req by (simp add: same_desired_def req_ok_def)
        have none: "going p cs0 se cd nonce (insert ?n D) s" if "?P s" "same_desired c req" for s
          using made_insert [OF m c existing_old(2) [OF i es D(1) req c managed] same [OF that(2)]] es t
          by (intro goingI [OF that(1) i]) auto
        show ?thesis
          using managed none same hoare_startExisting [OF i es D(1) t req m c managed]
            hoare_replaceContainer [OF i es D t req m c managed]
          by (auto simp: Inr ca intro: hoare_ret)
      qed
    qed
  qed
qed

end
