(* ===== verification/UpOutcome.thy ===== *)
theory UpOutcome
  imports UpSafe
begin

text \<open>
  What an \<^verbatim>\<open>Up\<close> ends in: the containers it started from, a state from which the next
  \<^verbatim>\<open>sweep\<close> restores them, or the committed next generation, in which every desired container
  exists, runs, carries the candidate's label and is the engine's own, and no other container
  of the machine has changed.
\<close>

section \<open>Calls that change nothing the runtime tracks\<close>

definition reads :: "'a io \<Rightarrow> bool" where
  "reads m \<longleftrightarrow> (\<forall>q cs k r. hoare q (at cs k r) m (\<lambda>_. at cs k r) (\<lambda>_. at cs k r) (at cs k r))"

lemma reads_hoare:
  "reads m \<Longrightarrow> hoare q (at cs k r) m (\<lambda>_. at cs k r) (\<lambda>_. at cs k r) (at cs k r)"
  unfolding reads_def by blast

named_theorems reads_rules \<open>operations that only read\<close>

lemma reads_ret [reads_rules]: "reads (io_ret x)"
  by (simp add: reads_def hoare_ret)

lemma reads_fail [reads_rules]: "reads (io_fail e)"
  by (simp add: reads_def hoare_fail)

lemma reads_query [reads_rules]: "reads (docker_query f)"
  by (simp add: reads_def hoare_query)

lemma reads_fs_query: "(\<And>s fs. f (s\<lparr>faults := fs\<rparr>) = f s) \<Longrightarrow> reads (fs_query f)"
  unfolding reads_def by (auto intro!: hoare_fs_query)

lemma reads_perform:
  assumes "\<And>s fs. f (s\<lparr>faults := fs\<rparr>) = f s"
  shows "reads (perform (\<lambda>s. (f s, s)))"
  unfolding reads_def
  by (auto intro!: hoare_perform simp: ignores_faults_def assms call_post_def split: sum.splits)

lemma reads_bind [reads_rules]: "reads m \<Longrightarrow> (\<And>x. reads (f x)) \<Longrightarrow> reads (io_bind m f)"
  unfolding reads_def by (blast intro: hoare_bind)

lemma reads_try [reads_rules]: "reads m \<Longrightarrow> reads (io_try m)"
  unfolding reads_def [of "io_try m"] by (intro allI hoare_try reads_hoare)

lemma reads_wrap [reads_rules]: "reads m \<Longrightarrow> reads (io_wrap f as m)"
  unfolding reads_def by (blast intro: hoare_wrap)

lemma reads_each [reads_rules]: "(\<And>x. x \<in> set xs \<Longrightarrow> reads (f x)) \<Longrightarrow> reads (io_each f xs)"
  by (induction xs) (auto intro: reads_rules)

lemma reads_calls [reads_rules]:
  "reads (InspectContainer n)" "reads (Logs n)" "reads (Exec req)" "reads (ListProjectContainers p)"
  by (simp_all add: InspectContainer_def Logs_def Exec_def ListProjectContainers_def reads_rules)

lemma reads_dnsCrashDetail [reads_rules]: "reads (dnsCrashDetail st)"
  unfolding dnsCrashDetail_def Let_def
  by (auto intro!: reads_rules split: sum.splits)

lemma reads_resolveDNS [reads_rules]: "reads (resolveDNS plan)"
  unfolding resolveDNS_def Let_def
  by (auto intro!: reads_rules split: list.splits option.splits prod.splits)

lemma reads_run_hook [reads_rules]: "reads (run_hook plan mode)"
  unfolding run_hook_def by (auto intro!: reads_rules)

lemma reads_runLifecycle [reads_rules]: "reads (runLifecycle plan action)"
  unfolding runLifecycle_def by (auto intro!: reads_rules)

lemma reads_loadEnvFile [reads_rules]: "reads (loadEnvFile plan snap)"
proof -
  have "reads (perform (\<lambda>s. (case files s n of None \<Rightarrow> Inl e | Some d \<Rightarrow> Inr d, s)))" for n and e :: error
    by (rule reads_perform) simp
  then show ?thesis
    unfolding loadEnvFile_def by (auto intro!: reads_rules reads_fs_query split: sum.splits)
qed

lemma reads_open_object [reads_rules]: "reads (open_object kind d)"
  unfolding open_object_def by (rule reads_perform) (simp split: option.splits)

text \<open>Creating networks and volumes touches no container.\<close>

lemma reads_ensure [reads_rules]: "reads (EnsureNetwork n ls)" "reads (EnsureVolume n ls)"
  unfolding EnsureNetwork_def EnsureVolume_def reads_def
  by (auto intro!: hoare_docker_call simp: at_def rest_of_def)

text \<open>An assertion about the tracked state survives such calls.\<close>

definition tracked :: "(sys \<Rightarrow> bool) \<Rightarrow> bool" where
  "tracked P \<longleftrightarrow> (\<forall>cs k r s s'. at cs k r s \<longrightarrow> at cs k r s' \<longrightarrow> P s \<longrightarrow> P s')"

lemma hoare_reads:
  assumes "reads m" "tracked P" "\<And>e s. P s \<Longrightarrow> E e s" "\<And>s. P s \<Longrightarrow> C s"
  shows "hoare q P m (\<lambda>_. P) E C"
proof (rule hoareI)
  fix s assume s: "faults_ok q s" "P (core s)"
  define cs k r where "cs = conts (wd s)" "k = next_id (wd s)" "r = rest_of (core s)"
  then have at: "at cs k r (core s)" by (simp add: at_def)
  have keep: "P s'" if "at cs k r s'" for s'
    using assms(2) at that s(2) unfolding tracked_def by blast
  have "hoare q (at cs k r) m (\<lambda>_. P) E C"
    by (rule hoare_post [OF reads_hoare [OF assms(1)]]) (use keep assms(3,4) in auto)
  then show "io_post q (\<lambda>_. P) E C (m s)" using s(1) at by (rule hoareD)
qed

lemma at_same: "at cs k r s \<Longrightarrow> at cs k r s' \<Longrightarrow> at cs' k' r' s = at cs' k' r' s'"
  by (auto simp: at_def)

lemma tracked_going: "tracked (going p cs0 se cd nonce D)"
  unfolding tracked_def
proof (intro allI impI)
  fix cs k r s s' assume s: "at cs k r s" "at cs k r s'" "going p cs0 se cd nonce D s"
  have same: "at cs' k' r' s = at cs' k' r' s'" for cs' k' r' using s(1,2) by (rule at_same)
  from s(3) show "going p cs0 se cd nonce D s'" unfolding going_def same .
qed

lemma tracked_recov: "tracked (\<lambda>s. recov p cs0 se s \<and> jfiles s p = None)"
  unfolding tracked_def recov_def recoverable_state_def at_def rest_of_def
  by (auto split: option.splits)

lemma tracked_recovered: "tracked (recovered p cs0 se)"
  unfolding tracked_def recovered_def recov_def recoverable_state_def at_def rest_of_def
  by (auto split: option.splits)

lemma going_fails: "going p cs0 se cd nonce D s \<Longrightarrow> failing q p cs0 se s \<and> recov p cs0 se s"
  unfolding going_def by (elim exE conjE) (intro conjI in_txn_fails in_txn_recov)

lemma hoare_reads_going:
  "reads m \<Longrightarrow> hoare q (going p cs0 se cd nonce D) m (\<lambda>_. going p cs0 se cd nonce D)
     (\<lambda>_. failing q p cs0 se) (recov p cs0 se)"
  by (rule hoare_reads [OF _ tracked_going]) (auto simp: going_fails)

section \<open>The body\<close>

abbreviation desired :: "plan \<Rightarrow> container list" where
  "desired plan \<equiv> p_services plan @ [p_dev plan]"

abbreviation names :: "plan \<Rightarrow> string set" where
  "names plan \<equiv> c_name ` set (desired plan)"

text \<open>
  What the compiler guarantees of a plan, and the one fact about the machine the runtime relies
  on: a container that has a desired name and the engine's mark belongs to this project.
\<close>

definition plan_ok :: "ctr list \<Rightarrow> plan \<Rightarrow> bool" where
  "plan_ok cs0 plan \<longleftrightarrow>
     distinct (map c_name (desired plan)) \<and>
     list_all (\<lambda>c. c_name c \<noteq> '''' \<and> canonical_name (c_name c) \<and>
       label (plan_labels c) ManagedLabel = ''true'' \<and>
       label (plan_labels c) ProjectLabel = p_project_id plan) (desired plan) \<and>
     list_all (\<lambda>c0. cname c0 \<in> names plan \<and> label (clabels c0) ManagedLabel = ''true'' \<longrightarrow>
       label (clabels c0) ProjectLabel = p_project_id plan) cs0"

lemma cr_name_createRequest [simp]: "cr_name (createRequest plan dg c nonce ip) = c_name c"
  by (simp add: createRequest_def Let_def)

lemma labels_distinct:
  "ManagedLabel \<noteq> TxnLabel" "ManagedLabel \<noteq> DNSLabel" "ManagedLabel \<noteq> CandidateLabel" "ManagedLabel \<noteq> ArtifactLabel"
  "ProjectLabel \<noteq> TxnLabel" "ProjectLabel \<noteq> DNSLabel" "ProjectLabel \<noteq> CandidateLabel" "ProjectLabel \<noteq> ArtifactLabel"
  "TxnLabel \<noteq> DNSLabel" "TxnLabel \<noteq> CandidateLabel" "TxnLabel \<noteq> ArtifactLabel" "CandidateLabel \<noteq> ArtifactLabel"
  by (simp_all add: ManagedLabel_def ProjectLabel_def TxnLabel_def DNSLabel_def CandidateLabel_def ArtifactLabel_def)

lemma req_ok_createRequest:
  assumes "plan_ok cs0 plan" "c \<in> set (desired plan)"
  shows "req_ok (p_project_id plan) cs0 (Digest_String dg) nonce (createRequest plan dg c nonce ip)"
proof -
  let ?l = "cr_labels (createRequest plan dg c nonce ip)"
  have "label ?l ManagedLabel = label (plan_labels c) ManagedLabel"
    "label ?l ProjectLabel = label (plan_labels c) ProjectLabel"
    "label ?l TxnLabel = nonce" "label ?l CandidateLabel = Digest_String dg"
    using labels_distinct by (simp_all add: createRequest_def Let_def containerLabels_def map_get_def)
  then show ?thesis using assms by (auto simp: plan_ok_def req_ok_def list_all_iff)
qed

lemma hoare_reconcile_named:
  assumes "plan_ok cs0 plan" "c \<in> set (desired plan)" "c_name c \<notin> D" "D \<subseteq> names plan"
  shows "hoare q (going (p_project_id plan) cs0 se (Digest_String dg) nonce D)
     (reconcile_named (p_project_id plan) opts (createRequest plan dg c nonce ip))
     (\<lambda>_. going (p_project_id plan) cs0 se (Digest_String dg) nonce (insert (c_name c) D))
     (\<lambda>_. failing q (p_project_id plan) cs0 se) (recov (p_project_id plan) cs0 se)"
proof -
  have "\<forall>m \<in> D. canonical_name m" using assms by (force simp: plan_ok_def list_all_iff)
  then show ?thesis
    unfolding reconcile_named_def
    using hoare_reconcileContainer [where D = D, OF _ _ req_ok_createRequest [OF assms(1,2)]] assms(3)
    by (intro hoare_wrap) simp
qed

lemma hoare_services:
  assumes "plan_ok cs0 plan" "p_services plan = ys @ xs"
  shows "hoare q (going (p_project_id plan) cs0 se (Digest_String dg) nonce (c_name ` set ys))
     (io_each (\<lambda>c. io_bind (reconcile_named (p_project_id plan) opts (createRequest plan dg c nonce ''''))
        (\<lambda>_. io_ret ())) xs)
     (\<lambda>_. going (p_project_id plan) cs0 se (Digest_String dg) nonce (c_name ` set (ys @ xs)))
     (\<lambda>_. failing q (p_project_id plan) cs0 se) (recov (p_project_id plan) cs0 se)"
  using assms(2)
proof (induction xs arbitrary: ys)
  case Nil
  then show ?case by (auto intro: hoare_ret)
next
  case (Cons x xs)
  have x: "x \<in> set (desired plan)" "c_name x \<notin> c_name ` set ys" "c_name ` set ys \<subseteq> names plan"
    using Cons.prems assms(1) by (auto simp: plan_ok_def)
  have "hoare q (going (p_project_id plan) cs0 se (Digest_String dg) nonce (c_name ` set ys))
      (io_bind (reconcile_named (p_project_id plan) opts (createRequest plan dg x nonce '''')) (\<lambda>_. io_ret ()))
      (\<lambda>_. going (p_project_id plan) cs0 se (Digest_String dg) nonce (c_name ` set (ys @ [x])))
      (\<lambda>_. failing q (p_project_id plan) cs0 se) (recov (p_project_id plan) cs0 se)"
    by (rule hoare_bind [OF hoare_reconcile_named [OF assms(1) x]]) (auto intro: hoare_ret)
  then show ?case
    unfolding io_each.simps
    by (rule hoare_bind) (use Cons.IH [of "ys @ [x]"] Cons.prems in simp)
qed

definition live :: "container list \<Rightarrow> sys \<Rightarrow> bool" where
  "live cl s \<longleftrightarrow> (\<forall>c \<in> set cl. \<exists>x \<in> set (conts (wd s)). cname x = c_name c \<and> crunning x)"

lemma tracked_live: "tracked (live cl)"
  by (simp add: tracked_def live_def at_def)

lemma tracked_conj: "tracked P \<Longrightarrow> tracked Q \<Longrightarrow> tracked (\<lambda>s. P s \<and> Q s)"
  unfolding tracked_def by blast

lemma trackedD: "tracked P \<Longrightarrow> at cs k r s \<Longrightarrow> P s \<Longrightarrow> at cs k r s' \<Longrightarrow> P s'"
  unfolding tracked_def by blast

lemma hoare_checkLiveness:
  "hoare q (going p cs0 se cd nonce D) (checkLiveness cl)
     (\<lambda>_ s. going p cs0 se cd nonce D s \<and> live cl s)
     (\<lambda>_. failing q p cs0 se) (recov p cs0 se)"
proof -
  let ?P = "\<lambda>ys s. going p cs0 se cd nonce D s \<and> live ys s"
  have step: "hoare q (?P ys)
      (io_bind (io_wrap ''container %s: %w'' [c_name c] (InspectContainer (c_name c))) (\<lambda>(st, _).
       if \<not> crunning st
       then io_fail (Plain ''container %s exited after start; failing the reconcile before commit'' [c_name c])
       else io_ret ())) (\<lambda>_. ?P (ys @ [c])) (\<lambda>_. failing q p cs0 se) (recov p cs0 se)" for c ys
  proof (rule hoareI)
    fix s assume s: "faults_ok q s" "?P ys (core s)"
    define cs k r where "cs = conts (wd s)" "k = next_id (wd s)" "r = rest_of (core s)"
    then have at: "at cs k r (core s)" by (simp add: at_def)
    have keep: "?P ys s'" if "at cs k r s'" for s'
      using trackedD [OF tracked_conj [OF tracked_going tracked_live] at s(2) that] .
    have fails: "failing q p cs0 se s' \<and> recov p cs0 se s'" if "at cs k r s'" for s'
      by (rule going_fails [OF conjunct1 [OF keep [OF that]]])
    have inspect: "hoare q (at cs k r) (io_wrap ''container %s: %w'' [c_name c] (InspectContainer (c_name c)))
        (\<lambda>x s. (fst x \<in> set cs \<and> cname (fst x) = c_name c) \<and> at cs k r s)
        (\<lambda>_. failing q p cs0 se) (recov p cs0 se)"
      by (rule hoare_wrap, rule hoare_inspect) (use fails in auto)
    have "hoare q (at cs k r)
      (io_bind (io_wrap ''container %s: %w'' [c_name c] (InspectContainer (c_name c))) (\<lambda>(st, _).
       if \<not> crunning st
       then io_fail (Plain ''container %s exited after start; failing the reconcile before commit'' [c_name c])
       else io_ret ())) (\<lambda>_. ?P (ys @ [c])) (\<lambda>_. failing q p cs0 se) (recov p cs0 se)"
    proof (rule hoare_bind [OF inspect])
      fix x :: "ctr \<times> (string \<times> string) option"
      show "hoare q (\<lambda>s. (fst x \<in> set cs \<and> cname (fst x) = c_name c) \<and> at cs k r s)
        (case x of (st, _) \<Rightarrow> if \<not> crunning st
          then io_fail (Plain ''container %s exited after start; failing the reconcile before commit'' [c_name c])
          else io_ret ()) (\<lambda>_. ?P (ys @ [c])) (\<lambda>_. failing q p cs0 se) (recov p cs0 se)"
      proof (rule hoare_pure)
        assume x: "fst x \<in> set cs \<and> cname (fst x) = c_name c"
        have "live (ys @ [c]) s'" if "at cs k r s'" "crunning (fst x)" for s'
          using keep [OF that(1)] that x by (auto simp: live_def at_def)
        then show "hoare q (at cs k r)
          (case x of (st, _) \<Rightarrow> if \<not> crunning st
            then io_fail (Plain ''container %s exited after start; failing the reconcile before commit'' [c_name c])
            else io_ret ()) (\<lambda>_. ?P (ys @ [c])) (\<lambda>_. failing q p cs0 se) (recov p cs0 se)"
          using keep fails by (auto simp: split_beta intro!: hoare_ret hoare_fail)
      qed
    qed
    then show "io_post q (\<lambda>_. ?P (ys @ [c])) (\<lambda>_. failing q p cs0 se) (recov p cs0 se)
      (io_bind (io_wrap ''container %s: %w'' [c_name c] (InspectContainer (c_name c))) (\<lambda>(st, _).
       if \<not> crunning st
       then io_fail (Plain ''container %s exited after start; failing the reconcile before commit'' [c_name c])
       else io_ret ()) s)" using s(1) at by (rule hoareD)
  qed
  have "hoare q (?P []) (checkLiveness cl) (\<lambda>_. ?P ([] @ cl)) (\<lambda>_. failing q p cs0 se) (recov p cs0 se)"
    unfolding checkLiveness_def by (rule hoare_each_acc) (rule step)
  then show ?thesis by (auto simp: live_def elim: hoare_pre)
qed

lemma hoare_up_body:
  fixes plan :: plan and dg :: digest
  assumes "plan_ok cs0 plan"
  defines "p \<equiv> p_project_id plan" and "cd \<equiv> Digest_String dg"
  shows "hoare q (going p cs0 se cd nonce {}) (up_body plan dg nonce opts)
     (\<lambda>_ s. going p cs0 se cd nonce (names plan) s \<and> live (desired plan) s)
     (\<lambda>_. failing q p cs0 se) (recov p cs0 se)" (is "hoare q _ _ ?Q ?E ?C")
proof -
  let ?S = "c_name ` set (p_services plan)"
  have dev: "p_dev plan \<in> set (desired plan)" "c_name (p_dev plan) \<notin> ?S" "?S \<subseteq> names plan"
    "insert (c_name (p_dev plan)) ?S = names plan"
    using assms(1) by (auto simp: plan_ok_def)
  have services: "hoare q (going p cs0 se cd nonce {})
      (io_each (\<lambda>c. io_bind (reconcile_named p opts (createRequest plan dg c nonce '''')) (\<lambda>_. io_ret ()))
         (p_services plan)) (\<lambda>_. going p cs0 se cd nonce ?S) ?E ?C"
    using hoare_services [OF assms(1), of "[]" "p_services plan"] by (simp add: p_def cd_def)
  have reconcile: "hoare q (going p cs0 se cd nonce ?S) (reconcile_named p opts (createRequest plan dg (p_dev plan) nonce ip))
      (\<lambda>_. going p cs0 se cd nonce (names plan)) ?E ?C" for ip
    using hoare_reconcile_named [OF assms(1) dev(1-3)] unfolding dev(4) p_def cd_def .
  have dns: "hoare q (going p cs0 se cd nonce ?S) (resolveDNS plan) (\<lambda>_. going p cs0 se cd nonce ?S) ?E ?C"
    by (rule hoare_reads_going) (rule reads_rules)
  have hooks: "hoare q (going p cs0 se cd nonce (names plan)) (runLifecycle plan a)
      (\<lambda>_. going p cs0 se cd nonce (names plan)) ?E ?C" for a
    by (rule hoare_reads_going) (rule reads_rules)
  show ?thesis
    unfolding up_body_def Let_def p_def [symmetric]
    by (rule hoare_bind [OF services], rule hoare_bind [OF dns], rule hoare_bind [OF reconcile],
        rule hoare_bind [OF hooks], rule hoare_checkLiveness)
qed

section \<open>The next generation\<close>

definition next_gen :: "ctr list \<Rightarrow> plan \<Rightarrow> string \<Rightarrow> ctr list \<Rightarrow> bool" where
  "next_gen cs0 plan cd cs1 \<longleftrightarrow>
     (\<forall>c \<in> set (desired plan). \<exists>x \<in> set cs1. cname x = c_name c \<and> crunning x \<and>
        mine (p_project_id plan) x \<and> label (clabels x) CandidateLabel = cd) \<and>
     (\<forall>c0 \<in> set cs0. cname c0 \<notin> names plan \<longrightarrow> c0 \<in> set cs1) \<and>
     (\<forall>x \<in> set cs1. cname x \<in> names plan \<or> x \<in> set cs0)"

lemma survivor:
  assumes r: "recoverable p cs0 t E cs k" and x: "x \<in> set cs" "\<not> debris p x"
  shows "x \<in> set cs0 \<or> cname x \<in> je_name ` E"
proof (cases "cid x \<in> cid ` set cs0")
  case False
  with r x have "own_new p t E x" by (simp add: recoverable_def)
  with x(2) show ?thesis by (auto simp: own_new_def debris_def)
next
  case True
  then obtain c0 where c0: "c0 \<in> set cs0" "cid x = cid c0" by auto
  have m: "moved E c0 x" by (rule recoverable_old_unique [OF r c0(1) x(1) c0(2)])
  have wf: "wf_ctrs cs0" using r by (simp add: recoverable_def)
  have about: "cname c0 = je_name e \<and> mine p c0"
    if e: "e \<in> E" "je_kind e = ''replace'' \<and> je_old_id e = cid c0 \<or> je_kind e = ''start'' \<and> je_id e = cid c0" for e
  proof -
    obtain c1 where c1: "c1 \<in> set cs0" "cid c1 = cid c0" "cname c1 = je_name e" "mine p c1"
      using recoverable_entry [OF r e(1)] e(2) by (auto simp: entry_about_def)
    with wf_ctrsD(1) [OF wf c1(1) c0(1)] show ?thesis by simp
  qed
  from m consider "x = c0"
    | e where "e \<in> E" "je_kind e = ''replace''" "je_old_id e = cid c0" "cname x \<in> {cname c0, cname c0 @ retiredSuffix}"
    | e where "e \<in> E" "je_kind e = ''start''" "je_id e = cid c0" "cname x = cname c0"
    by (auto simp: moved_def)
  then show ?thesis
  proof cases
    case 1
    with c0 show ?thesis by simp
  next
    case (2 e)
    have "mine p x" using about [OF 2(1)] 2(2,3) moved_same [OF m] by (simp add: mine_def)
    then have "cname x \<noteq> cname c0 @ retiredSuffix" using x(2) by (auto simp: debris_def is_debris_def mine_def)
    with 2 about [OF 2(1)] show ?thesis by auto
  next
    case (3 e)
    with about [OF 3(1)] show ?thesis by auto
  qed
qed

lemma next_generation:
  fixes plan :: plan
  defines "p \<equiv> p_project_id plan"
  assumes r: "recoverable p cs0 t (set (j_entries t)) cs k" and es: "je_name ` set (j_entries t) \<subseteq> names plan"
    and ok: "plan_ok cs0 plan" and m: "made p cd (names plan) cs"
    and l: "\<forall>c \<in> set (desired plan). \<exists>x \<in> set cs. cname x = c_name c \<and> crunning x"
  shows "next_gen cs0 plan cd (filter (\<lambda>c. \<not> debris p c) cs)"
    "recoverable p (filter (\<lambda>c. \<not> debris p c) cs) j {} cs k"
proof -
  let ?cs1 = "filter (\<lambda>c. \<not> debris p c) cs"
  have wf: "wf_ctrs cs" using r by (simp add: recoverable_def)
  have "\<exists>x \<in> set ?cs1. cname x = c_name c \<and> crunning x \<and> mine p x \<and> label (clabels x) CandidateLabel = cd"
    if c: "c \<in> set (desired plan)" for c
  proof -
    obtain x where x: "x \<in> set cs" "cname x = c_name c" "mine p x" "label (clabels x) CandidateLabel = cd"
      using m c unfolding made_def by fastforce
    obtain y where y: "y \<in> set cs" "cname y = c_name c" "crunning y" using l c by auto
    have "x = y" using wf x(1,2) y(1,2) by (auto dest: wf_ctrsD(2))
    moreover have "\<not> debris p x"
      using ok c x(2) canonical_not_debris [of x] by (auto simp: plan_ok_def list_all_iff debris_def)
    ultimately show ?thesis using x y by auto
  qed
  moreover have "c0 \<in> set ?cs1" if "c0 \<in> set cs0" "cname c0 \<notin> names plan" for c0
    using untouched_old [OF r that(1)] es that r by (auto simp: recoverable_def)
  moreover have "cname x \<in> names plan \<or> x \<in> set cs0" if "x \<in> set ?cs1" for x
    using survivor [OF r, of x] that es by auto
  ultimately show "next_gen cs0 plan cd ?cs1" unfolding next_gen_def p_def by blast
  have "cid x \<notin> cid ` set ?cs1 \<longrightarrow> own_new p j {} x" if "x \<in> set cs" for x
    using that by (auto simp: own_new_def debris_def)
  moreover have "\<exists>x \<in> set cs. moved {} c0 x" if "c0 \<in> set ?cs1" for c0
    by (rule bexI [where x = c0]) (use that in simp_all)
  ultimately show "recoverable p ?cs1 j {} cs k"
    using r by (simp add: recoverable_def staged_free_def wf_filter)
qed

text \<open>Before or after: the two kinds of state an \<^verbatim>\<open>Up\<close> may leave.\<close>

definition settled :: "ctr list \<Rightarrow> (string \<Rightarrow> bool) \<Rightarrow> plan \<Rightarrow> string \<Rightarrow> sys \<Rightarrow> bool" where
  "settled cs0 se plan cd s \<longleftrightarrow>
     recov (p_project_id plan) cs0 se s \<or>
     (\<exists>cs1. next_gen cs0 plan cd cs1 \<and> recov (p_project_id plan) cs1 se s)"

definition committed :: "ctr list \<Rightarrow> ctr list \<Rightarrow> (string \<Rightarrow> bool) \<Rightarrow> plan \<Rightarrow> string \<Rightarrow> sys \<Rightarrow> bool" where
  "committed cs0 cs1 se plan cd s \<longleftrightarrow>
     next_gen cs0 plan cd cs1 \<and> recov (p_project_id plan) cs1 se s \<and> jfiles s (p_project_id plan) = None"

lemma committed_settled: "committed cs0 cs1 se plan cd s \<Longrightarrow> settled cs0 se plan cd s"
  by (auto simp: committed_def settled_def)

lemma hoare_commit:
  fixes plan :: plan
  defines "p \<equiv> p_project_id plan"
  assumes ok: "plan_ok cs0 plan"
  shows "hoare q (\<lambda>s. going p cs0 se cd nonce (names plan) s \<and> live (desired plan) s) (txn_commit p)
     (\<lambda>_ s. \<exists>cs1. committed cs0 cs1 se plan cd s) (\<lambda>_ s. \<not> q \<and> settled cs0 se plan cd s) (settled cs0 se plan cd)"
    (is "hoare q _ _ ?Q ?E ?C")
proof (rule hoareI)
  fix s assume s: "faults_ok q s" "going p cs0 se cd nonce (names plan) (core s) \<and> live (desired plan) (core s)"
  then obtain cs k d t w where at: "at cs k (d, t, w, se) (core s)" and i: "in_txn p cs0 (d, t, w, se) k cs"
      and es: "je_name ` set (j_entries t) \<subseteq> names plan" and m: "made p cd (names plan) cs"
    unfolding going_def by blast
  define cs1 where "cs1 = filter (\<lambda>c. \<not> debris p c) cs"
  have l: "\<forall>c \<in> set (desired plan). \<exists>x \<in> set cs. cname x = c_name c \<and> crunning x"
    using s(2) at by (simp add: live_def at_def)
  note gen = next_generation [OF in_txn_recoverable [OF i, unfolded p_def] es ok m [unfolded p_def] l, folded p_def, folded cs1_def]
  have fin: "committed cs0 cs1 se plan cd s'" if "at cs k (d', t', w', se) s'" "d' p = None" for d' t' w' s'
  proof -
    have "jfiles s' p = None" using that by (auto simp: at_def rest_of_def)
    then show ?thesis
      unfolding committed_def p_def [symmetric] using gen(1) at_recov_None [OF that(1) gen(2) that(2)] by blast
  qed
  have old: "settled cs0 se plan cd s'" if "at cs k (d, t, w, se) s'" for s'
    using in_txn_recov [OF i that] by (simp add: settled_def p_def)
  show "io_post q ?Q ?E ?C (txn_commit p s)"
  proof (cases w)
    case False
    then have "tx_written s = False" "d p = None" using at i by (auto simp: at_def rest_of_def in_txn.simps)
    then show ?thesis using fin [OF at] s(1) by (auto simp: txn_commit_def)
  next
    case True
    then have w: "tx_written s" using at by (auto simp: at_def rest_of_def)
    have del: "hoare q (at cs k (d, t, w, se)) (io_wrap ''commit replacement journal: %w'' [] (deleteJournal p))
        (\<lambda>_. at cs k (d(p := None), t, w, se)) ?E ?C"
      by (rule hoare_wrap, rule hoare_deleteJournal)
         (use old fin [of "d(p := None)" t w, THEN committed_settled] in auto)
    from hoareD [OF del s(1) at] show ?thesis
    proof (cases rule: io_post_cases)
      case (1 x s')
      have "at cs k (d(p := None), t, False, se) (core (s'\<lparr>tx_written := False\<rparr>))"
        using 1(3) by (simp add: at_def rest_of_def)
      then have "committed cs0 cs1 se plan cd (core (s'\<lparr>tx_written := False\<rparr>))"
        by (rule fin) simp
      then have "\<exists>cs1. committed cs0 cs1 se plan cd (core (s'\<lparr>tx_written := False\<rparr>))" ..
      with 1 w show ?thesis by (simp add: txn_commit_def io_bind_def faults_ok_def)
    qed (use w in \<open>auto simp: txn_commit_def io_bind_def\<close>)
  qed
qed

section \<open>Up\<close>

definition rand_ok :: "error + 8 word list \<Rightarrow> bool" where
  "rand_ok rand = (case rand of Inl _ \<Rightarrow> True | Inr bs \<Rightarrow> length bs = 16)"

definition reported :: "plan \<Rightarrow> run_state \<Rightarrow> bool" where
  "reported plan st \<longleftrightarrow>
     (\<forall>c \<in> set (desired plan). \<exists>t \<in> set (rs_containers st). st_name t = c_name c \<and> st_running t \<and> st_in_sync t)"

definition up_failed :: "bool \<Rightarrow> ctr list \<Rightarrow> (string \<Rightarrow> bool) \<Rightarrow> plan \<Rightarrow> string \<Rightarrow> sys \<Rightarrow> bool" where
  "up_failed q cs0 se plan cd s \<longleftrightarrow>
     settled cs0 se plan cd s \<and> (q \<longrightarrow> rolled_back True (p_project_id plan) cs0 se s)"

definition up_done :: "ctr list \<Rightarrow> (string \<Rightarrow> bool) \<Rightarrow> plan \<Rightarrow> string \<Rightarrow> run_state \<Rightarrow> sys \<Rightarrow> bool" where
  "up_done cs0 se plan cd st s \<longleftrightarrow> (\<exists>cs1. committed cs0 cs1 se plan cd s) \<and> reported plan st"

lemma rolled_back_failed: "rolled_back q (p_project_id plan) cs0 se s \<Longrightarrow> up_failed q cs0 se plan cd s"
  by (auto simp: up_failed_def settled_def rolled_back_def)

lemma recov_settled: "recov (p_project_id plan) cs0 se s \<Longrightarrow> settled cs0 se plan cd s"
  by (simp add: settled_def)

lemma hoare_up_prepare:
  fixes plan :: plan
  defines "p \<equiv> p_project_id plan"
  assumes "q \<Longrightarrow> restartable cs0 se"
  shows "hoare q (recov p cs0 se) (up_prepare plan cand) (\<lambda>_. recovered p cs0 se)
     (\<lambda>_. rolled_back q p cs0 se) (recov p cs0 se)"
proof -
  have rest: "hoare q (recovered p cs0 se) m (\<lambda>_. recovered p cs0 se) (\<lambda>_. rolled_back q p cs0 se) (recov p cs0 se)"
    if "reads m" for m :: "unit io"
    by (rule hoare_reads [OF that tracked_recovered]) (auto simp: recovered_def rolled_back_def)
  have sweep: "hoare q (recov p cs0 se) (sweep p) (\<lambda>_. recovered p cs0 se) (\<lambda>_. rolled_back q p cs0 se) (recov p cs0 se)"
    by (rule hoare_post [OF hoare_sweep]) (use assms(2) in \<open>auto simp: rolled_back_def\<close>)
  have first: "hoare q (recov p cs0 se) (fs_query (\<lambda>_. ())) (\<lambda>_. recov p cs0 se) (\<lambda>_. rolled_back q p cs0 se) (recov p cs0 se)"
    by (rule hoare_fs_query) (auto simp: rolled_back_def)
  show ?thesis
    unfolding up_prepare_def Let_def p_def [symmetric]
    by (rule hoare_bind [OF first], rule hoare_bind [OF sweep], rule rest)
       (auto intro!: reads_rules)
qed

lemma hoare_newTxn:
  assumes "valid_digest dg" "rand_ok rand"
  shows "hoare q (recovered p cs0 se) (newTxn rand dg)
     (\<lambda>_ s. going p cs0 se (Digest_String dg) (j_nonce (tx_j s)) {} s)
     (\<lambda>_. rolled_back q p cs0 se) (recov p cs0 se)"
proof (cases "mintNonce rand")
  case (Inl e)
  then show ?thesis by (auto simp: newTxn_def recovered_def rolled_back_def intro!: hoare_fail)
next
  case (Inr nonce)
  let ?t = "new_journal dg nonce"
  have ok: "journal_ok ?t"
    using mintNonce_ok [OF Inr] assms digest_text.parse_show
    by (auto simp: journal_ok_def new_journal_def rand_ok_def)
  show ?thesis
  proof (rule hoareI)
    fix s assume s: "faults_ok q s" "recovered p cs0 se (core s)"
    let ?s = "core s\<lparr>tx_j := ?t, tx_written := False\<rparr>"
    have at: "at (conts (wd s)) (next_id (wd s)) (jfiles s, ?t, False, se) ?s"
      using s(2) by (simp add: at_def rest_of_def recovered_def recov_def)
    have "recoverable p cs0 ?t {} (conts (wd s)) (next_id (wd s))"
      using s(2) recoverable_empty [of p cs0 "tx_j s" _ _ ?t]
      by (auto simp: recovered_def recov_def recoverable_state_def)
    then have "in_txn p cs0 (jfiles s, ?t, False, se) (next_id (wd s)) (conts (wd s))"
      using ok s(2) by (simp add: in_txn.simps new_journal_def recovered_def)
    then have "going p cs0 se (Digest_String dg) nonce {} ?s"
      by (intro goingI [OF at]) (simp_all add: new_journal_def made_def)
    moreover have "core (s\<lparr>tx_j := ?t, tx_written := False\<rparr>) = ?s" by simp
    ultimately show "io_post q (\<lambda>_ s. going p cs0 se (Digest_String dg) (j_nonce (tx_j s)) {} s)
       (\<lambda>_. rolled_back q p cs0 se) (recov p cs0 se) (newTxn rand dg s)"
      using s(1) by (simp add: newTxn_def Inr faults_ok_def new_journal_def)
  qed
qed

lemma hoare_with_rollback:
  assumes "hoare q P m Q (\<lambda>_. failing q p cs0 se) (recov p cs0 se)" "q \<Longrightarrow> restartable cs0 se"
  shows "hoare q P (with_rollback p m) Q (\<lambda>_. rolled_back q p cs0 se) (recov p cs0 se)"
  unfolding with_rollback_def
proof (rule hoare_bind [OF hoare_try])
  show "hoare q P m (\<lambda>x. case Inr x of Inl e \<Rightarrow> failing q p cs0 se | Inr x \<Rightarrow> Q x)
     (\<lambda>e. case Inl e of Inl e \<Rightarrow> failing q p cs0 se | Inr x \<Rightarrow> Q x) (recov p cs0 se)"
    using assms(1) by simp
  show "hoare q (case x of Inl e \<Rightarrow> failing q p cs0 se | Inr x \<Rightarrow> Q x)
     (case x of Inl e \<Rightarrow> rollback p e | Inr x \<Rightarrow> io_ret x) Q (\<lambda>_. rolled_back q p cs0 se) (recov p cs0 se)" for x
    using hoare_rollback_failing [OF assms(2)] by (cases x) (auto intro: hoare_ret)
qed

lemma tracked_committed: "tracked (committed cs0 cs1 se plan cd)"
  unfolding tracked_def committed_def recov_def recoverable_state_def at_def rest_of_def
  by (auto split: option.splits)

lemma hoare_clear_committed:
  fixes plan :: plan
  defines "p \<equiv> p_project_id plan"
  shows "hoare q (committed cs0 cs1 se plan cd) (clearDebris p) (\<lambda>_. committed cs0 cs1 se plan cd)
     (\<lambda>_. committed cs0 cs1 se plan cd) (committed cs0 cs1 se plan cd)" (is "hoare q ?P _ _ _ _")
proof (rule hoareI)
  fix s assume s: "faults_ok q s" "?P (core s)"
  define cs k d t w where "cs = conts (wd s)" "k = next_id (wd s)" "d = jfiles s" "t = tx_j s" "w = tx_written s"
  note defs = this
  have at: "at cs k (d, t, w, se) (core s)"
    using s(2) by (simp add: at_def rest_of_def defs committed_def recov_def)
  have d: "d p = None" "recoverable p cs1 t {} cs k" and gen: "next_gen cs0 plan cd cs1"
    using s(2) by (auto simp: defs committed_def recov_def recoverable_state_def p_def)
  have keep: "?P s'" if "safe_at p cs1 t {} k (d, t, w, se) s'" for s'
    using that safe_recov_None [OF that d(1)] d(1) gen
    by (auto simp: committed_def p_def ok_at_def at_def rest_of_def)
  have "hoare q (at cs k (d, t, w, se)) (clearDebris p) (\<lambda>_. ?P) (\<lambda>_. ?P) ?P"
    by (rule hoare_post [OF hoare_clearDebris [OF d(2)]]) (use keep in \<open>auto simp: ok_at_def\<close>)
  then show "io_post q (\<lambda>_. ?P) (\<lambda>_. ?P) ?P (clearDebris p s)" using s(1) at by (rule hoareD)
qed

lemma reported_summary:
  fixes plan :: plan
  assumes "next_gen cs0 plan (Digest_String dg) cs1" "set cs1 \<subseteq> set cs" "valid_digest dg"
  shows "reported plan (summarize (p_project_id plan) dg (filter (\<lambda>c. label (clabels c) ProjectLabel = p_project_id plan) cs))"
  unfolding reported_def
proof
  fix c assume "c \<in> set (desired plan)"
  then obtain x where x: "x \<in> set cs" "cname x = c_name c" "crunning x" "mine (p_project_id plan) x"
      "label (clabels x) CandidateLabel = Digest_String dg"
    using assms(1,2) unfolding next_gen_def by blast
  have "ParseDigest (Digest_String dg) = Inr dg" using assms(3) by (rule digest_text.parse_show)
  then have "st_name (ctr_status_of dg x) = c_name c \<and> st_running (ctr_status_of dg x) \<and> st_in_sync (ctr_status_of dg x)"
    using x(2,3,5) valid_digest_not_zero [OF assms(3)] by (simp add: ctr_status_of_def Let_def)
  then show "\<exists>t \<in> set (rs_containers (summarize (p_project_id plan) dg
      (filter (\<lambda>c. label (clabels c) ProjectLabel = p_project_id plan) cs))). st_name t = c_name c \<and> st_running t \<and> st_in_sync t"
    using x(1,4) by (intro bexI [of _ "ctr_status_of dg x"]) (auto simp: summarize_def mine_def)
qed

lemma hoare_Up:
  fixes plan :: plan and cand :: candidate_ref
  defines "p \<equiv> p_project_id plan" and "cd \<equiv> Digest_String (cr_digest cand)"
  assumes ok: "plan_ok cs0 plan" "valid_digest (cr_digest cand)" "rand_ok rand" and rs: "q \<Longrightarrow> restartable cs0 se"
  shows "hoare q (recov p cs0 se) (Up rand plan cand opts) (up_done cs0 se plan cd)
     (\<lambda>_. up_failed q cs0 se plan cd) (settled cs0 se plan cd)" (is "hoare q _ _ ?Q ?E ?C")
proof -
  have prep: "hoare q (recov p cs0 se) (up_prepare plan cand) (\<lambda>_. recovered p cs0 se) ?E ?C"
    unfolding p_def by (rule hoare_post [OF hoare_up_prepare]) (auto intro: rolled_back_failed recov_settled rs)
  have new: "hoare q (recovered p cs0 se) (newTxn rand (cr_digest cand))
      (\<lambda>_ s. going p cs0 se cd (j_nonce (tx_j s)) {} s) ?E ?C"
    using hoare_newTxn [OF ok(2,3), of q p cs0 se] unfolding cd_def [symmetric]
    by (elim hoare_post) (auto simp: p_def intro: rolled_back_failed recov_settled)
  have "hoare q (\<lambda>s. going p cs0 se cd (j_nonce (tx_j s)) {} s)
      (\<lambda>s. up_body plan (cr_digest cand) (j_nonce (tx_j s)) opts s)
      (\<lambda>_ s. \<exists>nonce. going p cs0 se cd nonce (names plan) s \<and> live (desired plan) s) (\<lambda>_. failing q p cs0 se) (recov p cs0 se)"
  proof (rule hoareI)
    fix s assume s: "faults_ok q s" "going p cs0 se cd (j_nonce (tx_j (core s))) {} (core s)"
    from hoareD [OF hoare_up_body [OF ok(1), folded p_def, of q se "cr_digest cand" _ opts, folded cd_def] s]
    show "io_post q (\<lambda>_ s. \<exists>nonce. going p cs0 se cd nonce (names plan) s \<and> live (desired plan) s)
        (\<lambda>_. failing q p cs0 se) (recov p cs0 se) (up_body plan (cr_digest cand) (j_nonce (tx_j s)) opts s)"
      by (cases rule: io_post_cases) auto
  qed
  then have body: "hoare q (\<lambda>s. going p cs0 se cd (j_nonce (tx_j s)) {} s)
      (with_rollback p (\<lambda>s. up_body plan (cr_digest cand) (j_nonce (tx_j s)) opts s))
      (\<lambda>_ s. \<exists>nonce. going p cs0 se cd nonce (names plan) s \<and> live (desired plan) s) ?E ?C"
    by (intro hoare_post [OF hoare_with_rollback [OF _ rs]]) (auto simp: p_def intro: rolled_back_failed recov_settled)
  have commit: "hoare q (\<lambda>s. \<exists>nonce. going p cs0 se cd nonce (names plan) s \<and> live (desired plan) s) (txn_commit p)
      (\<lambda>_ s. \<exists>cs1. committed cs0 cs1 se plan cd s) ?E ?C"
    by (intro hoare_ex hoare_post [OF hoare_commit [OF ok(1), folded p_def]]) (auto simp: up_failed_def)
  have clear: "hoare q (\<lambda>s. \<exists>cs1. committed cs0 cs1 se plan cd s) (io_try (clearDebris p))
      (\<lambda>_ s. \<exists>cs1. committed cs0 cs1 se plan cd s) ?E ?C"
    by (intro hoare_ex hoare_try hoare_post [OF hoare_clear_committed [where plan = plan, folded p_def]])
       (auto intro: committed_settled)
  have report: "hoare q (\<lambda>s. \<exists>cs1. committed cs0 cs1 se plan cd s)
      (io_bind (ListProjectContainers p) (\<lambda>cs. io_ret (summarize p (cr_digest cand) cs))) ?Q ?E ?C"
  proof (rule hoareI)
    fix s assume s: "faults_ok q s" "\<exists>cs1. committed cs0 cs1 se plan cd (core s)"
    then obtain cs1 where c: "committed cs0 cs1 se plan cd (core s)" by blast
    define cs k r where "cs = conts (wd s)" "k = next_id (wd s)" "r = rest_of (core s)"
    note defs = this
    then have at: "at cs k r (core s)" by (simp add: at_def)
    have keep: "committed cs0 cs1 se plan cd s'" if "at cs k r s'" for s'
      by (rule trackedD [OF tracked_committed at c that])
    have "recoverable p cs1 (tx_j s) {} cs k"
      using c by (auto simp: committed_def recov_def recoverable_state_def defs p_def)
    then have "set cs1 \<subseteq> set cs" by (rule recoverable_no_entries(1))
    then have rep: "reported plan (summarize p (cr_digest cand) (filter (\<lambda>c. label (clabels c) ProjectLabel = p) cs))"
      using c reported_summary [OF _ _ ok(2), of cs0 plan cs1 cs] by (simp add: committed_def cd_def p_def)
    have "hoare q (at cs k r) (ListProjectContainers p)
        (\<lambda>l s. l = filter (\<lambda>c. label (clabels c) ProjectLabel = p) cs \<and> committed cs0 cs1 se plan cd s) ?E ?C"
      by (rule hoare_list) (use keep committed_settled [OF keep] in \<open>auto simp: up_failed_def\<close>)
    then have "hoare q (at cs k r)
        (io_bind (ListProjectContainers p) (\<lambda>cs. io_ret (summarize p (cr_digest cand) cs))) ?Q ?E ?C"
      by (rule hoare_bind) (use rep in \<open>auto simp: up_done_def intro!: hoare_ret\<close>)
    then show "io_post q ?Q ?E ?C
        (io_bind (ListProjectContainers p) (\<lambda>cs. io_ret (summarize p (cr_digest cand) cs)) s)"
      using s(1) at by (rule hoareD)
  qed
  show ?thesis
    unfolding Up_def Let_def p_def [symmetric]
    by (rule hoare_bind [OF prep], rule hoare_bind [OF new], rule hoare_bind [OF body],
        rule hoare_bind [OF commit], rule hoare_bind [OF clear], rule report)
qed

end
