(* ===== verification/UpProperties.thy ===== *)
theory UpProperties
  imports UpOutcome
begin

text \<open>
  The properties of the replacement transaction as a whole, over \<^verbatim>\<open>Up\<close> and \<^verbatim>\<open>sweep\<close>, with a
  concrete machine on which their hypotheses hold.
\<close>

section \<open>A concrete machine\<close>

definition demo_digest :: digest where
  "demo_digest = \<lparr>algorithm = sha256Alg, hex = replicate 64 (CHR ''a'')\<rparr>"

definition demo_labels :: labels where
  "demo_labels = [ManagedLabel \<mapsto> ''true'', ProjectLabel \<mapsto> ''demo'', CandidateLabel \<mapsto> ''old'']"

definition demo_old :: ctr where
  "demo_old = \<lparr>cid = ''old'', cname = ''vibe-demo-dev'', cimage = ''img'', crunning = True, cexit = 0,
     clabels = demo_labels\<rparr>"

definition demo_foreign :: ctr where
  "demo_foreign = \<lparr>cid = ''db'', cname = ''postgres'', cimage = ''img'', crunning = True, cexit = 0,
     clabels = Map.empty\<rparr>"

definition demo_container :: container where
  "demo_container = \<lparr>c_name = ''vibe-demo-dev'', c_image = \<lparr>im_ref = ''img'', im_digest = zero_digest\<rparr>,
     c_user = '''', c_command = [], c_environment = [], c_mounts = [], c_ports = [],
     c_labels = [(ManagedLabel, ''true''), (ProjectLabel, ''demo'')], c_dns_from_service = '''', c_log = None,
     c_policy = \<lparr>po_drop_all_capabilities = True, po_no_new_privileges = True, po_readonly_root_fs = False,
       po_network = NetworkProject, po_net_bind_service = False\<rparr>\<rparr>"

definition demo_plan :: plan where
  "demo_plan = \<lparr>p_format = PlanFormat, p_project_id = ''demo'', p_project_root = ''/src'', p_display_name = ''demo'',
     p_artifact_digest = zero_digest, p_artifact_version = '''', p_dev = demo_container, p_services = [],
     p_networks = [], p_volumes = [], p_images = [], p_snapshot = zero_digest, p_env_file = '''',
     p_tools = None, p_extension = None, p_canonical_hash = zero_digest\<rparr>"

definition demo_candidate :: candidate_ref where
  "demo_candidate = \<lparr>cr_digest = demo_digest, cr_snapshot = zero_digest\<rparr>"

definition demo_world :: "ctr list \<Rightarrow> world" where
  "demo_world cs = \<lparr>conts = cs, next_id = 0, next_ip = 0, create_networks = Map.empty, minted_ips = Map.empty,
     addrs = Map.empty, volumes = Map.empty, networks = Map.empty, create_err_once = None,
     start_exits = (\<lambda>_. False), pull_errs = (\<lambda>_. None), exec_results = (\<lambda>_. 0), logs_outputs = (\<lambda>_. '''')\<rparr>"

definition demo_journal :: "journal_entry list \<Rightarrow> journal" where
  "demo_journal es = \<lparr>j_version = journalVersion, j_candidate = Digest_String demo_digest,
     j_nonce = replicate 32 (CHR ''0''), j_entries = es\<rparr>"

definition demo_sys :: "ctr list \<Rightarrow> (string \<rightharpoonup> journal_file) \<Rightarrow> outcome list \<Rightarrow> sys" where
  "demo_sys cs d fs = \<lparr>wd = demo_world cs, replace_dir = ''/state/replace'', jfiles = d, jtemps = [],
     objects = [(''candidate'', demo_digest) \<mapsto> ''/store/c''], files = Map.empty,
     tx_j = demo_journal [], tx_written = False, faults = fs\<rparr>"

text \<open>The machine in the middle of a replacement: the old container parked, the new one running.\<close>

definition demo_new :: ctr where
  "demo_new = demo_old\<lparr>cid := ''new'', clabels := demo_labels(TxnLabel \<mapsto> replicate 32 (CHR ''0''),
     CandidateLabel \<mapsto> Digest_String demo_digest)\<rparr>"

definition demo_parked :: ctr where
  "demo_parked = demo_old\<lparr>cname := ''vibe-demo-dev.prev'', crunning := False\<rparr>"

definition demo_entry :: journal_entry where
  "demo_entry = \<lparr>je_kind = ''replace'', je_name = ''vibe-demo-dev'', je_old_id = ''old'', je_was_running = True,
     je_new_id = ''new'', je_id = ''''\<rparr>"

definition demo_crashed :: "outcome list \<Rightarrow> sys" where
  "demo_crashed fs = demo_sys [demo_foreign, demo_parked, demo_new]
     [''demo'' \<mapsto> Document (demo_journal [demo_entry])] fs"

lemmas demo_defs = demo_old_def demo_foreign_def demo_new_def demo_parked_def demo_labels_def
  demo_entry_def demo_crashed_def demo_sys_def demo_world_def demo_container_def demo_plan_def
  demo_candidate_def

lemmas label_defs = ManagedLabel_def ProjectLabel_def CandidateLabel_def TxnLabel_def DNSLabel_def

lemma demo_digest_valid: "valid_digest demo_digest"
  by (simp add: valid_digest_def demo_digest_def is_lower_hex_def list_all_iff)

lemma demo_journal_ok: "entry_ok e \<Longrightarrow> journal_ok (demo_journal [e])" "journal_ok (demo_journal [])"
  using digest_text.parse_show [OF demo_digest_valid]
  by (auto simp: journal_ok_def demo_journal_def nonceRe_def is_lower_hex_def list_all_iff)

lemma ctr_id_ctr: "take 4 (ctr_id n) = ''ctr-''"
  by (simp add: ctr_id_def)

lemma demo_fresh: "ctr_id n \<noteq> ''old'' \<and> ctr_id n \<noteq> ''new'' \<and> ctr_id n \<noteq> ''db''"
  using ctr_id_ctr [of n] by auto

lemma demo_recoverable: "recoverable_state ''demo'' [demo_foreign, demo_old] (demo_sys [demo_foreign, demo_old] Map.empty fs)"
proof -
  have "wf_ctrs [demo_foreign, demo_old]" by (simp add: wf_ctrs_def demo_defs)
  moreover have "\<forall>c \<in> set [demo_foreign, demo_old]. \<not> debris ''demo'' c"
    by (simp add: debris_def is_debris_def demo_defs retiredSuffix_def stagedSuffix_def has_suffix_def)
  moreover have "fresh_ids [demo_foreign, demo_old] 0"
    using demo_fresh by (simp add: fresh_ids_def) (simp add: demo_defs)
  ultimately show ?thesis
    by (simp add: recoverable_state_def recoverable_def staged_free_def demo_sys_def demo_world_def)
qed

lemma demo_crashed_recoverable: "recoverable_state ''demo'' [demo_foreign, demo_old] (demo_crashed fs)"
proof -
  let ?cs = "[demo_foreign, demo_parked, demo_new]"
  have "wf_ctrs [demo_foreign, demo_old]" "wf_ctrs ?cs" by (simp_all add: wf_ctrs_def demo_defs)
  moreover have "\<forall>c \<in> set [demo_foreign, demo_old]. \<not> debris ''demo'' c"
    by (simp add: debris_def is_debris_def demo_defs retiredSuffix_def stagedSuffix_def has_suffix_def)
  moreover have "fresh_ids ?cs 0"
    using demo_fresh by (simp add: fresh_ids_def) (simp add: demo_defs)
  moreover have "entry_about ''demo'' [demo_foreign, demo_old] demo_entry"
    by (simp add: entry_about_def demo_defs canonical_name_def mine_def label_defs)
  moreover have "moved {demo_entry} demo_old demo_parked"
    by (simp add: moved_def same_ctr_def demo_defs retiredSuffix_def)
  moreover have "own_new ''demo'' (demo_journal [demo_entry]) {demo_entry} demo_new"
    by (simp add: own_new_def mine_def label_defs) (simp add: demo_defs label_defs)
  moreover have "\<forall>c \<in> set ?cs. staged_free {demo_entry} c"
    by (simp add: staged_free_def demo_defs stagedSuffix_def)
  moreover have "cid demo_parked = cid demo_old" "cid demo_new \<noteq> cid demo_old"
    by (simp_all add: demo_defs)
  moreover have "entry_ok demo_entry" by (simp add: entry_ok_def demo_entry_def)
  ultimately show ?thesis
    by (simp add: recoverable_state_def recoverable_def demo_crashed_def demo_sys_def demo_world_def demo_journal_ok)
       (simp add: demo_journal_def)
qed

lemma demo_plan_ok: "plan_ok [demo_foreign, demo_old] demo_plan"
  by (simp add: plan_ok_def plan_labels_def map_get_def demo_defs canonical_name_def label_defs)

lemma demo_faults_ok: "list_all fault_ok [Done, Fails (Plain ''timeout'' []), FailsAfter (Plain ''timeout'' []), Dies]"
  by (simp add: fault_ok_def)

section \<open>Properties\<close>

text \<open>
  C1. Crash safety of \<^verbatim>\<open>Up\<close>. From a recoverable state, under any faults and wherever the process
  dies, \<^verbatim>\<open>Up\<close> leaves a state that is recoverable to the containers it started from or to the
  next generation, in which every desired container runs with the candidate's label and every
  container with another name is untouched. When it reports success, it is the latter, the
  journal is gone, and the reported state has every desired container running and in sync.
\<close>

theorem Up_crash_safe:
  assumes "recoverable_state (p_project_id plan) cs0 s" "list_all fault_ok (faults s)"
    "plan_ok cs0 plan" "valid_digest (cr_digest cand)" "rand_ok rand"
  shows "case Up rand plan cand opts s of (r, s') \<Rightarrow>
    (\<exists>cs1. (cs1 = cs0 \<or> next_gen cs0 plan (Digest_String (cr_digest cand)) cs1) \<and>
       recoverable_state (p_project_id plan) cs1 s') \<and>
    (\<forall>st. r = Ret st \<longrightarrow> reported plan st \<and> jfiles s' (p_project_id plan) = None \<and>
       (\<exists>cs1. next_gen cs0 plan (Digest_String (cr_digest cand)) cs1 \<and>
          recoverable_state (p_project_id plan) cs1 s'))"
proof -
  let ?se = "start_exits (wd s)"
  have "recov (p_project_id plan) cs0 ?se (core s)" using assms(1) by (simp add: recov_def)
  with assms(2) have "io_post False (up_done cs0 ?se plan (Digest_String (cr_digest cand)))
      (\<lambda>_. up_failed False cs0 ?se plan (Digest_String (cr_digest cand)))
      (settled cs0 ?se plan (Digest_String (cr_digest cand))) (Up rand plan cand opts s)"
    by (intro hoareD [OF hoare_Up [OF assms(3-5)]]) (simp_all add: faults_ok_def)
  then show ?thesis
    by (cases rule: io_post_cases)
       (auto simp: up_done_def up_failed_def settled_def committed_def recov_def)
qed

theorem Up_crash_safe_witness:
  "case Up (Inr (replicate 16 0)) demo_plan demo_candidate \<lparr>uo_force = False\<rparr>
      (demo_sys [demo_foreign, demo_old] Map.empty [Done, Fails (Plain ''timeout'' []), FailsAfter (Plain ''timeout'' []), Dies]) of
    (r, s') \<Rightarrow>
    (\<exists>cs1. (cs1 = [demo_foreign, demo_old] \<or> next_gen [demo_foreign, demo_old] demo_plan (Digest_String demo_digest) cs1) \<and>
       recoverable_state ''demo'' cs1 s') \<and>
    (\<forall>st. r = Ret st \<longrightarrow> reported demo_plan st \<and> jfiles s' ''demo'' = None \<and>
       (\<exists>cs1. next_gen [demo_foreign, demo_old] demo_plan (Digest_String demo_digest) cs1 \<and> recoverable_state ''demo'' cs1 s'))"
proof -
  have p: "p_project_id demo_plan = ''demo''" "cr_digest demo_candidate = demo_digest"
    by (simp_all add: demo_defs)
  show ?thesis
    by (rule Up_crash_safe [where plan = demo_plan and cand = demo_candidate, unfolded p])
       (use demo_recoverable demo_faults_ok demo_plan_ok demo_digest_valid in \<open>simp_all add: rand_ok_def demo_sys_def\<close>)
qed

text \<open>
  C2. An interrupted \<^verbatim>\<open>Up\<close> always has an outcome: whatever happens during it and during any number
  of later recovery attempts, the first \<^verbatim>\<open>sweep\<close> that meets no faults returns and leaves exactly
  the containers from before the \<^verbatim>\<open>Up\<close> or exactly the next generation, provided containers the
  recovery may have to restart do not exit at start.
\<close>

theorem Up_interrupted_then_sweep:
  assumes "recoverable_state (p_project_id plan) cs0 s" "list_all fault_ok (faults s)"
    "plan_ok cs0 plan" "valid_digest (cr_digest cand)" "rand_ok rand"
    "list_all (list_all fault_ok) fss" "\<forall>i. \<not> start_exits (wd s) i"
  shows "\<exists>s'. sweep (p_project_id plan)
      ((fold (attempt (p_project_id plan)) fss (snd (Up rand plan cand opts s)))\<lparr>faults := []\<rparr>) = (Ret (), s') \<and>
    jfiles s' (p_project_id plan) = None \<and>
    (\<exists>cs1. set (conts (wd s')) = set cs1 \<and>
       (cs1 = cs0 \<or> next_gen cs0 plan (Digest_String (cr_digest cand)) cs1))"
proof -
  let ?p = "p_project_id plan" and ?se = "start_exits (wd s)" and ?cd = "Digest_String (cr_digest cand)"
  have "recov ?p cs0 ?se (core s)" using assms(1) by (simp add: recov_def)
  with assms(2) have "io_post False (up_done cs0 ?se plan ?cd) (\<lambda>_. up_failed False cs0 ?se plan ?cd)
      (settled cs0 ?se plan ?cd) (Up rand plan cand opts s)"
    by (intro hoareD [OF hoare_Up [OF assms(3-5)]]) (simp_all add: faults_ok_def)
  then have "settled cs0 ?se plan ?cd (core (snd (Up rand plan cand opts s)))"
    by (cases rule: io_post_cases) (auto simp: up_done_def up_failed_def dest: committed_settled)
  then obtain cs1 where cs1: "cs1 = cs0 \<or> next_gen cs0 plan ?cd cs1"
      "recov ?p cs1 ?se (snd (Up rand plan cand opts s))"
    by (auto simp: settled_def)
  have "restartable cs1 ?se" using assms(7) by (simp add: restartable_def list_all_iff)
  then have "\<exists>s'. sweep ?p ((fold (attempt ?p) fss (snd (Up rand plan cand opts s)))\<lparr>faults := []\<rparr>) = (Ret (), s') \<and>
      jfiles s' ?p = None \<and> set (conts (wd s')) = set cs1"
    using cs1(2) by (intro quiet_sweep_restores [OF _ assms(6)]) (simp_all add: recov_def)
  with cs1(1) show ?thesis by blast
qed

theorem Up_interrupted_then_sweep_witness:
  "\<exists>s'. sweep ''demo''
      ((fold (attempt ''demo'') [[Dies], [Done, Fails (Plain ''timeout'' [])]]
         (snd (Up (Inr (replicate 16 0)) demo_plan demo_candidate \<lparr>uo_force = True\<rparr>
            (demo_sys [demo_foreign, demo_old] Map.empty (replicate 12 Done @ [Dies])))))\<lparr>faults := []\<rparr>) = (Ret (), s') \<and>
    jfiles s' ''demo'' = None \<and>
    (\<exists>cs1. set (conts (wd s')) = set cs1 \<and>
       (cs1 = [demo_foreign, demo_old] \<or> next_gen [demo_foreign, demo_old] demo_plan (Digest_String demo_digest) cs1))"
proof -
  have p: "p_project_id demo_plan = ''demo''" "cr_digest demo_candidate = demo_digest"
    by (simp_all add: demo_defs)
  show ?thesis
    by (rule Up_interrupted_then_sweep [where plan = demo_plan and cand = demo_candidate, unfolded p])
       (use demo_recoverable demo_plan_ok demo_digest_valid in
         \<open>simp_all add: rand_ok_def demo_sys_def demo_world_def fault_ok_def list_all_iff\<close>)
qed

text \<open>
  C3. An \<^verbatim>\<open>Up\<close> that fails without faults of the machine (a hook that fails, a container that exits,
  a name taken by someone else) has rolled back: the journal is gone, every old container is
  back under its name and in its run state, and whatever else there is carries the suffix of a
  parked or staged container of this project.
\<close>

theorem Up_failure_restores:
  assumes "recoverable_state (p_project_id plan) cs0 s" "faults s = []" "plan_ok cs0 plan"
    "valid_digest (cr_digest cand)" "rand_ok rand" "restartable cs0 (start_exits (wd s))"
    "Up rand plan cand opts s = (Err e, s')"
  shows "jfiles s' (p_project_id plan) = None \<and> set cs0 \<subseteq> set (conts (wd s')) \<and>
    (\<forall>c \<in> set (conts (wd s')). c \<in> set cs0 \<or> debris (p_project_id plan) c)"
proof -
  let ?p = "p_project_id plan" and ?se = "start_exits (wd s)" and ?cd = "Digest_String (cr_digest cand)"
  have "recov ?p cs0 ?se (core s)" using assms(1) by (simp add: recov_def)
  with assms(2) have "io_post True (up_done cs0 ?se plan ?cd) (\<lambda>_. up_failed True cs0 ?se plan ?cd)
      (settled cs0 ?se plan ?cd) (Up rand plan cand opts s)"
    by (intro hoareD [OF hoare_Up [OF assms(3-5)]]) (simp_all add: faults_ok_def assms(6))
  then have "rolled_back True ?p cs0 ?se (core s')"
    unfolding assms(7) by (cases rule: io_post_cases) (auto simp: up_failed_def)
  then have "jfiles s' ?p = None" "recoverable ?p cs0 (tx_j s') {} (conts (wd s')) (next_id (wd s'))"
    by (auto simp: rolled_back_def recov_def recoverable_state_def)
  then show ?thesis using recoverable_no_entries by blast
qed

text \<open>A run of \<^verbatim>\<open>Up\<close> whose new container exits at start: the old one is restored.\<close>

lemmas run_defs = Up_def up_prepare_def up_body_def Let_def io_bind_def io_try_def io_wrap_def io_when_def
  io_ret_def io_fail_def io_ignore_not_found_def with_rollback_def rollback_def fs_query_def fs_update_def
  perform_def scheduled_def of_sum_def sweep_def readJournal_def clearDebris_def stop_and_remove_def is_debris_def
  sweepTempFiles_def ListProjectContainers_def docker_query_def docker_call_def w_list_project_def
  open_object_def loadEnvFile_def newTxn_def reconcile_named_def reconcileContainer_def same_desired_def
  InspectContainer_def w_inspect_def find_name_def find_id_def createRequest_def containerLabels_def
  plan_labels_def replaceContainer_def txn_append_def write_err_def writeJournal_def add_entry_def
  createOnly_def CreateContainer_def w_create_def txn_backfill_def set_entry_def StopContainer_def w_stop_def
  upd_ctr_def RenameContainer_def w_rename_def StartContainer_def w_start_def assign_ip_def resolveDNS_def
  runLifecycle_def mountsPayload_def checkLiveness_def undo_def undo_entry_def undoReplace_def findNew_def
  stop_new_def park_new_def check_occupant_def restart_old_def delete_new_def RemoveContainer_def
  w_remove_def deleteJournal_def mintNonce_def new_journal_def zero_entry_def retiredSuffix_def
  stagedSuffix_def has_suffix_def map_get_def

definition demo_exits :: sys where
  "demo_exits = (demo_sys [demo_foreign, demo_old] Map.empty [])
     \<lparr>wd := (demo_world [demo_foreign, demo_old])\<lparr>start_exits := (\<lambda>i. i = ''ctr-001'')\<rparr>\<rparr>"

lemma demo_ctr_1: "ctr_id (Suc 0) = ''ctr-001''"
proof -
  have "char_of (of_char (CHR ''1'') :: nat) = CHR ''1''" by (rule char_of_char)
  then have "char_of (49 :: nat) = CHR ''1''" by simp
  then show ?thesis by (simp add: ctr_id_def itoa.simps digit_char_def numeral_2_eq_2)
qed

lemma demo_zero: "Digest_IsZero zero_digest" "\<not> Digest_IsZero demo_digest"
  by (simp add: Digest_IsZero_def) (rule valid_digest_not_zero [OF demo_digest_valid])

lemma demo_run_fails:
  "\<exists>e s'. Up (Inr (replicate 16 0)) demo_plan demo_candidate \<lparr>uo_force = True\<rparr> demo_exits = (Err e, s') \<and>
     conts (wd s') = [demo_foreign, demo_old]"
  by (simp add: run_defs demo_exits_def demo_defs demo_ctr_1 demo_zero label_defs)

theorem Up_failure_restores_witness:
  "\<exists>e s'. Up (Inr (replicate 16 0)) demo_plan demo_candidate \<lparr>uo_force = True\<rparr> demo_exits = (Err e, s') \<and>
     jfiles s' ''demo'' = None \<and> set [demo_foreign, demo_old] \<subseteq> set (conts (wd s')) \<and>
     (\<forall>c \<in> set (conts (wd s')). c \<in> set [demo_foreign, demo_old] \<or> debris ''demo'' c)"
proof -
  have p: "p_project_id demo_plan = ''demo''" "cr_digest demo_candidate = demo_digest"
    by (simp_all add: demo_defs)
  have r: "recoverable_state ''demo'' [demo_foreign, demo_old] demo_exits"
    using demo_recoverable [of "[]"]
    by (simp add: recoverable_state_def demo_exits_def demo_sys_def demo_world_def)
  obtain e s' where run: "Up (Inr (replicate 16 0)) demo_plan demo_candidate \<lparr>uo_force = True\<rparr> demo_exits = (Err e, s')"
    using demo_run_fails by blast
  moreover have "jfiles s' ''demo'' = None \<and> set [demo_foreign, demo_old] \<subseteq> set (conts (wd s')) \<and>
      (\<forall>c \<in> set (conts (wd s')). c \<in> set [demo_foreign, demo_old] \<or> debris ''demo'' c)"
    by (rule Up_failure_restores [where plan = demo_plan and cand = demo_candidate, unfolded p, OF r _ _ _ _ _ run])
       (use demo_plan_ok demo_digest_valid in
         \<open>simp_all add: rand_ok_def demo_exits_def demo_sys_def demo_world_def restartable_def demo_old_def demo_foreign_def\<close>)
  ultimately show ?thesis by blast
qed

text \<open>
  C4. Crash safety of recovery: from a recoverable state \<^verbatim>\<open>sweep\<close> ends in a recoverable
  state again, whatever call fails and wherever the process dies; when it returns without an
  error, the journal is gone and the containers are exactly the ones from before the
  interrupted transaction.
\<close>

theorem sweep_keeps_recoverable:
  assumes "recoverable_state p cs0 s" "list_all fault_ok (faults s)" "sweep p s = (r, s')"
  shows "recoverable_state p cs0 s' \<and>
    (r = Ret () \<longrightarrow> jfiles s' p = None \<and> set (conts (wd s')) = set cs0)"
proof -
  have "io_post False (\<lambda>_. recovered p cs0 (start_exits (wd s)))
      (\<lambda>_ s'. \<not> False \<and> recov p cs0 (start_exits (wd s)) s') (recov p cs0 (start_exits (wd s))) (sweep p s)"
    by (rule hoareD [OF hoare_sweep]) (use assms in \<open>simp_all add: faults_ok_def recov_def\<close>)
  then show ?thesis
    unfolding assms(3) by (cases rule: io_post_cases) (auto simp: recovered_def recov_def)
qed

theorem sweep_keeps_recoverable_witness:
  "recoverable_state ''demo'' [demo_foreign, demo_old] (snd (sweep ''demo'' (demo_crashed [Done, Done, Dies])))"
proof -
  obtain r s' where s': "sweep ''demo'' (demo_crashed [Done, Done, Dies]) = (r, s')"
    by (cases "sweep ''demo'' (demo_crashed [Done, Done, Dies])")
  have f: "list_all fault_ok (faults (demo_crashed [Done, Done, Dies]))"
    by (simp add: demo_crashed_def demo_sys_def fault_ok_def)
  show ?thesis
    using sweep_keeps_recoverable [OF demo_crashed_recoverable f s'] s' by simp
qed

text \<open>
  Recovery completes: after any number of attempts, each interrupted or failing anywhere,
  one attempt that meets no faults returns without an error and leaves exactly the containers
  from before the interrupted transaction, provided the daemon can restart those that ran.
\<close>

theorem sweep_eventually_restores:
  assumes "recoverable_state p cs0 s" "list_all (list_all fault_ok) fss"
    "restartable cs0 (start_exits (wd s))"
  shows "\<exists>s'. sweep p ((fold (attempt p) fss s)\<lparr>faults := []\<rparr>) = (Ret (), s') \<and>
    jfiles s' p = None \<and> set (conts (wd s')) = set cs0"
  using assms by (rule quiet_sweep_restores)

theorem sweep_eventually_restores_witness:
  "\<exists>s'. sweep ''demo'' ((fold (attempt ''demo'') [[Done, Dies], [Done, Done, Fails (Plain ''timeout'' [])]]
      (demo_crashed []))\<lparr>faults := []\<rparr>) = (Ret (), s') \<and>
    jfiles s' ''demo'' = None \<and> set (conts (wd s')) = {demo_foreign, demo_old}"
  using sweep_eventually_restores [OF demo_crashed_recoverable [of "[]"],
      of "[[Done, Dies], [Done, Done, Fails (Plain ''timeout'' [])]]"]
  by (simp add: fault_ok_def restartable_def demo_crashed_def demo_sys_def demo_world_def)

end
