(* ===== verification/GoPath.thy ===== *)
theory GoPath
  imports GoStrings
begin

text \<open>
  Go's \<^verbatim>\<open>path.Clean\<close> and \<^verbatim>\<open>path.Join\<close> on slash-separated paths, and \<^verbatim>\<open>net.ParseIP\<close> with
  \<^verbatim>\<open>IP.IsLoopback\<close> and \<^verbatim>\<open>IP.String\<close> as far as the configuration checks use them.
\<close>

section \<open>path.Clean\<close>

text \<open>One element of the path, after those already kept (in reverse).\<close>

fun clean_step :: "bool \<Rightarrow> string list \<Rightarrow> string \<Rightarrow> string list" where
  "clean_step rooted out e =
     (if e = '''' \<or> e = ''.'' then out
      else if e = ''..''
      then (case out of
              [] \<Rightarrow> if rooted then [] else [''..'']
            | x # xs \<Rightarrow> if x = ''..'' then ''..'' # out else xs)
      else e # out)"

definition clean_elems :: "bool \<Rightarrow> string list \<Rightarrow> string list" where
  "clean_elems rooted es = rev (foldl (clean_step rooted) [] es)"

definition path_clean :: "string \<Rightarrow> string" where
  "path_clean p =
     (if p = '''' then ''.''
      else let rooted = has_prefix p ''/'';
               es = clean_elems rooted (split_on (CHR ''/'') p);
               body = join ''/'' es
           in if rooted then CHR ''/'' # body else if es = [] then ''.'' else body)"

definition path_join :: "string list \<Rightarrow> string" where
  "path_join es =
     (let ne = filter (\<lambda>e. e \<noteq> '''') es in if ne = [] then '''' else path_clean (join ''/'' ne))"

text \<open>Kept elements: no empty or \<^verbatim>\<open>.\<close> element, and \<^verbatim>\<open>..\<close> only at the front of a relative path.\<close>

definition kept_ok :: "bool \<Rightarrow> string list \<Rightarrow> bool" where
  "kept_ok rooted out \<longleftrightarrow>
     (\<forall>e \<in> set out. e \<noteq> '''' \<and> e \<noteq> ''.'' \<and> CHR ''/'' \<notin> set e) \<and>
     (\<exists>n names. out = names @ replicate n ''..'' \<and> ''..'' \<notin> set names \<and> (rooted \<longrightarrow> n = 0))"

lemma clean_step_ok:
  assumes "kept_ok rooted out" "CHR ''/'' \<notin> set e"
  shows "kept_ok rooted (clean_step rooted out e)"
proof -
  obtain n names where o: "out = names @ replicate n ''..''" "''..'' \<notin> set names" "rooted \<longrightarrow> n = 0"
    and elems: "\<forall>e \<in> set out. e \<noteq> '''' \<and> e \<noteq> ''.'' \<and> CHR ''/'' \<notin> set e"
    using assms(1) by (auto simp: kept_ok_def)
  consider "e = '''' \<or> e = ''.''" | "e = ''..''" | "e \<noteq> ''''" "e \<noteq> ''.''" "e \<noteq> ''..''" by blast
  then show ?thesis
  proof cases
    case 1
    with assms(1) show ?thesis by auto
  next
    case 2
    show ?thesis
    proof (cases names)
      case Nil
      show ?thesis
      proof (cases n)
        case 0
        then show ?thesis using 2 Nil o(1)
          by (auto simp: kept_ok_def intro: exI [of _ 0] exI [of _ "1::nat"])
      next
        case (Suc m)
        then have "clean_step rooted out e = replicate (Suc n) ''..''" using 2 Nil o(1) by simp
        moreover have "\<not> rooted" using o(3) Suc by simp
        ultimately show ?thesis unfolding kept_ok_def
          by (intro conjI exI [of _ "Suc n"] exI [of _ "[]"]) auto
      qed
    next
      case (Cons x xs)
      then have x: "x \<noteq> ''..''" "''..'' \<notin> set xs" using o(2) by auto
      then have "clean_step rooted out e = xs @ replicate n ''..''" using 2 Cons o(1) by simp
      then show ?thesis using x(2) o elems Cons by (auto simp: kept_ok_def)
    qed
  next
    case 3
    then have "clean_step rooted out e = (e # names) @ replicate n ''..''" using o(1) by simp
    then show ?thesis unfolding kept_ok_def
      using 3 o elems assms(2) by (intro conjI exI [of _ n] exI [of _ "e # names"]) auto
  qed
qed

lemma clean_elems_ok:
  "\<forall>e \<in> set es. CHR ''/'' \<notin> set e \<Longrightarrow> kept_ok rooted out \<Longrightarrow> kept_ok rooted (foldl (clean_step rooted) out es)"
  by (induction es arbitrary: out) (auto intro: clean_step_ok simp del: clean_step.simps)

lemma kept_ok_Nil: "kept_ok rooted []"
  by (auto simp: kept_ok_def)

lemma path_elems:
  fixes p :: string
  defines "out \<equiv> foldl (clean_step (has_prefix p ''/'')) [] (split_on (CHR ''/'') p)"
  shows "kept_ok (has_prefix p ''/'') out"
  unfolding out_def by (rule clean_elems_ok [OF _ kept_ok_Nil]) (use split_on_elem in blast)

text \<open>The elements of a path that is its own cleaned form.\<close>

definition elems :: "string \<Rightarrow> string list" where
  "elems p = filter (\<lambda>e. e \<noteq> '''') (split_on (CHR ''/'') p)"

lemma split_on_join_clean:
  assumes "\<forall>e \<in> set es. e \<noteq> '''' \<and> CHR ''/'' \<notin> set e" "es \<noteq> []"
  shows "split_on (CHR ''/'') (join ''/'' es) = es"
  using split_on_join [of es "CHR ''/''"] assms by simp

lemma clean_rooted_elems:
  assumes "path_clean p = p" "has_prefix p ''/''" "p \<noteq> ''/''"
  shows "elems p \<noteq> []" "''..'' \<notin> set (elems p)" "''.'' \<notin> set (elems p)" "p = CHR ''/'' # join ''/'' (elems p)"
proof -
  define out where "out = foldl (clean_step True) [] (split_on (CHR ''/'') p)"
  have k: "kept_ok True out" using path_elems [of p] assms(2) by (simp add: out_def)
  have p: "p = CHR ''/'' # join ''/'' (rev out)"
    using assms by (auto simp: path_clean_def clean_elems_def Let_def out_def split: if_splits)
  with assms(3) have ne: "rev out \<noteq> []" by auto
  have el: "\<forall>e \<in> set (rev out). e \<noteq> '''' \<and> CHR ''/'' \<notin> set e" using k by (auto simp: kept_ok_def)
  have "split_on (CHR ''/'') p = [] # rev out"
    using split_on_join_clean [OF el ne] by (subst p) simp
  then have e: "elems p = rev out" using el by (simp add: elems_def filter_id_conv)
  show "elems p \<noteq> []" "p = CHR ''/'' # join ''/'' (elems p)" using ne p e by simp_all
  show "''..'' \<notin> set (elems p)" "''.'' \<notin> set (elems p)" using k e by (auto simp: kept_ok_def)
qed

lemma clean_relative_elems:
  assumes "path_clean p = p" "\<not> has_prefix p ''/''" "p \<noteq> ''..''" "\<not> has_prefix p ''../''" "p \<noteq> ''.''"
  shows "elems p \<noteq> []" "''..'' \<notin> set (elems p)" "''.'' \<notin> set (elems p)" "p = join ''/'' (elems p)"
proof -
  define out where "out = foldl (clean_step False) [] (split_on (CHR ''/'') p)"
  have k: "kept_ok False out" using path_elems [of p] assms(2) by (simp add: out_def)
  have "p \<noteq> ''''" using assms(1,5) by (auto simp: path_clean_def)
  then have p: "rev out \<noteq> []" "p = join ''/'' (rev out)"
    using assms by (auto simp: path_clean_def clean_elems_def Let_def out_def split: if_splits)
  have el: "\<forall>e \<in> set (rev out). e \<noteq> '''' \<and> CHR ''/'' \<notin> set e" using k by (auto simp: kept_ok_def)
  have "split_on (CHR ''/'') p = rev out"
    using split_on_join_clean [OF el p(1)] by (subst p(2))
  then have e: "elems p = rev out" using el by (simp add: elems_def filter_id_conv)
  show "elems p \<noteq> []" "p = join ''/'' (elems p)" using p e by simp_all
  show "''.'' \<notin> set (elems p)" using k e by (auto simp: kept_ok_def)
  obtain n names where o: "out = names @ replicate n ''..''" "''..'' \<notin> set names"
    using k by (auto simp: kept_ok_def)
  have "n = 0"
  proof (rule ccontr)
    assume "n \<noteq> 0"
    then obtain m where "n = Suc m" by (cases n) auto
    then have r: "rev out = ''..'' # replicate m ''..'' @ rev names" using o(1) by (simp add: replicate_append_same)
    show False
    proof (cases "replicate m ''..'' @ rev names")
      case Nil
      with r p(2) assms(3) show False by simp
    next
      case (Cons x xs)
      with r p(2) have "p = ''../'' @ join ''/'' (x # xs)" by simp
      with assms(4) show False by (simp only: has_prefix_append not_True_eq_False)
    qed
  qed
  with o e show "''..'' \<notin> set (elems p)" by simp
qed

text \<open>
  The two shapes of path the configuration accepts: a relative path of ordinary elements (or
  the working directory itself) and an absolute path of ordinary elements.
\<close>

definition plain_elem :: "string \<Rightarrow> bool" where
  "plain_elem e \<longleftrightarrow> e \<noteq> '''' \<and> e \<noteq> ''.'' \<and> e \<noteq> ''..'' \<and> CHR ''/'' \<notin> set e"

lemma foldl_clean_plain:
  "list_all plain_elem es \<Longrightarrow> foldl (clean_step r) out es = rev es @ out"
  by (induction es arbitrary: out) (simp_all add: plain_elem_def)

lemma split_on_plain:
  assumes "list_all plain_elem es" "es \<noteq> []"
  shows "split_on (CHR ''/'') (join ''/'' es) = es"
  by (rule split_on_join_clean) (use assms in \<open>auto simp: list_all_iff plain_elem_def\<close>)

lemma join_plain_head:
  assumes "list_all plain_elem es" "es \<noteq> []"
  shows "join ''/'' es \<noteq> ''''" "\<not> has_prefix (join ''/'' es) ''/''"
proof -
  obtain e es' where es: "es = e # es'" using assms(2) by (cases es) auto
  obtain c cs where e: "e = c # cs" "c \<noteq> CHR ''/''" using assms(1) es by (cases e) (auto simp: plain_elem_def)
  show "join ''/'' es \<noteq> ''''" "\<not> has_prefix (join ''/'' es) ''/''"
    using e es by (cases es'; simp add: has_prefix_def)+
qed

lemma path_clean_plain:
  assumes "list_all plain_elem es" "es \<noteq> []"
  shows "path_clean (join ''/'' es) = join ''/'' es"
    "path_clean (CHR ''/'' # join ''/'' es) = CHR ''/'' # join ''/'' es"
  using foldl_clean_plain [OF assms(1), of _ "[]"] split_on_plain [OF assms] join_plain_head [OF assms] assms(2)
  by (simp_all add: path_clean_def clean_elems_def Let_def has_prefix_def)

lemma elems_elem: "e \<in> set (elems p) \<Longrightarrow> e \<noteq> '''' \<and> CHR ''/'' \<notin> set e"
  by (auto simp: elems_def dest: split_on_elem)

lemma clean_relative_iff:
  "p \<noteq> '''' \<and> \<not> has_prefix p ''/'' \<and> path_clean p = p \<and> p \<noteq> ''..'' \<and> \<not> has_prefix p ''../'' \<longleftrightarrow>
     p = ''.'' \<or> (\<exists>es. es \<noteq> [] \<and> list_all plain_elem es \<and> p = join ''/'' es)"
proof (intro iffI; (elim conjE)?)
  assume p: "\<not> has_prefix p ''/''" "path_clean p = p" "p \<noteq> ''..''" "\<not> has_prefix p ''../''"
  show "p = ''.'' \<or> (\<exists>es. es \<noteq> [] \<and> list_all plain_elem es \<and> p = join ''/'' es)"
  proof (cases "p = ''.''")
    case False
    note e = clean_relative_elems [OF p(2,1,3,4) False]
    then have "list_all plain_elem (elems p)"
      using elems_elem [of _ p] by (auto simp: list_all_iff plain_elem_def)
    with e(1,4) show ?thesis by blast
  qed simp
next
  assume "p = ''.'' \<or> (\<exists>es. es \<noteq> [] \<and> list_all plain_elem es \<and> p = join ''/'' es)"
  then show "p \<noteq> '''' \<and> \<not> has_prefix p ''/'' \<and> path_clean p = p \<and> p \<noteq> ''..'' \<and> \<not> has_prefix p ''../''"
  proof (elim disjE exE conjE)
    fix es
    assume es: "es \<noteq> []" "list_all plain_elem es" "p = join ''/'' es"
    have s: "split_on (CHR ''/'') p = es" using split_on_plain es by simp
    have "''..'' \<notin> set es" using es(2) by (auto simp: list_all_iff plain_elem_def)
    then have "p \<noteq> ''..''" "\<not> has_prefix p ''../''" using s by (auto simp: has_prefix_iff)
    then show ?thesis using es join_plain_head [OF es(2,1)] path_clean_plain [OF es(2,1)] by simp
  qed (simp add: path_clean_def clean_elems_def has_prefix_def)
qed

lemma clean_absolute_iff:
  "has_prefix p ''/'' \<and> path_clean p = p \<and> p \<noteq> ''/'' \<longleftrightarrow>
     (\<exists>es. es \<noteq> [] \<and> list_all plain_elem es \<and> p = CHR ''/'' # join ''/'' es)"
proof (intro iffI; (elim conjE exE)?)
  assume p: "has_prefix p ''/''" "path_clean p = p" "p \<noteq> ''/''"
  note e = clean_rooted_elems [OF p(2,1,3)]
  then have "list_all plain_elem (elems p)"
    using elems_elem [of _ p] by (auto simp: list_all_iff plain_elem_def)
  with e(1,4) show "\<exists>es. es \<noteq> [] \<and> list_all plain_elem es \<and> p = CHR ''/'' # join ''/'' es" by blast
next
  fix es
  assume es: "es \<noteq> []" "list_all plain_elem es" "p = CHR ''/'' # join ''/'' es"
  then show "has_prefix p ''/'' \<and> path_clean p = p \<and> p \<noteq> ''/''"
    using path_clean_plain [OF es(2,1)] join_plain_head [OF es(2,1)] by (simp add: has_prefix_def)
qed

text \<open>
  The elements of an absolute path of ordinary names, and when one path is inside another.
\<close>

lemma split_on_append_sep: "split_on d (a @ d # b) = split_on d a @ split_on d b"
  by (induction a) (auto split: list.splits)

lemma elems_plain:
  assumes "list_all plain_elem es" "es \<noteq> []"
  shows "elems (CHR ''/'' # join ''/'' es) = es"
  using split_on_plain [OF assms] assms(1) by (simp add: elems_def filter_id_conv list_all_iff plain_elem_def)

lemma inside_iff:
  assumes "list_all plain_elem es" "es \<noteq> []" "list_all plain_elem fs" "fs \<noteq> []"
  shows "has_prefix (CHR ''/'' # join ''/'' es) ((CHR ''/'' # join ''/'' fs) @ ''/'') \<longleftrightarrow> strict_prefix fs es"
proof
  assume "has_prefix (CHR ''/'' # join ''/'' es) ((CHR ''/'' # join ''/'' fs) @ ''/'')"
  then obtain r where "join ''/'' es = join ''/'' fs @ CHR ''/'' # r" by (auto simp: has_prefix_iff)
  then have "es = fs @ split_on (CHR ''/'') r"
    using split_on_plain [OF assms(1,2)] split_on_plain [OF assms(3,4)]
      split_on_append_sep [of "CHR ''/''" "join ''/'' fs" r] by simp
  then show "strict_prefix fs es" by (simp add: strict_prefix_def prefix_def)
next
  assume "strict_prefix fs es"
  then obtain g gs where g: "es = fs @ g # gs" by (auto elim: strict_prefixE')
  have j: "ws \<noteq> [] \<Longrightarrow> join ''/'' (ws @ g # gs) = join ''/'' ws @ CHR ''/'' # join ''/'' (g # gs)" for ws
  proof (induction ws)
    case (Cons w ws)
    then show ?case by (cases ws) simp_all
  qed simp
  have "CHR ''/'' # join ''/'' es = ((CHR ''/'' # join ''/'' fs) @ ''/'') @ join ''/'' (g # gs)"
    using j [OF assms(4)] g by simp
  then show "has_prefix (CHR ''/'' # join ''/'' es) ((CHR ''/'' # join ''/'' fs) @ ''/'')"
    by (metis has_prefix_append)
qed

section \<open>net.ParseIP\<close>

text \<open>
  A sixteen-byte address as a list of byte values. \<open>parse_ipv6\<close> follows the loop of
  \<^verbatim>\<open>netip.parseIPv6\<close>: at most eight rounds, the bytes written so far, and the offset of the
  double colon. A zone makes \<^verbatim>\<open>net.ParseIP\<close> return nil, so \<^verbatim>\<open>%\<close> is rejected.
\<close>

definition dec_field :: "string \<Rightarrow> nat option" where
  "dec_field s =
     (if s \<noteq> [] \<and> list_all is_digit s \<and> (length s > 1 \<longrightarrow> hd s \<noteq> CHR ''0'') \<and> digits_value s \<le> 255
      then Some (digits_value s) else None)"

definition parse_ipv4 :: "string \<Rightarrow> nat list option" where
  "parse_ipv4 s =
     (let fs = map dec_field (split_on (CHR ''.'') s)
      in if length fs = 4 \<and> None \<notin> set fs then Some (map the fs) else None)"

definition hex_nibble :: "char \<Rightarrow> nat option" where
  "hex_nibble c =
     (if is_digit c then Some (byte c - 48)
      else if 97 \<le> byte c \<and> byte c \<le> 102 then Some (byte c - 87)
      else if 65 \<le> byte c \<and> byte c \<le> 70 then Some (byte c - 55)
      else None)"

definition hex_value :: "string \<Rightarrow> nat" where
  "hex_value s = foldl (\<lambda>n c. 16 * n + the (hex_nibble c)) 0 s"

fun ipv6_groups :: "nat \<Rightarrow> nat list \<Rightarrow> nat option \<Rightarrow> string \<Rightarrow> (nat list \<times> nat option \<times> string) option" where
  "ipv6_groups 0 ip ell s = Some (ip, ell, s)"
| "ipv6_groups (Suc n) ip ell s =
     (let ds = takeWhile (\<lambda>c. hex_nibble c \<noteq> None) s;
          rest = drop (length ds) s;
          ip' = ip @ [hex_value ds div 256, hex_value ds mod 256]
      in if ds = [] \<or> length ds > 4 then None
         else if has_prefix rest ''.''
         then (if ell = None \<and> length ip \<noteq> 12 \<or> length ip + 4 > 16 then None
               else map_option (\<lambda>v. (ip @ v, ell, [])) (parse_ipv4 s))
         else (case rest of
                 [] \<Rightarrow> Some (ip', ell, [])
               | [c] \<Rightarrow> None
               | c # d # us \<Rightarrow>
                   if c \<noteq> CHR '':'' then None
                   else if d \<noteq> CHR '':'' then ipv6_groups n ip' ell (d # us)
                   else if ell \<noteq> None then None
                   else if us = [] then Some (ip', Some (length ip'), [])
                   else ipv6_groups n ip' (Some (length ip')) us))"

definition parse_ipv6 :: "string \<Rightarrow> nat list option" where
  "parse_ipv6 s =
     (let lead = has_prefix s ''::'';
          t = (if lead then drop 2 s else s)
      in if CHR ''%'' \<in> set s then None
         else if lead \<and> t = [] then Some (replicate 16 0)
         else (case ipv6_groups 8 [] (if lead then Some 0 else None) t of
                 None \<Rightarrow> None
               | Some (ip, ell, rest) \<Rightarrow>
                   if rest \<noteq> [] then None
                   else if length ip < 16
                   then map_option (\<lambda>k. take k ip @ replicate (16 - length ip) 0 @ drop k ip) ell
                   else if ell \<noteq> None then None else Some ip))"

definition v4_in_v6 :: "nat list \<Rightarrow> nat list" where
  "v4_in_v6 v = replicate 10 0 @ [255, 255] @ v"

text \<open>\<^verbatim>\<open>netip.ParseAddr\<close> decides the family by the first of the bytes \<^verbatim>\<open>.\<close>, \<^verbatim>\<open>:\<close> and \<^verbatim>\<open>%\<close>.\<close>

definition ParseIP :: "string \<Rightarrow> nat list option" where
  "ParseIP s =
     (case List.find (\<lambda>c. c = CHR ''.'' \<or> c = CHR '':'' \<or> c = CHR ''%'') s of
        None \<Rightarrow> None
      | Some c \<Rightarrow>
          if c = CHR ''.'' then map_option v4_in_v6 (parse_ipv4 s)
          else if c = CHR '':'' then parse_ipv6 s else None)"

definition To4 :: "nat list \<Rightarrow> nat list option" where
  "To4 ip =
     (if length ip = 16 \<and> take 12 ip = replicate 10 0 @ [255, 255] then Some (drop 12 ip) else None)"

definition IsLoopback :: "nat list \<Rightarrow> bool" where
  "IsLoopback ip =
     (case To4 ip of Some v \<Rightarrow> v ! 0 = 127 | None \<Rightarrow> ip = replicate 15 0 @ [1])"

definition ipv4_string :: "nat list \<Rightarrow> string" where
  "ipv4_string v = join ''.'' (map itoa v)"

lemma To4_v4 [simp]: "length v = 4 \<Longrightarrow> To4 (v4_in_v6 v) = Some v"
  by (simp add: To4_def v4_in_v6_def)

lemma IsLoopback_v4: "length v = 4 \<Longrightarrow> IsLoopback (v4_in_v6 v) \<longleftrightarrow> hd v = 127"
  by (cases v) (auto simp: IsLoopback_def)

lemma dec_field_le: "dec_field s = Some n \<Longrightarrow> n \<le> 255"
  by (auto simp: dec_field_def split: if_splits)

lemma parse_ipv4_bytes: "parse_ipv4 s = Some v \<Longrightarrow> length v = 4 \<and> (\<forall>b \<in> set v. b \<le> 255)"
proof -
  assume "parse_ipv4 s = Some v"
  then have v: "length v = 4" "None \<notin> set (map dec_field (split_on (CHR ''.'') s))"
      "v = map the (map dec_field (split_on (CHR ''.'') s))"
    by (auto simp: parse_ipv4_def Let_def split: if_splits)
  have "b \<le> 255" if "b \<in> set v" for b
  proof -
    from that v(3) obtain f where f: "f \<in> set (split_on (CHR ''.'') s)" "b = the (dec_field f)" by auto
    with v(2) obtain n where "dec_field f = Some n" by (cases "dec_field f") (auto simp: image_iff)
    with f(2) show ?thesis by (simp add: dec_field_le)
  qed
  with v(1) show ?thesis by blast
qed

lemma ParseIP_no_colon:
  assumes "CHR '':'' \<notin> set s" "ParseIP s = Some ip"
  shows "\<exists>v. parse_ipv4 s = Some v \<and> ip = v4_in_v6 v"
  using assms by (auto simp: ParseIP_def split: option.splits if_splits dest: find_SomeD)

lemma dec_field_itoa: "n \<le> 255 \<Longrightarrow> dec_field (itoa n) = Some n"
  using itoa_digits [of n] itoa_hd_nonzero [of n] digits_value_itoa [of 0]
  by (cases "n = 0") (simp_all add: dec_field_def digits_value_itoa itoa.simps [of 0])

lemma parse_ipv4_string:
  assumes "length v = 4" "\<forall>b \<in> set v. b \<le> 255"
  shows "parse_ipv4 (ipv4_string v) = Some v"
proof -
  have "split_on (CHR ''.'') (ipv4_string v) = map itoa v" unfolding ipv4_string_def
    by (rule split_on_join) (use assms(1) in \<open>auto simp: itoa_no_char is_digit_def\<close>)
  then have "map dec_field (split_on (CHR ''.'') (ipv4_string v)) = map Some v"
    using assms(2) by (auto simp: dec_field_itoa)
  with assms(1) show ?thesis by (simp add: parse_ipv4_def comp_def)
qed

lemma find_append_first:
  "\<forall>x \<in> set a. \<not> P x \<Longrightarrow> P y \<Longrightarrow> List.find P (a @ y # b) = Some y"
  by (induction a) auto

lemma ParseIP_ipv4_string:
  assumes "length v = 4" "\<forall>b \<in> set v. b \<le> 255"
  shows "ParseIP (ipv4_string v) = Some (v4_in_v6 v)"
proof -
  obtain a b c d where v: "v = [a, b, c, d]" using assms(1) by (auto simp: length_Suc_conv numeral_eq_Suc)
  have "\<forall>x \<in> set (itoa a). \<not> (x = CHR ''.'' \<or> x = CHR '':'' \<or> x = CHR ''%'')"
    using itoa_digits [of a] by (auto simp: list_all_iff is_digit_def)
  from find_append_first [OF this, of "CHR ''.''"] show ?thesis
    using parse_ipv4_string [OF assms] by (simp add: ParseIP_def ipv4_string_def v)
qed

lemma ipv4_string_no_colon: "CHR '':'' \<notin> set (ipv4_string v)"
  by (auto simp: ipv4_string_def itoa_no_char is_digit_def dest!: join_set)

end
