(* ===== verification/GoRegexp.thy ===== *)
theory GoRegexp
  imports GoStrings
begin

text \<open>
  The part of Go's \<^verbatim>\<open>regexp\<close> syntax the modelled sources use: anchored patterns over byte
  classes, with concatenation, alternation, repetition and counted repetition. \<open>rx_match\<close>
  decides a match by derivatives; \<open>rx_lang\<close> is the language of a pattern, and the two agree
  (\<open>rx_match_iff\<close>). A pattern of the sources is transcribed constructor by constructor.
\<close>

datatype regex =
    RxNone
  | RxEmpty
  | RxClass "(nat \<times> nat) list"
  | RxSeq regex regex
  | RxAlt regex regex
  | RxStar regex

definition in_class :: "(nat \<times> nat) list \<Rightarrow> char \<Rightarrow> bool" where
  "in_class rs c = list_ex (\<lambda>(a, b). a \<le> byte c \<and> byte c \<le> b) rs"

fun rx_null :: "regex \<Rightarrow> bool" where
  "rx_null RxNone = False"
| "rx_null RxEmpty = True"
| "rx_null (RxClass _) = False"
| "rx_null (RxSeq r s) = (rx_null r \<and> rx_null s)"
| "rx_null (RxAlt r s) = (rx_null r \<or> rx_null s)"
| "rx_null (RxStar _) = True"

fun rx_seq :: "regex \<Rightarrow> regex \<Rightarrow> regex" where
  "rx_seq RxNone _ = RxNone"
| "rx_seq RxEmpty s = s"
| "rx_seq r s = RxSeq r s"

fun rx_alt :: "regex \<Rightarrow> regex \<Rightarrow> regex" where
  "rx_alt RxNone s = s"
| "rx_alt r RxNone = r"
| "rx_alt r s = RxAlt r s"

fun rx_deriv :: "char \<Rightarrow> regex \<Rightarrow> regex" where
  "rx_deriv c RxNone = RxNone"
| "rx_deriv c RxEmpty = RxNone"
| "rx_deriv c (RxClass rs) = (if in_class rs c then RxEmpty else RxNone)"
| "rx_deriv c (RxSeq r s) =
     (if rx_null r then rx_alt (rx_seq (rx_deriv c r) s) (rx_deriv c s) else rx_seq (rx_deriv c r) s)"
| "rx_deriv c (RxAlt r s) = rx_alt (rx_deriv c r) (rx_deriv c s)"
| "rx_deriv c (RxStar r) = rx_seq (rx_deriv c r) (RxStar r)"

fun rx_match :: "regex \<Rightarrow> string \<Rightarrow> bool" where
  "rx_match r [] = rx_null r"
| "rx_match r (c # cs) = rx_match (rx_deriv c r) cs"

section \<open>Derived forms\<close>

definition rx_opt :: "regex \<Rightarrow> regex" where
  "rx_opt r = RxAlt r RxEmpty"

definition rx_plus :: "regex \<Rightarrow> regex" where
  "rx_plus r = RxSeq r (RxStar r)"

fun rx_upto :: "nat \<Rightarrow> regex \<Rightarrow> regex" where
  "rx_upto 0 r = RxEmpty"
| "rx_upto (Suc n) r = rx_opt (RxSeq r (rx_upto n r))"

fun rx_times :: "nat \<Rightarrow> regex \<Rightarrow> regex" where
  "rx_times 0 r = RxEmpty"
| "rx_times (Suc n) r = RxSeq r (rx_times n r)"

definition rx_between :: "nat \<Rightarrow> nat \<Rightarrow> regex \<Rightarrow> regex" where
  "rx_between m n r = RxSeq (rx_times m r) (rx_upto (n - m) r)"

fun rx_lit :: "string \<Rightarrow> regex" where
  "rx_lit [] = RxEmpty"
| "rx_lit (c # cs) = RxSeq (RxClass [(byte c, byte c)]) (rx_lit cs)"

fun rx_seqs :: "regex list \<Rightarrow> regex" where
  "rx_seqs [] = RxEmpty"
| "rx_seqs (r # rs) = RxSeq r (rx_seqs rs)"

fun rx_alts :: "regex list \<Rightarrow> regex" where
  "rx_alts [] = RxNone"
| "rx_alts (r # rs) = RxAlt r (rx_alts rs)"

section \<open>The language of a pattern\<close>

inductive rx_lang :: "regex \<Rightarrow> string \<Rightarrow> bool" where
  Empty: "rx_lang RxEmpty []"
| Class: "in_class rs c \<Longrightarrow> rx_lang (RxClass rs) [c]"
| Seq: "rx_lang r a \<Longrightarrow> rx_lang s b \<Longrightarrow> rx_lang (RxSeq r s) (a @ b)"
| AltL: "rx_lang r a \<Longrightarrow> rx_lang (RxAlt r s) a"
| AltR: "rx_lang s a \<Longrightarrow> rx_lang (RxAlt r s) a"
| Star0: "rx_lang (RxStar r) []"
| Star1: "rx_lang r a \<Longrightarrow> rx_lang (RxStar r) b \<Longrightarrow> rx_lang (RxStar r) (a @ b)"

declare rx_lang.intros [intro]

inductive_cases rx_NoneE [elim!]: "rx_lang RxNone s"
inductive_cases rx_EmptyE [elim!]: "rx_lang RxEmpty s"
inductive_cases rx_ClassE [elim!]: "rx_lang (RxClass rs) s"
inductive_cases rx_SeqE [elim!]: "rx_lang (RxSeq r t) s"
inductive_cases rx_AltE [elim!]: "rx_lang (RxAlt r t) s"

lemma rx_null_iff: "rx_null r \<longleftrightarrow> rx_lang r []"
proof (induction r)
  case (RxSeq r s)
  have "rx_lang (RxSeq r s) [] \<longleftrightarrow> rx_lang r [] \<and> rx_lang s []"
    using rx_lang.Seq [of r "[]" s "[]"] by (auto elim: rx_SeqE)
  with RxSeq show ?case by simp
qed auto

lemma rx_lang_seq: "rx_lang (rx_seq r s) w \<longleftrightarrow> rx_lang (RxSeq r s) w"
  using rx_lang.Seq [OF rx_lang.Empty, of s w] by (cases r) auto

inductive_simps rx_Alt_iff: "rx_lang (RxAlt r t) s"

lemma rx_lang_alt: "rx_lang (rx_alt r s) w \<longleftrightarrow> rx_lang r w \<or> rx_lang s w"
  by (cases r; cases s) (auto simp: rx_Alt_iff)

lemma rx_star_Cons:
  assumes "rx_lang (RxStar r) w" "w = c # cs"
  shows "\<exists>a b. cs = a @ b \<and> rx_lang r (c # a) \<and> rx_lang (RxStar r) b"
  using assms
proof (induction "RxStar r" w arbitrary: cs rule: rx_lang.induct)
  case (Star1 a b)
  then show ?case by (cases a) auto
qed simp

lemma rx_deriv_iff: "rx_lang (rx_deriv c r) cs \<longleftrightarrow> rx_lang r (c # cs)"
proof (induction r arbitrary: cs)
  case (RxSeq r s)
  have "rx_lang (RxSeq r s) (c # cs) \<longleftrightarrow>
      rx_lang (RxSeq (rx_deriv c r) s) cs \<or> rx_null r \<and> rx_lang s (c # cs)"
  proof
    assume "rx_lang (RxSeq r s) (c # cs)"
    then obtain a b where ab: "c # cs = a @ b" "rx_lang r a" "rx_lang s b" by auto
    then show "rx_lang (RxSeq (rx_deriv c r) s) cs \<or> rx_null r \<and> rx_lang s (c # cs)"
      by (cases a) (auto simp: rx_null_iff RxSeq.IH(1))
  next
    assume "rx_lang (RxSeq (rx_deriv c r) s) cs \<or> rx_null r \<and> rx_lang s (c # cs)"
    then show "rx_lang (RxSeq r s) (c # cs)"
    proof
      assume "rx_lang (RxSeq (rx_deriv c r) s) cs"
      then obtain a b where "cs = a @ b" "rx_lang r (c # a)" "rx_lang s b" using RxSeq.IH(1) by auto
      then show ?thesis using rx_lang.Seq [of r "c # a" s b] by simp
    next
      assume "rx_null r \<and> rx_lang s (c # cs)"
      then show ?thesis using rx_lang.Seq [of r "[]" s "c # cs"] by (simp add: rx_null_iff)
    qed
  qed
  with RxSeq.IH(2) show ?case by (simp add: rx_lang_alt rx_lang_seq)
next
  case (RxAlt r s)
  then show ?case by (simp add: rx_lang_alt rx_Alt_iff)
next
  case (RxStar r)
  have "rx_lang (RxSeq (rx_deriv c r) (RxStar r)) cs \<longleftrightarrow> rx_lang (RxStar r) (c # cs)"
  proof
    assume "rx_lang (RxSeq (rx_deriv c r) (RxStar r)) cs"
    then obtain a b where "cs = a @ b" "rx_lang r (c # a)" "rx_lang (RxStar r) b" using RxStar.IH by auto
    then show "rx_lang (RxStar r) (c # cs)" using rx_lang.Star1 [of r "c # a" b] by simp
  next
    assume "rx_lang (RxStar r) (c # cs)"
    from rx_star_Cons [OF this refl] show "rx_lang (RxSeq (rx_deriv c r) (RxStar r)) cs"
      using RxStar.IH by auto
  qed
  then show ?case by (simp add: rx_lang_seq)
qed auto

lemma rx_match_iff: "rx_match r s \<longleftrightarrow> rx_lang r s"
  by (induction s arbitrary: r) (simp_all add: rx_null_iff rx_deriv_iff)

text \<open>Every character of a match belongs to some class of the pattern.\<close>

fun rx_over :: "(char \<Rightarrow> bool) \<Rightarrow> regex \<Rightarrow> bool" where
  "rx_over P RxNone = True"
| "rx_over P RxEmpty = True"
| "rx_over P (RxClass rs) = (\<forall>c. in_class rs c \<longrightarrow> P c)"
| "rx_over P (RxSeq r s) = (rx_over P r \<and> rx_over P s)"
| "rx_over P (RxAlt r s) = (rx_over P r \<and> rx_over P s)"
| "rx_over P (RxStar r) = rx_over P r"

lemma rx_lang_over: "rx_lang r s \<Longrightarrow> rx_over P r \<Longrightarrow> list_all P s"
  by (induction rule: rx_lang.induct) auto

lemma rx_over_upto: "rx_over P r \<Longrightarrow> rx_over P (rx_upto n r)"
  by (induction n) (simp_all add: rx_opt_def)

lemma rx_over_times: "rx_over P r \<Longrightarrow> rx_over P (rx_times n r)"
  by (induction n) simp_all

lemma rx_over_derived [simp]:
  "rx_over P r \<Longrightarrow> rx_over P (rx_between m n r)" "rx_over P r \<Longrightarrow> rx_over P (rx_opt r)"
  "rx_over P r \<Longrightarrow> rx_over P (rx_plus r)"
  by (simp_all add: rx_between_def rx_opt_def rx_plus_def rx_over_upto rx_over_times)

lemma rx_match_over: "rx_match r s \<Longrightarrow> rx_over P r \<Longrightarrow> list_all P s"
  by (simp add: rx_match_iff rx_lang_over)

end
