(* ===== verification/SchemaTypes.thy ===== *)
theory SchemaTypes
  imports Domain GoPath GoRegexp "HOL-Library.Finite_Map"
begin

text \<open>
  \<^verbatim>\<open>internal/schema/types.go\<close>: the manifest document, its closed enumerations with their
  \<^verbatim>\<open>UnmarshalText\<close> methods, agent specifications, and the decoding of an environment mapping
  from a YAML node. Each enumeration has a constructor for the zero value of its Go string
  type, the value of an absent field. Every enumeration and the agent specifications are
  interpretations of \<open>text_codec\<close>: exactly the texts the printer makes are accepted.
\<close>

section \<open>Enumerations\<close>

datatype agent_kind = NoAgent | AgentClaude | AgentCodex | AgentGrok

fun agent_text :: "agent_kind \<Rightarrow> string" where
  "agent_text NoAgent = ''''"
| "agent_text AgentClaude = ''claude''"
| "agent_text AgentCodex = ''codex''"
| "agent_text AgentGrok = ''grok''"

definition AgentKind_UnmarshalText :: "string \<Rightarrow> error + agent_kind" where
  "AgentKind_UnmarshalText b =
     (if b = agent_text AgentClaude then Inr AgentClaude
      else if b = agent_text AgentCodex then Inr AgentCodex
      else if b = agent_text AgentGrok then Inr AgentGrok
      else Inl (Class ErrInvalid ''%w: agent %q: known agents are claude, codex, grok'' [b]))"

datatype memory_mode = NoMemoryMode | MemoryOff | MemoryAuto

fun memory_text :: "memory_mode \<Rightarrow> string" where
  "memory_text NoMemoryMode = ''''"
| "memory_text MemoryOff = ''off''"
| "memory_text MemoryAuto = ''auto''"

definition MemoryMode_UnmarshalText :: "string \<Rightarrow> error + memory_mode" where
  "MemoryMode_UnmarshalText b =
     (if b = memory_text MemoryOff then Inr MemoryOff
      else if b = memory_text MemoryAuto then Inr MemoryAuto
      else Inl (Class ErrInvalid ''%w: agent.memory %q: known modes are auto, off'' [b]))"

datatype egress_mode = NoEgressMode | EgressOn | EgressOff

fun egress_text :: "egress_mode \<Rightarrow> string" where
  "egress_text NoEgressMode = ''''"
| "egress_text EgressOn = ''on''"
| "egress_text EgressOff = ''off''"

definition EgressMode_UnmarshalText :: "string \<Rightarrow> error + egress_mode" where
  "EgressMode_UnmarshalText b =
     (if b = egress_text EgressOn then Inr EgressOn
      else if b = egress_text EgressOff then Inr EgressOff
      else Inl (Class ErrInvalid ''%w: runtime.egress %q: known modes are on, off'' [b]))"

datatype toolchain =
  NoToolchain | ToolchainNode | ToolchainBun | ToolchainGo | ToolchainRokit | ToolchainUv

fun toolchain_text :: "toolchain \<Rightarrow> string" where
  "toolchain_text NoToolchain = ''''"
| "toolchain_text ToolchainNode = ''node''"
| "toolchain_text ToolchainBun = ''bun''"
| "toolchain_text ToolchainGo = ''go''"
| "toolchain_text ToolchainRokit = ''rokit''"
| "toolchain_text ToolchainUv = ''uv''"

definition Toolchain_UnmarshalText :: "string \<Rightarrow> error + toolchain" where
  "Toolchain_UnmarshalText b =
     (if b = toolchain_text ToolchainNode then Inr ToolchainNode
      else if b = toolchain_text ToolchainBun then Inr ToolchainBun
      else if b = toolchain_text ToolchainGo then Inr ToolchainGo
      else if b = toolchain_text ToolchainRokit then Inr ToolchainRokit
      else if b = toolchain_text ToolchainUv then Inr ToolchainUv
      else Inl (Class ErrInvalid
             ''%w: toolchain %q: known toolchains are node, bun, go, rokit, uv'' [b]))"

interpretation agent_kind_text: text_codec AgentKind_UnmarshalText agent_text "\<lambda>k. k \<noteq> NoAgent"
proof
  fix k :: agent_kind
  assume "k \<noteq> NoAgent"
  then show "AgentKind_UnmarshalText (agent_text k) = Inr k"
    by (cases k) (simp_all add: AgentKind_UnmarshalText_def)
qed (auto simp: AgentKind_UnmarshalText_def split: if_splits)

interpretation memory_mode_text: text_codec MemoryMode_UnmarshalText memory_text "\<lambda>k. k \<noteq> NoMemoryMode"
proof
  fix k :: memory_mode
  assume "k \<noteq> NoMemoryMode"
  then show "MemoryMode_UnmarshalText (memory_text k) = Inr k"
    by (cases k) (simp_all add: MemoryMode_UnmarshalText_def)
qed (auto simp: MemoryMode_UnmarshalText_def split: if_splits)

interpretation egress_mode_text: text_codec EgressMode_UnmarshalText egress_text "\<lambda>k. k \<noteq> NoEgressMode"
proof
  fix k :: egress_mode
  assume "k \<noteq> NoEgressMode"
  then show "EgressMode_UnmarshalText (egress_text k) = Inr k"
    by (cases k) (simp_all add: EgressMode_UnmarshalText_def)
qed (auto simp: EgressMode_UnmarshalText_def split: if_splits)

interpretation toolchain_text: text_codec Toolchain_UnmarshalText toolchain_text "\<lambda>k. k \<noteq> NoToolchain"
proof
  fix k :: toolchain
  assume "k \<noteq> NoToolchain"
  then show "Toolchain_UnmarshalText (toolchain_text k) = Inr k"
    by (cases k) (simp_all add: Toolchain_UnmarshalText_def)
qed (auto simp: Toolchain_UnmarshalText_def split: if_splits)

section \<open>Agent specifications\<close>

record agent_spec =
  as_kind :: agent_kind
  as_version :: string

text \<open>
  The rune loop of \<^verbatim>\<open>validAgentVersion\<close>. Its index is the byte offset, of which only
  being the first rune matters.
\<close>

definition version_rune :: "bool \<Rightarrow> nat \<Rightarrow> bool" where
  "version_rune fst_rune c =
     (48 \<le> c \<and> c \<le> 57 \<or> 97 \<le> c \<and> c \<le> 122 \<or> 65 \<le> c \<and> c \<le> 90 \<or>
      (c = 46 \<or> c = 45 \<or> c = 95 \<or> c = 43) \<and> \<not> fst_rune)"

definition validAgentVersion :: "string \<Rightarrow> bool" where
  "validAgentVersion v =
     (if v = [] \<or> length v > 64 then False
      else (case runes v of
              [] \<Rightarrow> True
            | c # cs \<Rightarrow> version_rune True c \<and> list_all (version_rune False) cs))"

definition AgentSpec_UnmarshalText :: "string \<Rightarrow> error + agent_spec" where
  "AgentSpec_UnmarshalText b =
     (case cut b ''@'' of
        (name, version, pinned) \<Rightarrow>
          rbind (AgentKind_UnmarshalText name) (\<lambda>k.
            if \<not> pinned then Inr \<lparr>as_kind = k, as_version = ''''\<rparr>
            else if k = AgentGrok
            then Inl (Class ErrInvalid
                   ''%w: agent %q: grok's installer cannot pin a version (drop the @)'' [b])
            else if \<not> validAgentVersion version
            then Inl (Class ErrInvalid
                   ''%w: agent %q: version must be 1-64 characters of [0-9A-Za-z._+-], starting alphanumeric'' [b])
            else Inr \<lparr>as_kind = k, as_version = version\<rparr>))"

definition AgentSpec_String :: "agent_spec \<Rightarrow> string" where
  "AgentSpec_String a =
     (if as_version a = '''' then agent_text (as_kind a)
      else agent_text (as_kind a) @ ''@'' @ as_version a)"

definition agent_spec_ok :: "agent_spec \<Rightarrow> bool" where
  "agent_spec_ok a \<longleftrightarrow>
     as_kind a \<noteq> NoAgent \<and>
     (as_version a \<noteq> '''' \<longrightarrow> as_kind a \<noteq> AgentGrok \<and> validAgentVersion (as_version a))"

lemma agent_text_no_at: "CHR ''@'' \<notin> set (agent_text k)"
  by (cases k) simp_all

interpretation agent_spec_text: text_codec AgentSpec_UnmarshalText AgentSpec_String agent_spec_ok
proof
  fix a :: agent_spec
  assume a: "agent_spec_ok a"
  then have k: "AgentKind_UnmarshalText (agent_text (as_kind a)) = Inr (as_kind a)"
    by (simp add: agent_spec_ok_def agent_kind_text.parse_show)
  show "AgentSpec_UnmarshalText (AgentSpec_String a) = Inr a"
  proof (cases "as_version a = ''''")
    case True
    moreover have "cut (agent_text (as_kind a)) ''@'' = (agent_text (as_kind a), [], False)"
      using agent_text_no_at by (simp add: cut_single_False)
    ultimately show ?thesis using k by (cases a) (simp add: AgentSpec_UnmarshalText_def AgentSpec_String_def)
  next
    case False
    have "cut (agent_text (as_kind a) @ CHR ''@'' # as_version a) ''@'' = (agent_text (as_kind a), as_version a, True)"
      by (rule cut_single) (rule agent_text_no_at)
    with False a k show ?thesis
      by (simp add: AgentSpec_UnmarshalText_def AgentSpec_String_def agent_spec_ok_def)
  qed
next
  fix s a
  assume p: "AgentSpec_UnmarshalText s = Inr a"
  obtain name version pinned where c: "cut s ''@'' = (name, version, pinned)" by (metis prod_cases3)
  with p have k: "AgentKind_UnmarshalText name = Inr (as_kind a)"
    by (auto simp: AgentSpec_UnmarshalText_def rbind_eq_Inr split: if_splits)
  then have n: "as_kind a \<noteq> NoAgent" "agent_text (as_kind a) = name"
    using agent_kind_text.parse_sound by blast+
  show "agent_spec_ok a \<and> AgentSpec_String a = s"
  proof (cases pinned)
    case True
    with c have s: "s = name @ CHR ''@'' # version" using cut_single_True [of s "CHR ''@''"] by simp
    from True p c k have v: "as_kind a \<noteq> AgentGrok" "validAgentVersion version" "as_version a = version"
      by (cases a; auto simp: AgentSpec_UnmarshalText_def split: if_splits)+
    then have "version \<noteq> []" by (auto simp: validAgentVersion_def)
    with n v s show ?thesis by (simp add: agent_spec_ok_def AgentSpec_String_def)
  next
    case False
    with c have "s = name" by (simp add: cut_single_False)
    with False p c k n show ?thesis
      by (cases a) (auto simp: AgentSpec_UnmarshalText_def agent_spec_ok_def AgentSpec_String_def)
  qed
qed

text \<open>The characters of an accepted version have no meaning to a shell.\<close>

definition version_char :: "char \<Rightarrow> bool" where
  "version_char c = version_rune False (byte c)"

lemma version_rune_ascii: "version_rune f r \<Longrightarrow> r < 128"
  by (auto simp: version_rune_def)

lemma validAgentVersion_chars:
  assumes "validAgentVersion v"
  shows "list_all version_char v \<and> length v \<le> 64"
proof -
  have "list_all (version_rune False) (runes v)"
    using assms by (auto simp: validAgentVersion_def version_rune_def list_all_iff split: list.splits if_splits)
  then have "list_all (\<lambda>c. version_rune False (byte c)) v"
    using list_all_runes_ascii [of "version_rune False" v] version_rune_ascii by blast
  then have "list_all version_char v" by (simp add: list_all_iff version_char_def)
  with assms show ?thesis by (simp add: validAgentVersion_def split: if_splits)
qed

section \<open>The manifest\<close>

text \<open>\<^verbatim>\<open>Port\<close> is the raw text of a published port.\<close>

record manifest_env =
  en_key :: string
  en_value :: string

record volume_ref =
  vr_name :: string
  vr_target :: string

record import_spec =
  im_source :: string
  im_target :: string
  im_readonly :: bool

record sidecar =
  sc_image :: string
  sc_ports :: "string list"
  sc_env :: "manifest_env list"
  sc_volumes :: "volume_ref list"

record manifest =
  m_schema :: int
  m_base :: string
  m_agents :: "agent_spec list"
  m_toolchains :: "toolchain list"
  m_extension :: bool
  m_ports :: "string list"
  m_imports :: "import_spec list"
  m_env :: "manifest_env list"
  m_egress :: egress_mode
  m_services :: "(string, sidecar) fmap"
  m_agent_cmd :: agent_kind
  m_agent_tmux :: bool
  m_agent_memory :: memory_mode
  m_env_file :: string
  m_bootstrap_required :: "string list"

definition ServiceNames :: "manifest \<Rightarrow> string list" where
  "ServiceNames m = sorted_list_of_fset (fmdom (m_services m))"

lemma ServiceNames_distinct: "distinct (ServiceNames m)"
  by (simp add: ServiceNames_def sorted_list_of_fset_def)

lemma ServiceNames_set: "set (ServiceNames m) = fset (fmdom (m_services m))"
  by (simp add: ServiceNames_def)

section \<open>YAML nodes\<close>

text \<open>
  The exported fields of \<^verbatim>\<open>yaml.Node\<close> (a library type) that the schema reads. \<open>OtherNode\<close>
  stands for any kind value outside the named ones.
\<close>

datatype node_kind = DocumentNode | SequenceNode | MappingNode | ScalarNode | AliasNode | OtherNode

datatype yaml_node =
  Node (n_kind: node_kind) (n_tag: string) (n_value: string) (n_anchor: string)
    (n_line: int) (n_column: int) (n_content: "yaml_node list")

fun decode_env_entries :: "yaml_node list \<Rightarrow> error + manifest_env list" where
  "decode_env_entries (key # val # rest) =
     (if n_kind key \<noteq> ScalarNode \<or> n_kind val \<noteq> ScalarNode
      then Inl (Class ErrInvalid ''%w: env entries must be scalar key/value pairs'' [])
      else if n_tag val \<noteq> ''!!str''
      then Inl (Class ErrInvalid ''%w: env value for %q must be a quoted string'' [n_value key])
      else rbind (decode_env_entries rest) (\<lambda>es. Inr (\<lparr>en_key = n_value key, en_value = n_value val\<rparr> # es)))"
| "decode_env_entries _ = Inr []"

text \<open>\<^verbatim>\<open>OrderedEnv.UnmarshalYAML\<close>; keys are distinct once the node graph is inspected.\<close>

definition OrderedEnv_UnmarshalYAML :: "yaml_node \<Rightarrow> error + manifest_env list" where
  "OrderedEnv_UnmarshalYAML n =
     (if n_kind n \<noteq> MappingNode
      then Inl (Class ErrInvalid ''%w: env must be a mapping of string keys to string values'' [])
      else rbind (decode_env_entries (n_content n)) (\<lambda>es. Inr (sort_key en_key es)))"

lemma OrderedEnv_sorted:
  "OrderedEnv_UnmarshalYAML n = Inr es \<Longrightarrow> sorted (map en_key es)"
  by (auto simp: OrderedEnv_UnmarshalYAML_def rbind_eq_Inr split: if_splits)

end
