(* ===== verification/SchemaLoad.thy ===== *)
theory SchemaLoad
  imports SchemaTypes
begin

text \<open>
  \<^verbatim>\<open>internal/schema/inspect.go\<close>, \<^verbatim>\<open>load.go\<close> and \<^verbatim>\<open>decode.go\<close>: reading a manifest. The structural
  inspection of the node graph is compared with a declarative description of the documents it
  accepts: \<open>tree_ok\<close> for the nodes, \<open>height\<close> and \<open>node_count\<close> for the budget, \<open>positions\<close> for
  the index it builds. The YAML library is a parameter: \<open>nodes\<close> gives the results of the
  successive \<^verbatim>\<open>Decode\<close> calls on a source, \<open>strict\<close> the result of decoding it into the
  manifest type with unknown fields refused.
\<close>

section \<open>Limits\<close>

record load_limits =
  MaxBytes :: int
  MaxDepth :: int
  MaxNodes :: int
  MaxCollection :: int
  MaxScalar :: int

definition MaxBytesCeiling :: int where
  "MaxBytesCeiling = 1048576"

definition DefaultLimits :: load_limits where
  "DefaultLimits =
     \<lparr>MaxBytes = 262144, MaxDepth = 32, MaxNodes = 10000, MaxCollection = 1000, MaxScalar = 65536\<rparr>"

definition load_withDefaults :: "load_limits \<Rightarrow> load_limits" where
  "load_withDefaults l =
     (let d = DefaultLimits;
          b = (if MaxBytes l \<le> 0 then MaxBytes d else MaxBytes l)
      in \<lparr>MaxBytes = (if b > MaxBytesCeiling then MaxBytesCeiling else b),
          MaxDepth = (if MaxDepth l \<le> 0 then MaxDepth d else MaxDepth l),
          MaxNodes = (if MaxNodes l \<le> 0 then MaxNodes d else MaxNodes l),
          MaxCollection = (if MaxCollection l \<le> 0 then MaxCollection d else MaxCollection l),
          MaxScalar = (if MaxScalar l \<le> 0 then MaxScalar d else MaxScalar l)\<rparr>)"

section \<open>Inspection\<close>

type_synonym msg = "string \<times> string list"
type_synonym pos = "int \<times> int"
type_synonym source_index = "string \<rightharpoonup> pos"

definition index_pos :: "source_index \<Rightarrow> string \<Rightarrow> pos" where
  "index_pos idx p = map_get idx (0, 0) p"

definition scalarTags :: "string list" where
  "scalarTags = [''!!str'', ''!!int'', ''!!bool'', ''!!float'', ''!!null'']"

definition text_rune_ok :: "nat \<Rightarrow> bool" where
  "text_rune_ok r = (r = 9 \<or> r = 10 \<or> \<not> (r < 32 \<or> r = 127 \<or> 128 \<le> r \<and> r \<le> 159))"

definition checkText :: "string \<Rightarrow> msg option" where
  "checkText s =
     map_option (\<lambda>r. (''control character U+%04X is not allowed'', [itoa r]))
       (List.find (\<lambda>r. \<not> text_rune_ok r) (runes s))"

record inspector =
  ins_index :: source_index
  ins_nodes :: int

definition errAt :: "yaml_node \<Rightarrow> string \<Rightarrow> msg \<Rightarrow> error + 'a" where
  "errAt n path m =
     Inl (Field \<lparr>fe_path = path, fe_line = n_line n, fe_column = n_column n,
                 fe_message = fst m, fe_args = snd m\<rparr>)"

definition node_pos :: "yaml_node \<Rightarrow> pos" where
  "node_pos n = (n_line n, n_column n)"

definition entry_path :: "string \<Rightarrow> nat \<Rightarrow> string" where
  "entry_path path i = path @ ''['' @ itoa i @ '']''"

definition child_path :: "string \<Rightarrow> string \<Rightarrow> string" where
  "child_path path key = (if path = '''' then key else path @ ''.'' @ key)"

definition index_set :: "inspector \<Rightarrow> string \<Rightarrow> pos \<Rightarrow> inspector" where
  "index_set ins p q = ins\<lparr>ins_index := (ins_index ins)(p \<mapsto> q)\<rparr>"

lemma content_size [termination_simp]: "size_list size (n_content n) < size n"
  by (cases n) simp

text \<open>The guards of \<^verbatim>\<open>walk\<close> before its switch, the scalar case, and the guards on a mapping key.\<close>

definition walk_enter :: "load_limits \<Rightarrow> yaml_node \<Rightarrow> string \<Rightarrow> int \<Rightarrow> inspector \<Rightarrow> error + inspector" where
  "walk_enter lim n path depth ins =
     (if depth > MaxDepth lim
      then errAt n path (''nesting exceeds depth %d'', [itoa_int (MaxDepth lim)])
      else if ins_nodes ins + 1 > MaxNodes lim
      then errAt n path (''manifest exceeds %d nodes'', [itoa_int (MaxNodes lim)])
      else if n_anchor n \<noteq> '''' then errAt n path (''anchors are not allowed'', [])
      else let ins1 = ins\<lparr>ins_nodes := ins_nodes ins + 1\<rparr>
           in Inr (if path \<noteq> '''' then index_set ins1 path (node_pos n) else ins1))"

definition walk_scalar :: "load_limits \<Rightarrow> yaml_node \<Rightarrow> string \<Rightarrow> inspector \<Rightarrow> error + inspector" where
  "walk_scalar lim n path ins =
     (if n_tag n \<notin> set scalarTags then errAt n path (''tag %s is not allowed'', [n_tag n])
      else if int (length (n_value n)) > MaxScalar lim
      then errAt n path (''scalar exceeds %d bytes'', [itoa_int (MaxScalar lim)])
      else (case checkText (n_value n) of Some m \<Rightarrow> errAt n path m | None \<Rightarrow> Inr ins))"

definition walk_key :: "yaml_node \<Rightarrow> string list \<Rightarrow> string \<Rightarrow> inspector \<Rightarrow> error + inspector" where
  "walk_key key seen path ins =
     (if n_kind key \<noteq> ScalarNode \<or> n_tag key \<noteq> ''!!str''
      then errAt key path (''mapping keys must be plain strings'', [])
      else case checkText (n_value key) of
             Some m \<Rightarrow> errAt key path (''mapping key: '' @ fst m, snd m)
           | None \<Rightarrow>
               if n_value key \<in> set seen then errAt key path (''duplicate key %q'', [n_value key])
               else Inr (index_set ins (child_path path (n_value key)) (node_pos key)))"

definition walk_size :: "load_limits \<Rightarrow> yaml_node \<Rightarrow> string \<Rightarrow> inspector \<Rightarrow> error + inspector" where
  "walk_size lim n path ins =
     (if n_kind n = SequenceNode \<and> int (length (n_content n)) > MaxCollection lim
      then errAt n path (''sequence exceeds %d entries'', [itoa_int (MaxCollection lim)])
      else if n_kind n = MappingNode \<and> int (length (n_content n) div 2) > MaxCollection lim
      then errAt n path (''mapping exceeds %d entries'', [itoa_int (MaxCollection lim)])
      else Inr ins)"

function inspector_walk :: "load_limits \<Rightarrow> yaml_node \<Rightarrow> string \<Rightarrow> int \<Rightarrow> inspector \<Rightarrow> error + inspector"
and walk_entries :: "load_limits \<Rightarrow> yaml_node list \<Rightarrow> nat \<Rightarrow> string \<Rightarrow> int \<Rightarrow> inspector \<Rightarrow> error + inspector"
and walk_pairs :: "load_limits \<Rightarrow> yaml_node list \<Rightarrow> string list \<Rightarrow> string \<Rightarrow> int \<Rightarrow> inspector \<Rightarrow> error + inspector"
where
  "inspector_walk lim n path depth ins =
     rbind (walk_enter lim n path depth ins) (\<lambda>ins2.
       case n_kind n of
         AliasNode \<Rightarrow> errAt n path (''aliases are not allowed'', [])
       | ScalarNode \<Rightarrow> walk_scalar lim n path ins2
       | SequenceNode \<Rightarrow>
           rbind (walk_size lim n path ins2) (walk_entries lim (n_content n) 0 path depth)
       | MappingNode \<Rightarrow>
           rbind (walk_size lim n path ins2) (walk_pairs lim (n_content n) [] path depth)
       | _ \<Rightarrow> errAt n path (''unsupported YAML node'', []))"
| "walk_entries lim [] i path depth ins = Inr ins"
| "walk_entries lim (c # cs) i path depth ins =
     rbind (inspector_walk lim c (entry_path path i) (depth + 1) ins)
       (walk_entries lim cs (i + 1) path depth)"
| "walk_pairs lim (key # val # rest) seen path depth ins =
     rbind (walk_key key seen path ins) (\<lambda>ins2.
       rbind (inspector_walk lim val (child_path path (n_value key)) (depth + 1) ins2)
         (walk_pairs lim rest (n_value key # seen) path depth))"
| "walk_pairs lim [key] seen path depth ins = Inr ins"
| "walk_pairs lim [] seen path depth ins = Inr ins"

  by pat_completeness auto
termination
  by (relation "measure (\<lambda>a. case a of Inl (_, n, _) \<Rightarrow> size n
        | Inr (Inl (_, ns, _)) \<Rightarrow> size_list size ns | Inr (Inr (_, ns, _)) \<Rightarrow> size_list size ns)")
     (auto simp: content_size)

declare inspector_walk.simps [simp del]

definition inspect :: "yaml_node \<Rightarrow> load_limits \<Rightarrow> error + source_index" where
  "inspect root lim =
     (case n_content root of
        [n] \<Rightarrow>
          if n_kind root \<noteq> DocumentNode
          then Inl (Class ErrInvalid ''%w: manifest must be a single mapping document'' [])
          else rbind (inspector_walk lim n '''' 1 \<lparr>ins_index = Map.empty, ins_nodes = 0\<rparr>) (\<lambda>ins. Inr (ins_index ins))
      | _ \<Rightarrow> Inl (Class ErrInvalid ''%w: manifest must be a single mapping document'' []))"

section \<open>What the inspection accepts\<close>

text \<open>The nodes one level down that the walk visits, with the paths it gives them.\<close>

fun pair_keys :: "yaml_node list \<Rightarrow> yaml_node list" where
  "pair_keys (key # val # rest) = key # pair_keys rest"
| "pair_keys _ = []"

fun pair_values :: "yaml_node list \<Rightarrow> yaml_node list" where
  "pair_values (key # val # rest) = val # pair_values rest"
| "pair_values _ = []"

definition children :: "yaml_node \<Rightarrow> yaml_node list" where
  "children n =
     (case n_kind n of
        SequenceNode \<Rightarrow> n_content n | MappingNode \<Rightarrow> pair_values (n_content n) | _ \<Rightarrow> [])"

lemma pair_values_subset: "set (pair_values ns) \<subseteq> set ns"
  by (induction ns rule: pair_values.induct) auto

lemma size_member: "x \<in> set (n_content n) \<Longrightarrow> size x < size n"
  using size_list_estimation' [of x "n_content n" "size x" size] content_size [of n] by simp

lemma children_size [termination_simp]: "x \<in> set (children n) \<Longrightarrow> size x < size n"
  using pair_values_subset [of "n_content n"]
  by (auto simp: children_def split: node_kind.splits intro: size_member)

definition text_ok :: "string \<Rightarrow> bool" where
  "text_ok s = list_all text_rune_ok (runes s)"

definition key_ok :: "yaml_node \<Rightarrow> bool" where
  "key_ok k \<longleftrightarrow> n_kind k = ScalarNode \<and> n_tag k = ''!!str'' \<and> text_ok (n_value k)"

definition node_ok :: "load_limits \<Rightarrow> yaml_node \<Rightarrow> bool" where
  "node_ok lim n \<longleftrightarrow>
     n_anchor n = '''' \<and>
     (case n_kind n of
        ScalarNode \<Rightarrow>
          n_tag n \<in> set scalarTags \<and> int (length (n_value n)) \<le> MaxScalar lim \<and> text_ok (n_value n)
      | SequenceNode \<Rightarrow> int (length (n_content n)) \<le> MaxCollection lim
      | MappingNode \<Rightarrow>
          int (length (n_content n) div 2) \<le> MaxCollection lim \<and>
          list_all key_ok (pair_keys (n_content n)) \<and>
          distinct (map n_value (pair_keys (n_content n)))
      | _ \<Rightarrow> False)"

fun tree_ok :: "load_limits \<Rightarrow> yaml_node \<Rightarrow> bool" where
  "tree_ok lim n = (node_ok lim n \<and> list_all (tree_ok lim) (children n))"

fun height :: "yaml_node \<Rightarrow> nat" where
  "height n = Suc (fold max (map height (children n)) 0)"

fun node_count :: "yaml_node \<Rightarrow> nat" where
  "node_count n = Suc (sum_list (map node_count (children n)))"

declare tree_ok.simps [simp del] height.simps [simp del] node_count.simps [simp del]

lemma checkText_None: "checkText s = None \<longleftrightarrow> text_ok s"
  by (auto simp: checkText_def text_ok_def list_all_iff find_None_iff)

lemma errAt_not_Inr [simp]: "errAt n p m \<noteq> Inr x" "Inr x \<noteq> errAt n p m"
  by (simp_all add: errAt_def)

lemma walk_scalar_Inr:
  "walk_scalar lim n path ins = Inr ins' \<longleftrightarrow>
     ins' = ins \<and> n_tag n \<in> set scalarTags \<and> int (length (n_value n)) \<le> MaxScalar lim \<and> text_ok (n_value n)"
  by (auto simp: walk_scalar_def checkText_None [symmetric] split: option.splits)

lemma walk_key_Inr:
  "walk_key key seen path ins = Inr ins' \<longleftrightarrow>
     ins' = index_set ins (child_path path (n_value key)) (node_pos key) \<and>
     key_ok key \<and> n_value key \<notin> set seen"
  by (auto simp: walk_key_def key_ok_def checkText_None [symmetric] split: option.splits)

lemma walk_size_Inr:
  "walk_size lim n path ins = Inr ins' \<longleftrightarrow>
     ins' = ins \<and> (n_kind n = SequenceNode \<longrightarrow> int (length (n_content n)) \<le> MaxCollection lim) \<and>
     (n_kind n = MappingNode \<longrightarrow> int (length (n_content n) div 2) \<le> MaxCollection lim)"
  by (auto simp: walk_size_def)

definition entered :: "yaml_node \<Rightarrow> string \<Rightarrow> inspector \<Rightarrow> inspector" where
  "entered n path ins =
     (let ins1 = ins\<lparr>ins_nodes := ins_nodes ins + 1\<rparr>
      in if path \<noteq> '''' then index_set ins1 path (node_pos n) else ins1)"

lemma walk_enter_Inr:
  "walk_enter lim n path depth ins = Inr ins' \<longleftrightarrow>
     ins' = entered n path ins \<and> depth \<le> MaxDepth lim \<and> ins_nodes ins + 1 \<le> MaxNodes lim \<and> n_anchor n = ''''"
  by (auto simp: walk_enter_def entered_def Let_def)

lemma index_set_simps [simp]:
  "ins_nodes (index_set ins p q) = ins_nodes ins"
  "ins_index (index_set ins p q) = (ins_index ins)(p \<mapsto> q)"
  by (simp_all add: index_set_def)

lemma entered_nodes [simp]: "ins_nodes (entered n p ins) = ins_nodes ins + 1"
  by (simp add: entered_def Let_def)

lemma fold_max_le: "int (fold max xs (m::nat)) \<le> k \<longleftrightarrow> int m \<le> k \<and> (\<forall>x \<in> set xs. int x \<le> k)"
  by (induction xs arbitrary: m) auto

lemma height_le: "int (height n) \<le> k + 1 \<longleftrightarrow> 0 \<le> k \<and> (\<forall>c \<in> set (children n). int (height c) \<le> k)"
  by (subst height.simps) (auto simp: fold_max_le algebra_simps)

text \<open>
  The walk succeeds exactly on well-formed trees within the depth and node budgets, and then
  it has counted every node.
\<close>

definition tree_fits :: "load_limits \<Rightarrow> int \<Rightarrow> int \<Rightarrow> yaml_node list \<Rightarrow> bool" where
  "tree_fits lim depth budget ns \<longleftrightarrow>
     (\<forall>n \<in> set ns. tree_ok lim n \<and> depth + int (height n) \<le> MaxDepth lim + 1) \<and>
     int (sum_list (map node_count ns)) \<le> budget"

lemma tree_fits_Nil [simp]: "tree_fits lim d b [] \<longleftrightarrow> 0 \<le> b"
  by (simp add: tree_fits_def)

lemma tree_fits_Cons:
  "tree_fits lim d b (n # ns) \<longleftrightarrow> tree_fits lim d b [n] \<and> tree_fits lim d (b - int (node_count n)) ns"
  by (auto simp: tree_fits_def)

lemma tree_fits_node:
  "tree_fits lim d b [n] \<longleftrightarrow>
     node_ok lim n \<and> d \<le> MaxDepth lim \<and> tree_fits lim (d + 1) (b - 1) (children n)"
  using height_le [of n "MaxDepth lim - d"]
  by (auto simp: tree_fits_def tree_ok.simps [of lim n] node_count.simps [of n] list_all_iff algebra_simps)

lemma tree_fits_budget: "tree_fits lim d b ns \<Longrightarrow> 0 \<le> b"
  by (simp add: tree_fits_def)

text \<open>
  The index the walk builds: the position of a mapping key, and then that of every visited
  node, under its path; a later entry for the same path replaces an earlier one.
\<close>

fun seq_branches :: "string \<Rightarrow> nat \<Rightarrow> yaml_node list \<Rightarrow> (string \<times> (string \<times> pos) list \<times> yaml_node) list" where
  "seq_branches path i [] = []"
| "seq_branches path i (c # cs) = (entry_path path i, [], c) # seq_branches path (i + 1) cs"

fun map_branches :: "string \<Rightarrow> yaml_node list \<Rightarrow> (string \<times> (string \<times> pos) list \<times> yaml_node) list" where
  "map_branches path (key # val # rest) =
     (let child = child_path path (n_value key)
      in (child, [(child, node_pos key)], val) # map_branches path rest)"
| "map_branches path _ = []"

definition branches :: "string \<Rightarrow> yaml_node \<Rightarrow> (string \<times> (string \<times> pos) list \<times> yaml_node) list" where
  "branches path n =
     (case n_kind n of
        SequenceNode \<Rightarrow> seq_branches path 0 (n_content n)
      | MappingNode \<Rightarrow> map_branches path (n_content n)
      | _ \<Rightarrow> [])"

lemma seq_branches_nodes: "map (snd \<circ> snd) (seq_branches path i cs) = cs"
  by (induction cs arbitrary: i) simp_all

lemma map_branches_nodes: "map (snd \<circ> snd) (map_branches path cs) = pair_values cs"
  by (induction path cs rule: map_branches.induct) (simp_all add: Let_def)

lemma branches_nodes: "map (snd \<circ> snd) (branches path n) = children n"
  by (simp add: branches_def children_def seq_branches_nodes map_branches_nodes split: node_kind.splits)

lemma branches_size [termination_simp]: "(p, q, c) \<in> set (branches path n) \<Longrightarrow> size c < size n"
proof -
  assume "(p, q, c) \<in> set (branches path n)"
  then have "c \<in> set (map (snd \<circ> snd) (branches path n))" by force
  then show "size c < size n" unfolding branches_nodes by (rule children_size)
qed

fun positions :: "string \<Rightarrow> yaml_node \<Rightarrow> (string \<times> pos) list" where
  "positions path n =
     (if path \<noteq> '''' then [(path, node_pos n)] else []) @
     concat (map (\<lambda>(p, q, c). q @ positions p c) (branches path n))"

declare positions.simps [simp del]

definition visit :: "(string \<times> pos) list \<Rightarrow> nat \<Rightarrow> inspector \<Rightarrow> inspector" where
  "visit ps k ins =
     \<lparr>ins_index = foldl (\<lambda>m (p, q). m(p \<mapsto> q)) (ins_index ins) ps, ins_nodes = ins_nodes ins + int k\<rparr>"

definition branch_positions :: "(string \<times> (string \<times> pos) list \<times> yaml_node) list \<Rightarrow> (string \<times> pos) list" where
  "branch_positions bs = concat (map (\<lambda>(p, q, c). q @ positions p c) bs)"

lemma branch_positions_simps [simp]:
  "branch_positions [] = []"
  "branch_positions ((p, q, c) # bs) = q @ positions p c @ branch_positions bs"
  by (simp_all add: branch_positions_def)

lemma visit_nodes [simp]: "ins_nodes (visit ps k ins) = ins_nodes ins + int k"
  by (simp add: visit_def)

lemma visit_visit: "visit ps k (visit qs l ins) = visit (qs @ ps) (l + k) ins"
  by (simp add: visit_def)

lemma visit_Nil [simp]: "visit [] 0 ins = ins"
  by (simp add: visit_def)

lemma index_set_visit: "index_set ins p q = visit [(p, q)] 0 ins"
  by (cases ins) (simp add: index_set_def visit_def)

lemma entered_visit: "entered n p ins = visit (if p \<noteq> '''' then [(p, node_pos n)] else []) 1 ins"
  by (cases ins) (simp add: entered_def visit_def index_set_def Let_def)

lemma inspector_walk_iff:
  "inspector_walk lim n path d ins = Inr ins' \<longleftrightarrow>
     tree_fits lim d (MaxNodes lim - ins_nodes ins) [n] \<and>
     ins' = visit (positions path n) (node_count n) ins"
  "ins_nodes ins \<le> MaxNodes lim \<Longrightarrow>
   walk_entries lim cs i path d ins = Inr ins' \<longleftrightarrow>
     tree_fits lim (d + 1) (MaxNodes lim - ins_nodes ins) cs \<and>
     ins' = visit (branch_positions (seq_branches path i cs)) (sum_list (map node_count cs)) ins"
  "ins_nodes ins \<le> MaxNodes lim \<Longrightarrow>
   walk_pairs lim ps seen path d ins = Inr ins' \<longleftrightarrow>
     list_all key_ok (pair_keys ps) \<and> distinct (map n_value (pair_keys ps)) \<and>
     set seen \<inter> n_value ` set (pair_keys ps) = {} \<and>
     tree_fits lim (d + 1) (MaxNodes lim - ins_nodes ins) (pair_values ps) \<and>
     ins' = visit (branch_positions (map_branches path ps)) (sum_list (map node_count (pair_values ps))) ins"
proof (induction lim n path d ins and lim cs i path d ins and lim ps seen path d ins
    arbitrary: ins' and ins' and ins'
    rule: inspector_walk_walk_entries_walk_pairs.induct)
  case (1 lim n path depth ins)
  show ?case
  proof (cases "walk_enter lim n path depth ins")
    case (Inl e)
    then have "\<not> tree_fits lim depth (MaxNodes lim - ins_nodes ins) [n]"
      using walk_enter_Inr [of lim n path depth ins "entered n path ins"]
      by (auto simp: tree_fits_node node_ok_def dest: tree_fits_budget)
    with Inl show ?thesis by (simp add: inspector_walk.simps)
  next
    case (Inr a)
    then have e: "a = entered n path ins" "depth \<le> MaxDepth lim" "ins_nodes ins + 1 \<le> MaxNodes lim" "n_anchor n = ''''"
      by (simp_all add: walk_enter_Inr)
    have na: "ins_nodes a = ins_nodes ins + 1" by (simp add: e)
    have v: "visit (branch_positions (branches path n)) (sum_list (map node_count (children n))) a =
        visit (positions path n) (node_count n) ins"
      unfolding e entered_visit visit_visit
      by (simp add: positions.simps [of path n] branch_positions_def node_count.simps [of n])
    have fits: "tree_fits lim depth (MaxNodes lim - ins_nodes ins) [n] \<longleftrightarrow>
        node_ok lim n \<and> tree_fits lim (depth + 1) (MaxNodes lim - ins_nodes a) (children n)"
      using e(2) by (simp add: tree_fits_node na algebra_simps)
    show ?thesis
    proof (cases "n_kind n")
      case SequenceNode
      have IH: "walk_entries lim (n_content n) 0 path depth a = Inr ins' \<longleftrightarrow>
          tree_fits lim (depth + 1) (MaxNodes lim - ins_nodes a) (children n) \<and>
          ins' = visit (positions path n) (node_count n) ins"
        using "1.IH"(1) [OF SequenceNode, of a ins'] e(3) na v SequenceNode
        by (simp add: children_def branches_def)
      show ?thesis
        by (auto simp: inspector_walk.simps [of lim n] Inr rbind_eq_Inr walk_size_Inr SequenceNode IH
            fits node_ok_def e(4))
    next
      case MappingNode
      have IH: "walk_pairs lim (n_content n) [] path depth a = Inr ins' \<longleftrightarrow>
          list_all key_ok (pair_keys (n_content n)) \<and> distinct (map n_value (pair_keys (n_content n))) \<and>
          tree_fits lim (depth + 1) (MaxNodes lim - ins_nodes a) (children n) \<and>
          ins' = visit (positions path n) (node_count n) ins"
        using "1.IH"(2) [OF MappingNode, of a ins'] e(3) na v MappingNode
        by (simp add: children_def branches_def)
      show ?thesis
        by (auto simp: inspector_walk.simps [of lim n] Inr rbind_eq_Inr walk_size_Inr MappingNode IH
            fits node_ok_def e(4))
    next
      case ScalarNode
      have "a = visit (positions path n) (node_count n) ins" "children n = []"
        using v ScalarNode by (simp_all add: children_def branches_def)
      moreover from this(2) have "node_count n = 1" by (simp add: node_count.simps [of n])
      ultimately show ?thesis using e(3)
        by (auto simp: inspector_walk.simps [of lim n] Inr walk_scalar_Inr ScalarNode fits node_ok_def e(4) na)
    qed (simp_all add: inspector_walk.simps [of lim n] Inr fits node_ok_def)
  qed
next
  case (3 lim c cs i path depth ins)
  have IH2: "walk_entries lim cs (i + 1) path depth (visit (positions (entry_path path i) c) (node_count c) ins) = Inr ins' \<longleftrightarrow>
      tree_fits lim (depth + 1) (MaxNodes lim - ins_nodes ins - int (node_count c)) cs \<and>
      ins' = visit (branch_positions (seq_branches path (i + 1) cs)) (sum_list (map node_count cs))
        (visit (positions (entry_path path i) c) (node_count c) ins)"
    if "tree_fits lim (depth + 1) (MaxNodes lim - ins_nodes ins) [c]" for ins'
    using "3.IH"(2) [of "visit (positions (entry_path path i) c) (node_count c) ins" ins'] that
    by (simp add: tree_fits_def algebra_simps)
  show ?case
    using IH2 "3.IH"(1)
    by (auto simp: rbind_eq_Inr visit_visit tree_fits_Cons [of _ _ _ c cs])
next
  case (4 lim key val rest seen path depth ins)
  let ?p = "child_path path (n_value key)"
  let ?a = "index_set ins ?p (node_pos key)"
  let ?b = "visit (positions ?p val) (node_count val) ?a"
  have IH1: "inspector_walk lim val ?p (depth + 1) ?a = Inr ins' \<longleftrightarrow>
      tree_fits lim (depth + 1) (MaxNodes lim - ins_nodes ins) [val] \<and> ins' = ?b" for ins'
    using "4.IH"(1) [of ?a ins'] by simp
  have IH2: "walk_pairs lim rest (n_value key # seen) path depth ?b = Inr ins' \<longleftrightarrow>
     list_all key_ok (pair_keys rest) \<and> distinct (map n_value (pair_keys rest)) \<and>
     set (n_value key # seen) \<inter> n_value ` set (pair_keys rest) = {} \<and>
     tree_fits lim (depth + 1) (MaxNodes lim - ins_nodes ins - int (node_count val)) (pair_values rest) \<and>
     ins' = visit (branch_positions (map_branches path rest)) (sum_list (map node_count (pair_values rest))) ?b"
    if "tree_fits lim (depth + 1) (MaxNodes lim - ins_nodes ins) [val]" for ins'
    using "4.IH"(2) [of ?b ins'] that
    by (simp add: tree_fits_def algebra_simps)
  have v: "visit (branch_positions (map_branches path rest)) (sum_list (map node_count (pair_values rest))) ?b =
      visit (branch_positions (map_branches path (key # val # rest))) (sum_list (map node_count (pair_values (key # val # rest)))) ins"
    by (simp add: index_set_visit visit_visit Let_def)
  show ?case
    using IH2 v by (auto simp: rbind_eq_Inr walk_key_Inr IH1 tree_fits_Cons [of _ _ _ val "pair_values rest"])
qed auto

definition index_of_tree :: "yaml_node \<Rightarrow> source_index" where
  "index_of_tree n = foldl (\<lambda>m (p, q). m(p \<mapsto> q)) Map.empty (positions '''' n)"

lemma inspect_iff:
  "inspect root lim = Inr idx \<longleftrightarrow>
     (\<exists>n. n_kind root = DocumentNode \<and> n_content root = [n] \<and>
        tree_fits lim 1 (MaxNodes lim) [n] \<and> idx = index_of_tree n)"
  by (auto simp: inspect_def rbind_eq_Inr inspector_walk_iff(1) visit_def index_of_tree_def
      split: list.splits)

text \<open>Every diagnostic of the inspection is an \<^verbatim>\<open>ErrInvalid\<close>.\<close>

lemma errAt_invalid: "errAt n p m = Inl e \<Longrightarrow> errors_is e ErrInvalid"
  by (auto simp: errAt_def)

lemma rbind_Inl_cases: "rbind r f = Inl e \<Longrightarrow> r = Inl e \<or> (\<exists>a. r = Inr a \<and> f a = Inl e)"
  by (cases r) auto

lemma walk_enter_invalid: "walk_enter lim n p d ins = Inl e \<Longrightarrow> errors_is e ErrInvalid"
  by (auto simp: walk_enter_def Let_def dest: errAt_invalid split: if_splits)

lemma walk_scalar_invalid: "walk_scalar lim n p ins = Inl e \<Longrightarrow> errors_is e ErrInvalid"
  by (auto simp: walk_scalar_def dest: errAt_invalid split: if_splits option.splits)

lemma walk_key_invalid: "walk_key k seen p ins = Inl e \<Longrightarrow> errors_is e ErrInvalid"
  by (auto simp: walk_key_def dest: errAt_invalid split: if_splits option.splits)

lemma walk_size_invalid: "walk_size lim n p ins = Inl e \<Longrightarrow> errors_is e ErrInvalid"
  by (auto simp: walk_size_def dest: errAt_invalid split: if_splits)

lemmas walk_invalid = walk_enter_invalid walk_scalar_invalid walk_key_invalid walk_size_invalid errAt_invalid

lemma inspector_walk_invalid:
  "inspector_walk lim n path d ins = Inl e \<Longrightarrow> errors_is e ErrInvalid"
  "walk_entries lim cs i path d ins = Inl e \<Longrightarrow> errors_is e ErrInvalid"
  "walk_pairs lim ps seen path d ins = Inl e \<Longrightarrow> errors_is e ErrInvalid"
proof (induction lim n path d ins and lim cs i path d ins and lim ps seen path d ins
    rule: inspector_walk_walk_entries_walk_pairs.induct)
  case (1 lim n path depth ins)
  from 1(3) show ?case
    by (cases "n_kind n")
       (auto simp: inspector_walk.simps [of lim n] dest!: rbind_Inl_cases dest: walk_invalid 1(1,2))
next
  case (3 lim c cs i path depth ins)
  from 3(3) show ?case by (auto dest!: rbind_Inl_cases dest: 3(1) 3(2) [simplified])
next
  case (4 lim key val rest seen path depth ins)
  from 4(3) show ?case by (auto dest!: rbind_Inl_cases dest: walk_invalid 4(1,2))
qed simp_all

lemma inspect_invalid: "inspect root lim = Inl e \<Longrightarrow> errors_is e ErrInvalid"
  by (auto simp: inspect_def dest!: rbind_Inl_cases dest: inspector_walk_invalid split: list.splits if_splits)

section \<open>Decoding and loading\<close>

text \<open>
  What a \<^verbatim>\<open>yaml.Decoder\<close> can fail with: the end of the stream, a \<^verbatim>\<open>yaml.TypeError\<close> with its
  messages, or another error with its rendered text.
\<close>

datatype yaml_error = YamlEOF | YamlTypeError "string list" | YamlFailure error string

fun yaml_error_text :: "yaml_error \<Rightarrow> string" where
  "yaml_error_text YamlEOF = ''EOF''"
| "yaml_error_text (YamlTypeError ms) =
     ''yaml: unmarshal errors:'' @ CHR 0x0A # ''  '' @ join (CHR 0x0A # ''  '') ms"
| "yaml_error_text (YamlFailure e s) = s"

definition yamlErrMessage :: "yaml_error \<Rightarrow> string" where
  "yamlErrMessage err = trim_prefix (yaml_error_text err) ''yaml: ''"

definition cleanFieldNotFound :: "string \<Rightarrow> string" where
  "cleanFieldNotFound m =
     (let m' = trim_prefix m ''yaml: '' in
      case cut m' '' not found in type '' of
        (before, _, found) \<Rightarrow> if found then before @ '' is not a known manifest key'' else m')"

definition decodeError :: "yaml_error \<Rightarrow> error" where
  "decodeError err =
     (case err of
        YamlTypeError ms \<Rightarrow> Class ErrInvalid ''%w: %s'' [join ''; '' (map cleanFieldNotFound ms)]
      | YamlFailure e s \<Rightarrow>
          if errors_is e ErrInvalid then e else Class ErrInvalid ''%w: %s'' [yamlErrMessage err]
      | YamlEOF \<Rightarrow> Class ErrInvalid ''%w: %s'' [yamlErrMessage err])"

definition decode_manifest :: "(string \<Rightarrow> yaml_error + manifest) \<Rightarrow> string \<Rightarrow> error + manifest" where
  "decode_manifest strict source =
     (case strict source of Inl err \<Rightarrow> Inl (decodeError err) | Inr m \<Rightarrow> Inr m)"

record document =
  d_manifest :: manifest
  d_index :: source_index

text \<open>
  \<^verbatim>\<open>Load\<close>. The reader is the bytes it delivers and the error that ends them, if any;
  \<^verbatim>\<open>io.ReadAll(io.LimitReader(r, n))\<close> stops after \<open>n\<close> bytes without asking for more.
\<close>

definition read_limited :: "string \<times> error option \<Rightarrow> nat \<Rightarrow> error + string" where
  "read_limited r n =
     (if length (fst r) \<ge> n then Inr (take n (fst r))
      else case snd r of None \<Rightarrow> Inr (fst r) | Some e \<Rightarrow> Inl e)"

definition Load ::
    "(string \<Rightarrow> nat \<Rightarrow> yaml_error + yaml_node) \<Rightarrow> (string \<Rightarrow> yaml_error + manifest) \<Rightarrow>
     string \<times> error option \<Rightarrow> load_limits \<Rightarrow> error + document" where
  "Load nodes strict r lim0 =
     (let lim = load_withDefaults lim0 in
      case read_limited r (nat (MaxBytes lim + 1)) of
        Inl e \<Rightarrow> Inl (Wrapped ''read manifest: %w'' [] e)
      | Inr source \<Rightarrow>
          if int (length source) > MaxBytes lim
          then Inl (Class ErrInvalid ''%w: manifest exceeds %d bytes'' [itoa_int (MaxBytes lim)])
          else if \<not> utf8_valid source
          then Inl (Class ErrInvalid ''%w: manifest is not valid UTF-8'' [])
          else if CHR 0x00 \<in> set source
          then Inl (Class ErrInvalid ''%w: manifest contains a NUL byte'' [])
          else (case nodes source 0 of
                  Inl YamlEOF \<Rightarrow> Inl (Class ErrInvalid ''%w: manifest is empty'' [])
                | Inl err \<Rightarrow> Inl (Class ErrInvalid ''%w: %s'' [yamlErrMessage err])
                | Inr root \<Rightarrow>
                    if nodes source 1 \<noteq> Inl YamlEOF
                    then Inl (Class ErrInvalid ''%w: manifest must contain exactly one YAML document'' [])
                    else rbind (inspect root lim) (\<lambda>index.
                           rbind (decode_manifest strict source) (\<lambda>m.
                             Inr \<lparr>d_manifest = m, d_index = index\<rparr>))))"

lemma load_withDefaults_bounds:
  "0 < MaxBytes (load_withDefaults l)" "MaxBytes (load_withDefaults l) \<le> MaxBytesCeiling"
  "0 < MaxDepth (load_withDefaults l)" "0 < MaxNodes (load_withDefaults l)"
  "0 < MaxCollection (load_withDefaults l)" "0 < MaxScalar (load_withDefaults l)"
  by (simp_all add: load_withDefaults_def DefaultLimits_def MaxBytesCeiling_def Let_def)

lemma decodeError_invalid: "errors_is (decodeError err) ErrInvalid"
  by (cases err) (simp_all add: decodeError_def)

section \<open>Properties\<close>

text \<open>
  C35. The inspection accepts exactly the single documents whose tree is well formed (no anchors,
  aliases or foreign tags, no control characters, distinct plain string keys, bounded scalars
  and collections) and fits the depth and node budgets, and the index it returns is the one
  read off the tree.
\<close>

theorem inspect_exact:
  "inspect root lim = Inr idx \<longleftrightarrow>
     (\<exists>n. n_kind root = DocumentNode \<and> n_content root = [n] \<and> tree_ok lim n \<and>
        int (height n) \<le> MaxDepth lim \<and> int (node_count n) \<le> MaxNodes lim \<and> idx = index_of_tree n)"
  by (auto simp: inspect_iff tree_fits_def)

text \<open>
  C36. A loaded manifest came from at most a mebibyte of valid UTF-8 without NUL that holds one
  document, whose tree passed the inspection under the effective limits; the manifest is what
  the strict decoder makes of exactly these bytes.
\<close>

theorem Load_sound:
  assumes "Load nodes strict r lim = Inr doc"
  shows "\<exists>source root n. length source \<le> 1048576 \<and> source = take (length source) (fst r) \<and>
    utf8_valid source \<and> CHR 0x00 \<notin> set source \<and>
    nodes source 0 = Inr root \<and> nodes source 1 = Inl YamlEOF \<and> n_content root = [n] \<and>
    tree_ok (load_withDefaults lim) n \<and> int (height n) \<le> MaxDepth (load_withDefaults lim) \<and>
    int (node_count n) \<le> MaxNodes (load_withDefaults lim) \<and>
    d_index doc = index_of_tree n \<and> strict source = Inr (d_manifest doc)"
proof -
  let ?lim = "load_withDefaults lim"
  obtain source root index m where s: "read_limited r (nat (MaxBytes ?lim + 1)) = Inr source"
      "int (length source) \<le> MaxBytes ?lim" "utf8_valid source" "CHR 0x00 \<notin> set source"
      "nodes source 0 = Inr root" "nodes source 1 = Inl YamlEOF" "inspect root ?lim = Inr index"
      "decode_manifest strict source = Inr m" "doc = \<lparr>d_manifest = m, d_index = index\<rparr>"
    using assms by (auto simp: Load_def Let_def rbind_eq_Inr split: sum.splits yaml_error.splits if_splits)
  have "source = take (length source) (fst r)"
    using s(1) by (auto simp: read_limited_def split: if_splits option.splits)
  moreover have "length source \<le> 1048576"
    using s(2) load_withDefaults_bounds(2) [of lim] by (simp add: MaxBytesCeiling_def)
  moreover have "strict source = Inr m" using s(8) by (simp add: decode_manifest_def split: sum.splits)
  moreover obtain n where "n_content root = [n]" "tree_ok ?lim n" "int (height n) \<le> MaxDepth ?lim"
      "int (node_count n) \<le> MaxNodes ?lim" "index = index_of_tree n"
    using s(7) by (auto simp: inspect_iff tree_fits_def)
  ultimately show ?thesis using s by auto
qed

text \<open>Whatever is wrong with a manifest that could be read, \<^verbatim>\<open>Load\<close> reports it as \<^verbatim>\<open>ErrInvalid\<close>.\<close>

theorem Load_reports_invalid:
  assumes "Load nodes strict (source, None) lim = Inl e"
  shows "errors_is e ErrInvalid"
  using assms
  by (auto simp: Load_def read_limited_def decode_manifest_def decodeError_invalid Let_def
      dest!: rbind_Inl_cases dest: inspect_invalid split: sum.splits yaml_error.splits if_splits)

section \<open>Witnesses\<close>

definition demo_node :: "node_kind \<Rightarrow> string \<Rightarrow> string \<Rightarrow> yaml_node list \<Rightarrow> yaml_node" where
  "demo_node k t v = Node k t v '''' 1 1"

definition demo_tree :: yaml_node where
  "demo_tree = demo_node MappingNode ''!!map'' ''''
     [demo_node ScalarNode ''!!str'' ''schema'' [], demo_node ScalarNode ''!!int'' ''1'' []]"

definition demo_manifest :: manifest where
  "demo_manifest = \<lparr>m_schema = 1, m_base = ''a'', m_agents = [\<lparr>as_kind = AgentClaude, as_version = ''''\<rparr>],
     m_toolchains = [], m_extension = False, m_ports = [''127.0.0.1:80:80''],
     m_imports = [\<lparr>im_source = ''data/in'', im_target = ''/data'', im_readonly = True\<rparr>],
     m_env = [], m_egress = NoEgressMode, m_services = fmempty, m_agent_cmd = AgentClaude,
     m_agent_tmux = False, m_agent_memory = NoMemoryMode, m_env_file = '''', m_bootstrap_required = []\<rparr>"

definition demo_nodes :: "string \<Rightarrow> nat \<Rightarrow> yaml_error + yaml_node" where
  "demo_nodes s i = (if i = 0 then Inr (demo_node DocumentNode '''' '''' [demo_tree]) else Inl YamlEOF)"

definition demo_limits :: load_limits where
  "demo_limits = \<lparr>MaxBytes = 0, MaxDepth = 0, MaxNodes = 0, MaxCollection = 0, MaxScalar = 0\<rparr>"

lemma demo_inspect:
  "inspect (demo_node DocumentNode '''' '''' [demo_tree]) (load_withDefaults demo_limits) = Inr (index_of_tree demo_tree)"
  by (simp add: inspect_exact)
     (simp add: demo_node_def demo_tree_def tree_ok.simps height.simps node_count.simps node_ok_def
        children_def demo_limits_def load_withDefaults_def DefaultLimits_def Let_def MaxBytesCeiling_def
        scalarTags_def text_ok_def key_ok_def text_rune_ok_def)

lemma demo_load:
  "Load demo_nodes (\<lambda>_. Inr demo_manifest) (''schema: 1'', None) demo_limits =
     Inr \<lparr>d_manifest = demo_manifest, d_index = index_of_tree demo_tree\<rparr>"
proof -
  have "read_limited (''schema: 1'', None) (nat (MaxBytes (load_withDefaults demo_limits) + 1)) = Inr ''schema: 1''"
    "int (length ''schema: 1'') \<le> MaxBytes (load_withDefaults demo_limits)"
    by (simp_all add: read_limited_def load_withDefaults_def demo_limits_def DefaultLimits_def Let_def MaxBytesCeiling_def)
  moreover have "utf8_valid ''schema: 1''" by (simp add: utf8_valid_def)
  ultimately show ?thesis
    by (simp add: Load_def Let_def demo_nodes_def demo_inspect decode_manifest_def)
qed

theorem Load_sound_witness:
  "\<exists>source root n. length source \<le> 1048576 \<and> source = take (length source) ''schema: 1'' \<and>
    utf8_valid source \<and> CHR 0x00 \<notin> set source \<and>
    demo_nodes source 0 = Inr root \<and> demo_nodes source 1 = Inl YamlEOF \<and> n_content root = [n] \<and>
    tree_ok (load_withDefaults demo_limits) n \<and> int (height n) \<le> MaxDepth (load_withDefaults demo_limits) \<and>
    int (node_count n) \<le> MaxNodes (load_withDefaults demo_limits) \<and>
    index_of_tree demo_tree = index_of_tree n"
  using Load_sound [OF demo_load] by auto

theorem Load_reports_invalid_witness:
  "\<exists>e. Load (\<lambda>_ _. Inl YamlEOF) (\<lambda>_. Inr demo_manifest) ('''', None) demo_limits = Inl e \<and>
     errors_is e ErrInvalid"
proof -
  have l: "Load (\<lambda>_ _. Inl YamlEOF) (\<lambda>_. Inr demo_manifest) ('''', None) demo_limits =
      Inl (Class ErrInvalid ''%w: manifest is empty'' [])"
    using load_withDefaults_bounds(1) [of demo_limits]
    by (simp add: Load_def read_limited_def Let_def utf8_valid_def)
  from Load_reports_invalid [OF this] l show ?thesis by blast
qed

end
