(* ===== verification/SchemaValidate.thy ===== *)
theory SchemaValidate
  imports SchemaLoad
begin

text \<open>
  \<^verbatim>\<open>internal/schema/validate.go\<close>: published ports, the field checks of a loaded manifest and
  their diagnostics. The lemmas characterise what each check accepts: a port binds a loopback
  address and stays within the port range, a relative path stays inside the workspace, a
  container target is a normalised absolute path.
\<close>

section \<open>Published ports\<close>

definition SupportedSchema :: int where
  "SupportedSchema = 1"

record port_spec =
  ps_host_ip :: string
  ps_host_port :: int
  ps_container_port :: int

definition parsePortNumber :: "string \<Rightarrow> msg + int" where
  "parsePortNumber s =
     (case atoi s of
        None \<Rightarrow> Inl (''%q is not a port number (1-65535)'', [s])
      | Some n \<Rightarrow>
          if n < 1 \<or> n > 65535 then Inl (''%q is not a port number (1-65535)'', [s]) else Inr n)"

text \<open>
  \<^verbatim>\<open>IP.String\<close> of a loopback address: the only such address that is not of the IPv4 form is
  \<^verbatim>\<open>::1\<close>.
\<close>

definition loopback_string :: "nat list \<Rightarrow> string" where
  "loopback_string ip = (case To4 ip of Some v \<Rightarrow> ipv4_string v | None \<Rightarrow> ''::1'')"

definition prefix_msg :: "string \<Rightarrow> msg + 'a \<Rightarrow> msg + 'a" where
  "prefix_msg p r = (case r of Inl m \<Rightarrow> Inl (p @ fst m, snd m) | Inr a \<Rightarrow> Inr a)"

definition ParsePort :: "string \<Rightarrow> msg + port_spec" where
  "ParsePort raw =
     (case split_on (CHR '':'') raw of
        [p0, p1, p2] \<Rightarrow>
          (case ParseIP p0 of
             None \<Rightarrow> Inl (''%q is not an IP address'', [p0])
           | Some ip \<Rightarrow>
               if \<not> IsLoopback ip
               then Inl (''published ports must bind a loopback address, got %q'', [p0])
               else rbind (prefix_msg ''host port: '' (parsePortNumber p1)) (\<lambda>host.
                      rbind (prefix_msg ''container port: '' (parsePortNumber p2)) (\<lambda>container.
                        Inr \<lparr>ps_host_ip = loopback_string ip, ps_host_port = host,
                             ps_container_port = container\<rparr>)))
      | _ \<Rightarrow> Inl (''want <loopback-ip>:<host-port>:<container-port>, got %q'', [raw]))"

section \<open>Patterns\<close>

definition lower_class :: "(nat \<times> nat) list" where "lower_class = [(97, 122)]"
definition alnum_lower :: "(nat \<times> nat) list" where "alnum_lower = [(97, 122), (48, 57)]"

text \<open>\<^verbatim>\<open>^[a-z][a-z0-9-]{0,31}$\<close>\<close>

definition serviceNameRe :: regex where
  "serviceNameRe =
     RxSeq (RxClass [(97, 122)]) (rx_between 0 31 (RxClass [(97, 122), (48, 57), (45, 45)]))"

definition volumeNameRe :: regex where
  "volumeNameRe = serviceNameRe"

definition ValidServiceName :: "string \<Rightarrow> bool" where
  "ValidServiceName s = rx_match serviceNameRe s"

text \<open>\<^verbatim>\<open>^[a-z0-9][A-Za-z0-9._-]{0,63}$\<close>\<close>

definition commandRe :: regex where
  "commandRe =
     RxSeq (RxClass [(97, 122), (48, 57)])
       (rx_between 0 63 (RxClass [(65, 90), (97, 122), (48, 57), (46, 46), (95, 95), (45, 45)]))"

text \<open>\<^verbatim>\<open>^[A-Za-z_][A-Za-z0-9_]{0,127}$\<close>\<close>

definition envKeyRe :: regex where
  "envKeyRe =
     RxSeq (RxClass [(65, 90), (97, 122), (95, 95)])
       (rx_between 0 127 (RxClass [(65, 90), (97, 122), (48, 57), (95, 95)]))"

text \<open>
  The parts of \<^verbatim>\<open>imageRefRe\<close>. Under \<^verbatim>\<open>(?i:...)\<close> the regexp package also lets a class with
  \<^verbatim>\<open>s\<close> match U+017F and one with \<^verbatim>\<open>k\<close> match U+212A; \<open>ci_extra\<close> is their UTF-8 form.
\<close>

definition ci_extra :: regex where
  "ci_extra = RxAlt (rx_seqs [RxClass [(197, 197)], RxClass [(191, 191)]])
                    (rx_seqs [RxClass [(226, 226)], RxClass [(132, 132)], RxClass [(170, 170)]])"

definition ci_alnum :: regex where
  "ci_alnum = RxAlt (RxClass [(97, 122), (65, 90), (48, 57)]) ci_extra"

definition ci_alnum_dash :: regex where
  "ci_alnum_dash = RxAlt (RxClass [(97, 122), (65, 90), (48, 57), (45, 45)]) ci_extra"

definition host_label :: regex where
  "host_label = RxSeq ci_alnum (rx_opt (RxSeq (RxStar ci_alnum_dash) ci_alnum))"

definition ci_letter :: "char \<Rightarrow> regex" where
  "ci_letter c = RxAlt (RxClass [(byte c, byte c), (byte c - 32, byte c - 32)])
     (if c = CHR ''s'' then rx_seqs [RxClass [(197, 197)], RxClass [(191, 191)]] else RxNone)"

definition dot_label :: regex where
  "dot_label = RxSeq (RxClass [(46, 46)]) host_label"

definition host_part :: regex where
  "host_part = rx_alts
     [RxSeq host_label (rx_plus dot_label),
      rx_seqs [host_label, RxStar dot_label, RxClass [(58, 58)], rx_between 1 5 (RxClass [(48, 57)])],
      rx_seqs (map ci_letter ''localhost'')]"

definition path_part :: regex where
  "path_part = RxSeq (RxClass alnum_lower)
     (rx_opt (RxSeq (RxStar (RxClass [(97, 122), (48, 57), (46, 46), (95, 95), (45, 45)])) (RxClass alnum_lower)))"

definition imageRefRe :: regex where
  "imageRefRe = rx_seqs
     [rx_opt (RxSeq host_part (RxClass [(47, 47)])),
      path_part,
      RxStar (RxSeq (RxClass [(47, 47)]) path_part),
      rx_opt (RxSeq (RxClass [(58, 58)])
        (rx_between 1 128 (RxClass [(65, 90), (97, 122), (48, 57), (46, 46), (95, 95), (45, 45)]))),
      rx_opt (RxSeq (rx_lit ''@sha256:'') (rx_times 64 (RxClass [(97, 102), (48, 57)])))]"

definition serviceNameRe_text :: string where
  "serviceNameRe_text = ''^[a-z][a-z0-9-]{0,31}$''"

definition envKeyRe_text :: string where
  "envKeyRe_text = ''^[A-Za-z_][A-Za-z0-9_]{0,127}$''"

definition reservedServiceNames :: "string list" where
  "reservedServiceNames = [''dev'', ''base'', ''vibe'', ''dns'']"

section \<open>The validator\<close>

text \<open>
  A method of \<^verbatim>\<open>validator\<close> returns the diagnostics it adds, in order; \<open>idx\<close> is the source index
  the validator carries.
\<close>

definition add :: "source_index \<Rightarrow> string \<Rightarrow> msg \<Rightarrow> field_error" where
  "add idx path m =
     \<lparr>fe_path = path, fe_line = fst (index_pos idx path), fe_column = snd (index_pos idx path),
      fe_message = fst m, fe_args = snd m\<rparr>"

definition indexed :: "string \<Rightarrow> nat \<Rightarrow> string" where
  "indexed base i = base @ ''['' @ itoa i @ '']''"

fun agent_duplicates :: "source_index \<Rightarrow> nat \<Rightarrow> agent_kind list \<Rightarrow> agent_spec list \<Rightarrow> field_error list" where
  "agent_duplicates idx i seen [] = []"
| "agent_duplicates idx i seen (a # as) =
     (if as_kind a \<in> set seen
      then [add idx (indexed ''image.agents'' i) (''duplicate agent %q'', [agent_text (as_kind a)])] else []) @
     agent_duplicates idx (i + 1) (as_kind a # seen) as"

fun toolchain_duplicates :: "source_index \<Rightarrow> nat \<Rightarrow> toolchain list \<Rightarrow> toolchain list \<Rightarrow> field_error list" where
  "toolchain_duplicates idx i seen [] = []"
| "toolchain_duplicates idx i seen (t # ts) =
     (if t \<in> set seen
      then [add idx (indexed ''image.toolchains'' i) (''duplicate toolchain %q'', [toolchain_text t])] else []) @
     toolchain_duplicates idx (i + 1) (t # seen) ts"

definition validate_image :: "source_index \<Rightarrow> manifest \<Rightarrow> field_error list" where
  "validate_image idx m =
     (if m_base m = '''' then [add idx ''image.base'' (''base image is required'', [])]
      else if \<not> rx_match imageRefRe (m_base m)
      then [add idx ''image.base'' (''%q is not an image reference (name[:tag][@sha256:...])'', [m_base m])]
      else []) @
     agent_duplicates idx 0 [] (m_agents m) @
     toolchain_duplicates idx 0 [] (m_toolchains m)"

definition relPath :: "source_index \<Rightarrow> string \<Rightarrow> string \<Rightarrow> field_error list" where
  "relPath idx fieldPath p =
     (if p = '''' then [add idx fieldPath (''path is required'', [])]
      else if has_prefix p ''/'' then [add idx fieldPath (''%q must be workspace-relative'', [p])]
      else if path_clean p \<noteq> p \<or> p = ''..'' \<or> has_prefix p ''../''
      then [add idx fieldPath (''%q must be a clean relative path inside the workspace'', [p])]
      else if contains p [CHR 0x5C]
      then [add idx fieldPath (''%q must use forward slashes'', [p])]
      else [])"

definition containerTarget :: "source_index \<Rightarrow> string \<Rightarrow> string \<Rightarrow> field_error list \<times> string option" where
  "containerTarget idx fieldPath p =
     (if p = '''' then ([add idx fieldPath (''target is required'', [])], None)
      else if \<not> has_prefix p ''/'' then ([add idx fieldPath (''target %q must be absolute'', [p])], None)
      else if path_clean p \<noteq> p \<or> p = ''/''
      then ([add idx fieldPath (''target %q must be a normalized absolute path, not /'', [p])], None)
      else ([], Some p))"

definition envKeys :: "source_index \<Rightarrow> string \<Rightarrow> manifest_env list \<Rightarrow> field_error list" where
  "envKeys idx base env =
     concat (map (\<lambda>e. if \<not> rx_match envKeyRe (en_key e)
       then [add idx (base @ ''.'' @ en_key e) (''env key %q must match %s'', [en_key e, envKeyRe_text])]
       else []) env)"

fun validate_ports :: "source_index \<Rightarrow> string \<Rightarrow> nat \<Rightarrow> string list \<Rightarrow> field_error list" where
  "validate_ports idx base i [] = []"
| "validate_ports idx base i (p # ps) =
     (case ParsePort p of Inl m \<Rightarrow> [add idx (indexed base i) m] | Inr _ \<Rightarrow> []) @
     validate_ports idx base (i + 1) ps"

fun validate_imports :: "source_index \<Rightarrow> nat \<Rightarrow> (string \<rightharpoonup> string) \<Rightarrow> import_spec list \<Rightarrow> field_error list" where
  "validate_imports idx i targets [] = []"
| "validate_imports idx i targets (imp # imps) =
     (let base = indexed ''runtime.imports'' i;
          src = relPath idx (base @ ''.source'') (im_source imp);
          ro = (if \<not> im_readonly imp
                then [add idx (base @ ''.readonly'')
                        (''read-write imports are not supported: set readonly: true'', [])] else []);
          (tgt_errs, tgt) = containerTarget idx (base @ ''.target'') (im_target imp)
      in src @ ro @ tgt_errs @
         (case tgt of
            None \<Rightarrow> validate_imports idx (i + 1) targets imps
          | Some t \<Rightarrow>
              (case targets t of
                 Some prev \<Rightarrow> [add idx (base @ ''.target'') (''target %q duplicates %s'', [t, prev])]
               | None \<Rightarrow> []) @
              validate_imports idx (i + 1) (targets(t \<mapsto> base)) imps))"

definition validate_runtime :: "source_index \<Rightarrow> manifest \<Rightarrow> field_error list" where
  "validate_runtime idx m =
     validate_ports idx ''runtime.ports'' 0 (m_ports m) @
     validate_imports idx 0 Map.empty (m_imports m) @
     envKeys idx ''runtime.env'' (m_env m)"

fun validate_volumes :: "source_index \<Rightarrow> string \<Rightarrow> nat \<Rightarrow> volume_ref list \<Rightarrow> field_error list" where
  "validate_volumes idx base i [] = []"
| "validate_volumes idx base i (vol # vols) =
     (let vbase = indexed (base @ ''.volumes'') i
      in (if \<not> rx_match volumeNameRe (vr_name vol)
          then [add idx (vbase @ ''.name'')
                  (''volume name %q must match %s'', [vr_name vol, serviceNameRe_text])] else []) @
         fst (containerTarget idx (vbase @ ''.target'') (vr_target vol)) @
         validate_volumes idx base (i + 1) vols)"

definition no_sidecar :: sidecar where
  "no_sidecar = \<lparr>sc_image = '''', sc_ports = [], sc_env = [], sc_volumes = []\<rparr>"

definition service_at :: "manifest \<Rightarrow> string \<Rightarrow> sidecar" where
  "service_at m name = (case fmlookup (m_services m) name of Some s \<Rightarrow> s | None \<Rightarrow> no_sidecar)"

definition validate_service :: "source_index \<Rightarrow> manifest \<Rightarrow> string \<Rightarrow> field_error list" where
  "validate_service idx m name =
     (let svc = service_at m name; base = ''services.'' @ name
      in (if \<not> rx_match serviceNameRe name
          then [add idx base (''service name %q must match %s'', [name, serviceNameRe_text])]
          else if name \<in> set reservedServiceNames
          then [add idx base (''service name %q is reserved'', [name])]
          else []) @
         (if sc_image svc = '''' then [add idx (base @ ''.image'') (''sidecar image is required'', [])]
          else if \<not> rx_match imageRefRe (sc_image svc)
          then [add idx (base @ ''.image'') (''%q is not an image reference'', [sc_image svc])]
          else []) @
         validate_ports idx (base @ ''.ports'') 0 (sc_ports svc) @
         envKeys idx (base @ ''.env'') (sc_env svc) @
         validate_volumes idx base 0 (sc_volumes svc))"

definition validate_services :: "source_index \<Rightarrow> manifest \<Rightarrow> field_error list" where
  "validate_services idx m = concat (map (validate_service idx m) (ServiceNames m))"

definition validate_agent :: "source_index \<Rightarrow> manifest \<Rightarrow> field_error list" where
  "validate_agent idx m =
     (if m_agent_cmd m = NoAgent then [add idx ''agent.cmd'' (''agent command is required'', [])]
      else if list_ex (\<lambda>a. as_kind a = m_agent_cmd m) (m_agents m) then []
      else [add idx ''agent.cmd''
              (''agent %q is not listed in image.agents'', [agent_text (m_agent_cmd m)])])"

fun validate_bootstrap :: "source_index \<Rightarrow> nat \<Rightarrow> string list \<Rightarrow> field_error list" where
  "validate_bootstrap idx i [] = []"
| "validate_bootstrap idx i (cmd # cmds) =
     (if \<not> rx_match commandRe cmd
      then [add idx (indexed ''bootstrap.required'' i) (''%q is not a command name'', [cmd])] else []) @
     validate_bootstrap idx (i + 1) cmds"

definition Document_Validate :: "document \<Rightarrow> field_error list" where
  "Document_Validate d =
     (let m = d_manifest d; idx = d_index d
      in (if m_schema m \<noteq> SupportedSchema
          then [add idx ''schema'' (''schema %d is not supported; this engine supports schema %d'',
                  [itoa_int (m_schema m), itoa_int SupportedSchema])] else []) @
         validate_image idx m @ validate_runtime idx m @ validate_services idx m @ validate_agent idx m @
         (if m_env_file m \<noteq> '''' then relPath idx ''env_file'' (m_env_file m) else []) @
         validate_bootstrap idx 0 (m_bootstrap_required m))"

section \<open>What the checks accept\<close>

lemma parsePortNumber_Inr:
  "parsePortNumber s = Inr n \<longleftrightarrow> atoi s = Some n \<and> 1 \<le> n \<and> n \<le> 65535"
  by (auto simp: parsePortNumber_def split: option.splits)

lemma prefix_msg_Inr [simp]: "prefix_msg p r = Inr a \<longleftrightarrow> r = Inr a"
  by (cases r) (simp_all add: prefix_msg_def)

lemma prefix_msg_ok [simp]: "prefix_msg p (Inr a) = Inr a"
  by simp

definition loopback_v4 :: "nat list \<Rightarrow> bool" where
  "loopback_v4 v \<longleftrightarrow> length v = 4 \<and> hd v = 127 \<and> (\<forall>b \<in> set v. b \<le> 255)"

lemma ParsePort_Inr:
  "ParsePort raw = Inr b \<longleftrightarrow>
     (\<exists>p0 p1 p2 v. split_on (CHR '':'') raw = [p0, p1, p2] \<and> ParseIP p0 = Some (v4_in_v6 v) \<and> loopback_v4 v \<and>
        parsePortNumber p1 = Inr (ps_host_port b) \<and> parsePortNumber p2 = Inr (ps_container_port b) \<and>
        ps_host_ip b = ipv4_string v)"
proof
  assume "ParsePort raw = Inr b"
  then obtain p0 p1 p2 ip where s: "split_on (CHR '':'') raw = [p0, p1, p2]" "ParseIP p0 = Some ip" "IsLoopback ip"
      "parsePortNumber p1 = Inr (ps_host_port b)" "parsePortNumber p2 = Inr (ps_container_port b)"
      "ps_host_ip b = loopback_string ip"
    by (auto simp: ParsePort_def rbind_eq_Inr split: list.splits option.splits if_splits)
  have "CHR '':'' \<notin> set p0" using s(1) split_on_elem [of p0 "CHR '':''" raw] by simp
  then obtain v where v: "parse_ipv4 p0 = Some v" "ip = v4_in_v6 v" using ParseIP_no_colon s(2) by blast
  then have l: "length v = 4" "\<forall>b \<in> set v. b \<le> 255" using parse_ipv4_bytes by blast+
  with s(3) v(2) have "hd v = 127" by (simp add: IsLoopback_v4)
  with s v l show "\<exists>p0 p1 p2 v. split_on (CHR '':'') raw = [p0, p1, p2] \<and> ParseIP p0 = Some (v4_in_v6 v) \<and> loopback_v4 v \<and>
        parsePortNumber p1 = Inr (ps_host_port b) \<and> parsePortNumber p2 = Inr (ps_container_port b) \<and>
        ps_host_ip b = ipv4_string v"
    by (auto simp: loopback_v4_def loopback_string_def)
next
  assume "\<exists>p0 p1 p2 v. split_on (CHR '':'') raw = [p0, p1, p2] \<and> ParseIP p0 = Some (v4_in_v6 v) \<and> loopback_v4 v \<and>
        parsePortNumber p1 = Inr (ps_host_port b) \<and> parsePortNumber p2 = Inr (ps_container_port b) \<and>
        ps_host_ip b = ipv4_string v"
  then show "ParsePort raw = Inr b"
    by (cases b) (auto simp: ParsePort_def IsLoopback_v4 loopback_v4_def loopback_string_def)
qed

definition render_port :: "port_spec \<Rightarrow> string" where
  "render_port b = ps_host_ip b @ '':'' @ itoa_int (ps_host_port b) @ '':'' @ itoa_int (ps_container_port b)"

lemma itoa_int_nat: "0 \<le> n \<Longrightarrow> itoa_int n = itoa (nat n)"
  by (simp add: itoa_int_def)

lemma parsePortNumber_itoa: "1 \<le> n \<Longrightarrow> n \<le> 65535 \<Longrightarrow> parsePortNumber (itoa_int n) = Inr n"
  by (simp add: parsePortNumber_Inr itoa_int_nat atoi_itoa)

lemma split_on_three:
  assumes "d \<notin> set a" "d \<notin> set b" "d \<notin> set c"
  shows "split_on d (a @ d # b @ d # c) = [a, b, c]"
  using assms by (simp add: split_on_append split_on_no_sep)

text \<open>A path that names the workspace or something inside it.\<close>

definition confined_path :: "string \<Rightarrow> bool" where
  "confined_path p \<longleftrightarrow>
     CHR 0x5C \<notin> set p \<and> (p = ''.'' \<or> (\<exists>es. es \<noteq> [] \<and> list_all plain_elem es \<and> p = join ''/'' es))"

lemma relPath_Nil: "relPath idx f p = [] \<longleftrightarrow> confined_path p"
  unfolding confined_path_def clean_relative_iff [symmetric]
  by (auto simp: relPath_def contains_def index_of_single_None)

section \<open>The accepted manifests\<close>

definition plain_target :: "string \<Rightarrow> bool" where
  "plain_target t \<longleftrightarrow> (\<exists>es. es \<noteq> [] \<and> list_all plain_elem es \<and> t = CHR ''/'' # join ''/'' es)"

lemma containerTarget_target:
  "containerTarget idx f p = ([], Some t) \<longleftrightarrow> t = p \<and> plain_target p"
  unfolding plain_target_def clean_absolute_iff [symmetric] by (auto simp: containerTarget_def has_prefix_def)

lemma containerTarget_ok: "fst (containerTarget idx f p) = [] \<longleftrightarrow> plain_target p"
  unfolding plain_target_def clean_absolute_iff [symmetric] by (auto simp: containerTarget_def has_prefix_def)

lemma agent_duplicates_Nil:
  "agent_duplicates idx i seen as = [] \<longleftrightarrow>
     distinct (map as_kind as) \<and> set seen \<inter> as_kind ` set as = {}"
  by (induction as arbitrary: i seen) auto

lemma toolchain_duplicates_Nil:
  "toolchain_duplicates idx i seen ts = [] \<longleftrightarrow> distinct ts \<and> set seen \<inter> set ts = {}"
  by (induction ts arbitrary: i seen) auto

lemma validate_ports_Nil:
  "validate_ports idx base i ps = [] \<longleftrightarrow> (\<forall>p \<in> set ps. \<exists>b. ParsePort p = Inr b)"
  by (induction ps arbitrary: i) (auto split: sum.splits)

definition import_ok :: "import_spec \<Rightarrow> bool" where
  "import_ok imp \<longleftrightarrow>
     im_readonly imp \<and> plain_target (im_target imp) \<and> confined_path (im_source imp)"

lemma validate_imports_Nil:
  "validate_imports idx i targets imps = [] \<longleftrightarrow>
     list_all import_ok imps \<and> distinct (map im_target imps) \<and> dom targets \<inter> im_target ` set imps = {}"
proof (induction imps arbitrary: i targets)
  case Nil
  show ?case by simp
next
  case (Cons imp imps)
  show ?case
  proof (cases "plain_target (im_target imp)")
    case True
    then have c: "containerTarget idx f (im_target imp) = ([], Some (im_target imp))" for f
      by (simp add: containerTarget_target)
    show ?thesis
      using True
      by (cases "targets (im_target imp)")
         (simp_all add: Let_def c Cons.IH relPath_Nil import_ok_def domIff dom_fun_upd del: fun_upd_apply, blast+)
  next
    case False
    then have "fst (containerTarget idx f (im_target imp)) \<noteq> []" for f by (simp add: containerTarget_ok)
    then have "containerTarget idx f (im_target imp) \<noteq> ([], x)" for f x by (metis fst_conv)
    with False show ?thesis by (auto simp: Let_def import_ok_def split: prod.splits)
  qed
qed

lemma envKeys_Nil: "envKeys idx base env = [] \<longleftrightarrow> (\<forall>e \<in> set env. rx_match envKeyRe (en_key e))"
  by (auto simp: envKeys_def)

lemma validate_volumes_Nil:
  "validate_volumes idx base i vols = [] \<longleftrightarrow>
     (\<forall>v \<in> set vols. rx_match volumeNameRe (vr_name v) \<and> plain_target (vr_target v))"
  by (induction vols arbitrary: i) (auto simp: Let_def containerTarget_ok)

lemma validate_bootstrap_Nil:
  "validate_bootstrap idx i cmds = [] \<longleftrightarrow> (\<forall>c \<in> set cmds. rx_match commandRe c)"
  by (induction cmds arbitrary: i) auto

definition service_ok :: "string \<Rightarrow> sidecar \<Rightarrow> bool" where
  "service_ok name svc \<longleftrightarrow>
     ValidServiceName name \<and> name \<notin> set reservedServiceNames \<and>
     sc_image svc \<noteq> '''' \<and> rx_match imageRefRe (sc_image svc) \<and>
     (\<forall>p \<in> set (sc_ports svc). \<exists>b. ParsePort p = Inr b) \<and>
     (\<forall>e \<in> set (sc_env svc). rx_match envKeyRe (en_key e)) \<and>
     (\<forall>v \<in> set (sc_volumes svc). rx_match volumeNameRe (vr_name v) \<and> plain_target (vr_target v))"

lemma validate_service_Nil:
  "validate_service idx m name = [] \<longleftrightarrow> service_ok name (service_at m name)"
  by (auto simp: validate_service_def service_ok_def Let_def ValidServiceName_def validate_ports_Nil
      envKeys_Nil validate_volumes_Nil)

definition manifest_ok :: "manifest \<Rightarrow> bool" where
  "manifest_ok m \<longleftrightarrow>
     m_schema m = 1 \<and> m_base m \<noteq> '''' \<and> rx_match imageRefRe (m_base m) \<and>
     distinct (map as_kind (m_agents m)) \<and> distinct (m_toolchains m) \<and>
     (\<forall>p \<in> set (m_ports m). \<exists>b. ParsePort p = Inr b) \<and>
     list_all import_ok (m_imports m) \<and> distinct (map im_target (m_imports m)) \<and>
     (\<forall>e \<in> set (m_env m). rx_match envKeyRe (en_key e)) \<and>
     (\<forall>name svc. fmlookup (m_services m) name = Some svc \<longrightarrow> service_ok name svc) \<and>
     m_agent_cmd m \<noteq> NoAgent \<and> m_agent_cmd m \<in> as_kind ` set (m_agents m) \<and>
     (m_env_file m = '''' \<or> confined_path (m_env_file m)) \<and>
     (\<forall>c \<in> set (m_bootstrap_required m). rx_match commandRe c)"

lemma ServiceNames_lookup:
  "name \<in> set (ServiceNames m) \<longleftrightarrow> (\<exists>svc. fmlookup (m_services m) name = Some svc)"
  by (simp add: ServiceNames_set fmlookup_dom_iff)

lemma validate_services_Nil:
  "validate_services idx m = [] \<longleftrightarrow>
     (\<forall>name svc. fmlookup (m_services m) name = Some svc \<longrightarrow> service_ok name svc)"
  using ServiceNames_lookup [of _ m]
  by (auto simp: validate_services_def validate_service_Nil service_at_def split: option.splits)

lemma validate_agent_Nil:
  "validate_agent idx m = [] \<longleftrightarrow> m_agent_cmd m \<noteq> NoAgent \<and> m_agent_cmd m \<in> as_kind ` set (m_agents m)"
  by (auto simp: validate_agent_def list_ex_iff intro: rev_image_eqI)

section \<open>Properties\<close>

text \<open>
  C38. A published port that \<^verbatim>\<open>ParsePort\<close> accepts binds an address of 127.0.0.0/8, both ports lie
  between 1 and 65535, and printing the result gives a text that parses to the same result.
\<close>

theorem ParsePort_sound:
  assumes "ParsePort raw = Inr b"
  shows "1 \<le> ps_host_port b \<and> ps_host_port b \<le> 65535 \<and>
    1 \<le> ps_container_port b \<and> ps_container_port b \<le> 65535 \<and>
    (\<exists>v. loopback_v4 v \<and> ps_host_ip b = ipv4_string v) \<and> ParsePort (render_port b) = Inr b"
proof -
  obtain p1 p2 v where v: "loopback_v4 v" "parsePortNumber p1 = Inr (ps_host_port b)"
      "parsePortNumber p2 = Inr (ps_container_port b)" "ps_host_ip b = ipv4_string v"
    using assms by (auto simp: ParsePort_Inr)
  then have r: "1 \<le> ps_host_port b" "ps_host_port b \<le> 65535" "1 \<le> ps_container_port b" "ps_container_port b \<le> 65535"
    by (auto simp: parsePortNumber_Inr)
  have "split_on (CHR '':'') (render_port b) =
      [ipv4_string v, itoa_int (ps_host_port b), itoa_int (ps_container_port b)]"
    using split_on_three [of "CHR '':''" "ipv4_string v" "itoa_int (ps_host_port b)" "itoa_int (ps_container_port b)"]
      r ipv4_string_no_colon [of v] itoa_no_char [of "CHR '':''"]
    by (simp add: render_port_def v(4) itoa_int_nat is_digit_def)
  moreover have "ParseIP (ipv4_string v) = Some (v4_in_v6 v)"
    using v(1) by (auto simp: loopback_v4_def intro: ParseIP_ipv4_string)
  ultimately show ?thesis using v r by (auto simp: ParsePort_Inr parsePortNumber_itoa)
qed

text \<open>
  A relative path passes exactly when it stays inside the workspace: it is the workspace
  itself, or its elements are ordinary names, none empty, \<^verbatim>\<open>.\<close> or \<^verbatim>\<open>..\<close>, without a backslash.
\<close>

theorem relPath_inside:
  "relPath idx f p = [] \<longleftrightarrow>
     CHR 0x5C \<notin> set p \<and>
     (p = ''.'' \<or> (\<exists>es. es \<noteq> [] \<and> p = join ''/'' es \<and>
        list_all (\<lambda>e. e \<noteq> '''' \<and> e \<noteq> ''.'' \<and> e \<noteq> ''..'' \<and> CHR ''/'' \<notin> set e) es))"
proof -
  have "plain_elem = (\<lambda>e. e \<noteq> '''' \<and> e \<noteq> ''.'' \<and> e \<noteq> ''..'' \<and> CHR ''/'' \<notin> set e)"
    by (rule ext) (simp add: plain_elem_def)
  then show ?thesis by (auto simp: relPath_Nil confined_path_def)
qed

text \<open>
  C37. Validation reports nothing exactly for the manifests that satisfy every rule of the schema
  (\<open>manifest_ok\<close>), whatever the source index says about positions.
\<close>

theorem Validate_exact:
  "Document_Validate d = [] \<longleftrightarrow> manifest_ok (d_manifest d)"
  by (simp add: Document_Validate_def validate_image_def validate_runtime_def Let_def SupportedSchema_def
      agent_duplicates_Nil toolchain_duplicates_Nil validate_ports_Nil validate_imports_Nil envKeys_Nil
      validate_services_Nil validate_agent_Nil relPath_Nil validate_bootstrap_Nil manifest_ok_def conj_ac)

text \<open>
  C39. The text form of an agent specification is exact: parsing accepts precisely what printing a
  well-formed specification gives, and a version has no character with a meaning to a shell.
\<close>

theorem AgentSpec_text_exact:
  "AgentSpec_UnmarshalText s = Inr a \<longleftrightarrow>
     agent_spec_ok a \<and> list_all version_char (as_version a) \<and> AgentSpec_String a = s"
  using validAgentVersion_chars
  by (auto simp: agent_spec_text.parse_eq_Inr_iff agent_spec_ok_def)

section \<open>Witnesses\<close>

lemma demo_ParsePort:
  "ParsePort ''127.0.0.1:+080:80'' =
     Inr \<lparr>ps_host_ip = ''127.0.0.1'', ps_host_port = 80, ps_container_port = 80\<rparr>"
  by code_simp

theorem ParsePort_sound_witness:
  "ParsePort (render_port \<lparr>ps_host_ip = ''127.0.0.1'', ps_host_port = 80, ps_container_port = 80\<rparr>) =
     Inr \<lparr>ps_host_ip = ''127.0.0.1'', ps_host_port = 80, ps_container_port = 80\<rparr>"
  using ParsePort_sound [OF demo_ParsePort] by blast


text \<open>The host part of an image reference folds case over Unicode: U+212A passes for a letter k.\<close>

lemma imageRef_folds_kelvin:
  "rx_match imageRefRe [CHR 0xE2, CHR 0x84, CHR 0xAA, CHR ''.'', CHR ''i'', CHR ''o'', CHR ''/'', CHR ''a'']"
  by code_simp

end
