(* ===== verification/Compile.thy ===== *)
theory Compile
  imports SchemaValidate Plan
begin

text \<open>
  \<^verbatim>\<open>internal/model/compile.go\<close> and \<^verbatim>\<open>validate.go\<close>: from a validated manifest and resolved inputs
  to the canonical plan. The JSON encoder and SHA-256 are the parameters \<open>marshal\<close> (its
  output, or the text of its error) and \<open>sha\<close>.
  Of an installed artifact (\<^verbatim>\<open>store.Artifact\<close>) and of a registry record the compiler reads a
  few fields; those are the fields of \<open>artifact\<close> and \<open>compile_input\<close>.
\<close>

section \<open>Inputs\<close>

record artifact =
  ar_digest :: digest
  ar_version :: string
  ar_payload_digest :: digest
  ar_path :: string

definition Artifact_IsZero :: "artifact \<Rightarrow> bool" where
  "Artifact_IsZero a = (ar_path a = '''' \<and> Digest_IsZero (ar_digest a))"

definition PayloadPath :: "artifact \<Rightarrow> string" where
  "PayloadPath a = path_join [ar_path a, ''payload'']"

text \<open>\<^verbatim>\<open>os.Stat\<close> is the parameter \<open>regular\<close>: whether the path names a regular file.\<close>

definition HasPayloadFile :: "(string \<Rightarrow> bool) \<Rightarrow> artifact \<Rightarrow> string \<Rightarrow> bool" where
  "HasPayloadFile regular a rel =
     (if Artifact_IsZero a then False else regular (path_join [PayloadPath a, rel]))"

definition DNSConfPresent :: "(string \<Rightarrow> bool) \<Rightarrow> artifact \<Rightarrow> bool" where
  "DNSConfPresent regular a = HasPayloadFile regular a DNSConfRelPath"

record compile_input =
  ci_project_id :: string
  ci_root :: string
  ci_display_name :: string
  ci_artifact :: artifact
  ci_manifest :: manifest
  ci_snapshot :: digest
  ci_snapshot_path :: string
  ci_image_digests :: "string \<rightharpoonup> digest"
  ci_broker_results_dir :: string
  ci_dns_conf :: bool

definition SnapshotImportDir :: string where
  "SnapshotImportDir = ''imports''"

section \<open>The parts of a plan\<close>

definition EgressDNSEnabled :: "manifest \<Rightarrow> bool \<Rightarrow> bool" where
  "EgressDNSEnabled m dns_conf \<longleftrightarrow> m_egress m \<noteq> EgressOff \<and> dns_conf"

definition sortedStrings :: "string list \<Rightarrow> string list" where
  "sortedStrings xs = sort xs"

definition defaultPolicy :: container_policy where
  "defaultPolicy = \<lparr>po_drop_all_capabilities = True, po_no_new_privileges = True, po_readonly_root_fs = False,
     po_network = NetworkProject, po_net_bind_service = False\<rparr>"

definition bare_error :: "string \<Rightarrow> msg \<Rightarrow> field_error" where
  "bare_error path m = \<lparr>fe_path = path, fe_line = 0, fe_column = 0, fe_message = fst m, fe_args = snd m\<rparr>"

fun compilePorts_from :: "string \<Rightarrow> nat \<Rightarrow> string list \<Rightarrow> port_binding list \<times> field_error list" where
  "compilePorts_from base i [] = ([], [])"
| "compilePorts_from base i (p # ps) =
     (let (out, errs) = compilePorts_from base (i + 1) ps
      in case ParsePort p of
           Inl m \<Rightarrow> (out, bare_error (indexed base i) m # errs)
         | Inr b \<Rightarrow>
             (\<lparr>pb_host_ip = ps_host_ip b, pb_host_port = ps_host_port b,
               pb_container_port = ps_container_port b\<rparr> # out, errs))"

definition compilePorts :: "string \<Rightarrow> string list \<Rightarrow> field_error list \<Rightarrow> port_binding list \<times> field_error list" where
  "compilePorts base ports errs =
     (let (out, new) = compilePorts_from base 0 ports in (out, errs @ new))"

definition compileEnv :: "manifest_env list \<Rightarrow> env_var list" where
  "compileEnv env = map (\<lambda>e. \<lparr>ev_key = en_key e, ev_value = en_value e\<rparr>) env"

definition commonLabels :: "string \<Rightarrow> string \<Rightarrow> (string \<times> string) list" where
  "commonLabels i role =
     [(''dev.vibe.managed'', ''true''), (''dev.vibe.project'', i), (''dev.vibe.role'', role)]"

definition resolve :: "compile_input \<Rightarrow> string \<Rightarrow> image_id" where
  "resolve inp ref = \<lparr>im_ref = ref, im_digest = map_get (ci_image_digests inp) zero_digest ref\<rparr>"

definition hasTools :: "manifest \<Rightarrow> bool" where
  "hasTools m \<longleftrightarrow> m_agents m \<noteq> [] \<or> m_toolchains m \<noteq> []"

definition devImage :: "compile_input \<Rightarrow> image_id" where
  "devImage inp =
     (let m = ci_manifest inp; i = ci_project_id inp
      in if m_extension m then resolve inp (ExtensionImageRef i)
         else if hasTools m then resolve inp (ToolsImageRef i)
         else resolve inp (m_base m))"

definition plan_tools :: "manifest \<Rightarrow> tools option" where
  "plan_tools m =
     (if hasTools m
      then Some \<lparr>to_agents = sort (map AgentSpec_String (m_agents m)),
                 to_toolchains = sortedStrings (map toolchain_text (m_toolchains m))\<rparr>
      else None)"

text \<open>The imports loop: a mount for each import, or a diagnostic for an engine-owned target.\<close>

fun import_mounts :: "compile_input \<Rightarrow> nat \<Rightarrow> import_spec list \<Rightarrow> mount list \<times> field_error list" where
  "import_mounts inp i [] = ([], [])"
| "import_mounts inp i (imp # imps) =
     (let (ms, errs) = import_mounts inp (i + 1) imps; r = reservedTargetFor (im_target imp)
      in if r \<noteq> ''''
         then (ms, bare_error (indexed ''runtime.imports'' i @ ''.target'')
                     (''target %q overlaps the engine-owned target %q'', [im_target imp, r]) # errs)
         else (\<lparr>mo_kind = BindMount,
                mo_source = path_join [ci_snapshot_path inp, SnapshotImportDir, itoa i],
                mo_target = im_target imp, mo_read_only = im_readonly imp\<rparr> # ms, errs))"

definition engine_mounts :: "compile_input \<Rightarrow> mount list" where
  "engine_mounts inp =
     (let a = ci_artifact inp in
      [\<lparr>mo_kind = BindMount, mo_source = ci_root inp, mo_target = WorkspaceTarget, mo_read_only = False\<rparr>,
       \<lparr>mo_kind = VolumeMount, mo_source = AgentStateVolumeName (ci_project_id inp),
        mo_target = AgentStateTarget, mo_read_only = False\<rparr>,
       \<lparr>mo_kind = TmpfsMount, mo_source = '''', mo_target = RuntimeDirTarget, mo_read_only = False\<rparr>] @
      (if \<not> Artifact_IsZero a
       then [\<lparr>mo_kind = BindMount, mo_source = PayloadPath a, mo_target = PayloadTarget, mo_read_only = True\<rparr>]
       else []) @
      (if ci_broker_results_dir inp \<noteq> ''''
       then [\<lparr>mo_kind = BindMount, mo_source = ci_broker_results_dir inp, mo_target = ResultsTarget,
              mo_read_only = True\<rparr>]
       else []))"

definition agent_env :: "agent_spec \<Rightarrow> env_var list" where
  "agent_env a =
     (if as_kind a = AgentClaude
      then [\<lparr>ev_key = ''CLAUDE_CONFIG_DIR'', ev_value = path_join [AgentStateTarget, ''claude'']\<rparr>,
            \<lparr>ev_key = ''DISABLE_AUTOUPDATER'', ev_value = ''1''\<rparr>]
      else []) @
     (if as_kind a = AgentCodex
      then [\<lparr>ev_key = ''CODEX_HOME'', ev_value = path_join [AgentStateTarget, ''codex'']\<rparr>]
      else [])"

definition dev_environment :: "compile_input \<Rightarrow> env_var list" where
  "dev_environment inp =
     (let m = ci_manifest inp; a = ci_artifact inp in
      compileEnv (m_env m) @
      [\<lparr>ev_key = ''XDG_RUNTIME_DIR'', ev_value = RuntimeDirTarget\<rparr>,
       \<lparr>ev_key = ''GH_CONFIG_DIR'', ev_value = path_join [AgentStateTarget, ''gh'']\<rparr>] @
      concat (map agent_env (m_agents m)) @
      (if \<not> Artifact_IsZero a
       then [\<lparr>ev_key = ''VIBE_PAYLOAD_DIGEST'', ev_value = Digest_String (ar_payload_digest a)\<rparr>]
       else []))"

definition dev_container :: "compile_input \<Rightarrow> mount list \<Rightarrow> port_binding list \<Rightarrow> container" where
  "dev_container inp imports ports =
     (let m = ci_manifest inp; i = ci_project_id inp in
      \<lparr>c_name = DevContainerName i, c_image = devImage inp, c_user = ''vscode'',
       c_command = (if Artifact_IsZero (ci_artifact inp) then [''sleep'', ''infinity''] else [PayloadEntrypoint]),
       c_environment = dev_environment inp,
       c_mounts = engine_mounts inp @ imports,
       c_ports = ports,
       c_labels = commonLabels i ''dev'',
       c_dns_from_service = (if EgressDNSEnabled m (ci_dns_conf inp) then DNSServiceName else ''''),
       c_log = None,
       c_policy = defaultPolicy\<rparr>)"

definition dns_container :: "compile_input \<Rightarrow> container" where
  "dns_container inp =
     (let i = ci_project_id inp in
      \<lparr>c_name = SidecarContainerName i DNSServiceName, c_image = resolve inp CoreDNSImageRef, c_user = ''0'',
       c_command = [''-conf'', DNSCorefile], c_environment = [],
       c_mounts = [\<lparr>mo_kind = BindMount,
         mo_source = path_join [PayloadPath (ci_artifact inp), PayloadDNSDir],
         mo_target = DNSConfTarget, mo_read_only = True\<rparr>],
       c_ports = [], c_labels = commonLabels i (''sidecar:'' @ DNSServiceName), c_dns_from_service = '''',
       c_log = Some \<lparr>lo_max_size = ''10m'', lo_max_files = 3\<rparr>,
       c_policy = defaultPolicy\<lparr>po_net_bind_service := True\<rparr>\<rparr>)"

definition service_mounts :: "string \<Rightarrow> sidecar \<Rightarrow> mount list" where
  "service_mounts i svc =
     map (\<lambda>v. \<lparr>mo_kind = VolumeMount, mo_source = ServiceVolumeName i (vr_name v),
                mo_target = vr_target v, mo_read_only = False\<rparr>) (sc_volumes svc)"

definition service_container :: "compile_input \<Rightarrow> string \<Rightarrow> port_binding list \<Rightarrow> container" where
  "service_container inp name ports =
     (let i = ci_project_id inp; svc = service_at (ci_manifest inp) name in
      \<lparr>c_name = SidecarContainerName i name, c_image = resolve inp (sc_image svc), c_user = '''',
       c_command = [], c_environment = compileEnv (sc_env svc), c_mounts = service_mounts i svc,
       c_ports = ports, c_labels = commonLabels i (''sidecar:'' @ name), c_dns_from_service = '''',
       c_log = None, c_policy = defaultPolicy\<rparr>)"

text \<open>The sidecar loop: containers and volumes in name order, port diagnostics appended.\<close>

fun compile_services :: "compile_input \<Rightarrow> string list \<Rightarrow> field_error list \<Rightarrow>
    container list \<times> string list \<times> field_error list" where
  "compile_services inp [] errs = ([], [], errs)"
| "compile_services inp (name # names) errs =
     (let svc = service_at (ci_manifest inp) name;
          (ports, errs1) = compilePorts (''services.'' @ name @ ''.ports'') (sc_ports svc) errs;
          (cs, vols, errs2) = compile_services inp names errs1
      in (service_container inp name ports # cs,
          map (\<lambda>v. ServiceVolumeName (ci_project_id inp) (vr_name v)) (sc_volumes svc) @ vols, errs2))"

definition plan_images :: "compile_input \<Rightarrow> container list \<Rightarrow> image_id list" where
  "plan_images inp services =
     (let m = ci_manifest inp;
          refs = im_ref (devImage inp) # map (\<lambda>c. im_ref (c_image c)) services @
            (if hasTools m \<or> m_extension m then [m_base m] else []) @
            (if hasTools m \<and> m_extension m then [ToolsImageRef (ci_project_id inp)] else [])
      in map (resolve inp) (sort (remdups refs)))"

section \<open>Validation of a completed plan\<close>

text \<open>\<^verbatim>\<open>^[1-9][0-9]*[kmg]$\<close>\<close>

definition logMaxSizeRe :: regex where
  "logMaxSizeRe = rx_seqs [RxClass [(49, 57)], RxStar (RxClass [(48, 57)]), RxClass [(107, 107), (109, 109), (103, 103)]]"

definition overlaps :: "string \<Rightarrow> string \<Rightarrow> bool" where
  "overlaps t prev \<longleftrightarrow> t = prev \<or> has_prefix t (prev @ ''/'') \<or> has_prefix prev (t @ ''/'')"

definition mount_errors :: "string \<Rightarrow> mount \<Rightarrow> field_error list" where
  "mount_errors field m =
     (let t = mo_target m in
      case mo_kind m of
        TmpfsMount \<Rightarrow>
          if mo_source m \<noteq> ''''
          then [bare_error field (''tmpfs mount must not have a source, got %q'', [mo_source m])] else []
      | OtherMount k \<Rightarrow> [bare_error field (''unsupported mount kind %q'', [k])]
      | _ \<Rightarrow>
          (if mo_source m = '''' then [bare_error field (''mount source is required'', [])] else []) @
          (if mo_kind m = BindMount \<and> \<not> mo_read_only m \<and> t \<noteq> WorkspaceTarget
           then [bare_error field (''writable bind at %q: writable binds are reserved for %s'', [t, WorkspaceTarget])]
           else []))"

fun validateMounts_from :: "string \<Rightarrow> nat \<Rightarrow> string list \<Rightarrow> mount list \<Rightarrow> field_error list" where
  "validateMounts_from base i targets [] = []"
| "validateMounts_from base i targets (m # ms) =
     (let field = indexed (base @ '': mounts'') i; t = mo_target m
      in if t = '''' \<or> \<not> has_prefix t ''/''
         then bare_error field (''target %q must be absolute'', [t]) #
              validateMounts_from base (i + 1) targets ms
         else if path_clean t \<noteq> t \<or> t = ''/''
         then bare_error field (''target %q must be normalized and not /'', [t]) #
              validateMounts_from base (i + 1) targets ms
         else mount_errors field m @
              map (\<lambda>prev. bare_error field (''target %q overlaps mount target %q'', [t, prev]))
                (filter (overlaps t) targets) @
              validateMounts_from base (i + 1) (targets @ [t]) ms)"

definition validateMounts :: "string \<Rightarrow> mount list \<Rightarrow> field_error list" where
  "validateMounts base ms = validateMounts_from base 0 [] ms"

definition port_errors :: "string \<Rightarrow> nat \<Rightarrow> port_binding \<Rightarrow> field_error list" where
  "port_errors base i p =
     (case ParseIP (pb_host_ip p) of
        Some ip \<Rightarrow>
          if IsLoopback ip then []
          else [bare_error (indexed (base @ '': ports'') i) (''host ip %q is not loopback'', [pb_host_ip p])]
      | None \<Rightarrow> [bare_error (indexed (base @ '': ports'') i) (''host ip %q is not loopback'', [pb_host_ip p])]) @
     (if pb_host_port p < 1 \<or> pb_host_port p > 65535 \<or> pb_container_port p < 1 \<or> pb_container_port p > 65535
      then [bare_error (indexed (base @ '': ports'') i) (''port out of range'', [])] else [])"

fun ports_errors :: "string \<Rightarrow> nat \<Rightarrow> port_binding list \<Rightarrow> field_error list" where
  "ports_errors base i [] = []"
| "ports_errors base i (p # ps) = port_errors base i p @ ports_errors base (i + 1) ps"

definition log_errors :: "string \<Rightarrow> log_policy option \<Rightarrow> field_error list" where
  "log_errors base l =
     (case l of
        None \<Rightarrow> []
      | Some l \<Rightarrow>
          (if \<not> rx_match logMaxSizeRe (lo_max_size l)
           then [bare_error (base @ '': log'')
                   (''max size %q must be a positive count with a k/m/g suffix'', [lo_max_size l])] else []) @
          (if lo_max_files l < 1
           then [bare_error (base @ '': log'') (''max files %d must be at least 1'', [itoa_int (lo_max_files l)])]
           else []))"

definition container_errors :: "string \<Rightarrow> (string \<rightharpoonup> string) \<Rightarrow> container \<Rightarrow> field_error list" where
  "container_errors pid names c =
     (let base = ''container '' @ c_name c in
      (if c_name c = '''' then [bare_error base (''container name is required'', [])] else []) @
      (case names (c_name c) of
         Some prev \<Rightarrow> [bare_error base (''name collides with '' @ prev, [])] | None \<Rightarrow> []) @
      (if im_ref (c_image c) = ''''
       then [bare_error (base @ '': image'') (''image reference is required'', [])] else []) @
      (if \<not> po_drop_all_capabilities (c_policy c) \<or> \<not> po_no_new_privileges (c_policy c)
       then [bare_error (base @ '': policy'') (''closed container policy is mandatory'', [])] else []) @
      (if po_net_bind_service (c_policy c) \<and> c_name c \<noteq> SidecarContainerName pid DNSServiceName
       then [bare_error (base @ '': policy'')
               (''only the engine dns forwarder may re-grant NET_BIND_SERVICE'', [])] else []) @
      log_errors base (c_log c) @
      validateMounts base (c_mounts c) @
      ports_errors base 0 (c_ports c))"

fun containers_errors :: "string \<Rightarrow> (string \<rightharpoonup> string) \<Rightarrow> container list \<Rightarrow> field_error list" where
  "containers_errors pid names [] = []"
| "containers_errors pid names (c # cs) =
     container_errors pid names c @
     containers_errors pid (names(c_name c \<mapsto> ''container '' @ c_name c)) cs"

definition dns_errors :: "string \<Rightarrow> string list \<Rightarrow> container \<Rightarrow> field_error list" where
  "dns_errors pid names c =
     (let want = SidecarContainerName pid (c_dns_from_service c)
      in if c_dns_from_service c = '''' then []
         else if want \<in> set names then []
         else [bare_error (''container '' @ c_name c @ '': dns_from_service'')
                 (''service %q has no container %q in the plan'', [c_dns_from_service c, want])])"

definition Validate :: "plan \<Rightarrow> field_error list" where
  "Validate p =
     (let containers = p_dev p # p_services p in
      (if p_format p \<noteq> PlanFormat
       then [bare_error ''format'' (''plan format %d (supported: %d)'', [itoa_int (p_format p), itoa_int PlanFormat])]
       else []) @
      (if p_project_id p = '''' then [bare_error ''project.id'' (''project id is required'', [])] else []) @
      (if \<not> has_prefix (p_project_root p) ''/''
       then [bare_error ''project.root'' (''root %q must be absolute'', [p_project_root p])] else []) @
      containers_errors (p_project_id p) Map.empty containers @
      concat (map (dns_errors (p_project_id p) (map c_name containers)) containers))"

section \<open>Encoding and compiling\<close>

definition CanonicalJSON :: "(plan \<Rightarrow> string + string) \<Rightarrow> plan \<Rightarrow> string + string" where
  "CanonicalJSON marshal p = rbind (marshal p) (\<lambda>data. Inr (data @ [CHR 0x0A]))"

definition Hash :: "(plan \<Rightarrow> string + string) \<Rightarrow> (string \<Rightarrow> string) \<Rightarrow> plan \<Rightarrow> string + digest" where
  "Hash marshal sha p =
     rbind (CanonicalJSON marshal (p\<lparr>p_canonical_hash := zero_digest\<rparr>)) (\<lambda>data. Inr (SHA256 sha data))"

text \<open>\<^verbatim>\<open>DecodePlan\<close>; \<open>strict\<close> is the JSON decoder with unknown fields refused, or its message.\<close>

definition DecodePlan :: "(string \<Rightarrow> string + plan) \<Rightarrow> string \<Rightarrow> error + plan" where
  "DecodePlan strict data =
     (case strict data of
        Inl e \<Rightarrow> Inl (Class ErrInvalid ''%w: plan: %v'' [e])
      | Inr p \<Rightarrow>
          if p_format p \<noteq> PlanFormat
          then Inl (Class ErrInvalid ''%w: plan format %d, this engine speaks %d''
                 [itoa_int (p_format p), itoa_int PlanFormat])
          else (case Validate p of
                  [] \<Rightarrow> Inr p
                | fe # _ \<Rightarrow>
                    Inl (Class ErrInvalid (''%w: plan invalid: '' @ fst (FieldError_Error fe)) (snd (FieldError_Error fe)))))"

definition compile_plan :: "compile_input \<Rightarrow> plan \<times> field_error list" where
  "compile_plan inp =
     (let m = ci_manifest inp; i = ci_project_id inp; a = ci_artifact inp;
          (imports, errs0) = import_mounts inp 0 (m_imports m);
          (ports, errs1) = compilePorts ''runtime.ports'' (m_ports m) errs0;
          dns = (if EgressDNSEnabled m (ci_dns_conf inp) then [dns_container inp] else []);
          (svcs, vols, errs2) = compile_services inp (ServiceNames m) errs1
      in (\<lparr>p_format = PlanFormat, p_project_id = i, p_project_root = ci_root inp,
           p_display_name = ci_display_name inp,
           p_artifact_digest = ar_digest a, p_artifact_version = ar_version a,
           p_dev = dev_container inp imports ports,
           p_services = dns @ svcs,
           p_networks = [NetworkName i],
           p_volumes = sort (AgentStateVolumeName i # vols),
           p_images = plan_images inp (dns @ svcs),
           p_snapshot = ci_snapshot inp, p_env_file = m_env_file m,
           p_tools = plan_tools m,
           p_extension = (if m_extension m then Some ''Dockerfile'' else None),
           p_canonical_hash = zero_digest\<rparr>, errs2))"

definition Compile ::
    "(plan \<Rightarrow> string + string) \<Rightarrow> (string \<Rightarrow> string) \<Rightarrow> compile_input \<Rightarrow> field_error list + plan" where
  "Compile marshal sha inp =
     (let (plan, errs) = compile_plan inp; all_errs = errs @ Validate plan
      in if all_errs \<noteq> [] then Inl all_errs
         else (case Hash marshal sha plan of
                 Inl e \<Rightarrow> Inl [bare_error '''' (''canonicalize plan: %v'', [e])]
               | Inr h \<Rightarrow> Inr (plan\<lparr>p_canonical_hash := h\<rparr>)))"

section \<open>The plans that validate\<close>

definition mount_ok :: "mount \<Rightarrow> bool" where
  "mount_ok m \<longleftrightarrow>
     plain_target (mo_target m) \<and>
     (case mo_kind m of
        BindMount \<Rightarrow> mo_source m \<noteq> '''' \<and> (mo_read_only m \<or> mo_target m = WorkspaceTarget)
      | VolumeMount \<Rightarrow> mo_source m \<noteq> ''''
      | TmpfsMount \<Rightarrow> mo_source m = ''''
      | OtherMount _ \<Rightarrow> False)"

definition apart :: "string list \<Rightarrow> bool" where
  "apart ts = sorted_wrt (\<lambda>prev t. \<not> overlaps t prev) ts"

definition port_ok :: "port_binding \<Rightarrow> bool" where
  "port_ok p \<longleftrightarrow>
     (\<exists>ip. ParseIP (pb_host_ip p) = Some ip \<and> IsLoopback ip) \<and>
     1 \<le> pb_host_port p \<and> pb_host_port p \<le> 65535 \<and> 1 \<le> pb_container_port p \<and> pb_container_port p \<le> 65535"

definition log_ok :: "log_policy option \<Rightarrow> bool" where
  "log_ok l = (case l of None \<Rightarrow> True | Some l \<Rightarrow> rx_match logMaxSizeRe (lo_max_size l) \<and> 1 \<le> lo_max_files l)"

definition container_ok :: "string \<Rightarrow> container \<Rightarrow> bool" where
  "container_ok pid c \<longleftrightarrow>
     c_name c \<noteq> '''' \<and> im_ref (c_image c) \<noteq> '''' \<and>
     po_drop_all_capabilities (c_policy c) \<and> po_no_new_privileges (c_policy c) \<and>
     (po_net_bind_service (c_policy c) \<longrightarrow> c_name c = SidecarContainerName pid DNSServiceName) \<and>
     log_ok (c_log c) \<and> list_all mount_ok (c_mounts c) \<and> apart (map mo_target (c_mounts c)) \<and>
     list_all port_ok (c_ports c)"

definition plan_safe :: "plan \<Rightarrow> bool" where
  "plan_safe p \<longleftrightarrow>
     p_format p = PlanFormat \<and> p_project_id p \<noteq> '''' \<and> has_prefix (p_project_root p) ''/'' \<and>
     distinct (map c_name (p_dev p # p_services p)) \<and>
     list_all (container_ok (p_project_id p)) (p_dev p # p_services p) \<and>
     list_all (\<lambda>c. c_dns_from_service c = '''' \<or>
       SidecarContainerName (p_project_id p) (c_dns_from_service c) \<in> c_name ` set (p_dev p # p_services p))
       (p_dev p # p_services p)"

lemma plain_target_iff: "plain_target t \<longleftrightarrow> t \<noteq> '''' \<and> has_prefix t ''/'' \<and> path_clean t = t \<and> t \<noteq> ''/''"
  unfolding plain_target_def clean_absolute_iff [symmetric] by (auto simp: has_prefix_def)

lemma validateMounts_from_Nil:
  "validateMounts_from base i ts ms = [] \<longleftrightarrow>
     list_all mount_ok ms \<and> apart (map mo_target ms) \<and> (\<forall>m \<in> set ms. \<forall>t \<in> set ts. \<not> overlaps (mo_target m) t)"
proof (induction ms arbitrary: i ts)
  case Nil
  show ?case by (simp add: apart_def)
next
  case (Cons m ms)
  show ?case
  proof (cases "plain_target (mo_target m)")
    case True
    then have k: "mount_errors f m = [] \<longleftrightarrow> mount_ok m" for f
      by (auto simp: mount_errors_def mount_ok_def Let_def split: mount_kind.splits)
    show ?thesis using True
      by (auto simp: Let_def plain_target_iff Cons.IH k apart_def filter_empty_conv)
  next
    case False
    then show ?thesis by (auto simp: Let_def plain_target_iff mount_ok_def)
  qed
qed

lemma ports_errors_Nil: "ports_errors base i ps = [] \<longleftrightarrow> list_all port_ok ps"
proof -
  have "port_errors base i p = [] \<longleftrightarrow> port_ok p" for i p
    by (auto simp: port_errors_def port_ok_def split: option.splits)
  then show ?thesis by (induction ps arbitrary: i) simp_all
qed

lemma log_errors_Nil: "log_errors base l = [] \<longleftrightarrow> log_ok l"
  by (auto simp: log_errors_def log_ok_def split: option.splits)

lemma container_errors_Nil:
  "container_errors pid names c = [] \<longleftrightarrow> names (c_name c) = None \<and> container_ok pid c"
  by (auto simp: container_errors_def container_ok_def Let_def log_errors_Nil ports_errors_Nil validateMounts_def
      validateMounts_from_Nil split: option.splits)

lemma containers_errors_Nil:
  "containers_errors pid names cs = [] \<longleftrightarrow>
     distinct (map c_name cs) \<and> list_all (container_ok pid) cs \<and> dom names \<inter> c_name ` set cs = {}"
proof (induction cs arbitrary: names)
  case (Cons c cs)
  then show ?case
    by (simp add: container_errors_Nil domIff del: fun_upd_apply) (auto simp: dom_def)
qed simp

lemma dns_errors_Nil:
  "dns_errors pid names c = [] \<longleftrightarrow>
     c_dns_from_service c = '''' \<or> SidecarContainerName pid (c_dns_from_service c) \<in> set names"
  by (auto simp: dns_errors_def Let_def)

lemma Validate_Nil: "Validate p = [] \<longleftrightarrow> plan_safe p"
  by (auto simp: Validate_def Let_def plan_safe_def container_errors_Nil containers_errors_Nil dns_errors_Nil list_all_iff)

lemma overlaps_elems:
  assumes "plain_target t" "plain_target u"
  shows "overlaps t u \<longleftrightarrow> prefix (elems t) (elems u) \<or> prefix (elems u) (elems t)"
proof -
  obtain es fs where e: "es \<noteq> []" "list_all plain_elem es" "t = CHR ''/'' # join ''/'' es"
    and f: "fs \<noteq> []" "list_all plain_elem fs" "u = CHR ''/'' # join ''/'' fs"
    using assms by (auto simp: plain_target_def)
  have "t = u \<longleftrightarrow> es = fs" using e f elems_plain by metis
  then show ?thesis
    using e f inside_iff [of es fs] inside_iff [of fs es] elems_plain [of es] elems_plain [of fs]
    by (auto simp: overlaps_def strict_prefix_def)
qed

section \<open>The compiled plan\<close>

lemma path_clean_not_Nil: "path_clean p \<noteq> ''''"
proof (cases "has_prefix p ''/'' \<or> p = ''''")
  case False
  have "kept_ok False (foldl (clean_step (has_prefix p ''/'')) [] (split_on (CHR ''/'') p))"
    using path_elems [of p] False by simp
  then have "''''\<notin> set (clean_elems False (split_on (CHR ''/'') p))"
    using False by (auto simp: clean_elems_def kept_ok_def)
  then have "clean_elems False (split_on (CHR ''/'') p) \<noteq> [] \<Longrightarrow>
      join ''/'' (clean_elems False (split_on (CHR ''/'') p)) \<noteq> ''''"
    by (cases "clean_elems False (split_on (CHR ''/'') p)") (auto simp: join_def)
  then show ?thesis using False by (auto simp: path_clean_def Let_def)
qed (auto simp: path_clean_def Let_def)

lemma path_join_not_Nil: "e \<noteq> '''' \<Longrightarrow> path_join (es @ [e]) \<noteq> ''''"
  by (simp add: path_join_def path_clean_not_Nil Let_def)

lemma compilePorts_from_ok:
  "compilePorts_from base i ps = (out, errs) \<Longrightarrow> list_all port_ok out \<and>
     (errs = [] \<longleftrightarrow> (\<forall>p \<in> set ps. \<exists>b. ParsePort p = Inr b))"
proof (induction ps arbitrary: i out errs)
  case (Cons p ps)
  obtain o1 e1 where r: "compilePorts_from base (i + 1) ps = (o1, e1)" by fastforce
  note IH = Cons.IH [OF r]
  show ?case
  proof (cases "ParsePort p")
    case (Inl m)
    then show ?thesis using Cons.prems r IH by (auto simp: Let_def)
  next
    case (Inr b)
    then obtain v where "loopback_v4 v" "ps_host_ip b = ipv4_string v"
        "1 \<le> ps_host_port b" "ps_host_port b \<le> 65535" "1 \<le> ps_container_port b" "ps_container_port b \<le> 65535"
      by (auto simp: ParsePort_Inr parsePortNumber_Inr)
    then have "port_ok \<lparr>pb_host_ip = ps_host_ip b, pb_host_port = ps_host_port b, pb_container_port = ps_container_port b\<rparr>"
      using ParseIP_ipv4_string [of v] IsLoopback_v4 [of v] by (auto simp: port_ok_def loopback_v4_def)
    then show ?thesis using Cons.prems r IH Inr by (auto simp: Let_def)
  qed
qed simp

lemma compilePorts_ok:
  assumes "compilePorts base ps errs = (out, errs')"
  shows "list_all port_ok out" "errs' = [] \<longleftrightarrow> errs = [] \<and> (\<forall>p \<in> set ps. \<exists>b. ParsePort p = Inr b)"
proof -
  obtain o1 e1 where r: "compilePorts_from base 0 ps = (o1, e1)" by fastforce
  show "list_all port_ok out" "errs' = [] \<longleftrightarrow> errs = [] \<and> (\<forall>p \<in> set ps. \<exists>b. ParsePort p = Inr b)"
    using assms compilePorts_from_ok [OF r] by (auto simp: compilePorts_def r)
qed

lemma compile_services_shape:
  assumes "compile_services inp names errs = (cs, vols, errs')"
  shows "list_all2 (\<lambda>name c. \<exists>ports. list_all port_ok ports \<and> c = service_container inp name ports) names cs"
    "errs' = [] \<longleftrightarrow> errs = [] \<and>
       (\<forall>name \<in> set names. \<forall>p \<in> set (sc_ports (service_at (ci_manifest inp) name)). \<exists>b. ParsePort p = Inr b)"
proof -
  have "list_all2 (\<lambda>name c. \<exists>ports. list_all port_ok ports \<and> c = service_container inp name ports) names cs \<and>
      (errs' = [] \<longleftrightarrow> errs = [] \<and>
       (\<forall>name \<in> set names. \<forall>p \<in> set (sc_ports (service_at (ci_manifest inp) name)). \<exists>b. ParsePort p = Inr b))"
    using assms
  proof (induction names arbitrary: errs cs vols errs')
    case (Cons name names)
    let ?svc = "service_at (ci_manifest inp) name"
    obtain ports errs1 where p: "compilePorts (''services.'' @ name @ ''.ports'') (sc_ports ?svc) errs = (ports, errs1)"
      by fastforce
    obtain cs1 vols1 errs2 where r: "compile_services inp names errs1 = (cs1, vols1, errs2)" by (metis prod_cases3)
    have c: "cs = service_container inp name ports # cs1" "errs' = errs2"
      using Cons.prems p r by (auto simp: Let_def)
    show ?case using Cons.IH [OF r] compilePorts_ok [OF p] by (auto simp: c)
  qed auto
  then show "list_all2 (\<lambda>name c. \<exists>ports. list_all port_ok ports \<and> c = service_container inp name ports) names cs"
    "errs' = [] \<longleftrightarrow> errs = [] \<and>
       (\<forall>name \<in> set names. \<forall>p \<in> set (sc_ports (service_at (ci_manifest inp) name)). \<exists>b. ParsePort p = Inr b)"
    by blast+
qed

lemma import_mounts_shape:
  assumes "import_mounts inp i imps = (ms, errs)"
  shows "errs = [] \<longleftrightarrow> (\<forall>imp \<in> set imps. reservedTargetFor (im_target imp) = '''')"
    "errs = [] \<Longrightarrow> map mo_target ms = map im_target imps"
    "errs = [] \<Longrightarrow> map mo_read_only ms = map im_readonly imps"
    "m \<in> set ms \<Longrightarrow> mo_kind m = BindMount \<and> mo_source m \<noteq> '''' \<and> reservedTargetFor (mo_target m) = ''''"
proof -
  have src: "path_join [ci_snapshot_path inp, SnapshotImportDir, itoa k] \<noteq> ''''" for k
    using path_join_not_Nil [of "itoa k" "[ci_snapshot_path inp, SnapshotImportDir]"] by simp
  have "(errs = [] \<longleftrightarrow> (\<forall>imp \<in> set imps. reservedTargetFor (im_target imp) = '''')) \<and>
      (errs = [] \<longrightarrow> map mo_target ms = map im_target imps \<and> map mo_read_only ms = map im_readonly imps) \<and>
      (\<forall>m \<in> set ms. mo_kind m = BindMount \<and> mo_source m \<noteq> '''' \<and> reservedTargetFor (mo_target m) = '''')"
    using assms
  proof (induction imps arbitrary: i ms errs)
    case (Cons imp imps)
    obtain ms1 errs1 where r: "import_mounts inp (i + 1) imps = (ms1, errs1)" by fastforce
    show ?case using Cons.prems Cons.IH [OF r] r src by (auto simp: Let_def split: if_splits)
  qed auto
  then show "errs = [] \<longleftrightarrow> (\<forall>imp \<in> set imps. reservedTargetFor (im_target imp) = '''')"
    "errs = [] \<Longrightarrow> map mo_target ms = map im_target imps"
    "errs = [] \<Longrightarrow> map mo_read_only ms = map im_readonly imps"
    "m \<in> set ms \<Longrightarrow> mo_kind m = BindMount \<and> mo_source m \<noteq> '''' \<and> reservedTargetFor (mo_target m) = ''''"
    by auto
qed

definition dns_services :: "compile_input \<Rightarrow> container list" where
  "dns_services inp =
     (if EgressDNSEnabled (ci_manifest inp) (ci_dns_conf inp) then [dns_container inp] else [])"

text \<open>The manifest's ports all parse; validation has checked this already.\<close>

definition ports_parse :: "manifest \<Rightarrow> bool" where
  "ports_parse m \<longleftrightarrow>
     (\<forall>p \<in> set (m_ports m). \<exists>b. ParsePort p = Inr b) \<and>
     (\<forall>name \<in> set (ServiceNames m). \<forall>p \<in> set (sc_ports (service_at m name)). \<exists>b. ParsePort p = Inr b)"

lemma compile_planE:
  assumes "compile_plan inp = (p, errs)"
  obtains imps ports svcs where
    "p_dev p = dev_container inp imps ports" "p_services p = dns_services inp @ svcs"
    "p_format p = PlanFormat" "p_project_id p = ci_project_id inp" "p_project_root p = ci_root inp"
    "p_canonical_hash p = zero_digest" "list_all port_ok ports"
    "list_all2 (\<lambda>name c. \<exists>ports. list_all port_ok ports \<and> c = service_container inp name ports)
       (ServiceNames (ci_manifest inp)) svcs"
    "\<forall>m \<in> set imps. mo_kind m = BindMount \<and> mo_source m \<noteq> '''' \<and> reservedTargetFor (mo_target m) = ''''"
    "errs = [] \<longleftrightarrow> ports_parse (ci_manifest inp) \<and>
       (\<forall>imp \<in> set (m_imports (ci_manifest inp)). reservedTargetFor (im_target imp) = '''')"
    "errs = [] \<longrightarrow> map mo_target imps = map im_target (m_imports (ci_manifest inp)) \<and>
       map mo_read_only imps = map im_readonly (m_imports (ci_manifest inp))"
proof -
  obtain imps e0 where i: "import_mounts inp 0 (m_imports (ci_manifest inp)) = (imps, e0)" by fastforce
  obtain ports e1 where q: "compilePorts ''runtime.ports'' (m_ports (ci_manifest inp)) e0 = (ports, e1)" by fastforce
  obtain svcs vols e2 where s: "compile_services inp (ServiceNames (ci_manifest inp)) e1 = (svcs, vols, e2)"
    by (metis prod_cases3)
  have p: "p_dev p = dev_container inp imps ports" "p_services p = dns_services inp @ svcs"
    "p_format p = PlanFormat" "p_project_id p = ci_project_id inp" "p_project_root p = ci_root inp"
    "p_canonical_hash p = zero_digest" "errs = e2"
    using assms i q s by (auto simp: compile_plan_def Let_def dns_services_def)
  have e: "errs = [] \<longleftrightarrow> e0 = [] \<and> ports_parse (ci_manifest inp)"
    using compilePorts_ok(2) [OF q] compile_services_shape(2) [OF s] p(7) by (auto simp: ports_parse_def)
  show ?thesis
  proof (rule that [OF p(1-6)])
    show "list_all port_ok ports" by (rule compilePorts_ok(1) [OF q])
    show "list_all2 (\<lambda>name c. \<exists>ports. list_all port_ok ports \<and> c = service_container inp name ports)
       (ServiceNames (ci_manifest inp)) svcs" by (rule compile_services_shape(1) [OF s])
    show "\<forall>m \<in> set imps. mo_kind m = BindMount \<and> mo_source m \<noteq> '''' \<and> reservedTargetFor (mo_target m) = ''''"
      using import_mounts_shape(4) [OF i] by blast
    show "errs = [] \<longleftrightarrow> ports_parse (ci_manifest inp) \<and>
       (\<forall>imp \<in> set (m_imports (ci_manifest inp)). reservedTargetFor (im_target imp) = '''')"
      using e import_mounts_shape(1) [OF i] by blast
    show "errs = [] \<longrightarrow> map mo_target imps = map im_target (m_imports (ci_manifest inp)) \<and>
       map mo_read_only imps = map im_readonly (m_imports (ci_manifest inp))"
      using e import_mounts_shape(2,3) [OF i] by blast
  qed
qed

lemma Compile_Inr:
  "Compile marshal sha inp = Inr p \<longleftrightarrow>
     (\<exists>q h. compile_plan inp = (q, []) \<and> plan_safe q \<and> Hash marshal sha q = Inr h \<and>
        p = q\<lparr>p_canonical_hash := h\<rparr>)"
  by (auto simp: Compile_def Validate_Nil [symmetric] Let_def split: prod.splits sum.splits)

text \<open>The services of a plan: the resolver, and one container for each service of the manifest.\<close>

lemma services_cases:
  assumes "list_all2 (\<lambda>name c. \<exists>ports. list_all port_ok ports \<and> c = service_container inp name ports) names svcs"
    and "c \<in> set (dns_services inp @ svcs)"
  obtains "c = dns_container inp" "EgressDNSEnabled (ci_manifest inp) (ci_dns_conf inp)"
  | name ports where "name \<in> set names" "list_all port_ok ports" "c = service_container inp name ports"
proof (cases "c \<in> set svcs")
  case True
  then obtain i where i: "i < length svcs" "c = svcs ! i" by (auto simp: in_set_conv_nth)
  with assms(1) obtain ports where "list_all port_ok ports" "c = service_container inp (names ! i) ports"
    by (auto simp: list_all2_conv_all_nth)
  moreover have "names ! i \<in> set names" using i assms(1) by (simp add: list_all2_lengthD)
  ultimately show ?thesis by (rule that(2) [rotated])
next
  case False
  with assms(2) that(1) show ?thesis by (auto simp: dns_services_def split: if_splits)
qed

lemma services_names:
  "list_all2 (\<lambda>name c. \<exists>ports. list_all port_ok ports \<and> c = service_container inp name ports) names svcs \<Longrightarrow>
     map c_name svcs = map (SidecarContainerName (ci_project_id inp)) names"
  by (induction rule: list_all2_induct) (auto simp: service_container_def Let_def)

lemma dns_services_names:
  "map c_name (dns_services inp) =
     (if EgressDNSEnabled (ci_manifest inp) (ci_dns_conf inp)
      then [SidecarContainerName (ci_project_id inp) DNSServiceName] else [])"
  by (simp add: dns_services_def dns_container_def Let_def)

lemma plan_names_distinct:
  assumes "list_all2 (\<lambda>name c. \<exists>ports. list_all port_ok ports \<and> c = service_container inp name ports)
       (ServiceNames (ci_manifest inp)) svcs"
    and "DNSServiceName \<notin> set (ServiceNames (ci_manifest inp))"
  shows "distinct (map c_name (dev_container inp imps ports # dns_services inp @ svcs))"
proof -
  have "inj (SidecarContainerName (ci_project_id inp))" by (auto simp: inj_on_def SidecarContainerName_inj)
  then have "distinct (map (SidecarContainerName (ci_project_id inp)) (ServiceNames (ci_manifest inp)))"
    using ServiceNames_distinct by (simp add: distinct_map inj_on_def)
  moreover have "set (map c_name svcs) = SidecarContainerName (ci_project_id inp) ` set (ServiceNames (ci_manifest inp))"
    using services_names [OF assms(1)] by (metis set_map)
  moreover have "c_name (dev_container inp imps ports) = DevContainerName (ci_project_id inp)"
    by (simp add: dev_container_def Let_def)
  ultimately show ?thesis
    using services_names [OF assms(1)] assms(2) Dev_not_Sidecar [of "ci_project_id inp"]
    by (auto simp: dns_services_names SidecarContainerName_inj simp del: set_map)
qed

lemma reservedTargetFor_Nil: "reservedTargetFor t = '''' \<longleftrightarrow> (\<forall>r \<in> set ReservedTargets. \<not> overlaps t r)"
proof -
  have "'''' \<notin> set ReservedTargets"
    by (simp add: ReservedTargets_def WorkspaceTarget_def PayloadTarget_def AgentStateTarget_def
        ResultsTarget_def RuntimeDirTarget_def DNSConfTarget_def)
  then show ?thesis
    unfolding reservedTargetFor_def overlaps_def [symmetric]
    by (auto simp: find_None_iff split: option.splits dest: find_SomeD)
qed

lemma apart_append:
  "apart (ts @ us) \<longleftrightarrow> apart ts \<and> apart us \<and> (\<forall>t \<in> set ts. \<forall>u \<in> set us. \<not> overlaps u t)"
  by (simp add: apart_def sorted_wrt_append)

lemmas target_defs = WorkspaceTarget_def PayloadTarget_def AgentStateTarget_def ResultsTarget_def
  RuntimeDirTarget_def DNSConfTarget_def

lemma reserved_plain: "list_all plain_target ReservedTargets"
  unfolding plain_target_iff [abs_def] by code_simp

lemma reserved_apart: "apart ReservedTargets"
  by (simp add: apart_def ReservedTargets_def target_defs overlaps_def has_prefix_def)

lemma engine_targets: "set (map mo_target (engine_mounts inp)) \<subseteq> set ReservedTargets"
  by (auto simp: engine_mounts_def ReservedTargets_def Let_def)

lemma engine_apart: "apart (map mo_target (engine_mounts inp))"
  using reserved_apart by (auto simp: engine_mounts_def ReservedTargets_def Let_def apart_def overlaps_def)

lemma PayloadPath_not_Nil: "PayloadPath a \<noteq> ''''"
  using path_join_not_Nil [of "''payload''" "[ar_path a]"] by (simp add: PayloadPath_def)

lemma engine_mounts_ok:
  assumes "has_prefix (ci_root inp) ''/''"
  shows "list_all mount_ok (engine_mounts inp)"
proof -
  have "list_all plain_target (map mo_target (engine_mounts inp))"
    using engine_targets [of inp] reserved_plain by (auto simp: list_all_iff)
  moreover have "ci_root inp \<noteq> ''''" using assms by (auto simp: has_prefix_def)
  ultimately show ?thesis
    using PayloadPath_not_Nil
    by (auto simp: engine_mounts_def mount_ok_def Let_def AgentStateVolumeName_def namePrefix_def)
qed

lemma devImage_ref: "m_base (ci_manifest inp) \<noteq> '''' \<Longrightarrow> im_ref (devImage inp) \<noteq> ''''"
  by (simp add: devImage_def resolve_def Let_def ExtensionImageRef_def ToolsImageRef_def namePrefix_def)

lemma dev_container_ok:
  assumes "has_prefix (ci_root inp) ''/''" "m_base (ci_manifest inp) \<noteq> ''''" "list_all port_ok ports"
    and "\<forall>m \<in> set imps. mo_kind m = BindMount \<and> mo_source m \<noteq> '''' \<and> reservedTargetFor (mo_target m) = '''' \<and>
      mo_read_only m \<and> plain_target (mo_target m)"
  shows "container_ok pid (dev_container inp imps ports) \<longleftrightarrow> apart (map mo_target imps)"
proof -
  have "\<not> overlaps u t" if "t \<in> set (map mo_target (engine_mounts inp))" "u \<in> set (map mo_target imps)" for t u
    using that engine_targets [of inp] assms(4) by (auto simp: reservedTargetFor_Nil)
  moreover have "list_all mount_ok imps" using assms(4) by (auto simp: list_all_iff mount_ok_def)
  ultimately show ?thesis
    using engine_mounts_ok [OF assms(1)] engine_apart [of inp] devImage_ref [OF assms(2)] assms(3)
    by (auto simp: container_ok_def dev_container_def Let_def defaultPolicy_def log_ok_def apart_append
        DevContainerName_def namePrefix_def)
qed

lemma service_container_ok:
  assumes "service_ok name (service_at (ci_manifest inp) name)" "list_all port_ok ports"
  shows "container_ok pid (service_container inp name ports) \<longleftrightarrow>
    apart (map vr_target (sc_volumes (service_at (ci_manifest inp) name)))"
proof -
  have "list_all mount_ok (service_mounts (ci_project_id inp) (service_at (ci_manifest inp) name))"
    using assms(1) by (auto simp: list_all_iff service_mounts_def mount_ok_def service_ok_def ServiceVolumeName_def namePrefix_def)
  then show ?thesis
    using assms by (simp add: container_ok_def service_container_def Let_def defaultPolicy_def log_ok_def service_ok_def
        SidecarContainerName_def namePrefix_def resolve_def service_mounts_def comp_def)
qed

lemma dns_container_ok: "container_ok (ci_project_id inp) (dns_container inp)"
proof -
  have "plain_target DNSConfTarget" using reserved_plain by (simp add: ReservedTargets_def)
  moreover have "path_join [PayloadPath (ci_artifact inp), PayloadDNSDir] \<noteq> ''''"
    using path_join_not_Nil [of PayloadDNSDir "[PayloadPath (ci_artifact inp)]"] by (simp add: PayloadDNSDir_def)
  moreover have "rx_match logMaxSizeRe ''10m''" by code_simp
  ultimately show ?thesis
    by (simp add: container_ok_def dns_container_def Let_def defaultPolicy_def log_ok_def mount_ok_def
        SidecarContainerName_def namePrefix_def resolve_def CoreDNSImageRef_def apart_def)
qed

section \<open>When compilation succeeds\<close>

lemma ports_parse_ok: "manifest_ok m \<Longrightarrow> ports_parse m"
  by (auto simp: manifest_ok_def ports_parse_def ServiceNames_lookup service_at_def service_ok_def)

lemma service_at_ok: "manifest_ok m \<Longrightarrow> name \<in> set (ServiceNames m) \<Longrightarrow> service_ok name (service_at m name)"
  by (auto simp: manifest_ok_def ServiceNames_lookup service_at_def)

text \<open>The remaining reasons to refuse a valid manifest: mount targets that would cover each other.\<close>

definition targets_apart :: "manifest \<Rightarrow> bool" where
  "targets_apart m \<longleftrightarrow>
     (\<forall>imp \<in> set (m_imports m). reservedTargetFor (im_target imp) = '''') \<and>
     apart (map im_target (m_imports m)) \<and>
     (\<forall>name \<in> set (ServiceNames m). apart (map vr_target (sc_volumes (service_at m name))))"

lemma compile_plan_safe:
  assumes m: "manifest_ok (ci_manifest inp)" and i: "ci_project_id inp \<noteq> ''''" and r: "has_prefix (ci_root inp) ''/''"
  shows "(\<exists>p. compile_plan inp = (p, []) \<and> plan_safe p) \<longleftrightarrow> targets_apart (ci_manifest inp)"
proof -
  obtain p errs where c: "compile_plan inp = (p, errs)" by fastforce
  obtain imps ports svcs where s:
    "p_dev p = dev_container inp imps ports" "p_services p = dns_services inp @ svcs"
    "p_format p = PlanFormat" "p_project_id p = ci_project_id inp" "p_project_root p = ci_root inp"
    "p_canonical_hash p = zero_digest" "list_all port_ok ports"
    "list_all2 (\<lambda>name c. \<exists>ports. list_all port_ok ports \<and> c = service_container inp name ports)
       (ServiceNames (ci_manifest inp)) svcs"
    "\<forall>m \<in> set imps. mo_kind m = BindMount \<and> mo_source m \<noteq> '''' \<and> reservedTargetFor (mo_target m) = ''''"
    "errs = [] \<longleftrightarrow> ports_parse (ci_manifest inp) \<and>
       (\<forall>imp \<in> set (m_imports (ci_manifest inp)). reservedTargetFor (im_target imp) = '''')"
    "errs = [] \<longrightarrow> map mo_target imps = map im_target (m_imports (ci_manifest inp)) \<and>
       map mo_read_only imps = map im_readonly (m_imports (ci_manifest inp))"
    by (rule compile_planE [OF c])
  have e: "errs = [] \<longleftrightarrow> (\<forall>imp \<in> set (m_imports (ci_manifest inp)). reservedTargetFor (im_target imp) = '''')"
    using s(10) ports_parse_ok [OF m] by simp
  have "plan_safe p \<longleftrightarrow> apart (map im_target (m_imports (ci_manifest inp))) \<and>
      (\<forall>name \<in> set (ServiceNames (ci_manifest inp)). apart (map vr_target (sc_volumes (service_at (ci_manifest inp) name))))"
    if "errs = []"
  proof -
    have t: "map mo_target imps = map im_target (m_imports (ci_manifest inp))"
      "map mo_read_only imps = map im_readonly (m_imports (ci_manifest inp))" using s(11) that by auto
    have "mo_read_only m \<and> plain_target (mo_target m)" if m': "m \<in> set imps" for m
    proof -
      obtain k where k: "k < length imps" "m = imps ! k" using m' by (auto simp: in_set_conv_nth)
      have l: "length imps = length (m_imports (ci_manifest inp))" using t(1) by (metis length_map)
      with k t have "mo_target m = im_target (m_imports (ci_manifest inp) ! k)"
          "mo_read_only m = im_readonly (m_imports (ci_manifest inp) ! k)" by (metis nth_map)+
      moreover have "import_ok (m_imports (ci_manifest inp) ! k)"
        using m k l by (auto simp: manifest_ok_def list_all_length)
      ultimately show ?thesis by (simp add: import_ok_def)
    qed
    then have dev: "container_ok (ci_project_id inp) (dev_container inp imps ports) \<longleftrightarrow>
        apart (map im_target (m_imports (ci_manifest inp)))"
      using dev_container_ok [of inp ports imps "ci_project_id inp"] r m s(7,9) t(1) by (auto simp: manifest_ok_def)
    have no_dns: "DNSServiceName \<notin> set (ServiceNames (ci_manifest inp))"
      using service_at_ok [OF m] by (auto simp: service_ok_def reservedServiceNames_def DNSServiceName_def)
    have svc: "list_all (container_ok (ci_project_id inp)) svcs \<longleftrightarrow>
        (\<forall>name \<in> set (ServiceNames (ci_manifest inp)). apart (map vr_target (sc_volumes (service_at (ci_manifest inp) name))))"
    proof -
      have "list_all2 (\<lambda>name c. container_ok (ci_project_id inp) c \<longleftrightarrow>
          apart (map vr_target (sc_volumes (service_at (ci_manifest inp) name)))) (ServiceNames (ci_manifest inp)) svcs"
        by (rule list.rel_mono_strong [OF s(8)]) (auto simp: service_container_ok service_at_ok [OF m])
      then show ?thesis by (fastforce simp: list_all2_conv_all_nth list_all_length in_set_conv_nth)
    qed
    have "c_dns_from_service c = ''''" if "c \<in> set (p_services p)" for c
      using that unfolding s(2)
      by (rule services_cases [OF s(8)]) (simp_all add: dns_container_def service_container_def Let_def)
    moreover have "c_dns_from_service (p_dev p) = '''' \<or>
        SidecarContainerName (p_project_id p) (c_dns_from_service (p_dev p)) \<in> c_name ` set (p_services p)"
      using s(1,2,4) by (simp add: dev_container_def dns_container_def dns_services_def Let_def)
    ultimately have "\<forall>c \<in> set (p_dev p # p_services p). c_dns_from_service c = '''' \<or>
        SidecarContainerName (p_project_id p) (c_dns_from_service c) \<in> c_name ` set (p_dev p # p_services p)"
      by auto
    then show ?thesis
      using s(1-5) i r dev svc plan_names_distinct [OF s(8) no_dns, of imps ports] dns_container_ok [of inp]
      by (auto simp: plan_safe_def list_all_iff dns_services_def split: if_splits)
  qed
  with c e show ?thesis by (auto simp: targets_apart_def)
qed

section \<open>Properties\<close>

text \<open>
  The last gate before a plan is persisted: validation reports nothing exactly for the safe
  plans. In a safe plan every container is closed (no capabilities but the resolver's
  NET_BIND_SERVICE, no new privileges), a writable bind is mounted at the workspace only, mount
  targets are normalised absolute paths, and every port is a loopback port.
\<close>

theorem Validate_exact_plan:
  "Validate p = [] \<longleftrightarrow> plan_safe p"
  by (rule Validate_Nil)

text \<open>
  C33. No mount of a validated container hides another: of two mount targets neither lies on the
  path of the other.
\<close>

theorem Validate_mounts_apart:
  assumes "Validate p = []" "c \<in> set (p_dev p # p_services p)" "i < j" "j < length (c_mounts c)"
  shows "\<not> prefix (elems (mo_target (c_mounts c ! i))) (elems (mo_target (c_mounts c ! j))) \<and>
    \<not> prefix (elems (mo_target (c_mounts c ! j))) (elems (mo_target (c_mounts c ! i)))"
proof -
  from assms(1,2) have c: "container_ok (p_project_id p) c" by (auto simp: Validate_Nil plan_safe_def list_all_iff)
  then have "\<not> overlaps (mo_target (c_mounts c ! j)) (mo_target (c_mounts c ! i))"
    using assms(3,4) sorted_wrt_nth_less [of _ "map mo_target (c_mounts c)" i j]
    by (auto simp: container_ok_def apart_def)
  moreover have "plain_target (mo_target (c_mounts c ! k))" if "k < length (c_mounts c)" for k
    using c that by (auto simp: container_ok_def list_all_length mount_ok_def)
  ultimately show ?thesis using assms(3,4) by (auto simp: overlaps_elems)
qed

text \<open>
  C32. A valid manifest compiles exactly when no mount target of a container would cover another:
  no import at an engine-owned target, imports apart from each other, and the volumes of each
  sidecar apart. Nothing else about a valid manifest makes compilation fail.
\<close>

theorem Compile_exact:
  assumes "manifest_ok (ci_manifest inp)" "ci_project_id inp \<noteq> ''''" "has_prefix (ci_root inp) ''/''"
    and "\<And>p. \<exists>data. marshal p = Inr data"
  shows "(\<exists>p. Compile marshal sha inp = Inr p) \<longleftrightarrow> targets_apart (ci_manifest inp)"
proof -
  have "\<exists>h. Hash marshal sha p = Inr h" for p
    using assms(4) [of "p\<lparr>p_canonical_hash := zero_digest\<rparr>"] by (auto simp: Hash_def CanonicalJSON_def)
  then have "(\<exists>p. Compile marshal sha inp = Inr p) \<longleftrightarrow> (\<exists>p. compile_plan inp = (p, []) \<and> plan_safe p)"
    by (auto simp: Compile_Inr)
  with compile_plan_safe [OF assms(1-3)] show ?thesis by simp
qed

text \<open>
  C28. What a compiled plan gives a container of the host: the only writable host directory is the
  project root, mounted at the workspace of the dev container; NET_BIND_SERVICE goes to the
  resolver alone; every container has all capabilities dropped and no new privileges.
\<close>

theorem Compile_confines_host:
  assumes "Compile marshal sha inp = Inr p" "c \<in> set (p_dev p # p_services p)"
  shows "po_drop_all_capabilities (c_policy c) \<and> po_no_new_privileges (c_policy c) \<and>
    (po_net_bind_service (c_policy c) \<longrightarrow> c = dns_container inp) \<and>
    (\<forall>m \<in> set (c_mounts c). mo_kind m = BindMount \<and> \<not> mo_read_only m \<longrightarrow>
       c = p_dev p \<and> mo_source m = ci_root inp \<and> mo_target m = WorkspaceTarget)"
proof -
  obtain q h where q: "compile_plan inp = (q, [])" "plan_safe q" "p = q\<lparr>p_canonical_hash := h\<rparr>"
    using assms(1) by (auto simp: Compile_Inr)
  obtain imps ports svcs where s: "p_dev q = dev_container inp imps ports" "p_services q = dns_services inp @ svcs"
    "list_all2 (\<lambda>name c. \<exists>ports. list_all port_ok ports \<and> c = service_container inp name ports)
       (ServiceNames (ci_manifest inp)) svcs"
    "\<forall>m \<in> set imps. mo_kind m = BindMount \<and> mo_source m \<noteq> '''' \<and> reservedTargetFor (mo_target m) = ''''"
    by (rule compile_planE [OF q(1)]) blast
  have c: "container_ok (p_project_id q) c" using q assms(2) by (auto simp: plan_safe_def list_all_iff)
  then have pol: "po_drop_all_capabilities (c_policy c)" "po_no_new_privileges (c_policy c)" "list_all mount_ok (c_mounts c)"
    by (auto simp: container_ok_def)
  have imps: "reservedTargetFor WorkspaceTarget \<noteq> ''''"
    by (simp add: reservedTargetFor_Nil ReservedTargets_def overlaps_def)
  show ?thesis
  proof (cases "c = p_dev p")
    case True
    then have "mo_source m = ci_root inp" if "m \<in> set (c_mounts c)" "mo_kind m = BindMount" "\<not> mo_read_only m" for m
    proof -
      have "mo_target m = WorkspaceTarget" using pol(3) that by (auto simp: list_all_iff mount_ok_def)
      then have "m \<notin> set imps" using s(4) imps by auto
      then have "m \<in> set (engine_mounts inp)" using that(1) True q(3) s(1) by (simp add: dev_container_def Let_def)
      with that show ?thesis by (auto simp: engine_mounts_def Let_def split: if_splits)
    qed
    moreover have "\<not> po_net_bind_service (c_policy c)"
      using True q(3) s(1) by (simp add: dev_container_def Let_def defaultPolicy_def)
    ultimately show ?thesis using pol True by (auto simp: list_all_iff mount_ok_def)
  next
    case False
    then have "c \<in> set (dns_services inp @ svcs)" using assms(2) q(3) s(2) by auto
    then show ?thesis
    proof (rule services_cases [OF s(3)])
      assume "c = dns_container inp"
      then show ?thesis using pol by (simp add: dns_container_def Let_def)
    next
      fix name ports
      assume "c = service_container inp name ports"
      then show ?thesis using pol
        by (auto simp: service_container_def service_mounts_def defaultPolicy_def Let_def)
    qed
  qed
qed

text \<open>Reading an environment list: a later entry replaces an earlier one of the same key.\<close>

definition env_lookup :: "env_var list \<Rightarrow> string \<Rightarrow> string option" where
  "env_lookup env k = map_option ev_value (List.find (\<lambda>e. ev_key e = k) (rev env))"

lemma env_lookup_append:
  "env_lookup (xs @ ys) k = (case env_lookup ys k of Some v \<Rightarrow> Some v | None \<Rightarrow> env_lookup xs k)"
proof -
  have "List.find P (as @ bs) = (case List.find P as of Some x \<Rightarrow> Some x | None \<Rightarrow> List.find P bs)" for P and as bs :: "env_var list"
    by (induction as) auto
  then show ?thesis by (simp add: env_lookup_def split: option.splits)
qed

lemma env_lookup_Cons:
  "env_lookup (e # env) k =
     (case env_lookup env k of Some v \<Rightarrow> Some v | None \<Rightarrow> if ev_key e = k then Some (ev_value e) else None)"
  using env_lookup_append [of "[e]" env k] by (auto simp: env_lookup_def split: option.splits)

lemma env_lookup_Nil: "env_lookup [] k = None"
  by (simp add: env_lookup_def)

lemma env_lookup_agents:
  "k \<notin> {''CLAUDE_CONFIG_DIR'', ''DISABLE_AUTOUPDATER'', ''CODEX_HOME''} \<Longrightarrow>
     env_lookup (concat (map agent_env as)) k = None"
proof (induction as)
  case (Cons a as)
  then have "env_lookup (agent_env a) k = None" by (auto simp: env_lookup_def agent_env_def)
  with Cons show ?case by (simp add: env_lookup_append)
qed (simp add: env_lookup_def)

text \<open>
  The engine's environment entries come last in the dev container's list, so that whatever the
  manifest sets, these keys have the engine's values.
\<close>

theorem Compile_engine_env:
  assumes "Compile marshal sha inp = Inr p"
  shows "env_lookup (c_environment (p_dev p)) ''XDG_RUNTIME_DIR'' = Some RuntimeDirTarget \<and>
    env_lookup (c_environment (p_dev p)) ''GH_CONFIG_DIR'' = Some ''/vibe/agent-state/gh'' \<and>
    (\<not> Artifact_IsZero (ci_artifact inp) \<longrightarrow>
       env_lookup (c_environment (p_dev p)) ''VIBE_PAYLOAD_DIGEST'' =
         Some (Digest_String (ar_payload_digest (ci_artifact inp))))"
proof -
  obtain q h where q: "compile_plan inp = (q, [])" "p = q\<lparr>p_canonical_hash := h\<rparr>"
    using assms by (auto simp: Compile_Inr)
  obtain imps ports where "p_dev q = dev_container inp imps ports"
    by (rule compile_planE [OF q(1)]) blast
  then have e: "c_environment (p_dev p) = dev_environment inp" using q(2) by (simp add: dev_container_def Let_def)
  have "path_join [AgentStateTarget, ''gh''] = ''/vibe/agent-state/gh''"
    unfolding AgentStateTarget_def by code_simp
  then show ?thesis unfolding e
    by (simp add: dev_environment_def Let_def env_lookup_append env_lookup_Cons env_lookup_Nil env_lookup_agents)
qed


section \<open>Witnesses\<close>

definition demo_input :: compile_input where
  "demo_input = \<lparr>ci_project_id = replicate 26 (CHR ''a''), ci_root = ''/src'', ci_display_name = ''demo'',
     ci_artifact = \<lparr>ar_digest = zero_digest, ar_version = '''', ar_payload_digest = zero_digest, ar_path = ''/store/a''\<rparr>,
     ci_manifest = demo_manifest, ci_snapshot = zero_digest, ci_snapshot_path = ''/store/s'',
     ci_image_digests = Map.empty, ci_broker_results_dir = ''/state/results'', ci_dns_conf = True\<rparr>"

definition demo_marshal :: "plan \<Rightarrow> string + string" where
  "demo_marshal p = Inr ''{}''"

definition demo_sha :: "string \<Rightarrow> string" where
  "demo_sha b = replicate 64 (CHR ''0'')"

lemma demo_manifest_ok: "manifest_ok demo_manifest"
proof -
  have "rx_match imageRefRe ''a''" by code_simp
  moreover have "ParsePort ''127.0.0.1:80:80'' =
      Inr \<lparr>ps_host_ip = ''127.0.0.1'', ps_host_port = 80, ps_container_port = 80\<rparr>" by code_simp
  moreover have "relPath Map.empty '''' ''data/in'' = []" by code_simp
  moreover have "plain_target ''/data''" unfolding plain_target_iff by code_simp
  ultimately show ?thesis
    by (simp add: manifest_ok_def demo_manifest_def import_ok_def relPath_Nil)
qed

lemma demo_targets_apart: "targets_apart demo_manifest"
proof -
  have "reservedTargetFor ''/data'' = ''''" by code_simp
  then show ?thesis
    by (simp add: targets_apart_def demo_manifest_def ServiceNames_def sorted_list_of_fset_def apart_def)
qed

theorem Compile_exact_witness:
  "\<exists>p. Compile demo_marshal demo_sha demo_input = Inr p"
  using Compile_exact [of demo_input demo_marshal demo_sha] demo_manifest_ok demo_targets_apart
  by (simp add: demo_input_def demo_marshal_def has_prefix_def)

lemma demo_compiles:
  obtains p where "Compile demo_marshal demo_sha demo_input = Inr p"
proof -
  obtain p where "compile_plan demo_input = (p, [])" "plan_safe p"
    using compile_plan_safe [of demo_input] demo_manifest_ok demo_targets_apart
    by (auto simp: demo_input_def has_prefix_def)
  then have "Compile demo_marshal demo_sha demo_input =
      Inr (p\<lparr>p_canonical_hash := SHA256 demo_sha (''{}'' @ [CHR 0x0A])\<rparr>)"
    by (auto simp: Compile_Inr Hash_def CanonicalJSON_def demo_marshal_def)
  then show ?thesis by (rule that)
qed

lemma Compile_validates: "Compile marshal sha inp = Inr p \<Longrightarrow> Validate p = []"
  by (auto simp: Compile_Inr Validate_Nil plan_safe_def)

lemma Compile_dev_mounts:
  assumes "Compile marshal sha inp = Inr p"
  shows "3 \<le> length (c_mounts (p_dev p))"
proof -
  obtain q h where q: "compile_plan inp = (q, [])" "p = q\<lparr>p_canonical_hash := h\<rparr>"
    using assms by (auto simp: Compile_Inr)
  obtain imps ports where "p_dev q = dev_container inp imps ports"
    by (rule compile_planE [OF q(1)]) blast
  then show ?thesis using q(2) by (simp add: dev_container_def engine_mounts_def Let_def)
qed

theorem Validate_mounts_apart_witness:
  "\<exists>p. Compile demo_marshal demo_sha demo_input = Inr p \<and>
     \<not> prefix (elems (mo_target (c_mounts (p_dev p) ! 0))) (elems (mo_target (c_mounts (p_dev p) ! 1)))"
proof -
  obtain p where p: "Compile demo_marshal demo_sha demo_input = Inr p" by (rule demo_compiles)
  then have "Validate p = []" "1 < length (c_mounts (p_dev p))"
    using Compile_validates Compile_dev_mounts [OF p] by auto
  with p Validate_mounts_apart [of p "p_dev p" 0 1] show ?thesis by auto
qed

theorem Compile_confines_host_witness:
  "\<exists>p. Compile demo_marshal demo_sha demo_input = Inr p \<and>
     (\<forall>m \<in> set (c_mounts (p_dev p)). mo_kind m = BindMount \<and> \<not> mo_read_only m \<longrightarrow> mo_source m = ''/src'')"
proof -
  obtain p where p: "Compile demo_marshal demo_sha demo_input = Inr p" by (rule demo_compiles)
  with Compile_confines_host [OF p, of "p_dev p"] show ?thesis by (auto simp: demo_input_def)
qed

theorem Compile_engine_env_witness:
  "\<exists>p. Compile demo_marshal demo_sha demo_input = Inr p \<and>
     env_lookup (c_environment (p_dev p)) ''XDG_RUNTIME_DIR'' = Some RuntimeDirTarget"
proof -
  obtain p where p: "Compile demo_marshal demo_sha demo_input = Inr p" by (rule demo_compiles)
  with Compile_engine_env [OF p] show ?thesis by blast
qed


end
