(* ===== verification/CompileUp.thy ===== *)
theory CompileUp
  imports Compile UpProperties
begin

text \<open>
  The handoff from the compiler to the runtime: what the transaction theorems assume of a plan
  (\<open>plan_ok\<close>) holds of every plan compiled from a valid manifest.
\<close>

lemma service_name_no_dot:
  assumes "ValidServiceName name"
  shows "CHR ''.'' \<notin> set name"
proof -
  have "rx_over (\<lambda>c. c \<noteq> CHR ''.'') serviceNameRe"
    by (auto simp: serviceNameRe_def in_class_def intro!: rx_over_derived)
  with assms have "list_all (\<lambda>c. c \<noteq> CHR ''.'') name"
    unfolding ValidServiceName_def by (rule rx_match_over)
  then show ?thesis by (auto simp: list_all_iff)
qed

lemma commonLabels_map:
  "c_labels c = commonLabels i role \<Longrightarrow>
     label (plan_labels c) ManagedLabel = ''true'' \<and> label (plan_labels c) ProjectLabel = i"
  by (simp add: plan_labels_def commonLabels_def label_defs map_get_def)

text \<open>
  C27. Every container of a compiled plan has a name of the engine's grammar and carries the labels
  by which the runtime recognises its own containers, names are distinct, and so the compiled
  plan meets the assumption of the transaction theorems on a machine where the project's
  container names, when the engine uses them, are this project's.
\<close>

theorem Compile_plan_ok:
  assumes "ParseProjectID text = Inr (ci_project_id inp)" "manifest_ok (ci_manifest inp)"
    "Compile marshal sha inp = Inr plan"
    "\<forall>c0 \<in> set cs0. cname c0 \<in> names plan \<and> label (clabels c0) ManagedLabel = ''true'' \<longrightarrow>
       label (clabels c0) ProjectLabel = ci_project_id inp"
  shows "plan_ok cs0 plan"
proof -
  obtain q h where q: "compile_plan inp = (q, [])" "plan_safe q" "plan = q\<lparr>p_canonical_hash := h\<rparr>"
    using assms(3) by (auto simp: Compile_Inr)
  obtain imps ports svcs where s: "p_dev q = dev_container inp imps ports" "p_services q = dns_services inp @ svcs"
    "p_project_id q = ci_project_id inp"
    "list_all2 (\<lambda>name c. \<exists>ports. list_all port_ok ports \<and> c = service_container inp name ports)
       (ServiceNames (ci_manifest inp)) svcs"
    by (rule compile_planE [OF q(1)]) blast
  have fit: "c_name c \<noteq> '''' \<and> canonical_name (c_name c) \<and> (\<exists>role. c_labels c = commonLabels (ci_project_id inp) role)"
    if "c \<in> set (p_dev q # p_services q)" for c
  proof -
    have ne: "c_name c \<noteq> ''''" using q(2) that by (auto simp: plan_safe_def container_ok_def list_all_iff)
    show ?thesis
    proof (cases "c = p_dev q")
      case True
      then show ?thesis using ne s(1) DevContainerName_canonical [OF assms(1)] by (auto simp: dev_container_def Let_def)
    next
      case False
      then have "c \<in> set (dns_services inp @ svcs)" using that s(2) by auto
      then show ?thesis
      proof (rule services_cases [OF s(4)])
        assume "c = dns_container inp"
        then show ?thesis using ne SidecarContainerName_canonical [OF assms(1), of DNSServiceName]
          by (auto simp: dns_container_def Let_def DNSServiceName_def)
      next
        fix name ports
        assume c: "name \<in> set (ServiceNames (ci_manifest inp))" "c = service_container inp name ports"
        then have "ValidServiceName name" using service_at_ok [OF assms(2)] by (auto simp: service_ok_def)
        then show ?thesis using ne c(2) SidecarContainerName_canonical [OF assms(1) service_name_no_dot]
          by (auto simp: service_container_def Let_def)
      qed
    qed
  qed
  have "set (desired plan) = set (p_dev q # p_services q)" "distinct (map c_name (desired plan))"
    using q(2,3) by (auto simp: plan_safe_def)
  then show ?thesis
    using fit commonLabels_map assms(4) q(3) s(3)
    by (fastforce simp: plan_ok_def list_all_iff)
qed

theorem Compile_plan_ok_witness:
  "\<exists>p. Compile demo_marshal demo_sha demo_input = Inr p \<and> plan_ok [demo_foreign] p"
proof -
  obtain p where p: "Compile demo_marshal demo_sha demo_input = Inr p" by (rule demo_compiles)
  have "ParseProjectID (replicate 26 (CHR ''a'')) = Inr (replicate 26 (CHR ''a''))"
    by (rule project_id_text.parse_show)
       (simp add: valid_project_id_def is_base32_rune_def projectIDLen_def list_all_iff)
  moreover have "ci_project_id demo_input = replicate 26 (CHR ''a'')" "ci_manifest demo_input = demo_manifest"
    by (simp_all add: demo_input_def)
  ultimately have "plan_ok [demo_foreign] p"
    by (intro Compile_plan_ok [of "replicate 26 (CHR ''a'')" demo_input demo_marshal demo_sha])
       (simp_all add: p demo_manifest_ok demo_foreign_def map_get_def)
  with p show ?thesis by blast
qed

end
