(* ===== verification/Egress.thy ===== *)
theory Egress
  imports Domain Sanitize GoRegexp "HOL-Library.Multiset"
begin

text \<open>
  \<^verbatim>\<open>internal/app/egress.go\<close>: the view of a project's network traffic. It reads two untrusted
  streams, the resolver's query log and the sampler's output, through a bounded buffer, parses
  them line by line and keeps only sanitized fields. The lemmas show what is kept of any input
  and that every line is accounted for.
\<close>

section \<open>The bounded buffer\<close>

record capped_writer =
  cw_buf :: string
  cw_truncated :: bool

definition capped_Write :: "int \<Rightarrow> capped_writer \<Rightarrow> string \<Rightarrow> capped_writer" where
  "capped_Write mx w p =
     (let room = mx - int (length (cw_buf w)) in
      if room > 0
      then (if int (length p) > room
            then \<lparr>cw_buf = cw_buf w @ take (nat room) p, cw_truncated = True\<rparr>
            else w\<lparr>cw_buf := cw_buf w @ p\<rparr>)
      else if length p > 0 then w\<lparr>cw_truncated := True\<rparr> else w)"

definition capped_all :: "int \<Rightarrow> string list \<Rightarrow> capped_writer" where
  "capped_all mx ps = foldl (capped_Write mx) \<lparr>cw_buf = [], cw_truncated = False\<rparr> ps"

definition egressMaxBytes :: int where "egressMaxBytes = 1048576"
definition egressMaxDomains :: int where "egressMaxDomains = 500"
definition egressMaxConns :: int where "egressMaxConns = 512"
definition egressDefaultTail :: int where "egressDefaultTail = 2000"

section \<open>The query log\<close>

text \<open>\<^verbatim>\<open>^[A-Z0-9]{1,10}$\<close>\<close>

definition egressQTypeRe :: regex where
  "egressQTypeRe = rx_between 1 10 (RxClass [(65, 90), (48, 57)])"

record egress_domain =
  ed_name :: string
  ed_queries :: int
  ed_last_type :: string

text \<open>The name and the type of a query line; \<open>None\<close> is a line counted as unparsed.\<close>

definition parse_query :: "(nat \<Rightarrow> nat) \<Rightarrow> string \<Rightarrow> (string \<times> string) option" where
  "parse_query lower_rune line =
     (case index_of line [CHR 0x22] of
        None \<Rightarrow> None
      | Some opn \<Rightarrow>
          if \<not> contains (take opn line) '' - '' then None
          else
            let rest = drop (opn + 1) line in
            case index_of rest [CHR 0x22] of
              None \<Rightarrow> None
            | Some fin \<Rightarrow>
                let fs = split_on (CHR '' '') (take fin rest) in
                if length fs \<noteq> 7 then None
                else
                  let qtype = fs ! 0; qname = fs ! 2 in
                  if \<not> rx_match egressQTypeRe qtype then None
                  else
                    let name = to_lower lower_rune (trim_suffix qname ''.'') in
                    if name = '''' \<or> length name > 253 then None
                    else Some (Line name 253, qtype))"

text \<open>The map of entries, in order of first appearance.\<close>

type_synonym ledger = "(string \<times> int \<times> string) list"

fun ledger_bump :: "string \<Rightarrow> string \<Rightarrow> ledger \<Rightarrow> ledger" where
  "ledger_bump name qtype [] = []"
| "ledger_bump name qtype ((n, q, t) # es) =
     (if n = name then (n, q + 1, qtype) # es else (n, q, t) # ledger_bump name qtype es)"

definition ledger_line ::
    "(nat \<Rightarrow> nat) \<Rightarrow> int \<Rightarrow> ledger \<times> int \<times> bool \<Rightarrow> string \<Rightarrow> ledger \<times> int \<times> bool" where
  "ledger_line lower_rune maxDomains acc line =
     (case acc of (seen, unparsed, truncated) \<Rightarrow>
        if trim_space line = '''' then (seen, unparsed, truncated)
        else (case parse_query lower_rune line of
                None \<Rightarrow> (seen, unparsed + 1, truncated)
              | Some (name, qtype) \<Rightarrow>
                  if name \<in> fst ` set seen then (ledger_bump name qtype seen, unparsed, truncated)
                  else if int (length seen) \<ge> maxDomains then (seen, unparsed, True)
                  else (seen @ [(name, 1, qtype)], unparsed, truncated)))"

text \<open>
  The final sort is by decreasing number of queries and then by name; names are distinct, so
  the iteration order of the map does not matter.
\<close>

definition ledger_domains :: "ledger \<Rightarrow> egress_domain list" where
  "ledger_domains seen =
     sort_key (\<lambda>d. - ed_queries d) (sort_key ed_name
       (map (\<lambda>(n, q, t). \<lparr>ed_name = n, ed_queries = q, ed_last_type = t\<rparr>) seen))"

definition parseCoreDNSLogs :: "(nat \<Rightarrow> nat) \<Rightarrow> string \<Rightarrow> int \<Rightarrow> egress_domain list \<times> int \<times> bool" where
  "parseCoreDNSLogs lower_rune raw maxDomains =
     (case foldl (ledger_line lower_rune maxDomains) ([], 0, False) (split_on (CHR 0x0A) raw) of
        (seen, unparsed, truncated) \<Rightarrow> (ledger_domains seen, unparsed, truncated))"

section \<open>The socket sample\<close>

definition egressSampleFormat :: string where
  "egressSampleFormat = ''egress-sample'' @ [CHR 0x09] @ ''1''"

text \<open>\<^verbatim>\<open>^[0-9a-f.:\[\]]{1,53}$\<close>\<close>

definition egressAddrRe :: regex where
  "egressAddrRe = rx_between 1 53 (RxClass [(48, 57), (97, 102), (46, 46), (58, 58), (91, 91), (93, 93)])"

definition egressProtos :: "string list" where
  "egressProtos = [''tcp'', ''tcp6'', ''udp'', ''udp6'']"

record egress_conn =
  ec_proto :: string
  ec_local :: string
  ec_remote :: string
  ec_pid :: int
  ec_comm :: string

text \<open>One row; \<open>None\<close> is a malformed row.\<close>

definition parse_row :: "string \<Rightarrow> egress_conn option" where
  "parse_row line =
     (case split_on (CHR 0x09) line of
        [f0, f1, f2, f3, f4] \<Rightarrow>
          if f0 \<notin> set egressProtos \<or> \<not> rx_match egressAddrRe f1 \<or> \<not> rx_match egressAddrRe f2 then None
          else
            let comm = (if f4 \<noteq> ''-'' then Line f4 32 else '''') in
            if f3 = ''-''
            then Some \<lparr>ec_proto = f0, ec_local = f1, ec_remote = f2, ec_pid = 0, ec_comm = comm\<rparr>
            else (case atoi f3 of
                    None \<Rightarrow> None
                  | Some n \<Rightarrow>
                      if n < 1 then None
                      else Some \<lparr>ec_proto = f0, ec_local = f1, ec_remote = f2, ec_pid = n, ec_comm = comm\<rparr>)
      | _ \<Rightarrow> None)"

fun sample_rows :: "string list \<Rightarrow> egress_conn list \<Rightarrow> int \<Rightarrow> egress_conn list \<times> int \<times> bool" where
  "sample_rows [] conns malformed = (conns, malformed, False)"
| "sample_rows (line # lines) conns malformed =
     (if line = '''' then sample_rows lines conns malformed
      else (case parse_row line of
              None \<Rightarrow> sample_rows lines conns (malformed + 1)
            | Some c \<Rightarrow>
                if int (length conns) \<ge> egressMaxConns then (conns, malformed, True)
                else sample_rows lines (conns @ [c]) malformed))"

definition trim_right_newlines :: "string \<Rightarrow> string" where
  "trim_right_newlines s = rev (dropWhile (\<lambda>c. c = CHR 0x0A) (rev s))"

definition parseEgressSample :: "string \<Rightarrow> (egress_conn list \<times> int \<times> bool) option" where
  "parseEgressSample raw =
     (case split_on (CHR 0x0A) (trim_right_newlines raw) of
        [] \<Rightarrow> None
      | l # lines \<Rightarrow> if l \<noteq> egressSampleFormat then None else Some (sample_rows lines [] 0))"

section \<open>The operation\<close>

record egress_result =
  er_project :: string
  er_dns_available :: bool
  er_dns_note :: "string \<times> string list"
  er_domains :: "egress_domain list"
  er_unparsed :: int
  er_domains_truncated :: bool
  er_log_truncated :: bool
  er_sampler_available :: bool
  er_sampler_note :: "string \<times> string list"
  er_conns :: "egress_conn list"
  er_malformed :: int
  er_conns_truncated :: bool

text \<open>
  The answers of the daemon and the state of the context while \<^verbatim>\<open>Egress\<close> runs: the chunks the
  log stream delivers and how it ends, whether the dev container can be used and whether the
  context has been cancelled by then (with the text of its cause), and the same for the sampler,
  whose failure is its text.
\<close>

record egress_world =
  ew_logs :: "int \<Rightarrow> string list \<times> error option"
  ew_dev :: "error option"
  ew_cancelled_dev :: "string option"
  ew_sample :: "string list \<times> (string + int)"
  ew_cancelled_sample :: "string option"

definition egress_start :: "string \<Rightarrow> egress_result" where
  "egress_start pid = \<lparr>er_project = pid, er_dns_available = False, er_dns_note = ('''', []), er_domains = [],
     er_unparsed = 0, er_domains_truncated = False, er_log_truncated = False, er_sampler_available = False,
     er_sampler_note = ('''', []), er_conns = [], er_malformed = 0, er_conns_truncated = False\<rparr>"

definition egress_op :: "string \<Rightarrow> error \<Rightarrow> op_error" where
  "egress_op pid e = \<lparr>oe_op = ''egress'', oe_project = pid, oe_err = e\<rparr>"

definition egress_logs :: "(nat \<Rightarrow> nat) \<Rightarrow> egress_world \<Rightarrow> int \<Rightarrow> egress_result \<Rightarrow> op_error + egress_result" where
  "egress_logs lower_rune w tail res =
     (case ew_logs w (if tail \<le> 0 then egressDefaultTail else tail) of
        (chunks, Some e) \<Rightarrow>
          if errors_is e ErrNotFound
          then Inr (res\<lparr>er_dns_note :=
                 (''dns sidecar not found (vibe up creates it unless runtime.egress is off)'', [])\<rparr>)
          else Inl (egress_op (er_project res) e)
      | (chunks, None) \<Rightarrow>
          let logs = capped_all egressMaxBytes chunks;
              (domains, unparsed, truncated) = parseCoreDNSLogs lower_rune (cw_buf logs) egressMaxDomains
          in Inr (res\<lparr>er_dns_available := True, er_log_truncated := cw_truncated logs, er_domains := domains,
               er_unparsed := unparsed, er_domains_truncated := truncated\<rparr>))"

definition egress_sample :: "egress_world \<Rightarrow> egress_result \<Rightarrow> op_error + egress_result" where
  "egress_sample w res =
     (case ew_dev w of
        Some e \<Rightarrow>
          (case ew_cancelled_dev w of
             Some cause \<Rightarrow> Inl (egress_op (er_project res) (Class ErrCanceled ''%w: egress: %v'' [cause]))
           | None \<Rightarrow> Inr (res\<lparr>er_sampler_note := (''dev container is not running (run `vibe up`)'', [])\<rparr>))
      | None \<Rightarrow>
          (case ew_sample w of
             (chunks, Inl e) \<Rightarrow>
               (case ew_cancelled_sample w of
                  Some cause \<Rightarrow> Inl (egress_op (er_project res) (Class ErrCanceled ''%w: egress: %v'' [cause]))
                | None \<Rightarrow> Inr (res\<lparr>er_sampler_note := (''sampler failed: %v'', [e])\<rparr>))
           | (chunks, Inr code) \<Rightarrow>
               if code \<noteq> 0
               then Inr (res\<lparr>er_sampler_note := (''sampler exited with code %d'', [itoa_int code])\<rparr>)
               else (case parseEgressSample (cw_buf (capped_all egressMaxBytes chunks)) of
                       None \<Rightarrow> Inr (res\<lparr>er_sampler_note :=
                         (''sampler output not understood (payload and container out of sync? vibe rebuild)'', [])\<rparr>)
                     | Some (conns, malformed, truncated) \<Rightarrow>
                         Inr (res\<lparr>er_sampler_available := True, er_conns := conns, er_malformed := malformed,
                              er_conns_truncated := truncated\<rparr>))))"

definition Egress :: "(nat \<Rightarrow> nat) \<Rightarrow> error + string \<Rightarrow> egress_world \<Rightarrow> int \<Rightarrow> op_error + egress_result" where
  "Egress lower_rune project w tail =
     (case project of
        Inl e \<Rightarrow> Inl (egress_op '''' e)
      | Inr pid \<Rightarrow>
          rbind (egress_logs lower_rune w tail (egress_start pid)) (\<lambda>res.
          rbind (egress_sample w res) (\<lambda>res.
            if \<not> er_dns_available res \<and> \<not> er_sampler_available res
            then Inl (egress_op pid (Class ErrUnavailable (''%w: '' @ fst (er_dns_note res) @ ''; '' @ fst (er_sampler_note res))
                   (snd (er_dns_note res) @ snd (er_sampler_note res))))
            else Inr res)))"

section \<open>What is kept\<close>

lemma capped_all_snoc: "capped_all mx (ps @ [p]) = capped_Write mx (capped_all mx ps) p"
  by (simp add: capped_all_def)

lemma capped_all_contents:
  assumes "0 \<le> mx"
  shows "cw_buf (capped_all mx ps) = take (nat mx) (concat ps) \<and>
    (cw_truncated (capped_all mx ps) \<longleftrightarrow> int (length (concat ps)) > mx)"
proof (induction ps rule: rev_induct)
  case Nil
  then show ?case using assms by (simp add: capped_all_def)
next
  case (snoc p ps)
  let ?w = "capped_all mx ps"
  show ?case
  proof (cases "int (length (concat ps)) < mx")
    case True
    then have "cw_buf ?w = concat ps" "\<not> cw_truncated ?w" using snoc.IH by auto
    with True show ?thesis
      by (auto simp: capped_all_snoc capped_Write_def Let_def nat_diff_distrib take_append)
  next
    case False
    then have "length (cw_buf ?w) = nat mx" using snoc.IH by simp
    with False snoc.IH assms show ?thesis
      by (auto simp: capped_all_snoc capped_Write_def Let_def)
  qed
qed

definition ledger_ok :: "int \<Rightarrow> ledger \<Rightarrow> bool" where
  "ledger_ok mx seen \<longleftrightarrow>
     distinct (map fst seen) \<and> int (length seen) \<le> max 0 mx \<and>
     (\<forall>(n, q, t) \<in> set seen. list_all safe_rune (runes n) \<and> length (runes n) \<le> 253 \<and> 1 \<le> q \<and>
        rx_match egressQTypeRe t)"

definition queries :: "ledger \<Rightarrow> int" where
  "queries seen = sum_list (map (fst \<circ> snd) seen)"

lemma parse_query_safe:
  assumes "parse_query lr line = Some (name, qtype)"
  shows "list_all safe_rune (runes name) \<and> length (runes name) \<le> 253 \<and> rx_match egressQTypeRe qtype"
proof -
  obtain raw where "name = Line raw 253" "rx_match egressQTypeRe qtype"
    using assms by (auto simp: parse_query_def Let_def split: option.splits if_splits)
  then show ?thesis using Line_safe [of raw 253] by auto
qed

lemma ledger_bump_names: "map fst (ledger_bump name qtype seen) = map fst seen"
  by (induction name qtype seen rule: ledger_bump.induct) auto

lemma ledger_bump_length: "length (ledger_bump name qtype seen) = length seen"
  by (metis ledger_bump_names length_map)

lemma ledger_bump_queries:
  "name \<in> fst ` set seen \<Longrightarrow> queries (ledger_bump name qtype seen) = queries seen + 1"
  by (induction name qtype seen rule: ledger_bump.induct) (auto simp: queries_def)

lemma ledger_bump_entries:
  "e \<in> set (ledger_bump name qtype seen) \<Longrightarrow>
     e \<in> set seen \<or> (\<exists>q t. (name, q, t) \<in> set seen \<and> e = (name, q + 1, qtype))"
  by (induction name qtype seen rule: ledger_bump.induct) (auto split: if_splits)

lemma ledger_line_ok:
  assumes "ledger_ok mx seen" "ledger_line lr mx (seen, u, tr) line = (seen', u', tr')"
  shows "ledger_ok mx seen' \<and>
    queries seen' + u' + (if tr' \<and> queries seen' + u' = queries seen + u then 1 else 0) \<ge>
      queries seen + u + (if trim_space line = '''' then 0 else 1) \<and>
    queries seen' + u' \<le> queries seen + u + (if trim_space line = '''' then 0 else 1) \<and>
    (tr' \<longleftrightarrow> tr \<or> queries seen' + u' < queries seen + u + (if trim_space line = '''' then 0 else 1))"
proof (cases "trim_space line = '''' \<or> parse_query lr line = None")
  case True
  then show ?thesis using assms by (auto simp: ledger_line_def split: option.splits)
next
  case False
  then obtain name qtype where p: "parse_query lr line = Some (name, qtype)" "trim_space line \<noteq> ''''" by auto
  note s = parse_query_safe [OF p(1)]
  consider "name \<in> fst ` set seen" | "name \<notin> fst ` set seen" "int (length seen) \<ge> mx"
    | "name \<notin> fst ` set seen" "int (length seen) < mx" by linarith
  then show ?thesis
  proof cases
    case 1
    then have e: "seen' = ledger_bump name qtype seen" "u' = u" "tr' = tr" using assms(2) p by (auto simp: ledger_line_def)
    have "ledger_ok mx (ledger_bump name qtype seen)"
      using assms(1) s
      by (fastforce simp: ledger_ok_def ledger_bump_names ledger_bump_length dest!: ledger_bump_entries)
    then show ?thesis using e ledger_bump_queries [OF 1] p(2) by simp
  next
    case 2
    then show ?thesis using assms p by (auto simp: ledger_line_def)
  next
    case 3
    then have e: "seen' = seen @ [(name, 1, qtype)]" "u' = u" "tr' = tr" using assms(2) p by (auto simp: ledger_line_def)
    then show ?thesis using assms(1) s 3 p(2) by (auto simp: ledger_ok_def queries_def)
  qed
qed

definition nonblank :: "string list \<Rightarrow> int" where
  "nonblank lines = int (length (filter (\<lambda>l. trim_space l \<noteq> '''') lines))"

lemma ledger_fold_ok:
  assumes "ledger_ok mx seen" "foldl (ledger_line lr mx) (seen, u, tr) lines = (seen', u', tr')"
  shows "ledger_ok mx seen' \<and> queries seen' + u' \<le> queries seen + u + nonblank lines \<and>
    (tr' \<longleftrightarrow> tr \<or> queries seen' + u' < queries seen + u + nonblank lines)"
  using assms
proof (induction lines arbitrary: seen u tr)
  case Nil
  then show ?case by (simp add: nonblank_def)
next
  case (Cons l lines)
  obtain s1 u1 t1 where l: "ledger_line lr mx (seen, u, tr) l = (s1, u1, t1)" by (metis prod_cases3)
  note a = ledger_line_ok [OF Cons.prems(1) l]
  have f: "foldl (ledger_line lr mx) (s1, u1, t1) lines = (seen', u', tr')" using Cons.prems(2) l by simp
  have n: "nonblank (l # lines) = (if trim_space l = '''' then 0 else 1) + nonblank lines" by (simp add: nonblank_def)
  show ?case using a Cons.IH [OF _ f] unfolding n by auto
qed

lemma ledger_domains_set:
  "set (ledger_domains seen) = (\<lambda>(n, q, t). \<lparr>ed_name = n, ed_queries = q, ed_last_type = t\<rparr>) ` set seen"
  by (simp add: ledger_domains_def)

lemma mset_ledger_domains:
  "mset (ledger_domains seen) = mset (map (\<lambda>(n, q, t). \<lparr>ed_name = n, ed_queries = q, ed_last_type = t\<rparr>) seen)"
  by (simp add: ledger_domains_def)

lemma ledger_domains_names:
  "mset (map ed_name (ledger_domains seen)) = mset (map fst seen)"
  "sum_list (map ed_queries (ledger_domains seen)) = queries seen"
  "length (ledger_domains seen) = length seen"
proof -
  show "mset (map ed_name (ledger_domains seen)) = mset (map fst seen)"
    by (simp add: mset_ledger_domains multiset.map_comp comp_def case_prod_beta)
  have "mset (map ed_queries (ledger_domains seen)) = mset (map (fst \<circ> snd) seen)"
    by (simp add: mset_ledger_domains multiset.map_comp comp_def case_prod_beta)
  then show "sum_list (map ed_queries (ledger_domains seen)) = queries seen"
    by (metis queries_def sum_mset_sum_list)
  show "length (ledger_domains seen) = length seen" by (simp add: ledger_domains_def)
qed

section \<open>The sample\<close>

definition conn_ok :: "egress_conn \<Rightarrow> bool" where
  "conn_ok c \<longleftrightarrow>
     ec_proto c \<in> set egressProtos \<and> rx_match egressAddrRe (ec_local c) \<and> rx_match egressAddrRe (ec_remote c) \<and>
     0 \<le> ec_pid c \<and> list_all safe_rune (runes (ec_comm c)) \<and> length (runes (ec_comm c)) \<le> 32"

lemma parse_row_ok: "parse_row line = Some c \<Longrightarrow> conn_ok c"
  using Line_safe [of _ 32]
  by (auto simp: parse_row_def conn_ok_def Let_def split: list.splits option.splits if_splits)

lemma sample_rows_ok:
  assumes "sample_rows lines conns m = (conns', m', tr)" "list_all conn_ok conns" "int (length conns) \<le> egressMaxConns"
  shows "list_all conn_ok conns' \<and> int (length conns') \<le> egressMaxConns \<and>
    (\<not> tr \<longrightarrow> int (length conns') + m' = int (length conns) + m + int (length (filter (\<lambda>l. l \<noteq> '''') lines))) \<and>
    (tr \<longrightarrow> int (length conns') = egressMaxConns)"
  using assms
proof (induction lines conns m rule: sample_rows.induct)
  case (2 line lines conns m)
  show ?case
  proof (cases "line = ''''")
    case True
    then show ?thesis using 2 by simp
  next
    case False
    show ?thesis
    proof (cases "parse_row line")
      case None
      then show ?thesis using 2(2,4-6) False by simp
    next
      case (Some c)
      then show ?thesis using 2(3-6) False parse_row_ok [OF Some] by (auto split: if_splits)
    qed
  qed
qed simp

section \<open>Properties\<close>

definition domain_ok :: "egress_domain \<Rightarrow> bool" where
  "domain_ok d \<longleftrightarrow>
     list_all safe_rune (runes (ed_name d)) \<and> length (runes (ed_name d)) \<le> 253 \<and> 1 \<le> ed_queries d \<and>
     rx_match egressQTypeRe (ed_last_type d)"

lemma parseCoreDNSLogs_ok:
  assumes "parseCoreDNSLogs lr raw mx = (domains, unparsed, truncated)"
  shows "distinct (map ed_name domains) \<and> int (length domains) \<le> max 0 mx \<and> list_all domain_ok domains \<and>
    sum_list (map ed_queries domains) + unparsed \<le> nonblank (split_on (CHR 0x0A) raw) \<and>
    (truncated \<longleftrightarrow> sum_list (map ed_queries domains) + unparsed < nonblank (split_on (CHR 0x0A) raw))"
proof -
  obtain seen where f: "foldl (ledger_line lr mx) ([], 0, False) (split_on (CHR 0x0A) raw) = (seen, unparsed, truncated)"
    "domains = ledger_domains seen"
    using assms by (auto simp: parseCoreDNSLogs_def split: prod.splits)
  have "ledger_ok mx []" by (simp add: ledger_ok_def)
  note k = ledger_fold_ok [OF this f(1)]
  then have s: "ledger_ok mx seen" by blast
  have "distinct (map ed_name domains)"
    using s ledger_domains_names(1) [of seen] f(2) by (metis ledger_ok_def mset_eq_imp_distinct_iff)
  moreover have "list_all domain_ok domains"
    using s f(2) by (auto simp: list_all_iff ledger_domains_set domain_ok_def ledger_ok_def)
  ultimately show ?thesis
    using k s ledger_domains_names [of seen] f(2) by (auto simp: queries_def ledger_ok_def)
qed

text \<open>
  Every line of the query log is accounted for. The entries have distinct, sanitized names and
  at least one query each, there are at most \<^verbatim>\<open>maxDomains\<close> of them, the queries and the unparsed
  lines add up to the non-blank lines unless names were dropped, and then the result says so.
\<close>

theorem parseCoreDNSLogs_accounts:
  "case parseCoreDNSLogs lr raw mx of (domains, unparsed, truncated) \<Rightarrow>
     distinct (map ed_name domains) \<and> int (length domains) \<le> max 0 mx \<and> list_all domain_ok domains \<and>
     sum_list (map ed_queries domains) + unparsed \<le> nonblank (split_on (CHR 0x0A) raw) \<and>
     (truncated \<longleftrightarrow> sum_list (map ed_queries domains) + unparsed < nonblank (split_on (CHR 0x0A) raw))"
  using parseCoreDNSLogs_ok [of lr raw mx] by (cases "parseCoreDNSLogs lr raw mx") auto

lemma parseEgressSample_ok:
  assumes "parseEgressSample raw = Some (conns, malformed, truncated)"
  shows "list_all conn_ok conns \<and> int (length conns) \<le> egressMaxConns \<and>
    (if truncated then int (length conns) = egressMaxConns
     else int (length conns) + malformed =
       int (length (filter (\<lambda>l. l \<noteq> '''') (tl (split_on (CHR 0x0A) (trim_right_newlines raw))))))"
proof -
  obtain l lines where l: "split_on (CHR 0x0A) (trim_right_newlines raw) = l # lines"
    by (cases "split_on (CHR 0x0A) (trim_right_newlines raw)") auto
  with assms have "sample_rows lines [] 0 = (conns, malformed, truncated)"
    by (simp add: parseEgressSample_def split: if_splits)
  from sample_rows_ok [OF this] l show ?thesis by (auto simp: egressMaxConns_def)
qed

text \<open>
  The sampler's output is understood exactly when its first line is the version line. Then every
  kept row has a known protocol, addresses of address characters only, no negative process id
  and a sanitized command; at most 512 rows are kept, and unless rows were dropped at that bound
  every non-empty row is either kept or counted as malformed.
\<close>

theorem parseEgressSample_accounts:
  "case parseEgressSample raw of
     None \<Rightarrow> hd (split_on (CHR 0x0A) (trim_right_newlines raw)) \<noteq> egressSampleFormat
   | Some (conns, malformed, truncated) \<Rightarrow>
       hd (split_on (CHR 0x0A) (trim_right_newlines raw)) = egressSampleFormat \<and>
       list_all conn_ok conns \<and> int (length conns) \<le> 512 \<and>
       (if truncated then int (length conns) = 512
        else int (length conns) + malformed =
          int (length (filter (\<lambda>l. l \<noteq> '''') (tl (split_on (CHR 0x0A) (trim_right_newlines raw))))))"
proof (cases "parseEgressSample raw")
  case None
  then show ?thesis
    by (cases "split_on (CHR 0x0A) (trim_right_newlines raw)")
       (auto simp: parseEgressSample_def split: if_splits)
next
  case (Some r)
  obtain conns malformed truncated where r: "r = (conns, malformed, truncated)" by (metis prod_cases3)
  have "hd (split_on (CHR 0x0A) (trim_right_newlines raw)) = egressSampleFormat"
    using Some by (auto simp: parseEgressSample_def split: list.splits if_splits)
  with parseEgressSample_ok [OF Some [unfolded r]] Some r show ?thesis by (simp add: egressMaxConns_def)
qed

text \<open>
  The buffer keeps exactly the first mebibyte of the stream, however it is cut into chunks, and
  reports truncation exactly when something was dropped.
\<close>

theorem capped_writer_prefix:
  "cw_buf (capped_all egressMaxBytes ps) = take 1048576 (concat ps) \<and>
   (cw_truncated (capped_all egressMaxBytes ps) \<longleftrightarrow> length (concat ps) > 1048576)"
  using capped_all_contents [of egressMaxBytes ps] by (simp add: egressMaxBytes_def)

text \<open>
  C40. A successful view shows at least one of its halves, and whatever the log and the sampler
  contain, only sanitized bounded entries.
\<close>

theorem Egress_view_safe:
  assumes "Egress lr project w tail = Inr res"
  shows "(er_dns_available res \<or> er_sampler_available res) \<and>
    list_all domain_ok (er_domains res) \<and> length (er_domains res) \<le> 500 \<and>
    list_all conn_ok (er_conns res) \<and> length (er_conns res) \<le> 512"
proof -
  obtain pid r1 where p: "project = Inr pid" "egress_logs lr w tail (egress_start pid) = Inr r1"
      "egress_sample w r1 = Inr res" "er_dns_available res \<or> er_sampler_available res"
    using assms by (auto simp: Egress_def rbind_eq_Inr split: sum.splits if_splits)
  have d: "list_all domain_ok (er_domains r1) \<and> length (er_domains r1) \<le> 500 \<and> er_conns r1 = []"
    using p(2) parseCoreDNSLogs_ok [of lr _ 500]
    by (auto simp: egress_logs_def egress_start_def egressMaxDomains_def Let_def split: prod.splits option.splits if_splits)
  have "er_domains res = er_domains r1 \<and>
      (er_conns res = er_conns r1 \<or> (\<exists>raw m t. parseEgressSample raw = Some (er_conns res, m, t)))"
    using p(3) by (auto simp: egress_sample_def split: prod.splits option.splits sum.splits if_splits)
  then show ?thesis using d p(4) parseEgressSample_ok by (fastforce simp: egressMaxConns_def)
qed

definition demo_egress :: egress_world where
  "demo_egress = \<lparr>ew_logs = (\<lambda>_. ([], None)), ew_dev = Some (Plain ''gone'' []), ew_cancelled_dev = None,
     ew_sample = ([], Inr 0), ew_cancelled_sample = None\<rparr>"

theorem Egress_view_safe_witness:
  "\<exists>res. Egress (\<lambda>r. r) (Inr ''demo'') demo_egress 0 = Inr res \<and> list_all domain_ok (er_domains res)"
proof -
  have "\<exists>res. Egress (\<lambda>r. r) (Inr ''demo'') demo_egress 0 = Inr res"
    by (cases "parseCoreDNSLogs (\<lambda>r. r) (cw_buf (capped_all egressMaxBytes [])) egressMaxDomains")
       (simp add: Egress_def egress_logs_def egress_sample_def demo_egress_def Let_def)
  then obtain res where r: "Egress (\<lambda>r. r) (Inr ''demo'') demo_egress 0 = Inr res" by blast
  with Egress_view_safe [OF r] show ?thesis by blast
qed

end
