(* ===== verification/Lock.thy ===== *)
theory Lock
  imports GoStrings
begin

text \<open>
  \<^verbatim>\<open>internal/lock\<close>: the names of the host locks, the poll for the main lock, and the intent gate
  that every acquisition of a name passes. The gate is a state machine: its callers, the worker
  goroutine and the kernel take atomic steps (the sections under the gate's mutex, the channel
  operations and the system calls), interleaved in any order. The lemmas show that at most one
  caller holds intent and only under the kernel lock, that a caller which gave up is never
  left holding it, and that a waiting caller can always be served.
\<close>

section \<open>Lock names\<close>

definition StoreGlobal :: string where
  "StoreGlobal = ''00-store''"

definition Object_lock :: "string \<Rightarrow> string \<Rightarrow> string" where
  "Object_lock kind digest_hex = ''10-object-'' @ kind @ ''-'' @ digest_hex"

definition Project_lock :: "string \<Rightarrow> string" where
  "Project_lock i = ''20-project-'' @ i"

section \<open>The intent gate\<close>

text \<open>
  A request: the buffered channel with the worker's answer, whether its holder has closed the
  done channel, whether it was canceled, and where its caller is.
\<close>

datatype grant = GrantOk | GrantErr error

datatype phase = Absent | Waiting | Holding | Gone

record intent_req =
  granted :: "grant option"
  rdone :: bool
  canceled :: bool
  phase :: phase

text \<open>Where the worker is: between two system calls or channel operations.\<close>

datatype worker_pc =
    Idle
  | Check
  | Counting
  | Locking
  | Locked "error option"
  | Unlocking
  | Serving nat
  | Dead

record gate =
  reqs :: "nat \<Rightarrow> intent_req"
  gqueue :: "nat list"
  active :: bool
  broken :: "error option"
  acquisitions :: nat
  wake :: bool
  kheld :: bool
  pc :: worker_pc

definition new_req :: intent_req where
  "new_req = \<lparr>granted = None, rdone = False, canceled = False, phase = Absent\<rparr>"

definition newIntentGate :: gate where
  "newIntentGate = \<lparr>reqs = (\<lambda>_. new_req), gqueue = [], active = False, broken = None, acquisitions = 0,
     wake = False, kheld = False, pc = Idle\<rparr>"

definition upd_req :: "nat \<Rightarrow> (intent_req \<Rightarrow> intent_req) \<Rightarrow> gate \<Rightarrow> gate" where
  "upd_req r f g = g\<lparr>reqs := (reqs g)(r := f (reqs g r))\<rparr>"

text \<open>The first critical section of \<^verbatim>\<open>acquire\<close>: fail fast on a broken gate, or queue up.\<close>

definition gate_enqueue :: "nat \<Rightarrow> gate \<Rightarrow> gate" where
  "gate_enqueue r g =
     (if broken g \<noteq> None then upd_req r (phase_update (\<lambda>_. Gone)) g
      else (let g1 = upd_req r (phase_update (\<lambda>_. Waiting)) (g\<lparr>gqueue := gqueue g @ [r]\<rparr>)
            in if \<not> active g1 then g1\<lparr>active := True, wake := True\<rparr> else g1))"

text \<open>The caller takes the answer.\<close>

definition gate_receive :: "nat \<Rightarrow> grant \<Rightarrow> gate \<Rightarrow> gate" where
  "gate_receive r a g =
     upd_req r (\<lambda>q. q\<lparr>granted := None, phase := (case a of GrantOk \<Rightarrow> Holding | GrantErr _ \<Rightarrow> Gone)\<rparr>) g"

text \<open>The caller's context is done: a grant that raced is released, otherwise the request is canceled.\<close>

definition gate_cancel :: "nat \<Rightarrow> gate \<Rightarrow> gate" where
  "gate_cancel r g =
     upd_req r (\<lambda>q. case granted q of
         Some a \<Rightarrow> q\<lparr>granted := None, rdone := (a = GrantOk \<or> rdone q), phase := Gone\<rparr>
       | None \<Rightarrow> q\<lparr>canceled := True, phase := Gone\<rparr>) g"

definition req_release :: "nat \<Rightarrow> gate \<Rightarrow> gate" where
  "req_release r g = upd_req r (\<lambda>q. q\<lparr>rdone := True, phase := Gone\<rparr>) g"

text \<open>\<^verbatim>\<open>dropCanceled\<close>: the queue without its canceled front, and how many were dropped.\<close>

definition dropCanceled :: "gate \<Rightarrow> nat list \<times> nat" where
  "dropCanceled g =
     (let c = (\<lambda>r. canceled (reqs g r))
      in (dropWhile c (gqueue g), length (takeWhile c (gqueue g))))"

definition pendingWork :: "gate \<Rightarrow> gate" where
  "pendingWork g =
     (let q = fst (dropCanceled g)
      in if q = [] then g\<lparr>gqueue := q, active := False, pc := Idle\<rparr>
         else g\<lparr>gqueue := q, pc := Counting\<rparr>)"

definition grantHead :: "error option \<Rightarrow> gate \<Rightarrow> gate" where
  "grantHead flockErr g =
     (let (q, dropped) = dropCanceled g; g1 = g\<lparr>gqueue := q\<rparr>
      in if q = [] \<or> dropped > 0
         then g1\<lparr>active := (if q = [] then False else active g),
                 pc := (if flockErr = None then Unlocking else Check)\<rparr>
         else let h = hd q; g2 = g1\<lparr>gqueue := tl q\<rparr>
              in case flockErr of
                   Some e \<Rightarrow>
                     (upd_req h (granted_update (\<lambda>_. Some (GrantErr (Wrapped ''intent flock: %w'' [] e)))) g2)\<lparr>pc := Check\<rparr>
                 | None \<Rightarrow> (upd_req h (granted_update (\<lambda>_. Some GrantOk)) g2)\<lparr>pc := Serving h\<rparr>)"

text \<open>
  \<^verbatim>\<open>unlock\<close>: a failed \<^verbatim>\<open>LOCK_UN\<close> poisons the gate, answers every queued live request with the
  error and closes the descriptor, which drops the kernel lock all the same.
\<close>

definition gate_unlock :: "error option \<Rightarrow> gate \<Rightarrow> gate" where
  "gate_unlock res g =
     (case res of
        None \<Rightarrow> g\<lparr>kheld := False, pc := Check\<rparr>
      | Some e \<Rightarrow>
          (let err = Wrapped ''release intent flock: %w'' [] e
           in g\<lparr>broken := Some err,
                reqs := (\<lambda>r. if r \<in> set (gqueue g) \<and> \<not> canceled (reqs g r)
                             then (reqs g r)\<lparr>granted := Some (GrantErr err)\<rparr> else reqs g r),
                gqueue := [], active := False, kheld := False, pc := Dead\<rparr>))"

inductive gate_step :: "gate \<Rightarrow> gate \<Rightarrow> bool" where
  Enqueue: "phase (reqs g r) = Absent \<Longrightarrow> gate_step g (gate_enqueue r g)"
| Receive: "phase (reqs g r) = Waiting \<Longrightarrow> granted (reqs g r) = Some a \<Longrightarrow> gate_step g (gate_receive r a g)"
| Cancel: "phase (reqs g r) = Waiting \<Longrightarrow> gate_step g (gate_cancel r g)"
| Release: "phase (reqs g r) = Holding \<Longrightarrow> gate_step g (req_release r g)"
| Wake: "pc g = Idle \<Longrightarrow> wake g \<Longrightarrow> gate_step g (g\<lparr>wake := False, pc := Check\<rparr>)"
| Pending: "pc g = Check \<Longrightarrow> gate_step g (pendingWork g)"
| Count: "pc g = Counting \<Longrightarrow> gate_step g (g\<lparr>acquisitions := acquisitions g + 1, pc := Locking\<rparr>)"
| Flock: "pc g = Locking \<Longrightarrow> gate_step g (g\<lparr>kheld := (e = None), pc := Locked e\<rparr>)"
| Grant: "pc g = Locked e \<Longrightarrow> gate_step g (grantHead e g)"
| Served: "pc g = Serving h \<Longrightarrow> rdone (reqs g h) \<Longrightarrow> gate_step g (g\<lparr>pc := Unlocking\<rparr>)"
| Unlock: "pc g = Unlocking \<Longrightarrow> gate_step g (gate_unlock e g)"

abbreviation gate_steps :: "gate \<Rightarrow> gate \<Rightarrow> bool" where
  "gate_steps \<equiv> gate_step\<^sup>*\<^sup>*"

definition gate_reachable :: "gate \<Rightarrow> bool" where
  "gate_reachable g = gate_steps newIntentGate g"

section \<open>The invariant\<close>

definition req_ok :: "intent_req \<Rightarrow> bool \<Rightarrow> bool \<Rightarrow> bool" where
  "req_ok q queued serving \<longleftrightarrow>
     (queued \<longrightarrow> granted q = None \<and> \<not> rdone q \<and> (phase q = Waiting \<or> phase q = Gone \<and> canceled q)) \<and>
     (canceled q \<longrightarrow> phase q = Gone \<and> granted q = None \<and> \<not> serving) \<and>
     (granted q = Some GrantOk \<longrightarrow> serving \<and> \<not> rdone q) \<and>
     (phase q = Holding \<longrightarrow> serving \<and> granted q = None \<and> \<not> rdone q) \<and>
     (serving \<longrightarrow> \<not> queued \<and> (rdone q \<or> phase q = Holding \<or> granted q = Some GrantOk)) \<and>
     (phase q = Waiting \<longrightarrow> queued \<or> granted q \<noteq> None) \<and>
     (phase q = Absent \<longrightarrow> q = new_req \<and> \<not> serving) \<and>
     (granted q \<noteq> None \<longrightarrow> phase q = Waiting)"

definition req_inv :: "gate \<Rightarrow> nat \<Rightarrow> bool" where
  "req_inv g r = req_ok (reqs g r) (r \<in> set (gqueue g)) (pc g = Serving r)"

definition worker_inv :: "gate \<Rightarrow> bool" where
  "worker_inv g \<longleftrightarrow>
     distinct (gqueue g) \<and>
     (kheld g \<longleftrightarrow> pc g = Locked None \<or> pc g = Unlocking \<or> (\<exists>r. pc g = Serving r)) \<and>
     (broken g \<noteq> None \<longleftrightarrow> pc g = Dead) \<and>
     (pc g = Dead \<longrightarrow> gqueue g = []) \<and>
     (gqueue g \<noteq> [] \<longrightarrow> active g) \<and>
     (active g \<and> pc g = Idle \<longrightarrow> wake g)"

definition gate_inv :: "gate \<Rightarrow> bool" where
  "gate_inv g \<longleftrightarrow> worker_inv g \<and> (\<forall>r. req_inv g r)"

lemma gate_inv_init: "gate_inv newIntentGate"
  by (simp add: gate_inv_def worker_inv_def req_inv_def req_ok_def newIntentGate_def new_req_def)

lemmas gate_defs = gate_enqueue_def gate_receive_def gate_cancel_def req_release_def pendingWork_def
  grantHead_def gate_unlock_def upd_req_def dropCanceled_def Let_def

lemma reqs_upd_req [simp]: "reqs (upd_req r f g) s = (if s = r then f (reqs g r) else reqs g s)"
  by (simp add: upd_req_def)

lemma upd_req_simps [simp]:
  "gqueue (upd_req r f g) = gqueue g" "active (upd_req r f g) = active g" "broken (upd_req r f g) = broken g"
  "wake (upd_req r f g) = wake g" "kheld (upd_req r f g) = kheld g" "pc (upd_req r f g) = pc g"
  by (simp_all add: upd_req_def)

lemma gate_enqueue_simps [simp]:
  "reqs (gate_enqueue r g) s =
     (if s = r then (reqs g r)\<lparr>phase := (if broken g = None then Waiting else Gone)\<rparr> else reqs g s)"
  "gqueue (gate_enqueue r g) = (if broken g = None then gqueue g @ [r] else gqueue g)"
  "active (gate_enqueue r g) = (broken g = None \<or> active g)"
  "broken (gate_enqueue r g) = broken g"
  "wake (gate_enqueue r g) = (wake g \<or> broken g = None \<and> \<not> active g)"
  "kheld (gate_enqueue r g) = kheld g"
  "pc (gate_enqueue r g) = pc g"
  by (auto simp: gate_enqueue_def Let_def)

lemma in_queue_live: "r \<in> set xs \<Longrightarrow> \<not> P r \<Longrightarrow> r \<in> set (dropWhile P xs)"
  by (induction xs) auto

lemma worker_inv_step:
  assumes "gate_inv g" "gate_step g g'"
  shows "worker_inv g'"
  using assms(2,1)
proof (cases rule: gate_step.cases)
  case (Enqueue r)
  have w: "worker_inv g" "req_inv g r" using assms(1) by (simp_all add: gate_inv_def)
  then have "r \<notin> set (gqueue g)" using Enqueue(2) by (auto simp: req_inv_def req_ok_def)
  then show ?thesis using w(1) Enqueue by (cases "broken g = None") (auto simp: worker_inv_def)
next
  case (Grant e)
  have "distinct (dropWhile (\<lambda>r. canceled (reqs g r)) (gqueue g))"
    using assms(1) by (simp add: gate_inv_def worker_inv_def distinct_dropWhile)
  then show ?thesis using Grant assms(1)
    by (cases "dropWhile (\<lambda>r. canceled (reqs g r)) (gqueue g)"; cases e)
       (auto simp: gate_inv_def worker_inv_def grantHead_def dropCanceled_def Let_def)
next
  case Pending
  then show ?thesis using assms(1)
    by (auto simp: gate_inv_def worker_inv_def pendingWork_def dropCanceled_def Let_def distinct_dropWhile)
next
  case (Unlock e)
  then show ?thesis using assms(1)
    by (cases e) (auto simp: gate_inv_def worker_inv_def gate_unlock_def Let_def)
qed (auto simp: gate_inv_def worker_inv_def gate_receive_def gate_cancel_def req_release_def)

lemma req_inv_cong:
  assumes "reqs g' s = reqs g s" "s \<in> set (gqueue g') \<longleftrightarrow> s \<in> set (gqueue g)"
    "pc g' = Serving s \<longleftrightarrow> pc g = Serving s"
  shows "req_inv g' s = req_inv g s"
  by (simp only: req_inv_def assms)

lemma req_ok_enqueue: "req_ok q n v \<Longrightarrow> phase q = Absent \<Longrightarrow> req_ok (q\<lparr>phase := Waiting\<rparr>) True v"
  by (simp add: req_ok_def new_req_def)

lemma req_ok_gone: "req_ok q n v \<Longrightarrow> phase q = Absent \<Longrightarrow> req_ok (q\<lparr>phase := Gone\<rparr>) n v"
  by (simp add: req_ok_def new_req_def)

lemma req_ok_receive:
  "req_ok q n v \<Longrightarrow> granted q = Some a \<Longrightarrow>
   req_ok (q\<lparr>granted := None, phase := (case a of GrantOk \<Rightarrow> Holding | GrantErr _ \<Rightarrow> Gone)\<rparr>) n v"
  by (cases a; cases "phase q"; cases n; cases v; simp add: req_ok_def)

lemma req_ok_cancel:
  "req_ok q n v \<Longrightarrow> phase q = Waiting \<Longrightarrow>
   req_ok (case granted q of
         Some a \<Rightarrow> q\<lparr>granted := None, rdone := (a = GrantOk \<or> rdone q), phase := Gone\<rparr>
       | None \<Rightarrow> q\<lparr>canceled := True, phase := Gone\<rparr>) n v"
  by (cases "granted q"; (cases "the (granted q)")?; cases n; cases v; simp add: req_ok_def)

lemma req_ok_release: "req_ok q n v \<Longrightarrow> phase q = Holding \<Longrightarrow> req_ok (q\<lparr>rdone := True, phase := Gone\<rparr>) n v"
  by (cases n; cases v; simp add: req_ok_def)

lemma req_ok_served: "req_ok q n True \<Longrightarrow> rdone q \<Longrightarrow> req_ok q n False"
  by (cases n; cases "phase q"; auto simp: req_ok_def)

lemma req_ok_dropped: "req_ok q True v \<Longrightarrow> canceled q \<Longrightarrow> req_ok q False v"
  by (cases "phase q"; cases v; simp add: req_ok_def)

lemma req_ok_granted:
  "req_ok q True v \<Longrightarrow> \<not> canceled q \<Longrightarrow>
   req_ok (q\<lparr>granted := Some a\<rparr>) False (a = GrantOk)"
  by (cases "phase q"; cases v; cases a; simp add: req_ok_def)

lemma req_ok_refused:
  "req_ok q True v \<Longrightarrow> \<not> canceled q \<Longrightarrow> req_ok (q\<lparr>granted := Some (GrantErr e)\<rparr>) False False"
  using req_ok_granted [of q v "GrantErr e"] by simp

lemma req_ok_queuedD: "req_ok q True v \<Longrightarrow> \<not> v \<and> \<not> rdone q \<and> granted q = None"
  by (simp add: req_ok_def)

lemma req_ok_grantedD: "req_ok q n v \<Longrightarrow> granted q = Some a \<Longrightarrow> phase q = Waiting"
  by (simp add: req_ok_def)

lemma req_ok_servingD:
  "req_ok q n True \<Longrightarrow> rdone q \<or> phase q = Holding \<or> granted q = Some GrantOk \<and> phase q = Waiting"
  by (auto simp: req_ok_def)

lemma req_ok_holdingD: "req_ok q n v \<Longrightarrow> phase q = Holding \<Longrightarrow> v"
  by (simp add: req_ok_def)

lemma req_ok_canceledD:
  "req_ok q n v \<Longrightarrow> canceled q \<Longrightarrow> phase q = Gone \<and> granted q = None \<and> \<not> v"
  by (simp add: req_ok_def)

lemma req_inv_drop:
  assumes "req_inv g s" "reqs g' = reqs g" "gqueue g' = fst (dropCanceled g)"
    "pc g' = Serving s \<longleftrightarrow> pc g = Serving s"
  shows "req_inv g' s"
proof (cases "s \<in> set (fst (dropCanceled g)) \<longleftrightarrow> s \<in> set (gqueue g)")
  case True
  then show ?thesis using assms req_inv_cong [of g' s g] by simp
next
  case False
  then have c: "s \<in> set (gqueue g)" "s \<notin> set (fst (dropCanceled g))" "canceled (reqs g s)"
    using in_queue_live [of s "gqueue g" "\<lambda>r. canceled (reqs g r)"]
    by (auto simp: dropCanceled_def Let_def dest: set_dropWhileD)
  then show ?thesis using assms req_ok_dropped [of "reqs g s"] by (simp add: req_inv_def)
qed

lemma req_inv_step:
  assumes "gate_inv g" "gate_step g g'"
  shows "req_inv g' s"
proof -
  have i: "\<And>r. req_inv g r" using assms(1) by (simp add: gate_inv_def)
  note ok = i [unfolded req_inv_def]
  show ?thesis using assms(2)
  proof (cases rule: gate_step.cases)
    case (Enqueue r)
    then show ?thesis using req_ok_enqueue [OF ok, of r] req_ok_gone [OF ok, of r] ok [of s]
      by (cases "s = r"; cases "broken g") (simp_all add: req_inv_def)
  next
    case (Receive r a)
    then show ?thesis using req_ok_receive [OF ok, of r a] ok [of s]
      by (cases "s = r") (simp_all add: req_inv_def gate_receive_def)
  next
    case (Cancel r)
    then show ?thesis using req_ok_cancel [OF ok, of r] ok [of s]
      by (cases "s = r") (simp_all add: req_inv_def gate_cancel_def)
  next
    case (Release r)
    then show ?thesis using req_ok_release [OF ok, of r] ok [of s]
      by (cases "s = r") (simp_all add: req_inv_def req_release_def)
  next
    case Pending
    show ?thesis by (rule req_inv_drop [OF i]) (simp_all add: Pending pendingWork_def Let_def)
  next
    case (Grant e)
    show ?thesis
    proof (cases "fst (dropCanceled g) = [] \<or> snd (dropCanceled g) > 0")
      case True
      show ?thesis
        by (rule req_inv_drop [OF i]; cases "dropCanceled g"; cases e)
          (use True in \<open>auto simp: Grant grantHead_def Let_def\<close>)
    next
      case False
      then obtain h q where q: "gqueue g = h # q" "\<not> canceled (reqs g h)" "h \<notin> set q"
        using assms(1)
        by (cases "gqueue g") (auto simp: dropCanceled_def Let_def gate_inv_def worker_inv_def split: if_splits)
      then have g': "g' = (upd_req h (granted_update (\<lambda>_. Some (case e of None \<Rightarrow> GrantOk
            | Some e \<Rightarrow> GrantErr (Wrapped ''intent flock: %w'' [] e)))) (g\<lparr>gqueue := q\<rparr>))
          \<lparr>pc := (if e = None then Serving h else Check)\<rparr>"
        using Grant(1) by (cases e) (simp_all add: grantHead_def dropCanceled_def Let_def)
      show ?thesis
        using req_ok_granted [of "reqs g h" False, OF _ q(2), of GrantOk]
          req_ok_refused [of "reqs g h" False, OF _ q(2)] ok [of h] ok [of s] q Grant(2)
        by (cases "s = h"; cases e) (simp_all add: g' req_inv_def)
    qed
  next
    case (Unlock e)
    then show ?thesis using ok [of s] req_ok_refused [of "reqs g s"] req_ok_dropped [of "reqs g s"]
      by (cases e; cases "s \<in> set (gqueue g)"; cases "canceled (reqs g s)")
        (auto simp: req_inv_def gate_unlock_def Let_def)
  next
    case (Served h)
    then show ?thesis using ok [of s] req_ok_served [of "reqs g h"]
      by (cases "s = h") (auto simp: req_inv_def)
  qed (use ok [of s] in \<open>simp_all add: req_inv_def\<close>)
qed

lemma gate_inv_reachable: "gate_reachable g \<Longrightarrow> gate_inv g"
  unfolding gate_reachable_def
proof (induction rule: rtranclp_induct)
  case base
  show ?case by (rule gate_inv_init)
next
  case (step g g')
  then show ?case using worker_inv_step req_inv_step unfolding gate_inv_def by blast
qed

section \<open>Progress\<close>

text \<open>
  From every reachable state in which the gate is not poisoned, a caller that still waits and
  does not give up can be served: whatever the worker is doing, a run of steps in which no new
  caller queues, the callers ahead release and no system call fails hands it the intent. The proof is an
  induction on the place of the caller in the queue; a round of the worker is at most one
  acquisition, one hand-off and one release.
\<close>

lemma gate_steps_inv: "gate_steps g g' \<Longrightarrow> gate_inv g \<Longrightarrow> gate_inv g'"
  by (induction rule: rtranclp_induct) (use worker_inv_step req_inv_step gate_inv_def in blast)+

lemma step_then: "gate_step g g' \<Longrightarrow> \<exists>h. gate_steps g' h \<and> P h \<Longrightarrow> \<exists>h. gate_steps g h \<and> P h"
  by (meson converse_rtranclp_into_rtranclp)

lemma steps_then: "gate_steps g g' \<Longrightarrow> \<exists>h. gate_steps g' h \<and> P h \<Longrightarrow> \<exists>h. gate_steps g h \<and> P h"
  by (meson rtranclp_trans)

text \<open>\<^verbatim>\<open>served r g\<close>: some run from g hands the intent to caller r.\<close>

definition servable :: "nat \<Rightarrow> gate \<Rightarrow> bool" where
  "servable r g \<longleftrightarrow> (\<exists>h. gate_steps g h \<and> phase (reqs h r) = Holding)"

lemma servable_step: "gate_step g g' \<Longrightarrow> servable r g' \<Longrightarrow> servable r g"
  unfolding servable_def by (rule step_then)

lemma servable_granted:
  assumes "gate_inv g" "granted (reqs g r) = Some GrantOk"
  shows "servable r g"
proof -
  have "req_inv g r" using assms(1) by (simp add: gate_inv_def)
  then have "phase (reqs g r) = Waiting" using assms(2) unfolding req_inv_def by (rule req_ok_grantedD)
  then have "gate_step g (gate_receive r GrantOk g)" using assms(2) by (rule Receive)
  moreover have "phase (reqs (gate_receive r GrantOk g) r) = Holding" by (simp add: gate_receive_def)
  ultimately show ?thesis unfolding servable_def by (meson r_into_rtranclp)
qed

text \<open>A caller that waits in the queue, with the kernel lock not just refused to the worker.\<close>

definition queued_for :: "nat \<Rightarrow> gate \<Rightarrow> bool" where
  "queued_for r g \<longleftrightarrow> r \<in> set (gqueue g) \<and> \<not> canceled (reqs g r) \<and> (\<forall>e. pc g \<noteq> Locked (Some e))"

fun pc_rank :: "gate \<Rightarrow> worker_pc \<Rightarrow> nat" where
  "pc_rank g Idle = 6"
| "pc_rank g Check = 5"
| "pc_rank g Counting = 4"
| "pc_rank g Locking = 3"
| "pc_rank g (Locked _) = 2"
| "pc_rank g Unlocking = 7"
| "pc_rank g Dead = 0"
| "pc_rank g (Serving h) =
     (if rdone (reqs g h) then 8 else if phase (reqs g h) = Holding then 9 else 10)"

definition gate_rank :: "gate \<Rightarrow> nat" where
  "gate_rank g = 20 * length (gqueue g) + pc_rank g (pc g)"

definition progress :: "nat \<Rightarrow> gate \<Rightarrow> gate \<Rightarrow> bool" where
  "progress r g g' \<longleftrightarrow> gate_step g g' \<and>
     (granted (reqs g' r) = Some GrantOk \<or> queued_for r g' \<and> gate_rank g' < gate_rank g)"

lemma progress_locked:
  assumes q: "queued_for r g" and pc: "pc g = Locked None"
  shows "progress r g (grantHead None g)"
proof -
  let ?c = "\<lambda>s. canceled (reqs g s)"
  have live: "r \<in> set (dropWhile ?c (gqueue g))"
    using q by (intro in_queue_live) (simp_all add: queued_for_def)
  have st: "gate_step g (grantHead None g)" using pc by (rule Grant)
  show ?thesis
  proof (cases "takeWhile ?c (gqueue g) = []")
    case True
    then have "dropWhile ?c (gqueue g) = gqueue g"
      by (metis append_Nil takeWhile_dropWhile_id)
    then obtain h t where ht: "gqueue g = h # t" "dropWhile ?c (gqueue g) = h # t"
      using live by (cases "gqueue g") auto
    then show ?thesis using q st pc True
      by (auto simp: progress_def grantHead_def dropCanceled_def Let_def queued_for_def gate_rank_def)
  next
    case False
    have "length (takeWhile ?c (gqueue g)) + length (dropWhile ?c (gqueue g)) = length (gqueue g)"
      by (metis length_append takeWhile_dropWhile_id)
    then have "length (dropWhile ?c (gqueue g)) < length (gqueue g)" using False by (cases "takeWhile ?c (gqueue g)") auto
    then show ?thesis using q st pc live False
      by (auto simp: progress_def grantHead_def dropCanceled_def Let_def queued_for_def gate_rank_def)
  qed
qed

lemma progress_check:
  assumes q: "queued_for r g" and pc: "pc g = Check"
  shows "progress r g (pendingWork g)"
proof -
  let ?c = "\<lambda>s. canceled (reqs g s)"
  have live: "r \<in> set (dropWhile ?c (gqueue g))"
    using q by (intro in_queue_live) (simp_all add: queued_for_def)
  have "length (dropWhile ?c (gqueue g)) \<le> length (gqueue g)" by (rule length_dropWhile_le)
  moreover have "gate_step g (pendingWork g)" using pc by (rule Pending)
  ultimately show ?thesis using q pc live
    by (auto simp: progress_def pendingWork_def dropCanceled_def Let_def queued_for_def gate_rank_def)
qed

lemma progress_serving:
  assumes "gate_inv g" and q: "queued_for r g" and pc: "pc g = Serving h"
  shows "\<exists>g'. progress r g g'"
proof -
  have i: "req_inv g h" "req_inv g r" using assms(1) by (simp_all add: gate_inv_def)
  then have ne: "h \<noteq> r" using q pc req_ok_queuedD by (auto simp: req_inv_def queued_for_def)
  consider "rdone (reqs g h)" | "\<not> rdone (reqs g h)" "phase (reqs g h) = Holding"
    | "\<not> rdone (reqs g h)" "granted (reqs g h) = Some GrantOk" "phase (reqs g h) = Waiting"
    using i(1) pc req_ok_servingD [of "reqs g h"] by (auto simp: req_inv_def)
  then show ?thesis
  proof cases
    case 1
    then show ?thesis using Served [OF pc] q pc
      by (intro exI [of _ "g\<lparr>pc := Unlocking\<rparr>"]) (simp add: progress_def queued_for_def gate_rank_def)
  next
    case 2
    then show ?thesis using Release [of g h] q pc ne
      by (intro exI [of _ "req_release h g"])
        (simp add: progress_def queued_for_def gate_rank_def req_release_def)
  next
    case 3
    then show ?thesis using Receive [of g h GrantOk] q pc ne
      by (intro exI [of _ "gate_receive h GrantOk g"])
        (simp add: progress_def queued_for_def gate_rank_def gate_receive_def)
  qed
qed

lemma progress_exists:
  assumes "gate_inv g" and q: "queued_for r g"
  shows "\<exists>g'. progress r g g'"
proof -
  have w: "worker_inv g" using assms(1) by (simp add: gate_inv_def)
  note defs = progress_def queued_for_def gate_rank_def
  show ?thesis
  proof (cases "pc g")
    case Idle
    then have "wake g" using w q by (auto simp: worker_inv_def queued_for_def)
    then show ?thesis using Wake [OF Idle] q Idle
      by (intro exI [of _ "g\<lparr>wake := False, pc := Check\<rparr>"]) (simp add: defs)
  next
    case Counting
    then show ?thesis using Count [OF Counting] q
      by (intro exI [of _ "g\<lparr>acquisitions := acquisitions g + 1, pc := Locking\<rparr>"]) (simp add: defs)
  next
    case Locking
    then show ?thesis using Flock [OF Locking, of None] q
      by (intro exI [of _ "g\<lparr>kheld := True, pc := Locked None\<rparr>"]) (simp add: defs)
  next
    case (Locked e)
    then have "pc g = Locked None" using q by (cases e) (simp_all add: queued_for_def)
    then show ?thesis using progress_locked [OF q] by blast
  next
    case Unlocking
    then show ?thesis using Unlock [OF Unlocking, of None] q
      by (intro exI [of _ "g\<lparr>kheld := False, pc := Check\<rparr>"]) (simp add: defs gate_unlock_def)
  next
    case Dead
    then show ?thesis using w q by (simp add: worker_inv_def queued_for_def)
  qed (use progress_check [OF q] progress_serving [OF assms] in blast)+
qed

lemma servable_queued: "gate_inv g \<Longrightarrow> queued_for r g \<Longrightarrow> servable r g"
proof (induction "gate_rank g" arbitrary: g rule: less_induct)
  case less
  obtain g' where g': "gate_step g g'"
    "granted (reqs g' r) = Some GrantOk \<or> queued_for r g' \<and> gate_rank g' < gate_rank g"
    using progress_exists [OF less.prems] unfolding progress_def by blast
  have "gate_inv g'" using gate_steps_inv [OF r_into_rtranclp [of gate_step, OF g'(1)] less.prems(1)] .
  then have "servable r g'" using g'(2) servable_granted less.hyps by blast
  then show ?case by (rule servable_step [OF g'(1)])
qed

section \<open>Polling for the main lock\<close>

text \<open>
  One attempt of \<^verbatim>\<open>poll\<close> is the answer of the non-blocking \<^verbatim>\<open>flock\<close> and, when the lock is taken,
  what the \<^verbatim>\<open>select\<close> then saw: the context done with its cause, or the timer. The list of attempts is
  the history of the call; None says it is still polling when the history ends. The result tells
  whether the call left its descriptor open.
\<close>

datatype flock_answer = Acquired | WouldBlock | FlockError error

record lock_fd =
  fd_open :: bool
  fd_locked :: bool

fun poll_loop :: "string \<Rightarrow> (flock_answer \<times> error option) list \<Rightarrow> ((error + unit) \<times> lock_fd) option" where
  "poll_loop name [] = None"
| "poll_loop name ((Acquired, _) # _) = Some (Inr (), \<lparr>fd_open = True, fd_locked = True\<rparr>)"
| "poll_loop name ((FlockError e, _) # _) =
     Some (Inl (Wrapped ''acquire lock %s: %w'' [name] e), \<lparr>fd_open = False, fd_locked = False\<rparr>)"
| "poll_loop name ((WouldBlock, Some cause) # _) =
     Some (Inl (Wrapped ''acquire lock %s: %w'' [name] cause), \<lparr>fd_open = False, fd_locked = False\<rparr>)"
| "poll_loop name ((WouldBlock, None) # evs) = poll_loop name evs"

definition poll :: "string \<Rightarrow> error option \<Rightarrow> (flock_answer \<times> error option) list \<Rightarrow> ((error + unit) \<times> lock_fd) option" where
  "poll name openErr evs =
     (case openErr of
        Some e \<Rightarrow> Some (Inl (Wrapped ''open lock %s: %w'' [name] e), \<lparr>fd_open = False, fd_locked = False\<rparr>)
      | None \<Rightarrow> poll_loop name evs)"

text \<open>
  \<^verbatim>\<open>acquire\<close> of the locker over the answer of \<^verbatim>\<open>gate\<close>, the answer of the gate's \<^verbatim>\<open>acquire\<close> for caller r and
  the history of the poll. The gate is returned as the call leaves it.
\<close>

definition acquire_lock ::
  "string \<Rightarrow> error option \<Rightarrow> nat \<Rightarrow> error option \<Rightarrow> gate \<Rightarrow> error option \<Rightarrow>
   (flock_answer \<times> error option) list \<Rightarrow> ((error + unit) \<times> lock_fd \<times> gate) option" where
  "acquire_lock name gateErr r grantErr g openErr evs =
     (case gateErr of
        Some e \<Rightarrow> Some (Inl (Wrapped ''acquire intent %s: %w'' [name] e), \<lparr>fd_open = False, fd_locked = False\<rparr>, g)
      | None \<Rightarrow>
          (case grantErr of
             Some e \<Rightarrow> Some (Inl (Wrapped ''acquire intent %s: %w'' [name] e), \<lparr>fd_open = False, fd_locked = False\<rparr>, g)
           | None \<Rightarrow>
               (case poll name openErr evs of
                  None \<Rightarrow> None
                | Some (res, fd) \<Rightarrow> Some (res, fd, req_release r g))))"

text \<open>\<^verbatim>\<open>Release\<close> of the main lock: the descriptor is closed whatever the explicit unlock says.\<close>

definition flock_Release :: "error option \<Rightarrow> error option \<Rightarrow> lock_fd \<Rightarrow> error option \<times> lock_fd" where
  "flock_Release unlockErr closeErr fd =
     (case unlockErr of
        Some e \<Rightarrow> (Some (Wrapped ''release lock: %w'' [] e), fd\<lparr>fd_open := False, fd_locked := False\<rparr>)
      | None \<Rightarrow> (closeErr, fd\<lparr>fd_open := False, fd_locked := False\<rparr>))"

lemma poll_loop_result:
  "poll_loop name evs = Some (res, fd) \<Longrightarrow> (fd_open fd \<longleftrightarrow> res = Inr ()) \<and> (fd_locked fd \<longleftrightarrow> res = Inr ())"
  by (induction name evs rule: poll_loop.induct) auto

lemma poll_result:
  "poll name openErr evs = Some (res, fd) \<Longrightarrow> (fd_open fd \<longleftrightarrow> res = Inr ()) \<and> (fd_locked fd \<longleftrightarrow> res = Inr ())"
  by (auto simp: poll_def split: option.splits dest: poll_loop_result)

lemma poll_loop_returns:
  "list_ex (\<lambda>(a, c). a \<noteq> WouldBlock \<or> c \<noteq> None) evs \<Longrightarrow> poll_loop name evs \<noteq> None"
  by (induction name evs rule: poll_loop.induct) auto

lemma canceled_step: "gate_step g g' \<Longrightarrow> canceled (reqs g r) \<Longrightarrow> canceled (reqs g' r)"
  by (cases rule: gate_step.cases)
    (auto simp: gate_receive_def gate_cancel_def req_release_def pendingWork_def grantHead_def gate_unlock_def
        dropCanceled_def Let_def split: option.splits)

lemma canceled_steps: "gate_steps g g' \<Longrightarrow> canceled (reqs g r) \<Longrightarrow> canceled (reqs g' r)"
  by (induction rule: rtranclp_induct) (auto intro: canceled_step)

section \<open>Properties\<close>

text \<open>
  C5. Intent is exclusive: in every state the gate can reach, two callers that hold it are the same caller,
  and then the kernel lock is held, the worker is serving exactly that caller and the gate is not poisoned.
\<close>

theorem intent_exclusive:
  assumes "gate_reachable g" "phase (reqs g r) = Holding" "phase (reqs g s) = Holding"
  shows "r = s \<and> pc g = Serving r \<and> kheld g \<and> broken g = None"
proof -
  have i: "worker_inv g" "req_inv g r" "req_inv g s"
    using gate_inv_reachable [OF assms(1)] by (simp_all add: gate_inv_def)
  then have "pc g = Serving r" "pc g = Serving s"
    using assms(2,3) req_ok_holdingD by (auto simp: req_inv_def)
  then show ?thesis using i(1) by (auto simp: worker_inv_def)
qed

text \<open>One round of a single caller, up to the moment it holds the intent.\<close>

definition round_locked :: gate where
  "round_locked = (let g = gate_enqueue 0 newIntentGate; g = pendingWork (g\<lparr>wake := False, pc := Check\<rparr>)
     in g\<lparr>acquisitions := acquisitions g + 1, kheld := True, pc := Locked None\<rparr>)"

definition round_held :: gate where
  "round_held = gate_receive 0 GrantOk (grantHead None round_locked)"

lemma round_locked_steps: "gate_reachable round_locked"
proof -
  let ?a = "gate_enqueue 0 newIntentGate"
  let ?b = "?a\<lparr>wake := False, pc := Check\<rparr>"
  let ?c = "pendingWork ?b"
  let ?d = "?c\<lparr>acquisitions := acquisitions ?c + 1, pc := Locking\<rparr>"
  have p: "pc ?c = Counting"
    by (simp add: pendingWork_def dropCanceled_def newIntentGate_def new_req_def Let_def)
  have "gate_step newIntentGate ?a" by (rule Enqueue) (simp add: newIntentGate_def new_req_def)
  moreover have "gate_step ?a ?b" by (rule Wake) (simp_all add: newIntentGate_def)
  moreover have "gate_step ?b ?c" by (rule Pending) simp
  moreover have "gate_step ?c ?d" by (rule Count [OF p])
  moreover have "gate_step ?d (?d\<lparr>kheld := (None = (None :: error option)), pc := Locked None\<rparr>)"
    by (rule Flock) simp
  moreover have "?d\<lparr>kheld := (None = (None :: error option)), pc := Locked None\<rparr> = round_locked"
    by (simp add: round_locked_def Let_def)
  ultimately show ?thesis unfolding gate_reachable_def
    by (metis (no_types, lifting) rtranclp.simps)
qed

lemmas round_simps = round_held_def round_locked_def gate_receive_def grantHead_def pendingWork_def
  dropCanceled_def newIntentGate_def new_req_def Let_def

lemma round_held_steps: "gate_steps round_locked round_held"
proof -
  have "gate_step round_locked (grantHead None round_locked)" by (rule Grant) (simp add: round_simps)
  moreover have "gate_step (grantHead None round_locked) round_held"
    unfolding round_held_def by (rule Receive) (simp_all add: round_simps)
  ultimately show ?thesis by (metis (no_types, lifting) rtranclp.simps)
qed

lemma round_held_reachable: "gate_reachable round_held"
  using round_locked_steps round_held_steps unfolding gate_reachable_def by (rule rtranclp_trans)

theorem intent_exclusive_witness:
  "gate_reachable round_held \<and> phase (reqs round_held 0) = Holding \<and> pc round_held = Serving 0 \<and> kheld round_held"
proof -
  have h: "phase (reqs round_held 0) = Holding" by (simp add: round_simps)
  show ?thesis using intent_exclusive [OF round_held_reachable h h] round_held_reachable h by blast
qed

text \<open>
  C6. Cancellation is final and loses nothing: a caller that canceled while it was queued never afterwards is
  granted, holds, or is waited for by the worker; and whenever the worker waits for a caller that is gone, that
  caller has already released (the grant that raced its cancellation included), so the worker is never left
  waiting for a caller that gave up.
\<close>

theorem intent_cancel_final:
  assumes "gate_reachable g" "gate_steps g g'"
  shows "(canceled (reqs g r) \<longrightarrow> phase (reqs g' r) = Gone \<and> granted (reqs g' r) = None \<and> pc g' \<noteq> Serving r) \<and>
    (pc g' = Serving r \<and> phase (reqs g' r) = Gone \<longrightarrow> rdone (reqs g' r))"
proof -
  have "gate_inv g'" using gate_steps_inv [OF assms(2) gate_inv_reachable [OF assms(1)]] .
  then have i: "req_ok (reqs g' r) (r \<in> set (gqueue g')) (pc g' = Serving r)"
    by (simp add: gate_inv_def req_inv_def)
  have "pc g' = Serving r \<Longrightarrow> phase (reqs g' r) = Gone \<Longrightarrow> rdone (reqs g' r)"
    using i req_ok_servingD [of "reqs g' r"] by auto
  then show ?thesis using req_ok_canceledD [OF i] canceled_steps [OF assms(2), of r] by blast
qed

theorem intent_cancel_final_witness:
  "gate_reachable (gate_cancel 0 round_locked) \<and> canceled (reqs (gate_cancel 0 round_locked) 0) \<and>
   phase (reqs (grantHead None (gate_cancel 0 round_locked)) 0) = Gone"
proof -
  let ?c = "gate_cancel 0 round_locked"
  have "gate_step round_locked ?c" by (rule Cancel) (simp add: round_simps)
  then have r: "gate_reachable ?c"
    using round_locked_steps unfolding gate_reachable_def by (meson rtranclp.rtrancl_into_rtrancl)
  have "gate_steps ?c (grantHead None ?c)"
    by (rule r_into_rtranclp, rule Grant) (simp add: gate_cancel_def round_simps)
  moreover have "canceled (reqs ?c 0)" by (simp add: gate_cancel_def round_simps)
  ultimately show ?thesis using intent_cancel_final [OF r, of _ 0] r by blast
qed



text \<open>
  C8. Acquiring returns once the caller gives up or the kernel answers: a history in which some attempt got the
  lock, failed, or saw the context done ends the call, and it then leaves the intent released and a descriptor
  open, with the lock on it, exactly when it succeeded.
\<close>

theorem acquire_returns:
  assumes "list_ex (\<lambda>(a, c). a \<noteq> WouldBlock \<or> c \<noteq> None) evs"
  shows "\<exists>res fd g'. acquire_lock name gateErr r grantErr g openErr evs = Some (res, fd, g') \<and>
     (fd_open fd \<longleftrightarrow> res = Inr ()) \<and> (fd_locked fd \<longleftrightarrow> res = Inr ()) \<and>
     (gateErr = None \<and> grantErr = None \<longrightarrow> rdone (reqs g' r) \<and> phase (reqs g' r) = Gone)"
proof -
  obtain res fd where p: "poll name openErr evs = Some (res, fd)"
    using poll_loop_returns [OF assms, of name] by (cases openErr) (auto simp: poll_def)
  show ?thesis using poll_result [OF p]
    by (cases gateErr; cases grantErr) (auto simp: acquire_lock_def p req_release_def)
qed

theorem acquire_returns_witness:
  "\<exists>res fd g'. acquire_lock ''00-store'' None 0 None round_held None
       [(WouldBlock, None), (WouldBlock, Some (Plain ''context deadline exceeded'' []))] = Some (res, fd, g') \<and>
     (fd_open fd \<longleftrightarrow> res = Inr ()) \<and> (fd_locked fd \<longleftrightarrow> res = Inr ()) \<and>
     (None = (None :: error option) \<and> None = (None :: error option) \<longrightarrow> rdone (reqs g' 0) \<and> phase (reqs g' 0) = Gone)"
  by (rule acquire_returns) simp

end
