(* ===== verification/StoreTree.thy ===== *)
theory StoreTree
  imports Domain "HOL-Library.Multiset"
begin

text \<open>
  Directory trees and their canonical digest (\<^verbatim>\<open>internal/store/atomic.go\<close>): the walk, the entries, the
  manifest with one line per entry. A tree is what \<^verbatim>\<open>lstat\<close> and \<^verbatim>\<open>readdir\<close> show of it at one instant. The
  theorem says that the manifest, and with it the digest as far as the hash tells manifests apart, is a faithful
  summary: two trees have the same manifest exactly when they agree at every path on what is there, whatever
  order their directories list it in.
\<close>

section \<open>Trees\<close>

datatype node =
    RegularFile "32 word" string
  | Directory "(string \<times> node) list"
  | SpecialFile nat

text \<open>What the kernel guarantees of names in one directory.\<close>

definition file_name :: "string \<Rightarrow> bool" where
  "file_name n = (n \<noteq> '''' \<and> CHR ''/'' \<notin> set n \<and> CHR 0x00 \<notin> set n)"

fun wf_node :: "node \<Rightarrow> bool" where
  "wf_node (Directory ch) =
     (distinct (map fst ch) \<and> list_all (\<lambda>(n, x). file_name n \<and> wf_node x) ch)"
| "wf_node _ = True"

fun has_special :: "node \<Rightarrow> bool" where
  "has_special (Directory ch) = list_ex (\<lambda>(n, x). has_special x) ch"
| "has_special (SpecialFile _) = True"
| "has_special (RegularFile _ _) = False"

fun node_count :: "node \<Rightarrow> nat" where
  "node_count (Directory ch) = Suc (sum_list (map (\<lambda>(n, x). node_count x) ch))"
| "node_count _ = 1"

fun node_at :: "node \<Rightarrow> string list \<Rightarrow> node option" where
  "node_at n [] = Some n"
| "node_at (Directory ch) (c # cs) = (case map_of ch c of None \<Rightarrow> None | Some m \<Rightarrow> node_at m cs)"
| "node_at (RegularFile _ _) (c # cs) = None"
| "node_at (SpecialFile _) (c # cs) = None"

section \<open>The walk\<close>

record tree_entry =
  te_type :: char
  te_mode :: "32 word"
  te_size :: nat
  te_path :: string
  te_digest :: digest

definition normalizeFileMode :: "32 word \<Rightarrow> 32 word" where
  "normalizeFileMode m = (if m AND 0x40 \<noteq> 0 then 0x1ED else 0x1A4)"


fun octal :: "nat \<Rightarrow> string" where
  "octal n = (if n < 8 then [digit_char n] else octal (n div 8) @ [digit_char (n mod 8)])"

declare octal.simps [simp del]

text \<open>
  The worklist holds what is still to be visited, in the order \<^verbatim>\<open>WalkDir\<close> visits it: a directory puts its
  children, sorted by name, in front of the rest.
\<close>

abbreviation file_entry :: "(string \<Rightarrow> string) \<Rightarrow> string \<Rightarrow> 32 word \<Rightarrow> string \<Rightarrow> tree_entry" where
  "file_entry sha p m c \<equiv> \<lparr>te_type = CHR ''f'', te_mode = normalizeFileMode m, te_size = length c, te_path = p,
     te_digest = SHA256 sha c\<rparr>"

abbreviation dir_entry :: "string \<Rightarrow> tree_entry" where
  "dir_entry p \<equiv> \<lparr>te_type = CHR ''d'', te_mode = 0x1ED, te_size = 0, te_path = p, te_digest = zero_digest\<rparr>"

abbreviation work_size :: "(string \<times> node) list \<Rightarrow> nat" where
  "work_size ps \<equiv> sum_list (map (\<lambda>(p, n). node_count n) ps)"

lemma node_count_pos: "0 < node_count n"
  by (cases n) simp_all

lemma work_size_sort:
  fixes ch :: "(string \<times> node) list"
  shows "work_size (map (\<lambda>(n, x). (f n, x)) (sort_key fst ch)) = sum_list (map (\<lambda>(n, x). node_count x) ch)"
proof -
  have "sum_list (map g (sort_key fst ch)) = sum_list (map g ch)" for g :: "string \<times> node \<Rightarrow> nat"
    by (metis mset_map mset_sort sum_mset_sum_list)
  then show ?thesis by (simp add: split_def o_def)
qed

function walk_dir :: "(string \<Rightarrow> string) \<Rightarrow> (string \<times> node) list \<Rightarrow> error + tree_entry list" where
  "walk_dir sha [] = Inr []"
| "walk_dir sha ((p, RegularFile m c) # ps) =
     rbind (walk_dir sha ps) (\<lambda>es. Inr (file_entry sha p m c # es))"
| "walk_dir sha ((p, Directory ch) # ps) =
     rbind (walk_dir sha (map (\<lambda>(n, x). (p @ ''/'' @ n, x)) (sort_key fst ch) @ ps)) (\<lambda>es. Inr (dir_entry p # es))"
| "walk_dir sha ((p, SpecialFile _) # ps) =
     Inl (Class ErrInvalid ''%w: %s is not a regular file or directory'' [p])"
  by pat_completeness auto
termination
  by (relation "measure (\<lambda>(sha, ps). work_size ps)") (simp_all add: work_size_sort node_count_pos del: map_map)

definition tree_walk :: "(string \<Rightarrow> string) \<Rightarrow> node \<Rightarrow> error + tree_entry list" where
  "tree_walk sha t = (case t of Directory ch \<Rightarrow> walk_dir sha (sort_key fst ch) | _ \<Rightarrow> Inr [])"

definition manifest_line :: "tree_entry \<Rightarrow> string" where
  "manifest_line e =
     [te_type e] @ [CHR 0x00] @ ''0'' @ octal (unat (te_mode e)) @ [CHR 0x00] @ itoa (te_size e) @ [CHR 0x00] @
     te_path e @ [CHR 0x00] @
     (if te_type e = CHR ''f'' then Digest_String (te_digest e) else ''-'') @ [CHR 0x0A]"

definition DigestTree :: "(string \<Rightarrow> string) \<Rightarrow> node \<Rightarrow> error + (digest \<times> tree_entry list)" where
  "DigestTree sha t =
     rbind (tree_walk sha t) (\<lambda>es.
       let entries = sort_key te_path es
       in Inr (SHA256 sha (concat (map manifest_line entries)), entries))"

text \<open>\<^verbatim>\<open>treeBytes\<close>: everything that is not a directory counts with its size.\<close>

fun treeBytes :: "node \<Rightarrow> nat" where
  "treeBytes (RegularFile _ c) = length c"
| "treeBytes (SpecialFile n) = n"
| "treeBytes (Directory ch) = sum_list (map (\<lambda>(n, x). treeBytes x) ch)"

text \<open>\<^verbatim>\<open>syncTree\<close> visits the tree at path root in the same order and refuses the same files.\<close>

definition syncTree :: "string \<Rightarrow> node \<Rightarrow> error option" where
  "syncTree root t = (case walk_dir (\<lambda>_. '''') [(root, t)] of Inl e \<Rightarrow> Some e | Inr _ \<Rightarrow> None)"

section \<open>What the walk sees\<close>

definition path_text :: "string \<Rightarrow> string list \<Rightarrow> string" where
  "path_text p cs = p @ concat (map (\<lambda>c. CHR ''/'' # c) cs)"

lemma path_text_simps [simp]:
  "path_text p [] = p" "path_text p (c # cs) = path_text (p @ ''/'' @ c) cs"
  by (simp_all add: path_text_def)

definition entry_of :: "(string \<Rightarrow> string) \<Rightarrow> string \<Rightarrow> node \<Rightarrow> tree_entry" where
  "entry_of sha p n = (case n of RegularFile m c \<Rightarrow> file_entry sha p m c | _ \<Rightarrow> dir_entry p)"

definition entries_of :: "(string \<Rightarrow> string) \<Rightarrow> string \<times> node \<Rightarrow> tree_entry set" where
  "entries_of sha w = {entry_of sha (path_text (fst w) cs) m | cs m. node_at (snd w) cs = Some m}"

lemma walk_dir_success: "(\<exists>es. walk_dir sha ps = Inr es) \<longleftrightarrow> \<not> list_ex (\<lambda>(p, n). has_special n) ps"
proof (induction sha ps rule: walk_dir.induct)
  case (3 sha p ch ps)
  have "(\<exists>es. walk_dir sha ((p, Directory ch) # ps) = Inr es) \<longleftrightarrow>
      (\<exists>es. walk_dir sha (map (\<lambda>(n, x). (p @ ''/'' @ n, x)) (sort_key fst ch) @ ps) = Inr es)"
    by (auto simp: rbind_eq_Inr)
  moreover have "list_ex (\<lambda>(p, n). has_special n) (map (\<lambda>(n, x). (p @ ''/'' @ n, x)) (sort_key fst ch) @ ps)
      \<longleftrightarrow> list_ex (\<lambda>(p, n). has_special n) ((p, Directory ch) # ps)"
    by (simp add: list_ex_iff split_def image_Un bex_Un)
  ultimately show ?case using 3 by simp
qed (auto simp: rbind_eq_Inr)

lemma node_at_Directory:
  "node_at (Directory ch) cs = Some m \<longleftrightarrow>
     cs = [] \<and> m = Directory ch \<or> (\<exists>c cs' x. cs = c # cs' \<and> map_of ch c = Some x \<and> node_at x cs' = Some m)"
  by (cases cs) (auto split: option.splits)

lemma node_at_leaf:
  "node_at (RegularFile f b) cs = Some m \<longleftrightarrow> cs = [] \<and> m = RegularFile f b"
  "node_at (SpecialFile k) cs = Some m \<longleftrightarrow> cs = [] \<and> m = SpecialFile k"
  by (cases cs; auto)+

lemma ex_node_at_Directory:
  "(\<exists>cs m. node_at (Directory ch) cs = Some m \<and> P cs m) \<longleftrightarrow>
     P [] (Directory ch) \<or> (\<exists>c x cs m. map_of ch c = Some x \<and> node_at x cs = Some m \<and> P (c # cs) m)"
proof
  assume "\<exists>cs m. node_at (Directory ch) cs = Some m \<and> P cs m"
  then obtain cs m where "node_at (Directory ch) cs = Some m" "P cs m" by blast
  then show "P [] (Directory ch) \<or> (\<exists>c x cs m. map_of ch c = Some x \<and> node_at x cs = Some m \<and> P (c # cs) m)"
    unfolding node_at_Directory by blast
next
  assume "P [] (Directory ch) \<or> (\<exists>c x cs m. map_of ch c = Some x \<and> node_at x cs = Some m \<and> P (c # cs) m)"
  moreover have "node_at (Directory ch) [] = Some (Directory ch)" by simp
  moreover have "map_of ch c = Some x \<Longrightarrow> node_at x cs = Some m \<Longrightarrow> node_at (Directory ch) (c # cs) = Some m"
    for c x cs m by simp
  ultimately show "\<exists>cs m. node_at (Directory ch) cs = Some m \<and> P cs m" by blast
qed

lemma entries_of_iff: "e \<in> entries_of sha (p, n) \<longleftrightarrow> (\<exists>cs m. node_at n cs = Some m \<and> e = entry_of sha (path_text p cs) m)"
  by (auto simp: entries_of_def)

lemma entries_of_Directory:
  assumes "distinct (map fst ch)"
  shows "entries_of sha (p, Directory ch) =
    insert (dir_entry p) (\<Union>(n, x) \<in> set ch. entries_of sha (p @ ''/'' @ n, x))"
proof (rule set_eqI)
  fix e
  have m: "map_of ch n = Some x \<longleftrightarrow> (n, x) \<in> set ch" for n x
    using assms by (simp add: map_of_eq_Some_iff)
  have "e \<in> entries_of sha (p, Directory ch) \<longleftrightarrow>
      e = entry_of sha p (Directory ch) \<or>
      (\<exists>n x. (n, x) \<in> set ch \<and> e \<in> entries_of sha (p @ ''/'' @ n, x))"
    unfolding entries_of_iff ex_node_at_Directory m path_text_simps by blast
  also have "entry_of sha p (Directory ch) = dir_entry p" by (simp add: entry_of_def)
  finally show "e \<in> entries_of sha (p, Directory ch) \<longleftrightarrow>
      e \<in> insert (dir_entry p) (\<Union>(n, x) \<in> set ch. entries_of sha (p @ ''/'' @ n, x))"
    by auto
qed

lemma walk_dir_set:
  "walk_dir sha ps = Inr es \<Longrightarrow> list_all (\<lambda>(p, n). wf_node n) ps \<Longrightarrow> set es = (\<Union>w \<in> set ps. entries_of sha w)"
proof (induction sha ps arbitrary: es rule: walk_dir.induct)
  case (2 sha p m c ps)
  then obtain es' where "walk_dir sha ps = Inr es'" "es = file_entry sha p m c # es'" by (auto simp: rbind_eq_Inr)
  then show ?case using 2 by (simp add: entries_of_def node_at_leaf entry_of_def)
next
  case (3 sha p ch ps)
  let ?w = "map (\<lambda>(n, x). (p @ ''/'' @ n, x)) (sort_key fst ch)"
  obtain es' where w: "walk_dir sha (?w @ ps) = Inr es'" "es = dir_entry p # es'"
    using 3(2) by (auto simp: rbind_eq_Inr)
  have "list_all (\<lambda>(p, n). wf_node n) (?w @ ps)" using 3(3) by (auto simp: list_all_iff)
  then have "set es' = (\<Union>w \<in> set (?w @ ps). entries_of sha w)" by (rule 3(1) [OF w(1)])
  moreover have "entries_of sha (p, Directory ch) = insert (dir_entry p) (\<Union>w \<in> set ?w. entries_of sha w)"
    using 3(3) by (subst entries_of_Directory) (auto simp: split_def)
  ultimately show ?case using w(2) by auto
qed auto


section \<open>Paths are unambiguous\<close>

definition rel_text :: "string list \<Rightarrow> string" where
  "rel_text cs = concat (map (\<lambda>c. CHR ''/'' # c) cs)"

lemma path_text_rel: "path_text p cs = p @ rel_text cs"
  by (simp add: path_text_def rel_text_def)

lemma rel_text_takeWhile: "CHR ''/'' \<notin> set c \<Longrightarrow> takeWhile (\<lambda>x. x \<noteq> CHR ''/'') (c @ rel_text cs) = c"
  by (cases cs) (auto simp: rel_text_def takeWhile_append2 takeWhile_tail)

lemma rel_text_inj:
  "list_all file_name cs \<Longrightarrow> list_all file_name ds \<Longrightarrow> rel_text cs = rel_text ds \<Longrightarrow> cs = ds"
proof (induction cs arbitrary: ds)
  case Nil
  then show ?case by (cases ds) (simp_all add: rel_text_def)
next
  case (Cons c cs)
  then obtain d ds' where d: "ds = d # ds'" by (cases ds) (simp_all add: rel_text_def)
  have eq: "c @ rel_text cs = d @ rel_text ds'" using Cons.prems(3) by (simp add: d rel_text_def)
  have "CHR ''/'' \<notin> set c" "CHR ''/'' \<notin> set d" using Cons.prems by (simp_all add: d file_name_def)
  then have "c = d" using rel_text_takeWhile eq by metis
  then show ?case using Cons.IH [of ds'] Cons.prems eq by (simp add: d)
qed

lemma node_at_names: "node_at n cs = Some m \<Longrightarrow> wf_node n \<Longrightarrow> list_all file_name cs"
proof (induction n cs rule: node_at.induct)
  case (2 ch c cs)
  then obtain x where x: "map_of ch c = Some x" "node_at x cs = Some m" by (auto split: option.splits)
  then have "(c, x) \<in> set ch" by (simp add: map_of_SomeD)
  then have "file_name c" "wf_node x" using 2(3) by (auto simp: list_all_iff)
  then show ?case using 2(1) [OF x(1) x(2)] by simp
qed auto

definition under :: "string \<Rightarrow> string set" where
  "under p = {p @ rel_text cs | cs. list_all file_name cs}"

lemma under_self: "p \<in> under p"
  by (auto simp: under_def rel_text_def intro: exI [of _ "[]"])

lemma under_child: "file_name n \<Longrightarrow> under (p @ ''/'' @ n) \<subseteq> under p"
proof
  fix q assume n: "file_name n" and "q \<in> under (p @ ''/'' @ n)"
  then obtain cs where "q = p @ rel_text (n # cs)" "list_all file_name (n # cs)"
    by (auto simp: under_def rel_text_def)
  then show "q \<in> under p" unfolding under_def by blast
qed

lemma not_under_child: "p \<notin> under (p @ ''/'' @ n)"
  by (simp add: under_def)

lemma under_siblings:
  assumes "file_name m" "file_name n" "m \<noteq> n"
  shows "under (p @ ''/'' @ m) \<inter> under (p @ ''/'' @ n) = {}"
proof -
  have False if "p @ ''/'' @ m @ rel_text cs = p @ ''/'' @ n @ rel_text ds" "list_all file_name cs" "list_all file_name ds"
    for cs ds
  proof -
    have "rel_text (m # cs) = rel_text (n # ds)" using that(1) by (simp add: rel_text_def)
    then show False using rel_text_inj [of "m # cs" "n # ds"] assms that by simp
  qed
  then show ?thesis by (auto simp: under_def)
qed

lemma te_path_entry_of [simp]: "te_path (entry_of sha p n) = p"
  by (cases n) (simp_all add: entry_of_def)

lemma entries_of_under: "wf_node n \<Longrightarrow> e \<in> entries_of sha (p, n) \<Longrightarrow> te_path e \<in> under p"
  using node_at_names by (auto simp: entries_of_iff path_text_rel under_def)

abbreviation apart :: "string list \<Rightarrow> bool" where
  "apart \<equiv> sorted_wrt (\<lambda>p q. under p \<inter> under q = {})"

lemma apart_children:
  assumes "distinct ns" "list_all file_name ns"
  shows "apart (map (\<lambda>n. p @ ''/'' @ n) ns)"
  using assms
proof (induction ns)
  case (Cons n ns)
  have "under (p @ ''/'' @ n) \<inter> under (p @ ''/'' @ m) = {}" if "m \<in> set ns" for m
    by (rule under_siblings) (use Cons.prems that in \<open>auto simp: list_all_iff\<close>)
  then show ?case using Cons by simp
qed simp

lemma walk_dir_mem:
  assumes "walk_dir sha ps = Inr es" "list_all (\<lambda>(p, n). wf_node n) ps" "e \<in> set es"
  obtains q n where "(q, n) \<in> set ps" "e \<in> entries_of sha (q, n)" "wf_node n"
proof -
  from walk_dir_set [OF assms(1,2)] assms(3) obtain w where "w \<in> set ps" "e \<in> entries_of sha w" by blast
  then show thesis using assms(2) that [of "fst w" "snd w"] by (cases w) (auto simp: list_all_iff)
qed

lemma walk_dir_distinct:
  "walk_dir sha ps = Inr es \<Longrightarrow> list_all (\<lambda>(p, n). wf_node n) ps \<Longrightarrow> apart (map fst ps) \<Longrightarrow>
   distinct (map te_path es)"
proof (induction sha ps arbitrary: es rule: walk_dir.induct)
  case (2 sha p m c ps)
  then obtain es' where w: "walk_dir sha ps = Inr es'" "es = file_entry sha p m c # es'" by (auto simp: rbind_eq_Inr)
  have "te_path e \<noteq> p" if "e \<in> set es'" for e
  proof -
    have "list_all (\<lambda>(p, n). wf_node n) ps" using 2(3) by simp
    from w(1) this that obtain q n where q: "(q, n) \<in> set ps" "e \<in> entries_of sha (q, n)" "wf_node n"
      by (rule walk_dir_mem)
    then have "te_path e \<in> under q" by (intro entries_of_under)
    then show ?thesis using q(1) 2(4) under_self [of p] by fastforce
  qed
  then show ?case using 2(1) [OF w(1)] 2(3,4) w(2) by auto
next
  case (3 sha p ch ps)
  let ?w = "map (\<lambda>(n, x). (p @ ''/'' @ n, x)) (sort_key fst ch)"
  obtain es' where w: "walk_dir sha (?w @ ps) = Inr es'" "es = dir_entry p # es'"
    using 3(2) by (auto simp: rbind_eq_Inr)
  have wf: "list_all (\<lambda>(p, n). wf_node n) (?w @ ps)" using 3(3) by (auto simp: list_all_iff)
  have names: "list_all file_name (map fst (sort_key fst ch))" "distinct (map fst (sort_key fst ch))"
    using 3(3) by (auto simp: list_all_iff distinct_map inj_on_def)
  have fst_w: "map fst ?w = map (\<lambda>n. p @ ''/'' @ n) (map fst (sort_key fst ch))" by (simp add: split_def)
  have ap: "apart (map fst (?w @ ps))"
  proof -
    have "under q \<inter> under r = {}" if q: "q \<in> set (map fst ?w)" and r: "r \<in> set (map fst ps)" for q r
    proof -
      obtain n where "n \<in> set (map fst (sort_key fst ch))" "q = p @ ''/'' @ n"
        using q unfolding fst_w by auto
      then have "under q \<subseteq> under p" using names(1) under_child [of n p] by (simp only: list_all_iff)
      then show ?thesis using r 3(4) by fastforce
    qed
    moreover have "apart (map fst ?w)" unfolding fst_w by (rule apart_children [OF names(2,1)])
    ultimately show ?thesis using 3(4) unfolding map_append sorted_wrt_append by simp
  qed
  have "te_path e \<noteq> p" if "e \<in> set es'" for e
  proof -
    from w(1) wf that obtain q n where q: "(q, n) \<in> set (?w @ ps)" "e \<in> entries_of sha (q, n)" "wf_node n"
      by (rule walk_dir_mem)
    then have u: "te_path e \<in> under q" by (intro entries_of_under)
    show ?thesis
    proof (cases "(q, n) \<in> set ps")
      case True
      then show ?thesis using u 3(4) under_self [of p] by fastforce
    next
      case False
      then show ?thesis using q u not_under_child [of p] by auto
    qed
  qed
  then show ?case using 3(1) [OF w(1) wf ap] w(2) by auto
qed auto


section \<open>The manifest is injective\<close>

definition entry_ok :: "tree_entry \<Rightarrow> bool" where
  "entry_ok e \<longleftrightarrow>
     CHR 0x00 \<notin> set (te_path e) \<and> te_mode e \<in> {0x1A4, 0x1ED} \<and>
     (te_type e = CHR ''f'' \<and> valid_digest (te_digest e) \<or> te_type e = CHR ''d'' \<and> te_digest e = zero_digest)"

lemma octal_modes: "octal (unat (0x1A4 :: 32 word)) = ''644''" "octal (unat (0x1ED :: 32 word)) = ''755''"
  by code_simp+

lemma Digest_String_chars: "valid_digest d \<Longrightarrow> x \<in> set (Digest_String d) \<Longrightarrow> x \<noteq> CHR 0x0A \<and> x \<noteq> CHR 0x00"
  by (auto simp: Digest_String_valid valid_digest_def list_all_iff is_lower_hex_def)

lemma separator_inj:
  "x \<notin> set a \<Longrightarrow> x \<notin> set b \<Longrightarrow> a @ x # r = b @ x # s \<longleftrightarrow> a = b \<and> r = s"
proof (induction a arbitrary: b)
  case Nil
  then show ?case by (cases b) auto
next
  case (Cons y a)
  then show ?case by (cases b) auto
qed

lemma manifest_line_inj:
  assumes ok: "entry_ok e" "entry_ok f" and eq: "manifest_line e @ s = manifest_line f @ t"
  shows "e = f \<and> s = t"
proof -
  define ce where "ce = (if te_type e = CHR ''f'' then Digest_String (te_digest e) else ''-'')"
  define cf where "cf = (if te_type f = CHR ''f'' then Digest_String (te_digest f) else ''-'')"
  have lf: "CHR 0x0A \<notin> set ce" "CHR 0x0A \<notin> set cf"
    using ok Digest_String_chars by (auto simp: ce_def cf_def entry_ok_def)
  have num: "CHR 0x00 \<notin> set (itoa (te_size e))" "CHR 0x00 \<notin> set (itoa (te_size f))"
    by (simp_all add: itoa_no_char is_digit_def)
  have oct: "CHR 0x00 \<notin> set (octal (unat (te_mode e)))" "CHR 0x00 \<notin> set (octal (unat (te_mode f)))"
    using ok octal_modes by (auto simp: entry_ok_def)
  have line: "manifest_line e = te_type e # CHR 0x00 # CHR ''0'' # octal (unat (te_mode e)) @ CHR 0x00 # itoa (te_size e) @ CHR 0x00 #
      te_path e @ CHR 0x00 # ce @ [CHR 0x0A]"
    "manifest_line f = te_type f # CHR 0x00 # CHR ''0'' # octal (unat (te_mode f)) @ CHR 0x00 # itoa (te_size f) @ CHR 0x00 #
      te_path f @ CHR 0x00 # cf @ [CHR 0x0A]"
    by (simp_all only: manifest_line_def ce_def cf_def append.simps)
  have "te_type e = te_type f" and m: "octal (unat (te_mode e)) @ CHR 0x00 # itoa (te_size e) @ CHR 0x00 #
      te_path e @ CHR 0x00 # ce @ CHR 0x0A # s =
      octal (unat (te_mode f)) @ CHR 0x00 # itoa (te_size f) @ CHR 0x00 # te_path f @ CHR 0x00 # cf @ CHR 0x0A # t"
    using eq unfolding line by simp_all
  moreover have "octal (unat (te_mode e)) = octal (unat (te_mode f))"
    and m2: "itoa (te_size e) @ CHR 0x00 # te_path e @ CHR 0x00 # ce @ CHR 0x0A # s =
      itoa (te_size f) @ CHR 0x00 # te_path f @ CHR 0x00 # cf @ CHR 0x0A # t"
    using m oct by (simp_all add: separator_inj)
  moreover have "itoa (te_size e) = itoa (te_size f)"
    and m3: "te_path e @ CHR 0x00 # ce @ CHR 0x0A # s = te_path f @ CHR 0x00 # cf @ CHR 0x0A # t"
    using m2 num by (simp_all add: separator_inj)
  moreover have "te_path e = te_path f" and m4: "ce @ CHR 0x0A # s = cf @ CHR 0x0A # t"
    using m3 ok by (simp_all add: separator_inj entry_ok_def)
  moreover have "ce = cf" and "s = t" using m4 lf by (simp_all add: separator_inj)
  moreover have "te_mode e = te_mode f"
    using \<open>octal (unat (te_mode e)) = octal (unat (te_mode f))\<close> ok octal_modes by (auto simp: entry_ok_def)
  moreover have "te_digest e = te_digest f"
    using ok \<open>ce = cf\<close> \<open>te_type e = te_type f\<close> digest_text.show_inj
    by (auto simp: entry_ok_def ce_def cf_def)
  ultimately show ?thesis using itoa_inj by auto
qed

lemma manifest_inj:
  "list_all entry_ok es \<Longrightarrow> list_all entry_ok fs \<Longrightarrow>
   concat (map manifest_line es) = concat (map manifest_line fs) \<Longrightarrow> es = fs"
proof (induction es arbitrary: fs)
  case Nil
  then show ?case by (cases fs) (simp_all add: manifest_line_def)
next
  case (Cons e es)
  then obtain f fs' where f: "fs = f # fs'" by (cases fs) (simp_all add: manifest_line_def)
  show ?case using manifest_line_inj [of e f] Cons.IH [of fs'] Cons.prems by (simp add: f)
qed


section \<open>The digest determines the tree\<close>

lemma entry_ok_of:
  "hex_hash sha \<Longrightarrow> wf_node n \<Longrightarrow> node_at n cs = Some m \<Longrightarrow> \<not> has_special m \<Longrightarrow> CHR 0x00 \<notin> set p \<Longrightarrow>
   entry_ok (entry_of sha p m)"
  by (cases m) (auto simp: entry_ok_def entry_of_def normalizeFileMode_def valid_digest_SHA256)

lemma node_at_special: "node_at n cs = Some m \<Longrightarrow> has_special m \<Longrightarrow> has_special n"
proof (induction n cs rule: node_at.induct)
  case (2 ch c cs)
  then obtain x where x: "map_of ch c = Some x" "node_at x cs = Some m" by (auto split: option.splits)
  then show ?case using 2(1) [OF x(1) x(2)] 2(3) map_of_SomeD [OF x(1)] by (force simp: list_ex_iff)
qed auto

text \<open>The text of a path inside the tree.\<close>

fun tree_path :: "string list \<Rightarrow> string" where
  "tree_path [] = ''''"
| "tree_path (c # cs) = path_text c cs"

lemma tree_path_inj:
  "list_all file_name cs \<Longrightarrow> list_all file_name ds \<Longrightarrow> cs \<noteq> [] \<Longrightarrow> ds \<noteq> [] \<Longrightarrow> tree_path cs = tree_path ds \<Longrightarrow> cs = ds"
  using rel_text_inj [of cs ds] by (cases cs; cases ds) (simp_all add: path_text_rel rel_text_def)

lemma tree_path_no_nul: "list_all file_name cs \<Longrightarrow> CHR 0x00 \<notin> set (tree_path cs)"
  by (cases cs) (auto simp: path_text_def list_all_iff file_name_def)

text \<open>What the digest tells of a node: its kind, the executable bit, the length and the hash of the content.\<close>

definition summary :: "(string \<Rightarrow> string) \<Rightarrow> node \<Rightarrow> (bool \<times> nat \<times> string) option" where
  "summary sha n = (case n of RegularFile m c \<Rightarrow> Some (m AND 0x40 \<noteq> 0, length c, sha c) | _ \<Rightarrow> None)"

lemma entry_of_summary:
  "entry_of sha p m = entry_of sha q n \<longleftrightarrow> p = q \<and> summary sha m = summary sha n"
  by (cases m; cases n) (auto simp: entry_of_def summary_def normalizeFileMode_def SHA256_def)

lemma tree_walk_spec:
  assumes walk: "tree_walk sha t = Inr es" and wf: "wf_node t"
  shows "set es = {entry_of sha (tree_path cs) m | cs m. cs \<noteq> [] \<and> node_at t cs = Some m}"
    and "distinct (map te_path es)"
proof -
  have "set es = {entry_of sha (tree_path cs) m | cs m. cs \<noteq> [] \<and> node_at t cs = Some m} \<and> distinct (map te_path es)"
  proof (cases t)
    case (Directory ch)
    have d: "distinct (map fst ch)" "distinct (map fst (sort_key fst ch))" "list_all file_name (map fst (sort_key fst ch))"
      and w: "list_all (\<lambda>(p, n). wf_node n) (sort_key fst ch)"
      using wf by (auto simp: Directory list_all_iff distinct_map inj_on_def)
    have m: "map_of ch n = Some x \<longleftrightarrow> (n, x) \<in> set ch" for n x using d(1) by (simp add: map_of_eq_Some_iff)
    have es: "walk_dir sha (sort_key fst ch) = Inr es" using walk by (simp add: tree_walk_def Directory)
    have "e \<in> set es \<longleftrightarrow> (\<exists>c x. (c, x) \<in> set ch \<and> e \<in> entries_of sha (c, x))" for e
      using walk_dir_set [OF es w] by auto
    then have "e \<in> set es \<longleftrightarrow> (\<exists>c x cs m. map_of ch c = Some x \<and> node_at x cs = Some m \<and> e = entry_of sha (path_text c cs) m)" for e
      unfolding entries_of_iff m by blast
    moreover have "(\<exists>cs m. node_at t cs = Some m \<and> cs \<noteq> [] \<and> e = entry_of sha (tree_path cs) m) \<longleftrightarrow>
        (\<exists>c x cs m. map_of ch c = Some x \<and> node_at x cs = Some m \<and> e = entry_of sha (path_text c cs) m)" for e
      unfolding Directory ex_node_at_Directory by simp
    ultimately have "set es = {entry_of sha (tree_path cs) m | cs m. cs \<noteq> [] \<and> node_at t cs = Some m}" by blast
    moreover have "apart (map fst (sort_key fst ch))"
    proof -
      have "under m \<inter> under n = {}" if "file_name m" "file_name n" "m \<noteq> n" for m n
      proof -
        have "rel_text (m # cs) \<noteq> rel_text (n # ds)" if "list_all file_name cs" "list_all file_name ds" for cs ds
          using rel_text_inj [of "m # cs" "n # ds"] \<open>file_name m\<close> \<open>file_name n\<close> \<open>m \<noteq> n\<close> that by auto
        then have "m @ rel_text cs \<noteq> n @ rel_text ds" if "list_all file_name cs" "list_all file_name ds" for cs ds
          using that by (simp add: rel_text_def)
        then show ?thesis by (fastforce simp: under_def)
      qed
      then have "apart ns" if "distinct ns" "list_all file_name ns" for ns
        using that by (induction ns) (auto simp: list_all_iff)
      then show ?thesis using d by blast
    qed
    ultimately show ?thesis using walk_dir_distinct [OF es w] by simp
  next
    case (RegularFile f c)
    then show ?thesis using walk node_at_leaf(1) by (auto simp: tree_walk_def)
  next
    case (SpecialFile k)
    then show ?thesis using walk node_at_leaf(2) by (auto simp: tree_walk_def)
  qed
  then show "set es = {entry_of sha (tree_path cs) m | cs m. cs \<noteq> [] \<and> node_at t cs = Some m}"
    and "distinct (map te_path es)" by blast+
qed

lemma sort_entries_unique:
  assumes "distinct (map te_path es)" "distinct (map te_path fs)" "set es = set fs"
  shows "sort_key te_path es = sort_key te_path fs"
proof -
  have d: "distinct (map te_path (sort_key te_path xs))" if "distinct (map te_path xs)" for xs
    using that by (simp add: distinct_map inj_on_def)
  show ?thesis
    by (rule map_sorted_distinct_set_unique [where f = te_path])
      (use assms d in \<open>auto simp: distinct_map\<close>)
qed


lemma entries_ok:
  assumes "hex_hash sha" "wf_node t" "tree_walk sha t = Inr es"
  shows "list_all entry_ok (sort_key te_path es)"
proof -
  have "entry_ok (entry_of sha (tree_path cs) m)" if "node_at t cs = Some m" "cs \<noteq> []" for cs m
  proof -
    have "\<not> has_special m"
    proof (cases t)
      case (Directory ch)
      then have "\<not> has_special t"
        using assms(3) walk_dir_success [of sha "sort_key fst ch"] by (auto simp: tree_walk_def list_ex_iff)
      then show ?thesis using node_at_special [OF that(1)] by blast
    qed (use that in \<open>auto simp: node_at_leaf\<close>)
    then show ?thesis using entry_ok_of [OF assms(1,2) that(1)] tree_path_no_nul node_at_names [OF that(1) assms(2)] by blast
  qed
  then show ?thesis using tree_walk_spec(1) [OF assms(3,2)] by (auto simp: list_all_iff)
qed

lemma entry_set_eq:
  assumes wf: "wf_node t" "wf_node u"
  shows "{entry_of sha (tree_path cs) m | cs m. cs \<noteq> [] \<and> node_at t cs = Some m} =
      {entry_of sha (tree_path cs) m | cs m. cs \<noteq> [] \<and> node_at u cs = Some m} \<longleftrightarrow>
    (\<forall>cs. cs \<noteq> [] \<longrightarrow> map_option (summary sha) (node_at t cs) = map_option (summary sha) (node_at u cs))"
  (is "?S t = ?S u \<longleftrightarrow> ?R")
proof
  have step: "\<exists>n. node_at b cs = Some n \<and> summary sha m = summary sha n"
    if "?S a \<subseteq> ?S b" "wf_node a" "wf_node b" "cs \<noteq> []" "node_at a cs = Some m" for a b cs m
  proof -
    have "entry_of sha (tree_path cs) m \<in> ?S b" using that by blast
    then obtain ds n where n: "ds \<noteq> []" "node_at b ds = Some n"
      "tree_path cs = tree_path ds" "summary sha m = summary sha n"
      by (auto simp: entry_of_summary)
    have "cs = ds" by (rule tree_path_inj)
      (use that n node_at_names in \<open>auto intro: node_at_names\<close>)
    then show ?thesis using n by auto
  qed
  assume eq: "?S t = ?S u"
  show ?R
  proof (intro allI impI)
    fix cs :: "string list" assume cs: "cs \<noteq> []"
    show "map_option (summary sha) (node_at t cs) = map_option (summary sha) (node_at u cs)"
      using step [of t u cs] step [of u t cs] eq wf cs
      by (cases "node_at t cs"; cases "node_at u cs") auto
  qed
next
  have sub: "?S a \<subseteq> ?S b"
    if h: "\<forall>cs. cs \<noteq> [] \<longrightarrow> map_option (summary sha) (node_at a cs) = map_option (summary sha) (node_at b cs)" for a b
  proof
    fix e assume "e \<in> ?S a"
    then obtain cs m where m: "cs \<noteq> []" "node_at a cs = Some m" "e = entry_of sha (tree_path cs) m" by blast
    have "map_option (summary sha) (node_at b cs) = Some (summary sha m)" using h m(1,2) by (metis option.simps(9))
    then obtain n where "node_at b cs = Some n" "summary sha m = summary sha n" by auto
    then show "e \<in> ?S b" using m entry_of_summary [of sha "tree_path cs" m "tree_path cs" n] by blast
  qed
  assume ?R
  then show "?S t = ?S u" using sub [of t u] sub [of u t] by (auto simp: all_conj_distrib)
qed

text \<open>
  C20. The canonical manifest is a faithful summary of a tree: two trees get the same manifest, and so the same
  digest as long as the hash does not collide, exactly when at every path they agree on whether there is a
  file or a directory and, for a file, on its executable bit, its length and the hash of its content. The order
  in which directories list their entries and the other mode bits never matter.
\<close>

theorem DigestTree_exact:
  assumes "hex_hash sha" "wf_node t" "wf_node u"
    and "DigestTree sha t = Inr (d, es)" "DigestTree sha u = Inr (e, fs)"
  shows "d = SHA256 sha (concat (map manifest_line es)) \<and> e = SHA256 sha (concat (map manifest_line fs)) \<and>
    (concat (map manifest_line es) = concat (map manifest_line fs) \<longleftrightarrow>
      (\<forall>cs. cs \<noteq> [] \<longrightarrow> map_option (summary sha) (node_at t cs) = map_option (summary sha) (node_at u cs)))"
proof -
  obtain es' where t: "tree_walk sha t = Inr es'" "es = sort_key te_path es'" "d = SHA256 sha (concat (map manifest_line es))"
    using assms(4) by (auto simp: DigestTree_def rbind_eq_Inr Let_def)
  obtain fs' where u: "tree_walk sha u = Inr fs'" "fs = sort_key te_path fs'" "e = SHA256 sha (concat (map manifest_line fs))"
    using assms(5) by (auto simp: DigestTree_def rbind_eq_Inr Let_def)
  have "concat (map manifest_line es) = concat (map manifest_line fs) \<longleftrightarrow> es = fs"
    using manifest_inj entries_ok [OF assms(1,2) t(1)] entries_ok [OF assms(1,3) u(1)] t(2) u(2) by blast
  also have "\<dots> \<longleftrightarrow> set es' = set fs'"
    using sort_entries_unique tree_walk_spec(2) [OF t(1) assms(2)] tree_walk_spec(2) [OF u(1) assms(3)] t(2) u(2)
    by (metis set_sort)
  also have "\<dots> \<longleftrightarrow> (\<forall>cs. cs \<noteq> [] \<longrightarrow> map_option (summary sha) (node_at t cs) = map_option (summary sha) (node_at u cs))"
    unfolding tree_walk_spec(1) [OF t(1) assms(2)] tree_walk_spec(1) [OF u(1) assms(3)]
    by (rule entry_set_eq [OF assms(2,3)])
  finally show ?thesis using t(3) u(3) by blast
qed


text \<open>A tree listed in two orders, with different permission bits.\<close>

definition demo_sha :: "string \<Rightarrow> string" where
  "demo_sha b = (if b = '''' then replicate 64 (CHR ''0'') else replicate 64 (CHR ''1''))"

definition demo_tree :: "bool \<Rightarrow> node" where
  "demo_tree b =
     (let a = (''a'', Directory [(''x'', RegularFile (if b then 0x1C0 else 0x1ED) ''hi'')]);
          c = (''a.b'', RegularFile 0x180 '''')
      in Directory (if b then [a, c] else [c, a]))"

theorem DigestTree_exact_witness:
  "DigestTree demo_sha (demo_tree True) = DigestTree demo_sha (demo_tree False) \<and>
   map_option (summary demo_sha) (node_at (demo_tree True) [''a'', ''x'']) =
     map_option (summary demo_sha) (node_at (demo_tree False) [''a'', ''x''])"
proof -
  let ?t = "demo_tree True" and ?u = "demo_tree False"
  have h: "hex_hash demo_sha" by (simp add: hex_hash_def demo_sha_def is_lower_hex_def list_all_iff)
  have wf: "wf_node ?t" "wf_node ?u" by code_simp+
  have ok: "\<not> isl (tree_walk demo_sha ?t)" "\<not> isl (tree_walk demo_sha ?u)"
    "map_sum (\<lambda>_. ()) (sort_key te_path) (tree_walk demo_sha ?t) =
     map_sum (\<lambda>_. ()) (sort_key te_path) (tree_walk demo_sha ?u)"
    by code_simp+
  then obtain es fs where w: "tree_walk demo_sha ?t = Inr es" "tree_walk demo_sha ?u = Inr fs"
    by (cases "tree_walk demo_sha ?t"; cases "tree_walk demo_sha ?u") auto
  let ?d = "SHA256 demo_sha (concat (map manifest_line (sort_key te_path es)))"
  have eq: "sort_key te_path fs = sort_key te_path es" using ok(3) by (simp add: w)
  have t: "DigestTree demo_sha ?t = Inr (?d, sort_key te_path es)" by (simp add: DigestTree_def w Let_def)
  have u: "DigestTree demo_sha ?u = Inr (?d, sort_key te_path es)" by (simp add: DigestTree_def w eq Let_def)
  show ?thesis using DigestTree_exact [OF h wf t u] t u by simp
qed

end
