(* ===== verification/Host.thy ===== *)
theory Host
  imports Effect StoreTree "HOL-Library.AList"
begin

text \<open>
  The host file system as the store, the registry and the broker use it: one tree per directory of the
  layout (\<^verbatim>\<open>internal/paths/layout.go\<close>), with paths given by their components below it. Every call is hit by at
  most one fault of a schedule. A call that reports that something does not exist, or already exists, is a
  value, so that no injected fault can be mistaken for one. Modification times, and the shared locks other
  processes hold on an object directory (their leases), are part of the state that this
  process does not control.
\<close>

section \<open>State\<close>

datatype hdir = Artifacts | Candidates | Snapshots | Staging | Bin | BrokerDir | Approvals | DevRecords | ReplaceDir | Projects

type_synonym hpath = "hdir \<times> string list"

record host =
  tree :: "hdir \<Rightarrow> node option"
  root_path :: "hdir \<Rightarrow> string"
  mtimes :: "hpath \<Rightarrow> int"
  leased :: "hpath \<Rightarrow> nat"
  now :: int
  suffixes :: "nat list"
  hfaults :: "outcome list"

type_synonym 'a hio = "(host, 'a) eff"

text \<open>Writing (or, with None, removing) a node below directories that exist.\<close>

fun set_at :: "node \<Rightarrow> string list \<Rightarrow> node option \<Rightarrow> node" where
  "set_at (Directory ch) [c] v =
     Directory (case v of None \<Rightarrow> AList.delete c ch | Some n \<Rightarrow> AList.update c n ch)"
| "set_at (Directory ch) (c # d # cs) v =
     (case map_of ch c of None \<Rightarrow> Directory ch | Some m \<Rightarrow> Directory (AList.update c (set_at m (d # cs) v) ch))"
| "set_at n _ _ = n"

definition lookup :: "host \<Rightarrow> hpath \<Rightarrow> node option" where
  "lookup s p = Option.bind (tree s (fst p)) (\<lambda>t. node_at t (snd p))"

definition put :: "hpath \<Rightarrow> node option \<Rightarrow> host \<Rightarrow> host" where
  "put p v s =
     s\<lparr>tree := (tree s)(fst p := (if snd p = [] then v else map_option (\<lambda>t. set_at t (snd p) v) (tree s (fst p))))\<rparr>"

lemma node_at_set_at_other:
  "\<not> prefix p q \<Longrightarrow> \<not> prefix q p \<Longrightarrow> node_at (set_at t p v) q = node_at t q"
proof (induction t p v arbitrary: q rule: set_at.induct)
  case (1 ch c v)
  then show ?case
    by (cases q) (auto simp: map_of_delete update_conv' AList.delete_conv' split: option.splits)
next
  case (2 ch c d cs v)
  show ?case
  proof (cases q)
    case (Cons x xs)
    show ?thesis
    proof (cases "x = c")
      case True
      then have "\<not> prefix (d # cs) xs" "\<not> prefix xs (d # cs)" using 2(2,3) Cons by auto
      then show ?thesis using 2(1) True Cons by (auto simp: update_conv' split: option.splits)
    next
      case False
      then show ?thesis using Cons by (auto simp: update_conv' split: option.splits)
    qed
  qed (use 2 in simp)
qed auto


lemma node_at_leaf_if:
  "node_at (RegularFile m b) p = (if p = [] then Some (RegularFile m b) else None)"
  "node_at (SpecialFile k) p = (if p = [] then Some (SpecialFile k) else None)"
  by (cases p; simp)+

text \<open>Reading at the place just written.\<close>

lemma node_at_set_at_removed: "p \<noteq> [] \<Longrightarrow> node_at (set_at t p None) p = None"
proof (induction t p "None :: node option" rule: set_at.induct)
  case (2 ch c d cs)
  then show ?case by (auto simp: update_conv' split: option.splits)
qed (auto simp: AList.delete_conv' node_at_leaf_if split: option.splits)

lemma node_at_set_at_written:
  "p \<noteq> [] \<Longrightarrow> node_at t (butlast p) = Some (Directory ch) \<Longrightarrow> node_at (set_at t p (Some n)) p = Some n"
proof (induction t p "Some n" arbitrary: ch rule: set_at.induct)
  case (2 dch c d cs)
  then show ?case by (auto simp: update_conv' split: option.splits if_splits)
qed (auto simp: update_conv' node_at_leaf_if split: option.splits if_splits)

section \<open>Calls\<close>

definition hcall :: "(host \<Rightarrow> (error + 'a) \<times> host) \<Rightarrow> 'a hio" where
  "hcall = scheduled hfaults (\<lambda>fs s. s\<lparr>hfaults := fs\<rparr>)"

definition hquery :: "(host \<Rightarrow> error + 'a) \<Rightarrow> 'a hio" where
  "hquery f = hcall (\<lambda>s. (f s, s))"

definition hupdate :: "(host \<Rightarrow> host) \<Rightarrow> unit hio" where
  "hupdate f = hcall (\<lambda>s. (Inr (), f s))"

text \<open>\<^verbatim>\<open>os.ReadDir\<close>: the entries by name, or None when there is no such directory.\<close>

definition os_ReadDir :: "hpath \<Rightarrow> (string \<times> node) list option hio" where
  "os_ReadDir p = hquery (\<lambda>s.
     case lookup s p of
       None \<Rightarrow> Inr None
     | Some (Directory ch) \<Rightarrow> Inr (Some (sort_key fst ch))
     | Some _ \<Rightarrow> Inl (Plain ''not a directory'' []))"

definition os_Lstat :: "hpath \<Rightarrow> node option hio" where
  "os_Lstat p = hquery (\<lambda>s. Inr (lookup s p))"

definition os_ReadFile :: "hpath \<Rightarrow> string option hio" where
  "os_ReadFile p = hquery (\<lambda>s.
     case lookup s p of
       None \<Rightarrow> Inr None
     | Some (RegularFile _ b) \<Rightarrow> Inr (Some b)
     | Some _ \<Rightarrow> Inl (Plain ''not a regular file'' []))"

text \<open>\<^verbatim>\<open>os.Remove\<close>: a file or an empty directory; False says there was nothing.\<close>

definition os_Remove :: "hpath \<Rightarrow> bool hio" where
  "os_Remove p = hcall (\<lambda>s.
     case lookup s p of
       None \<Rightarrow> (Inr False, s)
     | Some (Directory (_ # _)) \<Rightarrow> (Inl (Plain ''directory not empty'' []), s)
     | Some _ \<Rightarrow> (Inr True, put p None s))"

definition os_RemoveAll :: "hpath \<Rightarrow> unit hio" where
  "os_RemoveAll p = hupdate (put p None)"

definition has_parent :: "host \<Rightarrow> hpath \<Rightarrow> bool" where
  "has_parent s p = (case lookup s (fst p, butlast (snd p)) of Some (Directory _) \<Rightarrow> True | _ \<Rightarrow> False)"

text \<open>\<^verbatim>\<open>os.MkdirAll\<close>: every missing directory of the path, from the top.\<close>

fun mkdir_all :: "hdir \<Rightarrow> string list \<Rightarrow> string list \<Rightarrow> host \<Rightarrow> (error + unit) \<times> host" where
  "mkdir_all D pre rest s =
     (case lookup s (D, pre) of
        Some (Directory _) \<Rightarrow> (case rest of [] \<Rightarrow> (Inr (), s) | c # cs \<Rightarrow> mkdir_all D (pre @ [c]) cs s)
      | Some _ \<Rightarrow> (Inl (Plain ''not a directory'' []), s)
      | None \<Rightarrow>
          (case rest of
             [] \<Rightarrow> (Inr (), put (D, pre) (Some (Directory [])) s)
           | c # cs \<Rightarrow> mkdir_all D (pre @ [c]) cs (put (D, pre) (Some (Directory [])) s)))"

definition os_MkdirAll :: "hpath \<Rightarrow> unit hio" where
  "os_MkdirAll p = hcall (\<lambda>s.
     if list_all file_name (snd p) then mkdir_all (fst p) [] (snd p) s else (Inl (Plain ''invalid argument'' []), s))"

text \<open>\<^verbatim>\<open>os.OpenFile\<close> with \<^verbatim>\<open>O_CREATE|O_EXCL\<close>, and a write through the descriptor it gave.\<close>

definition os_OpenExcl :: "hpath \<Rightarrow> 32 word \<Rightarrow> unit hio" where
  "os_OpenExcl p perm = hcall (\<lambda>s.
     if \<not> list_all file_name (snd p) then (Inl (Plain ''invalid argument'' []), s)
     else if lookup s p \<noteq> None then (Inl (Plain ''file exists'' []), s)
     else if \<not> has_parent s p then (Inl (Plain ''no such file or directory'' []), s)
     else (Inr (), put p (Some (RegularFile perm [])) s))"

definition os_Write :: "hpath \<Rightarrow> string \<Rightarrow> unit hio" where
  "os_Write p bytes = hcall (\<lambda>s.
     case lookup s p of
       Some (RegularFile m _) \<Rightarrow> (Inr (), put p (Some (RegularFile m bytes)) s)
     | _ \<Rightarrow> (Inl (Plain ''bad file descriptor'' []), s))"

definition os_Chmod :: "hpath \<Rightarrow> 32 word \<Rightarrow> unit hio" where
  "os_Chmod p perm = hcall (\<lambda>s.
     case lookup s p of
       None \<Rightarrow> (Inl (Plain ''no such file or directory'' []), s)
     | Some (RegularFile _ b) \<Rightarrow> (Inr (), put p (Some (RegularFile perm b)) s)
     | Some _ \<Rightarrow> (Inr (), s))"

text \<open>
  \<^verbatim>\<open>os.Rename\<close>: False says that the target is a directory, which Go reports as \<^verbatim>\<open>ErrExist\<close> without trying.
\<close>

definition os_Rename :: "hpath \<Rightarrow> hpath \<Rightarrow> bool hio" where
  "os_Rename p q = hcall (\<lambda>s.
     case (lookup s p, lookup s q) of
       (None, _) \<Rightarrow> (Inl (Plain ''no such file or directory'' []), s)
     | (Some n, Some (Directory _)) \<Rightarrow> (Inr False, s)
     | (Some (Directory _), Some _) \<Rightarrow> (Inl (Plain ''not a directory'' []), s)
     | (Some n, _) \<Rightarrow>
         if has_parent s q then (Inr True, put q (Some n) (put p None s))
         else (Inl (Plain ''no such file or directory'' []), s))"

text \<open>The first number of the random supply under which the name is free.\<close>

fun fresh_name :: "host \<Rightarrow> hdir \<times> string list \<Rightarrow> string \<Rightarrow> nat list \<Rightarrow> (string \<times> nat list) option" where
  "fresh_name s dir pre [] = None"
| "fresh_name s dir pre (x # xs) =
     (if lookup s (fst dir, snd dir @ [pre @ itoa x]) = None then Some (pre @ itoa x, xs) else fresh_name s dir pre xs)"

definition os_CreateTemp :: "node \<Rightarrow> hpath \<Rightarrow> string \<Rightarrow> string hio" where
  "os_CreateTemp n dir pre = hcall (\<lambda>s.
     if \<not> has_parent s (fst dir, snd dir @ [pre]) then (Inl (Plain ''no such file or directory'' []), s)
     else case fresh_name s dir pre (suffixes s) of
       None \<Rightarrow> (Inl (Plain ''file exists'' []), s)
     | Some (name, rest) \<Rightarrow> (Inr name, put (fst dir, snd dir @ [name]) (Some n) (s\<lparr>suffixes := rest\<rparr>)))"

definition os_MkdirTemp :: "hpath \<Rightarrow> string \<Rightarrow> string hio" where
  "os_MkdirTemp = os_CreateTemp (Directory [])"

text \<open>A step that can only fail: fsync, chmod, close, the acquisition of a host lock.\<close>

definition os_step :: "unit hio" where
  "os_step = hquery (\<lambda>_. Inr ())"

text \<open>\<^verbatim>\<open>WriteFileAtomic\<close>: write beside the target, rename over it, sync the directory.\<close>

definition WriteFileAtomic :: "hdir \<times> string list \<Rightarrow> string \<Rightarrow> string \<Rightarrow> 32 word \<Rightarrow> unit hio" where
  "WriteFileAtomic dir base bytes perm =
     io_bind (os_CreateTemp (RegularFile 0x180 []) dir (''.'' @ base @ ''.tmp-'')) (\<lambda>tmp.
       let t = (fst dir, snd dir @ [tmp]) in
       io_defer (io_then (os_Remove t) (io_ret ()))
         (io_then (hupdate (put t (Some (RegularFile 0x180 bytes))))
         (io_then (hupdate (put t (Some (RegularFile perm bytes))))
         (io_then os_step
         (io_then os_step
         (io_bind (os_Rename t (fst dir, snd dir @ [base])) (\<lambda>ok.
          if ok then os_step else io_fail (Plain ''file exists'' []))))))))"


section \<open>Rules for the calls\<close>

text \<open>Assertions that do not look at the schedule or at the supply of random names.\<close>

definition hassert :: "(host \<Rightarrow> bool) \<Rightarrow> bool" where
  "hassert P \<longleftrightarrow> (\<forall>s fs. P (s\<lparr>hfaults := fs\<rparr>) = P s) \<and> (\<forall>s xs. P (s\<lparr>suffixes := xs\<rparr>) = P s)"

named_theorems hassert_intros \<open>assertions on the host that ignore schedule and supply\<close>

lemma lookup_simps [simp]:
  "lookup (s\<lparr>hfaults := fs\<rparr>) p = lookup s p" "lookup (s\<lparr>suffixes := xs\<rparr>) p = lookup s p"
  "lookup (s\<lparr>leased := l\<rparr>) p = lookup s p"
  by (simp_all add: lookup_def)

lemma put_simps [simp]:
  "leased (put p v s) = leased s" "mtimes (put p v s) = mtimes s" "now (put p v s) = now s"
  "hfaults (put p v s) = hfaults s" "root_path (put p v s) = root_path s" "suffixes (put p v s) = suffixes s"
  by (simp_all add: put_def)

lemma hassert_lookup [hassert_intros]: "hassert (\<lambda>s. lookup s p = v)"
  by (simp add: hassert_def)

lemma hassert_leased [hassert_intros]: "hassert (\<lambda>s. P (leased s))"
  by (simp add: hassert_def)

lemma hassert_const [hassert_intros]: "hassert (\<lambda>s. c)"
  by (simp add: hassert_def)

lemma hassert_conj [hassert_intros]: "hassert P \<Longrightarrow> hassert Q \<Longrightarrow> hassert (\<lambda>s. P s \<and> Q s)"
  by (simp add: hassert_def)

lemma hassert_imp [hassert_intros]: "hassert P \<Longrightarrow> hassert Q \<Longrightarrow> hassert (\<lambda>s. P s \<longrightarrow> Q s)"
  by (simp add: hassert_def)

lemma hassert_all [hassert_intros]: "(\<And>x. hassert (P x)) \<Longrightarrow> hassert (\<lambda>s. \<forall>x. P x s)"
  by (simp add: hassert_def)

lemma triple_hcall:
  assumes "hassert P"
    and "\<And>s s' x. P s \<Longrightarrow> f s = (Inr x, s') \<Longrightarrow> Q x s' \<and> (\<forall>e. E e s')"
    and "\<And>s s' e. P s \<Longrightarrow> f s = (Inl e, s') \<Longrightarrow> E e s'"
    and "\<And>s e. P s \<Longrightarrow> E e s" "\<And>s. P s \<Longrightarrow> C s"
  shows "triple P (hcall f) Q E C"
  unfolding hcall_def by (rule triple_scheduled) (use assms in \<open>auto simp: hassert_def\<close>)

lemma triple_hquery:
  assumes "hassert P" "\<And>s x. P s \<Longrightarrow> f s = Inr x \<Longrightarrow> Q x s" "\<And>s e. P s \<Longrightarrow> E e s" "\<And>s. P s \<Longrightarrow> C s"
  shows "triple P (hquery f) Q E C"
  unfolding hquery_def by (rule triple_hcall) (use assms in auto)

lemma triple_hupdate:
  assumes "hassert P" "\<And>s. P s \<Longrightarrow> Q () (f s)" "\<And>s e. P s \<Longrightarrow> E e s \<and> E e (f s)" "\<And>s. P s \<Longrightarrow> C s"
  shows "triple P (hupdate f) Q E C"
  unfolding hupdate_def by (rule triple_hcall) (use assms in auto)

text \<open>What a call may write without an assertion noticing.\<close>

definition writable :: "(host \<Rightarrow> bool) \<Rightarrow> hpath \<Rightarrow> node option \<Rightarrow> bool" where
  "writable P p v \<longleftrightarrow> (\<forall>s. P s \<longrightarrow> P (put p v s))"

named_theorems keeps_intros \<open>assertions kept by the operations of the host\<close>

lemma keeps_hquery [keeps_intros]: "hassert P \<Longrightarrow> keeps P (hquery f)"
  by (rule triple_hquery)

lemma keeps_hupdate: "hassert P \<Longrightarrow> (\<And>s. P s \<Longrightarrow> P (f s)) \<Longrightarrow> keeps P (hupdate f)"
  by (rule triple_hupdate) auto

lemma keeps_put [keeps_intros]: "hassert P \<Longrightarrow> writable P p v \<Longrightarrow> keeps P (hupdate (put p v))"
  by (rule keeps_hupdate) (auto simp: writable_def)

lemma keeps_queries [keeps_intros]:
  assumes "hassert P"
  shows "keeps P (os_ReadDir p)" "keeps P (os_Lstat p)" "keeps P (os_ReadFile p)" "keeps P os_step"
  unfolding os_ReadDir_def os_Lstat_def os_ReadFile_def os_step_def
  by (rule keeps_hquery [OF assms])+

lemma keeps_Remove [keeps_intros]: "hassert P \<Longrightarrow> writable P p None \<Longrightarrow> keeps P (os_Remove p)"
  unfolding os_Remove_def
  by (rule triple_hcall) (auto simp: writable_def split: option.splits node.splits list.splits)

lemma keeps_RemoveAll [keeps_intros]: "hassert P \<Longrightarrow> writable P p None \<Longrightarrow> keeps P (os_RemoveAll p)"
  unfolding os_RemoveAll_def by (rule keeps_put)

lemma keeps_Rename:
  "hassert P \<Longrightarrow> (\<And>s n. P s \<Longrightarrow> lookup s p = Some n \<Longrightarrow> P (put q (Some n) (put p None s))) \<Longrightarrow> keeps P (os_Rename p q)"
  unfolding os_Rename_def
  by (rule triple_hcall) (auto split: option.splits node.splits if_splits)

lemma fresh_nameD:
  "fresh_name s dir pre xs = Some (n, ys) \<Longrightarrow> lookup s (fst dir, snd dir @ [n]) = None \<and> (\<exists>x. n = pre @ itoa x)"
  by (induction xs) (auto split: if_splits)

lemma lookup_put_written: "snd p \<noteq> [] \<Longrightarrow> has_parent s p \<Longrightarrow> lookup (put p (Some n) s) p = Some n"
  by (cases "tree s (fst p)")
    (auto simp: lookup_def put_def has_parent_def node_at_set_at_written split: option.splits node.splits)

lemma has_parent_simps [simp]:
  "has_parent (s\<lparr>suffixes := xs\<rparr>) p = has_parent s p" "has_parent (s\<lparr>hfaults := fs\<rparr>) p = has_parent s p"
  by (simp_all add: has_parent_def)

lemma triple_CreateTemp:
  assumes "hassert P"
    and "\<And>s x. P s \<Longrightarrow> lookup s (fst dir, snd dir @ [pre @ itoa x]) = None \<Longrightarrow>
       P (put (fst dir, snd dir @ [pre @ itoa x]) (Some n) s)"
  shows "triple P (os_CreateTemp n dir pre)
    (\<lambda>name s. (\<exists>x. name = pre @ itoa x) \<and> P s \<and> lookup s (fst dir, snd dir @ [name]) = Some n) (\<lambda>_. P) P"
  unfolding os_CreateTemp_def
proof (rule triple_hcall [OF assms(1)], goal_cases)
  case (1 s s' name)
  then obtain rest where r: "has_parent s (fst dir, snd dir @ [pre])"
    "fresh_name s dir pre (suffixes s) = Some (name, rest)"
    "s' = put (fst dir, snd dir @ [name]) (Some n) (s\<lparr>suffixes := rest\<rparr>)"
    by (auto split: if_splits option.splits)
  then obtain x where x: "name = pre @ itoa x" "lookup s (fst dir, snd dir @ [pre @ itoa x]) = None"
    using fresh_nameD by blast
  have "P (s\<lparr>suffixes := rest\<rparr>)" using 1(1) assms(1) by (simp add: hassert_def)
  moreover have "has_parent (s\<lparr>suffixes := rest\<rparr>) (fst dir, snd dir @ [name])" using r(1) by (simp add: has_parent_def)
  ultimately show ?case using r(3) x assms(2) [of "s\<lparr>suffixes := rest\<rparr>" x] by (auto intro: lookup_put_written)
qed (auto split: if_splits option.splits)

lemma keeps_CreateTemp:
  "hassert P \<Longrightarrow> (\<And>x. writable P (fst dir, snd dir @ [pre @ itoa x]) (Some n)) \<Longrightarrow> keeps P (os_CreateTemp n dir pre)"
  by (rule triple_post [OF triple_CreateTemp]) (auto simp: writable_def)

text \<open>Sequencing for kept assertions.\<close>

lemma keeps_ops [keeps_intros]:
  "keeps P (io_ret x)" "keeps P (io_fail e)" "keeps P (io_of r)"
  "keeps P m \<Longrightarrow> (\<And>x. keeps P (f x)) \<Longrightarrow> keeps P (io_bind m f)"
  "keeps P m \<Longrightarrow> keeps P (io_try m)"
  "keeps P m \<Longrightarrow> keeps P (io_wrap g as m)"
  "keeps P c \<Longrightarrow> keeps P m \<Longrightarrow> keeps P (io_defer c m)"
  by (auto intro: triple_ret triple_fail triple_of triple_bind triple_try triple_wrap triple_defer)

lemma keeps_cases [keeps_intros]:
  "(\<And>e. keeps P (f e)) \<Longrightarrow> (\<And>x. keeps P (g x)) \<Longrightarrow> keeps P (case r of Inl e \<Rightarrow> f e | Inr x \<Rightarrow> g x)"
  "keeps P h \<Longrightarrow> (\<And>x. keeps P (g x)) \<Longrightarrow> keeps P (case q of None \<Rightarrow> h | Some x \<Rightarrow> g x)"
  "(b \<Longrightarrow> keeps P h) \<Longrightarrow> (\<not> b \<Longrightarrow> keeps P k) \<Longrightarrow> keeps P (if b then h else k)"
  "(\<And>x y. keeps P (i x y)) \<Longrightarrow> keeps P (case z of (x, y) \<Rightarrow> i x y)"
  by (auto split: sum.splits option.splits prod.splits)

lemma keeps_fold [keeps_intros]: "(\<And>x b. x \<in> set xs \<Longrightarrow> keeps P (f x b)) \<Longrightarrow> keeps P (io_fold f xs b)"
  by (rule triple_fold [where P = "\<lambda>_. P"])

lemma keeps_each [keeps_intros]: "(\<And>x. x \<in> set xs \<Longrightarrow> keeps P (f x)) \<Longrightarrow> keeps P (io_each f xs)"
  by (rule triple_each)

text \<open>Writing in one place does not show at a place apart from it.\<close>

definition path_apart :: "hpath \<Rightarrow> hpath \<Rightarrow> bool" where
  "path_apart p q \<longleftrightarrow> fst p \<noteq> fst q \<or> \<not> prefix (snd p) (snd q) \<and> \<not> prefix (snd q) (snd p)"

lemma lookup_put_apart [simp]: "path_apart p q \<Longrightarrow> lookup (put q v s) p = lookup s p"
  by (cases "tree s (fst q)") (auto simp: path_apart_def lookup_def put_def node_at_set_at_other)

lemma lookup_put_removed: "snd p \<noteq> [] \<Longrightarrow> lookup (put p None s) p = None"
  by (cases "tree s (fst p)") (simp_all add: lookup_def put_def node_at_set_at_removed)

lemma node_at_set_at_replaced: "p \<noteq> [] \<Longrightarrow> node_at t p = Some m \<Longrightarrow> node_at (set_at t p (Some n)) p = Some n"
proof (induction t p "Some n" rule: set_at.induct)
  case (2 dch c d cs)
  then show ?case by (auto simp: update_conv' split: option.splits if_splits)
qed (auto simp: update_conv' node_at_leaf_if split: option.splits if_splits)

lemma lookup_put_replaced: "snd p \<noteq> [] \<Longrightarrow> lookup s p = Some m \<Longrightarrow> lookup (put p (Some n) s) p = Some n"
  by (cases "tree s (fst p)") (auto simp: lookup_def put_def node_at_set_at_replaced)

lemma writable_lookup: "path_apart p q \<Longrightarrow> writable (\<lambda>s. lookup s p = v \<and> R (leased s)) q w"
  by (simp add: writable_def)

lemma writableI: "(\<And>s. P s \<Longrightarrow> P (put p v s)) \<Longrightarrow> writable P p v"
  by (simp add: writable_def)

text \<open>Above the place written a directory stays a directory.\<close>

lemma node_at_set_at_above:
  "q \<noteq> [] \<Longrightarrow> node_at (set_at t (p @ q) v) p = map_option (\<lambda>m. set_at m q v) (node_at t p)"
proof (induction p arbitrary: t)
  case (Cons c p)
  have set: "set_at (Directory ch) (c # p @ q) v =
      (case map_of ch c of None \<Rightarrow> Directory ch | Some m \<Rightarrow> Directory (AList.update c (set_at m (p @ q) v) ch))" for ch
    using Cons.prems by (cases "p @ q") (auto split: option.splits)
  show ?case
  proof (cases t)
    case (Directory ch)
    then show ?thesis using Cons by (simp add: set update_conv' split: option.splits)
  qed simp_all
qed simp

lemma lookup_put_above:
  "q \<noteq> [] \<Longrightarrow> lookup (put (D, p @ q) v s) (D, p) = map_option (\<lambda>m. set_at m q v) (lookup s (D, p))"
  by (cases "tree s D") (auto simp: lookup_def put_def node_at_set_at_above)

lemma has_parent_removed: "has_parent s (D, p @ [b]) \<Longrightarrow> has_parent (put (D, p @ [t]) v s) (D, p @ [b])"
  by (auto simp: has_parent_def lookup_put_above split: option.splits node.splits)

text \<open>
  An atomic write takes its directory from P to Q by the rename alone: before it nothing but the temporary
  file changed, after it the target holds the bytes.
\<close>

lemma triple_WriteFileAtomic:
  assumes P: "hassert P" and Q: "hassert Q"
    and tmp: "\<And>x v. writable P (fst dir, snd dir @ [''.'' @ base @ ''.tmp-'' @ itoa x]) v"
      "\<And>x v. writable Q (fst dir, snd dir @ [''.'' @ base @ ''.tmp-'' @ itoa x]) v"
    and target: "\<And>s. P s \<Longrightarrow> has_parent s (fst dir, snd dir @ [base]) \<Longrightarrow>
      Q (put (fst dir, snd dir @ [base]) (Some (RegularFile perm bytes)) s)"
  shows "triple P (WriteFileAtomic dir base bytes perm) (\<lambda>_. Q) (\<lambda>_ s. P s \<or> Q s) (\<lambda>s. P s \<or> Q s)"
proof -
  let ?pre = "''.'' @ base @ ''.tmp-''" and ?b = "(fst dir, snd dir @ [base])"
  let ?E = "\<lambda>s. P s \<or> Q s"
  have hE: "hassert ?E" using P Q by (simp add: hassert_def)
  have c: "triple P (os_CreateTemp (RegularFile 0x180 []) dir ?pre)
      (\<lambda>name s. (\<exists>x. name = ?pre @ itoa x) \<and> P s \<and> lookup s (fst dir, snd dir @ [name]) = Some (RegularFile 0x180 []))
      (\<lambda>_. ?E) ?E"
    by (rule triple_post [OF triple_CreateTemp [OF P]]) (use tmp(1) in \<open>auto simp: writable_def\<close>)
  have body: "triple (\<lambda>s. P s \<and> lookup s t = Some m)
      (io_defer (io_then (os_Remove t) (io_ret ()))
         (io_then (hupdate (put t (Some (RegularFile 0x180 bytes))))
         (io_then (hupdate (put t (Some (RegularFile perm bytes))))
         (io_then os_step
         (io_then os_step
         (io_bind (os_Rename t ?b) (\<lambda>ok. if ok then os_step else io_fail (Plain ''file exists'' []))))))))
      (\<lambda>_. Q) (\<lambda>_. ?E) ?E"
    if t: "t = (fst dir, snd dir @ [?pre @ itoa x])" for t x m
  proof -
    have w: "writable P t v" "writable Q t v" "writable ?E t v" for v
      using tmp by (auto simp: t writable_def)
    have put: "triple (\<lambda>s. P s \<and> lookup s t = Some m) (hupdate (put t (Some n)))
        (\<lambda>_ s. P s \<and> lookup s t = Some n) (\<lambda>_. ?E) ?E" for m n
      by (rule triple_hupdate) (use P w(1) lookup_put_replaced [of t] in \<open>auto simp: hassert_def writable_def t\<close>)
    have step: "triple (\<lambda>s. P s \<and> lookup s t = Some m) os_step (\<lambda>_ s. P s \<and> lookup s t = Some m) (\<lambda>_. ?E) ?E" for m
      unfolding os_step_def by (rule triple_hquery) (use P in \<open>auto simp: hassert_def\<close>)
    have ren: "triple (\<lambda>s. P s \<and> lookup s t = Some (RegularFile perm bytes)) (os_Rename t ?b)
        (\<lambda>ok s. if ok then Q s else P s) (\<lambda>_. ?E) ?E"
      unfolding os_Rename_def
    proof (rule triple_hcall, goal_cases)
      case 1
      show ?case using P by (simp add: hassert_def)
    next
      case (2 s s' ok)
      have "Q (put ?b (Some (RegularFile perm bytes)) (put t None s))" if "has_parent s ?b"
        using w(1) 2(1) that has_parent_removed [of s "fst dir" "snd dir" base] by (intro target) (auto simp: writable_def t)
      then show ?case using 2 by (auto split: option.splits node.splits if_splits)
    qed (auto split: option.splits node.splits if_splits)
    have fin: "triple (\<lambda>s. if ok then Q s else P s) (if ok then os_step else io_fail (Plain ''file exists'' []))
        (\<lambda>_. Q) (\<lambda>_. ?E) ?E" for ok
      unfolding os_step_def using triple_hquery [of Q] triple_fail [of P] Q by (cases ok) (auto intro!: triple_hquery triple_fail)
    have clean: "keeps Q (io_then (os_Remove t) (io_ret ()))" "keeps ?E (io_then (os_Remove t) (io_ret ()))"
      by (intro keeps_intros Q hE w)+
    show ?thesis
      by (rule triple_defer [where Q' = "\<lambda>_. Q" and E' = "\<lambda>_. ?E"])
        (intro triple_bind [OF put] triple_bind [OF step] triple_bind [OF ren] fin
          triple_post [OF clean(1)] triple_post [OF clean(2)]; simp)+
  qed
  show ?thesis
    unfolding WriteFileAtomic_def Let_def
  proof (rule triple_bind [OF c], rule triple_pure)
    fix name assume "\<exists>x. name = ?pre @ itoa x"
    then obtain x where "name = ?pre @ itoa x" by blast
    then show "triple (\<lambda>s. P s \<and> lookup s (fst dir, snd dir @ [name]) = Some (RegularFile 0x180 []))
      (io_defer (io_then (os_Remove (fst dir, snd dir @ [name])) (io_ret ()))
         (io_then (hupdate (put (fst dir, snd dir @ [name]) (Some (RegularFile 0x180 bytes))))
         (io_then (hupdate (put (fst dir, snd dir @ [name]) (Some (RegularFile perm bytes))))
         (io_then os_step
         (io_then os_step
         (io_bind (os_Rename (fst dir, snd dir @ [name]) ?b) (\<lambda>ok.
            if ok then os_step else io_fail (Plain ''file exists'' []))))))))
      (\<lambda>_. Q) (\<lambda>_. ?E) ?E"
      by (intro body) simp
  qed
qed

lemma keeps_WriteFileAtomic:
  assumes P: "hassert P"
    and tmp: "\<And>x v. writable P (fst dir, snd dir @ [''.'' @ base @ ''.tmp-'' @ itoa x]) v"
    and target: "writable P (fst dir, snd dir @ [base]) (Some (RegularFile perm bytes))"
  shows "keeps P (WriteFileAtomic dir base bytes perm)"
  by (rule triple_post [OF triple_WriteFileAtomic [OF P P tmp tmp]]) (use target in \<open>auto simp: writable_def\<close>)

section \<open>Making directories and files\<close>

lemma node_at_append: "node_at t (p @ q) = Option.bind (node_at t p) (\<lambda>m. node_at m q)"
proof (induction p arbitrary: t)
  case (Cons c p)
  then show ?case by (cases t) (auto split: option.splits)
qed simp

lemma lookup_append: "lookup s (D, p @ q) = Option.bind (lookup s (D, p)) (\<lambda>m. node_at m q)"
  by (cases "tree s D") (simp_all add: lookup_def node_at_append)

lemma node_at_set_at_at: "p \<noteq> [] \<Longrightarrow> node_at (set_at t p v) p = v \<or> node_at (set_at t p v) p = None"
proof (induction t p v rule: set_at.induct)
  case (2 ch c d cs v)
  then show ?case by (auto simp: update_conv' split: option.splits)
qed (auto simp: AList.delete_conv' update_conv' node_at_leaf_if split: option.splits)

lemma lookup_put_at: "lookup (put p v s) p = v \<or> lookup (put p v s) p = None"
  by (cases "tree s (fst p)"; cases "snd p = []") (auto simp: lookup_def put_def dest: node_at_set_at_at)

text \<open>The regular files of the host, with their permissions.\<close>

definition file_node :: "host \<Rightarrow> hpath \<Rightarrow> (32 word \<times> string) option" where
  "file_node s p = (case lookup s p of Some (RegularFile m b) \<Rightarrow> Some (m, b) | _ \<Rightarrow> None)"

lemma file_node_simps [simp]: "file_node (s\<lparr>hfaults := fs\<rparr>) = file_node s" "file_node (s\<lparr>suffixes := xs\<rparr>) = file_node s"
  by (simp_all add: file_node_def fun_eq_iff)

lemma hassert_file_node [hassert_intros]: "hassert (\<lambda>s. A (file_node s))"
  by (simp add: hassert_def)

lemma file_node_apart [simp]: "path_apart p q \<Longrightarrow> file_node (put q v s) p = file_node s p"
  by (simp add: file_node_def)

lemma path_cases:
  obtains "path_apart q p" | r where "q = (fst p, snd p @ r)" | r where "p = (fst q, snd q @ r)" "r \<noteq> []"
  unfolding path_apart_def prefix_def by (metis append_Nil2 prod.collapse)

text \<open>Above the place written nothing but directories.\<close>

lemma file_node_above:
  assumes "r \<noteq> []" "lookup s (D, p @ r) = None"
  shows "file_node (put (D, p @ r) v s) (D, p) = file_node s (D, p)"
proof -
  have "lookup (put (D, p @ r) v s) (D, p) = map_option (\<lambda>m. set_at m r v) (lookup s (D, p))"
    by (rule lookup_put_above [OF assms(1)])
  then show ?thesis using assms(1)
    by (cases "lookup s (D, p)"; cases "the (lookup s (D, p))"; cases r rule: remdups_adj.cases)
      (auto simp: file_node_def split: option.splits)
qed

text \<open>Putting a node where there was nothing: no other file appears or goes.\<close>

lemma file_node_put_new:
  assumes "lookup s p = None" "\<And>q m b. q \<noteq> [] \<Longrightarrow> node_at n q \<noteq> Some (RegularFile m b)" "q \<noteq> p"
  shows "file_node (put p (Some n) s) q = file_node s q"
proof (cases rule: path_cases [of q p])
  case (2 r)
  have r: "r \<noteq> []" using 2 assms(3) by (cases p) auto
  have "lookup s q = None" using assms(1) by (cases p) (simp add: 2 lookup_append)
  moreover have "lookup (put p (Some n) s) q \<noteq> Some (RegularFile m b)" for m b
    using lookup_put_at [of p "Some n" s] assms(2) [OF r] by (cases p) (auto simp: 2 lookup_append)
  ultimately show ?thesis by (auto simp: file_node_def split: option.splits node.splits)
next
  case (3 r)
  then show ?thesis using file_node_above [OF 3(2), of s "fst q" "snd q"] assms(1) by simp
qed simp

lemma file_node_mkdir:
  assumes "lookup s p = None"
  shows "file_node (put p (Some (Directory [])) s) = file_node s"
proof
  fix q show "file_node (put p (Some (Directory [])) s) q = file_node s q"
  proof (cases "q = p")
    case True
    have "file_node (put p (Some (Directory [])) s) p = None" "file_node s p = None"
      using lookup_put_at [of p "Some (Directory [])" s] assms by (auto simp: file_node_def)
    then show ?thesis by (simp add: True)
  next
    case False
    have "node_at (Directory []) r \<noteq> Some (RegularFile m b)" for r m b by (cases r) auto
    then show ?thesis by (intro file_node_put_new [OF assms _ False]) auto
  qed
qed

lemma file_node_create:
  assumes "lookup s p = None" "has_parent s p" "snd p \<noteq> []"
  shows "file_node (put p (Some (RegularFile m b)) s) = (file_node s)(p \<mapsto> (m, b))"
proof
  fix q show "file_node (put p (Some (RegularFile m b)) s) q = ((file_node s)(p \<mapsto> (m, b))) q"
  proof (cases "q = p")
    case True
    then show ?thesis using lookup_put_written [OF assms(3,2)] by (simp add: file_node_def)
  next
    case False
    have "file_node (put p (Some (RegularFile m b)) s) q = file_node s q"
      by (rule file_node_put_new [OF assms(1) _ False]) (simp add: node_at_leaf_if)
    then show ?thesis using False by simp
  qed
qed

lemma file_node_replace:
  assumes l: "lookup s p = Some (RegularFile m b)" and p: "snd p \<noteq> []"
  shows "file_node (put p (Some (RegularFile m' b')) s) = (file_node s)(p \<mapsto> (m', b'))"
proof
  fix q show "file_node (put p (Some (RegularFile m' b')) s) q = ((file_node s)(p \<mapsto> (m', b'))) q"
  proof (cases rule: path_cases [of q p])
    case 1
    then have "q \<noteq> p" by (auto simp: path_apart_def)
    then show ?thesis using 1 by simp
  next
    case (2 r)
    then show ?thesis using lookup_put_replaced [OF p l] l
      by (cases p; cases r) (auto simp: file_node_def lookup_append)
  next
    case (3 r)
    have "\<exists>ch. lookup s q = Some (Directory ch)"
      using l 3 lookup_append [of s "fst q" "snd q" r]
      by (cases q; cases "lookup s q"; cases "the (lookup s q)") (auto simp: node_at_leaf_if)
    then obtain ch where ch: "lookup s q = Some (Directory ch)" by blast
    have "lookup (put p (Some (RegularFile m' b')) s) q = Some (set_at (Directory ch) r (Some (RegularFile m' b')))"
      using lookup_put_above [OF 3(2), of "fst q" "snd q"] ch by (simp add: 3)
    moreover have "q \<noteq> p" using 3 by (cases q) auto
    ultimately show ?thesis using 3(2) ch
      by (cases r rule: remdups_adj.cases) (auto simp: file_node_def split: option.splits)
  qed
qed

text \<open>Well-formed trees stay well-formed.\<close>

definition wf_dir :: "hdir \<Rightarrow> host \<Rightarrow> bool" where
  "wf_dir D s \<longleftrightarrow> (\<forall>t. tree s D = Some t \<longrightarrow> wf_node t)"

lemma hassert_wf_dir [hassert_intros]: "hassert (wf_dir D)"
  by (simp add: hassert_def wf_dir_def)

lemma wf_node_children:
  "wf_node (Directory ch) \<longleftrightarrow> distinct (map fst ch) \<and> (\<forall>(n, x) \<in> set ch. file_name n \<and> wf_node x)"
  by (simp add: list_all_iff)

lemma set_alist_update: "set (AList.update c n ch) \<subseteq> insert (c, n) (set ch)"
  by (induction ch) auto

lemma wf_update: "wf_node (Directory ch) \<Longrightarrow> file_name c \<Longrightarrow> wf_node n \<Longrightarrow> wf_node (Directory (AList.update c n ch))"
  unfolding wf_node_children using set_alist_update [of c n ch] by (auto simp: distinct_update)

lemma wf_set_at:
  "wf_node t \<Longrightarrow> list_all file_name p \<Longrightarrow> (\<And>n. v = Some n \<Longrightarrow> wf_node n) \<Longrightarrow> wf_node (set_at t p v)"
proof (induction t p v rule: set_at.induct)
  case (1 ch c v)
  show ?case
  proof (cases v)
    case None
    show ?thesis using 1 unfolding None
      by (auto simp: wf_node_children distinct_map inj_on_def AList.delete_eq simp del: wf_node.simps)
  next
    case (Some n)
    show ?thesis unfolding Some using 1 Some wf_update [of ch c n] by simp
  qed
next
  case (2 ch c d cs v)
  show ?case
  proof (cases "map_of ch c")
    case (Some m)
    then have "wf_node m" using 2(2) by (auto simp: list_all_iff dest: map_of_SomeD)
    then have "wf_node (set_at m (d # cs) v)" using 2(1) [OF Some] 2(3,4) by simp
    then show ?thesis using Some 2(2,3) wf_update by simp
  qed (use 2 in simp)
qed simp_all

lemma wf_put:
  "wf_dir D s \<Longrightarrow> list_all file_name p \<Longrightarrow> (\<And>n. v = Some n \<Longrightarrow> wf_node n) \<Longrightarrow> wf_dir D (put (D, p) v s)"
  by (auto simp: wf_dir_def put_def intro!: wf_set_at split: if_splits)

lemma wf_node_at: "wf_node t \<Longrightarrow> node_at t p = Some n \<Longrightarrow> wf_node n"
proof (induction p arbitrary: t)
  case (Cons c p)
  then show ?case by (cases t) (auto simp: list_all_iff split: option.splits dest!: map_of_SomeD)
qed simp

lemma wf_lookup: "wf_dir D s \<Longrightarrow> lookup s (D, p) = Some n \<Longrightarrow> wf_node n"
  by (cases "tree s D") (auto simp: lookup_def wf_dir_def intro: wf_node_at)

lemma keeps_mkdir_all:
  assumes "\<And>s cs. set cs \<subseteq> set (pre @ rest) \<Longrightarrow> lookup s (D, cs) = None \<Longrightarrow> P s \<Longrightarrow> P (put (D, cs) (Some (Directory [])) s)" "P s"
  shows "P (snd (mkdir_all D pre rest s))"
  using assms
proof (induction D pre rest s rule: mkdir_all.induct)
  case (1 D pre rest s)
  have here: "lookup s (D, pre) = None \<Longrightarrow> P (put (D, pre) (Some (Directory [])) s)"
    using 1(3,4) by simp
  show ?case
  proof (cases rest)
    case Nil
    then show ?thesis using here 1(4)
      by (subst mkdir_all.simps) (auto split: option.splits node.splits simp del: mkdir_all.simps)
  next
    case (Cons c cs)
    have put: "\<And>s ds. set ds \<subseteq> set ((pre @ [c]) @ cs) \<Longrightarrow> lookup s (D, ds) = None \<Longrightarrow> P s \<Longrightarrow> P (put (D, ds) (Some (Directory [])) s)"
      using 1(3) by (simp add: Cons)
    have a: "lookup s (D, pre) = Some (Directory ch) \<Longrightarrow> P (snd (mkdir_all D (pre @ [c]) cs s))" for ch
      by (rule 1(2) [OF _ refl Cons put 1(4)])
    have b: "lookup s (D, pre) = None \<Longrightarrow> P (snd (mkdir_all D (pre @ [c]) cs (put (D, pre) (Some (Directory [])) s)))"
      by (rule 1(1) [OF _ Cons put here])
    show ?thesis using a b 1(4) Cons
      by (subst mkdir_all.simps) (auto split: option.splits node.splits simp del: mkdir_all.simps)
  qed
qed

lemma keeps_MkdirAll_dir:
  assumes "hassert P"
    and "\<And>s cs. list_all file_name cs \<Longrightarrow> lookup s (fst p, cs) = None \<Longrightarrow> P s \<Longrightarrow> P (put (fst p, cs) (Some (Directory [])) s)"
  shows "keeps P (os_MkdirAll p)"
  unfolding os_MkdirAll_def
proof (rule triple_hcall [OF assms(1)])
  fix s s' x e assume P: "P s"
  have "P (snd (mkdir_all (fst p) [] (snd p) s))" if "list_all file_name (snd p)"
  proof (rule keeps_mkdir_all [where P = P])
    fix s cs assume "set cs \<subseteq> set ([] @ snd p)" "lookup s (fst p, cs) = None" "P s"
    moreover have "list_all file_name cs" using that calculation(1) by (auto simp: list_all_iff)
    ultimately show "P (put (fst p, cs) (Some (Directory [])) s)" using assms(2) by blast
  qed (rule P)
  then show "(if list_all file_name (snd p) then mkdir_all (fst p) [] (snd p) s else (Inl (Plain ''invalid argument'' []), s)) = (Inr x, s') \<Longrightarrow> P s' \<and> (\<forall>e. P s')"
    and "(if list_all file_name (snd p) then mkdir_all (fst p) [] (snd p) s else (Inl (Plain ''invalid argument'' []), s)) = (Inl e, s') \<Longrightarrow> P s'"
    using P by (auto split: if_splits)
qed

text \<open>Creating a file and writing it: exactly one file appears, with exactly these bytes.\<close>

lemma triple_OpenExcl:
  assumes "snd p \<noteq> []"
  shows "triple (\<lambda>s. file_node s = F \<and> wf_dir (fst p) s) (os_OpenExcl p perm)
    (\<lambda>_ s. (F p = None \<and> list_all file_name (snd p)) \<and> file_node s = F(p \<mapsto> (perm, [])) \<and> wf_dir (fst p) s)
    (\<lambda>_ _. True) (\<lambda>_. True)"
  unfolding os_OpenExcl_def
proof (rule triple_hcall, goal_cases)
  case 1
  show ?case by (intro hassert_intros)
next
  case (2 s s' x)
  then have l: "lookup s p = None" "has_parent s p" "list_all file_name (snd p)" "s' = put p (Some (RegularFile perm [])) s"
    by (auto split: if_splits)
  have "wf_dir (fst p) (put (fst p, snd p) (Some (RegularFile perm [])) s)"
    by (rule wf_put) (use 2(1) l(3) in auto)
  moreover have "F p = None" using l(1) 2(1) by (auto simp: file_node_def)
  ultimately show ?case using l file_node_create [OF l(1,2) assms] 2(1) by simp
qed simp_all

lemma triple_Write:
  assumes "snd p \<noteq> []" "list_all file_name (snd p)"
  shows "triple (\<lambda>s. file_node s = F(p \<mapsto> (m, b)) \<and> wf_dir (fst p) s) (os_Write p bytes)
    (\<lambda>_ s. file_node s = F(p \<mapsto> (m, bytes)) \<and> wf_dir (fst p) s) (\<lambda>_ _. True) (\<lambda>_. True)"
  unfolding os_Write_def
proof (rule triple_hcall, goal_cases)
  case 1
  show ?case by (intro hassert_intros)
next
  case (2 s s' x)
  then have f: "file_node s p = Some (m, b)" by simp
  then have l: "lookup s p = Some (RegularFile m b)" by (auto simp: file_node_def split: option.splits node.splits)
  then have s': "s' = put p (Some (RegularFile m bytes)) s" using 2(2) by simp
  have "wf_dir (fst p) (put (fst p, snd p) (Some (RegularFile m bytes)) s)"
    by (rule wf_put) (use 2(1) assms(2) in auto)
  then show ?case using file_node_replace [OF l assms(1)] 2(1) s' by simp
qed simp_all

text \<open>Making directories changes no file.\<close>

lemma keeps_MkdirAll_files: "fst p = D \<Longrightarrow> keeps (\<lambda>s. file_node s = F \<and> wf_dir D s) (os_MkdirAll p)"
  by (rule keeps_MkdirAll_dir) (auto intro: hassert_intros simp: file_node_mkdir intro!: wf_put)

lemma keeps_OpenExcl [keeps_intros]: "hassert P \<Longrightarrow> (\<And>v. writable P p v) \<Longrightarrow> keeps P (os_OpenExcl p perm)"
  unfolding os_OpenExcl_def by (rule triple_hcall) (auto simp: writable_def split: if_splits)

lemma keeps_Write [keeps_intros]: "hassert P \<Longrightarrow> (\<And>v. writable P p v) \<Longrightarrow> keeps P (os_Write p bytes)"
  unfolding os_Write_def by (rule triple_hcall) (auto simp: writable_def split: option.splits node.splits)

lemma keeps_Chmod [keeps_intros]: "hassert P \<Longrightarrow> (\<And>v. writable P p v) \<Longrightarrow> keeps P (os_Chmod p perm)"
  unfolding os_Chmod_def by (rule triple_hcall) (auto simp: writable_def split: option.splits node.splits)

lemma triple_Chmod:
  assumes "snd p \<noteq> []" "list_all file_name (snd p)" "F p = Some (m, b)"
  shows "triple (\<lambda>s. file_node s = F \<and> wf_dir (fst p) s) (os_Chmod p perm)
    (\<lambda>_ s. file_node s = F(p \<mapsto> (perm, b)) \<and> wf_dir (fst p) s) (\<lambda>_ _. True) (\<lambda>_. True)"
  unfolding os_Chmod_def
proof (rule triple_hcall, goal_cases)
  case 1
  show ?case by (intro hassert_intros)
next
  case (2 s s' x)
  then have l: "lookup s p = Some (RegularFile m b)"
    using assms(3) by (auto simp: file_node_def split: option.splits node.splits)
  then have s': "s' = put p (Some (RegularFile perm b)) s" using 2(2) by simp
  have "wf_dir (fst p) (put (fst p, snd p) (Some (RegularFile perm b)) s)"
    by (rule wf_put) (use 2(1) assms(2) in auto)
  then show ?case using file_node_replace [OF l assms(1)] 2(1) s' by simp
qed simp_all

end
