(* ===== verification/Store.thy ===== *)
theory Store
  imports Host
begin

text \<open>
  The object store (\<^verbatim>\<open>internal/store\<close>): published trees named by their digest, records beside them, leases,
  removal and the cleaning of staging, on the file system of \<open>Host\<close>. Host locks and fsync are
  steps that can fail. JSON is a parameter: a codec is what the standard library does with one record type.
  The lemmas show that whatever fails, and wherever the process dies, published objects keep hashing to their
  names, and that only a removal of an object that nobody leases takes it away.
\<close>

section \<open>Objects\<close>

datatype object_kind = ArtifactObject | CandidateObject | SnapshotObject | OtherObject string

fun kind_text :: "object_kind \<Rightarrow> string" where
  "kind_text ArtifactObject = ''artifact''"
| "kind_text CandidateObject = ''candidate''"
| "kind_text SnapshotObject = ''snapshot''"
| "kind_text (OtherObject k) = k"

fun kindDir :: "object_kind \<Rightarrow> error + hdir" where
  "kindDir ArtifactObject = Inr Artifacts"
| "kindDir CandidateObject = Inr Candidates"
| "kindDir SnapshotObject = Inr Snapshots"
| "kindDir (OtherObject k) = Inl (Class ErrInvalid ''%w: object kind %q'' [k])"

definition objectPath :: "object_kind \<Rightarrow> digest \<Rightarrow> error + hpath" where
  "objectPath kind d =
     (if Digest_IsZero d then Inl (Class ErrInvalid ''%w: zero digest'' [])
      else map_sum id (\<lambda>dir. (dir, [hex d])) (kindDir kind))"

record object_ref =
  ob_kind :: object_kind
  ob_digest :: digest
  ob_path :: hpath

section \<open>Publishing (store.go)\<close>

text \<open>\<^verbatim>\<open>DigestTree\<close> on a path: reading the tree may fail like any call.\<close>

definition digest_path :: "(string \<Rightarrow> string) \<Rightarrow> hpath \<Rightarrow> (digest \<times> tree_entry list) hio" where
  "digest_path sha p = hquery (\<lambda>s.
     case lookup s p of
       None \<Rightarrow> Inl (Plain ''no such file or directory'' [])
     | Some t \<Rightarrow> DigestTree sha t)"

definition sync_path :: "hpath \<Rightarrow> unit hio" where
  "sync_path p = hquery (\<lambda>s.
     case lookup s p of
       None \<Rightarrow> Inl (Plain ''no such file or directory'' [])
     | Some t \<Rightarrow> (case syncTree (join ''/'' (root_path s (fst p) # snd p)) t of None \<Rightarrow> Inr () | Some e \<Rightarrow> Inl e))"

text \<open>The part under the object's lock: keep what is there, or rename the verified tree into place.\<close>

definition discard :: "hpath \<Rightarrow> object_ref \<Rightarrow> object_ref hio" where
  "discard staged obj = io_then (io_try (os_RemoveAll staged)) (io_ret obj)"

definition publish_verified :: "hpath \<Rightarrow> object_ref \<Rightarrow> object_ref hio" where
  "publish_verified staged obj =
     (let k = kind_text (ob_kind obj) in
      io_bind (io_try (os_Lstat (ob_path obj))) (\<lambda>r.
        case r of
          Inr (Some _) \<Rightarrow> discard staged obj
        | _ \<Rightarrow>
            io_then (io_wrap ''sync staged %s: %w'' [k] (sync_path staged))
            (io_bind (io_wrap ''publish %s: %w'' [k] (os_Rename staged (ob_path obj))) (\<lambda>renamed.
             if renamed then io_then (io_wrap ''publish %s: %w'' [k] os_step) (io_ret obj)
             else discard staged obj))))"

definition Publish :: "(string \<Rightarrow> string) \<Rightarrow> object_kind \<Rightarrow> hpath \<Rightarrow> digest \<Rightarrow> object_ref hio" where
  "Publish sha kind staged d =
     io_bind (io_of (objectPath kind d)) (\<lambda>final.
     io_bind (io_wrap ''verify staged %s: %w'' [kind_text kind] (digest_path sha staged)) (\<lambda>got.
       if fst got \<noteq> d
       then io_fail (Class ErrInvalid ''%w: staged %s digest %s does not match claimed %s''
              [kind_text kind, Digest_String (fst got), Digest_String d])
       else io_then os_step
         (io_defer os_step (publish_verified staged \<lparr>ob_kind = kind, ob_digest = d, ob_path = final\<rparr>))))"

definition Exists :: "object_kind \<Rightarrow> digest \<Rightarrow> bool hio" where
  "Exists kind d = io_bind (io_of (objectPath kind d)) (\<lambda>p. io_bind (os_Lstat p) (\<lambda>r. io_ret (r \<noteq> None)))"

definition NewStaging :: "string \<Rightarrow> hpath hio" where
  "NewStaging pattern =
     io_bind (io_wrap ''create staging: %w'' [] (os_MkdirTemp (Staging, []) (pattern @ ''-''))) (\<lambda>name.
     io_bind (io_try os_step) (\<lambda>r.
       case r of
         Inr _ \<Rightarrow> io_ret (Staging, [name])
       | Inl e \<Rightarrow> io_then (io_try (os_RemoveAll (Staging, [name]))) (io_fail (Wrapped ''create staging: %w'' [] e))))"

section \<open>Records (records.go, artifacts.go, candidates.go)\<close>

record 'r codec =
  c_marshal :: "'r \<Rightarrow> error + string"
  c_probe :: "string \<Rightarrow> error + int"
  c_decode :: "string \<Rightarrow> error + 'r"

definition MarshalRecord :: "'r codec \<Rightarrow> 'r \<Rightarrow> error + string" where
  "MarshalRecord c r = rbind (c_marshal c r) (\<lambda>d. Inr (d @ [CHR 0x0A]))"

definition DecodeRecord :: "'r codec \<Rightarrow> string \<Rightarrow> string \<Rightarrow> int \<Rightarrow> error + 'r" where
  "DecodeRecord c bytes lbl wantFormat =
     (case c_probe c bytes of
        Inl _ \<Rightarrow> Inl (Class ErrInvalid ''%w: %s: %v'' [lbl])
      | Inr f \<Rightarrow>
          if f \<noteq> wantFormat
          then Inl (Class ErrNotSupported ''%w: %s format %d (supported: %d)'' [lbl, itoa_int f, itoa_int wantFormat])
          else (case c_decode c bytes of
                  Inl _ \<Rightarrow> Inl (Class ErrInvalid ''%w: %s: %v'' [lbl])
                | Inr r \<Rightarrow> Inr r))"

definition writeRecordOnce :: "'r codec \<Rightarrow> hdir \<Rightarrow> string \<Rightarrow> string \<Rightarrow> 'r \<Rightarrow> unit hio" where
  "writeRecordOnce c dir base lbl rec =
     io_bind (io_of (MarshalRecord c rec)) (\<lambda>bytes.
     io_bind (io_try (os_ReadFile (dir, [base]))) (\<lambda>r.
       case r of
         Inr (Some existing) \<Rightarrow>
           if existing = bytes then io_ret ()
           else io_fail (Class ErrConflict ''%w: %s exists with different content'' [lbl])
       | _ \<Rightarrow> WriteFileAtomic (dir, []) base bytes 0x180))"

record provenance =
  pv_source :: string
  pv_version :: string
  pv_attestation :: string
  pv_archive_hash :: digest

record artifact_record =
  ac_format :: int
  ac_digest :: digest
  ac_version :: string
  ac_platform :: platform
  ac_binary_digest :: digest
  ac_payload_digest :: digest
  ac_release :: provenance
  ac_installed_at :: int

record candidate_record =
  cd_format :: int
  cd_digest :: digest
  cd_project :: string
  cd_kind :: string
  cd_snapshot :: digest
  cd_plan :: digest
  cd_extension :: "digest option"
  cd_images :: "(string \<times> digest) list"
  cd_created_at :: int

definition record_suffix :: string where
  "record_suffix = ''.record.json''"

definition artifactRecordFormat :: int where "artifactRecordFormat = 1"
definition candidateRecordFormat :: int where "candidateRecordFormat = 1"

definition WriteArtifactRecord :: "artifact_record codec \<Rightarrow> artifact_record \<Rightarrow> unit hio" where
  "WriteArtifactRecord c rec =
     (if Digest_IsZero (ac_digest rec) then io_fail (Class ErrInvalid ''%w: artifact record needs a digest'' [])
      else writeRecordOnce c Artifacts (hex (ac_digest rec) @ record_suffix)
             (''artifact record '' @ Digest_String (ac_digest rec)) (rec\<lparr>ac_format := artifactRecordFormat\<rparr>))"

definition WriteCandidateRecord :: "candidate_record codec \<Rightarrow> candidate_record \<Rightarrow> unit hio" where
  "WriteCandidateRecord c rec =
     (if Digest_IsZero (cd_digest rec) \<or> cd_project rec = ''''
      then io_fail (Class ErrInvalid ''%w: candidate record needs digest and project'' [])
      else writeRecordOnce c Candidates (hex (cd_digest rec) @ record_suffix)
             (''candidate record '' @ Digest_String (cd_digest rec)) (rec\<lparr>cd_format := candidateRecordFormat\<rparr>))"

definition ReadArtifactRecord :: "artifact_record codec \<Rightarrow> digest \<Rightarrow> artifact_record hio" where
  "ReadArtifactRecord c d =
     io_bind (os_ReadFile (Artifacts, [hex d @ record_suffix])) (\<lambda>r.
       case r of
         None \<Rightarrow> io_fail (Class ErrNotFound ''%w: artifact %s'' [Digest_String d])
       | Some bytes \<Rightarrow> io_of (DecodeRecord c bytes (''artifact record '' @ Digest_String d) artifactRecordFormat))"

definition ReadCandidateRecord :: "candidate_record codec \<Rightarrow> digest \<Rightarrow> candidate_record hio" where
  "ReadCandidateRecord c d =
     io_bind (os_ReadFile (Candidates, [hex d @ record_suffix])) (\<lambda>r.
       case r of
         None \<Rightarrow> io_fail (Class ErrNotFound ''%w: candidate %s'' [Digest_String d])
       | Some bytes \<Rightarrow> io_of (DecodeRecord c bytes (''candidate record '' @ Digest_String d) candidateRecordFormat))"

text \<open>The digests the record files of a listing are named by.\<close>

definition record_digests :: "(string \<times> node) list \<Rightarrow> digest list" where
  "record_digests es =
     List.map_filter (\<lambda>(n, x).
       case cut_suffix n record_suffix of
         (name, ok) \<Rightarrow>
           if \<not> ok \<or> (case x of Directory _ \<Rightarrow> True | _ \<Rightarrow> False) then None
           else (case ParseDigest (''sha256:'' @ name) of Inl _ \<Rightarrow> None | Inr d \<Rightarrow> Some d)) es"

fun io_map :: "('a \<Rightarrow> ('s, 'b) eff) \<Rightarrow> 'a list \<Rightarrow> ('s, 'b list) eff" where
  "io_map f [] = io_ret []"
| "io_map f (x # xs) = io_bind (f x) (\<lambda>y. io_bind (io_map f xs) (\<lambda>ys. io_ret (y # ys)))"

text \<open>Newest first, ties by digest.\<close>

definition sort_artifacts :: "artifact_record list \<Rightarrow> artifact_record list" where
  "sort_artifacts = sort_key (\<lambda>r. - ac_installed_at r) \<circ> sort_key (\<lambda>r. hex (ac_digest r))"

definition ListArtifactRecords :: "artifact_record codec \<Rightarrow> artifact_record list hio" where
  "ListArtifactRecords c =
     io_bind (io_wrap ''read artifacts: %w'' [] (os_ReadDir (Artifacts, []))) (\<lambda>r.
       case r of
         None \<Rightarrow> io_fail (Wrapped ''read artifacts: %w'' [] (Plain ''no such file or directory'' []))
       | Some es \<Rightarrow>
           io_bind (io_map (ReadArtifactRecord c) (record_digests es)) (\<lambda>recs. io_ret (sort_artifacts recs)))"

definition ListCandidateRecords :: "candidate_record codec \<Rightarrow> candidate_record list hio" where
  "ListCandidateRecords c =
     io_bind (os_ReadDir (Candidates, [])) (\<lambda>r.
       case r of
         None \<Rightarrow> io_ret []
       | Some es \<Rightarrow> io_map (ReadCandidateRecord c) (record_digests es))"

section \<open>Collection primitives (gc.go)\<close>

definition ListObjects :: "object_kind \<Rightarrow> digest list hio" where
  "ListObjects kind =
     io_bind (io_of (kindDir kind)) (\<lambda>dir.
     io_bind (os_ReadDir (dir, [])) (\<lambda>r.
       case r of
         None \<Rightarrow> io_ret []
       | Some es \<Rightarrow> io_ret (List.map_filter (\<lambda>(n, x).
           case x of
             Directory _ \<Rightarrow> (case ParseDigest (''sha256:'' @ n) of Inl _ \<Rightarrow> None | Inr d \<Rightarrow> Some d)
           | _ \<Rightarrow> None) es)))"

record object_stat =
  st_mtime :: int
  st_bytes :: nat

definition os_stat :: "hpath \<Rightarrow> object_stat option hio" where
  "os_stat p = hquery (\<lambda>s. Inr (map_option (\<lambda>n. \<lparr>st_mtime = mtimes s p, st_bytes = treeBytes n\<rparr>) (lookup s p)))"

definition ObjectStat :: "object_kind \<Rightarrow> digest \<Rightarrow> object_stat hio" where
  "ObjectStat kind d =
     io_bind (io_of (objectPath kind d)) (\<lambda>p.
     io_bind (os_stat p) (\<lambda>r.
       case r of
         None \<Rightarrow> io_fail (Class ErrNotFound ''%w: %s %s'' [kind_text kind, Digest_String d])
       | Some st \<Rightarrow> io_ret st))"

definition removeRecord :: "object_kind \<Rightarrow> digest \<Rightarrow> unit hio" where
  "removeRecord kind d =
     (case kind of
        ArtifactObject \<Rightarrow> io_then (os_Remove (Artifacts, [hex d @ record_suffix])) (io_ret ())
      | CandidateObject \<Rightarrow> io_then (os_Remove (Candidates, [hex d @ record_suffix])) (io_ret ())
      | _ \<Rightarrow> io_ret ())"

text \<open>The exclusive non-blocking \<^verbatim>\<open>flock\<close> on an object directory: refused while anybody leases it.\<close>

definition flock_ex :: "hpath \<Rightarrow> unit hio" where
  "flock_ex p = hquery (\<lambda>s.
     if leased s p = 0 then Inr () else Inl (Plain ''resource temporarily unavailable'' []))"

definition unpublish :: "object_kind \<Rightarrow> digest \<Rightarrow> hpath \<Rightarrow> unit hio" where
  "unpublish kind d p =
     (let k = kind_text kind in
      io_bind (io_wrap ''gc %s: %w'' [k] (os_MkdirTemp (Staging, []) (''gc-'' @ k @ ''-''))) (\<lambda>trash.
      io_bind (io_try (os_Rename p (Staging, [trash, ''obj'']))) (\<lambda>r.
        case r of
          Inr True \<Rightarrow>
            io_then (io_wrap ''gc %s: %w'' [k] (os_RemoveAll (Staging, [trash]))) (removeRecord kind d)
        | Inr False \<Rightarrow>
            io_then (io_try (os_RemoveAll (Staging, [trash])))
              (io_fail (Wrapped ''gc %s: %w'' [k] (Plain ''file exists'' [])))
        | Inl e \<Rightarrow>
            io_then (io_try (os_RemoveAll (Staging, [trash]))) (io_fail (Wrapped ''gc %s: %w'' [k] e)))))"

text \<open>The parts under the exclusive lock of the object directory and under the object's host lock.\<close>

definition remove_present :: "object_kind \<Rightarrow> digest \<Rightarrow> hpath \<Rightarrow> unit hio" where
  "remove_present kind d p =
     io_bind (io_try (flock_ex p)) (\<lambda>l.
       case l of
         Inl _ \<Rightarrow> io_fail (Class ErrConflict ''%w: %s %s is in use'' [kind_text kind, Digest_String d])
       | Inr _ \<Rightarrow> unpublish kind d p)"

definition remove_locked :: "object_kind \<Rightarrow> digest \<Rightarrow> hpath \<Rightarrow> unit hio" where
  "remove_locked kind d p =
     io_bind (io_wrap ''gc %s: %w'' [kind_text kind] (os_Lstat p)) (\<lambda>r.
       case r of None \<Rightarrow> removeRecord kind d | Some _ \<Rightarrow> remove_present kind d p)"

definition RemoveObject :: "object_kind \<Rightarrow> digest \<Rightarrow> unit hio" where
  "RemoveObject kind d =
     io_bind (io_of (objectPath kind d)) (\<lambda>p. io_then os_step (io_defer os_step (remove_locked kind d p)))"

definition clean_entry :: "int \<Rightarrow> bool \<Rightarrow> string \<Rightarrow> int \<times> int \<Rightarrow> (int \<times> int) hio" where
  "clean_entry olderThan dryRun n acc =
     io_bind (io_try (os_stat (Staging, [n]))) (\<lambda>r.
       case r of
         Inr (Some st) \<Rightarrow>
           if st_mtime st < olderThan
           then io_then (if dryRun then io_ret () else os_RemoveAll (Staging, [n]))
                  (io_ret (fst acc + 1, snd acc + int (st_bytes st)))
           else io_ret acc
       | _ \<Rightarrow> io_ret acc)"

definition CleanStaging :: "int \<Rightarrow> bool \<Rightarrow> (int \<times> int) hio" where
  "CleanStaging olderThan dryRun =
     io_bind (os_ReadDir (Staging, [])) (\<lambda>r.
       case r of
         None \<Rightarrow> io_ret (0, 0)
       | Some es \<Rightarrow> io_fold (clean_entry olderThan dryRun) (map fst es) (0, 0))"

section \<open>Leases (leases.go)\<close>

text \<open>
  The shared lock is granted unless somebody holds the object exclusively; \<open>excl\<close> says whether somebody
  does at that instant.
\<close>

record lease =
  le_object :: object_ref
  le_open :: bool

definition Open :: "bool \<Rightarrow> object_kind \<Rightarrow> digest \<Rightarrow> lease hio" where
  "Open excl kind d =
     io_bind (io_of (objectPath kind d)) (\<lambda>p.
     io_bind (io_wrap ''open %s: %w'' [kind_text kind] (os_Lstat p)) (\<lambda>r.
       case r of
         None \<Rightarrow> io_fail (Class ErrNotFound ''%w: %s %s'' [kind_text kind, Digest_String d])
       | Some _ \<Rightarrow>
           io_bind (io_try (hcall (\<lambda>s. if excl then (Inl (Plain ''resource temporarily unavailable'' []), s)
                                       else (Inr (), s\<lparr>leased := (leased s)(p := leased s p + 1)\<rparr>)))) (\<lambda>l.
             case l of
               Inl _ \<Rightarrow> io_fail (Class ErrConflict ''%w: %s %s is exclusively locked'' [kind_text kind, Digest_String d])
             | Inr _ \<Rightarrow> io_ret \<lparr>le_object = \<lparr>ob_kind = kind, ob_digest = d, ob_path = p\<rparr>, le_open = True\<rparr>)))"

definition Lease_Close :: "lease \<Rightarrow> lease hio" where
  "Lease_Close l =
     (if \<not> le_open l then io_ret l
      else io_then (hupdate (\<lambda>s. let p = ob_path (le_object l) in s\<lparr>leased := (leased s)(p := leased s p - 1)\<rparr>))
             (io_ret (l\<lparr>le_open := False\<rparr>)))"

section \<open>Content addressing\<close>

definition content_addressed :: "(string \<Rightarrow> string) \<Rightarrow> host \<Rightarrow> bool" where
  "content_addressed sha s \<longleftrightarrow>
     (\<forall>D n ch d. D \<in> {Artifacts, Candidates, Snapshots} \<longrightarrow> ParseDigest (''sha256:'' @ n) = Inr d \<longrightarrow>
        lookup s (D, [n]) = Some (Directory ch) \<longrightarrow> (\<exists>es. DigestTree sha (Directory ch) = Inr (d, es)))"

lemma ParseDigest_hex:
  assumes "ParseDigest (''sha256:'' @ n) = Inr d"
  shows "d = \<lparr>algorithm = sha256Alg, hex = n\<rparr> \<and> list_all (\<lambda>c. is_lower_hex (byte c)) n"
proof -
  have v: "valid_digest d" "Digest_String d = ''sha256:'' @ n" using digest_text.parse_sound [OF assms] by auto
  then have "hex d = n" by (simp add: Digest_String_valid)
  then show ?thesis using v(1) by (cases d) (simp add: valid_digest_def)
qed

lemma hassert_content [hassert_intros]: "hassert (content_addressed sha)"
  by (simp add: hassert_def content_addressed_def)

lemma lookup_put_single: "lookup (put (D, [n]) v s) (D, [n]) \<in> {v, None}"
proof (cases "tree s D")
  case (Some t)
  then show ?thesis
    by (cases t) (auto simp: lookup_def put_def update_conv' AList.delete_conv' node_at_leaf_if split: option.splits)
qed (simp add: lookup_def put_def)

lemma path_apart_single: "(D, h) \<noteq> (E, n) \<Longrightarrow> path_apart (D, [h]) (E, [n])"
  by (auto simp: path_apart_def)

lemma content_put:
  assumes "content_addressed sha s"
    and "\<And>ch d. v = Some (Directory ch) \<Longrightarrow> ParseDigest (''sha256:'' @ n) = Inr d \<Longrightarrow>
       \<exists>es. DigestTree sha (Directory ch) = Inr (d, es)"
  shows "content_addressed sha (put (D, [n]) v s)"
  unfolding content_addressed_def
proof (intro allI impI)
  fix E h ch d
  assume E: "E \<in> {Artifacts, Candidates, Snapshots}" "ParseDigest (''sha256:'' @ h) = Inr d"
    and l: "lookup (put (D, [n]) v s) (E, [h]) = Some (Directory ch)"
  show "\<exists>es. DigestTree sha (Directory ch) = Inr (d, es)"
  proof (cases "(E, h) = (D, n)")
    case True
    then show ?thesis using l E assms(2) lookup_put_single [of D n v s] by auto
  next
    case False
    then have "lookup s (E, [h]) = Some (Directory ch)" using l path_apart_single [OF False] by simp
    then show ?thesis using assms(1) E by (auto simp: content_addressed_def)
  qed
qed

lemma content_writable:
  assumes "v = None \<or> \<not> list_all (\<lambda>c. is_lower_hex (byte c)) n"
  shows "writable (content_addressed sha) (D, [n]) v"
  by (rule writableI, rule content_put) (use assms ParseDigest_hex in auto)

lemma content_writable_elsewhere:
  assumes "D \<notin> {Artifacts, Candidates, Snapshots}"
  shows "writable (content_addressed sha) (D, cs) v"
proof (rule writableI)
  fix s assume "content_addressed sha s"
  moreover have "lookup (put (D, cs) v s) (E, [h]) = lookup s (E, [h])" if "E \<in> {Artifacts, Candidates, Snapshots}" for E h
    using assms that by (intro lookup_put_apart) (auto simp: path_apart_def)
  ultimately show "content_addressed sha (put (D, cs) v s)" by (simp add: content_addressed_def)
qed

lemma not_hex_suffix: "\<not> list_all (\<lambda>c. is_lower_hex (byte c)) (h @ record_suffix)"
  by (simp add: record_suffix_def is_lower_hex_def)

lemma dot_not_hex: "\<not> is_lower_hex (byte (CHR ''.''))"
  by (simp add: is_lower_hex_def)

lemma keeps_weaken: "keeps P m \<Longrightarrow> (\<And>s. P s \<Longrightarrow> I s) \<Longrightarrow> triple P m (\<lambda>_. P) (\<lambda>_. I) I"
  by (erule triple_post) simp_all

lemma keeps_result: "keeps I m \<Longrightarrow> I s \<Longrightarrow> I (snd (m s))"
  by (cases "m s"; cases "fst (m s)") (auto dest: tripleD)

lemma keeps_io_map [keeps_intros]: "(\<And>x. x \<in> set xs \<Longrightarrow> keeps P (f x)) \<Longrightarrow> keeps P (io_map f xs)"
  by (induction xs) (auto intro!: keeps_intros)

lemma keeps_reads [keeps_intros]:
  assumes "hassert P"
  shows "keeps P (digest_path sha p)" "keeps P (sync_path p)" "keeps P (os_stat p)" "keeps P (flock_ex p)"
    "keeps P (ListObjects kind)" "keeps P (ListArtifactRecords ca)" "keeps P (ListCandidateRecords cc)"
    "keeps P (ReadCandidateRecord cc d)" "keeps P (ReadArtifactRecord ca d)" "keeps P (Exists kind d)"
    "keeps P (ObjectStat kind d)"
  unfolding digest_path_def sync_path_def os_stat_def flock_ex_def ListObjects_def ListArtifactRecords_def
    ListCandidateRecords_def ReadArtifactRecord_def ReadCandidateRecord_def Exists_def ObjectStat_def
  by (intro keeps_intros assms)+

lemma triple_digest_path:
  "hassert P \<Longrightarrow>
   triple P (digest_path sha p) (\<lambda>r s. P s \<and> (\<exists>t. lookup s p = Some t \<and> DigestTree sha t = Inr r)) (\<lambda>_. P) P"
  unfolding digest_path_def by (rule triple_hquery) (auto split: option.splits)

lemma DigestTree_alg: "DigestTree sha t = Inr (d, es) \<Longrightarrow> algorithm d = sha256Alg"
  by (auto simp: DigestTree_def rbind_eq_Inr Let_def SHA256_def)

lemma objectPathD:
  "objectPath kind d = Inr p \<Longrightarrow> kindDir kind = Inr (fst p) \<and> snd p = [hex d] \<and> fst p \<in> {Artifacts, Candidates, Snapshots}"
  by (cases kind) (auto simp: objectPath_def split: if_splits)

lemma staging_writable: "fst p = Staging \<Longrightarrow> writable (content_addressed sha) p v"
  using content_writable_elsewhere [of "fst p" sha "snd p" v] by (cases p) simp

text \<open>The tree about to be published hashes to its name.\<close>

definition staged_as :: "(string \<Rightarrow> string) \<Rightarrow> hpath \<Rightarrow> digest \<Rightarrow> host \<Rightarrow> bool" where
  "staged_as sha staged d s \<longleftrightarrow> content_addressed sha s \<and> (\<exists>t es. lookup s staged = Some t \<and> DigestTree sha t = Inr (d, es))"

lemma hassert_staged [hassert_intros]: "hassert (staged_as sha p d)"
  by (simp add: hassert_def staged_as_def content_addressed_def)

lemma staged_content: "staged_as sha p d s \<Longrightarrow> content_addressed sha s"
  by (simp add: staged_as_def)

lemma triple_rename_into_place:
  assumes "objectPath kind d = Inr final" "fst staged = Staging"
  shows "triple (staged_as sha staged d) (os_Rename staged final)
    (\<lambda>_. content_addressed sha) (\<lambda>_. content_addressed sha) (content_addressed sha)"
  unfolding os_Rename_def
proof (rule triple_hcall, goal_cases)
  case 1
  show ?case by (intro hassert_intros)
next
  case (2 s s' x)
  then obtain t es where t: "lookup s staged = Some t" "DigestTree sha t = Inr (d, es)" "content_addressed sha s"
    by (auto simp: staged_as_def)
  obtain D where D: "final = (D, [hex d])" using objectPathD [OF assms(1)] by (cases final) auto
  have "content_addressed sha (put staged None s)"
    using staging_writable [OF assms(2)] t(3) by (simp add: writable_def)
  then have "content_addressed sha (put final (Some t) (put staged None s))"
    unfolding D by (rule content_put) (use t(2) DigestTree_alg [OF t(2)] ParseDigest_hex in \<open>cases d; fastforce\<close>)
  then show ?case using 2(2) t(1,3) by (auto split: option.splits node.splits if_splits)
qed (auto dest: staged_content split: option.splits node.splits if_splits)

lemma keeps_discard: "fst staged = Staging \<Longrightarrow> keeps (content_addressed sha) (discard staged obj)"
  unfolding discard_def by (intro keeps_intros hassert_intros staging_writable)

lemma triple_publish_verified:
  assumes "objectPath kind d = Inr (ob_path obj)" "fst staged = Staging"
  shows "triple (staged_as sha staged d) (publish_verified staged obj)
    (\<lambda>_. content_addressed sha) (\<lambda>_. content_addressed sha) (content_addressed sha)"
proof -
  have k: "triple (staged_as sha staged d) m (\<lambda>_. staged_as sha staged d) (\<lambda>_. content_addressed sha) (content_addressed sha)"
    if "keeps (staged_as sha staged d) m" for m :: "'a hio"
    by (rule keeps_weaken [OF that]) (rule staged_content)
  have d: "triple (staged_as sha staged d) (discard staged obj)
      (\<lambda>_. content_addressed sha) (\<lambda>_. content_addressed sha) (content_addressed sha)"
    by (rule triple_pre [OF keeps_discard [OF assms(2)] staged_content])
  have r: "triple (staged_as sha staged d)
      (io_then (io_wrap ''sync staged %s: %w'' [kd] (sync_path staged))
        (io_bind (io_wrap ''publish %s: %w'' [kd] (os_Rename staged (ob_path obj))) (\<lambda>renamed.
         if renamed then io_then (io_wrap ''publish %s: %w'' [kd] os_step) (io_ret obj) else discard staged obj)))
      (\<lambda>_. content_addressed sha) (\<lambda>_. content_addressed sha) (content_addressed sha)" for kd
    by (rule triple_bind [OF k triple_bind [OF triple_wrap [OF triple_rename_into_place [OF assms]]]])
      (intro keeps_intros hassert_intros keeps_discard assms)+
  show ?thesis
    unfolding publish_verified_def Let_def
    by (rule triple_bind [OF k]) (use d r in \<open>auto intro!: keeps_intros hassert_intros split: sum.splits option.splits\<close>)
qed

lemma keeps_Publish:
  assumes "fst staged = Staging"
  shows "keeps (content_addressed sha) (Publish sha kind staged d)"
  unfolding Publish_def
proof (rule triple_bind [OF triple_of [where Q = "\<lambda>p s. objectPath kind d = Inr p \<and> content_addressed sha s"]],
    simp, simp, rule triple_pure)
  fix final assume f: "objectPath kind d = Inr final"
  let ?I = "content_addressed sha"
  show "keeps ?I (io_bind (io_wrap ''verify staged %s: %w'' [kind_text kind] (digest_path sha staged)) (\<lambda>got.
       if fst got \<noteq> d
       then io_fail (Class ErrInvalid ''%w: staged %s digest %s does not match claimed %s''
              [kind_text kind, Digest_String (fst got), Digest_String d])
       else io_then os_step
         (io_defer os_step (publish_verified staged \<lparr>ob_kind = kind, ob_digest = d, ob_path = final\<rparr>))))"
  proof (rule triple_bind [OF triple_wrap [OF triple_digest_path]], rule hassert_content, rule triple_if)
    fix got :: "digest \<times> tree_entry list"
    assume "\<not> fst got \<noteq> d"
    then have st: "content_addressed sha s \<and> (\<exists>t. lookup s staged = Some t \<and> DigestTree sha t = Inr got) \<Longrightarrow>
        staged_as sha staged d s" for s
      by (cases got) (auto simp: staged_as_def)
    have v: "triple (staged_as sha staged d) (io_defer os_step
        (publish_verified staged \<lparr>ob_kind = kind, ob_digest = d, ob_path = final\<rparr>)) (\<lambda>_. ?I) (\<lambda>_. ?I) ?I"
      by (rule triple_defer [OF triple_publish_verified [of kind d]])
        (use f assms in \<open>auto intro!: keeps_intros hassert_intros\<close>)
    show "triple (\<lambda>s. content_addressed sha s \<and> (\<exists>t. lookup s staged = Some t \<and> DigestTree sha t = Inr got))
        (io_then os_step (io_defer os_step
          (publish_verified staged \<lparr>ob_kind = kind, ob_digest = d, ob_path = final\<rparr>))) (\<lambda>_. ?I) (\<lambda>_. ?I) ?I"
      by (rule triple_pre [OF triple_bind [OF keeps_weaken [OF keeps_queries(4) [OF hassert_staged]] v]])
        (erule staged_content, erule st)
  qed (auto intro!: triple_fail)
qed

lemma keeps_NewStaging: "keeps (content_addressed sha) (NewStaging pattern)"
  unfolding NewStaging_def os_MkdirTemp_def
  by (intro keeps_intros hassert_intros keeps_CreateTemp staging_writable) simp_all

lemma keeps_removeRecord: "keeps (content_addressed sha) (removeRecord kind d)"
  unfolding removeRecord_def
  by (cases kind) (auto intro!: keeps_intros hassert_intros content_writable)

lemma keeps_unpublish:
  assumes "objectPath kind d = Inr p"
  shows "keeps (content_addressed sha) (unpublish kind d p)"
proof -
  obtain D where D: "p = (D, [hex d])" using objectPathD [OF assms] by (cases p) auto
  have "keeps (content_addressed sha) (os_Rename p (Staging, cs))" for cs
  proof (rule keeps_Rename [OF hassert_content])
    fix s n assume "content_addressed sha s"
    then have "content_addressed sha (put p None s)" unfolding D by (rule content_put) simp
    then show "content_addressed sha (put (Staging, cs) (Some n) (put p None s))"
      using staging_writable [of "(Staging, cs)" sha "Some n"] by (simp add: writable_def)
  qed
  then show ?thesis
    unfolding unpublish_def Let_def os_MkdirTemp_def
    by (intro keeps_intros hassert_intros keeps_CreateTemp staging_writable keeps_removeRecord)
      (auto intro!: keeps_intros hassert_intros staging_writable keeps_removeRecord split: sum.splits bool.splits)
qed

text \<open>\<^verbatim>\<open>RemoveObject\<close> keeps what its parts keep.\<close>

lemma keeps_RemoveObject_parts:
  assumes h: "hassert P" and r: "keeps P (removeRecord kind d)"
    and u: "\<And>p. objectPath kind d = Inr p \<Longrightarrow> keeps P (unpublish kind d p)"
  shows "keeps P (RemoveObject kind d)"
  unfolding RemoveObject_def
proof (rule triple_bind [OF triple_of [where Q = "\<lambda>p s. objectPath kind d = Inr p \<and> P s"]],
    simp, simp, rule triple_pure)
  fix p assume "objectPath kind d = Inr p"
  from u [OF this] show "keeps P (io_then os_step (io_defer os_step (remove_locked kind d p)))"
    unfolding remove_locked_def remove_present_def by (intro keeps_intros h r)
qed

lemma keeps_RemoveObject: "keeps (content_addressed sha) (RemoveObject kind d)"
  by (intro keeps_RemoveObject_parts hassert_content keeps_removeRecord keeps_unpublish)

lemma keeps_writeRecordOnce:
  assumes "\<not> list_all (\<lambda>c. is_lower_hex (byte c)) base"
  shows "keeps (content_addressed sha) (writeRecordOnce c dir base lbl rec)"
proof -
  have "keeps (content_addressed sha) (WriteFileAtomic (dir, []) base bytes perm)" for bytes perm
    by (rule keeps_WriteFileAtomic [OF hassert_content])
      (auto intro!: content_writable simp: assms dot_not_hex)
  then show ?thesis unfolding writeRecordOnce_def
    by (intro keeps_intros hassert_intros) (auto intro!: keeps_intros split: sum.splits option.splits)
qed

lemma keeps_records:
  "keeps (content_addressed sha) (WriteArtifactRecord ca ra)"
  "keeps (content_addressed sha) (WriteCandidateRecord cc rc)"
  unfolding WriteArtifactRecord_def WriteCandidateRecord_def
  by (intro keeps_intros keeps_writeRecordOnce not_hex_suffix)+

lemma keeps_CleanStaging: "keeps (content_addressed sha) (CleanStaging t dry)"
  unfolding CleanStaging_def clean_entry_def
  by (intro keeps_intros hassert_intros staging_writable)
    (auto intro!: keeps_intros hassert_intros staging_writable split: sum.splits option.splits)

text \<open>
  C10. Every published object hashes to its name, always: no operation of the store breaks this, whichever of its
  calls fail, before or after they took effect, and wherever the process dies inside it.
\<close>

theorem store_content_addressed:
  assumes "content_addressed sha s" "fst staged = Staging"
  shows "content_addressed sha (snd (Publish sha kind staged d s)) \<and>
    content_addressed sha (snd (RemoveObject kind d s)) \<and>
    content_addressed sha (snd (WriteArtifactRecord ca ra s)) \<and>
    content_addressed sha (snd (WriteCandidateRecord cc rc s)) \<and>
    content_addressed sha (snd (CleanStaging t dry s)) \<and>
    content_addressed sha (snd (NewStaging pattern s))"
  by (intro conjI; rule keeps_result [where I = "content_addressed sha", OF _ assms(1)], intro keeps_Publish
      keeps_RemoveObject keeps_records keeps_CleanStaging keeps_NewStaging assms)

section \<open>What operations leave alone\<close>

text \<open>An object path: a directory entry whose name could be a digest.\<close>

definition object_place :: "hpath \<Rightarrow> bool" where
  "object_place p \<longleftrightarrow> fst p \<noteq> Staging \<and> (\<exists>h. snd p = [h] \<and> list_all (\<lambda>c. is_lower_hex (byte c)) h)"

abbreviation stays :: "hpath \<Rightarrow> node option \<Rightarrow> nat \<Rightarrow> host \<Rightarrow> bool" where
  "stays p v k \<equiv> \<lambda>s. lookup s p = v \<and> leased s p = k"

lemma hassert_stays: "hassert (stays p v k)"
  by (simp add: hassert_def)

lemma stays_writable: "path_apart p q \<Longrightarrow> writable (stays p v k) q w"
  by (simp add: writable_def)

lemma stays_staging: "object_place p \<Longrightarrow> fst q = Staging \<Longrightarrow> writable (stays p v k) q w"
  by (rule stays_writable) (auto simp: object_place_def path_apart_def)

lemma stays_other: "object_place p \<Longrightarrow> (D, [n]) \<noteq> p \<Longrightarrow> writable (stays p v k) (D, [n]) w"
  by (rule stays_writable) (cases p, auto simp: object_place_def path_apart_def)

lemma stays_record: "object_place p \<Longrightarrow> writable (stays p v k) (D, [h @ record_suffix]) w"
  by (rule stays_other) (use not_hex_suffix [of h] in \<open>auto simp: object_place_def\<close>)

lemmas stays_intros = hassert_stays stays_staging stays_record

lemma stays_removeRecord: "object_place p \<Longrightarrow> keeps (stays p v k) (removeRecord kind d)"
  unfolding removeRecord_def by (cases kind) (auto intro!: keeps_intros stays_intros)

lemma stays_CreateTemp_staging:
  "object_place p \<Longrightarrow> fst dir = Staging \<Longrightarrow> keeps (stays p v k) (os_CreateTemp n dir pre)"
  by (intro keeps_CreateTemp stays_intros) simp_all

lemma stays_unpublish:
  assumes p: "object_place p" and q: "objectPath kind d = Inr q" "q \<noteq> p"
  shows "keeps (stays p v k) (unpublish kind d q)"
proof -
  obtain D where D: "q = (D, [hex d])" using objectPathD [OF q(1)] by (cases q) auto
  have "keeps (stays p v k) (os_Rename q (Staging, cs))" for cs
  proof (rule keeps_Rename [OF hassert_stays])
    fix s n assume "stays p v k s"
    then have "stays p v k (put q None s)" using stays_other [OF p] q(2) by (simp add: writable_def D)
    then show "stays p v k (put (Staging, cs) (Some n) (put q None s))"
      using stays_staging [OF p, of "(Staging, cs)"] by (simp add: writable_def)
  qed
  then show ?thesis
    unfolding unpublish_def Let_def os_MkdirTemp_def
    by (intro keeps_intros stays_intros stays_CreateTemp_staging stays_removeRecord p)
      (auto intro!: keeps_intros stays_intros stays_removeRecord p split: sum.splits bool.splits)
qed

lemma stays_RemoveObject:
  assumes "object_place p" "\<And>q. objectPath kind d = Inr q \<Longrightarrow> q \<noteq> p"
  shows "keeps (stays p v k) (RemoveObject kind d)"
  by (intro keeps_RemoveObject_parts hassert_stays stays_removeRecord stays_unpublish) (use assms in auto)

lemma triple_RemoveObject_leased:
  assumes q: "objectPath kind d = Inr p" and k: "0 < k"
  shows "triple (stays p (Some n) k) (RemoveObject kind d) (\<lambda>_ _. False) (\<lambda>_. stays p (Some n) k) (stays p (Some n) k)"
    (is "triple ?P _ _ _ _")
proof -
  have step: "triple ?P os_step (\<lambda>_. ?P) (\<lambda>_. ?P) ?P" by (intro keeps_intros stays_intros)
  have lstat: "triple ?P (io_wrap f as (os_Lstat p)) (\<lambda>r s. r = Some n \<and> ?P s) (\<lambda>_. ?P) ?P" for f as
    unfolding os_Lstat_def by (intro triple_wrap triple_hquery hassert_stays) simp_all
  have flock: "triple ?P (io_try (flock_ex p)) (\<lambda>l s. isl l \<and> ?P s) (\<lambda>_. ?P) ?P"
    unfolding flock_ex_def by (intro triple_try triple_hquery hassert_stays) (use k in auto)
  have lock: "triple ?P (remove_present kind d p) (\<lambda>_ _. False) (\<lambda>_. ?P) ?P"
    unfolding remove_present_def
    by (rule triple_bind [OF flock], rule triple_pure) (auto intro!: triple_fail split: sum.splits)
  have body: "triple ?P (remove_locked kind d p) (\<lambda>_ _. False) (\<lambda>_. ?P) ?P"
    unfolding remove_locked_def by (rule triple_bind [OF lstat], rule triple_pure) (use lock in auto)
  have deferred: "triple ?P (io_defer os_step (remove_locked kind d p)) (\<lambda>_ _. False) (\<lambda>_. ?P) ?P"
    by (rule triple_defer [OF body]) (use step in \<open>auto simp: triple_def\<close>)
  show ?thesis
    unfolding RemoveObject_def
    by (rule triple_bind [OF triple_of [where Q = "\<lambda>x s. x = p \<and> ?P s"]])
      (use q triple_bind [OF step deferred] in \<open>auto intro!: triple_pure\<close>)
qed


text \<open>
  What a lease is for: an object that somebody leases cannot be removed. Whatever fails and wherever the
  process dies, the removal does not return, and the object stays as it is with its leases.
\<close>

theorem RemoveObject_leased:
  assumes "objectPath kind d = Inr p" "lookup s p = Some n" "0 < leased s p" "RemoveObject kind d s = (r, s')"
  shows "(\<forall>x. r \<noteq> Ret x) \<and> lookup s' p = Some n \<and> leased s' p = leased s p"
  using tripleD [OF triple_RemoveObject_leased [OF assms(1,3), of n], of s] assms(2,4) by (cases r) auto

section \<open>An instance\<close>

definition demo_hash :: "string \<Rightarrow> string" where
  "demo_hash b = replicate 64 (CHR ''0'')"

definition demo_digest :: digest where
  "demo_digest = \<lparr>algorithm = sha256Alg, hex = replicate 64 (CHR ''0'')\<rparr>"

definition demo_store :: host where
  "demo_store =
     \<lparr>tree = (\<lambda>d. if d = Staging then Some (Directory [(''s'', Directory [])]) else if d = Artifacts then Some (Directory []) else None),
      root_path = (\<lambda>_. ''/s''), mtimes = (\<lambda>_. 0), leased = (\<lambda>_. 0), now = 0, suffixes = [1, 2, 3], hfaults = []\<rparr>"

definition demo_published :: host where
  "demo_published = snd (Publish demo_hash ArtifactObject (Staging, [''s'']) demo_digest demo_store)"

lemma demo_publish:
  "fst (Publish demo_hash ArtifactObject (Staging, [''s'']) demo_digest demo_store) =
   Ret \<lparr>ob_kind = ArtifactObject, ob_digest = demo_digest, ob_path = (Artifacts, [hex demo_digest])\<rparr>"
  by code_simp

theorem store_content_addressed_witness:
  "content_addressed demo_hash demo_published \<and> lookup demo_published (Artifacts, [hex demo_digest]) = Some (Directory [])"
proof -
  have "content_addressed demo_hash demo_store"
    by (simp add: content_addressed_def demo_store_def lookup_def split: if_splits)
  moreover have "lookup demo_published (Artifacts, [hex demo_digest]) = Some (Directory [])" by code_simp
  ultimately show ?thesis
    using store_content_addressed [of demo_hash demo_store "(Staging, [''s''])"] by (simp add: demo_published_def)
qed

theorem RemoveObject_leased_witness:
  "\<forall>x. fst (RemoveObject ArtifactObject demo_digest (demo_published\<lparr>leased := \<lambda>_. 1\<rparr>)) \<noteq> Ret x"
proof -
  have "objectPath ArtifactObject demo_digest = Inr (Artifacts, [hex demo_digest])"
    "lookup (demo_published\<lparr>leased := \<lambda>_. 1\<rparr>) (Artifacts, [hex demo_digest]) = Some (Directory [])"
    by code_simp+
  from RemoveObject_leased [OF this _ prod.collapse [symmetric]] show ?thesis by simp
qed

end
