(* ===== verification/Registry.thy ===== *)
theory Registry
  imports Store
begin

text \<open>
  The project registry (\<^verbatim>\<open>internal/registry\<close>): one versioned JSON record per project, written atomically under
  the project's lock with a revision that must match. The lemmas show that of two updates that started
  from one revision at most one goes through, and that no two records ever claim the same root.
\<close>

section \<open>Records (records.go)\<close>

record file_identity =
  fi_device :: "64 word"
  fi_inode :: "64 word"

record root =
  ro_path :: string
  ro_identity :: file_identity

record registry_record =
  rr_format :: int
  rr_revision :: "64 word"
  rr_id :: string
  rr_root :: string
  rr_identity :: file_identity
  rr_display_name :: string
  rr_artifact :: digest
  rr_release_version :: string
  rr_mode :: string
  rr_approved :: "digest option"
  rr_agent_refresh :: string
  rr_created_at :: int
  rr_updated_at :: int

definition RecordFormat :: int where "RecordFormat = 1"

definition ModeRelease :: string where "ModeRelease = ''release''"
definition ModeDev :: string where "ModeDev = ''dev''"

record new_record =
  nr_root :: root
  nr_display_name :: string
  nr_artifact :: digest
  nr_release_version :: string
  nr_mode :: string

definition new_record_validate :: "new_record \<Rightarrow> error + unit" where
  "new_record_validate n =
     (if ro_path (nr_root n) = '''' then Inl (Class ErrInvalid ''%w: project root is required'' [])
      else if nr_display_name n = '''' then Inl (Class ErrInvalid ''%w: display name is required'' [])
      else if length (nr_display_name n) > 64 then Inl (Class ErrInvalid ''%w: display name exceeds 64 bytes'' [])
      else if nr_mode n \<noteq> ModeRelease \<and> nr_mode n \<noteq> ModeDev then Inl (Class ErrInvalid ''%w: mode %q'' [nr_mode n])
      else Inr ())"

section \<open>The registry (registry.go)\<close>

definition json_suffix :: string where
  "json_suffix = ''.json''"

definition recordPath :: "string \<Rightarrow> hpath" where
  "recordPath i = (Projects, [i @ json_suffix])"

text \<open>
  \<^verbatim>\<open>read\<close>: that the file is gone is the one answer the listing treats apart, so it is a value here.
\<close>

definition read_record :: "registry_record codec \<Rightarrow> string \<Rightarrow> registry_record option hio" where
  "read_record c name =
     io_bind (os_ReadFile (Projects, [name])) (\<lambda>r.
       case r of
         None \<Rightarrow> io_ret None
       | Some bytes \<Rightarrow>
           io_bind (io_of (DecodeRecord c bytes (''project record '' @ name) RecordFormat)) (\<lambda>rec. io_ret (Some rec)))"

definition reg_read :: "registry_record codec \<Rightarrow> string \<Rightarrow> registry_record hio" where
  "reg_read c name =
     io_bind (read_record c name) (\<lambda>r.
       case r of
         None \<Rightarrow> io_fail (Class ErrNotFound ''%w: project record %s'' [name])
       | Some rec \<Rightarrow> io_ret rec)"

definition reg_write :: "registry_record codec \<Rightarrow> registry_record \<Rightarrow> unit hio" where
  "reg_write c rec =
     io_bind (io_of (MarshalRecord c rec)) (\<lambda>bytes.
       WriteFileAtomic (Projects, []) (rr_id rec @ json_suffix) bytes 0x180)"

definition record_names :: "(string \<times> node) list \<Rightarrow> string list" where
  "record_names es =
     map fst (filter (\<lambda>(n, x). (case x of Directory _ \<Rightarrow> False | _ \<Rightarrow> True) \<and> has_suffix n json_suffix) es)"

definition sort_records :: "registry_record list \<Rightarrow> registry_record list" where
  "sort_records = sort_key rr_display_name \<circ> sort_key rr_id"

definition reg_list :: "registry_record codec \<Rightarrow> registry_record list hio" where
  "reg_list c =
     io_bind (io_wrap ''read registry: %w'' [] (os_ReadDir (Projects, []))) (\<lambda>r.
       case r of
         None \<Rightarrow> io_fail (Wrapped ''read registry: %w'' [] (Plain ''no such file or directory'' []))
       | Some es \<Rightarrow>
           io_bind (io_map (read_record c) (record_names es)) (\<lambda>rs.
             io_ret (sort_records (List.map_filter id rs))))"

definition matches_root :: "root \<Rightarrow> registry_record \<Rightarrow> bool" where
  "matches_root root rec = (rr_identity rec = ro_identity root \<or> rr_root rec = ro_path root)"

definition first_record :: "new_record \<Rightarrow> string \<Rightarrow> int \<Rightarrow> registry_record" where
  "first_record n i time =
     \<lparr>rr_format = RecordFormat, rr_revision = 1, rr_id = i, rr_root = ro_path (nr_root n),
      rr_identity = ro_identity (nr_root n), rr_display_name = nr_display_name n,
      rr_artifact = nr_artifact n, rr_release_version = nr_release_version n, rr_mode = nr_mode n,
      rr_approved = None, rr_agent_refresh = '''', rr_created_at = time, rr_updated_at = time\<rparr>"

definition Create :: "registry_record codec \<Rightarrow> error + 8 word list \<Rightarrow> int \<Rightarrow> new_record \<Rightarrow> registry_record hio" where
  "Create c rand time n =
     io_then (io_of (new_record_validate n))
     (io_bind (io_of (NewProjectID rand)) (\<lambda>i.
      io_then os_step (io_defer os_step
        (io_bind (reg_list c) (\<lambda>existing.
         case List.find (matches_root (nr_root n)) existing of
           Some rec \<Rightarrow>
             io_fail (Class ErrConflict ''%w: %s is already registered as %q (%s)''
               [ro_path (nr_root n), rr_display_name rec, rr_id rec])
         | None \<Rightarrow>
             let rec = first_record n i time in io_then (reg_write c rec) (io_ret rec))))))"

definition Get :: "registry_record codec \<Rightarrow> string \<Rightarrow> registry_record hio" where
  "Get c i = reg_read c (i @ json_suffix)"

definition Resolve :: "registry_record codec \<Rightarrow> root \<Rightarrow> registry_record hio" where
  "Resolve c root =
     io_bind (reg_list c) (\<lambda>records.
       case filter (matches_root root) records of
         [] \<Rightarrow> io_fail (Class ErrNotFound ''%w: project %s is not registered (run `vibe register`)'' [ro_path root])
       | [m] \<Rightarrow> io_ret m
       | ms \<Rightarrow> io_fail (Class ErrConflict ''%w: %s matches multiple registrations: %s''
                 [ro_path root, join '', '' (map (\<lambda>m. rr_display_name m @ '' ('' @ rr_id m @ '')'') ms)]))"

definition revision_error :: "string \<Rightarrow> registry_record \<Rightarrow> 64 word \<Rightarrow> error" where
  "revision_error i rec revn =
     Class ErrConflict ''%w: project %s is at revision %d, not %d'' [i, itoa (unat (rr_revision rec)), itoa (unat revn)]"

text \<open>The caller's change fn sees the record and returns it changed, or refuses.\<close>

definition apply_update :: "string \<Rightarrow> 64 word \<Rightarrow> int \<Rightarrow> registry_record \<Rightarrow> registry_record" where
  "apply_update i revn time rec =
     rec\<lparr>rr_format := RecordFormat, rr_id := i, rr_revision := revn + 1, rr_updated_at := time\<rparr>"

definition update_locked ::
  "registry_record codec \<Rightarrow> string \<Rightarrow> 64 word \<Rightarrow> int \<Rightarrow> (registry_record \<Rightarrow> error + registry_record) \<Rightarrow>
   registry_record hio" where
  "update_locked c i revn time fn =
     io_bind (reg_read c (i @ json_suffix)) (\<lambda>rec.
       if rr_revision rec \<noteq> revn then io_fail (revision_error i rec revn)
       else io_bind (io_of (fn rec)) (\<lambda>rec'.
         let new = apply_update i revn time rec'
         in io_then (reg_write c new) (io_ret new)))"

definition Update ::
  "registry_record codec \<Rightarrow> string \<Rightarrow> 64 word \<Rightarrow> int \<Rightarrow> (registry_record \<Rightarrow> error + registry_record) \<Rightarrow>
   registry_record hio" where
  "Update c i revn time fn = io_then os_step (io_defer os_step (update_locked c i revn time fn))"

definition Delete :: "registry_record codec \<Rightarrow> string \<Rightarrow> 64 word \<Rightarrow> unit hio" where
  "Delete c i revn =
     io_then os_step (io_defer os_step
       (io_bind (reg_read c (i @ json_suffix)) (\<lambda>rec.
        if rr_revision rec \<noteq> revn then io_fail (revision_error i rec revn)
        else io_bind (os_Remove (recordPath i)) (\<lambda>found.
          if found then io_ret () else io_fail (Plain ''no such file or directory'' [])))))"


section \<open>Compare and swap\<close>

text \<open>What JSON promises of the record type: a marshalled record decodes to itself.\<close>

definition codec_ok :: "'r codec \<Rightarrow> ('r \<Rightarrow> int) \<Rightarrow> bool" where
  "codec_ok c fmt \<longleftrightarrow> (\<forall>r bytes lbl. MarshalRecord c r = Inr bytes \<longrightarrow> DecodeRecord c bytes lbl (fmt r) = Inr r)"

text \<open>The record file of project i holds rec.\<close>

definition recorded :: "registry_record codec \<Rightarrow> string \<Rightarrow> registry_record \<Rightarrow> host \<Rightarrow> bool" where
  "recorded c i rec s \<longleftrightarrow>
     (\<exists>m bytes. lookup s (recordPath i) = Some (RegularFile m bytes) \<and>
        DecodeRecord c bytes (''project record '' @ i @ json_suffix) RecordFormat = Inr rec)"

lemma hassert_recorded [hassert_intros]: "hassert (recorded c i rec)"
  by (simp add: hassert_def recorded_def)

lemma tmp_apart: "path_apart (Projects, [n @ json_suffix]) (Projects, [''.'' @ base @ ''.tmp-'' @ itoa x])"
proof -
  have "last (n @ json_suffix) = CHR ''n''" by (simp add: json_suffix_def)
  moreover have "is_digit (last (itoa x))" using itoa_digits [of x] by (simp add: list_all_iff)
  then have "last (''.'' @ base @ ''.tmp-'' @ itoa x) \<noteq> CHR ''n''" by (auto simp: is_digit_def)
  ultimately have "n @ json_suffix \<noteq> ''.'' @ base @ ''.tmp-'' @ itoa x" by metis
  then show ?thesis by (simp add: path_apart_def)
qed

lemma recorded_tmp: "writable (recorded c i rec) (Projects, [''.'' @ base @ ''.tmp-'' @ itoa x]) v"
  using tmp_apart [of i base x] by (simp add: writable_def recorded_def recordPath_def)

lemma keeps_reg_reads [keeps_intros]:
  assumes "hassert P"
  shows "keeps P (read_record c n)" "keeps P (reg_read c n)" "keeps P (reg_list c)"
  unfolding reg_list_def reg_read_def read_record_def by (intro keeps_intros assms)+

lemma triple_reg_read:
  "triple (recorded c i rec) (reg_read c (i @ json_suffix)) (\<lambda>r s. r = rec \<and> recorded c i rec s)
     (\<lambda>_. recorded c i rec) (recorded c i rec)"
proof -
  have "triple (recorded c i rec) (os_ReadFile (Projects, [i @ json_suffix]))
     (\<lambda>r s. (\<exists>bytes. r = Some bytes \<and> DecodeRecord c bytes (''project record '' @ i @ json_suffix) RecordFormat = Inr rec) \<and>
        recorded c i rec s) (\<lambda>_. recorded c i rec) (recorded c i rec)"
    unfolding os_ReadFile_def
    by (rule triple_hquery) (auto intro: hassert_intros simp: recorded_def recordPath_def)
  then have "triple (recorded c i rec) (read_record c (i @ json_suffix)) (\<lambda>r s. r = Some rec \<and> recorded c i rec s)
     (\<lambda>_. recorded c i rec) (recorded c i rec)"
    unfolding read_record_def
  proof (rule triple_bind)
    fix r
    let ?k = "case r of None \<Rightarrow> io_ret None | Some bytes \<Rightarrow>
        io_bind (io_of (DecodeRecord c bytes (''project record '' @ i @ json_suffix) RecordFormat)) (\<lambda>rec. io_ret (Some rec))"
    show "triple (\<lambda>s. (\<exists>bytes. r = Some bytes \<and> DecodeRecord c bytes (''project record '' @ i @ json_suffix) RecordFormat = Inr rec) \<and>
        recorded c i rec s) ?k (\<lambda>r s. r = Some rec \<and> recorded c i rec s) (\<lambda>_. recorded c i rec) (recorded c i rec)"
      by (rule triple_pure) (auto simp: triple_def io_bind_def io_of_def of_sum_def io_ret_def)
  qed
  then show ?thesis
    unfolding reg_read_def by (rule triple_bind) (rule triple_pure, auto intro: triple_ret)
qed

lemma update_stale:
  assumes "rr_revision rec \<noteq> revn"
  shows "triple (recorded c i rec) (Update c i revn time fn) (\<lambda>_ _. False) (\<lambda>_. recorded c i rec) (recorded c i rec)"
proof -
  have step: "keeps (recorded c i rec) os_step" by (intro keeps_intros hassert_intros)
  have "triple (recorded c i rec) (update_locked c i revn time fn) (\<lambda>_ _. False) (\<lambda>_. recorded c i rec) (recorded c i rec)"
    unfolding update_locked_def
    by (rule triple_bind [OF triple_reg_read], rule triple_pure) (use assms in \<open>auto intro!: triple_fail\<close>)
  then have "triple (recorded c i rec) (io_defer os_step (update_locked c i revn time fn)) (\<lambda>_ _. False)
      (\<lambda>_. recorded c i rec) (recorded c i rec)"
    by (rule triple_defer) (use step in \<open>auto simp: triple_def\<close>)
  then show ?thesis unfolding Update_def by (rule triple_bind [OF step])
qed

lemma triple_reg_write:
  assumes c: "codec_ok c rr_format" and rec: "rr_id rec = i" "rr_format rec = RecordFormat"
  shows "triple (\<lambda>s. \<exists>n. lookup s (recordPath i) = Some n) (reg_write c rec) (\<lambda>_. recorded c i rec) (\<lambda>_ _. True) (\<lambda>_. True)"
  unfolding reg_write_def
proof (rule triple_bind [OF triple_of [where Q = "\<lambda>b s. MarshalRecord c rec = Inr b \<and> (\<exists>n. lookup s (recordPath i) = Some n)"]],
    simp, simp, rule triple_pure)
  fix bytes assume m: "MarshalRecord c rec = Inr bytes"
  let ?P = "\<lambda>s. \<exists>n. lookup s (recordPath i) = Some n"
  have d: "DecodeRecord c bytes lbl RecordFormat = Inr rec" for lbl using c m rec by (metis codec_ok_def)
  have "triple ?P (WriteFileAtomic (Projects, []) (rr_id rec @ json_suffix) bytes 0x180) (\<lambda>_. recorded c i rec)
      (\<lambda>_ s. ?P s \<or> recorded c i rec s) (\<lambda>s. ?P s \<or> recorded c i rec s)"
  proof (rule triple_WriteFileAtomic, goal_cases)
    case 1
    show ?case by (simp add: hassert_def)
  next
    case (3 x v)
    show ?case using tmp_apart [of i "rr_id rec @ json_suffix" x] by (simp add: writable_def recordPath_def)
  next
    case (4 x v)
    show ?case using recorded_tmp [of c i rec "rr_id rec @ json_suffix" x v] by simp
  next
    case (5 s)
    from 5(1) obtain n where "lookup s (Projects, [i @ json_suffix]) = Some n" by (auto simp: recordPath_def)
    then show ?case using lookup_put_replaced [of "(Projects, [i @ json_suffix])"] d rec(1)
      by (auto simp: recorded_def recordPath_def)
  qed (rule hassert_recorded)
  then show "triple ?P (WriteFileAtomic (Projects, []) (rr_id rec @ json_suffix) bytes 0x180) (\<lambda>_. recorded c i rec)
      (\<lambda>_ _. True) (\<lambda>_. True)"
    by (rule triple_post) auto
qed

lemma update_success:
  assumes c: "codec_ok c rr_format"
  shows "triple (\<lambda>_. True) (Update c i revn time fn)
     (\<lambda>r s. (\<exists>r0 r1. fn r0 = Inr r1 \<and> r = apply_update i revn time r1) \<and> recorded c i r s) (\<lambda>_ _. True) (\<lambda>_. True)"
proof -
  let ?P = "\<lambda>s. \<exists>n. lookup s (recordPath i) = Some n"
  let ?Q = "\<lambda>r s. (\<exists>r0 r1. fn r0 = Inr r1 \<and> r = apply_update i revn time r1) \<and> recorded c i r s"
  have step: "triple (\<lambda>_. True) os_step (\<lambda>_ _. True) (\<lambda>_ _. True) (\<lambda>_. True)" by (intro keeps_intros hassert_intros)
  have rd: "triple (\<lambda>_. True) (reg_read c (i @ json_suffix)) (\<lambda>_. ?P) (\<lambda>_ _. True) (\<lambda>_. True)"
  proof -
    have "triple (\<lambda>_. True) (os_ReadFile (Projects, [i @ json_suffix])) (\<lambda>r s. r \<noteq> None \<longrightarrow> ?P s) (\<lambda>_ _. True) (\<lambda>_. True)"
      unfolding os_ReadFile_def
      by (rule triple_hquery) (auto intro: hassert_intros simp: recordPath_def split: option.splits)
    then have "triple (\<lambda>_. True) (read_record c (i @ json_suffix)) (\<lambda>r s. r \<noteq> None \<longrightarrow> ?P s) (\<lambda>_ _. True) (\<lambda>_. True)"
      unfolding read_record_def
      by (rule triple_bind) (auto intro!: triple_option triple_ret triple_bind [OF triple_of [where Q = "\<lambda>_. ?P"]])
    then show ?thesis
      unfolding reg_read_def by (rule triple_bind) (auto intro!: triple_option triple_ret triple_fail)
  qed
  have wr: "triple ?P (io_then (reg_write c (apply_update i revn time r)) (io_ret (apply_update i revn time r)))
      ?Q (\<lambda>_ _. True) (\<lambda>_. True)" if "fn r0 = Inr r" for r0 r
    by (rule triple_bind [OF triple_reg_write [OF c]]) (use that in \<open>auto intro!: triple_ret simp: apply_update_def\<close>)
  have step2: "triple ?P (io_bind (io_of (fn r0)) (\<lambda>r.
      io_then (reg_write c (apply_update i revn time r)) (io_ret (apply_update i revn time r)))) ?Q (\<lambda>_ _. True) (\<lambda>_. True)" for r0
    by (rule triple_bind [OF triple_of [where Q = "\<lambda>r s. fn r0 = Inr r \<and> ?P s"]], simp, simp, rule triple_pure, rule wr)
  have "triple (\<lambda>_. True) (update_locked c i revn time fn) ?Q (\<lambda>_ _. True) (\<lambda>_. True)"
    unfolding update_locked_def Let_def
    by (rule triple_bind [OF rd], intro triple_if triple_fail step2) simp
  then have "triple (\<lambda>_. True) (io_defer os_step (update_locked c i revn time fn)) ?Q (\<lambda>_ _. True) (\<lambda>_. True)"
  proof (rule triple_defer)
    show "triple (?Q r) os_step (\<lambda>_. ?Q r) (\<lambda>_. ?Q r) (\<lambda>_. True)" for r
      by (rule triple_post [OF keeps_queries(4)]) (auto intro!: hassert_intros)
  qed (rule triple_post [OF step], auto)
  then show ?thesis unfolding Update_def by (rule triple_bind [OF step])
qed

lemma delete_stale:
  assumes "rr_revision rec \<noteq> revn"
  shows "triple (recorded c i rec) (Delete c i revn) (\<lambda>_ _. False) (\<lambda>_. recorded c i rec) (recorded c i rec)"
proof -
  have step: "keeps (recorded c i rec) os_step" by (intro keeps_intros hassert_intros)
  have "triple (recorded c i rec) (io_bind (reg_read c (i @ json_suffix)) (\<lambda>rec.
        if rr_revision rec \<noteq> revn then io_fail (revision_error i rec revn)
        else io_bind (os_Remove (recordPath i)) (\<lambda>found.
          if found then io_ret () else io_fail (Plain ''no such file or directory'' [])))) (\<lambda>_ _. False)
      (\<lambda>_. recorded c i rec) (recorded c i rec)"
    by (rule triple_bind [OF triple_reg_read], rule triple_pure) (use assms in \<open>auto intro!: triple_fail\<close>)
  then have "triple (recorded c i rec) (io_defer os_step (io_bind (reg_read c (i @ json_suffix)) (\<lambda>rec.
        if rr_revision rec \<noteq> revn then io_fail (revision_error i rec revn)
        else io_bind (os_Remove (recordPath i)) (\<lambda>found.
          if found then io_ret () else io_fail (Plain ''no such file or directory'' []))))) (\<lambda>_ _. False)
      (\<lambda>_. recorded c i rec) (recorded c i rec)"
    by (rule triple_defer) (use step in \<open>auto simp: triple_def\<close>)
  then show ?thesis unfolding Delete_def by (rule triple_bind [OF step])
qed

lemma stale_result:
  "triple P m (\<lambda>_ _. False) (\<lambda>_. P) P \<Longrightarrow> P s \<Longrightarrow> m s = (x, t) \<Longrightarrow> P t \<and> (\<forall>r. x \<noteq> Ret r)"
  by (cases x) (auto dest: tripleD)

text \<open>
  C13. The registry's revision is a compare and swap: when an update at some revision succeeds, the record file
  holds the returned record at the next revision, and from then on every other update or deletion at the
  old revision fails and leaves that record in place, whatever goes wrong in it.
\<close>

theorem Update_cas:
  assumes "codec_ok c rr_format" and "Update c i revn time fn s = (Ret r, s')"
  shows "rr_revision r = revn + 1 \<and> recorded c i r s' \<and>
    (\<forall>x t fs. Update c i revn time' fn' (s'\<lparr>hfaults := fs\<rparr>) = (x, t) \<longrightarrow> recorded c i r t \<and> (\<forall>r'. x \<noteq> Ret r')) \<and>
    (\<forall>x t fs. Delete c i revn (s'\<lparr>hfaults := fs\<rparr>) = (x, t) \<longrightarrow> recorded c i r t \<and> (\<forall>r'. x \<noteq> Ret r'))"
proof -
  have r: "rr_revision r = revn + 1" "recorded c i r s'"
    using triple_Ret [OF update_success [OF assms(1)] _ assms(2)] by (auto simp: apply_update_def)
  have rec: "recorded c i r (s'\<lparr>hfaults := fs\<rparr>)" for fs
    using r(2) hassert_recorded [of c i r] unfolding hassert_def by simp
  have "rr_revision r \<noteq> revn" using r(1) by simp
  then show ?thesis
    using r stale_result [OF update_stale rec] stale_result [OF delete_stale rec] by blast
qed


section \<open>Roots are claimed once\<close>

definition roots_unique :: "registry_record codec \<Rightarrow> host \<Rightarrow> bool" where
  "roots_unique c s \<longleftrightarrow>
     (\<forall>i j x y. i \<noteq> j \<longrightarrow> recorded c i x s \<longrightarrow> recorded c j y s \<longrightarrow> rr_root x \<noteq> rr_root y \<and> rr_identity x \<noteq> rr_identity y)"

text \<open>No record but that of project k claims the root of rec.\<close>

definition free_for :: "registry_record codec \<Rightarrow> string \<Rightarrow> registry_record \<Rightarrow> host \<Rightarrow> bool" where
  "free_for c k rec s \<longleftrightarrow> roots_unique c s \<and>
     (\<forall>j y. j \<noteq> k \<longrightarrow> recorded c j y s \<longrightarrow> rr_root y \<noteq> rr_root rec \<and> rr_identity y \<noteq> rr_identity rec)"

lemma hassert_roots [hassert_intros]: "hassert (roots_unique c)" "hassert (free_for c k rec)"
  using hassert_recorded unfolding hassert_def roots_unique_def free_for_def by simp_all

lemma recorded_put_tmp [simp]:
  "recorded c i rec (put (Projects, [''.'' @ base @ ''.tmp-'' @ itoa x]) v s) = recorded c i rec s"
  using tmp_apart [of i base x] by (simp add: recorded_def recordPath_def)

lemma roots_tmp:
  "writable (roots_unique c) (Projects, [''.'' @ base @ ''.tmp-'' @ itoa x]) v"
  "writable (free_for c k rec) (Projects, [''.'' @ base @ ''.tmp-'' @ itoa x]) v"
  by (simp_all only: writable_def roots_unique_def free_for_def recorded_put_tmp) blast+

lemma recorded_put_other: "i \<noteq> k \<Longrightarrow> recorded c i x (put (recordPath k) v s) = recorded c i x s"
proof -
  assume "i \<noteq> k"
  then have "path_apart (recordPath i) (recordPath k)" by (simp add: recordPath_def path_apart_def)
  then show ?thesis by (simp add: recorded_def)
qed

lemma recorded_put_same:
  "recorded c k x (put (recordPath k) v s) \<Longrightarrow>
   \<exists>m b. v = Some (RegularFile m b) \<and> DecodeRecord c b (''project record '' @ k @ json_suffix) RecordFormat = Inr x"
  using lookup_put_single [of Projects "k @ json_suffix" v s] by (auto simp: recorded_def recordPath_def)

lemma roots_put:
  assumes "free_for c k rec s"
    and "\<And>m b x. v = Some (RegularFile m b) \<Longrightarrow>
       DecodeRecord c b (''project record '' @ k @ json_suffix) RecordFormat = Inr x \<Longrightarrow> x = rec"
  shows "roots_unique c (put (recordPath k) v s)"
  unfolding roots_unique_def
proof (intro allI impI)
  fix i j x y
  assume ij: "i \<noteq> j" and r: "recorded c i x (put (recordPath k) v s)" "recorded c j y (put (recordPath k) v s)"
  have new: "z = rec" if "recorded c k z (put (recordPath k) v s)" for z
    using recorded_put_same [OF that] assms(2) by blast
  have old: "recorded c l z s" if "recorded c l z (put (recordPath k) v s)" "l \<noteq> k" for l z
    using recorded_put_other [OF that(2)] that(1) by simp
  consider "i = k" "j \<noteq> k" | "i \<noteq> k" "j = k" | "i \<noteq> k" "j \<noteq> k" using ij by blast
  then show "rr_root x \<noteq> rr_root y \<and> rr_identity x \<noteq> rr_identity y"
  proof cases
    case 1
    then show ?thesis using new [of x] old [of j y] r assms(1) unfolding free_for_def by fastforce
  next
    case 2
    then show ?thesis using new [of y] old [of i x] r assms(1) unfolding free_for_def by fastforce
  next
    case 3
    have u: "roots_unique c s" using assms(1) by (simp add: free_for_def)
    show ?thesis
      by (rule u [unfolded roots_unique_def, rule_format, OF ij old [OF r(1) 3(1)] old [OF r(2) 3(2)]])
  qed
qed

lemma roots_reg_write:
  assumes c: "codec_ok c rr_format" and rec: "rr_id rec = k" "rr_format rec = RecordFormat"
  shows "triple (free_for c k rec) (reg_write c rec) (\<lambda>_. roots_unique c) (\<lambda>_. roots_unique c) (roots_unique c)"
  unfolding reg_write_def
proof (rule triple_bind [OF triple_of [where Q = "\<lambda>b s. MarshalRecord c rec = Inr b \<and> free_for c k rec s"]])
  show "free_for c k rec s \<Longrightarrow> roots_unique c s" for s by (simp add: free_for_def)
  fix bytes
  have w: "triple (free_for c k rec) (WriteFileAtomic (Projects, []) (rr_id rec @ json_suffix) bytes 0x180)
      (\<lambda>_. roots_unique c) (\<lambda>_ s. free_for c k rec s \<or> roots_unique c s) (\<lambda>s. free_for c k rec s \<or> roots_unique c s)"
    if m: "MarshalRecord c rec = Inr bytes"
  proof (rule triple_WriteFileAtomic, goal_cases)
    case (3 x v)
    show ?case using roots_tmp(2) [of c k rec "rr_id rec @ json_suffix" x v] by (simp only: fst_conv snd_conv append_Nil)
  next
    case (4 x v)
    show ?case using roots_tmp(1) [of c "rr_id rec @ json_suffix" x v] by (simp only: fst_conv snd_conv append_Nil)
  next
    case (5 s)
    have "DecodeRecord c bytes (''project record '' @ k @ json_suffix) RecordFormat = Inr rec"
      using c m rec by (metis codec_ok_def)
    then show ?case
      using roots_put [OF 5(1), of "Some (RegularFile 0x180 bytes)"] rec(1) by (simp add: recordPath_def)
  qed (rule hassert_roots)+
  show "triple (\<lambda>s. MarshalRecord c rec = Inr bytes \<and> free_for c k rec s)
      (WriteFileAtomic (Projects, []) (rr_id rec @ json_suffix) bytes 0x180)
      (\<lambda>_. roots_unique c) (\<lambda>_. roots_unique c) (roots_unique c)"
    by (rule triple_pure, rule triple_post [OF w]) (auto simp: free_for_def)
qed (auto simp: free_for_def)

lemma triple_read_record:
  assumes "hassert P"
  shows "triple P (read_record c n) (\<lambda>r s. P s \<and> (case r of None \<Rightarrow> lookup s (Projects, [n]) = None
      | Some rec \<Rightarrow> \<exists>m b. lookup s (Projects, [n]) = Some (RegularFile m b) \<and>
          DecodeRecord c b (''project record '' @ n) RecordFormat = Inr rec)) (\<lambda>_. P) P"
    (is "triple P _ ?Q _ _")
proof -
  have "triple P (os_ReadFile (Projects, [n])) (\<lambda>r s. P s \<and> (case r of None \<Rightarrow> lookup s (Projects, [n]) = None
      | Some b \<Rightarrow> \<exists>m. lookup s (Projects, [n]) = Some (RegularFile m b))) (\<lambda>_. P) P"
    unfolding os_ReadFile_def by (rule triple_hquery) (use assms in \<open>auto split: option.splits node.splits\<close>)
  then show ?thesis
    unfolding read_record_def
  proof (rule triple_bind)
    fix r
    show "triple (\<lambda>s. P s \<and> (case r of None \<Rightarrow> lookup s (Projects, [n]) = None
      | Some b \<Rightarrow> \<exists>m. lookup s (Projects, [n]) = Some (RegularFile m b)))
      (case r of None \<Rightarrow> io_ret None | Some bytes \<Rightarrow>
        io_bind (io_of (DecodeRecord c bytes (''project record '' @ n) RecordFormat)) (\<lambda>rec. io_ret (Some rec))) ?Q (\<lambda>_. P) P"
      by (cases r) (auto simp: triple_def io_bind_def io_of_def of_sum_def io_ret_def split: sum.splits)
  qed
qed

lemma triple_io_map:
  assumes "\<And>x. x \<in> set xs \<Longrightarrow> triple P (f x) (\<lambda>y s. R x y \<and> P s) E C"
  shows "triple P (io_map f xs) (\<lambda>ys s. list_all2 R xs ys \<and> P s) E C"
  using assms
proof (induction xs)
  case Nil
  then show ?case by (auto intro: triple_ret)
next
  case (Cons x xs)
  have "triple P (io_bind (io_map f xs) (\<lambda>ys. io_ret (y # ys))) (\<lambda>ys s. list_all2 R (x # xs) ys \<and> P s) E C"
    if "R x y" for y
    by (rule triple_bind [OF Cons.IH]) (use Cons.prems that in \<open>auto intro!: triple_ret\<close>)
  then show ?case
    unfolding io_map.simps by (intro triple_bind [OF Cons.prems] triple_pure) simp_all
qed

text \<open>The listing misses no record.\<close>

lemma triple_reg_list:
  assumes "hassert P"
  shows "triple P (reg_list c) (\<lambda>rs s. P s \<and> (\<forall>j y. recorded c j y s \<longrightarrow> y \<in> set rs)) (\<lambda>_. P) P"
proof -
  let ?dir = "\<lambda>ch s. P s \<and> lookup s (Projects, []) = Some (Directory ch)"
  have dir: "triple P (io_wrap f as (os_ReadDir (Projects, [])))
      (\<lambda>r s. P s \<and> (\<forall>es. r = Some es \<longrightarrow> (\<exists>ch. es = sort_key fst ch \<and> lookup s (Projects, []) = Some (Directory ch)))) (\<lambda>_. P) P"
    for f as
    unfolding os_ReadDir_def
    by (rule triple_wrap, rule triple_hquery) (use assms in \<open>auto split: option.splits node.splits\<close>)
  let ?R = "\<lambda>ch n y. \<forall>m b rec. map_of ch n = Some (RegularFile m b) \<longrightarrow>
      DecodeRecord c b (''project record '' @ n) RecordFormat = Inr rec \<longrightarrow> y = Some rec"
  have child: "lookup s (Projects, [n]) = map_of ch n" if "lookup s (Projects, []) = Some (Directory ch)" for s n ch
    using that by (cases "tree s Projects") (auto simp: lookup_def split: option.splits)
  have one: "triple (?dir ch) (read_record c n) (\<lambda>y s. ?R ch n y \<and> ?dir ch s) (\<lambda>_. P) P" for ch n
    by (rule triple_post [OF triple_read_record [of "?dir ch"]])
      (use assms child in \<open>auto simp: hassert_def split: option.splits\<close>)
  have all: "triple (?dir ch) (io_bind (io_map (read_record c) (record_names (sort_key fst ch)))
        (\<lambda>rs. io_ret (sort_records (List.map_filter id rs))))
      (\<lambda>rs s. P s \<and> (\<forall>j y. recorded c j y s \<longrightarrow> y \<in> set rs)) (\<lambda>_. P) P" for ch
  proof (rule triple_bind [OF triple_io_map [OF one]], rule triple_pure, rule triple_ret, intro conjI allI impI)
    fix rs s j y
    assume l: "list_all2 (?R ch) (record_names (sort_key fst ch)) rs" and s: "?dir ch s" and r: "recorded c j y s"
    obtain m b where b: "map_of ch (j @ json_suffix) = Some (RegularFile m b)"
      "DecodeRecord c b (''project record '' @ j @ json_suffix) RecordFormat = Inr y"
      using r child s by (auto simp: recorded_def recordPath_def)
    have "(j @ json_suffix, RegularFile m b) \<in> set ch" using b(1) by (rule map_of_SomeD)
    then have "j @ json_suffix \<in> set (record_names (sort_key fst ch))"
      by (force simp: record_names_def)
    then obtain k where k: "k < length (record_names (sort_key fst ch))" "record_names (sort_key fst ch) ! k = j @ json_suffix"
      by (auto simp: in_set_conv_nth)
    then have "rs ! k = Some y" using list_all2_nthD [OF l k(1)] b by auto
    moreover have "k < length rs" using list_all2_lengthD [OF l] k(1) by simp
    ultimately have "Some y \<in> set rs" by (metis nth_mem)
    then show "y \<in> set (sort_records (List.map_filter id rs))"
      by (force simp: sort_records_def List.map_filter_def)
  qed simp
  show ?thesis
    unfolding reg_list_def
  proof (rule triple_bind [OF dir])
    fix r
    let ?k = "case r of None \<Rightarrow> io_fail (Wrapped ''read registry: %w'' [] (Plain ''no such file or directory'' []))
       | Some es \<Rightarrow> io_bind (io_map (read_record c) (record_names es)) (\<lambda>rs. io_ret (sort_records (List.map_filter id rs)))"
    show "triple (\<lambda>s. P s \<and> (\<forall>es. r = Some es \<longrightarrow> (\<exists>ch. es = sort_key fst ch \<and> lookup s (Projects, []) = Some (Directory ch))))
        ?k (\<lambda>rs s. P s \<and> (\<forall>j y. recorded c j y s \<longrightarrow> y \<in> set rs)) (\<lambda>_. P) P"
    proof (cases r)
      case (Some es)
      have "triple (\<lambda>s. \<exists>ch. es = sort_key fst ch \<and> ?dir ch s) ?k
          (\<lambda>rs s. P s \<and> (\<forall>j y. recorded c j y s \<longrightarrow> y \<in> set rs)) (\<lambda>_. P) P"
        by (intro triple_ex triple_pure) (use all in \<open>simp add: Some\<close>)
      then show ?thesis by (rule triple_pre) (auto simp: Some)
    qed (auto intro: triple_fail)
  qed
qed


text \<open>What the operations that write keep of it.\<close>

lemma keeps_roots_reads: "keeps (roots_unique c) os_step"
  by (intro keeps_intros hassert_intros)

lemma keeps_defer_step: "hassert P \<Longrightarrow> keeps P m \<Longrightarrow> keeps P (io_then os_step (io_defer os_step m))"
  by (intro keeps_intros)

lemma find_none_free:
  assumes "List.find (matches_root r) rs = None" "roots_unique c s" "\<forall>j y. recorded c j y s \<longrightarrow> y \<in> set rs"
    and "rr_root rec = ro_path r" "rr_identity rec = ro_identity r"
  shows "free_for c k rec s"
  using assms by (auto simp: free_for_def find_None_iff matches_root_def)

lemma keeps_Create:
  assumes c: "codec_ok c rr_format"
  shows "keeps (roots_unique c) (Create c rand time n)"
proof -
  have body: "keeps (roots_unique c) (io_bind (reg_list c) (\<lambda>existing.
         case List.find (matches_root (nr_root n)) existing of
           Some rec \<Rightarrow>
             io_fail (Class ErrConflict ''%w: %s is already registered as %q (%s)''
               [ro_path (nr_root n), rr_display_name rec, rr_id rec])
         | None \<Rightarrow>
             let rec = first_record n i time in io_then (reg_write c rec) (io_ret rec)))" for i
  proof (rule triple_bind [OF triple_reg_list [OF hassert_roots(1)]])
    fix rs
    let ?L = "\<lambda>s. roots_unique c s \<and> (\<forall>j y. recorded c j y s \<longrightarrow> y \<in> set rs)"
    show "triple ?L
        (case List.find (matches_root (nr_root n)) rs of
           Some rec \<Rightarrow> io_fail (Class ErrConflict ''%w: %s is already registered as %q (%s)''
               [ro_path (nr_root n), rr_display_name rec, rr_id rec])
         | None \<Rightarrow>
             let rec = first_record n i time in io_then (reg_write c rec) (io_ret rec))
        (\<lambda>_. roots_unique c) (\<lambda>_. roots_unique c) (roots_unique c)"
    proof (cases "List.find (matches_root (nr_root n)) rs")
      case None
      let ?rec = "first_record n i time"
      have "triple ?L (io_then (reg_write c ?rec) (io_ret ?rec)) (\<lambda>_. roots_unique c) (\<lambda>_. roots_unique c) (roots_unique c)"
        by (rule triple_bind [OF triple_pre [OF roots_reg_write [OF c, of ?rec i]]])
          (auto intro: find_none_free [OF None] triple_ret simp: first_record_def)
      then show ?thesis by (simp add: None Let_def)
    qed (auto intro: triple_fail)
  qed
  show ?thesis
    unfolding Create_def by (intro keeps_ops keeps_defer_step hassert_roots body)
qed


lemma triple_roots_read:
  "triple (roots_unique c) (reg_read c (i @ json_suffix)) (\<lambda>r s. roots_unique c s \<and> recorded c i r s)
     (\<lambda>_. roots_unique c) (roots_unique c)"
  unfolding reg_read_def
proof (rule triple_bind [OF triple_read_record [OF hassert_roots(1)]])
  fix r
  show "triple (\<lambda>s. roots_unique c s \<and> (case r of None \<Rightarrow> lookup s (Projects, [i @ json_suffix]) = None
      | Some rec \<Rightarrow> \<exists>m b. lookup s (Projects, [i @ json_suffix]) = Some (RegularFile m b) \<and>
          DecodeRecord c b (''project record '' @ i @ json_suffix) RecordFormat = Inr rec))
     (case r of None \<Rightarrow> io_fail (Class ErrNotFound ''%w: project record %s'' [i @ json_suffix]) | Some rec \<Rightarrow> io_ret rec)
     (\<lambda>r s. roots_unique c s \<and> recorded c i r s) (\<lambda>_. roots_unique c) (roots_unique c)"
    by (cases r) (auto intro!: triple_ret triple_fail simp: recorded_def recordPath_def)
qed

lemma recorded_free:
  assumes "roots_unique c s" "recorded c i r s" "rr_root rec = rr_root r" "rr_identity rec = rr_identity r"
  shows "free_for c i rec s"
  using assms by (auto simp: free_for_def roots_unique_def)

lemma keeps_Update:
  assumes c: "codec_ok c rr_format"
    and fn: "\<And>r r'. fn r = Inr r' \<Longrightarrow> rr_root r' = rr_root r \<and> rr_identity r' = rr_identity r"
  shows "keeps (roots_unique c) (Update c i revn time fn)"
proof -
  have wr: "triple (\<lambda>s. roots_unique c s \<and> recorded c i r s)
      (io_then (reg_write c (apply_update i revn time r')) (io_ret (apply_update i revn time r')))
      (\<lambda>_. roots_unique c) (\<lambda>_. roots_unique c) (roots_unique c)" if "fn r = Inr r'" for r r'
    by (rule triple_bind [OF triple_pre [OF roots_reg_write [OF c, of "apply_update i revn time r'" i]]])
      (auto intro: recorded_free triple_ret simp: apply_update_def fn [OF that])
  have "keeps (roots_unique c) (update_locked c i revn time fn)"
    unfolding update_locked_def Let_def
  proof (rule triple_bind [OF triple_roots_read], rule triple_if)
    fix r
    let ?R = "\<lambda>s. roots_unique c s \<and> recorded c i r s"
    show "triple ?R (io_bind (io_of (fn r)) (\<lambda>rec'.
        io_then (reg_write c (apply_update i revn time rec')) (io_ret (apply_update i revn time rec'))))
        (\<lambda>_. roots_unique c) (\<lambda>_. roots_unique c) (roots_unique c)"
      by (rule triple_bind [OF triple_of [where Q = "\<lambda>r' s. fn r = Inr r' \<and> ?R s"]], simp, simp, rule triple_pure, rule wr)
  qed (auto intro: triple_fail)
  then show ?thesis unfolding Update_def by (intro keeps_defer_step hassert_roots)
qed

lemma roots_put_removed: "roots_unique c s \<Longrightarrow> roots_unique c (put (recordPath k) None s)"
proof -
  have "recorded c i x (put (recordPath k) None s) \<Longrightarrow> recorded c i x s" for i x
    using recorded_put_same [of c k x None s] by (cases "i = k") (auto simp: recorded_put_other)
  then show "roots_unique c s \<Longrightarrow> roots_unique c (put (recordPath k) None s)"
    unfolding roots_unique_def by blast
qed

lemma keeps_Delete: "keeps (roots_unique c) (Delete c i revn)"
  unfolding Delete_def
  by (intro keeps_intros hassert_roots writableI roots_put_removed)



section \<open>An instance\<close>

definition demo_record :: registry_record where
  "demo_record =
     \<lparr>rr_format = 1, rr_revision = 1, rr_id = ''p'', rr_root = ''/w'', rr_identity = \<lparr>fi_device = 1, fi_inode = 2\<rparr>,
      rr_display_name = ''w'', rr_artifact = \<lparr>algorithm = '''', hex = ''''\<rparr>, rr_release_version = '''',
      rr_mode = ModeDev, rr_approved = None, rr_agent_refresh = '''', rr_created_at = 0, rr_updated_at = 0\<rparr>"

definition demo_updated :: registry_record where
  "demo_updated = demo_record\<lparr>rr_revision := 2, rr_updated_at := 5\<rparr>"

definition demo_codec :: "registry_record codec" where
  "demo_codec =
     \<lparr>c_marshal = (\<lambda>r. if r = demo_record then Inr ''A'' else if r = demo_updated then Inr ''B'' else Inl (Plain ''demo'' [])),
      c_probe = (\<lambda>_. Inr 1),
      c_decode = (\<lambda>b. if b = ''A'' @ [CHR 0x0A] then Inr demo_record else Inr demo_updated)\<rparr>"

definition demo_registry :: host where
  "demo_registry =
     \<lparr>tree = (\<lambda>d. if d = Projects then Some (Directory [(''p.json'', RegularFile 0x180 (''A'' @ [CHR 0x0A]))]) else None),
      root_path = (\<lambda>_. ''/s''), mtimes = (\<lambda>_. 0), leased = (\<lambda>_. 0), now = 0, suffixes = [1, 2, 3], hfaults = []\<rparr>"

lemma demo_records: "rr_format demo_record = 1" "rr_format demo_updated = 1" "demo_updated \<noteq> demo_record"
  by (simp_all add: demo_record_def demo_updated_def)

lemma demo_codec_ok: "codec_ok demo_codec rr_format"
  using demo_records
  by (auto simp: codec_ok_def MarshalRecord_def DecodeRecord_def demo_codec_def rbind_eq_Inr split: if_splits)

theorem Update_cas_witness:
  "fst (Update demo_codec ''p'' 1 5 Inr demo_registry) = Ret demo_updated \<and>
   recorded demo_codec ''p'' demo_updated (snd (Update demo_codec ''p'' 1 5 Inr demo_registry))"
proof -
  have u: "fst (Update demo_codec ''p'' 1 5 Inr demo_registry) = Ret demo_updated" by code_simp
  then have "Update demo_codec ''p'' 1 5 Inr demo_registry =
      (Ret demo_updated, snd (Update demo_codec ''p'' 1 5 Inr demo_registry))"
    by (metis prod.collapse)
  from Update_cas [OF demo_codec_ok this] u show ?thesis by blast
qed

lemma demo_unique: "roots_unique demo_codec demo_registry"
proof -
  have "i = ''p''" if "recorded demo_codec i x demo_registry" for i x
    using that by (auto simp: recorded_def recordPath_def lookup_def demo_registry_def json_suffix_def split: if_splits)
  then show ?thesis by (auto simp: roots_unique_def)
qed


end
