(* ===== verification/HostFiles.thy ===== *)
theory HostFiles
  imports Registry
begin

text \<open>
  The engine's small files: JSON records of the registry and the broker, each below a fixed directory, seen as a
  map from path to content. Assertions about this map need not look at the shape of the tree; the rules here say
  what reading, writing and removing one such file does to them.
\<close>

section \<open>Contents\<close>

definition file_at :: "host \<Rightarrow> hpath \<Rightarrow> string option" where
  "file_at s p = (case lookup s p of Some (RegularFile _ b) \<Rightarrow> Some b | _ \<Rightarrow> None)"

definition below :: "hpath \<Rightarrow> string \<Rightarrow> hpath" where
  "below p n = (fst p, snd p @ [n])"

lemma file_at_simps [simp]: "file_at (s\<lparr>hfaults := fs\<rparr>) = file_at s" "file_at (s\<lparr>suffixes := xs\<rparr>) = file_at s"
  by (simp_all add: file_at_def fun_eq_iff)

lemma hassert_file_at [hassert_intros]: "hassert (\<lambda>s. A (file_at s))"
  by (simp add: hassert_def)

lemma file_at_apart [simp]: "path_apart p q \<Longrightarrow> file_at (put q v s) p = file_at s p"
  by (simp add: file_at_def)

lemma lookup_below: "lookup s dir = Some (Directory ch) \<Longrightarrow> lookup s (below dir n) = map_of ch n"
  by (cases dir) (auto simp: below_def lookup_append split: option.splits)

lemma lookup_below_none: "(\<And>ch. lookup s dir \<noteq> Some (Directory ch)) \<Longrightarrow> lookup s (below dir n) = None"
  by (cases dir; cases "lookup s dir"; cases "the (lookup s dir)") (auto simp: below_def lookup_append)

text \<open>A new directory holds no file and hides none.\<close>

lemma file_at_node: "file_at s p = map_option snd (file_node s p)"
  by (simp add: file_at_def file_node_def split: option.splits node.splits)

lemma file_at_mkdir: "lookup s p = None \<Longrightarrow> file_at (put p (Some (Directory [])) s) q = file_at s q"
  by (simp add: file_at_node file_node_mkdir)

section \<open>The engine's files\<close>

definition record_place :: "hpath \<Rightarrow> bool" where
  "record_place p \<longleftrightarrow> (fst p = Projects \<and> length (snd p) = 1 \<or> fst p = BrokerDir \<and> length (snd p) = 3)"

text \<open>Paths of the depth at which the engine keeps records: two of them are the same or apart.\<close>

lemma same_length_prefix: "length xs = length ys \<Longrightarrow> prefix xs ys \<longleftrightarrow> xs = ys"
  by (auto simp: prefix_def)

lemma record_places_apart: "record_place p \<Longrightarrow> record_place q \<Longrightarrow> p \<noteq> q \<Longrightarrow> path_apart p q"
  by (cases p; cases q) (auto simp: record_place_def path_apart_def same_length_prefix)

text \<open>Assertions about the files at such places that do not see temporary files.\<close>

definition json_place :: "hpath \<Rightarrow> bool" where
  "json_place p \<longleftrightarrow> record_place p \<and> has_suffix (last (snd p)) json_suffix"

definition about_records :: "((hpath \<Rightarrow> string option) \<Rightarrow> bool) \<Rightarrow> bool" where
  "about_records A \<longleftrightarrow> (\<forall>F G. (\<forall>p. json_place p \<longrightarrow> F p = G p) \<longrightarrow> A F = A G)"

lemma about_recordsD: "about_records A \<Longrightarrow> (\<And>p. json_place p \<Longrightarrow> F p = G p) \<Longrightarrow> A F = A G"
  by (auto simp: about_records_def)

lemma about_records_conj: "about_records A \<Longrightarrow> about_records B \<Longrightarrow> about_records (\<lambda>F. A F \<and> B F)"
  unfolding about_records_def by (intro allI impI) (metis (no_types))

lemma about_records_at: "json_place p \<Longrightarrow> about_records (\<lambda>F. A (F p))"
  unfolding about_records_def by metis

lemma tmp_not_json: "\<not> has_suffix (''.'' @ base @ ''.tmp-'' @ itoa x) json_suffix"
proof
  assume "has_suffix (''.'' @ base @ ''.tmp-'' @ itoa x) json_suffix"
  then obtain zs where "''.'' @ base @ ''.tmp-'' @ itoa x = zs @ json_suffix" unfolding has_suffix_iff by blast
  moreover have "last (zs @ json_suffix) = CHR ''n''" by (simp add: json_suffix_def)
  moreover have "is_digit (last (itoa x))" using itoa_digits [of x] by (simp add: list_all_iff)
  then have "last (''.'' @ base @ ''.tmp-'' @ itoa x) \<noteq> CHR ''n''" by (auto simp: is_digit_def)
  ultimately show False by simp
qed

lemma about_records_put:
  assumes A: "about_records A" and q: "record_place q"
    and s: "json_place q \<Longrightarrow> file_at (put q v s) q = c"
  shows "A (file_at (put q v s)) = A ((file_at s)(q := c))"
  by (rule about_recordsD [OF A]) (use s q in \<open>auto simp: json_place_def dest: record_places_apart\<close>)

lemma about_records_tmp:
  assumes A: "about_records A" and d: "record_place (below dir base)"
  shows "writable (\<lambda>s. A (file_at s)) (fst dir, snd dir @ [''.'' @ b @ ''.tmp-'' @ itoa x]) v"
proof (rule writableI)
  fix s
  let ?q = "(fst dir, snd dir @ [''.'' @ b @ ''.tmp-'' @ itoa x])"
  have "record_place ?q" using d by (auto simp: record_place_def below_def)
  then have "file_at (put ?q v s) p = file_at s p" if "json_place p" for p
    using that tmp_not_json [of b x] by (intro file_at_apart record_places_apart) (auto simp: json_place_def)
  then have "A (file_at (put ?q v s)) = A (file_at s)" by (rule about_recordsD [OF A])
  then show "A (file_at s) \<Longrightarrow> A (file_at (put ?q v s))" by simp
qed

section \<open>Rules\<close>

lemma triple_write_record:
  assumes A: "about_records A" and B: "about_records B" and d: "record_place (below dir base)"
    and w: "\<And>F. A F \<Longrightarrow> B (F(below dir base \<mapsto> bytes))"
  shows "triple (\<lambda>s. A (file_at s)) (WriteFileAtomic dir base bytes perm)
    (\<lambda>_ s. B (file_at s)) (\<lambda>_ s. A (file_at s) \<or> B (file_at s)) (\<lambda>s. A (file_at s) \<or> B (file_at s))"
proof (rule triple_WriteFileAtomic, goal_cases)
  case (5 s)
  let ?q = "(fst dir, snd dir @ [base])" and ?v = "Some (RegularFile perm bytes)"
  have "file_at (put ?q ?v s) ?q = Some bytes"
    using lookup_put_written [OF _ 5(2), of "RegularFile perm bytes"] by (simp add: file_at_def)
  from about_records_put [OF B d [unfolded below_def] this] show ?case using w [OF 5(1)] by (simp add: below_def)
qed (intro hassert_intros about_records_tmp [OF A d] about_records_tmp [OF B d])+

lemma keeps_write_record:
  assumes A: "about_records A" and d: "record_place (below dir base)"
    and w: "\<And>F. A F \<Longrightarrow> A (F(below dir base \<mapsto> bytes))"
  shows "keeps (\<lambda>s. A (file_at s)) (WriteFileAtomic dir base bytes perm)"
  by (rule triple_post [OF triple_write_record [OF A A d w]]) auto

lemma file_at_removed: "file_at (put p None s) p = None"
  using lookup_put_at [of p None s] by (auto simp: file_at_def)

lemma triple_remove_record:
  assumes A: "about_records A" and B: "about_records B" and d: "record_place p"
    and w: "\<And>F. A F \<Longrightarrow> B (F(p := None))"
  shows "triple (\<lambda>s. A (file_at s)) (os_Remove p)
    (\<lambda>_ s. B (file_at s)) (\<lambda>_ s. A (file_at s) \<or> B (file_at s)) (\<lambda>s. A (file_at s) \<or> B (file_at s))"
proof -
  have rem: "B (file_at (put p None s))" if "A (file_at s)" for s
    using about_records_put [OF B d file_at_removed] w [OF that] by simp
  have none: "B (file_at s)" if "A (file_at s)" "lookup s p = None" for s
  proof -
    have "(file_at s)(p := None) = file_at s" using that(2) by (auto simp: file_at_def)
    then show ?thesis using w [OF that(1)] by simp
  qed
  show ?thesis
    unfolding os_Remove_def
    by (rule triple_hcall) (use rem none in \<open>auto intro: hassert_intros split: option.splits node.splits list.splits\<close>)
qed

end
