(* ===== verification/Broker.thy ===== *)
theory Broker
  imports HostFiles
begin

text \<open>
  Agent rebuild requests (\<^verbatim>\<open>internal/broker/broker.go\<close>): the strict parser of the files an agent writes, the
  bounded poll of the workspace, and the per-project store of pending and decided requests. The strict
  JSON decoders are parameters. The lemmas show what a poll can hand to the engine, and that writing
  one record leaves every other alone.
\<close>

section \<open>Requests\<close>

definition RequestsRelDir :: string where "RequestsRelDir = ''.vibe/requests''"

definition maxRequests :: nat where "maxRequests = 100"
definition maxRequestBytes :: nat where "maxRequestBytes = 65536"
definition maxTextRunes :: nat where "maxTextRunes = 4096"
definition recordFormat :: int where "recordFormat = 1"

definition RebuildKind :: string where "RebuildKind = ''rebuild''"

record request =
  rq_format :: int
  rq_id :: string
  rq_kind :: string
  rq_reason :: string
  rq_summary :: string

definition ParseRequest :: "(string \<Rightarrow> error + request) \<Rightarrow> string \<Rightarrow> error + request" where
  "ParseRequest dec data =
     (if length data > maxRequestBytes
      then Inl (Class ErrInvalid ''%w: request exceeds %d bytes'' [itoa maxRequestBytes])
      else case dec data of
        Inl _ \<Rightarrow> Inl (Class ErrInvalid ''%w: request: %v'' [])
      | Inr req \<Rightarrow>
          if rq_format req \<noteq> recordFormat
          then Inl (Class ErrNotSupported ''%w: request format %d (supported: %d)'' [itoa_int (rq_format req), itoa_int recordFormat])
          else rbind (ParseRequestID (rq_id req)) (\<lambda>_.
            if rq_kind req \<noteq> RebuildKind
            then Inl (Class ErrNotSupported ''%w: request kind %q'' [rq_kind req])
            else if length (runes (rq_reason req)) > maxTextRunes \<or> length (runes (rq_summary req)) > maxTextRunes
            then Inl (Class ErrInvalid ''%w: request text exceeds %d characters'' [itoa maxTextRunes])
            else Inr req))"

record raw_request =
  raw_request :: request
  raw_digest :: digest

text \<open>
  One entry of the requests directory. The file can be swapped while it is read, so what reading it gives is
  the argument \<open>rd\<close>, not the listing's node; the reader takes one byte more than the limit.
\<close>

datatype poll_step = Skipped | Problem error | Polled raw_request

definition poll_entry ::
  "(string \<Rightarrow> string) \<Rightarrow> (string \<Rightarrow> error + request) \<Rightarrow> (string \<Rightarrow> error + string) \<Rightarrow> string \<times> node \<Rightarrow> poll_step" where
  "poll_entry sha dec rd e =
     (case e of
        (name, RegularFile _ _) \<Rightarrow>
          if \<not> has_suffix name json_suffix then Skipped
          else (case rd name of
            Inl err \<Rightarrow> Problem (Wrapped ''%s: %w'' [name] err)
          | Inr content \<Rightarrow>
              let data = take (maxRequestBytes + 1) content
              in (case ParseRequest dec data of
                    Inl err \<Rightarrow> Problem (Wrapped ''%s: %w'' [name] err)
                  | Inr req \<Rightarrow> Polled \<lparr>raw_request = req, raw_digest = SHA256 sha data\<rparr>))
      | _ \<Rightarrow> Skipped)"

definition polled :: "poll_step list \<Rightarrow> raw_request list" where
  "polled steps = List.map_filter (\<lambda>x. case x of Polled r \<Rightarrow> Some r | _ \<Rightarrow> None) steps"

definition poll_problems :: "poll_step list \<Rightarrow> error list" where
  "poll_problems steps = List.map_filter (\<lambda>x. case x of Problem e \<Rightarrow> Some e | _ \<Rightarrow> None) steps"

definition ReadRequests ::
  "(string \<Rightarrow> string) \<Rightarrow> (string \<Rightarrow> error + request) \<Rightarrow> (string \<Rightarrow> error + string) \<Rightarrow>
   error + (string \<times> node) list option \<Rightarrow> raw_request list \<times> error list" where
  "ReadRequests sha dec rd dir =
     (case dir of
        Inl e \<Rightarrow> ([], [e])
      | Inr None \<Rightarrow> ([], [])
      | Inr (Some entries) \<Rightarrow>
          if length entries > maxRequests
          then ([], [Class ErrInvalid ''%w: more than %d request files'' [itoa maxRequests]])
          else let steps = map (poll_entry sha dec rd) entries
               in (sort_key (\<lambda>r. rq_id (raw_request r)) (polled steps), poll_problems steps))"

section \<open>Records\<close>

datatype request_status = StatusPending | StatusApproved | StatusRejected

record pending_request =
  pd_format :: int
  pd_request_id :: string
  pd_project_id :: string
  pd_candidate :: digest
  pd_content :: digest
  pd_reason :: string
  pd_summary :: string
  pd_created_at :: int

record request_result =
  rs_format :: int
  rs_request_id :: string
  rs_project_id :: string
  rs_candidate :: "digest option"
  rs_status :: request_status
  rs_message :: string
  rs_created_at :: int
  rs_completed_at :: "int option"

section \<open>The store\<close>

definition pendingDir :: "string \<Rightarrow> hpath" where "pendingDir project = (BrokerDir, [project, ''pending''])"
definition ResultsDir :: "string \<Rightarrow> hpath" where "ResultsDir project = (BrokerDir, [project, ''results''])"

definition NewStore :: "string \<Rightarrow> unit hio" where
  "NewStore project = io_then (os_MkdirAll (pendingDir project)) (os_MkdirAll (ResultsDir project))"

definition WritePending :: "pending_request codec \<Rightarrow> string \<Rightarrow> pending_request \<Rightarrow> unit hio" where
  "WritePending c project p =
     io_bind (io_of (MarshalRecord c (p\<lparr>pd_format := recordFormat\<rparr>))) (\<lambda>data.
       WriteFileAtomic (pendingDir project) (pd_request_id p @ json_suffix) data 0x180)"

definition WriteResult :: "request_result codec \<Rightarrow> string \<Rightarrow> request_result \<Rightarrow> unit hio" where
  "WriteResult c project r =
     io_bind (io_of (MarshalRecord c (r\<lparr>rs_format := recordFormat\<rparr>))) (\<lambda>data.
       WriteFileAtomic (ResultsDir project) (rs_request_id r @ json_suffix) data 0x1A4)"

definition DeletePending :: "string \<Rightarrow> string \<Rightarrow> unit hio" where
  "DeletePending project i = io_then (os_Remove (below (pendingDir project) (i @ json_suffix))) (io_ret ())"

definition read_one :: "'r codec \<Rightarrow> hpath \<Rightarrow> string \<Rightarrow> 'r hio" where
  "read_one c dir name =
     io_bind (os_ReadFile (below dir name)) (\<lambda>r.
       case r of
         None \<Rightarrow> io_fail (Plain ''no such file or directory'' [])
       | Some data \<Rightarrow>
           (case c_decode c data of
              Inl _ \<Rightarrow> io_fail (Class ErrInvalid ''%w: broker record %s: %v'' [name])
            | Inr v \<Rightarrow> io_ret v))"

definition readAll :: "'r codec \<Rightarrow> hpath \<Rightarrow> 'r list hio" where
  "readAll c dir =
     io_bind (os_ReadDir dir) (\<lambda>r.
       case r of
         None \<Rightarrow> io_ret []
       | Some es \<Rightarrow> io_map (read_one c dir) (record_names es))"

definition ListPending :: "pending_request codec \<Rightarrow> string \<Rightarrow> pending_request list hio" where
  "ListPending c project = readAll c (pendingDir project)"

definition ListResults :: "request_result codec \<Rightarrow> string \<Rightarrow> request_result list hio" where
  "ListResults c project = readAll c (ResultsDir project)"


section \<open>What a poll hands over\<close>

definition request_ok :: "request \<Rightarrow> bool" where
  "request_ok r \<longleftrightarrow> rq_format r = recordFormat \<and> ParseRequestID (rq_id r) = Inr (rq_id r) \<and> rq_kind r = RebuildKind \<and>
     length (runes (rq_reason r)) \<le> maxTextRunes \<and> length (runes (rq_summary r)) \<le> maxTextRunes"

lemma ParseRequestID_same: "ParseRequestID i = Inr j \<Longrightarrow> j = i"
  by (auto simp: ParseRequestID_def split: if_splits)

lemma ParseRequest_ok:
  "ParseRequest dec data = Inr r \<Longrightarrow> request_ok r \<and> length data \<le> maxRequestBytes \<and> dec data = Inr r"
  by (auto simp: ParseRequest_def request_ok_def rbind_eq_Inr dest: ParseRequestID_same split: if_splits sum.splits)

text \<open>The entries a poll reads.\<close>

definition request_file :: "string \<times> node \<Rightarrow> bool" where
  "request_file e \<longleftrightarrow> (case snd e of RegularFile _ _ \<Rightarrow> True | _ \<Rightarrow> False) \<and> has_suffix (fst e) json_suffix"

lemma poll_entry_skipped: "poll_entry sha dec rd e = Skipped \<longleftrightarrow> \<not> request_file e"
  by (cases e) (auto simp: poll_entry_def request_file_def Let_def split: node.splits sum.splits)

lemma polled_simps [simp]:
  "polled [] = []" "poll_problems [] = []"
  "polled (x # xs) = (case x of Polled r \<Rightarrow> r # polled xs | _ \<Rightarrow> polled xs)"
  "poll_problems (x # xs) = (case x of Problem e \<Rightarrow> e # poll_problems xs | _ \<Rightarrow> poll_problems xs)"
  by (simp_all add: polled_def poll_problems_def List.map_filter_simps split: poll_step.splits)

lemma polled_count: "length (polled xs) + length (poll_problems xs) = length (filter (\<lambda>x. x \<noteq> Skipped) xs)"
  by (induction xs) (auto split: poll_step.splits)

lemma set_polled: "r \<in> set (polled xs) \<longleftrightarrow> Polled r \<in> set xs"
  by (induction xs) (auto split: poll_step.splits)

text \<open>
  C21. What one poll of the workspace can hand to the engine: at most a hundred requests in the order of their
  ids, each of them a well-formed rebuild request with bounded text, decoded from a regular file of at most
  64 KiB whose hash it carries; every other regular JSON file is reported as a problem.
\<close>

theorem ReadRequests_bounded:
  assumes "ReadRequests sha dec rd dir = (raws, problems)"
  shows "length raws \<le> maxRequests \<and> sorted (map (\<lambda>r. rq_id (raw_request r)) raws) \<and>
    list_all (\<lambda>r. request_ok (raw_request r)) raws \<and>
    (\<forall>es r. dir = Inr (Some es) \<longrightarrow> r \<in> set raws \<longrightarrow>
       (\<exists>name m b data. (name, RegularFile m b) \<in> set es \<and> has_suffix name json_suffix \<and> rd name = Inr data \<and>
          length data \<le> maxRequestBytes \<and> dec data = Inr (raw_request r) \<and> raw_digest r = SHA256 sha data)) \<and>
    (\<forall>es. dir = Inr (Some es) \<longrightarrow> length es \<le> maxRequests \<longrightarrow>
       length raws + length problems =
       length (filter request_file es))"
proof -
  have polled: "\<exists>name m b data. e = (name, RegularFile m b) \<and> has_suffix name json_suffix \<and> rd name = Inr data \<and>
      length data \<le> maxRequestBytes \<and> dec data = Inr (raw_request r) \<and> raw_digest r = SHA256 sha data \<and>
      request_ok (raw_request r)" if p: "poll_entry sha dec rd e = Polled r" for e r
  proof -
    obtain name m b content where e: "e = (name, RegularFile m b)" "has_suffix name json_suffix" "rd name = Inr content"
      and q: "ParseRequest dec (take (maxRequestBytes + 1) content) = Inr (raw_request r)"
      "raw_digest r = SHA256 sha (take (maxRequestBytes + 1) content)"
      using p by (auto simp: poll_entry_def Let_def split: prod.splits node.splits if_splits sum.splits)
    from ParseRequest_ok [OF q(1)] have "length (take (maxRequestBytes + 1) content) \<le> maxRequestBytes" by blast
    then have "take (maxRequestBytes + 1) content = content" by simp
    then show ?thesis using e q ParseRequest_ok [OF q(1)] by (metis (no_types))
  qed
  have count: "length (polled (map (poll_entry sha dec rd) es)) + length (poll_problems (map (poll_entry sha dec rd) es)) =
      length (filter request_file es)" for es
    by (simp add: polled_count filter_map comp_def poll_entry_skipped)
  have le: "length (polled xs) \<le> length xs" for xs
    using polled_count [of xs] length_filter_le [of "\<lambda>x. x \<noteq> Skipped" xs] by linarith
  show ?thesis
  proof (cases "\<exists>es. dir = Inr (Some es) \<and> length es \<le> maxRequests")
    case True
    then obtain es where es: "dir = Inr (Some es)" "length es \<le> maxRequests" by blast
    then have raws: "raws = sort_key (\<lambda>r. rq_id (raw_request r)) (polled (map (poll_entry sha dec rd) es))"
      "problems = poll_problems (map (poll_entry sha dec rd) es)"
      using assms by (auto simp: ReadRequests_def Let_def)
    have src: "\<exists>e\<in>set es. poll_entry sha dec rd e = Polled r" if "r \<in> set raws" for r
      using that raws(1) by (auto simp: set_polled)
    have "length raws \<le> maxRequests" using raws(1) le [of \<open>map (poll_entry sha dec rd) es\<close>] es(2) by simp
    moreover have "sorted (map (\<lambda>r. rq_id (raw_request r)) raws)" by (simp add: raws(1))
    moreover have "list_all (\<lambda>r. request_ok (raw_request r)) raws" using src polled by (fastforce simp: list_all_iff)
    moreover have "\<exists>name m b data. (name, RegularFile m b) \<in> set es \<and> has_suffix name json_suffix \<and> rd name = Inr data \<and>
          length data \<le> maxRequestBytes \<and> dec data = Inr (raw_request r) \<and> raw_digest r = SHA256 sha data"
      if "r \<in> set raws" for r using src [OF that] polled by blast
    ultimately show ?thesis using es raws count [of es] by auto
  next
    case False
    then have "raws = []" using assms by (auto simp: ReadRequests_def split: sum.splits option.splits if_splits)
    then show ?thesis using False by auto
  qed
qed


definition demo_polled :: "raw_request list \<times> error list" where
  "demo_polled = ReadRequests (\<lambda>_. ''h'') (\<lambda>b. if b = ''good'' then Inr \<lparr>rq_format = 1, rq_id = ''r1'', rq_kind = RebuildKind,
       rq_reason = '''', rq_summary = ''''\<rparr> else Inl (Plain ''bad'' []))
     (\<lambda>n. Inr (if n = ''a.json'' then ''good'' else ''nope''))
     (Inr (Some [(''a.json'', RegularFile 0x1A4 ''good''), (''b.json'', RegularFile 0x1A4 ''nope''), (''c.json'', SpecialFile 0)]))"

theorem ReadRequests_bounded_witness:
  "length (fst demo_polled) \<le> maxRequests \<and> length (fst demo_polled) + length (snd demo_polled) = 2 \<and>
   list_all (\<lambda>r. request_ok (raw_request r)) (fst demo_polled)"
proof -
  have "[e \<leftarrow> [(''a.json'', RegularFile 0x1A4 ''good''), (''b.json'', RegularFile 0x1A4 ''nope''), (''c.json'', SpecialFile 0)]. request_file e] =
      [(''a.json'', RegularFile 0x1A4 ''good''), (''b.json'', RegularFile 0x1A4 ''nope'')]"
    by code_simp
  then show ?thesis
    using ReadRequests_bounded [OF prod.collapse [symmetric, of demo_polled, unfolded demo_polled_def]]
    by (simp add: demo_polled_def [symmetric] maxRequests_def)
qed

section \<open>What the store lists\<close>

text \<open>The records kept in the JSON files of a directory.\<close>

definition stored :: "'r codec \<Rightarrow> hpath \<Rightarrow> (hpath \<Rightarrow> string option) \<Rightarrow> 'r set" where
  "stored c dir F = {y. \<exists>n b. has_suffix n json_suffix \<and> F (below dir n) = Some b \<and> c_decode c b = Inr y}"

definition record_dir :: "hpath \<Rightarrow> bool" where
  "record_dir dir \<longleftrightarrow> (\<forall>n. record_place (below dir n))"

lemma record_dirs [simp]: "record_dir (pendingDir project)" "record_dir (ResultsDir project)" "record_dir (Projects, [])"
  by (simp_all add: record_dir_def record_place_def below_def pendingDir_def ResultsDir_def)

lemma json_place_below: "record_dir dir \<Longrightarrow> has_suffix n json_suffix \<Longrightarrow> json_place (below dir n)"
  by (simp add: record_dir_def json_place_def) (simp add: below_def)

lemma about_stored: "record_dir dir \<Longrightarrow> about_records (\<lambda>F. A (stored c dir F))"
proof -
  assume "record_dir dir"
  then have "stored c dir F = stored c dir G" if "\<forall>p. json_place p \<longrightarrow> F p = G p" for F G
  proof -
    have "F (below dir n) = G (below dir n)" if "has_suffix n json_suffix" for n
      using \<open>\<forall>p. json_place p \<longrightarrow> F p = G p\<close> json_place_below [OF \<open>record_dir dir\<close> that] by blast
    then show ?thesis unfolding stored_def by (intro Collect_cong) (metis (no_types))
  qed
  then show ?thesis unfolding about_records_def by metis
qed

lemma stored_update:
  "stored c dir (F(below dir n \<mapsto> b)) \<subseteq> stored c dir F \<union> {y. c_decode c b = Inr y}"
  by (auto simp: stored_def split: if_splits)

lemma record_names_iff:
  assumes "map_of ch n = Some (RegularFile m b)"
  shows "n \<in> set (record_names (sort_key fst ch)) \<longleftrightarrow> has_suffix n json_suffix"
proof -
  have "(n, RegularFile m b) \<in> set ch" using assms by (rule map_of_SomeD)
  then show ?thesis by (force simp: record_names_def)
qed

lemma record_names_suffix: "n \<in> set (record_names es) \<Longrightarrow> has_suffix n json_suffix"
  by (auto simp: record_names_def)

lemma triple_read_one:
  assumes "hassert P"
  shows "triple P (read_one c dir n) (\<lambda>y s. (\<exists>b. file_at s (below dir n) = Some b \<and> c_decode c b = Inr y) \<and> P s) (\<lambda>_. P) P"
proof -
  have "triple P (os_ReadFile (below dir n)) (\<lambda>r s. file_at s (below dir n) = r \<and> P s) (\<lambda>_. P) P"
    unfolding os_ReadFile_def file_at_def by (rule triple_hquery) (use assms in \<open>auto split: option.splits node.splits\<close>)
  then show ?thesis
    unfolding read_one_def
    by (rule triple_bind) (auto intro!: triple_fail triple_ret split: option.splits sum.splits)
qed

lemma triple_readAll:
  assumes P: "hassert P"
  shows "triple P (readAll c dir) (\<lambda>rs s. P s \<and> set rs = stored c dir (file_at s)) (\<lambda>_. P) P"
proof -
  let ?D = "\<lambda>ch s. P s \<and> lookup s dir = Some (Directory ch)"
  let ?N = "\<lambda>s. P s \<and> lookup s dir = None"
  have dir: "triple P (os_ReadDir dir)
      (\<lambda>r s. (r = None \<and> ?N s) \<or> (\<exists>ch. r = Some (sort_key fst ch) \<and> ?D ch s)) (\<lambda>_. P) P"
    unfolding os_ReadDir_def by (rule triple_hquery) (use P in \<open>auto split: option.splits node.splits\<close>)
  have hD: "hassert (?D ch)" for ch by (intro hassert_intros P)
  let ?R = "\<lambda>ch n y. \<exists>m b. map_of ch n = Some (RegularFile m b) \<and> c_decode c b = Inr y"
  have one: "triple (?D ch) (read_one c dir n) (\<lambda>y s. ?R ch n y \<and> ?D ch s) (\<lambda>_. P) P" for ch n
    by (rule triple_post [OF triple_read_one [OF hD]])
      (auto simp: file_at_def lookup_below split: option.splits node.splits)
  have all: "triple (?D ch) (io_map (read_one c dir) (record_names (sort_key fst ch)))
      (\<lambda>rs s. P s \<and> set rs = stored c dir (file_at s)) (\<lambda>_. P) P" for ch
  proof (rule triple_post [OF triple_io_map [OF one]])
    fix rs s
    assume "list_all2 (?R ch) (record_names (sort_key fst ch)) rs \<and> ?D ch s"
    then have l: "list_all2 (?R ch) (record_names (sort_key fst ch)) rs" and s: "P s" "lookup s dir = Some (Directory ch)" by auto
    have F: "file_at s (below dir n) = Some b \<longleftrightarrow> (\<exists>m. map_of ch n = Some (RegularFile m b))" for n b
      using lookup_below [OF s(2), of n] by (auto simp: file_at_def split: option.splits node.splits)
    have "y \<in> set rs \<longleftrightarrow> y \<in> stored c dir (file_at s)" for y
    proof
      assume "y \<in> set rs"
      then obtain n where "n \<in> set (record_names (sort_key fst ch))" "?R ch n y"
        using l by (auto simp: list_all2_conv_all_nth in_set_conv_nth) metis
      then show "y \<in> stored c dir (file_at s)" using record_names_suffix F by (fastforce simp: stored_def)
    next
      assume "y \<in> stored c dir (file_at s)"
      then obtain n m b where n: "has_suffix n json_suffix" "map_of ch n = Some (RegularFile m b)" "c_decode c b = Inr y"
        by (auto simp: stored_def F)
      then have "n \<in> set (record_names (sort_key fst ch))" by (simp add: record_names_iff)
      then obtain y' where "y' \<in> set rs" "?R ch n y'"
        using l by (auto simp: list_all2_conv_all_nth in_set_conv_nth) metis
      then show "y \<in> set rs" using n by auto
    qed
    then show "P s \<and> set rs = stored c dir (file_at s)" using s(1) by blast
  qed simp_all
  show ?thesis
    unfolding readAll_def
  proof (rule triple_bind [OF dir])
    fix r
    let ?k = "case r of None \<Rightarrow> io_ret [] | Some es \<Rightarrow> io_map (read_one c dir) (record_names es)"
    have empty: "stored c dir (file_at s) = {}" if "lookup s dir = None" for s
      using lookup_below_none [of s dir] that by (auto simp: stored_def file_at_def)
    show "triple (\<lambda>s. (r = None \<and> ?N s) \<or> (\<exists>ch. r = Some (sort_key fst ch) \<and> ?D ch s)) ?k
        (\<lambda>rs s. P s \<and> set rs = stored c dir (file_at s)) (\<lambda>_. P) P"
    proof (cases r)
      case None
      have "triple ?N (io_ret []) (\<lambda>rs s. P s \<and> set rs = stored c dir (file_at s)) (\<lambda>_. P) P"
        by (rule triple_ret) (simp add: empty)
      then show ?thesis by (auto simp: None intro: triple_pre)
    next
      case (Some es)
      have "triple (\<lambda>s. \<exists>ch. es = sort_key fst ch \<and> ?D ch s) ?k
          (\<lambda>rs s. P s \<and> set rs = stored c dir (file_at s)) (\<lambda>_. P) P"
        by (intro triple_ex triple_pure) (use all in \<open>simp add: Some\<close>)
      then show ?thesis by (rule triple_pre) (auto simp: Some)
    qed
  qed
qed

text \<open>Making the directories changes no file.\<close>

lemma keeps_MkdirAll: "keeps (\<lambda>s. A (file_at s)) (os_MkdirAll p)"
proof (rule keeps_MkdirAll_dir [OF hassert_file_at])
  fix s cs assume "lookup s (fst p, cs) = None" "A (file_at s)"
  moreover have "file_at (put (fst p, cs) (Some (Directory [])) s) = file_at s"
    using file_at_mkdir [OF calculation(1)] by blast
  ultimately show "A (file_at (put (fst p, cs) (Some (Directory [])) s))" by simp
qed

lemma keeps_NewStore: "keeps (\<lambda>s. A (file_at s)) (NewStore project)"
  unfolding NewStore_def by (intro keeps_ops keeps_MkdirAll)

end

