(* ===== verification/Requests.thy ===== *)
theory Requests
  imports Broker
begin

text \<open>
  The engine's side of rebuild requests (\<^verbatim>\<open>internal/app/requests.go\<close>): the poll that binds each new request to a
  fresh candidate, and the operator's decision. Preparing a candidate, bringing a
  candidate up and asking the operator are arguments; the broker's and the registry's files are those of the host. The
  lemmas show what a poll leaves bound, and that a request is only ever recorded as approved for the candidate
  it was bound to, after the registry points at that candidate.
\<close>

section \<open>Polling (RequestList)\<close>

text \<open>Whether a polled file asks for a new binding: its content is not the one bound, and it was not decided.\<close>

definition needs_binding :: "(string \<rightharpoonup> pending_request) \<Rightarrow> string set \<Rightarrow> raw_request \<Rightarrow> bool" where
  "needs_binding known completed raw =
     (let i = rq_id (raw_request raw) in
      case known i of
        Some prev \<Rightarrow> pd_content prev \<noteq> raw_digest raw
      | None \<Rightarrow> i \<notin> completed)"

definition bind_request :: "string \<Rightarrow> int \<Rightarrow> raw_request \<Rightarrow> digest \<Rightarrow> pending_request" where
  "bind_request project time raw cand =
     \<lparr>pd_format = recordFormat, pd_request_id = rq_id (raw_request raw), pd_project_id = project, pd_candidate = cand,
      pd_content = raw_digest raw, pd_reason = rq_reason (raw_request raw), pd_summary = rq_summary (raw_request raw),
      pd_created_at = time\<rparr>"

type_synonym adoption = "(string \<rightharpoonup> pending_request) \<times> (string \<times> error) list \<times> bool"

definition adopt ::
  "pending_request codec \<Rightarrow> string \<Rightarrow> int \<Rightarrow> digest hio \<Rightarrow> string set \<Rightarrow> raw_request \<Rightarrow> adoption \<Rightarrow> adoption hio" where
  "adopt c project time prepare completed raw acc =
     (case acc of (known, failed, adopted) \<Rightarrow>
        if \<not> needs_binding known completed raw then io_ret acc
        else io_bind (io_try prepare) (\<lambda>r.
          case r of
            Inl e \<Rightarrow> io_ret (known, failed @ [(rq_id (raw_request raw), e)], adopted)
          | Inr cand \<Rightarrow>
              let p = bind_request project time raw cand
              in io_then (WritePending c project p) (io_ret (known(pd_request_id p \<mapsto> p), failed, True))))"

definition index_pending :: "pending_request list \<Rightarrow> string \<rightharpoonup> pending_request" where
  "index_pending ps = map_of (rev (map (\<lambda>p. (pd_request_id p, p)) ps))"

record request_list =
  rl_pending :: "pending_request list"
  rl_problems :: "error list"
  rl_failed :: "(string \<times> error) list"
  rl_adopted :: bool

definition RequestList ::
  "pending_request codec \<Rightarrow> request_result codec \<Rightarrow> string \<Rightarrow> int \<Rightarrow> digest hio \<Rightarrow> raw_request list \<times> error list \<Rightarrow>
   request_list hio" where
  "RequestList c cr project time prepare poll =
     io_then (NewStore project)
     (io_bind (ListPending c project) (\<lambda>pending.
      io_bind (ListResults cr project) (\<lambda>results.
      io_then os_step
        (io_defer os_step
          (io_bind (io_fold (adopt c project time prepare (set (map rs_request_id results))) (fst poll)
              (index_pending pending, [], False)) (\<lambda>(known, failed, adopted).
           io_bind (ListPending c project) (\<lambda>final.
             io_ret \<lparr>rl_pending = final, rl_problems = snd poll, rl_failed = failed, rl_adopted = adopted\<rparr>)))))))"

section \<open>Deciding (RequestDecide)\<close>

record decide_request =
  dr_id :: string
  dr_candidate :: digest
  dr_approve :: bool
  dr_message :: string
  dr_yes :: bool

definition decides :: "decide_request \<Rightarrow> pending_request \<Rightarrow> bool" where
  "decides req p =
     (dr_id req \<noteq> '''' \<and> pd_request_id p = dr_id req \<or>
      \<not> Digest_IsZero (dr_candidate req) \<and> pd_candidate p = dr_candidate req)"

definition new_result :: "string \<Rightarrow> pending_request \<Rightarrow> int \<Rightarrow> request_result" where
  "new_result project p time =
     \<lparr>rs_format = recordFormat, rs_request_id = pd_request_id p, rs_project_id = project, rs_candidate = Some (pd_candidate p),
      rs_status = StatusPending, rs_message = '''', rs_created_at = pd_created_at p, rs_completed_at = Some time\<rparr>"

definition reject :: "request_result codec \<Rightarrow> string \<Rightarrow> string \<Rightarrow> int \<Rightarrow> pending_request \<Rightarrow> request_result hio" where
  "reject cr project msg time p =
     (let result = (new_result project p time)\<lparr>rs_status := StatusRejected, rs_message := msg\<rparr>
      in io_then (WriteResult cr project result)
         (io_then (DeletePending project (pd_request_id p)) (io_ret result)))"

text \<open>The prompt is None without a terminal; it answers for the candidate it is shown.\<close>

definition confirm :: "(digest \<Rightarrow> bool hio) option \<Rightarrow> bool \<Rightarrow> pending_request \<Rightarrow> unit hio" where
  "confirm prompt yes p =
     (if yes then io_ret ()
      else case prompt of
        None \<Rightarrow> io_fail (Class ErrConflict ''%w: approving %s requires confirmation (re-run with --yes)'' [pd_request_id p])
      | Some ask \<Rightarrow> io_bind (ask (pd_candidate p)) (\<lambda>ok.
          if ok then io_ret () else io_fail (Class ErrCanceled ''%w: not confirmed'' [])))"

definition approve ::
  "registry_record codec \<Rightarrow> request_result codec \<Rightarrow> registry_record \<Rightarrow> int \<Rightarrow> (digest \<Rightarrow> 'st hio) \<Rightarrow> pending_request \<Rightarrow>
   (request_result \<times> 'st) hio" where
  "approve cg cr rec time up p =
     io_bind (up (pd_candidate p)) (\<lambda>st.
       let result = (new_result (rr_id rec) p time)\<lparr>rs_status := StatusApproved\<rparr>
       in io_then (Update cg (rr_id rec) (rr_revision rec) time (\<lambda>r. Inr (r\<lparr>rr_approved := Some (pd_candidate p)\<rparr>)))
          (io_then (WriteResult cr (rr_id rec) result)
          (io_then (DeletePending (rr_id rec) (pd_request_id p)) (io_ret (result, st)))))"

definition no_request :: "decide_request \<Rightarrow> error" where
  "no_request req =
     (if dr_id req \<noteq> '''' then Class ErrNotFound ''%w: no pending request %s'' [dr_id req]
      else Class ErrNotFound ''%w: no pending request for candidate %s'' [Digest_String (dr_candidate req)])"

definition RequestDecide ::
  "registry_record codec \<Rightarrow> pending_request codec \<Rightarrow> request_result codec \<Rightarrow> registry_record \<Rightarrow> int \<Rightarrow>
   (digest \<Rightarrow> bool hio) option \<Rightarrow> (digest \<Rightarrow> 'st hio) \<Rightarrow> decide_request \<Rightarrow> (request_result \<times> 'st option) hio" where
  "RequestDecide cg c cr rec time prompt up req =
     io_then (NewStore (rr_id rec))
     (io_bind (ListPending c (rr_id rec)) (\<lambda>pending.
      if dr_id req = '''' \<and> Digest_IsZero (dr_candidate req)
      then io_fail (Class ErrInvalid ''%w: no request ID or candidate digest given'' [])
      else case List.find (decides req) pending of
        None \<Rightarrow> io_fail (no_request req)
      | Some p \<Rightarrow>
          if \<not> dr_approve req
          then io_bind (reject cr (rr_id rec) (dr_message req) time p) (\<lambda>result. io_ret (result, None))
          else io_then (confirm prompt (dr_yes req) p)
               (io_bind (approve cg cr rec time up p) (\<lambda>(result, st). io_ret (result, Some st)))))"



section \<open>Frames\<close>

definition about_broker :: "((hpath \<Rightarrow> string option) \<Rightarrow> bool) \<Rightarrow> bool" where
  "about_broker A \<longleftrightarrow> (\<forall>F G. (\<forall>p. json_place p \<longrightarrow> fst p = BrokerDir \<longrightarrow> F p = G p) \<longrightarrow> A F = A G)"

lemma about_broker_records: "about_broker A \<Longrightarrow> about_records A"
  by (simp add: about_broker_def about_records_def)

lemma about_broker_conj: "about_broker A \<Longrightarrow> about_broker B \<Longrightarrow> about_broker (\<lambda>F. A F \<and> B F)"
  unfolding about_broker_def by (intro allI impI) (metis (no_types))

lemma about_broker_at: "json_place p \<Longrightarrow> fst p = BrokerDir \<Longrightarrow> about_broker (\<lambda>F. A (F p))"
  unfolding about_broker_def by metis

lemma about_broker_stored:
  assumes "record_dir dir" "fst dir = BrokerDir"
  shows "about_broker (\<lambda>F. A (stored c dir F))"
  unfolding about_broker_def
proof (intro allI impI)
  fix F G :: "hpath \<Rightarrow> string option"
  assume eq: "\<forall>p. json_place p \<longrightarrow> fst p = BrokerDir \<longrightarrow> F p = G p"
  have "F (below dir n) = G (below dir n)" if "has_suffix n json_suffix" for n
    using eq json_place_below [OF assms(1) that] assms(2) by (simp add: below_def)
  then have "stored c dir F = stored c dir G" unfolding stored_def by (intro Collect_cong) (metis (no_types))
  then show "A (stored c dir F) = A (stored c dir G)" by simp
qed

lemma broker_places:
  "fst (pendingDir project) = BrokerDir" "fst (ResultsDir project) = BrokerDir"
  "fst (below dir n) = fst dir" "below dir n = below dir n' \<longleftrightarrow> n = n'"
  "below (pendingDir project) n \<noteq> below (ResultsDir project) m"
  "below (ResultsDir project) m \<noteq> below (pendingDir project) n"
  "below (ResultsDir project) m \<noteq> recordPath i" "below (pendingDir project) m \<noteq> recordPath i"
  by (auto simp: below_def pendingDir_def ResultsDir_def recordPath_def)

lemma result_place: "json_place (below (ResultsDir project) (i @ json_suffix))"
  "json_place (below (pendingDir project) (i @ json_suffix))"
  by (simp_all add: json_place_below)

lemma keeps_Update_elsewhere:
  assumes h: "hassert P" and w: "\<And>n v. writable P (Projects, [n]) v"
  shows "keeps P (Update c i revn time fn)"
  unfolding Update_def update_locked_def reg_write_def Let_def
  by (intro keeps_intros keeps_WriteFileAtomic h) (simp_all add: w)

lemma keeps_broker_Update:
  assumes "about_broker A"
  shows "keeps (\<lambda>s. A (file_at s)) (Update c i revn time fn)"
proof (rule keeps_Update_elsewhere [OF hassert_file_at], rule writableI)
  fix s n v
  have "A (file_at (put (Projects, [n]) v s)) = A (file_at s)"
    using assms unfolding about_broker_def by (metis file_at_apart fst_conv hdir.distinct path_apart_def)
  then show "A (file_at s) \<Longrightarrow> A (file_at (put (Projects, [n]) v s))" by simp
qed

text \<open>What the callbacks must not do: touch the registry or the broker's files.\<close>

definition untouched :: "'a hio \<Rightarrow> bool" where
  "untouched m \<longleftrightarrow> (\<forall>s p. fst p \<in> {BrokerDir, Projects} \<longrightarrow> file_at (snd (m s)) p = file_at s p)"

lemma keeps_untouched:
  assumes "untouched m" "about_records A"
  shows "keeps (\<lambda>s. A (file_at s)) m"
proof (rule tripleI)
  fix s assume "A (file_at s)"
  have "file_at (snd (m s)) p = file_at s p" if "json_place p" for p
  proof -
    have "fst p \<in> {BrokerDir, Projects}" using that by (auto simp: json_place_def record_place_def)
    then show ?thesis using assms(1) unfolding untouched_def by blast
  qed
  then have "A (file_at (snd (m s)))" using about_recordsD [OF assms(2)] \<open>A (file_at s)\<close> by metis
  then show "case m s of (Ret x, s') \<Rightarrow> A (file_at s') | (Err e, s') \<Rightarrow> A (file_at s') | (Crashed, s') \<Rightarrow> A (file_at s')"
    by (auto split: prod.splits res.splits)
qed

lemma triple_WriteResult:
  assumes A: "about_records A" and B: "about_records B"
    and w: "\<And>F b. MarshalRecord cr (r\<lparr>rs_format := recordFormat\<rparr>) = Inr b \<Longrightarrow> A F \<Longrightarrow>
      B (F(below (ResultsDir project) (rs_request_id r @ json_suffix) \<mapsto> b))"
  shows "triple (\<lambda>s. A (file_at s)) (WriteResult cr project r)
    (\<lambda>_ s. B (file_at s)) (\<lambda>_ s. A (file_at s) \<or> B (file_at s)) (\<lambda>s. A (file_at s) \<or> B (file_at s))"
  unfolding WriteResult_def
proof (rule triple_bind [OF triple_of [where Q = "\<lambda>b s. MarshalRecord cr (r\<lparr>rs_format := recordFormat\<rparr>) = Inr b \<and> A (file_at s)"]],
    simp, simp, rule triple_pure)
  fix b assume "MarshalRecord cr (r\<lparr>rs_format := recordFormat\<rparr>) = Inr b"
  from w [OF this] show "triple (\<lambda>s. A (file_at s))
      (WriteFileAtomic (ResultsDir project) (rs_request_id r @ json_suffix) b 0x1A4)
      (\<lambda>_ s. B (file_at s)) (\<lambda>_ s. A (file_at s) \<or> B (file_at s)) (\<lambda>s. A (file_at s) \<or> B (file_at s))"
    by (intro triple_write_record A B record_dirs(2) [unfolded record_dir_def, rule_format])
qed

lemma triple_DeletePending:
  assumes A: "about_records A" and B: "about_records B"
    and w: "\<And>F. A F \<Longrightarrow> B (F(below (pendingDir project) (i @ json_suffix) := None))"
  shows "triple (\<lambda>s. A (file_at s)) (DeletePending project i)
    (\<lambda>_ s. B (file_at s)) (\<lambda>_ s. A (file_at s) \<or> B (file_at s)) (\<lambda>s. A (file_at s) \<or> B (file_at s))"
  unfolding DeletePending_def
  by (rule triple_bind [OF triple_remove_record [OF A B _ w]])
    (auto intro!: triple_ret record_dirs(1) [unfolded record_dir_def, rule_format])


section \<open>Approval\<close>

definition codec_exact :: "'r codec \<Rightarrow> bool" where
  "codec_exact c \<longleftrightarrow> (\<forall>r b. MarshalRecord c r = Inr b \<longrightarrow> c_decode c b = Inr r)"

text \<open>The registry points at the candidate.\<close>

definition approved_for :: "registry_record codec \<Rightarrow> string \<Rightarrow> digest \<Rightarrow> (hpath \<Rightarrow> string option) \<Rightarrow> bool" where
  "approved_for cg project d F \<longleftrightarrow>
     (\<exists>b rec. F (recordPath project) = Some b \<and> DecodeRecord cg b (''project record '' @ project @ json_suffix) RecordFormat = Inr rec \<and>
        rr_approved rec = Some d)"

text \<open>A result that says approved was bound, and applied, as it says.\<close>

definition approval_bound ::
  "registry_record codec \<Rightarrow> request_result codec \<Rightarrow> string \<Rightarrow> string \<Rightarrow> pending_request set \<Rightarrow> (hpath \<Rightarrow> string option) \<Rightarrow> bool" where
  "approval_bound cg cr project i S F \<longleftrightarrow>
     (\<forall>b r. F (below (ResultsDir project) (i @ json_suffix)) = Some b \<longrightarrow> c_decode cr b = Inr r \<longrightarrow> rs_status r = StatusApproved \<longrightarrow>
        (\<exists>p\<in>S. pd_request_id p = i \<and> rs_candidate r = Some (pd_candidate p) \<and> approved_for cg project (pd_candidate p) F))"

lemma record_path_place: "json_place (recordPath i)"
  by (simp add: recordPath_def json_place_def record_place_def)

lemma about_approved_for: "about_records (approved_for cg project d)"
  unfolding about_records_def approved_for_def using record_path_place [of project] by metis

lemma about_approval: "about_records (approval_bound cg cr project i S)"
  unfolding about_records_def
proof (intro allI impI)
  fix F G :: "hpath \<Rightarrow> string option"
  assume eq: "\<forall>p. json_place p \<longrightarrow> F p = G p"
  have "approved_for cg project d F = approved_for cg project d G" for d
    by (rule about_recordsD [OF about_approved_for]) (use eq in blast)
  then show "approval_bound cg cr project i S F = approval_bound cg cr project i S G"
    using eq [rule_format, OF result_place(1) [of project i]] by (simp add: approval_bound_def)
qed

lemma recorded_approved:
  "recorded cg i rec s \<Longrightarrow> rr_approved rec = Some d \<Longrightarrow> approved_for cg i d (file_at s)"
  by (auto simp: recorded_def approved_for_def file_at_def)

text \<open>Undecided so far, with these requests pending.\<close>

abbreviation undecided ::
  "pending_request codec \<Rightarrow> string \<Rightarrow> string \<Rightarrow> pending_request set \<Rightarrow> (hpath \<Rightarrow> string option) \<Rightarrow> bool" where
  "undecided c project i S \<equiv>
     \<lambda>F. F (below (ResultsDir project) (i @ json_suffix)) = None \<and> stored c (pendingDir project) F = S"

lemma about_undecided: "about_broker (undecided c project i S)"
  by (intro about_broker_conj about_broker_at about_broker_stored result_place) (simp_all add: broker_places)

lemma undecided_bound: "undecided c project i S F \<Longrightarrow> approval_bound cg cr project i S F"
  by (simp add: approval_bound_def)

lemma triple_to_bound:
  assumes "triple (\<lambda>s. A (file_at s)) m (\<lambda>x s. B x (file_at s)) (\<lambda>_ s. A (file_at s) \<or> (\<exists>x. B x (file_at s)))
      (\<lambda>s. A (file_at s) \<or> (\<exists>x. B x (file_at s)))"
    and "\<And>F. A F \<Longrightarrow> G F" "\<And>x F. B x F \<Longrightarrow> G F"
  shows "triple (\<lambda>s. A (file_at s)) m (\<lambda>x s. B x (file_at s)) (\<lambda>_ s. G (file_at s)) (\<lambda>s. G (file_at s))"
  by (rule triple_post [OF assms(1)]) (use assms(2,3) in blast)+

lemma triple_approve:
  assumes c: "codec_ok cg rr_format" "codec_exact cr" and up: "untouched (up (pd_candidate p))" and p: "p \<in> S"
  shows "triple (\<lambda>s. undecided c (rr_id rec) i S (file_at s)) (approve cg cr rec time up p)
    (\<lambda>_ s. approval_bound cg cr (rr_id rec) i S (file_at s)) (\<lambda>_ s. approval_bound cg cr (rr_id rec) i S (file_at s))
    (\<lambda>s. approval_bound cg cr (rr_id rec) i S (file_at s))"
proof -
  let ?P = "rr_id rec" and ?R = "below (ResultsDir (rr_id rec)) (i @ json_suffix)" and ?d = "pd_candidate p"
  let ?U = "undecided c ?P i S" and ?G = "approval_bound cg cr ?P i S"
  let ?A = "\<lambda>F. F ?R = None \<and> approved_for cg ?P ?d F"
  let ?B = "\<lambda>F. (\<forall>b r. F ?R = Some b \<longrightarrow> c_decode cr b = Inr r \<longrightarrow> pd_request_id p = i \<and> rs_candidate r = Some ?d) \<and>
    approved_for cg ?P ?d F"
  have aU: "about_records ?U" by (rule about_broker_records [OF about_undecided])
  have aA: "about_records ?A"
    by (intro about_records_conj about_approved_for about_records_at result_place)
  have aB: "about_records ?B"
    by (intro about_records_conj about_approved_for about_records_at
        [where A = "\<lambda>x. \<forall>b r. x = Some b \<longrightarrow> c_decode cr b = Inr r \<longrightarrow> pd_request_id p = i \<and> rs_candidate r = Some ?d"] result_place)
  have G: "?U F \<Longrightarrow> ?G F" "?A F \<Longrightarrow> ?G F" "?B F \<Longrightarrow> ?G F" for F
    using p by (auto simp: approval_bound_def)
  have frame: "approved_for cg ?P ?d (F(below (ResultsDir ?P) n := v)) = approved_for cg ?P ?d F"
    "approved_for cg ?P ?d (F(below (pendingDir ?P) n := v)) = approved_for cg ?P ?d F" for F n v
    by (simp_all add: approved_for_def broker_places eq_commute [of "recordPath _"])
  have upd: "triple (\<lambda>s. ?U (file_at s)) (Update cg ?P revn time (\<lambda>r. Inr (r\<lparr>rr_approved := Some ?d\<rparr>)))
      (\<lambda>_ s. ?A (file_at s)) (\<lambda>_ s. ?G (file_at s)) (\<lambda>s. ?G (file_at s))" for revn
    by (rule triple_post [OF triple_pre [OF triple_conj [OF keeps_broker_Update [OF about_undecided] update_success [OF c(1)]]]])
      (auto intro!: recorded_approved simp: apply_update_def approval_bound_def)
  let ?res = "(new_result ?P p time)\<lparr>rs_status := StatusApproved\<rparr>"
  have wr: "triple (\<lambda>s. ?A (file_at s)) (WriteResult cr ?P ?res)
      (\<lambda>_ s. ?B (file_at s)) (\<lambda>_ s. ?G (file_at s)) (\<lambda>s. ?G (file_at s))"
  proof (rule triple_post [OF triple_WriteResult [OF aA aB]])
    fix F b assume m: "MarshalRecord cr (?res\<lparr>rs_format := recordFormat\<rparr>) = Inr b" and F: "?A F"
    have "c_decode cr b = Inr (?res\<lparr>rs_format := recordFormat\<rparr>)" using c(2) m by (simp add: codec_exact_def)
    then show "?B (F(below (ResultsDir ?P) (rs_request_id ?res @ json_suffix) \<mapsto> b))"
      using F by (auto simp: frame new_result_def broker_places)
  qed (use G in blast)+
  have del: "triple (\<lambda>s. ?B (file_at s)) (DeletePending ?P (pd_request_id p))
      (\<lambda>_ s. ?B (file_at s)) (\<lambda>_ s. ?G (file_at s)) (\<lambda>s. ?G (file_at s))"
    by (rule triple_post [OF triple_DeletePending [OF aB aB]]) (use G in \<open>auto simp: frame broker_places\<close>)
  have last: "triple (\<lambda>s. ?B (file_at s)) (io_ret x) (\<lambda>_ s. ?G (file_at s)) (\<lambda>_ s. ?G (file_at s)) (\<lambda>s. ?G (file_at s))"
    for x :: "request_result \<times> 'a"
    by (rule triple_ret) (rule G(3))
  have first: "triple (\<lambda>s. ?U (file_at s)) (up ?d) (\<lambda>_ s. ?U (file_at s)) (\<lambda>_ s. ?G (file_at s)) (\<lambda>s. ?G (file_at s))"
    by (rule triple_post [OF keeps_untouched [OF up aU]]) (use G in blast)+
  show ?thesis
    unfolding approve_def Let_def
    by (rule triple_bind [OF first], rule triple_bind [OF upd], rule triple_bind [OF wr], rule triple_bind [OF del], rule last)
qed


lemma triple_reject:
  assumes c: "codec_exact cr"
  shows "triple (\<lambda>s. undecided c project i S (file_at s)) (reject cr project msg time p)
    (\<lambda>_ s. approval_bound cg cr project i S (file_at s)) (\<lambda>_ s. approval_bound cg cr project i S (file_at s))
    (\<lambda>s. approval_bound cg cr project i S (file_at s))"
proof -
  let ?R = "below (ResultsDir project) (i @ json_suffix)"
  let ?U = "undecided c project i S" and ?G = "approval_bound cg cr project i S"
  let ?B = "\<lambda>F. \<forall>b r. F ?R = Some b \<longrightarrow> c_decode cr b = Inr r \<longrightarrow> rs_status r = StatusRejected"
  have aU: "about_records ?U" by (rule about_broker_records [OF about_undecided])
  have aB: "about_records ?B"
    by (rule about_records_at [where A = "\<lambda>x. \<forall>b r. x = Some b \<longrightarrow> c_decode cr b = Inr r \<longrightarrow> rs_status r = StatusRejected"])
      (rule result_place)
  have G: "?U F \<Longrightarrow> ?G F" "?B F \<Longrightarrow> ?G F" for F by (auto simp: approval_bound_def)
  let ?res = "(new_result project p time)\<lparr>rs_status := StatusRejected, rs_message := msg\<rparr>"
  have wr: "triple (\<lambda>s. ?U (file_at s)) (WriteResult cr project ?res)
      (\<lambda>_ s. ?B (file_at s)) (\<lambda>_ s. ?G (file_at s)) (\<lambda>s. ?G (file_at s))"
  proof (rule triple_post [OF triple_WriteResult [OF aU aB]])
    fix F b assume m: "MarshalRecord cr (?res\<lparr>rs_format := recordFormat\<rparr>) = Inr b" and F: "?U F"
    have "c_decode cr b = Inr (?res\<lparr>rs_format := recordFormat\<rparr>)" using c m by (simp add: codec_exact_def)
    then show "?B (F(below (ResultsDir project) (rs_request_id ?res @ json_suffix) \<mapsto> b))"
      using F by (auto simp: new_result_def broker_places)
  qed (use G in blast)+
  have del: "triple (\<lambda>s. ?B (file_at s)) (DeletePending project (pd_request_id p))
      (\<lambda>_ s. ?B (file_at s)) (\<lambda>_ s. ?G (file_at s)) (\<lambda>s. ?G (file_at s))"
    by (rule triple_post [OF triple_DeletePending [OF aB aB]]) (use G in \<open>auto simp: broker_places\<close>)
  have last: "triple (\<lambda>s. ?B (file_at s)) (io_ret ?res) (\<lambda>_ s. ?G (file_at s)) (\<lambda>_ s. ?G (file_at s)) (\<lambda>s. ?G (file_at s))"
    by (rule triple_ret) (rule G(2))
  show ?thesis
    unfolding reject_def Let_def
    by (rule triple_bind [OF wr], rule triple_bind [OF del], rule last)
qed

lemma keeps_confirm:
  assumes "\<forall>ask\<in>set_option prompt. \<forall>d. untouched (ask d)" "about_records A"
  shows "keeps (\<lambda>s. A (file_at s)) (confirm prompt yes p)"
proof -
  have "keeps (\<lambda>s. A (file_at s)) (ask d)" if "prompt = Some ask" for ask d
    using assms that by (intro keeps_untouched) auto
  then show ?thesis unfolding confirm_def
    by (cases prompt) (auto intro!: keeps_ops keeps_cases)
qed

lemma triple_RequestDecide:
  assumes c: "codec_ok cg rr_format" "codec_exact cr"
    and up: "\<And>d. untouched (up d)" "\<forall>ask\<in>set_option prompt. \<forall>d. untouched (ask d)"
  shows "triple (\<lambda>s. undecided c (rr_id rec) i S (file_at s)) (RequestDecide cg c cr rec time prompt up req)
    (\<lambda>_ s. approval_bound cg cr (rr_id rec) i S (file_at s)) (\<lambda>_ s. approval_bound cg cr (rr_id rec) i S (file_at s))
    (\<lambda>s. approval_bound cg cr (rr_id rec) i S (file_at s))"
proof -
  let ?U = "undecided c (rr_id rec) i S" and ?G = "approval_bound cg cr (rr_id rec) i S"
  have aU: "about_records ?U" by (rule about_broker_records [OF about_undecided])
  have weak: "triple (\<lambda>s. ?U (file_at s)) m (\<lambda>_ s. ?U (file_at s)) (\<lambda>_ s. ?G (file_at s)) (\<lambda>s. ?G (file_at s))"
    if "keeps (\<lambda>s. ?U (file_at s)) m" for m :: "'x hio"
    by (rule triple_post [OF that]) (simp_all add: approval_bound_def)
  have keep_G: "keeps (\<lambda>s. ?G (file_at s)) (io_ret x)" for x :: 'y
    by (rule keeps_ops)
  have fail: "triple (\<lambda>s. ?U (file_at s)) (io_fail e) (\<lambda>_ s. ?G (file_at s)) (\<lambda>_ s. ?G (file_at s)) (\<lambda>s. ?G (file_at s))"
    for e by (rule triple_fail) (simp add: approval_bound_def)
  have rd: "triple (\<lambda>s. ?U (file_at s)) (ListPending c (rr_id rec)) (\<lambda>ps s. set ps = S \<and> ?U (file_at s))
      (\<lambda>_ s. ?G (file_at s)) (\<lambda>s. ?G (file_at s))"
    unfolding ListPending_def
    by (rule triple_post [OF triple_readAll [OF hassert_file_at]]) (simp_all add: approval_bound_def)
  have conf: "triple (\<lambda>s. ?U (file_at s)) (confirm prompt (dr_yes req) p)
      (\<lambda>_ s. ?U (file_at s)) (\<lambda>_ s. ?G (file_at s)) (\<lambda>s. ?G (file_at s))" for p
    by (rule weak) (rule keeps_confirm [OF up(2) aU])
  have one: "triple (\<lambda>s. ?U (file_at s))
      (if \<not> dr_approve req
       then io_bind (reject cr (rr_id rec) (dr_message req) time p) (\<lambda>result. io_ret (result, None))
       else io_then (confirm prompt (dr_yes req) p)
            (io_bind (approve cg cr rec time up p) (\<lambda>(result, st). io_ret (result, Some st))))
      (\<lambda>_ s. ?G (file_at s)) (\<lambda>_ s. ?G (file_at s)) (\<lambda>s. ?G (file_at s))" if "p \<in> S" for p
    using that
    by (intro triple_if triple_bind [OF triple_reject [OF c(2)]] triple_bind [OF conf]
        triple_bind [OF triple_approve [OF c up(1)]])
      (auto intro: keep_G split: prod.splits)
  show ?thesis
    unfolding RequestDecide_def
  proof (rule triple_bind [OF weak [OF keeps_NewStore]], rule triple_bind [OF rd], rule triple_pure, rule triple_if [OF _ triple_option])
    fix ps p assume "set ps = S" "List.find (decides req) ps = Some p"
    then show "triple (\<lambda>s. ?U (file_at s))
      (if \<not> dr_approve req
       then io_bind (reject cr (rr_id rec) (dr_message req) time p) (\<lambda>result. io_ret (result, None))
       else io_then (confirm prompt (dr_yes req) p)
            (io_bind (approve cg cr rec time up p) (\<lambda>(result, st). io_ret (result, Some st))))
      (\<lambda>_ s. ?G (file_at s)) (\<lambda>_ s. ?G (file_at s)) (\<lambda>s. ?G (file_at s))"
      using find_Some_iff [of "decides req" ps p] by (intro one) (auto simp: in_set_conv_nth)
  qed (rule fail)+
qed

text \<open>
  C15. Approval is for the bound candidate and nothing else: whatever fails and wherever the process dies in a
  decision, when afterwards a request that was undecided has a result that says approved, then a pending request
  of that id was bound to the candidate the result names, and the registry already points at that candidate.
\<close>

theorem RequestDecide_bound:
  assumes "codec_ok cg rr_format" "codec_exact cr"
    and "\<And>d. untouched (up d)" "\<forall>ask\<in>set_option prompt. \<forall>d. untouched (ask d)"
    and "file_at s (below (ResultsDir (rr_id rec)) (i @ json_suffix)) = None"
    and "RequestDecide cg c cr rec time prompt up req s = (x, s')"
    and "file_at s' (below (ResultsDir (rr_id rec)) (i @ json_suffix)) = Some b"
      "c_decode cr b = Inr r" "rs_status r = StatusApproved"
  shows "\<exists>p \<in> stored c (pendingDir (rr_id rec)) (file_at s).
    pd_request_id p = i \<and> rs_candidate r = Some (pd_candidate p) \<and>
    approved_for cg (rr_id rec) (pd_candidate p) (file_at s')"
proof -
  have "approval_bound cg cr (rr_id rec) i (stored c (pendingDir (rr_id rec)) (file_at s)) (file_at s')"
    using tripleD [OF triple_RequestDecide [where up = up and rec = rec and time = time and req = req and i = i and c = c and
        S = "stored c (pendingDir (rr_id rec)) (file_at s)", OF assms(1,2) _ assms(4)], of s] assms(3,5,6)
    by (cases x) auto
  then show ?thesis using assms(7-9) by (auto simp: approval_bound_def)
qed


section \<open>What a poll leaves bound\<close>

definition bound :: "pending_request codec \<Rightarrow> string \<Rightarrow> (hpath \<Rightarrow> string option) \<Rightarrow> string \<Rightarrow> pending_request option" where
  "bound c project F i =
     (case F (below (pendingDir project) (i @ json_suffix)) of
        None \<Rightarrow> None
      | Some b \<Rightarrow> (case c_decode c b of Inl _ \<Rightarrow> None | Inr p \<Rightarrow> Some p))"

text \<open>The engine names every pending file by the id of the request in it.\<close>

definition well_named :: "pending_request codec \<Rightarrow> string \<Rightarrow> (hpath \<Rightarrow> string option) \<Rightarrow> bool" where
  "well_named c project F \<longleftrightarrow>
     (\<forall>n b p. has_suffix n json_suffix \<longrightarrow> F (below (pendingDir project) n) = Some b \<longrightarrow> c_decode c b = Inr p \<longrightarrow>
        n = pd_request_id p @ json_suffix)"

lemma bound_iff:
  assumes "well_named c project F"
  shows "bound c project F i = Some p \<longleftrightarrow> p \<in> stored c (pendingDir project) F \<and> pd_request_id p = i"
proof
  assume "bound c project F i = Some p"
  then obtain b where b: "F (below (pendingDir project) (i @ json_suffix)) = Some b" "c_decode c b = Inr p"
    by (auto simp: bound_def split: option.splits sum.splits)
  then have "i @ json_suffix = pd_request_id p @ json_suffix"
    using assms has_suffix_append [of i json_suffix] unfolding well_named_def by blast
  then have "i = pd_request_id p" by simp
  moreover have "p \<in> stored c (pendingDir project) F" unfolding stored_def using b has_suffix_append by blast
  ultimately show "p \<in> stored c (pendingDir project) F \<and> pd_request_id p = i" by simp
next
  assume "p \<in> stored c (pendingDir project) F \<and> pd_request_id p = i"
  then obtain n b where "has_suffix n json_suffix" "F (below (pendingDir project) n) = Some b" "c_decode c b = Inr p" "pd_request_id p = i"
    by (auto simp: stored_def)
  moreover from this have "n = i @ json_suffix" using assms by (auto simp: well_named_def)
  ultimately show "bound c project F i = Some p" by (simp add: bound_def)
qed

lemma index_pending_bound:
  assumes "well_named c project F" "set ps = stored c (pendingDir project) F"
  shows "index_pending ps = bound c project F"
proof
  fix i
  let ?m = "rev (map (\<lambda>p. (pd_request_id p, p)) ps)"
  show "index_pending ps i = bound c project F i"
  proof (cases "bound c project F i")
    case None
    then have "i \<notin> fst ` set ?m" using bound_iff [OF assms(1), of i] assms(2) by force
    then show ?thesis unfolding index_pending_def None by (simp add: map_of_eq_None_iff)
  next
    case (Some p)
    have "(i, p) \<in> set ?m" using Some bound_iff [OF assms(1)] assms(2) by force
    then obtain q where q: "map_of ?m i = Some q" by (metis weak_map_of_SomeI)
    then have "q \<in> set ps" "pd_request_id q = i" by (auto dest!: map_of_SomeD)
    then have "q = p" using Some bound_iff [OF assms(1), of i q] assms(2) by simp
    then show ?thesis unfolding index_pending_def Some using q by simp
  qed
qed

definition knows :: "pending_request codec \<Rightarrow> string \<Rightarrow> (string \<rightharpoonup> pending_request) \<Rightarrow> (hpath \<Rightarrow> string option) \<Rightarrow> bool" where
  "knows c project known F \<longleftrightarrow> well_named c project F \<and> known = bound c project F"

lemma about_knows: "about_records (knows c project known)"
  unfolding about_records_def
proof (intro allI impI)
  fix F G :: "hpath \<Rightarrow> string option"
  assume eq: "\<forall>p. json_place p \<longrightarrow> F p = G p"
  have at: "has_suffix n json_suffix \<Longrightarrow> F (below (pendingDir project) n) = G (below (pendingDir project) n)" for n
    using eq json_place_below [OF record_dirs(1)] by blast
  then have "bound c project F = bound c project G" by (simp add: bound_def fun_eq_iff)
  moreover have "well_named c project F = well_named c project G" unfolding well_named_def using at by auto
  ultimately show "knows c project known F = knows c project known G" by (simp add: knows_def)
qed

lemma knows_write:
  assumes "knows c project known F" "c_decode c b = Inr p"
  shows "knows c project (known(pd_request_id p \<mapsto> p)) (F(below (pendingDir project) (pd_request_id p @ json_suffix) \<mapsto> b))"
  using assms by (auto simp: knows_def well_named_def bound_def broker_places fun_eq_iff)

lemma triple_WritePending:
  assumes c: "codec_exact c" and f: "pd_format p = recordFormat"
  shows "triple (\<lambda>s. knows c project known (file_at s)) (WritePending c project p)
    (\<lambda>_ s. knows c project (known(pd_request_id p \<mapsto> p)) (file_at s)) (\<lambda>_ _. True) (\<lambda>_. True)"
  unfolding WritePending_def
proof (rule triple_bind [OF triple_of [where Q = "\<lambda>b s. MarshalRecord c (p\<lparr>pd_format := recordFormat\<rparr>) = Inr b \<and> knows c project known (file_at s)"]],
    simp, simp, rule triple_pure)
  fix b assume "MarshalRecord c (p\<lparr>pd_format := recordFormat\<rparr>) = Inr b"
  moreover have "p\<lparr>pd_format := recordFormat\<rparr> = p" using f by simp
  ultimately have b: "c_decode c b = Inr p" using c by (simp add: codec_exact_def)
  show "triple (\<lambda>s. knows c project known (file_at s))
      (WriteFileAtomic (pendingDir project) (pd_request_id p @ json_suffix) b 0x180)
      (\<lambda>_ s. knows c project (known(pd_request_id p \<mapsto> p)) (file_at s)) (\<lambda>_ _. True) (\<lambda>_. True)"
    by (rule triple_post [OF triple_write_record [OF about_knows about_knows
        record_dirs(1) [unfolded record_dir_def, rule_format] knows_write [OF _ b]]]) (simp_all del: fun_upd_apply)
qed

definition handled :: "string set \<Rightarrow> raw_request \<Rightarrow> (string \<rightharpoonup> pending_request) \<Rightarrow> (string \<times> error) list \<Rightarrow> bool" where
  "handled completed raw known failed \<longleftrightarrow>
     \<not> needs_binding known completed raw \<or> rq_id (raw_request raw) \<in> fst ` set failed"

abbreviation raw_id :: "raw_request \<Rightarrow> string" where
  "raw_id raw \<equiv> rq_id (raw_request raw)"

text \<open>After adopting raws from what was known: each of them is handled, the rest is as it was.\<close>

definition settled ::
  "pending_request codec \<Rightarrow> string \<Rightarrow> string set \<Rightarrow> raw_request list \<Rightarrow> (string \<rightharpoonup> pending_request) \<Rightarrow> (string \<times> error) list \<Rightarrow>
   adoption \<Rightarrow> (hpath \<Rightarrow> string option) \<Rightarrow> bool" where
  "settled c project completed raws known failed y F \<longleftrightarrow>
     (case y of (k, f, _) \<Rightarrow>
        knows c project k F \<and> (\<forall>raw\<in>set raws. handled completed raw k f) \<and> set failed \<subseteq> set f \<and>
        (\<forall>j. j \<notin> raw_id ` set raws \<longrightarrow> k j = known j))"

lemma triple_adopt:
  assumes c: "codec_exact c" and p: "untouched prepare"
  shows "triple (\<lambda>s. knows c project known (file_at s)) (adopt c project time prepare completed raw (known, failed, ad))
    (\<lambda>y s. settled c project completed [raw] known failed y (file_at s)) (\<lambda>_ _. True) (\<lambda>_. True)"
    (is "triple ?P _ ?Q _ _")
proof (cases "needs_binding known completed raw")
  case False
  then show ?thesis by (auto simp: adopt_def handled_def settled_def intro!: triple_ret)
next
  case True
  have prep: "triple ?P (io_try prepare) (\<lambda>_. ?P) (\<lambda>_ _. True) (\<lambda>_. True)"
    by (rule triple_try, rule triple_post [OF keeps_untouched [OF p about_knows]]) simp_all
  have good: "triple ?P (io_then (WritePending c project (bind_request project time raw cand))
        (io_ret (known(raw_id raw \<mapsto> bind_request project time raw cand), failed, True))) ?Q (\<lambda>_ _. True) (\<lambda>_. True)" for cand
    by (rule triple_bind [OF triple_WritePending [OF c]])
      (auto intro!: triple_ret simp: bind_request_def handled_def needs_binding_def settled_def)
  have "pd_request_id (bind_request project time raw cand) = raw_id raw" for cand by (simp add: bind_request_def)
  moreover have "triple ?P (io_ret (known, failed @ [(raw_id raw, e)], ad)) ?Q (\<lambda>_ _. True) (\<lambda>_. True)" for e
    by (rule triple_ret) (auto simp: handled_def settled_def)
  ultimately have "triple ?P (io_bind (io_try prepare) (\<lambda>r.
          case r of
            Inl e \<Rightarrow> io_ret (known, failed @ [(raw_id raw, e)], ad)
          | Inr cand \<Rightarrow>
              let p = bind_request project time raw cand
              in io_then (WritePending c project p) (io_ret (known(pd_request_id p \<mapsto> p), failed, True)))) ?Q (\<lambda>_ _. True) (\<lambda>_. True)"
    by (intro triple_bind [OF prep] triple_sum) (simp_all only: Let_def good)
  then show ?thesis unfolding adopt_def using True by simp
qed


lemma handled_later:
  "handled completed raw k f \<Longrightarrow> k' (raw_id raw) = k (raw_id raw) \<Longrightarrow> set f \<subseteq> set f' \<Longrightarrow> handled completed raw k' f'"
  by (auto simp: handled_def needs_binding_def Let_def)

lemma settled_step:
  assumes "settled c project completed [raw] known failed (k, f, a) F" "settled c project completed raws k f y G"
    and "raw_id raw \<notin> raw_id ` set raws"
  shows "settled c project completed (raw # raws) known failed y G"
proof -
  obtain k' f' a' where y: "y = (k', f', a')" by (cases y)
  have one: "handled completed raw k f" "set failed \<subseteq> set f" "\<And>j. j \<noteq> raw_id raw \<Longrightarrow> k j = known j"
    using assms(1) by (simp_all add: settled_def)
  have all: "knows c project k' G" "\<forall>r\<in>set raws. handled completed r k' f'" "set f \<subseteq> set f'"
    "\<And>j. j \<notin> raw_id ` set raws \<Longrightarrow> k' j = k j"
    using assms(2) by (simp_all add: settled_def y)
  have "handled completed raw k' f'" using one(1) all(4) [OF assms(3)] all(3) by (rule handled_later)
  moreover have "k' j = known j" if "j \<notin> raw_id ` set (raw # raws)" for j
    using that one(3) [of j] all(4) [of j] by simp
  ultimately show ?thesis using all one(2) by (simp add: settled_def y subset_trans [OF one(2) all(3)])
qed

lemma triple_adopt_all:
  assumes c: "codec_exact c" and p: "untouched prepare" and d: "distinct (map raw_id raws)"
  shows "triple (\<lambda>s. knows c project known (file_at s)) (io_fold (adopt c project time prepare completed) raws (known, failed, ad))
    (\<lambda>y s. settled c project completed raws known failed y (file_at s)) (\<lambda>_ _. True) (\<lambda>_. True)"
  using d
proof (induction raws arbitrary: known failed ad)
  case Nil
  then show ?case by (auto intro: triple_ret simp: settled_def)
next
  case (Cons raw raws)
  have d: "distinct (map raw_id raws)" "raw_id raw \<notin> raw_id ` set raws" using Cons.prems by simp_all
  have rest: "triple (\<lambda>s. settled c project completed [raw] known failed y (file_at s))
      (io_fold (adopt c project time prepare completed) raws y)
      (\<lambda>y s. settled c project completed (raw # raws) known failed y (file_at s)) (\<lambda>_ _. True) (\<lambda>_. True)" for y
  proof -
    obtain k f a where y: "y = (k, f, a)" by (cases y)
    let ?A = "\<exists>F. settled c project completed [raw] known failed (k, f, a) F"
    have go: "triple (\<lambda>s. knows c project k (file_at s)) (io_fold (adopt c project time prepare completed) raws (k, f, a))
      (\<lambda>y s. settled c project completed (raw # raws) known failed y (file_at s)) (\<lambda>_ _. True) (\<lambda>_. True)" if ?A
      by (rule triple_post [OF Cons.IH [OF d(1)]]) (use that settled_step d(2) in \<open>blast | simp\<close>)+
    show ?thesis
      unfolding y
      by (rule triple_pre [of "\<lambda>s. ?A \<and> knows c project k (file_at s)"], rule triple_pure, erule go) (auto simp: settled_def)
  qed
  show ?case
    unfolding io_fold.simps by (rule triple_bind [OF triple_adopt [OF c p] rest])
qed

lemma stored_iff_knows:
  "knows c project k F \<Longrightarrow> p \<in> stored c (pendingDir project) F \<longleftrightarrow> k (pd_request_id p) = Some p"
  using bound_iff [of c project F "pd_request_id p" p] by (auto simp: knows_def)

lemma triple_RequestList:
  assumes c: "codec_exact c" and p: "untouched prepare" and d: "distinct (map raw_id raws)"
  shows "triple (\<lambda>s. knows c project known (file_at s) \<and> stored cr (ResultsDir project) (file_at s) = R)
    (RequestList c cr project time prepare (raws, problems))
    (\<lambda>out s. knows c project (index_pending (rl_pending out)) (file_at s) \<and>
       set (rl_pending out) = stored c (pendingDir project) (file_at s) \<and>
       (\<forall>raw\<in>set raws. handled (rs_request_id ` R) raw (index_pending (rl_pending out)) (rl_failed out)) \<and>
       (\<forall>j. j \<notin> raw_id ` set raws \<longrightarrow> index_pending (rl_pending out) j = known j))
    (\<lambda>_ _. True) (\<lambda>_. True)"
    (is "triple ?I _ ?Q _ _")
proof -
  let ?K = "\<lambda>k s. knows c project k (file_at s)"
  have weak: "triple ?I m (\<lambda>_. ?I) (\<lambda>_ _. True) (\<lambda>_. True)" if "keeps ?I m" for m :: "'x hio"
    by (rule triple_post [OF that]) simp_all
  have hI: "hassert ?I" by (rule hassert_file_at)
  have pend: "triple ?I (ListPending c project) (\<lambda>ps s. index_pending ps = known \<and> ?I s) (\<lambda>_ _. True) (\<lambda>_. True)"
    unfolding ListPending_def
    by (rule triple_post [OF triple_readAll [OF hI]]) (auto dest!: index_pending_bound simp: knows_def)
  have res: "triple ?I (ListResults cr project) (\<lambda>rs s. set rs = R \<and> ?I s) (\<lambda>_ _. True) (\<lambda>_. True)"
    unfolding ListResults_def by (rule triple_post [OF triple_readAll [OF hI]]) simp_all
  have fin: "triple (?K k) (ListPending c project)
      (\<lambda>ps s. ?K k s \<and> index_pending ps = k \<and> set ps = stored c (pendingDir project) (file_at s)) (\<lambda>_ _. True) (\<lambda>_. True)" for k
    unfolding ListPending_def
    by (rule triple_post [OF triple_readAll [OF hassert_file_at]]) (auto dest: index_pending_bound simp: knows_def)
  let ?S = "settled c project (rs_request_id ` R) raws known []"
  have tail: "triple (\<lambda>s. ?S y (file_at s))
      ((\<lambda>(known, failed, adopted). io_bind (ListPending c project) (\<lambda>final.
         io_ret \<lparr>rl_pending = final, rl_problems = problems, rl_failed = failed, rl_adopted = adopted\<rparr>)) y)
      ?Q (\<lambda>_ _. True) (\<lambda>_. True)" for y
  proof -
    obtain k f a where y: "y = (k, f, a)" by (cases y)
    let ?A = "(\<forall>raw\<in>set raws. handled (rs_request_id ` R) raw k f) \<and> (\<forall>j. j \<notin> raw_id ` set raws \<longrightarrow> k j = known j)"
    have ret: "triple (\<lambda>s. ?K k s \<and> index_pending ps = k \<and> set ps = stored c (pendingDir project) (file_at s))
        (io_ret \<lparr>rl_pending = ps, rl_problems = problems, rl_failed = f, rl_adopted = a\<rparr>) ?Q (\<lambda>_ _. True) (\<lambda>_. True)"
      if ?A for ps
      using that by (intro triple_ret) auto
    show ?thesis
      unfolding y prod.case
      by (rule triple_pre [of "\<lambda>s. ?A \<and> ?K k s"], rule triple_pure, rule triple_bind [OF fin ret]) (auto simp: settled_def)
  qed
  have body: "triple ?I (io_bind (io_fold (adopt c project time prepare (rs_request_id ` R)) raws (known, [], False))
      (\<lambda>(known, failed, adopted). io_bind (ListPending c project) (\<lambda>final.
         io_ret \<lparr>rl_pending = final, rl_problems = problems, rl_failed = failed, rl_adopted = adopted\<rparr>)))
      ?Q (\<lambda>_ _. True) (\<lambda>_. True)"
    by (rule triple_bind [OF triple_pre [OF triple_adopt_all [OF c p d]] tail]) simp
  have step: "keeps (?Q x) os_step" for x by (intro keeps_intros hassert_file_at)
  have deferred: "triple ?I (io_defer os_step m) ?Q (\<lambda>_ _. True) (\<lambda>_. True)"
    if "triple ?I m ?Q (\<lambda>_ _. True) (\<lambda>_. True)" for m
  proof (rule triple_defer [OF that])
    show "triple (?Q x) os_step (\<lambda>_. ?Q x) (\<lambda>_. ?Q x) (\<lambda>_. True)" for x by (rule triple_post [OF step]) simp_all
    show "triple (\<lambda>_. True) os_step (\<lambda>_ _. True) (\<lambda>_ _. True) (\<lambda>_. True)" by (intro keeps_intros hassert_intros)
  qed
  have os: "triple ?I os_step (\<lambda>_. ?I) (\<lambda>_ _. True) (\<lambda>_. True)" by (rule weak) (intro keeps_intros hI)
  show ?thesis
    unfolding RequestList_def
    by (rule triple_bind [OF weak [OF keeps_NewStore]], rule triple_bind [OF pend], rule triple_pure, rule triple_bind [OF res],
        rule triple_pure, rule triple_bind [OF os], rule deferred) (use body in \<open>simp add: image_set [symmetric]\<close>)
qed



text \<open>Two files that claim one id take turns: each poll finds the other's content bound and binds again.\<close>

lemma duplicate_ids_rebind:
  assumes "raw_id a = raw_id b" "raw_digest a \<noteq> raw_digest b"
  shows "needs_binding (known(raw_id b \<mapsto> bind_request project time b cand)) completed a"
  using assms by (simp add: needs_binding_def bind_request_def)

section \<open>An instance\<close>

text \<open>A codec that knows a fixed table of records.\<close>

definition table_codec :: "int \<Rightarrow> (string \<times> 'r) list \<Rightarrow> 'r codec" where
  "table_codec fmt table =
     \<lparr>c_marshal = (\<lambda>r. case List.find (\<lambda>(b, x). x = r) table of None \<Rightarrow> Inl (Plain ''unknown record'' []) | Some (b, _) \<Rightarrow> Inr b),
      c_probe = (\<lambda>_. Inr fmt),
      c_decode = (\<lambda>b. case map_of (map (\<lambda>(b, x). (b @ [CHR 0x0A], x)) table) b of
        None \<Rightarrow> Inl (Plain ''unknown bytes'' []) | Some x \<Rightarrow> Inr x)\<rparr>"

lemma table_codec_marshal:
  assumes "distinct (map fst table)" "MarshalRecord (table_codec fmt table) r = Inr b"
  shows "c_decode (table_codec fmt table) b = Inr r \<and> r \<in> snd ` set table"
proof -
  obtain k x where k: "List.find (\<lambda>(b, x). x = r) table = Some (k, x)" "b = k @ [CHR 0x0A]"
    using assms(2) by (auto simp: MarshalRecord_def table_codec_def rbind_eq_Inr split: option.splits)
  then have kr: "(k, r) \<in> set table" by (auto simp: find_Some_iff in_set_conv_nth)
  have "distinct (map fst (map (\<lambda>(b, x). (b @ [CHR 0x0A], x)) table))"
    using assms(1) by (simp add: distinct_map inj_on_def split_def)
  moreover have "(b, r) \<in> set (map (\<lambda>(b, x). (b @ [CHR 0x0A], x)) table)" using kr k(2) by force
  ultimately have "map_of (map (\<lambda>(b, x). (b @ [CHR 0x0A], x)) table) b = Some r" by (rule map_of_is_SomeI)
  then show ?thesis using kr by (force simp: table_codec_def)
qed

lemma table_codec_exact: "distinct (map fst table) \<Longrightarrow> codec_exact (table_codec fmt table)"
  unfolding codec_exact_def by (intro allI impI) (rule table_codec_marshal [THEN conjunct1])

lemma table_codec_ok:
  assumes "distinct (map fst table)" "\<forall>(b, x) \<in> set table. f x = fmt"
  shows "codec_ok (table_codec fmt table) f"
  unfolding codec_ok_def
proof (intro allI impI)
  fix r bytes lbl assume m: "MarshalRecord (table_codec fmt table) r = Inr bytes"
  from table_codec_marshal [OF assms(1) m]
  have "c_decode (table_codec fmt table) bytes = Inr r" "f r = fmt" using assms(2) by auto
  moreover have "c_probe (table_codec fmt table) bytes = Inr fmt" by (simp add: table_codec_def)
  ultimately show "DecodeRecord (table_codec fmt table) bytes lbl (f r) = Inr r" by (simp add: DecodeRecord_def)
qed

definition demo_raw :: raw_request where
  "demo_raw = \<lparr>raw_request = \<lparr>rq_format = 1, rq_id = ''r1'', rq_kind = RebuildKind, rq_reason = ''port'', rq_summary = ''add''\<rparr>,
     raw_digest = demo_digest\<rparr>"

definition demo_pending :: pending_request where
  "demo_pending = bind_request ''p'' 3 demo_raw demo_digest"

definition demo_approved :: request_result where
  "demo_approved = (new_result ''p'' demo_pending 5)\<lparr>rs_status := StatusApproved\<rparr>"

definition demo_registry_codec :: "registry_record codec" where
  "demo_registry_codec = table_codec 1 [(''A'', demo_record), (''B'', demo_updated\<lparr>rr_approved := Some demo_digest\<rparr>)]"

definition demo_pending_codec :: "pending_request codec" where
  "demo_pending_codec = table_codec 1 [(''P'', demo_pending)]"

definition demo_result_codec :: "request_result codec" where
  "demo_result_codec = table_codec 1 [(''R'', demo_approved)]"

definition demo_broker :: "(string \<times> node) list \<Rightarrow> host" where
  "demo_broker pending = demo_registry\<lparr>tree := (tree demo_registry)(BrokerDir \<mapsto>
     Directory [(''p'', Directory [(''pending'', Directory pending), (''results'', Directory [])])])\<rparr>"

definition demo_decide :: "(request_result \<times> unit option) res \<times> host" where
  "demo_decide = RequestDecide demo_registry_codec demo_pending_codec demo_result_codec demo_record 5 None (\<lambda>_. io_ret ())
     \<lparr>dr_id = ''r1'', dr_candidate = zero_digest, dr_approve = True, dr_message = '''', dr_yes = True\<rparr>
     (demo_broker [(''r1.json'', RegularFile 0x180 (''P'' @ [CHR 0x0A]))])"

lemma untouched_ret: "untouched (io_ret x)"
  by (simp add: untouched_def io_ret_def)

lemma demo_registry_codec_ok: "codec_ok demo_registry_codec rr_format"
  unfolding demo_registry_codec_def by (rule table_codec_ok) (simp_all add: demo_records)

lemma demo_decided: "file_at (snd demo_decide) (below (ResultsDir (rr_id demo_record)) (''r1'' @ json_suffix)) = Some (''R'' @ [CHR 0x0A])"
  by code_simp

theorem RequestDecide_bound_witness:
  "\<exists>p \<in> stored demo_pending_codec (pendingDir (rr_id demo_record)) (file_at (demo_broker [(''r1.json'', RegularFile 0x180 (''P'' @ [CHR 0x0A]))])).
     pd_request_id p = ''r1'' \<and> rs_candidate demo_approved = Some (pd_candidate p) \<and>
     approved_for demo_registry_codec (rr_id demo_record) (pd_candidate p) (file_at (snd demo_decide))"
proof (rule RequestDecide_bound)
  show "codec_ok demo_registry_codec rr_format" by (rule demo_registry_codec_ok)
  show "codec_exact demo_result_codec" unfolding demo_result_codec_def by (rule table_codec_exact) simp
  show "untouched ((\<lambda>_. io_ret ()) d)" for d :: digest by (rule untouched_ret)
  show "\<forall>ask\<in>set_option (None :: (digest \<Rightarrow> bool hio) option). \<forall>d. untouched (ask d)" by simp
  show "RequestDecide demo_registry_codec demo_pending_codec demo_result_codec demo_record 5 None (\<lambda>_. io_ret ())
     \<lparr>dr_id = ''r1'', dr_candidate = zero_digest, dr_approve = True, dr_message = '''', dr_yes = True\<rparr>
     (demo_broker [(''r1.json'', RegularFile 0x180 (''P'' @ [CHR 0x0A]))]) = (fst demo_decide, snd demo_decide)"
    by (simp add: demo_decide_def)
  show "file_at (snd demo_decide) (below (ResultsDir (rr_id demo_record)) (''r1'' @ json_suffix)) = Some (''R'' @ [CHR 0x0A])"
    by (rule demo_decided)
  show "file_at (demo_broker [(''r1.json'', RegularFile 0x180 (''P'' @ [CHR 0x0A]))]) (below (ResultsDir (rr_id demo_record)) (''r1'' @ json_suffix)) = None"
    by code_simp
  show "c_decode demo_result_codec (''R'' @ [CHR 0x0A]) = Inr demo_approved" by code_simp
  show "rs_status demo_approved = StatusApproved" by (simp add: demo_approved_def)
qed

definition demo_list :: "request_list res \<times> host" where
  "demo_list = RequestList demo_pending_codec demo_result_codec ''p'' 3 (io_ret demo_digest) ([demo_raw], []) (demo_broker [])"

definition demo_listed :: request_list where
  "demo_listed = \<lparr>rl_pending = [demo_pending], rl_problems = [], rl_failed = [], rl_adopted = True\<rparr>"


end
