(* ===== verification/Gc.thy ===== *)
theory Gc
  imports Docker Requests
begin

text \<open>
  Garbage collection (\<^verbatim>\<open>internal/app/gc.go\<close>): the roots, the removal of objects, orphan records, staging leftovers,
  stale binaries and the state of projects that are gone. The daemon's answers, the clock and the target
  of the current binary's symlink are arguments. The lemmas show that nothing referenced, young or leased is ever
  removed, whatever fails, that doubt about a live container stops the collection before it touches
  anything, and that a dry run removes nothing.
\<close>

section \<open>Roots (gcRoots)\<close>

definition BuilderRole :: string where "BuilderRole = ''dev-builder''"

record gc_roots =
  gr_registered :: "string set"
  gr_live :: "string set"
  gr_artifacts :: "digest set"
  gr_candidates :: "digest set"
  gr_snapshots :: "digest set"

definition no_roots :: gc_roots where
  "no_roots = \<lparr>gr_registered = {}, gr_live = {}, gr_artifacts = {}, gr_candidates = {}, gr_snapshots = {}\<rparr>"

text \<open>One live container: its project, its candidate (collected separately as well) and its artifact.\<close>

definition root_container :: "ctr \<Rightarrow> gc_roots \<times> digest list \<Rightarrow> error + gc_roots \<times> digest list" where
  "root_container c acc =
     (case acc of (roots, live) \<Rightarrow>
        if label (clabels c) RoleLabel = BuilderRole then Inr acc
        else case ParseProjectID (label (clabels c) ProjectLabel) of
          Inl _ \<Rightarrow> Inl (Class ErrConflict
            ''%w: managed container %s has a missing or malformed project label; refusing to collect through it'' [cname c])
        | Inr project \<Rightarrow>
            (case ParseDigest (label (clabels c) CandidateLabel) of
               Inl _ \<Rightarrow> Inl (Class ErrConflict
                 ''%w: managed container %s has a missing or malformed candidate label; refusing to collect through it'' [cname c])
             | Inr cd \<Rightarrow>
                 let roots1 = roots\<lparr>gr_live := insert project (gr_live roots), gr_candidates := insert cd (gr_candidates roots)\<rparr>;
                     live1 = (if cd \<in> set live then live else live @ [cd])
                 in (case clabels c ArtifactLabel of
                       None \<Rightarrow> Inr (roots1, live1)
                     | Some raw \<Rightarrow>
                         (case ParseDigest raw of
                            Inl _ \<Rightarrow> Inl (Class ErrConflict
                              ''%w: managed container %s has a malformed artifact label; refusing to collect through it'' [cname c])
                          | Inr ad \<Rightarrow> Inr (roots1\<lparr>gr_artifacts := insert ad (gr_artifacts roots1)\<rparr>, live1)))))"

definition root_record :: "pending_request codec \<Rightarrow> registry_record \<Rightarrow> gc_roots \<Rightarrow> gc_roots hio" where
  "root_record cp rec roots =
     (let roots1 = roots\<lparr>gr_registered := insert (rr_id rec) (gr_registered roots),
        gr_artifacts := (if Digest_IsZero (rr_artifact rec) then gr_artifacts roots else insert (rr_artifact rec) (gr_artifacts roots)),
        gr_candidates := (case rr_approved rec of None \<Rightarrow> gr_candidates roots | Some d \<Rightarrow> insert d (gr_candidates roots))\<rparr>
      in io_then (NewStore (rr_id rec))
           (io_bind (ListPending cp (rr_id rec)) (\<lambda>pending.
             io_ret (roots1\<lparr>gr_candidates := gr_candidates roots1 \<union> set (map pd_candidate pending)\<rparr>))))"

text \<open>The newest release is what `dev off` hands back to.\<close>

definition root_newest :: "artifact_record list \<Rightarrow> gc_roots \<Rightarrow> gc_roots" where
  "root_newest arts roots =
     (case List.find (\<lambda>r. pv_source (ac_release r) \<noteq> ''dev-build'') arts of
        None \<Rightarrow> roots
      | Some r \<Rightarrow> roots\<lparr>gr_artifacts := insert (ac_digest r) (gr_artifacts roots)\<rparr>)"

definition root_snapshot :: "candidate_record \<Rightarrow> gc_roots \<Rightarrow> gc_roots" where
  "root_snapshot r roots =
     (if Digest_IsZero (cd_snapshot r) then roots else roots\<lparr>gr_snapshots := insert (cd_snapshot r) (gr_snapshots roots)\<rparr>)"

definition root_snapshots :: "candidate_record list \<Rightarrow> gc_roots \<Rightarrow> gc_roots" where
  "root_snapshots cands roots = fold root_snapshot (filter (\<lambda>r. cd_digest r \<in> gr_candidates roots) cands) roots"

definition root_missing :: "candidate_record codec \<Rightarrow> digest \<Rightarrow> gc_roots \<Rightarrow> gc_roots hio" where
  "root_missing cc d roots =
     io_bind (io_try (ReadCandidateRecord cc d)) (\<lambda>r.
       case r of
         Inl _ \<Rightarrow> io_fail (Class ErrConflict
           ''%w: candidate %s is referenced by a live container but its record is unreadable (%v); refusing to collect through it''
           [Digest_String d])
       | Inr rec \<Rightarrow> io_ret (root_snapshot rec roots))"

definition gcRoots ::
  "artifact_record codec \<Rightarrow> candidate_record codec \<Rightarrow> registry_record codec \<Rightarrow> pending_request codec \<Rightarrow> error + ctr list \<Rightarrow>
   gc_roots hio" where
  "gcRoots ca cc cg cp live =
     io_bind (io_of live) (\<lambda>cs.
     io_bind (io_of (rfold root_container cs (no_roots, []))) (\<lambda>(roots0, liveCandidates).
     io_bind (reg_list cg) (\<lambda>recs.
     io_bind (io_fold (root_record cp) recs roots0) (\<lambda>roots1.
     io_bind (ListArtifactRecords ca) (\<lambda>arts.
     io_bind (ListCandidateRecords cc) (\<lambda>cands.
       io_fold (root_missing cc) (filter (\<lambda>d. d \<notin> set (map cd_digest cands)) liveCandidates)
         (root_snapshots cands (root_newest arts roots1))))))))"

section \<open>Collection (GC)\<close>

record gc_request =
  gq_dry_run :: bool
  gq_min_age :: int

record gc_entry =
  ge_kind :: string
  ge_id :: string
  ge_bytes :: nat
  ge_reason :: string

record gc_result =
  gs_removed :: "gc_entry list"
  gs_skipped :: "gc_entry list"
  gs_staging_entries :: int
  gs_staging_bytes :: int
  gs_total_bytes :: int

definition add_removed :: "gc_entry \<Rightarrow> gc_result \<Rightarrow> gc_result" where
  "add_removed e r = r\<lparr>gs_removed := gs_removed r @ [e], gs_total_bytes := gs_total_bytes r + int (ge_bytes e)\<rparr>"

definition add_skipped :: "gc_entry \<Rightarrow> gc_result \<Rightarrow> gc_result" where
  "add_skipped e r = r\<lparr>gs_skipped := gs_skipped r @ [e]\<rparr>"

definition collect_one :: "gc_request \<Rightarrow> int \<Rightarrow> object_kind \<Rightarrow> digest set \<Rightarrow> digest \<Rightarrow> gc_result \<Rightarrow> gc_result hio" where
  "collect_one req cutoff kind keep d acc =
     (if d \<in> keep then io_ret acc
      else io_bind (io_try (ObjectStat kind d)) (\<lambda>r.
        case r of
          Inl _ \<Rightarrow> io_ret acc
        | Inr st \<Rightarrow>
            if st_mtime st > cutoff then io_ret acc
            else let entry = \<lparr>ge_kind = kind_text kind, ge_id = Digest_String d, ge_bytes = st_bytes st, ge_reason = ''''\<rparr>
              in if gq_dry_run req then io_ret (add_removed entry acc)
                 else io_bind (io_try (RemoveObject kind d)) (\<lambda>x.
                   case x of
                     Inr _ \<Rightarrow> io_ret (add_removed entry acc)
                   | Inl e \<Rightarrow>
                       if errors_is e ErrConflict then io_ret (add_skipped (entry\<lparr>ge_reason := ''in use''\<rparr>) acc)
                       else io_fail e)))"

definition collect :: "gc_request \<Rightarrow> int \<Rightarrow> object_kind \<Rightarrow> digest set \<Rightarrow> gc_result \<Rightarrow> gc_result hio" where
  "collect req cutoff kind keep acc =
     io_bind (ListObjects kind) (\<lambda>ds. io_fold (collect_one req cutoff kind keep) ds acc)"

definition collect_orphan :: "gc_request \<Rightarrow> object_kind \<times> digest \<times> bool \<Rightarrow> gc_result \<Rightarrow> gc_result hio" where
  "collect_orphan req r acc =
     (case r of (kind, d, keep) \<Rightarrow>
        if keep then io_ret acc
        else io_bind (io_try (Exists kind d)) (\<lambda>x.
          case x of
            Inr False \<Rightarrow>
              io_then (if gq_dry_run req then io_ret () else RemoveObject kind d)
                (io_ret (acc\<lparr>gs_removed := gs_removed acc @ [\<lparr>ge_kind = ''record'', ge_id = kind_text kind @ '' '' @ Digest_String d,
                   ge_bytes = 0, ge_reason = ''orphan record''\<rparr>]\<rparr>))
          | _ \<Rightarrow> io_ret acc))"

definition gcOrphanRecords ::
  "artifact_record codec \<Rightarrow> candidate_record codec \<Rightarrow> gc_request \<Rightarrow> gc_roots \<Rightarrow> gc_result \<Rightarrow> gc_result hio" where
  "gcOrphanRecords ca cc req roots acc =
     io_bind (ListArtifactRecords ca) (\<lambda>arts.
     io_bind (ListCandidateRecords cc) (\<lambda>cands.
       io_fold (collect_orphan req)
         (map (\<lambda>r. (ArtifactObject, ac_digest r, ac_digest r \<in> gr_artifacts roots)) arts @
          map (\<lambda>r. (CandidateObject, cd_digest r, cd_digest r \<in> gr_candidates roots)) cands) acc))"

text \<open>Removing a file that may be gone by now, and reporting it.\<close>

definition drop_file :: "gc_request \<Rightarrow> hpath \<Rightarrow> gc_entry \<Rightarrow> gc_result \<Rightarrow> gc_result hio" where
  "drop_file req p entry acc =
     io_then (if gq_dry_run req then io_ret () else io_then (os_Remove p) (io_ret ())) (io_ret (add_removed entry acc))"

text \<open>The size \<^verbatim>\<open>Lstat\<close> reports of a regular file; that of other entries is not modelled.\<close>

definition file_size :: "node \<Rightarrow> nat" where
  "file_size n = (case n of RegularFile _ b \<Rightarrow> length b | _ \<Rightarrow> 0)"

text \<open>\<open>current\<close> is what the symlink \<^verbatim>\<open>bin/vibe\<close> names, when it can be read.\<close>

definition kept_binaries :: "gc_roots \<Rightarrow> string option \<Rightarrow> string set" where
  "kept_binaries roots current = (\<lambda>d. ''vibe-'' @ Digest_Short d) ` gr_artifacts roots \<union> set_option current"

definition collect_binary :: "gc_request \<Rightarrow> string set \<Rightarrow> string \<Rightarrow> gc_result \<Rightarrow> gc_result hio" where
  "collect_binary req keep name acc =
     (if \<not> has_prefix name ''vibe-'' \<or> name \<in> keep then io_ret acc
      else io_bind (io_try (os_Lstat (Bin, [name]))) (\<lambda>r.
        case r of
          Inr (Some n) \<Rightarrow>
            io_then (if gq_dry_run req then io_ret ()
                     else io_bind (os_Remove (Bin, [name])) (\<lambda>found.
                       if found then io_ret () else io_fail (Plain ''no such file or directory'' [])))
              (io_ret (add_removed \<lparr>ge_kind = ''binary'', ge_id = name, ge_bytes = file_size n, ge_reason = ''''\<rparr> acc))
        | _ \<Rightarrow> io_ret acc))"

definition gcBinaries :: "gc_request \<Rightarrow> gc_roots \<Rightarrow> string option \<Rightarrow> gc_result \<Rightarrow> gc_result hio" where
  "gcBinaries req roots current acc =
     io_bind (os_ReadDir (Bin, [])) (\<lambda>r.
       case r of
         None \<Rightarrow> io_ret acc
       | Some es \<Rightarrow> io_fold (collect_binary req (kept_binaries roots current)) (map fst es) acc)"

definition replaceFileProject :: "string \<Rightarrow> string option" where
  "replaceFileProject name =
     (case cut_suffix name ''.json'' of
        (i, ok) \<Rightarrow>
          if ok \<and> \<not> has_prefix name ''.'' then Some i
          else (case cut_prefix name ''.'' of
            (rest, ok') \<Rightarrow>
              if ok' then (case index_of rest ''.json.tmp-'' of
                  Some k \<Rightarrow> if k > 0 then Some (take k rest) else None
                | None \<Rightarrow> None)
              else None))"

definition approval_project :: "string \<Rightarrow> string option" where
  "approval_project name =
     (if length name < 66 \<or> name ! (length name - 65) \<noteq> CHR ''-'' then None else Some (take (length name - 65) name))"

definition collect_broker :: "gc_request \<Rightarrow> gc_roots \<Rightarrow> string \<times> node \<Rightarrow> gc_result \<Rightarrow> gc_result hio" where
  "collect_broker req roots e acc =
     (case e of
        (name, Directory ch) \<Rightarrow>
          if name \<in> gr_registered roots then io_ret acc
          else io_then (if gq_dry_run req then io_ret () else os_RemoveAll (BrokerDir, [name]))
            (io_ret (add_removed \<lparr>ge_kind = ''broker'', ge_id = name, ge_bytes = treeBytes (Directory ch), ge_reason = ''''\<rparr> acc))
      | _ \<Rightarrow> io_ret acc)"

definition collect_approval :: "gc_request \<Rightarrow> gc_roots \<Rightarrow> string \<Rightarrow> gc_result \<Rightarrow> gc_result hio" where
  "collect_approval req roots name acc =
     (case approval_project name of
        None \<Rightarrow> io_ret acc
      | Some project \<Rightarrow>
          if project \<in> gr_registered roots then io_ret acc
          else drop_file req (Approvals, [name]) \<lparr>ge_kind = ''state'', ge_id = ''approval '' @ name, ge_bytes = 0, ge_reason = ''''\<rparr> acc)"

definition collect_dev :: "gc_request \<Rightarrow> gc_roots \<Rightarrow> string \<Rightarrow> gc_result \<Rightarrow> gc_result hio" where
  "collect_dev req roots file acc =
     (case cut_suffix file ''.json'' of
        (name, ok) \<Rightarrow>
          if \<not> ok \<or> name \<in> gr_registered roots then io_ret acc
          else drop_file req (DevRecords, [file]) \<lparr>ge_kind = ''state'', ge_id = ''dev-record '' @ name, ge_bytes = 0, ge_reason = ''''\<rparr> acc)"

definition collect_replace :: "gc_request \<Rightarrow> gc_roots \<Rightarrow> string \<Rightarrow> gc_result \<Rightarrow> gc_result hio" where
  "collect_replace req roots file acc =
     (case replaceFileProject file of
        None \<Rightarrow> io_ret acc
      | Some project \<Rightarrow>
          if project \<in> gr_registered roots then io_ret acc
          else let entry = \<lparr>ge_kind = ''state'', ge_id = ''replace-journal '' @ file, ge_bytes = 0, ge_reason = ''''\<rparr>
            in if project \<in> gr_live roots
               then io_ret (add_skipped (entry\<lparr>ge_reason := ''unregistered project still has managed containers''\<rparr>) acc)
               else drop_file req (ReplaceDir, [file]) entry acc)"

definition each_entry :: "hdir \<Rightarrow> (string \<times> node \<Rightarrow> gc_result \<Rightarrow> gc_result hio) \<Rightarrow> gc_result \<Rightarrow> gc_result hio" where
  "each_entry D f acc =
     io_bind (os_ReadDir (D, [])) (\<lambda>r. case r of None \<Rightarrow> io_ret acc | Some es \<Rightarrow> io_fold f es acc)"

definition gcProjectState :: "gc_request \<Rightarrow> gc_roots \<Rightarrow> gc_result \<Rightarrow> gc_result hio" where
  "gcProjectState req roots acc =
     io_bind (each_entry BrokerDir (collect_broker req roots) acc) (\<lambda>acc1.
     io_bind (each_entry Approvals (\<lambda>e. collect_approval req roots (fst e)) acc1) (\<lambda>acc2.
     io_bind (each_entry DevRecords (\<lambda>e. collect_dev req roots (fst e)) acc2) (\<lambda>acc3.
       each_entry ReplaceDir (\<lambda>e. collect_replace req roots (fst e)) acc3)))"

definition empty_result :: gc_result where
  "empty_result = \<lparr>gs_removed = [], gs_skipped = [], gs_staging_entries = 0, gs_staging_bytes = 0, gs_total_bytes = 0\<rparr>"

text \<open>What runs once the roots are known.\<close>

definition gc_sweep ::
  "artifact_record codec \<Rightarrow> candidate_record codec \<Rightarrow> gc_request \<Rightarrow> int \<Rightarrow> string option \<Rightarrow> gc_roots \<Rightarrow> gc_result hio" where
  "gc_sweep ca cc req cutoff current roots =
     io_bind (collect req cutoff ArtifactObject (gr_artifacts roots) empty_result) (\<lambda>r1.
     io_bind (collect req cutoff CandidateObject (gr_candidates roots) r1) (\<lambda>r2.
     io_bind (collect req cutoff SnapshotObject (gr_snapshots roots) r2) (\<lambda>r3.
     io_bind (gcOrphanRecords ca cc req roots r3) (\<lambda>r4.
     io_bind (CleanStaging cutoff (gq_dry_run req)) (\<lambda>(entries, bytes).
     io_bind (gcBinaries req roots current
       (r4\<lparr>gs_staging_entries := entries, gs_staging_bytes := bytes, gs_total_bytes := gs_total_bytes r4 + bytes\<rparr>)) (\<lambda>r5.
       gcProjectState req roots r5))))))"

definition GC ::
  "artifact_record codec \<Rightarrow> candidate_record codec \<Rightarrow> registry_record codec \<Rightarrow> pending_request codec \<Rightarrow>
   error + unit \<Rightarrow> error + ctr list \<Rightarrow> int \<Rightarrow> string option \<Rightarrow> gc_request \<Rightarrow> gc_result hio" where
  "GC ca cc cg cp ping live time current req =
     io_then os_step (io_defer os_step
       (io_then (io_wrap ''gc needs the Docker daemon to enumerate live containers (start Docker and rerun): %w'' [] (io_of ping))
       (io_bind (gcRoots ca cc cg cp live) (\<lambda>roots.
         gc_sweep ca cc req (time - gq_min_age req) current roots))))"


section \<open>What is referenced\<close>

definition keep_set :: "gc_roots \<Rightarrow> object_kind \<Rightarrow> digest set" where
  "keep_set r kind =
     (case kind of ArtifactObject \<Rightarrow> gr_artifacts r | CandidateObject \<Rightarrow> gr_candidates r | SnapshotObject \<Rightarrow> gr_snapshots r
      | OtherObject _ \<Rightarrow> {})"

definition roots_le :: "gc_roots \<Rightarrow> gc_roots \<Rightarrow> bool" where
  "roots_le r r' \<longleftrightarrow> gr_registered r \<subseteq> gr_registered r' \<and> gr_live r \<subseteq> gr_live r' \<and> gr_artifacts r \<subseteq> gr_artifacts r' \<and>
     gr_candidates r \<subseteq> gr_candidates r' \<and> gr_snapshots r \<subseteq> gr_snapshots r'"

lemma roots_le_refl [simp]: "roots_le r r"
  by (simp add: roots_le_def)

lemma roots_le_trans: "roots_le a b \<Longrightarrow> roots_le b c \<Longrightarrow> roots_le a c"
  unfolding roots_le_def by blast

text \<open>A live container other than the builder, and what its labels name.\<close>

definition deployed :: "ctr list \<Rightarrow> ctr \<Rightarrow> bool" where
  "deployed cs c \<longleftrightarrow> c \<in> set cs \<and> label (clabels c) RoleLabel \<noteq> BuilderRole"

text \<open>Something that is not going to be collected: a container, a registration or a pending request names it.\<close>

definition artifact_referenced :: "registry_record codec \<Rightarrow> ctr list \<Rightarrow> host \<Rightarrow> digest \<Rightarrow> bool" where
  "artifact_referenced cg cs s d \<longleftrightarrow>
     (\<exists>c raw. deployed cs c \<and> clabels c ArtifactLabel = Some raw \<and> ParseDigest raw = Inr d) \<or>
     (\<exists>i rec. recorded cg i rec s \<and> rr_artifact rec = d)"

definition candidate_referenced :: "registry_record codec \<Rightarrow> pending_request codec \<Rightarrow> ctr list \<Rightarrow> host \<Rightarrow> digest \<Rightarrow> bool" where
  "candidate_referenced cg cp cs s d \<longleftrightarrow>
     (\<exists>c. deployed cs c \<and> ParseDigest (label (clabels c) CandidateLabel) = Inr d) \<or>
     (\<exists>i rec. recorded cg i rec s \<and> rr_approved rec = Some d) \<or>
     (\<exists>i rec. recorded cg i rec s \<and> (\<exists>p \<in> stored cp (pendingDir (rr_id rec)) (file_at s). pd_candidate p = d))"

definition record_of :: "candidate_record codec \<Rightarrow> candidate_record \<Rightarrow> host \<Rightarrow> bool" where
  "record_of cc r s \<longleftrightarrow> valid_digest (cd_digest r) \<and>
     (\<exists>b. file_at s (Candidates, [hex (cd_digest r) @ record_suffix]) = Some b \<and>
        DecodeRecord cc b (''candidate record '' @ Digest_String (cd_digest r)) candidateRecordFormat = Inr r)"

definition referenced ::
  "candidate_record codec \<Rightarrow> registry_record codec \<Rightarrow> pending_request codec \<Rightarrow> ctr list \<Rightarrow> host \<Rightarrow> object_kind \<Rightarrow> digest \<Rightarrow> bool" where
  "referenced cc cg cp cs s kind d \<longleftrightarrow>
     (case kind of
        ArtifactObject \<Rightarrow> artifact_referenced cg cs s d
      | CandidateObject \<Rightarrow> candidate_referenced cg cp cs s d
      | SnapshotObject \<Rightarrow> (\<exists>r. record_of cc r s \<and> candidate_referenced cg cp cs s (cd_digest r) \<and> cd_snapshot r = d)
      | OtherObject _ \<Rightarrow> False)"

section \<open>The roots cover what is referenced\<close>

lemma root_container_le: "root_container c (r, l) = Inr (r', l') \<Longrightarrow> roots_le r r'"
  by (auto simp: root_container_def roots_le_def Let_def split: if_splits sum.splits option.splits)

lemma root_container_roots:
  assumes "root_container c (r, l) = Inr (r', l')" "label (clabels c) RoleLabel \<noteq> BuilderRole"
  shows "\<exists>p d. ParseProjectID (label (clabels c) ProjectLabel) = Inr p \<and> p \<in> gr_live r' \<and>
    ParseDigest (label (clabels c) CandidateLabel) = Inr d \<and> d \<in> gr_candidates r' \<and>
    (\<forall>raw. clabels c ArtifactLabel = Some raw \<longrightarrow> (\<exists>a. ParseDigest raw = Inr a \<and> a \<in> gr_artifacts r'))"
  using assms by (auto simp: root_container_def Let_def split: if_splits sum.splits option.splits)

definition container_rooted :: "ctr \<Rightarrow> gc_roots \<Rightarrow> bool" where
  "container_rooted c r \<longleftrightarrow> label (clabels c) RoleLabel = BuilderRole \<or>
     (\<exists>p d. ParseProjectID (label (clabels c) ProjectLabel) = Inr p \<and> p \<in> gr_live r \<and>
        ParseDigest (label (clabels c) CandidateLabel) = Inr d \<and> d \<in> gr_candidates r \<and>
        (\<forall>raw. clabels c ArtifactLabel = Some raw \<longrightarrow> (\<exists>a. ParseDigest raw = Inr a \<and> a \<in> gr_artifacts r)))"

lemma container_rooted_mono: "container_rooted c r \<Longrightarrow> roots_le r r' \<Longrightarrow> container_rooted c r'"
proof (cases "label (clabels c) RoleLabel = BuilderRole")
  case False
  assume c: "container_rooted c r" and "roots_le r r'"
  then have le: "gr_live r \<subseteq> gr_live r'" "gr_artifacts r \<subseteq> gr_artifacts r'" "gr_candidates r \<subseteq> gr_candidates r'"
    by (simp_all add: roots_le_def)
  obtain p d where pd: "ParseProjectID (label (clabels c) ProjectLabel) = Inr p" "p \<in> gr_live r"
      "ParseDigest (label (clabels c) CandidateLabel) = Inr d" "d \<in> gr_candidates r"
    and a: "\<And>raw. clabels c ArtifactLabel = Some raw \<Longrightarrow> \<exists>a. ParseDigest raw = Inr a \<and> a \<in> gr_artifacts r"
    using c False unfolding container_rooted_def by blast
  have "\<exists>a. ParseDigest raw = Inr a \<and> a \<in> gr_artifacts r'" if "clabels c ArtifactLabel = Some raw" for raw
    using a [OF that] le(2) by blast
  then show ?thesis using pd le(1,3) unfolding container_rooted_def by blast
qed (simp add: container_rooted_def)

lemma rfold_root_container:
  "rfold root_container cs (r, l) = Inr (r', l') \<Longrightarrow> roots_le r r' \<and> (\<forall>c\<in>set cs. container_rooted c r')"
proof (induction cs arbitrary: r l)
  case (Cons c cs)
  then obtain r1 l1 where one: "root_container c (r, l) = Inr (r1, l1)" and rest: "rfold root_container cs (r1, l1) = Inr (r', l')"
    by (auto simp: rbind_eq_Inr)
  have "container_rooted c r1" using root_container_roots [OF one] by (auto simp: container_rooted_def)
  then show ?case
    using Cons.IH [OF rest] root_container_le [OF one] by (auto intro: container_rooted_mono roots_le_trans)
qed simp

text \<open>While the roots are gathered nothing but broker directories appears.\<close>

definition quiet :: "host \<Rightarrow> host \<Rightarrow> bool" where
  "quiet s0 s \<longleftrightarrow> file_at s = file_at s0 \<and> (\<forall>q. fst q \<noteq> BrokerDir \<longrightarrow> lookup s q = lookup s0 q) \<and>
     leased s = leased s0 \<and> mtimes s = mtimes s0"

lemma hassert_quiet [hassert_intros]: "hassert (quiet s0)"
  by (simp add: hassert_def quiet_def)

lemma quiet_refl [simp]: "quiet s s"
  by (simp add: quiet_def)

lemma quiet_recorded: "quiet s0 s \<Longrightarrow> recorded cg i r s = recorded cg i r s0"
  by (simp add: quiet_def recorded_def recordPath_def)

lemma keeps_quiet_NewStore: "keeps (quiet s0) (NewStore project)"
proof -
  have "keeps (quiet s0) (os_MkdirAll p)" if "fst p = BrokerDir" for p
  proof (rule keeps_MkdirAll_dir [OF hassert_quiet])
    fix s cs assume n: "lookup s (fst p, cs) = None" and q: "quiet s0 s"
    have "file_at (put (fst p, cs) (Some (Directory [])) s) = file_at s" using file_at_mkdir [OF n] by blast
    moreover have "lookup (put (fst p, cs) (Some (Directory [])) s) q = lookup s q" if "fst q \<noteq> BrokerDir" for q
      using that \<open>fst p = BrokerDir\<close> by (intro lookup_put_apart) (simp add: path_apart_def)
    ultimately show "quiet s0 (put (fst p, cs) (Some (Directory [])) s)" using q by (simp add: quiet_def)
  qed
  then show ?thesis unfolding NewStore_def by (intro keeps_ops) (simp_all add: broker_places)
qed

text \<open>A fold that only grows its value and makes every element good.\<close>

lemma triple_fold_all:
  assumes step: "\<And>x b. x \<in> set xs \<Longrightarrow> triple P (f x b) (\<lambda>b' s. (le b b' \<and> ok x b') \<and> P s) E C"
    and le: "\<And>b. le b b" "\<And>a b c. le a b \<Longrightarrow> le b c \<Longrightarrow> le a c" "\<And>x b c. ok x b \<Longrightarrow> le b c \<Longrightarrow> ok x c"
  shows "triple P (io_fold f xs b) (\<lambda>b' s. (le b b' \<and> (\<forall>x\<in>set xs. ok x b')) \<and> P s) E C"
  using step
proof (induction xs arbitrary: b)
  case Nil
  then show ?case by (auto intro!: triple_ret le)
next
  case (Cons x xs)
  have IH: "triple P (io_fold f xs b1) (\<lambda>b' s. (le b1 b' \<and> (\<forall>x\<in>set xs. ok x b')) \<and> P s) E C" for b1
    by (rule Cons.IH) (rule Cons.prems, simp)
  have "triple P (io_fold f xs b1) (\<lambda>b' s. (le b b' \<and> (\<forall>x\<in>set (x # xs). ok x b')) \<and> P s) E C" if "le b b1 \<and> ok x b1" for b1
    by (rule triple_post [OF IH]) (use that le in auto)
  then show ?case
    unfolding io_fold.simps
    by (intro triple_bind [OF Cons.prems] triple_pure) simp_all
qed

definition record_rooted :: "pending_request codec \<Rightarrow> (hpath \<Rightarrow> string option) \<Rightarrow> registry_record \<Rightarrow> gc_roots \<Rightarrow> bool" where
  "record_rooted cp F rec r \<longleftrightarrow> rr_id rec \<in> gr_registered r \<and>
     (\<not> Digest_IsZero (rr_artifact rec) \<longrightarrow> rr_artifact rec \<in> gr_artifacts r) \<and>
     set_option (rr_approved rec) \<subseteq> gr_candidates r \<and>
     pd_candidate ` stored cp (pendingDir (rr_id rec)) F \<subseteq> gr_candidates r"

lemma record_rooted_mono: "record_rooted cp F rec r \<Longrightarrow> roots_le r r' \<Longrightarrow> record_rooted cp F rec r'"
  unfolding record_rooted_def roots_le_def by blast

lemma triple_root_record:
  "triple (quiet s0) (root_record cp rec roots)
     (\<lambda>r s. (roots_le roots r \<and> record_rooted cp (file_at s0) rec r) \<and> quiet s0 s) (\<lambda>_. quiet s0) (quiet s0)"
proof -
  have "triple (quiet s0) (ListPending cp (rr_id rec))
      (\<lambda>ps s. set ps = stored cp (pendingDir (rr_id rec)) (file_at s0) \<and> quiet s0 s) (\<lambda>_. quiet s0) (quiet s0)"
    unfolding ListPending_def
    by (rule triple_post [OF triple_readAll [OF hassert_quiet]]) (auto simp: quiet_def)
  then show ?thesis
    unfolding root_record_def Let_def
    by (intro triple_bind [OF keeps_quiet_NewStore], rule triple_bind, intro triple_pure triple_ret)
      (auto simp: roots_le_def record_rooted_def split: option.splits)
qed


lemma digest_suffix: "valid_digest d \<Longrightarrow> ParseDigest (''sha256:'' @ hex d) = Inr d"
  using digest_text.parse_show [of d] by (simp add: Digest_String_valid)

lemma record_digests_member:
  assumes d: "valid_digest d" and m: "(hex d @ record_suffix, RegularFile k b) \<in> set es"
  shows "d \<in> set (record_digests es)"
proof -
  have "cut_suffix (hex d @ record_suffix) record_suffix = (hex d, True)" by (simp add: cut_suffix_def)
  then show ?thesis
    using m digest_suffix [OF d] by (force simp: record_digests_def List.map_filter_def)
qed

lemma triple_ReadCandidateRecord:
  assumes "hassert P"
  shows "triple P (ReadCandidateRecord cc d)
    (\<lambda>y s. (\<exists>b. file_at s (Candidates, [hex d @ record_suffix]) = Some b \<and>
        DecodeRecord cc b (''candidate record '' @ Digest_String d) candidateRecordFormat = Inr y) \<and> P s) (\<lambda>_. P) P"
proof -
  have "triple P (os_ReadFile (Candidates, [hex d @ record_suffix]))
      (\<lambda>r s. file_at s (Candidates, [hex d @ record_suffix]) = r \<and> P s) (\<lambda>_. P) P"
    unfolding os_ReadFile_def file_at_def by (rule triple_hquery) (use assms in \<open>auto split: option.splits node.splits\<close>)
  then show ?thesis
    unfolding ReadCandidateRecord_def
    by (rule triple_bind) (auto intro!: triple_fail triple_of split: option.splits)
qed

lemma triple_ListCandidateRecords:
  assumes P: "hassert P"
  shows "triple P (ListCandidateRecords cc) (\<lambda>rs s. (\<forall>r. record_of cc r s \<longrightarrow> r \<in> set rs) \<and> P s) (\<lambda>_. P) P"
proof -
  let ?D = "\<lambda>ch s. P s \<and> lookup s (Candidates, []) = Some (Directory ch)"
  let ?N = "\<lambda>s. P s \<and> lookup s (Candidates, []) = None"
  let ?Q = "\<lambda>rs s. (\<forall>r. record_of cc r s \<longrightarrow> r \<in> set rs) \<and> P s"
  have below: "(Candidates, [n]) = below (Candidates, []) n" for n by (simp add: below_def)
  have dir: "triple P (os_ReadDir (Candidates, []))
      (\<lambda>r s. (r = None \<and> ?N s) \<or> (\<exists>ch. r = Some (sort_key fst ch) \<and> ?D ch s)) (\<lambda>_. P) P"
    unfolding os_ReadDir_def by (rule triple_hquery) (use P in \<open>auto split: option.splits node.splits\<close>)
  have hD: "hassert (?D ch)" for ch by (intro hassert_intros P)
  let ?R = "\<lambda>ch d y. \<exists>m b. map_of ch (hex d @ record_suffix) = Some (RegularFile m b) \<and>
      DecodeRecord cc b (''candidate record '' @ Digest_String d) candidateRecordFormat = Inr y"
  have content: "file_at s (Candidates, [n]) = Some b \<longleftrightarrow> (\<exists>m. map_of ch n = Some (RegularFile m b))"
    if "?D ch s" for s ch n b
    using lookup_below [of s "(Candidates, [])" ch n] that by (auto simp: file_at_def below split: option.splits node.splits)
  have one: "triple (?D ch) (ReadCandidateRecord cc d) (\<lambda>y s. ?R ch d y \<and> ?D ch s) (\<lambda>_. P) P" for ch d
    by (rule triple_post [OF triple_ReadCandidateRecord [OF hD]]) (auto simp: content)
  have all: "triple (?D ch) (io_map (ReadCandidateRecord cc) (record_digests (sort_key fst ch))) ?Q (\<lambda>_. P) P" for ch
  proof (rule triple_post [OF triple_io_map [OF one]])
    fix rs s
    assume a: "list_all2 (?R ch) (record_digests (sort_key fst ch)) rs \<and> ?D ch s"
    have "r \<in> set rs" if r: "record_of cc r s" for r
    proof -
      obtain m b where b: "valid_digest (cd_digest r)" "map_of ch (hex (cd_digest r) @ record_suffix) = Some (RegularFile m b)"
        "DecodeRecord cc b (''candidate record '' @ Digest_String (cd_digest r)) candidateRecordFormat = Inr r"
        using r content a by (auto simp: record_of_def)
      have "(hex (cd_digest r) @ record_suffix, RegularFile m b) \<in> set (sort_key fst ch)"
        using map_of_SomeD [OF b(2)] by simp
      from record_digests_member [OF b(1) this] obtain y where "y \<in> set rs" "?R ch (cd_digest r) y"
        using a by (auto simp: list_all2_conv_all_nth in_set_conv_nth) metis
      then show ?thesis using b by auto
    qed
    then show "?Q rs s" using a by blast
  qed simp_all
  show ?thesis
    unfolding ListCandidateRecords_def
  proof (rule triple_bind [OF dir])
    fix r
    let ?k = "case r of None \<Rightarrow> io_ret [] | Some es \<Rightarrow> io_map (ReadCandidateRecord cc) (record_digests es)"
    show "triple (\<lambda>s. (r = None \<and> ?N s) \<or> (\<exists>ch. r = Some (sort_key fst ch) \<and> ?D ch s)) ?k ?Q (\<lambda>_. P) P"
    proof (cases r)
      case None
      have "lookup s (Candidates, [n]) = None" if "lookup s (Candidates, []) = None" for s n
        using lookup_below_none [of s "(Candidates, [])" n] that by (simp add: below)
      then have "triple ?N (io_ret []) ?Q (\<lambda>_. P) P"
        by (intro triple_ret) (auto simp: record_of_def file_at_def)
      then show ?thesis by (auto simp: None intro: triple_pre)
    next
      case (Some es)
      have "triple (\<lambda>s. \<exists>ch. es = sort_key fst ch \<and> ?D ch s) ?k ?Q (\<lambda>_. P) P"
        by (intro triple_ex triple_pure) (use all in \<open>simp add: Some\<close>)
      then show ?thesis by (rule triple_pre) (auto simp: Some)
    qed
  qed
qed


lemma root_snapshot_le: "roots_le r (root_snapshot x r)" "gr_candidates (root_snapshot x r) = gr_candidates r"
  by (auto simp: root_snapshot_def roots_le_def)

lemma fold_root_snapshot:
  "roots_le r (fold root_snapshot xs r) \<and>
   (\<forall>x\<in>set xs. \<not> Digest_IsZero (cd_snapshot x) \<longrightarrow> cd_snapshot x \<in> gr_snapshots (fold root_snapshot xs r))"
proof (induction xs arbitrary: r)
  case (Cons x xs)
  have le: "roots_le r (root_snapshot x r)" "roots_le (root_snapshot x r) (fold root_snapshot xs (root_snapshot x r))"
    using root_snapshot_le(1) Cons.IH by blast+
  have "\<not> Digest_IsZero (cd_snapshot x) \<Longrightarrow> cd_snapshot x \<in> gr_snapshots (root_snapshot x r)"
    by (simp add: root_snapshot_def)
  then have "\<not> Digest_IsZero (cd_snapshot x) \<Longrightarrow> cd_snapshot x \<in> gr_snapshots (fold root_snapshot xs (root_snapshot x r))"
    using le(2) unfolding roots_le_def by blast
  then show ?case using Cons.IH roots_le_trans [OF le] by auto
qed simp

lemma root_snapshots_le: "roots_le r (root_snapshots cands r)"
  using fold_root_snapshot by (auto simp: root_snapshots_def)

lemma root_snapshots_cover:
  assumes "x \<in> set cands" "cd_digest x \<in> gr_candidates r" "\<not> Digest_IsZero (cd_snapshot x)"
  shows "cd_snapshot x \<in> gr_snapshots (root_snapshots cands r)"
  using fold_root_snapshot [of r "filter (\<lambda>x. cd_digest x \<in> gr_candidates r) cands"] assms by (auto simp: root_snapshots_def)

lemma root_newest_le: "roots_le r (root_newest arts r)"
  by (auto simp: root_newest_def roots_le_def split: option.splits)

definition covered ::
  "candidate_record codec \<Rightarrow> registry_record codec \<Rightarrow> pending_request codec \<Rightarrow> ctr list \<Rightarrow> host \<Rightarrow> gc_roots \<Rightarrow> bool" where
  "covered cc cg cp cs s r \<longleftrightarrow>
     (\<forall>kind d. referenced cc cg cp cs s kind d \<longrightarrow> \<not> Digest_IsZero d \<longrightarrow> d \<in> keep_set r kind) \<and>
     (\<forall>i rec. recorded cg i rec s \<longrightarrow> rr_id rec \<in> gr_registered r) \<and>
     (\<forall>c p. deployed cs c \<longrightarrow> ParseProjectID (label (clabels c) ProjectLabel) = Inr p \<longrightarrow> p \<in> gr_live r)"

lemma keep_set_mono: "roots_le r r' \<Longrightarrow> keep_set r kind \<subseteq> keep_set r' kind"
  by (cases kind) (simp_all add: roots_le_def keep_set_def)

lemma covered_mono:
  assumes "covered cc cg cp cs s r" "roots_le r r'"
  shows "covered cc cg cp cs s r'"
proof -
  have "gr_registered r \<subseteq> gr_registered r'" "gr_live r \<subseteq> gr_live r'" using assms(2) by (simp_all add: roots_le_def)
  then show ?thesis using assms(1) keep_set_mono [OF assms(2)] unfolding covered_def by blast
qed

text \<open>Containers and registrations root everything but the snapshots.\<close>

definition base_covered ::
  "registry_record codec \<Rightarrow> pending_request codec \<Rightarrow> ctr list \<Rightarrow> host \<Rightarrow> gc_roots \<Rightarrow> bool" where
  "base_covered cg cp cs s r \<longleftrightarrow>
     (\<forall>c\<in>set cs. container_rooted c r) \<and> (\<forall>i rec. recorded cg i rec s \<longrightarrow> record_rooted cp (file_at s) rec r)"

lemma base_artifact: "base_covered cg cp cs s r \<Longrightarrow> artifact_referenced cg cs s d \<Longrightarrow> \<not> Digest_IsZero d \<Longrightarrow> d \<in> gr_artifacts r"
  by (auto simp: base_covered_def artifact_referenced_def deployed_def container_rooted_def record_rooted_def)

lemma base_candidate:
  assumes "base_covered cg cp cs s r" "candidate_referenced cg cp cs s d"
  shows "d \<in> gr_candidates r"
  using assms unfolding candidate_referenced_def
proof (elim disjE exE conjE bexE)
  fix c assume "deployed cs c" "ParseDigest (label (clabels c) CandidateLabel) = Inr d"
  then show ?thesis using assms(1) by (auto simp: base_covered_def container_rooted_def deployed_def)
next
  fix i rec assume "recorded cg i rec s" "rr_approved rec = Some d"
  then have "set_option (rr_approved rec) \<subseteq> gr_candidates r"
    using assms(1) unfolding base_covered_def record_rooted_def by blast
  then show ?thesis using \<open>rr_approved rec = Some d\<close> by simp
next
  fix i rec p assume "recorded cg i rec s" "p \<in> stored cp (pendingDir (rr_id rec)) (file_at s)" "pd_candidate p = d"
  then show ?thesis using assms(1) unfolding base_covered_def record_rooted_def by blast
qed

lemma covered_final:
  assumes b: "base_covered cg cp cs s r" and le: "roots_le r r'" and c: "\<And>x. record_of cc x s \<Longrightarrow> x \<in> set cands"
  shows "covered cc cg cp cs s (root_snapshots cands r')"
proof -
  have base: "d \<in> gr_artifacts r'" if "artifact_referenced cg cs s d" "\<not> Digest_IsZero d" for d
    using base_artifact [OF b that] le by (auto simp: roots_le_def)
  have cand: "d \<in> gr_candidates r'" if "candidate_referenced cg cp cs s d" for d
    using base_candidate [OF b that] le by (auto simp: roots_le_def)
  have le': "roots_le r' (root_snapshots cands r')" by (rule root_snapshots_le)
  have k: "d \<in> keep_set (root_snapshots cands r') kind" if "referenced cc cg cp cs s kind d" "\<not> Digest_IsZero d" for kind d
  proof (cases kind)
    case SnapshotObject
    then show ?thesis using that c cand root_snapshots_cover by (fastforce simp: referenced_def keep_set_def)
  qed (use that base cand le' in \<open>auto simp: referenced_def keep_set_def roots_le_def\<close>)
  have reg: "rr_id rec \<in> gr_registered (root_snapshots cands r')" if "recorded cg i rec s" for i rec
    using that b roots_le_trans [OF le le'] by (auto simp: base_covered_def record_rooted_def roots_le_def)
  have live: "p \<in> gr_live (root_snapshots cands r')"
    if "deployed cs c" "ParseProjectID (label (clabels c) ProjectLabel) = Inr p" for c p
  proof -
    have "container_rooted c r" using that(1) b by (simp add: base_covered_def deployed_def)
    then have "p \<in> gr_live r" using that by (auto simp: container_rooted_def deployed_def)
    then show ?thesis using roots_le_trans [OF le le'] by (auto simp: roots_le_def)
  qed
  show ?thesis unfolding covered_def using k reg live by blast
qed

lemma triple_quiet_records:
  "triple (quiet s0) (reg_list cg) (\<lambda>rs s. (\<forall>i rec. recorded cg i rec s0 \<longrightarrow> rec \<in> set rs) \<and> quiet s0 s) (\<lambda>_. quiet s0) (quiet s0)"
  by (rule triple_post [OF triple_reg_list [OF hassert_quiet]]) (auto simp: quiet_recorded)

lemma io_bind_of: "io_bind (io_of (Inr x)) f = f x"
  by (simp add: io_bind_def io_of_def of_sum_def fun_eq_iff)

lemma io_bind_of_Inl: "io_bind (io_of (Inl e)) f = io_fail e"
  by (simp add: io_bind_def io_of_def of_sum_def io_fail_def fun_eq_iff)

lemma io_bind_fail: "io_bind (io_fail e) f = io_fail e"
  by (simp add: io_bind_def io_fail_def fun_eq_iff)

lemma triple_gcRoots:
  assumes "live = Inr cs"
  shows "triple (quiet s0) (gcRoots ca cc cg cp live) (\<lambda>r s. covered cc cg cp cs s0 r \<and> quiet s0 s) (\<lambda>_. quiet s0) (quiet s0)"
proof -
  let ?C = "covered cc cg cp cs s0"
  have weak: "triple (quiet s0) m (\<lambda>_. quiet s0) (\<lambda>_. quiet s0) (quiet s0)" if "keeps (quiet s0) m" for m :: "'x hio"
    by (rule that)
  have missing: "triple (quiet s0) (root_missing cc d b) (\<lambda>b' s. (roots_le b b' \<and> True) \<and> quiet s0 s) (\<lambda>_. quiet s0) (quiet s0)" for d b
  proof -
    have "keeps (quiet s0) (io_try (ReadCandidateRecord cc d))" by (intro keeps_intros hassert_intros)
    then show ?thesis
      unfolding root_missing_def
      by (rule triple_bind) (auto intro!: triple_fail triple_ret root_snapshot_le split: sum.splits)
  qed
  have tail: "triple (quiet s0) (io_fold (root_missing cc) ds b) (\<lambda>r s. ?C r \<and> quiet s0 s) (\<lambda>_. quiet s0) (quiet s0)" if "?C b" for ds b
    by (rule triple_post [OF triple_fold_all [where le = roots_le and ok = "\<lambda>_ _. True", OF missing]])
      (use that covered_mono roots_le_trans in \<open>auto\<close>)
  have cands: "triple (quiet s0) (ListCandidateRecords cc) (\<lambda>rs s. (\<forall>r. record_of cc r s0 \<longrightarrow> r \<in> set rs) \<and> quiet s0 s)
      (\<lambda>_. quiet s0) (quiet s0)"
    by (rule triple_post [OF triple_ListCandidateRecords [OF hassert_quiet]]) (auto simp: record_of_def quiet_def)
  have recs: "triple (quiet s0) (io_fold (root_record cp) rs b)
      (\<lambda>r s. (roots_le b r \<and> (\<forall>rec\<in>set rs. record_rooted cp (file_at s0) rec r)) \<and> quiet s0 s) (\<lambda>_. quiet s0) (quiet s0)" for rs b
    by (rule triple_fold_all [OF triple_root_record]) (auto intro: roots_le_trans record_rooted_mono)
  have arts: "keeps (quiet s0) (ListArtifactRecords ca)" by (intro keeps_intros hassert_intros)
  have go: "triple (quiet s0) (io_bind (reg_list cg) (\<lambda>recs.
      io_bind (io_fold (root_record cp) recs roots0) (\<lambda>roots1.
      io_bind (ListArtifactRecords ca) (\<lambda>arts.
      io_bind (ListCandidateRecords cc) (\<lambda>cands.
        io_fold (root_missing cc) (filter (\<lambda>d. d \<notin> set (map cd_digest cands)) lv)
          (root_snapshots cands (root_newest arts roots1)))))))
      (\<lambda>r s. ?C r \<and> quiet s0 s) (\<lambda>_. quiet s0) (quiet s0)"
    if r: "rfold root_container cs (no_roots, []) = Inr (roots0, lv)" for roots0 lv
  proof (rule triple_bind [OF triple_quiet_records], rule triple_pure, rule triple_bind [OF recs], rule triple_pure,
      rule triple_bind [OF arts], rule triple_bind [OF cands], rule triple_pure, rule tail, rule covered_final)
    fix rs roots1 arts
    assume rs: "\<forall>i rec. recorded cg i rec s0 \<longrightarrow> rec \<in> set rs"
      and le: "roots_le roots0 roots1 \<and> (\<forall>rec\<in>set rs. record_rooted cp (file_at s0) rec roots1)"
    show "base_covered cg cp cs s0 roots1"
      using rs le rfold_root_container [OF r] by (auto simp: base_covered_def intro: container_rooted_mono)
    show "roots_le roots1 (root_newest arts roots1)" by (rule root_newest_le)
  qed blast
  have go_case: "rfold root_container cs (no_roots, []) = Inr x \<Longrightarrow> triple (quiet s0) (case x of (roots0, lv) \<Rightarrow> io_bind (reg_list cg) (\<lambda>recs.
      io_bind (io_fold (root_record cp) recs roots0) (\<lambda>roots1.
      io_bind (ListArtifactRecords ca) (\<lambda>arts.
      io_bind (ListCandidateRecords cc) (\<lambda>cands.
        io_fold (root_missing cc) (filter (\<lambda>d. d \<notin> set (map cd_digest cands)) lv)
          (root_snapshots cands (root_newest arts roots1)))))))
      (\<lambda>r s. ?C r \<and> quiet s0 s) (\<lambda>_. quiet s0) (quiet s0)" for x
    by (cases x) (simp only: prod.case go)
  show ?thesis
    unfolding gcRoots_def assms
    unfolding io_bind_of
    by (rule triple_bind [OF triple_of [where Q = "\<lambda>x s. rfold root_container cs (no_roots, []) = Inr x \<and> quiet s0 s"]],
        simp, simp, rule triple_pure, erule go_case)
qed


section \<open>The sweep leaves what is protected\<close>

abbreviation held :: "hpath \<Rightarrow> node \<Rightarrow> nat \<Rightarrow> int \<Rightarrow> host \<Rightarrow> bool" where
  "held p n k t \<equiv> \<lambda>s. (lookup s p = Some n \<and> leased s p = k) \<and> mtimes s p = t"

lemma hassert_mtimes [hassert_intros]: "hassert (\<lambda>s. A (mtimes s))"
  by (simp add: hassert_def)

lemma hassert_held [hassert_intros]: "hassert (held p n k t)"
  by (simp add: hassert_def)

lemma held_writable: "path_apart p q \<Longrightarrow> writable (held p n k t) q w"
  by (simp add: writable_def)

lemma held_other: "object_place p \<Longrightarrow> (D, [m]) \<noteq> p \<Longrightarrow> writable (held p n k t) (D, [m]) w"
  by (rule held_writable) (cases p, auto simp: object_place_def path_apart_def)

lemma mtimes_writable: "writable (\<lambda>s. A (mtimes s)) q v"
  by (simp add: writable_def)

lemma mtimes_RemoveObject: "keeps (\<lambda>s. A (mtimes s)) (RemoveObject kind d)"
proof (rule keeps_RemoveObject_parts [OF hassert_mtimes])
  show "keeps (\<lambda>s. A (mtimes s)) (removeRecord kind d)"
    unfolding removeRecord_def by (cases kind) (auto intro!: keeps_intros hassert_intros mtimes_writable)
  then show "keeps (\<lambda>s. A (mtimes s)) (unpublish kind d p)" for p
    unfolding unpublish_def Let_def os_MkdirTemp_def
    by (intro keeps_intros keeps_CreateTemp keeps_Rename mtimes_writable hassert_mtimes)
      (auto intro!: keeps_intros hassert_intros mtimes_writable split: sum.splits bool.splits)
qed

lemma held_RemoveObject:
  assumes "object_place p" "\<And>q. objectPath kind d = Inr q \<Longrightarrow> q \<noteq> p"
  shows "keeps (held p n k t) (RemoveObject kind d)"
  by (rule triple_conj [OF stays_RemoveObject [OF assms] mtimes_RemoveObject])

lemma held_RemoveObject_leased:
  assumes "objectPath kind d = Inr p" "0 < k"
  shows "triple (held p n k t) (RemoveObject kind d) (\<lambda>_ _. False) (\<lambda>_. held p n k t) (held p n k t)"
  by (rule triple_post [OF triple_conj [OF triple_RemoveObject_leased [OF assms] mtimes_RemoveObject [where A = "\<lambda>f. f p = t"]]]) auto

lemma objectPath_place:
  assumes "objectPath kind d = Inr p" "valid_digest d"
  shows "object_place p"
  using objectPathD [OF assms(1)] assms(2) by (cases p) (auto simp: object_place_def valid_digest_def)

lemma objectPath_inj:
  assumes "objectPath kind d = Inr p" "objectPath kind' d' = Inr p" "valid_digest d" "valid_digest d'"
  shows "kind' = kind \<and> d' = d"
proof -
  have "hex d = hex d'" "kindDir kind = kindDir kind'" using objectPathD [OF assms(1)] objectPathD [OF assms(2)] by auto
  then show ?thesis using assms(3,4) objectPathD [OF assms(1)]
    by (cases d; cases d'; cases kind; cases kind') (auto simp: valid_digest_def)
qed

text \<open>The object at p is to stay: it is kept, young or leased.\<close>

definition guarded :: "gc_roots \<Rightarrow> int \<Rightarrow> object_kind \<Rightarrow> digest \<Rightarrow> nat \<Rightarrow> int \<Rightarrow> bool" where
  "guarded roots cutoff kind d k t \<longleftrightarrow> d \<in> keep_set roots kind \<or> t > cutoff \<or> 0 < k"

lemma triple_ObjectStat:
  assumes "objectPath kind d = Inr p"
  shows "triple (held p n k t) (ObjectStat kind d) (\<lambda>st s. st_mtime st = t \<and> held p n k t s) (\<lambda>_. held p n k t) (held p n k t)"
proof -
  have "triple (held p n k t) (os_stat p) (\<lambda>r s. (\<exists>st. r = Some st \<and> st_mtime st = t) \<and> held p n k t s) (\<lambda>_. held p n k t) (held p n k t)"
    unfolding os_stat_def by (rule triple_hquery [OF hassert_held]) auto
  then show ?thesis
    unfolding ObjectStat_def assms io_bind_of
    by (rule triple_bind) (rule triple_pure, auto intro!: triple_ret)
qed

lemma held_collect_one:
  assumes p: "objectPath kind d = Inr p" "valid_digest d" and g: "guarded roots cutoff kind d k t"
    and d': "valid_digest d'"
  shows "keeps (held p n k t) (collect_one req cutoff kind' (keep_set roots kind') d' acc)"
proof (cases "objectPath kind' d' = Inr p")
  case False
  have rem: "keeps (held p n k t) (RemoveObject kind' d')"
    by (rule held_RemoveObject [OF objectPath_place [OF p]]) (use False in auto)
  have st: "keeps (held p n k t) (ObjectStat kind' d')" by (intro keeps_intros hassert_held)
  show ?thesis
    unfolding collect_one_def Let_def
    by (intro keeps_ops keeps_cases st rem)
next
  case True
  then have e: "kind' = kind" "d' = d" using objectPath_inj [OF p(1) _ p(2) d'] by auto
  have rem: "triple (held p n k t) (io_try (RemoveObject kind d)) (\<lambda>r s. isl r \<and> held p n k t s) (\<lambda>_. held p n k t) (held p n k t)"
    if "0 < k"
    by (rule triple_try, rule triple_post [OF held_RemoveObject_leased [OF p(1) that]]) auto
  have handle: "keeps (held p n k t) (case x of
                   Inr _ \<Rightarrow> io_ret (add_removed entry acc)
                 | Inl e \<Rightarrow> if errors_is e ErrConflict then io_ret (add_skipped entry' acc) else io_fail e)" for x entry entry'
    by (intro keeps_ops keeps_cases)
  have body: "keeps (held p n k t) (if st_mtime st > cutoff then io_ret acc
            else let entry = \<lparr>ge_kind = kind_text kind, ge_id = Digest_String d, ge_bytes = st_bytes st, ge_reason = ''''\<rparr>
              in if gq_dry_run req then io_ret (add_removed entry acc)
                 else io_bind (io_try (RemoveObject kind d)) (\<lambda>x.
                   case x of
                     Inr _ \<Rightarrow> io_ret (add_removed entry acc)
                   | Inl e \<Rightarrow>
                       if errors_is e ErrConflict then io_ret (add_skipped (entry\<lparr>ge_reason := ''in use''\<rparr>) acc)
                       else io_fail e))"
    if "st_mtime st = t" "d \<notin> keep_set roots kind" for st
  proof (cases "t > cutoff")
    case False
    then have k: "0 < k" using g that(2) by (auto simp: guarded_def)
    show ?thesis
      unfolding Let_def
      by (rule triple_if [OF keeps_ops(1)], rule triple_if [OF keeps_ops(1)], rule triple_bind [OF rem [OF k]],
          rule triple_pure, rule handle)
  qed (use that in \<open>auto intro: keeps_ops\<close>)
  have st: "triple (held p n k t) (io_try (ObjectStat kind d))
      (\<lambda>r s. (\<forall>st. r = Inr st \<longrightarrow> st_mtime st = t) \<and> held p n k t s) (\<lambda>_. held p n k t) (held p n k t)"
    by (rule triple_try, rule triple_post [OF triple_ObjectStat [OF p(1)]]) auto
  show ?thesis
    unfolding collect_one_def e
    by (rule triple_if [OF keeps_ops(1)], rule triple_bind [OF st], rule triple_pure, rule triple_sum [OF keeps_ops(1)],
        rule body) auto
qed


lemma triple_ListObjects:
  assumes "hassert P"
  shows "triple P (ListObjects kind) (\<lambda>ds s. list_all valid_digest ds \<and> P s) (\<lambda>_. P) P"
proof -
  have v: "list_all valid_digest (List.map_filter (\<lambda>(n, x). case x of
      Directory _ \<Rightarrow> (case ParseDigest (''sha256:'' @ n) of Inl _ \<Rightarrow> None | Inr d \<Rightarrow> Some d) | _ \<Rightarrow> None) es)"
    for es :: "(string \<times> node) list"
    by (induction es) (auto simp: List.map_filter_simps dest: digest_text.parse_sound split: node.splits sum.splits)
  have dir: "keeps P (os_ReadDir p)" for p by (intro keeps_intros assms)
  show ?thesis
    unfolding ListObjects_def
    by (rule triple_bind [OF triple_of [where Q = "\<lambda>_. P"]], simp, simp, rule triple_bind [OF dir],
        rule triple_option, rule triple_ret, simp, rule triple_ret, rule conjI, rule v)
qed

lemma held_collect:
  assumes "objectPath kind d = Inr p" "valid_digest d" "guarded roots cutoff kind d k t"
  shows "keeps (held p n k t) (collect req cutoff kind' (keep_set roots kind') acc)"
  unfolding collect_def
  by (rule triple_bind [OF triple_ListObjects [OF hassert_held]], rule triple_pure, rule keeps_fold, rule held_collect_one [OF assms])
    (simp add: list_all_iff)

lemma held_collect_orphan:
  assumes p: "objectPath kind d = Inr p" "valid_digest d"
  shows "keeps (held p n k t) (collect_orphan req r acc)"
proof -
  obtain kind' d' keep where r: "r = (kind', d', keep)" by (cases r)
  show ?thesis
  proof (cases "objectPath kind' d' = Inr p")
    case True
    have lst: "triple (held p n k t) (os_Lstat p) (\<lambda>r s. r = Some n \<and> held p n k t s) (\<lambda>_. held p n k t) (held p n k t)"
      unfolding os_Lstat_def by (rule triple_hquery [OF hassert_held]) auto
    have ex: "triple (held p n k t) (io_try (Exists kind' d')) (\<lambda>x s. x \<noteq> Inr False \<and> held p n k t s) (\<lambda>_. held p n k t) (held p n k t)"
      unfolding Exists_def True io_bind_of
      by (rule triple_try, rule triple_bind [where R = "\<lambda>r s. r = Some n \<and> held p n k t s"], rule triple_post [OF lst])
        (auto intro!: triple_ret)
    show ?thesis
      unfolding collect_orphan_def r prod.case
      by (rule triple_if [OF keeps_ops(1)], rule triple_bind [OF ex], rule triple_pure)
        (auto intro!: keeps_ops split: sum.splits bool.splits)
  next
    case False
    have rem: "keeps (held p n k t) (RemoveObject kind' d')"
      by (rule held_RemoveObject [OF objectPath_place [OF p]]) (use False in auto)
    have ex: "keeps (held p n k t) (Exists kind' d')" by (intro keeps_intros hassert_held)
    show ?thesis
      unfolding collect_orphan_def r prod.case
      by (intro keeps_ops keeps_cases ex) (use rem in \<open>auto intro!: keeps_ops split: sum.splits bool.splits\<close>)
  qed
qed

lemma held_gcOrphanRecords:
  assumes p: "objectPath kind d = Inr p" "valid_digest d"
  shows "keeps (held p n k t) (gcOrphanRecords ca cc req roots acc)"
  unfolding gcOrphanRecords_def
  by (intro keeps_ops keeps_fold held_collect_orphan [OF p]) (intro keeps_intros hassert_held)+

text \<open>The parts that work in directories without objects.\<close>

lemma keeps_drop_file: "hassert P \<Longrightarrow> (\<not> gq_dry_run req \<Longrightarrow> writable P q None) \<Longrightarrow> keeps P (drop_file req q entry acc)"
  unfolding drop_file_def by (intro keeps_ops keeps_cases keeps_Remove) auto

lemma keeps_each_entry:
  "hassert P \<Longrightarrow> (\<And>e acc. keeps P (f e acc)) \<Longrightarrow> keeps P (each_entry D f acc)"
  unfolding each_entry_def by (intro keeps_ops keeps_cases keeps_queries keeps_fold)

lemma keeps_gcBinaries:
  assumes "hassert P" "\<And>m. \<not> gq_dry_run req \<Longrightarrow> writable P (Bin, [m]) None"
  shows "keeps P (gcBinaries req roots current acc)"
proof -
  have "keeps P (collect_binary req keep name acc)" for keep name acc
    unfolding collect_binary_def
    by (intro keeps_ops keeps_cases keeps_queries assms(1))
      (auto intro!: keeps_ops keeps_cases keeps_Remove assms split: sum.splits option.splits)
  then show ?thesis
    unfolding gcBinaries_def by (intro keeps_ops keeps_cases keeps_queries keeps_fold assms(1))
qed

lemma keeps_gcProjectState:
  assumes h: "hassert P"
    and b: "\<And>m. \<not> gq_dry_run req \<Longrightarrow> m \<notin> gr_registered roots \<Longrightarrow> writable P (BrokerDir, [m]) None"
    and w: "\<And>m. \<not> gq_dry_run req \<Longrightarrow> writable P (Approvals, [m]) None"
      "\<And>m. \<not> gq_dry_run req \<Longrightarrow> writable P (DevRecords, [m]) None"
    and j: "\<And>m i. \<not> gq_dry_run req \<Longrightarrow> replaceFileProject m = Some i \<Longrightarrow> i \<notin> gr_registered roots \<union> gr_live roots \<Longrightarrow>
      writable P (ReplaceDir, [m]) None"
  shows "keeps P (gcProjectState req roots acc)"
proof -
  have "keeps P (collect_broker req roots e acc)" for e acc
    unfolding collect_broker_def
    by (auto intro!: keeps_ops keeps_cases keeps_RemoveAll h b split: prod.splits node.splits)
  moreover have "keeps P (collect_approval req roots m acc)" "keeps P (collect_dev req roots m acc)" for m acc
    unfolding collect_approval_def collect_dev_def
    by (auto intro!: keeps_ops keeps_cases keeps_drop_file h w split: prod.splits option.splits)
  moreover have "keeps P (collect_replace req roots m acc)" for m acc
    unfolding collect_replace_def Let_def
    by (auto intro!: keeps_ops keeps_drop_file h j split: option.splits)
  ultimately show ?thesis
    unfolding gcProjectState_def by (intro keeps_ops keeps_each_entry h)
qed

lemma keeps_CleanStaging_part:
  assumes "hassert P" "\<And>m. \<not> dry \<Longrightarrow> writable P (Staging, [m]) None"
  shows "keeps P (CleanStaging cutoff dry)"
  unfolding CleanStaging_def clean_entry_def
  by (intro keeps_intros assms(1)) (auto intro!: keeps_intros assms split: sum.splits option.splits)

lemma keep_set_kinds:
  "gr_artifacts r = keep_set r ArtifactObject" "gr_candidates r = keep_set r CandidateObject"
  "gr_snapshots r = keep_set r SnapshotObject"
  by (simp_all add: keep_set_def)

lemma held_gc_sweep:
  assumes p: "objectPath kind d = Inr p" "valid_digest d" and g: "guarded roots cutoff kind d k t"
  shows "keeps (held p n k t) (gc_sweep ca cc req cutoff current roots)"
proof -
  have D: "fst p \<in> {Artifacts, Candidates, Snapshots}" using objectPathD [OF p(1)] by blast
  have o: "(D, [m]) \<noteq> p" if "D \<notin> {Artifacts, Candidates, Snapshots}" for D m using D that by auto
  have w: "writable (held p n k t) (D, [m]) None" if "D \<notin> {Artifacts, Candidates, Snapshots}" for D m
    by (rule held_other [OF objectPath_place [OF p] o [OF that]])
  have "keeps (held p n k t) (CleanStaging cutoff dry)" for dry
    by (rule keeps_CleanStaging_part [OF hassert_held]) (rule w, simp)
  moreover have "keeps (held p n k t) (gcBinaries req roots current acc)" for acc
    by (rule keeps_gcBinaries [OF hassert_held]) (rule w, simp)
  moreover have "keeps (held p n k t) (gcProjectState req roots acc)" for acc
    by (rule keeps_gcProjectState [OF hassert_held]) (rule w, simp)+
  ultimately show ?thesis
    unfolding gc_sweep_def keep_set_kinds(1) keep_set_kinds(2) keep_set_kinds(3)
    by (intro keeps_ops keeps_cases held_collect [OF assms] held_gcOrphanRecords [OF p])
qed


section \<open>What a collection never touches\<close>

text \<open>Being referenced, young or leased is what keeps an object.\<close>

definition protected ::
  "candidate_record codec \<Rightarrow> registry_record codec \<Rightarrow> pending_request codec \<Rightarrow> ctr list \<Rightarrow> int \<Rightarrow> host \<Rightarrow> object_kind \<Rightarrow> digest \<Rightarrow> bool" where
  "protected cc cg cp cs cutoff s kind d \<longleftrightarrow>
     referenced cc cg cp cs s kind d \<or> (\<exists>p. objectPath kind d = Inr p \<and> (mtimes s p > cutoff \<or> 0 < leased s p))"

lemma valid_not_zero: "valid_digest d \<Longrightarrow> \<not> Digest_IsZero d"
  by (rule valid_digest_not_zero)

lemma keeps_locked:
  assumes "triple P m (\<lambda>_. Q) (\<lambda>_. Q) Q" "hassert P" "hassert Q" "\<And>s. P s \<Longrightarrow> Q s"
  shows "triple P (io_then os_step (io_defer os_step m)) (\<lambda>_. Q) (\<lambda>_. Q) Q"
proof -
  have step: "triple P os_step (\<lambda>_. P) (\<lambda>_. Q) Q"
    by (rule triple_post [OF keeps_queries(4) [OF assms(2)]]) (use assms(4) in auto)
  have "triple P (io_defer os_step m) (\<lambda>_. Q) (\<lambda>_. Q) Q"
    by (rule triple_defer [OF assms(1)]) (rule keeps_queries(4) [OF assms(3)])+
  then show ?thesis by (rule triple_bind [OF step])
qed

lemma triple_GC:
  assumes live: "live = Inr cs" and P: "hassert P" "\<And>s. quiet s0 s \<Longrightarrow> P s"
    and sweep: "\<And>roots. covered cc cg cp cs s0 roots \<Longrightarrow> keeps P (gc_sweep ca cc req (time - gq_min_age req) current roots)"
  shows "triple (quiet s0) (GC ca cc cg cp ping live time current req) (\<lambda>_. P) (\<lambda>_. P) P"
proof -
  let ?w = "\<lambda>e. Class ErrConflict e []"
  have ping: "triple (quiet s0) (io_wrap f as (io_of ping)) (\<lambda>_. quiet s0) (\<lambda>_. P) P" for f as
    by (rule triple_post [OF keeps_ops(6) [OF keeps_ops(3)]]) (use P(2) in auto)
  have roots: "triple (quiet s0) (gcRoots ca cc cg cp live)
      (\<lambda>r s. covered cc cg cp cs s0 r \<and> quiet s0 s) (\<lambda>_. P) P"
    by (rule triple_post [OF triple_gcRoots [OF live]]) (use P(2) in auto)
  have go: "triple (quiet s0) (gc_sweep ca cc req (time - gq_min_age req) current r) (\<lambda>_. P) (\<lambda>_. P) P"
    if "covered cc cg cp cs s0 r" for r
    by (rule triple_pre [OF sweep [OF that] P(2)])
  show ?thesis
    unfolding GC_def
    by (rule keeps_locked [OF _ hassert_quiet P], rule triple_bind [OF ping], rule triple_bind [OF roots], rule triple_pure, erule go)
qed

text \<open>
  C9. Garbage collection never takes what is in use: an object that a live container, a registration, or a pending request
  names, the snapshot of such a candidate, an object younger than the cutoff and an object somebody leases are still
  there, unchanged, after the collection, whichever of its calls fail and wherever the process dies in it.
\<close>

theorem GC_keeps_protected:
  assumes "live = Inr cs" "objectPath kind d = Inr p" "valid_digest d" "lookup s p = Some n"
    and "protected cc cg cp cs (time - gq_min_age req) s kind d"
    and "GC ca cc cg cp ping live time current req s = (x, s')"
  shows "lookup s' p = Some n"
proof -
  let ?P = "held p n (leased s p) (mtimes s p)"
  have D: "fst p \<noteq> BrokerDir" using objectPathD [OF assms(2)] by auto
  have q: "?P t" if "quiet s t" for t
  proof -
    have "lookup t p = lookup s p" "leased t = leased s" "mtimes t = mtimes s" using that D unfolding quiet_def by blast+
    then show ?thesis using assms(4) by simp
  qed
  have sweep: "keeps ?P (gc_sweep ca cc req (time - gq_min_age req) current roots)" if c: "covered cc cg cp cs s roots" for roots
  proof (rule held_gc_sweep [OF assms(2,3)])
    show "guarded roots (time - gq_min_age req) kind d (leased s p) (mtimes s p)"
      using assms(2,3,5) c valid_not_zero [OF assms(3)] by (auto simp: protected_def guarded_def covered_def)
  qed
  have "triple (quiet s) (GC ca cc cg cp ping live time current req) (\<lambda>_. ?P) (\<lambda>_. ?P) ?P"
    by (rule triple_GC [OF assms(1) hassert_held q sweep])
  from tripleD [OF this, of s] assms(6) show ?thesis by (cases x) auto
qed

text \<open>
  C17. Doubt stops the collection: when a live container other than the builder has a label that does not parse, or the daemon
  cannot be asked, the collection fails and has changed nothing on the host.
\<close>

theorem GC_fails_closed:
  assumes "isl ping \<or> isl live \<or>
      (\<exists>cs c. live = Inr cs \<and> deployed cs c \<and>
         (isl (ParseProjectID (label (clabels c) ProjectLabel)) \<or> isl (ParseDigest (label (clabels c) CandidateLabel)) \<or>
          (\<exists>raw. clabels c ArtifactLabel = Some raw \<and> isl (ParseDigest raw))))"
    and "GC ca cc cg cp ping live time current req s = (x, s')"
  shows "(\<forall>r. x \<noteq> Ret r) \<and> tree s' = tree s"
proof -
  let ?P = "\<lambda>t. tree t = tree s"
  have h: "hassert ?P" by (simp add: hassert_def)
  have step: "keeps ?P os_step" by (intro keeps_intros h)
  have roots: "triple ?P (gcRoots ca cc cg cp live) (\<lambda>_ _. False) (\<lambda>_. ?P) ?P" if np: "\<not> isl ping"
  proof (cases live)
    case (Inl e)
    show ?thesis unfolding gcRoots_def Inl io_bind_of_Inl by (rule triple_fail)
  next
    case (Inr cs)
    then obtain c where c: "deployed cs c" "isl (ParseProjectID (label (clabels c) ProjectLabel)) \<or> isl (ParseDigest (label (clabels c) CandidateLabel)) \<or>
          (\<exists>raw. clabels c ArtifactLabel = Some raw \<and> isl (ParseDigest raw))"
      using assms(1) np by auto
    have "rfold root_container cs (no_roots, []) \<noteq> Inr (r, l)" for r l
    proof
      assume "rfold root_container cs (no_roots, []) = Inr (r, l)"
      then have "container_rooted c r" using rfold_root_container c(1) unfolding deployed_def by blast
      then show False using c unfolding container_rooted_def deployed_def by auto
    qed
    then obtain e where e: "rfold root_container cs (no_roots, []) = Inl e" by (cases "rfold root_container cs (no_roots, [])") auto
    show ?thesis
      unfolding gcRoots_def Inr io_bind_of e io_bind_of_Inl by (rule triple_fail)
  qed
  have body: "triple ?P (io_then (io_wrap f as (io_of ping)) (io_bind (gcRoots ca cc cg cp live) k)) (\<lambda>_ _. False) (\<lambda>_. ?P) ?P"
    for f as and k :: "gc_roots \<Rightarrow> gc_result hio"
  proof (cases "isl ping")
    case True
    then have "triple ?P (io_wrap f as (io_of ping)) (\<lambda>_ _. False) (\<lambda>_. ?P) ?P"
      by (intro triple_wrap triple_of) auto
    then show ?thesis by (rule triple_bind) (simp add: triple_def)
  next
    case False
    have p: "keeps ?P (io_wrap f as (io_of ping))" by (intro keeps_ops)
    have "triple ?P (io_bind (gcRoots ca cc cg cp live) k) (\<lambda>_ _. False) (\<lambda>_. ?P) ?P"
      by (rule triple_bind [OF roots [OF False]]) (simp add: triple_def)
    then show ?thesis by (rule triple_bind [OF p])
  qed
  have "triple ?P (io_defer os_step (io_then (io_wrap f as (io_of ping)) (io_bind (gcRoots ca cc cg cp live) k)))
      (\<lambda>_ _. False) (\<lambda>_. ?P) ?P" for f as and k :: "gc_roots \<Rightarrow> gc_result hio"
    by (rule triple_defer [OF body]) (use step in \<open>auto simp: triple_def\<close>)
  then have "triple ?P (GC ca cc cg cp ping live time current req) (\<lambda>_ _. False) (\<lambda>_. ?P) ?P"
    unfolding GC_def by (rule triple_bind [OF step])
  then show ?thesis using stale_result [of ?P _ s x s'] assms(2) by simp
qed


text \<open>An assertion that looks elsewhere than the store is kept when the collected project state is none of its own.\<close>

lemma keeps_RemoveObject_elsewhere:
  assumes h: "hassert P" and w: "\<And>D cs v. D \<in> {Artifacts, Candidates, Snapshots, Staging} \<Longrightarrow> writable P (D, cs) v"
  shows "keeps P (RemoveObject kind d)"
proof (rule keeps_RemoveObject_parts [OF h])
  show rec: "keeps P (removeRecord kind d)"
    unfolding removeRecord_def by (cases kind) (auto intro!: keeps_intros h w)
  fix p assume "objectPath kind d = Inr p"
  then have p: "fst p \<in> {Artifacts, Candidates, Snapshots, Staging}" using objectPathD by blast
  have "keeps P (os_Rename p (Staging, cs))" for cs
    by (rule keeps_Rename [OF h]) (use w [of "fst p" "snd p"] w [of Staging] p in \<open>simp add: writable_def\<close>)
  then show "keeps P (unpublish kind d p)"
    unfolding unpublish_def Let_def os_MkdirTemp_def
    by (intro keeps_intros keeps_CreateTemp h rec w)
      (auto intro!: keeps_intros h rec w split: sum.splits bool.splits)
qed

lemma keeps_gc_sweep:
  assumes h: "hassert P"
    and w: "\<And>D cs v. \<not> gq_dry_run req \<Longrightarrow> D \<in> {Artifacts, Candidates, Snapshots, Staging, Bin, Approvals, DevRecords} \<Longrightarrow>
      writable P (D, cs) v"
    and b: "\<And>m. \<not> gq_dry_run req \<Longrightarrow> m \<notin> gr_registered roots \<Longrightarrow> writable P (BrokerDir, [m]) None"
    and j: "\<And>m i. \<not> gq_dry_run req \<Longrightarrow> replaceFileProject m = Some i \<Longrightarrow> i \<notin> gr_registered roots \<union> gr_live roots \<Longrightarrow>
      writable P (ReplaceDir, [m]) None"
  shows "keeps P (gc_sweep ca cc req cutoff current roots)"
proof -
  have rem: "keeps P (RemoveObject kind d)" if "\<not> gq_dry_run req" for kind d
    by (rule keeps_RemoveObject_elsewhere [OF h]) (rule w [OF that], auto)
  have "keeps P (collect_one req cutoff kind keep d acc)" for kind keep d acc
    unfolding collect_one_def Let_def by (intro keeps_ops keeps_cases keeps_reads h rem)
  then have col: "keeps P (collect req cutoff kind keep acc)" for kind keep acc
    unfolding collect_def by (intro keeps_ops keeps_reads keeps_fold h)
  have "keeps P (collect_orphan req r acc)" for r acc
    unfolding collect_orphan_def
    by (intro keeps_ops keeps_cases keeps_reads h) (auto intro!: keeps_ops rem split: sum.splits bool.splits)
  then have orph: "keeps P (gcOrphanRecords ca cc req roots acc)" for acc
    unfolding gcOrphanRecords_def by (intro keeps_ops keeps_reads keeps_fold h)
  have staging: "keeps P (CleanStaging cutoff (gq_dry_run req))"
    by (rule keeps_CleanStaging_part [OF h]) (rule w, auto)
  have bins: "keeps P (gcBinaries req roots current acc)" for acc
    by (rule keeps_gcBinaries [OF h]) (rule w, auto)
  have state: "keeps P (gcProjectState req roots acc)" for acc
    by (rule keeps_gcProjectState [OF h]) (auto intro: w b j)
  show ?thesis
    unfolding gc_sweep_def by (intro keeps_ops keeps_cases col orph staging bins state)
qed

text \<open>
  C18. The state of a project outlives every collection while the project is registered: no file of its broker
  directory is lost, and neither is its replacement journal, which also stays as long as the project has a live container.
\<close>

theorem GC_keeps_project_state:
  assumes "live = Inr cs" "GC ca cc cg cp ping live time current req s = (x, s')"
    and "(\<exists>i rec rest. recorded cg i rec s \<and> q = (BrokerDir, rr_id rec # rest)) \<or>
      (\<exists>m i. q = (ReplaceDir, [m]) \<and> replaceFileProject m = Some i \<and>
         ((\<exists>k rec. recorded cg k rec s \<and> rr_id rec = i) \<or>
          (\<exists>c. deployed cs c \<and> ParseProjectID (label (clabels c) ProjectLabel) = Inr i)))"
  shows "file_at s' q = file_at s q"
proof -
  let ?P = "\<lambda>t. file_at t q = file_at s q"
  have q: "fst q \<in> {BrokerDir, ReplaceDir}" using assms(3) by auto
  have sweep: "keeps ?P (gc_sweep ca cc req (time - gq_min_age req) current roots)" if c: "covered cc cg cp cs s roots" for roots
  proof (rule keeps_gc_sweep)
    show "hassert ?P" by (rule hassert_file_at)
    fix D cs' v assume "D \<in> {Artifacts, Candidates, Snapshots, Staging, Bin, Approvals, DevRecords}"
    then have "path_apart q (D, cs')" using q by (auto simp: path_apart_def)
    then show "writable ?P (D, cs') v" by (simp add: writable_def)
  next
    fix m assume m: "m \<notin> gr_registered roots"
    have "path_apart q (BrokerDir, [m])"
      using assms(3) m c by (auto simp: path_apart_def covered_def)
    then show "writable ?P (BrokerDir, [m]) None" by (simp add: writable_def)
  next
    fix m i assume m: "replaceFileProject m = Some i" "i \<notin> gr_registered roots \<union> gr_live roots"
    have "path_apart q (ReplaceDir, [m])"
      using assms(3) m c by (auto simp: path_apart_def covered_def)
    then show "writable ?P (ReplaceDir, [m]) None" by (simp add: writable_def)
  qed
  have "triple (quiet s) (GC ca cc cg cp ping live time current req) (\<lambda>_. ?P) (\<lambda>_. ?P) ?P"
    by (rule triple_GC [OF assms(1) hassert_file_at _ sweep]) (simp_all add: quiet_def)
  from tripleD [OF this, of s] assms(2) show ?thesis by (cases x) auto
qed

text \<open>
  C19. A dry run removes nothing: afterwards every file has its content, and outside the broker's directory, where
  empty directories of registered projects may have appeared, every entry is as it was.
\<close>

theorem GC_dry_run:
  assumes "gq_dry_run req" "GC ca cc cg cp ping live time current req s = (x, s')"
  shows "file_at s' = file_at s \<and> (\<forall>q. fst q \<noteq> BrokerDir \<longrightarrow> lookup s' q = lookup s q)"
proof (cases live)
  case (Inl e)
  let ?P = "\<lambda>t. tree t = tree s"
  have step: "keeps ?P os_step" by (intro keeps_intros) (simp add: hassert_def)
  have "keeps ?P (GC ca cc cg cp ping live time current req)"
    unfolding GC_def gcRoots_def Inl io_bind_of_Inl io_bind_fail
    by (intro keeps_ops step)
  then have "tree s' = tree s" using assms(2) keeps_result [of ?P _ s] by fastforce
  then show ?thesis by (simp add: file_at_def lookup_def fun_eq_iff)
next
  case (Inr cs)
  have "triple (quiet s) (GC ca cc cg cp ping live time current req) (\<lambda>_. quiet s) (\<lambda>_. quiet s) (quiet s)"
    by (rule triple_GC [OF Inr hassert_quiet _ keeps_gc_sweep [OF hassert_quiet]]) (use assms(1) in auto)
  from tripleD [OF this, of s] assms(2) have "quiet s s'" by (cases x) auto
  then show ?thesis by (simp add: quiet_def)
qed


section \<open>An instance\<close>

text \<open>Two artifacts, of which a live container names one, an unregistered project's journal, and a registered project.\<close>

definition demo_other :: digest where
  "demo_other = \<lparr>algorithm = sha256Alg, hex = replicate 64 (CHR ''1'')\<rparr>"

definition demo_ctr :: ctr where
  "demo_ctr = \<lparr>cid = ''c1'', cname = ''n1'', cimage = ''i'', crunning = True, cexit = 0,
     clabels = [ProjectLabel \<mapsto> replicate 26 (CHR ''a''), CandidateLabel \<mapsto> Digest_String demo_other,
       ArtifactLabel \<mapsto> Digest_String demo_digest]\<rparr>"

definition demo_mislabelled :: ctr where
  "demo_mislabelled = demo_ctr\<lparr>clabels := [CandidateLabel \<mapsto> Digest_String demo_other]\<rparr>"

definition demo_gc_host :: host where
  "demo_gc_host = demo_registry\<lparr>tree := (tree demo_registry)(
     Artifacts \<mapsto> Directory [(hex demo_digest, Directory []), (hex demo_other, Directory [])],
     Candidates \<mapsto> Directory [(hex demo_other @ record_suffix, RegularFile 0x180 (''C'' @ [CHR 0x0A]))],
     Snapshots \<mapsto> Directory [], Staging \<mapsto> Directory [],
     ReplaceDir \<mapsto> Directory [(replicate 26 (CHR ''a'') @ ''.json'', RegularFile 0x180 ''{}'')])\<rparr>"

definition demo_candidate_codec :: "candidate_record codec" where
  "demo_candidate_codec = table_codec 1 [(''C'', \<lparr>cd_format = 1, cd_digest = demo_other, cd_project = replicate 26 (CHR ''a''),
     cd_kind = ''local'', cd_snapshot = demo_digest, cd_plan = demo_digest, cd_extension = None, cd_images = [], cd_created_at = 0\<rparr>)]"

abbreviation demo_gc :: "bool \<Rightarrow> ctr \<Rightarrow> gc_result res \<times> host" where
  "demo_gc dry c \<equiv> GC (table_codec 1 []) demo_candidate_codec demo_codec demo_pending_codec (Inr ()) (Inr [c]) 100 None
     \<lparr>gq_dry_run = dry, gq_min_age = 10\<rparr> demo_gc_host"

lemma demo_gc_lookups:
  "objectPath ArtifactObject demo_digest = Inr (Artifacts, [hex demo_digest])"
  "lookup demo_gc_host (Artifacts, [hex demo_digest]) = Some (Directory [])"
  by code_simp+

lemma gc_demo_digest_valid: "valid_digest demo_digest"
  by code_simp

lemma demo_ctr_labels:
  "label (clabels demo_ctr) RoleLabel \<noteq> BuilderRole" "ParseDigest (Digest_String demo_digest) = Inr demo_digest"
  "clabels demo_ctr ArtifactLabel = Some (Digest_String demo_digest)"
  "ParseProjectID (label (clabels demo_ctr) ProjectLabel) = Inr (replicate 26 (CHR ''a''))"
  by code_simp+

theorem GC_keeps_protected_witness:
  "lookup (snd (demo_gc False demo_ctr)) (Artifacts, [hex demo_digest]) = Some (Directory [])"
proof -
  have "protected demo_candidate_codec demo_codec demo_pending_codec [demo_ctr] t demo_gc_host ArtifactObject demo_digest" for t
    using demo_ctr_labels by (auto simp: protected_def referenced_def artifact_referenced_def deployed_def)
  from GC_keeps_protected [OF refl demo_gc_lookups(1) gc_demo_digest_valid demo_gc_lookups(2) this prod.collapse [symmetric]]
  show ?thesis by simp
qed

theorem GC_fails_closed_witness:
  "(\<forall>r. fst (demo_gc False demo_mislabelled) \<noteq> Ret r) \<and> tree (snd (demo_gc False demo_mislabelled)) = tree demo_gc_host"
proof -
  have "label (clabels demo_mislabelled) RoleLabel \<noteq> BuilderRole" "isl (ParseProjectID (label (clabels demo_mislabelled) ProjectLabel))"
    by code_simp+
  then show ?thesis
    using GC_fails_closed [OF _ prod.collapse [symmetric], where live = "Inr [demo_mislabelled]"] by (simp add: deployed_def)
qed

theorem GC_keeps_project_state_witness:
  "file_at (snd (demo_gc False demo_ctr)) (ReplaceDir, [replicate 26 (CHR ''a'') @ ''.json'']) = Some ''{}''"
proof -
  have f: "file_at demo_gc_host (ReplaceDir, [replicate 26 (CHR ''a'') @ ''.json'']) = Some ''{}''"
    and r: "replaceFileProject (replicate 26 (CHR ''a'') @ ''.json'') = Some (replicate 26 (CHR ''a''))" by code_simp+
  have "file_at (snd (demo_gc False demo_ctr)) (ReplaceDir, [replicate 26 (CHR ''a'') @ ''.json'']) =
      file_at demo_gc_host (ReplaceDir, [replicate 26 (CHR ''a'') @ ''.json''])"
  proof (rule GC_keeps_project_state [OF refl prod.collapse [symmetric]], rule disjI2, intro exI conjI)
    show "(ReplaceDir, [replicate 26 (CHR ''a'') @ ''.json'']) = (ReplaceDir, [replicate 26 (CHR ''a'') @ ''.json''])" ..
    show "replaceFileProject (replicate 26 (CHR ''a'') @ ''.json'') = Some (replicate 26 (CHR ''a''))" by (rule r)
    show "(\<exists>k rec. recorded demo_codec k rec demo_gc_host \<and> rr_id rec = replicate 26 (CHR ''a'')) \<or>
      (\<exists>c. deployed [demo_ctr] c \<and> ParseProjectID (label (clabels c) ProjectLabel) = Inr (replicate 26 (CHR ''a'')))"
      using demo_ctr_labels by (auto simp: deployed_def)
  qed
  then show ?thesis using f by simp
qed

theorem GC_dry_run_witness:
  "lookup (snd (demo_gc True demo_ctr)) (Artifacts, [hex demo_other]) = lookup demo_gc_host (Artifacts, [hex demo_other])"
  using GC_dry_run [OF _ prod.collapse [symmetric], where req = "\<lparr>gq_dry_run = True, gq_min_age = 10\<rparr>"] by simp

end
