(* ===== verification/Staging.thy ===== *)
theory Staging
  imports Store GoPath Utf8
begin

text \<open>
  Building a tree in store staging, as the snapshot service and the release acquisition do it: a fresh directory,
  files made below it one by one, and a publish at the end. The rules pin down the regular files of the whole
  host, so that what a build adds to its staging directory, and that it adds nothing anywhere else, can be
  read off them.
\<close>

section \<open>Slash paths\<close>

text \<open>\<^verbatim>\<open>fs.ValidPath\<close>.\<close>

definition ValidPath :: "string \<Rightarrow> bool" where
  "ValidPath p = (utf8_valid p \<and>
     (p = ''.'' \<or> list_all (\<lambda>e. e \<noteq> '''' \<and> e \<noteq> ''.'' \<and> e \<noteq> ''..'') (split_on (CHR ''/'') p)))"

text \<open>A slash path below the staging directory.\<close>

definition staged_path :: "hpath \<Rightarrow> string \<Rightarrow> hpath" where
  "staged_path stg p = (fst stg, snd stg @ elems p)"

lemma tree_path_join: "tree_path cs = join ''/'' cs"
proof (cases cs)
  case (Cons c ds)
  have merge: "join ''/'' ((c @ CHR ''/'' # d) # ds) = c @ CHR ''/'' # join ''/'' (d # ds)" for c d ds
    by (cases ds) simp_all
  have "path_text c ds = join ''/'' (c # ds)" for c
    by (induction ds arbitrary: c) (simp_all add: merge)
  then show ?thesis by (simp add: Cons)
qed simp

lemma elems_join_elems: "elems p \<noteq> [] \<Longrightarrow> elems (join ''/'' (elems p)) = elems p"
proof -
  assume "elems p \<noteq> []"
  then have "split_on (CHR ''/'') (join ''/'' (elems p)) = elems p"
    by (intro split_on_join_clean) (auto dest: elems_elem)
  then show ?thesis unfolding elems_def [of "join ''/'' (elems p)"] by (auto simp: filter_id_conv dest: elems_elem)
qed

section \<open>Files below staging\<close>

type_synonym files = "hpath \<Rightarrow> (32 word \<times> string) option"

definition holding :: "hdir \<Rightarrow> files \<Rightarrow> host \<Rightarrow> bool" where
  "holding D F s \<longleftrightarrow> file_node s = F \<and> wf_dir D s"

abbreviation snaps :: "(host \<Rightarrow> bool) \<Rightarrow> 'a hio \<Rightarrow> ('a \<Rightarrow> host \<Rightarrow> bool) \<Rightarrow> bool" where
  "snaps P m Q \<equiv> triple P m Q (\<lambda>_ _. True) (\<lambda>_. True)"

lemma snaps_fail: "snaps P (io_fail e) Q"
  by (rule triple_fail) simp

lemma snaps_MkdirAll: "fst p = D \<Longrightarrow> snaps (holding D F) (os_MkdirAll p) (\<lambda>_. holding D F)"
  unfolding holding_def by (rule triple_post [OF keeps_MkdirAll_files]) simp_all

lemma triple_NewStaging:
  assumes "list_all (\<lambda>c. c \<noteq> CHR ''/'' \<and> c \<noteq> CHR 0x00) pattern"
  shows "snaps (wf_dir Staging) (NewStaging pattern)
    (\<lambda>stg s. (fst stg = Staging \<and> snd stg \<noteq> [] \<and> list_all file_name (snd stg)) \<and> wf_dir Staging s \<and>
      lookup s stg = Some (Directory []))"
proof -
  have name: "file_name ((pattern @ ''-'') @ itoa x)" for x
    using assms itoa_no_char [of "CHR ''/''" x] itoa_no_char [of "CHR 0x00" x]
    by (auto simp: file_name_def list_all_iff is_digit_def)
  have temp: "snaps (wf_dir Staging) (os_MkdirTemp (Staging, []) (pattern @ ''-''))
      (\<lambda>n s. file_name n \<and> wf_dir Staging s \<and> lookup s (Staging, [n]) = Some (Directory []))"
    unfolding os_MkdirTemp_def
    by (rule triple_post [OF triple_CreateTemp]) (use name in \<open>auto intro: hassert_intros wf_put\<close>)
  have step: "snaps P (io_try os_step) (\<lambda>r s. case r of Inr _ \<Rightarrow> P s | Inl _ \<Rightarrow> True)" if "hassert P" for P
    unfolding os_step_def by (rule triple_try, rule triple_hquery [OF that]) simp_all
  show ?thesis
    unfolding NewStaging_def
  proof (rule triple_bind [OF triple_wrap [OF temp]], rule triple_bind [OF step])
    show "hassert (\<lambda>s. file_name n \<and> wf_dir Staging s \<and> lookup s (Staging, [n]) = Some (Directory []))" for n
      by (intro hassert_intros)
    show "snaps (\<lambda>s. case r of Inr _ \<Rightarrow> file_name n \<and> wf_dir Staging s \<and> lookup s (Staging, [n]) = Some (Directory []) | Inl _ \<Rightarrow> True)
        (case r of
           Inr _ \<Rightarrow> io_ret (Staging, [n])
         | Inl e \<Rightarrow> io_then (io_try (os_RemoveAll (Staging, [n]))) (io_fail (Wrapped ''create staging: %w'' [] e)))
        (\<lambda>stg s. (fst stg = Staging \<and> snd stg \<noteq> [] \<and> list_all file_name (snd stg)) \<and> wf_dir Staging s \<and>
          lookup s stg = Some (Directory []))" for n r
      by (cases r) (auto simp: triple_def io_ret_def io_bind_def io_fail_def split: prod.splits res.splits)
  qed
qed

text \<open>A publish that returns leaves an object under the name it returns.\<close>

definition present :: "hpath \<Rightarrow> host \<Rightarrow> bool" where
  "present p s \<longleftrightarrow> lookup s p \<noteq> None"

lemma hassert_present [hassert_intros]: "hassert (present p)"
  by (simp add: hassert_def present_def)

lemma present_writable: "path_apart p q \<Longrightarrow> writable (present p) q v"
  by (simp add: writable_def present_def)

lemma snaps_any: "snaps P m (\<lambda>_ _. True)"
  by (simp add: triple_def split: prod.splits res.splits)

lemma snaps_keeps: "keeps P m \<Longrightarrow> snaps P m (\<lambda>_. P)"
  by (erule triple_post) simp_all

lemma snaps_Rename:
  assumes "fst p \<noteq> fst q" "snd q \<noteq> []"
  shows "snaps (\<lambda>_. True) (os_Rename p q) (\<lambda>_. present q)"
  unfolding os_Rename_def
proof (rule triple_hcall, goal_cases)
  case (2 s s' x)
  have apart: "path_apart (fst q, cs) p" for cs using assms(1) by (simp add: path_apart_def)
  have "has_parent (put p None s) q" if "has_parent s q"
    using that by (simp add: has_parent_def lookup_put_apart [OF apart])
  then have "present q (put q (Some n) (put p None s))" if "has_parent s q" for n
    using that lookup_put_written [OF assms(2)] by (simp add: present_def)
  then show ?case using 2(2) by (auto simp: present_def split: option.splits node.splits if_splits)
qed (auto intro: hassert_intros)

lemma snaps_publish_verified:
  assumes "fst staged = Staging" "fst (ob_path obj) \<noteq> Staging" "snd (ob_path obj) \<noteq> []"
  shows "snaps (\<lambda>_. True) (publish_verified staged obj) (\<lambda>obj' s. obj' = obj \<and> present (ob_path obj) s)"
proof -
  let ?there = "present (ob_path obj)"
  have apart: "path_apart (ob_path obj) staged" using assms by (simp add: path_apart_def)
  have d: "snaps ?there (discard staged obj) (\<lambda>obj' s. obj' = obj \<and> ?there s)"
    unfolding discard_def
    by (rule triple_bind [OF snaps_keeps]) (intro keeps_intros hassert_intros present_writable apart, auto intro: triple_ret)
  have look: "snaps (\<lambda>_. True) (io_try (os_Lstat (ob_path obj)))
      (\<lambda>r s. case r of Inr (Some n) \<Rightarrow> ?there s | _ \<Rightarrow> True)"
    unfolding os_Lstat_def
    by (rule triple_try, rule triple_hquery) (auto intro: hassert_intros simp: present_def split: option.splits)
  have pub: "snaps (\<lambda>_. True) (io_then (io_wrap ''sync staged %s: %w'' [k] (sync_path staged))
            (io_bind (io_wrap ''publish %s: %w'' [k] (os_Rename staged (ob_path obj))) (\<lambda>renamed.
             if renamed then io_then (io_wrap ''publish %s: %w'' [k] os_step) (io_ret obj)
             else discard staged obj))) (\<lambda>obj' s. obj' = obj \<and> ?there s)" for k
  proof (rule triple_bind [OF snaps_any], rule triple_bind [OF triple_wrap [OF snaps_Rename]], goal_cases)
    case (3 x renamed)
    show ?case
      by (cases renamed) (auto intro!: d triple_bind [OF triple_wrap [OF snaps_keeps [OF keeps_queries(4)]]] hassert_intros triple_ret)
  qed (use assms in auto)
  show ?thesis
    unfolding publish_verified_def Let_def
  proof (rule triple_bind [OF look])
    fix r :: "error + node option"
    show "snaps (\<lambda>s. case r of Inr (Some n) \<Rightarrow> ?there s | _ \<Rightarrow> True)
        (case r of
          Inr (Some _) \<Rightarrow> discard staged obj
        | _ \<Rightarrow>
            io_then (io_wrap ''sync staged %s: %w'' [kind_text (ob_kind obj)] (sync_path staged))
            (io_bind (io_wrap ''publish %s: %w'' [kind_text (ob_kind obj)] (os_Rename staged (ob_path obj))) (\<lambda>renamed.
             if renamed then io_then (io_wrap ''publish %s: %w'' [kind_text (ob_kind obj)] os_step) (io_ret obj)
             else discard staged obj))) (\<lambda>obj' s. obj' = obj \<and> ?there s)"
      using d pub by (auto split: sum.split option.split)
  qed
qed

lemma snaps_Publish:
  assumes "fst stg = Staging"
  shows "snaps (\<lambda>_. True) (Publish sha kind stg d)
    (\<lambda>obj s. (ob_digest obj = d \<and> objectPath kind d = Inr (ob_path obj)) \<and> present (ob_path obj) s)"
proof -
  let ?Q = "\<lambda>obj s. (ob_digest obj = d \<and> objectPath kind d = Inr (ob_path obj)) \<and> present (ob_path obj) s"
  have w: "snaps (\<lambda>_. True) (io_then os_step (io_defer os_step (publish_verified stg \<lparr>ob_kind = kind, ob_digest = d, ob_path = p\<rparr>))) ?Q"
    if "objectPath kind d = Inr p" for p
  proof -
    have keep: "triple (?Q obj) os_step (\<lambda>_. ?Q obj) (\<lambda>_. ?Q obj) (\<lambda>_. True)" for obj :: object_ref
      by (rule triple_post [OF keeps_queries(4)]) (auto simp: hassert_def present_def)
    show ?thesis
      by (rule triple_bind [OF snaps_any], rule triple_defer [OF triple_post [OF snaps_publish_verified] keep snaps_any])
        (use that assms objectPathD [OF that] in auto)
  qed
  show ?thesis
    unfolding Publish_def
  proof (rule triple_bind [OF triple_of [where Q = "\<lambda>p _. objectPath kind d = Inr p \<and> True"]],
      simp, simp, rule triple_pure, rule triple_bind [OF snaps_any], rule triple_if)
    fix p got assume "objectPath kind d = Inr p"
    from w [OF this] show "snaps (\<lambda>_. True)
        (io_then os_step (io_defer os_step (publish_verified stg \<lparr>ob_kind = kind, ob_digest = d, ob_path = p\<rparr>))) ?Q" .
  qed (rule snaps_fail)
qed

text \<open>Operations that write to staging alone.\<close>

definition staging_free :: "(host \<Rightarrow> bool) \<Rightarrow> bool" where
  "staging_free P \<longleftrightarrow> hassert P \<and> (\<forall>cs v. writable P (Staging, cs) v)"

lemma staging_freeD: "staging_free P \<Longrightarrow> hassert P" "staging_free P \<Longrightarrow> fst p = Staging \<Longrightarrow> writable P p v"
  by (cases p; simp add: staging_free_def)+

lemma keeps_staging_MkdirAll: "staging_free P \<Longrightarrow> fst p = Staging \<Longrightarrow> keeps P (os_MkdirAll p)"
  by (rule keeps_MkdirAll_dir) (auto simp: staging_free_def writable_def)

lemma staging_free_content: "staging_free (content_addressed sha)"
  by (simp add: staging_free_def hassert_content content_writable_elsewhere)

lemma content_NewStaging:
  "triple (content_addressed sha) (NewStaging pattern) (\<lambda>stg s. fst stg = Staging \<and> content_addressed sha s)
     (\<lambda>_. content_addressed sha) (content_addressed sha)"
proof -
  have "triple (\<lambda>_. True) (NewStaging pattern) (\<lambda>stg _. fst stg = Staging) (\<lambda>_ _. True) (\<lambda>_. True)"
    by (auto simp: NewStaging_def triple_def io_bind_def io_try_def io_wrap_def io_ret_def io_fail_def
        split: prod.splits res.splits sum.splits)
  from triple_conj [OF this keeps_NewStaging [of sha pattern]] show ?thesis by simp
qed

end
