(* ===== verification/Snapshot.thy ===== *)
theory Snapshot
  imports Registry Staging
begin

text \<open>
  Freezing workspace inputs (\<^verbatim>\<open>internal/snapshot\<close>): an allowlist of paths is copied from the project root into
  store staging, digested and published. The workspace is not ours: what the walker sees of it, each
  \<^verbatim>\<open>lstat\<close>, directory listing, descriptor and read, is an arbitrary value per entry, so that a file may
  change between any two looks at it. The theorem says that a snapshot that is returned holds exactly the regular,
  singly-linked, unchanged files under the entries that were asked for, within the limits.
\<close>

section \<open>Limits (limits.go)\<close>

record snap_limits =
  lm_files :: int
  lm_file_bytes :: int
  lm_total :: int
  lm_depth :: int

definition SnapDefaults :: snap_limits where
  "SnapDefaults = \<lparr>lm_files = 10000, lm_file_bytes = 67108864, lm_total = 268435456, lm_depth = 32\<rparr>"

definition withDefaults :: "snap_limits \<Rightarrow> snap_limits" where
  "withDefaults l =
     \<lparr>lm_files = (if lm_files l \<le> 0 then lm_files SnapDefaults else lm_files l),
      lm_file_bytes = (if lm_file_bytes l \<le> 0 then lm_file_bytes SnapDefaults else lm_file_bytes l),
      lm_total = (if lm_total l \<le> 0 then lm_total SnapDefaults else lm_total l),
      lm_depth = (if lm_depth l \<le> 0 then lm_depth SnapDefaults else lm_depth l)\<rparr>"

section \<open>The workspace as the walker sees it\<close>

text \<open>The type bits of a Go \<^verbatim>\<open>fs.FileMode\<close> that the walker tells apart.\<close>

datatype ftype = TRegular | TDir | TSymlink | TSocket | TDevice | TFifo | TIrregular

record fstat =
  fs_type :: ftype
  fs_perm :: "32 word"
  fs_nlink :: nat
  fs_size :: nat
  fs_mtime :: int

text \<open>
  One opened file: its \<^verbatim>\<open>fstat\<close> before and after the copy, the bytes that reading would yield, and how
  reading ends after them (None is the end of the file).
\<close>

record fobs =
  fo_before :: "error + fstat"
  fo_bytes :: string
  fo_end :: "error option"
  fo_after :: "error + fstat"

text \<open>What \<^verbatim>\<open>fs.WalkDir\<close> meets: a file to open, a directory that may fail to list, or anything else.\<close>

datatype wnode = WFile "error + fobs" | WDir "error + (string \<times> wnode) list" | WOther ftype

record entry_view =
  ev_canceled :: bool
  ev_lstat :: "(error + ftype) option"
  ev_file :: "error + fobs"
  ev_walk :: "error + wnode"

record root_view =
  rv_open :: "error + unit"
  rv_identity :: "error + file_identity"

record snap_entry =
  en_source :: string
  en_dest :: string
  en_optional :: bool

record snap_spec =
  sp_root :: root
  sp_entries :: "snap_entry list"
  sp_limits :: snap_limits

section \<open>The walker (walk.go)\<close>

definition newWalker :: "root_view \<Rightarrow> root \<Rightarrow> snap_limits \<Rightarrow> error + snap_limits" where
  "newWalker v root lim =
     (case rv_open v of
        Inl e \<Rightarrow> Inl (Wrapped ''open project root: %w'' [] e)
      | Inr _ \<Rightarrow>
          (case rv_identity v of
             Inl e \<Rightarrow> Inl (Wrapped ''stat project root: %w'' [] e)
           | Inr got \<Rightarrow>
               if got \<noteq> ro_identity root
               then Inl (Class ErrConflict ''%w: project root %s changed identity'' [ro_path root])
               else Inr (withDefaults lim)))"

definition validateRel :: "string \<Rightarrow> error option" where
  "validateRel p =
     (if p = '''' \<or> p = ''.'' then Some (Plain ''empty path'' [])
      else if has_prefix p ''/'' then Some (Plain ''must be relative'' [])
      else if CHR 0x5C \<in> set p then Some (Plain ''must use forward slashes'' [])
      else if path_clean p \<noteq> p \<or> p = ''..'' \<or> has_prefix p ''../''
      then Some (Plain ''must be a clean path inside the workspace'' [])
      else None)"

fun reject_kind :: "ftype \<Rightarrow> string" where
  "reject_kind TSymlink = ''symlink''"
| "reject_kind TSocket = ''socket''"
| "reject_kind TDevice = ''device''"
| "reject_kind TFifo = ''FIFO''"
| "reject_kind _ = ''special file''"

definition reject_type :: "string \<Rightarrow> ftype \<Rightarrow> error" where
  "reject_type p t = Class ErrInvalid ''%w: %s is a %s; snapshots accept regular files and directories only'' [p, reject_kind t]"

definition changedDuringCopy :: "fstat \<Rightarrow> fstat \<Rightarrow> nat \<Rightarrow> bool" where
  "changedDuringCopy st after copied \<longleftrightarrow>
     copied \<noteq> fs_size st \<or> fs_size after \<noteq> fs_size st \<or> fs_mtime after \<noteq> fs_mtime st"

text \<open>Counters of the walk; the byte total is a Go \<^verbatim>\<open>int64\<close>.\<close>

record counters =
  ct_files :: nat
  ct_total :: "64 word"

definition file_perm :: "32 word \<Rightarrow> fstat \<Rightarrow> 32 word" where
  "file_perm um st = (if fs_perm st AND 0x40 \<noteq> 0 then 0x1ED else 0x1A4) AND NOT um"

text \<open>The copy proper, once the descriptor has passed the checks.\<close>

definition copy_bytes :: "32 word \<Rightarrow> hpath \<Rightarrow> string \<Rightarrow> string \<Rightarrow> fobs \<Rightarrow> fstat \<Rightarrow> unit hio" where
  "copy_bytes um stg src dst f st =
     (let target = staged_path stg dst;
          n = min (length (fo_bytes f)) (fs_size st + 1) in
      io_then (os_MkdirAll (fst target, butlast (snd target)))
      (io_then (io_wrap ''stage %s: %w'' [dst] (os_OpenExcl target (file_perm um st)))
      (io_then (io_wrap ''copy %s: %w'' [src] (os_Write target (take n (fo_bytes f))))
        (case (if n < fs_size st + 1 then fo_end f else None) of
           Some e \<Rightarrow> io_fail (Wrapped ''copy %s: %w'' [src] e)
         | None \<Rightarrow>
             (case fo_after f of
                Inl e \<Rightarrow> io_fail (Wrapped ''stat %s: %w'' [src] e)
              | Inr after \<Rightarrow>
                  if changedDuringCopy st after n
                  then io_fail (Class ErrConflict ''%w: %s changed during snapshot'' [src])
                  else io_ret ())))))"

definition copyFile :: "snap_limits \<Rightarrow> 32 word \<Rightarrow> hpath \<Rightarrow> string \<Rightarrow> string \<Rightarrow> int \<Rightarrow> error + fobs \<Rightarrow> counters \<Rightarrow> counters hio" where
  "copyFile L um stg src dst depth opened b =
     (if depth > lm_depth L then io_fail (Class ErrInvalid ''%w: %s exceeds depth %d'' [src, itoa_int (lm_depth L)])
      else let b1 = b\<lparr>ct_files := ct_files b + 1\<rparr> in
      if int (ct_files b1) > lm_files L
      then io_fail (Class ErrInvalid ''%w: snapshot exceeds %d files'' [itoa_int (lm_files L)])
      else (case opened of
              Inl e \<Rightarrow> io_fail (Wrapped ''open %s: %w'' [src] e)
            | Inr f \<Rightarrow>
                (case fo_before f of
                   Inl e \<Rightarrow> io_fail (Wrapped ''stat %s: %w'' [src] e)
                 | Inr st \<Rightarrow>
                     if fs_type st \<noteq> TRegular then io_fail (reject_type src (fs_type st))
                     else if fs_nlink st > 1
                     then io_fail (Class ErrInvalid ''%w: %s is hard-linked (%d links)'' [src, itoa (fs_nlink st)])
                     else if int (fs_size st) > lm_file_bytes L
                     then io_fail (Class ErrInvalid ''%w: %s exceeds %d bytes'' [src, itoa_int (lm_file_bytes L)])
                     else let b2 = b1\<lparr>ct_total := ct_total b1 + of_nat (fs_size st)\<rparr> in
                     if sint (ct_total b2) > lm_total L
                     then io_fail (Class ErrInvalid ''%w: snapshot exceeds %d total bytes'' [itoa_int (lm_total L)])
                     else io_then (copy_bytes um stg src dst f st) (io_ret b2))))"

text \<open>
  The walk of a directory in the order of \<^verbatim>\<open>fs.WalkDir\<close>: what is still to be visited, by its path below
  the walk's root (\<^verbatim>\<open>.\<close> is the root itself).
\<close>

definition sub_path :: "string \<Rightarrow> string \<Rightarrow> string" where
  "sub_path p n = (if p = ''.'' then n else p @ ''/'' @ n)"

definition below_path :: "string \<Rightarrow> string \<Rightarrow> string" where
  "below_path base p = (if p = ''.'' then base else base @ ''/'' @ p)"

definition path_depth :: "string \<Rightarrow> int" where
  "path_depth p = 1 + int (length (filter (\<lambda>c. c = CHR ''/'') p))"

definition listed :: "string \<Rightarrow> (string \<times> wnode) list \<Rightarrow> (string \<times> wnode) list" where
  "listed p ch = map (\<lambda>(n, x). (sub_path p n, x)) (sort_key fst ch)"

fun wnode_count :: "wnode \<Rightarrow> nat" where
  "wnode_count (WDir (Inr ch)) = Suc (sum_list (map (\<lambda>(n, x). wnode_count x) ch))"
| "wnode_count _ = 1"

lemma wnode_count_pos: "0 < wnode_count n"
  by (cases n rule: wnode_count.cases) simp_all

abbreviation walk_size :: "(string \<times> wnode) list \<Rightarrow> nat" where
  "walk_size ps \<equiv> sum_list (map (\<lambda>(p, n). wnode_count n) ps)"

lemma walk_size_listed: "walk_size (listed p ch) = sum_list (map (\<lambda>(n, x). wnode_count x) ch)"
proof -
  have "sum_list (map g (sort_key fst ch)) = sum_list (map g ch)" for g :: "string \<times> wnode \<Rightarrow> nat"
    by (metis mset_map mset_sort sum_mset_sum_list)
  then show ?thesis by (simp add: listed_def split_def o_def)
qed

function snap_walk :: "snap_limits \<Rightarrow> 32 word \<Rightarrow> hpath \<Rightarrow> string \<Rightarrow> string \<Rightarrow> (string \<times> wnode) list \<Rightarrow> counters \<Rightarrow> counters hio" where
  "snap_walk L um stg src dst [] b = io_ret b"
| "snap_walk L um stg src dst ((p, x) # ps) b =
     (if path_depth p > lm_depth L
      then io_fail (Class ErrInvalid ''%w: %s/%s exceeds depth %d'' [src, p, itoa_int (lm_depth L)])
      else case x of
        WFile opened \<Rightarrow>
          io_bind (copyFile L um stg (below_path src p) (below_path dst p) (path_depth p) opened b)
            (snap_walk L um stg src dst ps)
      | WOther t \<Rightarrow> io_fail (reject_type (below_path src p) t)
      | WDir r \<Rightarrow>
          io_then (os_MkdirAll (staged_path stg (below_path dst p)))
            (case (if ValidPath p then r else Inl (Plain ''invalid name'' [])) of
               Inl e \<Rightarrow> io_fail (Wrapped ''walk %s: %w'' [src] e)
             | Inr ch \<Rightarrow> snap_walk L um stg src dst (listed p ch @ ps) b))"
  by pat_completeness auto
termination
  by (relation "measure (\<lambda>(L, um, stg, src, dst, ps, b). walk_size ps)")
    (auto simp: walk_size_listed wnode_count_pos split: if_splits)

definition copyDir :: "snap_limits \<Rightarrow> 32 word \<Rightarrow> hpath \<Rightarrow> string \<Rightarrow> string \<Rightarrow> error + wnode \<Rightarrow> counters \<Rightarrow> counters hio" where
  "copyDir L um stg src dst view b =
     (if \<not> ValidPath src then io_fail (Wrapped ''open %s: %w'' [src] (Plain ''invalid name'' []))
      else case view of
        Inl e \<Rightarrow> io_fail (Wrapped ''walk %s: %w'' [src] e)
      | Inr x \<Rightarrow> snap_walk L um stg src dst [(''.'', x)] b)"

definition copyEntry :: "snap_limits \<Rightarrow> 32 word \<Rightarrow> hpath \<Rightarrow> snap_entry \<Rightarrow> entry_view \<Rightarrow> counters \<Rightarrow> counters hio" where
  "copyEntry L um stg e v b =
     (case validateRel (en_source e) of
        Some _ \<Rightarrow> io_fail (Class ErrInvalid ''%w: snapshot source %q: %v'' [en_source e])
      | None \<Rightarrow>
     (case validateRel (en_dest e) of
        Some _ \<Rightarrow> io_fail (Class ErrInvalid ''%w: snapshot dest %q: %v'' [en_dest e])
      | None \<Rightarrow>
     (case ev_lstat v of
        None \<Rightarrow>
          if en_optional e then io_ret b
          else io_fail (Class ErrNotFound ''%w: snapshot input %s'' [en_source e])
      | Some (Inl er) \<Rightarrow> io_fail (Wrapped ''stat %s: %w'' [en_source e] er)
      | Some (Inr TRegular) \<Rightarrow> copyFile L um stg (en_source e) (en_dest e) 1 (ev_file v) b
      | Some (Inr TDir) \<Rightarrow> copyDir L um stg (en_source e) (en_dest e) (ev_walk v) b
      | Some (Inr t) \<Rightarrow> io_fail (reject_type (en_source e) t))))"

section \<open>The service (snapshot.go)\<close>

record snap_file =
  sf_path :: string
  sf_size :: nat
  sf_mode :: "32 word"
  sf_digest :: digest

record snap_result =
  sn_digest :: digest
  sn_path :: hpath
  sn_files :: "snap_file list"
  sn_bytes :: "64 word"

definition result_files :: "tree_entry list \<Rightarrow> snap_file list" where
  "result_files es =
     map (\<lambda>e. \<lparr>sf_path = te_path e, sf_size = te_size e, sf_mode = te_mode e, sf_digest = te_digest e\<rparr>)
       (filter (\<lambda>e. te_type e = CHR ''f'') es)"

definition snapshot_result :: "object_ref \<Rightarrow> tree_entry list \<Rightarrow> snap_result" where
  "snapshot_result obj es =
     \<lparr>sn_digest = ob_digest obj, sn_path = ob_path obj, sn_files = result_files es,
      sn_bytes = sum_list (map (\<lambda>f. of_nat (sf_size f)) (result_files es))\<rparr>"

definition copy_entries :: "snap_limits \<Rightarrow> 32 word \<Rightarrow> hpath \<Rightarrow> (snap_entry \<times> entry_view) list \<Rightarrow> counters \<Rightarrow> counters hio" where
  "copy_entries L um stg =
     io_fold (\<lambda>(e, v) b.
       if ev_canceled v then io_fail (Class ErrCanceled ''%w: snapshot: %v'' [])
       else copyEntry L um stg e v b)"

text \<open>
  \<^verbatim>\<open>Create\<close>. The views are what the walker sees of each entry; \<open>um\<close> is the umask of the process.
\<close>

definition snapshot_Create ::
  "(string \<Rightarrow> string) \<Rightarrow> 32 word \<Rightarrow> root_view \<Rightarrow> (snap_entry \<Rightarrow> entry_view) \<Rightarrow> snap_spec \<Rightarrow> snap_result hio" where
  "snapshot_Create sha um rv view spec =
     (if sp_entries spec = [] then io_fail (Class ErrInvalid ''%w: snapshot spec has no entries'' [])
      else io_bind (NewStaging ''snapshot'') (\<lambda>stg.
        io_defer (os_RemoveAll stg)
          (io_bind (io_of (newWalker rv (sp_root spec) (sp_limits spec))) (\<lambda>L.
           io_then (copy_entries L um stg (map (\<lambda>e. (e, view e)) (sp_entries spec)) \<lparr>ct_files = 0, ct_total = 0\<rparr>)
           (io_bind (io_wrap ''digest snapshot: %w'' [] (digest_path sha stg)) (\<lambda>(d, es).
            io_bind (Publish sha SnapshotObject stg d) (\<lambda>obj. io_ret (snapshot_result obj es))))))))"

section \<open>What a walk takes\<close>

text \<open>The descriptors a walk opens, by the path each is staged at.\<close>

function visited :: "string \<Rightarrow> (string \<times> wnode) list \<Rightarrow> (string \<times> (error + fobs)) list" where
  "visited dst [] = []"
| "visited dst ((p, x) # ps) =
     (case x of
        WFile opened \<Rightarrow> (below_path dst p, opened) # visited dst ps
      | WDir (Inr ch) \<Rightarrow> visited dst (listed p ch @ ps)
      | _ \<Rightarrow> visited dst ps)"
  by pat_completeness auto
termination
  by (relation "measure (\<lambda>(dst, ps). walk_size ps)") (auto simp: walk_size_listed wnode_count_pos)

definition entry_captures :: "snap_entry \<times> entry_view \<Rightarrow> (string \<times> (error + fobs)) list" where
  "entry_captures = (\<lambda>(e, v).
     case ev_lstat v of
       Some (Inr TRegular) \<Rightarrow> [(en_dest e, ev_file v)]
     | Some (Inr TDir) \<Rightarrow> (case ev_walk v of Inr x \<Rightarrow> visited (en_dest e) [(''.'', x)] | Inl _ \<Rightarrow> [])
     | _ \<Rightarrow> [])"

text \<open>A descriptor that was copied whole: a regular file with one link, of the size and time it had before.\<close>

fun stable :: "snap_limits \<Rightarrow> error + fobs \<Rightarrow> bool" where
  "stable L (Inl e) = False"
| "stable L (Inr f) =
     (case (fo_before f, fo_after f) of
        (Inr st, Inr st') \<Rightarrow>
          fs_type st = TRegular \<and> fs_nlink st \<le> 1 \<and> int (fs_size st) \<le> lm_file_bytes L \<and>
          fs_size st' = fs_size st \<and> fs_mtime st' = fs_mtime st \<and> length (fo_bytes f) = fs_size st \<and> fo_end f = None
      | _ \<Rightarrow> False)"

fun taken_bytes :: "error + fobs \<Rightarrow> string" where
  "taken_bytes (Inr f) = fo_bytes f"
| "taken_bytes (Inl e) = []"

fun taken_perm :: "32 word \<Rightarrow> error + fobs \<Rightarrow> 32 word" where
  "taken_perm um (Inr f) = (case fo_before f of Inr st \<Rightarrow> file_perm um st | Inl e \<Rightarrow> 0)"
| "taken_perm um (Inl e) = 0"

text \<open>One copy as a step on the files of the host and the counters, and a sequence of them.\<close>

definition took :: "snap_limits \<Rightarrow> 32 word \<Rightarrow> hpath \<Rightarrow> string \<times> (error + fobs) \<Rightarrow> files \<times> counters \<Rightarrow> files \<times> counters \<Rightarrow> bool" where
  "took L um stg c X Y \<longleftrightarrow>
     (let p = staged_path stg (fst c) in
      stable L (snd c) \<and> elems (fst c) \<noteq> [] \<and> fst X p = None \<and> list_all file_name (snd p) \<and>
      fst Y = (fst X)(p \<mapsto> (taken_perm um (snd c), taken_bytes (snd c))) \<and>
      ct_files (snd Y) = Suc (ct_files (snd X)) \<and> int (ct_files (snd Y)) \<le> lm_files L \<and>
      ct_total (snd Y) = ct_total (snd X) + of_nat (length (taken_bytes (snd c))) \<and> sint (ct_total (snd Y)) \<le> lm_total L)"

fun takes :: "snap_limits \<Rightarrow> 32 word \<Rightarrow> hpath \<Rightarrow> (string \<times> (error + fobs)) list \<Rightarrow> files \<times> counters \<Rightarrow> files \<times> counters \<Rightarrow> bool" where
  "takes L um stg [] X Z \<longleftrightarrow> Z = X"
| "takes L um stg (c # cs) X Z \<longleftrightarrow> (\<exists>Y. took L um stg c X Y \<and> takes L um stg cs Y Z)"

lemma takes_append: "takes L um stg (cs @ ds) X Z \<longleftrightarrow> (\<exists>Y. takes L um stg cs X Y \<and> takes L um stg ds Y Z)"
  by (induction cs arbitrary: X) auto

abbreviation took_all :: "snap_limits \<Rightarrow> 32 word \<Rightarrow> hpath \<Rightarrow> (string \<times> (error + fobs)) list \<Rightarrow> files \<Rightarrow> counters \<Rightarrow> counters \<Rightarrow> host \<Rightarrow> bool" where
  "took_all L um stg cs F b b' s \<equiv> \<exists>F'. takes L um stg cs (F, b) (F', b') \<and> holding (fst stg) F' s"

lemma stable_copied:
  assumes "fo_before f = Inr st" "fs_type st = TRegular" "\<not> 1 < fs_nlink st" "\<not> lm_file_bytes L < int (fs_size st)"
    and "(if min (length (fo_bytes f)) (fs_size st + 1) < fs_size st + 1 then fo_end f else None) = None"
    and "fo_after f = Inr after" "\<not> changedDuringCopy st after (min (length (fo_bytes f)) (fs_size st + 1))"
  shows "stable L (Inr f) \<and> take (min (length (fo_bytes f)) (fs_size st + 1)) (fo_bytes f) = fo_bytes f \<and>
    length (fo_bytes f) = fs_size st"
proof -
  have len: "length (fo_bytes f) = fs_size st" using assms(7) by (auto simp: changedDuringCopy_def min_def split: if_splits)
  have "fs_size after = fs_size st \<and> fs_mtime after = fs_mtime st" using assms(7) by (simp add: changedDuringCopy_def)
  then show ?thesis using assms len by (simp split: if_splits)
qed

lemma snaps_copy_bytes:
  assumes "snd stg \<noteq> []" "fo_before f = Inr st" "fs_type st = TRegular" "\<not> 1 < fs_nlink st" "\<not> lm_file_bytes L < int (fs_size st)"
  shows "snaps (holding (fst stg) F) (copy_bytes um stg src dst f st)
    (\<lambda>_ s. (stable L (Inr f) \<and> length (fo_bytes f) = fs_size st \<and> F (staged_path stg dst) = None \<and>
        list_all file_name (snd (staged_path stg dst))) \<and>
      holding (fst stg) (F(staged_path stg dst \<mapsto> (file_perm um st, fo_bytes f))) s)"
proof -
  let ?p = "staged_path stg dst" and ?n = "min (length (fo_bytes f)) (fs_size st + 1)"
  have p: "snd ?p \<noteq> []" "fst ?p = fst stg" using assms(1) by (simp_all add: staged_path_def)
  show ?thesis
    unfolding copy_bytes_def Let_def
  proof (intro triple_bind [OF snaps_MkdirAll] triple_bind [OF triple_wrap])
    show "fst (fst ?p, butlast (snd ?p)) = fst stg" by (simp add: p)
    show "triple (holding (fst stg) F) (os_OpenExcl ?p (file_perm um st))
        (\<lambda>_ s. (F ?p = None \<and> list_all file_name (snd ?p)) \<and> holding (fst stg) (F(?p \<mapsto> (file_perm um st, []))) s)
        (\<lambda>_ _. True) (\<lambda>_. True)"
      using triple_OpenExcl [OF p(1)] by (simp add: holding_def [abs_def] p)
    show "triple (\<lambda>s. (F ?p = None \<and> list_all file_name (snd ?p)) \<and> holding (fst stg) (F(?p \<mapsto> (file_perm um st, []))) s)
        (os_Write ?p (take ?n (fo_bytes f)))
        (\<lambda>_ s. (F ?p = None \<and> list_all file_name (snd ?p)) \<and>
           holding (fst stg) (F(?p \<mapsto> (file_perm um st, take ?n (fo_bytes f)))) s)
        (\<lambda>_ _. True) (\<lambda>_. True)" for x y :: unit
    proof (rule triple_pure)
      assume a: "F ?p = None \<and> list_all file_name (snd ?p)"
      then show "triple (holding (fst stg) (F(?p \<mapsto> (file_perm um st, [])))) (os_Write ?p (take ?n (fo_bytes f)))
        (\<lambda>_ s. (F ?p = None \<and> list_all file_name (snd ?p)) \<and>
           holding (fst stg) (F(?p \<mapsto> (file_perm um st, take ?n (fo_bytes f)))) s)
        (\<lambda>_ _. True) (\<lambda>_. True)"
        using triple_Write [OF p(1), of F "file_perm um st" "[]"] by (simp add: holding_def [abs_def] p)
    qed
  next
    fix x y z :: unit
    let ?bad = "if ?n < fs_size st + 1 then fo_end f else None"
    show "snaps (\<lambda>s. (F ?p = None \<and> list_all file_name (snd ?p)) \<and>
           holding (fst stg) (F(?p \<mapsto> (file_perm um st, take ?n (fo_bytes f)))) s)
        (case ?bad of
           Some e \<Rightarrow> io_fail (Wrapped ''copy %s: %w'' [src] e)
         | None \<Rightarrow>
             (case fo_after f of
                Inl e \<Rightarrow> io_fail (Wrapped ''stat %s: %w'' [src] e)
              | Inr after \<Rightarrow>
                  if changedDuringCopy st after ?n
                  then io_fail (Class ErrConflict ''%w: %s changed during snapshot'' [src])
                  else io_ret ()))
        (\<lambda>_ s. (stable L (Inr f) \<and> length (fo_bytes f) = fs_size st \<and> F ?p = None \<and> list_all file_name (snd ?p)) \<and>
          holding (fst stg) (F(?p \<mapsto> (file_perm um st, fo_bytes f))) s)"
    proof (rule triple_option)
      assume bad: "?bad = None"
      show "snaps (\<lambda>s. (F ?p = None \<and> list_all file_name (snd ?p)) \<and>
           holding (fst stg) (F(?p \<mapsto> (file_perm um st, take ?n (fo_bytes f)))) s)
        (case fo_after f of
                Inl e \<Rightarrow> io_fail (Wrapped ''stat %s: %w'' [src] e)
              | Inr after \<Rightarrow>
                  if changedDuringCopy st after ?n
                  then io_fail (Class ErrConflict ''%w: %s changed during snapshot'' [src])
                  else io_ret ())
        (\<lambda>_ s. (stable L (Inr f) \<and> length (fo_bytes f) = fs_size st \<and> F ?p = None \<and> list_all file_name (snd ?p)) \<and>
          holding (fst stg) (F(?p \<mapsto> (file_perm um st, fo_bytes f))) s)"
        by (rule triple_sum snaps_fail triple_if triple_ret)+ (use stable_copied [OF assms(2-5) bad] in simp)
    qed (rule snaps_fail)
  qed
qed

lemma snaps_copyFile:
  assumes "snd stg \<noteq> []" "elems dst \<noteq> []"
  shows "snaps (holding (fst stg) F) (copyFile L um stg src dst depth opened b) (\<lambda>b'. took_all L um stg [(dst, opened)] F b b')"
proof -
  have main: "snaps (holding (fst stg) F) (io_then (copy_bytes um stg src dst f st) (io_ret (b\<lparr>ct_files := ct_files b + 1, ct_total := ct_total b + of_nat (fs_size st)\<rparr>)))
      (\<lambda>b'. took_all L um stg [(dst, Inr f)] F b b')"
    if c: "fo_before f = Inr st" "fs_type st = TRegular" "\<not> 1 < fs_nlink st" "\<not> lm_file_bytes L < int (fs_size st)"
      "\<not> lm_files L < int (ct_files b + 1)" "\<not> lm_total L < sint (ct_total b + of_nat (fs_size st))" for f st
    by (rule triple_bind [OF snaps_copy_bytes [OF assms(1) c(1-4)]], rule triple_ret)
      (use c assms(2) in \<open>auto simp: took_def Let_def\<close>)
  show ?thesis
    unfolding copyFile_def Let_def
    using main by (auto intro!: snaps_fail split: sum.splits)
qed

lemma snaps_seq:
  assumes "snaps (holding (fst stg) F) m (took_all L um stg cs F b)"
    and "\<And>F' b'. snaps (holding (fst stg) F') (f b') (took_all L um stg ds F' b')"
  shows "snaps (holding (fst stg) F) (io_bind m f) (took_all L um stg (cs @ ds) F b)"
proof (rule triple_bind [OF assms(1)], rule triple_ex, rule triple_pure)
  fix b' F' assume "takes L um stg cs (F, b) (F', b')"
  then show "snaps (holding (fst stg) F') (f b') (took_all L um stg (cs @ ds) F b)"
    by (intro triple_post [OF assms(2)]) (auto simp: takes_append)
qed

lemma elems_below_path: "elems dst \<noteq> [] \<Longrightarrow> elems (below_path dst p) \<noteq> []"
  by (auto simp: below_path_def elems_def split_on_append_sep)

lemma validateRel_elems: "validateRel p = None \<Longrightarrow> elems p \<noteq> []"
  by (cases p) (auto simp: validateRel_def elems_def has_prefix_def split: if_splits list.splits)

lemma snaps_walk:
  assumes "snd stg \<noteq> []" "elems dst \<noteq> []"
  shows "snaps (holding (fst stg) F) (snap_walk L um stg src dst ps b) (took_all L um stg (visited dst ps) F b)"
  using assms
proof (induction L um stg src dst ps b arbitrary: F rule: snap_walk.induct)
  case (1 L um stg src dst b)
  then show ?case by (auto intro: triple_ret)
next
  case (2 L um stg src dst p x ps b)
  show ?case
  proof (cases "path_depth p > lm_depth L")
    case True
    then show ?thesis by (simp add: snaps_fail)
  next
    case False
    show ?thesis
    proof (cases x)
      case (WFile opened)
      have "snaps (holding (fst stg) F)
          (io_bind (copyFile L um stg (below_path src p) (below_path dst p) (path_depth p) opened b) (snap_walk L um stg src dst ps))
          (took_all L um stg ([(below_path dst p, opened)] @ visited dst ps) F b)"
        by (rule snaps_seq [OF snaps_copyFile [OF 2(3) elems_below_path [OF 2(4)]]]) (rule 2(1) [OF False WFile 2(3,4)])
      then show ?thesis using False WFile by simp
    next
      case (WDir r)
      have "snaps (holding (fst stg) F)
          (case (if ValidPath p then r else Inl (Plain ''invalid name'' [])) of
             Inl e \<Rightarrow> io_fail (Wrapped ''walk %s: %w'' [src] e)
           | Inr ch \<Rightarrow> snap_walk L um stg src dst (listed p ch @ ps) b)
          (took_all L um stg (visited dst ((p, x) # ps)) F b)"
      proof (rule triple_sum)
        fix ch assume ch: "(if ValidPath p then r else Inl (Plain ''invalid name'' [])) = Inr ch"
        then have r: "r = Inr ch" by (auto split: if_splits)
        show "snaps (holding (fst stg) F) (snap_walk L um stg src dst (listed p ch @ ps) b)
            (took_all L um stg (visited dst ((p, x) # ps)) F b)"
          using 2(2) [OF False WDir ch 2(3,4)] by (simp add: WDir r)
      qed (rule snaps_fail)
      from triple_bind [OF snaps_MkdirAll this, of "staged_path stg (below_path dst p)"]
      show ?thesis unfolding snap_walk.simps using False by (simp only: WDir if_False wnode.case) (simp add: staged_path_def)
    next
      case (WOther t)
      then show ?thesis using False by (simp add: snaps_fail)
    qed
  qed
qed

declare snap_walk.simps [simp del] visited.simps [simp del]

lemma snaps_none: "snaps (holding (fst stg) F) (io_ret b) (took_all L um stg [] F b)"
  by (rule triple_ret) simp

lemma snaps_copyDir:
  assumes "snd stg \<noteq> []" "elems dst \<noteq> []"
  shows "snaps (holding (fst stg) F) (copyDir L um stg src dst view b)
    (took_all L um stg (case view of Inr x \<Rightarrow> visited dst [(''.'', x)] | Inl _ \<Rightarrow> []) F b)"
  using snaps_walk [OF assms] by (auto simp: copyDir_def intro: snaps_fail split: sum.split)

lemma snaps_copyEntry:
  assumes "snd stg \<noteq> []"
  shows "snaps (holding (fst stg) F) (copyEntry L um stg e v b) (took_all L um stg (entry_captures (e, v)) F b)"
proof -
  have look: "snaps (holding (fst stg) F)
      (case ev_lstat v of
        None \<Rightarrow>
          if en_optional e then io_ret b
          else io_fail (Class ErrNotFound ''%w: snapshot input %s'' [en_source e])
      | Some (Inl er) \<Rightarrow> io_fail (Wrapped ''stat %s: %w'' [en_source e] er)
      | Some (Inr TRegular) \<Rightarrow> copyFile L um stg (en_source e) (en_dest e) 1 (ev_file v) b
      | Some (Inr TDir) \<Rightarrow> copyDir L um stg (en_source e) (en_dest e) (ev_walk v) b
      | Some (Inr t) \<Rightarrow> io_fail (reject_type (en_source e) t))
      (took_all L um stg (entry_captures (e, v)) F b)" if "validateRel (en_dest e) = None"
  proof (cases "ev_lstat v")
    case None
    then show ?thesis using snaps_none by (simp add: entry_captures_def snaps_fail del: takes.simps)
  next
    case (Some r)
    show ?thesis
    proof (cases r)
      case (Inr t)
      show ?thesis
        using snaps_copyFile [OF assms validateRel_elems [OF that], of F L um "en_source e" 1 "ev_file v" b]
          snaps_copyDir [OF assms validateRel_elems [OF that], of F L um "en_source e" "ev_walk v" b]
        by (cases t) (simp_all add: Some Inr entry_captures_def snaps_fail del: takes.simps)
    qed (simp add: Some snaps_fail)
  qed
  show ?thesis
    unfolding copyEntry_def by (rule triple_option, rule triple_option, erule look) (rule snaps_fail)+
qed

lemma snaps_copy_entries:
  assumes "snd stg \<noteq> []"
  shows "snaps (holding (fst stg) F) (copy_entries L um stg evs b) (took_all L um stg (concat (map entry_captures evs)) F b)"
proof (induction evs arbitrary: F b)
  case Nil
  then show ?case by (auto simp: copy_entries_def intro!: triple_ret)
next
  case (Cons ev evs)
  obtain e v where ev: "ev = (e, v)" by (cases ev)
  have h: "snaps (holding (fst stg) F)
      (if ev_canceled v then io_fail (Class ErrCanceled ''%w: snapshot: %v'' []) else copyEntry L um stg e v b)
      (took_all L um stg (entry_captures ev) F b)"
    using snaps_copyEntry [OF assms] by (auto simp: ev intro: snaps_fail)
  show ?case
    using snaps_seq [OF h Cons.IH] by (simp add: copy_entries_def ev)
qed

text \<open>What a successful sequence of copies amounts to.\<close>

lemma takes_spec:
  assumes "takes L um stg cs (F, b) (F', b')"
  shows "\<forall>c \<in> set cs. stable L (snd c) \<and> elems (fst c) \<noteq> [] \<and> list_all file_name (elems (fst c)) \<and> F (staged_path stg (fst c)) = None"
    and "distinct (map (\<lambda>c. staged_path stg (fst c)) cs)"
    and "F' p = Some v \<longleftrightarrow> F p = Some v \<or>
      (\<exists>c \<in> set cs. p = staged_path stg (fst c) \<and> v = (taken_perm um (snd c), taken_bytes (snd c)))"
    and "ct_files b' = ct_files b + length cs" "int (ct_files b) \<le> lm_files L \<Longrightarrow> int (ct_files b') \<le> lm_files L"
proof -
  have "(\<forall>c \<in> set cs. stable L (snd c) \<and> elems (fst c) \<noteq> [] \<and> list_all file_name (elems (fst c)) \<and> F (staged_path stg (fst c)) = None) \<and>
      distinct (map (\<lambda>c. staged_path stg (fst c)) cs) \<and>
      (\<forall>p v. F' p = Some v \<longleftrightarrow> F p = Some v \<or>
        (\<exists>c \<in> set cs. p = staged_path stg (fst c) \<and> v = (taken_perm um (snd c), taken_bytes (snd c)))) \<and>
      ct_files b' = ct_files b + length cs \<and> (int (ct_files b) \<le> lm_files L \<longrightarrow> int (ct_files b') \<le> lm_files L)"
    using assms
  proof (induction cs arbitrary: F b)
    case (Cons c cs)
    then obtain G d where c: "took L um stg c (F, b) (G, d)" and cs: "takes L um stg cs (G, d) (F', b')" by auto
    note IH = Cons.IH [OF cs]
    let ?p = "staged_path stg (fst c)"
    have G: "stable L (snd c) \<and> elems (fst c) \<noteq> []" "F ?p = None" "list_all file_name (elems (fst c))"
      "G = F(?p \<mapsto> (taken_perm um (snd c), taken_bytes (snd c)))" "ct_files d = Suc (ct_files b)" "int (ct_files d) \<le> lm_files L"
      using c by (simp_all add: took_def Let_def staged_path_def)
    have free: "\<forall>c' \<in> set cs. G (staged_path stg (fst c')) = None" using IH by blast
    then have "\<forall>c' \<in> set cs. staged_path stg (fst c') \<noteq> ?p \<and> F (staged_path stg (fst c')) = None"
      unfolding G(4) fun_upd_apply by (metis option.distinct(1))
    then have d: "distinct (map (\<lambda>c. staged_path stg (fst c)) (c # cs))" using IH by auto
    have "F' p = Some v \<longleftrightarrow> F p = Some v \<or>
        (\<exists>c \<in> set (c # cs). p = staged_path stg (fst c) \<and> v = (taken_perm um (snd c), taken_bytes (snd c)))" for p v
    proof -
      have "G p = Some v \<longleftrightarrow> F p = Some v \<or> p = ?p \<and> v = (taken_perm um (snd c), taken_bytes (snd c))"
        using G(2) by (auto simp: G(4))
      moreover have "F' p = Some v \<longleftrightarrow> G p = Some v \<or>
          (\<exists>c \<in> set cs. p = staged_path stg (fst c) \<and> v = (taken_perm um (snd c), taken_bytes (snd c)))"
        using IH by blast
      ultimately show ?thesis by auto
    qed
    then show ?case using IH G(1-3,5,6) d \<open>\<forall>c' \<in> set cs. _ \<and> _\<close> by simp
  qed simp
  then show "\<forall>c \<in> set cs. stable L (snd c) \<and> elems (fst c) \<noteq> [] \<and> list_all file_name (elems (fst c)) \<and> F (staged_path stg (fst c)) = None"
    "distinct (map (\<lambda>c. staged_path stg (fst c)) cs)"
    "F' p = Some v \<longleftrightarrow> F p = Some v \<or>
      (\<exists>c \<in> set cs. p = staged_path stg (fst c) \<and> v = (taken_perm um (snd c), taken_bytes (snd c)))"
    "ct_files b' = ct_files b + length cs" "int (ct_files b) \<le> lm_files L \<Longrightarrow> int (ct_files b') \<le> lm_files L"
    by blast+
qed

text \<open>The 64-bit total is the real one as long as the limits leave room for one more file.\<close>

lemma sint_of_nat: "n < 2 ^ 63 \<Longrightarrow> sint (of_nat n :: 64 word) = int n"
  by (simp add: sint_uint uint_nat unat_of_nat take_bit_nat_eq_self signed_take_bit_int_eq_self)

lemma takes_total:
  assumes "takes L um stg cs X Z" "lm_file_bytes L < 2 ^ 62" "lm_total L < 2 ^ 62"
    and "ct_total (snd X) = of_nat n" "int n \<le> lm_total L"
  shows "int (n + sum_list (map (length \<circ> taken_bytes \<circ> snd) cs)) \<le> lm_total L"
  using assms
proof (induction cs arbitrary: X n)
  case (Cons c cs)
  then obtain Y where c: "took L um stg c X Y" and cs: "takes L um stg cs Y Z" by auto
  let ?k = "length (taken_bytes (snd c))"
  have "int ?k \<le> lm_file_bytes L"
    using c by (cases "snd c") (auto simp: took_def Let_def split: sum.splits)
  then have "n + ?k < 2 ^ 63" using Cons.prems(2,3,5) by simp
  moreover have t: "ct_total (snd Y) = of_nat (n + ?k)" "sint (ct_total (snd Y)) \<le> lm_total L"
    using c Cons.prems(4) by (auto simp: took_def Let_def)
  ultimately have "int (n + ?k) \<le> lm_total L" using sint_of_nat by metis
  from Cons.IH [OF cs Cons.prems(2,3) t(1) this] show ?case by (simp add: add.assoc)
qed simp

section \<open>The snapshot and the workspace\<close>

text \<open>What the result should say of one descriptor; its path is the cleaned form of where it was asked to go.\<close>

definition snap_file_of :: "(string \<Rightarrow> string) \<Rightarrow> string \<times> (error + fobs) \<Rightarrow> snap_file" where
  "snap_file_of sha c =
     \<lparr>sf_path = join ''/'' (elems (fst c)), sf_size = length (taken_bytes (snd c)),
      sf_mode = (case snd c of Inr f \<Rightarrow> (case fo_before f of Inr st \<Rightarrow> normalizeFileMode (fs_perm st) | _ \<Rightarrow> 0) | _ \<Rightarrow> 0),
      sf_digest = SHA256 sha (taken_bytes (snd c))\<rparr>"

definition captures :: "(snap_entry \<Rightarrow> entry_view) \<Rightarrow> snap_spec \<Rightarrow> (string \<times> (error + fobs)) list" where
  "captures view spec = concat (map (\<lambda>e. entry_captures (e, view e)) (sp_entries spec))"

lemma normalize_taken:
  "um AND 0x40 = 0 \<Longrightarrow> normalizeFileMode (file_perm um st) = normalizeFileMode (fs_perm st)"
proof -
  assume "um AND 0x40 = 0"
  then have "NOT um AND 0x40 = 0x40" by (simp add: bit_eq_iff bit_simps) blast
  moreover have "(x AND NOT um) AND 0x40 = x AND (NOT um AND 0x40)" for x by (simp add: and.assoc)
  ultimately show ?thesis by (simp add: normalizeFileMode_def file_perm_def)
qed

text \<open>The files of a digested tree.\<close>

lemma result_files_set:
  assumes "DigestTree sha t = Inr (d, es)" "wf_node t"
  shows "set (result_files es) =
      {\<lparr>sf_path = join ''/'' cs, sf_size = length b, sf_mode = normalizeFileMode m, sf_digest = SHA256 sha b\<rparr> |
        cs m b. cs \<noteq> [] \<and> node_at t cs = Some (RegularFile m b)}"
    and "sorted (map sf_path (result_files es))" "distinct (map sf_path (result_files es))"
proof -
  obtain es' where w: "tree_walk sha t = Inr es'" "es = sort_key te_path es'"
    using assms(1) by (auto simp: DigestTree_def rbind_eq_Inr Let_def)
  note spec = tree_walk_spec [OF w(1) assms(2)]
  have kind: "te_type (entry_of sha p n) = CHR ''f'' \<longleftrightarrow> (\<exists>m b. n = RegularFile m b)" for p n
    by (cases n) (simp_all add: entry_of_def)
  let ?sf = "\<lambda>e. \<lparr>sf_path = te_path e, sf_size = te_size e, sf_mode = te_mode e, sf_digest = te_digest e\<rparr>"
  have mem: "x \<in> set (result_files es) \<longleftrightarrow> (\<exists>e. (e \<in> set es' \<and> te_type e = CHR ''f'') \<and> x = ?sf e)" for x
    by (auto simp: result_files_def w(2))
  have regular: "e \<in> set es' \<and> te_type e = CHR ''f'' \<longleftrightarrow>
      (\<exists>cs m b. cs \<noteq> [] \<and> node_at t cs = Some (RegularFile m b) \<and> e = entry_of sha (join ''/'' cs) (RegularFile m b))" for e
  proof
    assume e: "e \<in> set es' \<and> te_type e = CHR ''f''"
    then have "\<exists>cs m. cs \<noteq> [] \<and> node_at t cs = Some m \<and> e = entry_of sha (join ''/'' cs) m"
      using spec(1) by (auto simp: tree_path_join)
    then obtain cs n where n: "cs \<noteq> []" "node_at t cs = Some n" "e = entry_of sha (join ''/'' cs) n" by (elim exE conjE)
    then obtain m b where "n = RegularFile m b" using e kind [of "join ''/'' cs" n] by auto
    with n show "\<exists>cs m b. cs \<noteq> [] \<and> node_at t cs = Some (RegularFile m b) \<and> e = entry_of sha (join ''/'' cs) (RegularFile m b)"
      by auto
  next
    assume "\<exists>cs m b. cs \<noteq> [] \<and> node_at t cs = Some (RegularFile m b) \<and> e = entry_of sha (join ''/'' cs) (RegularFile m b)"
    then obtain cs m b where n: "cs \<noteq> []" "node_at t cs = Some (RegularFile m b)"
      "e = entry_of sha (tree_path cs) (RegularFile m b)" by (auto simp only: tree_path_join)
    have "e \<in> set es'" unfolding spec(1) by (intro CollectI exI [of _ cs] exI [of _ "RegularFile m b"]) (simp add: n)
    moreover have "te_type e = CHR ''f''" unfolding n(3) by (simp add: entry_of_def)
    ultimately show "e \<in> set es' \<and> te_type e = CHR ''f''" by (rule conjI)
  qed
  have "x \<in> set (result_files es) \<longleftrightarrow>
      (\<exists>cs m b. cs \<noteq> [] \<and> node_at t cs = Some (RegularFile m b) \<and> x = ?sf (entry_of sha (join ''/'' cs) (RegularFile m b)))" for x
    unfolding mem regular by (rule iffI; elim exE conjE; hypsubst; intro exI conjI; (assumption | rule refl))
  then have x: "x \<in> set (result_files es) \<longleftrightarrow>
      (\<exists>cs m b. cs \<noteq> [] \<and> node_at t cs = Some (RegularFile m b) \<and>
        x = \<lparr>sf_path = join ''/'' cs, sf_size = length b, sf_mode = normalizeFileMode m, sf_digest = SHA256 sha b\<rparr>)" for x
    by (simp add: entry_of_def)
  show "set (result_files es) =
      {\<lparr>sf_path = join ''/'' cs, sf_size = length b, sf_mode = normalizeFileMode m, sf_digest = SHA256 sha b\<rparr> |
        cs m b. cs \<noteq> [] \<and> node_at t cs = Some (RegularFile m b)}"
    unfolding set_eq_iff x mem_Collect_eq by (intro allI iffI; elim exE conjE; intro exI conjI; assumption)
  have p: "map sf_path (result_files es) = map te_path (filter (\<lambda>e. te_type e = CHR ''f'') es)"
    by (simp add: result_files_def)
  show "sorted (map sf_path (result_files es))" unfolding p unfolding w(2) by (intro sorted_filter) simp
  have "distinct (map te_path es)" using spec(2) unfolding w(2) distinct_map by simp
  then show "distinct (map sf_path (result_files es))" unfolding p by (rule distinct_map_filter)
qed

text \<open>What is in staging after the copies is what the result lists.\<close>

lemma snapshot_files:
  assumes takes: "takes L um stg cs (F, \<lparr>ct_files = 0, ct_total = 0\<rparr>) (file_node s, b)"
    and F: "\<And>ds. F (fst stg, snd stg @ ds) = None" and t: "lookup s stg = Some t" "wf_node t"
    and d: "DigestTree sha t = Inr (d, es)" and um: "um AND 0x40 = 0"
  shows "result_files es = sort_key sf_path (map (snap_file_of sha) cs)"
proof -
  note T = takes_spec [OF takes]
  have node: "file_node s (fst stg, snd stg @ ds) = (case node_at t ds of Some (RegularFile m b) \<Rightarrow> Some (m, b) | _ \<Rightarrow> None)" for ds
    using t(1) lookup_append [of s "fst stg" "snd stg" ds] by (simp add: file_node_def split: option.splits)
  have at: "node_at t ds = Some (RegularFile m c) \<longleftrightarrow> file_node s (fst stg, snd stg @ ds) = Some (m, c)" for ds m c
    unfolding node by (auto split: option.splits node.splits)
  have held: "node_at t ds = Some (RegularFile m c) \<longleftrightarrow>
      (\<exists>x \<in> set cs. ds = elems (fst x) \<and> m = taken_perm um (snd x) \<and> c = taken_bytes (snd x))" for ds m c
    unfolding at T(3) F by (auto simp: staged_path_def)
  have mode: "normalizeFileMode (taken_perm um o') =
      (case o' of Inr f \<Rightarrow> (case fo_before f of Inr st \<Rightarrow> normalizeFileMode (fs_perm st) | _ \<Rightarrow> 0) | _ \<Rightarrow> 0)"
    if "stable L o'" for o'
    using that normalize_taken [OF um] by (cases o') (auto split: sum.splits)
  note res = result_files_set [OF d t(2)]
  have sets: "set (result_files es) = snap_file_of sha ` set cs"
  proof -
    have "\<lparr>sf_path = join ''/'' (elems (fst x)), sf_size = length (taken_bytes (snd x)),
        sf_mode = normalizeFileMode (taken_perm um (snd x)), sf_digest = SHA256 sha (taken_bytes (snd x))\<rparr> = snap_file_of sha x"
      if "x \<in> set cs" for x
      using T(1) that mode by (simp add: snap_file_of_def)
    moreover have "set (result_files es) = (\<lambda>x. \<lparr>sf_path = join ''/'' (elems (fst x)), sf_size = length (taken_bytes (snd x)),
        sf_mode = normalizeFileMode (taken_perm um (snd x)), sf_digest = SHA256 sha (taken_bytes (snd x))\<rparr>) ` set cs"
      unfolding res(1) held using T(1) by (auto simp: image_iff)
    ultimately show ?thesis by simp
  qed
  have "distinct (map (sf_path \<circ> snap_file_of sha) cs)"
  proof -
    have "elems (fst x) = elems (fst y) \<Longrightarrow> x \<in> set cs \<Longrightarrow> y \<in> set cs \<Longrightarrow> x = y" for x y
      using T(2) by (auto simp: distinct_map inj_on_def staged_path_def)
    moreover have "join ''/'' (elems (fst x)) = join ''/'' (elems (fst y)) \<Longrightarrow> x \<in> set cs \<Longrightarrow> y \<in> set cs \<Longrightarrow>
        elems (fst x) = elems (fst y)" for x y
      using T(1) elems_join_elems by metis
    moreover have "distinct cs" using T(2) by (simp add: distinct_map)
    ultimately show ?thesis by (simp add: distinct_map inj_on_def snap_file_of_def)
  qed
  then have m: "mset (result_files es) = mset (map (snap_file_of sha) cs)"
    using res(3) sets by (intro set_eq_iff_mset_eq_distinct [THEN iffD1]) (auto simp: distinct_map simp flip: map_map)
  have "sort_key sf_path (map (snap_file_of sha) cs) = result_files es"
    by (rule sort_key_inj_key_eq) (use m res(2,3) sets in \<open>auto simp: distinct_map\<close>)
  then show ?thesis by (rule sym)
qed

definition snapshot_ok ::
  "(string \<Rightarrow> string) \<Rightarrow> (snap_entry \<Rightarrow> entry_view) \<Rightarrow> root_view \<Rightarrow> snap_spec \<Rightarrow> snap_result \<Rightarrow> bool" where
  "snapshot_ok sha view rv spec res \<longleftrightarrow>
     (let L = withDefaults (sp_limits spec) in
      rv_identity rv = Inr (ro_identity (sp_root spec)) \<and>
      sn_files res = sort_key sf_path (map (snap_file_of sha) (captures view spec)) \<and>
      list_all (\<lambda>c. stable L (snd c)) (captures view spec) \<and>
      int (length (sn_files res)) \<le> lm_files L \<and>
      int (sum_list (map sf_size (sn_files res))) \<le> lm_total L \<and>
      int (unat (sn_bytes res)) = int (sum_list (map sf_size (sn_files res))) \<and>
      sn_path res = (Snapshots, [hex (sn_digest res)]) \<and>
      (\<exists>t es. DigestTree sha t = Inr (sn_digest res, es) \<and> result_files es = sn_files res))"

lemma sum_list_of_nat: "sum_list (map (\<lambda>x. of_nat (f x)) xs) = of_nat (sum_list (map f xs))"
  by (induction xs) simp_all

lemma snapshot_facts:
  assumes takes: "takes L um stg (captures view spec) (F, \<lparr>ct_files = 0, ct_total = 0\<rparr>) (file_node s, b)"
    and F: "\<And>ds. F (fst stg, snd stg @ ds) = None" and t: "lookup s stg = Some t" "wf_node t"
    and d: "DigestTree sha t = Inr (d, es)" and um: "um AND 0x40 = 0"
    and L: "newWalker rv (sp_root spec) (sp_limits spec) = Inr L" "lm_file_bytes L < 2 ^ 62" "lm_total L < 2 ^ 62"
    and obj: "ob_digest obj = d" "objectPath SnapshotObject d = Inr (ob_path obj)"
  shows "snapshot_ok sha view rv spec (snapshot_result obj es)"
proof -
  let ?cs = "captures view spec" and ?res = "snapshot_result obj es"
  have w: "L = withDefaults (sp_limits spec)" "rv_identity rv = Inr (ro_identity (sp_root spec))"
    using L(1) by (auto simp: newWalker_def split: sum.splits if_splits)
  have pos: "0 \<le> lm_files L" "0 \<le> lm_total L" by (auto simp: w withDefaults_def SnapDefaults_def)
  have files: "sn_files ?res = sort_key sf_path (map (snap_file_of sha) ?cs)"
    using snapshot_files [OF takes F t d um] by (simp add: snapshot_result_def)
  note T = takes_spec [OF takes]
  have sizes: "sum_list (map sf_size (sn_files ?res)) = sum_list (map (length \<circ> taken_bytes \<circ> snd) ?cs)"
  proof -
    have "mset (sn_files ?res) = mset (map (snap_file_of sha) ?cs)" by (simp add: files)
    then have "sum_list (map sf_size (sn_files ?res)) = sum_list (map sf_size (map (snap_file_of sha) ?cs))"
      by (metis mset_map sum_mset_sum_list)
    then show ?thesis by (simp add: snap_file_of_def o_def)
  qed
  have total: "int (sum_list (map sf_size (sn_files ?res))) \<le> lm_total L"
    using takes_total [OF takes L(2,3), of 0] pos by (simp add: sizes)
  then have "sum_list (map sf_size (sn_files ?res)) < 2 ^ 64" using L(3) by simp
  moreover have "sn_bytes ?res = of_nat (sum_list (map sf_size (sn_files ?res)))"
    by (simp add: snapshot_result_def sum_list_of_nat)
  ultimately have "int (unat (sn_bytes ?res)) = int (sum_list (map sf_size (sn_files ?res)))"
    by (simp add: unat_of_nat take_bit_nat_eq_self)
  moreover have "int (length (sn_files ?res)) \<le> lm_files L" using T(4,5) pos by (simp add: files)
  moreover have "list_all (\<lambda>c. stable L (snd c)) ?cs" using T(1) by (simp add: list_all_iff)
  moreover have "sn_path ?res = (Snapshots, [hex (sn_digest ?res)])"
    using obj objectPathD [OF obj(2)] by (cases "ob_path obj") (simp add: snapshot_result_def)
  moreover have "DigestTree sha t = Inr (sn_digest ?res, es) \<and> result_files es = sn_files ?res"
    using d obj(1) by (simp add: snapshot_result_def)
  ultimately show ?thesis
    unfolding snapshot_ok_def Let_def w(1) [symmetric] using files total w(2) by blast
qed

lemma snaps_Create:
  assumes um: "um AND 0x40 = 0"
    and L: "lm_file_bytes (withDefaults (sp_limits spec)) < 2 ^ 62" "lm_total (withDefaults (sp_limits spec)) < 2 ^ 62"
  shows "snaps (wf_dir Staging) (snapshot_Create sha um rv view spec) (\<lambda>res s. snapshot_ok sha view rv spec res \<and> present (sn_path res) s)"
proof -
  have body: "snaps (\<lambda>s. wf_dir Staging s \<and> lookup s stg = Some (Directory []))
      (io_bind (io_of (newWalker rv (sp_root spec) (sp_limits spec))) (\<lambda>L.
           io_then (copy_entries L um stg (map (\<lambda>e. (e, view e)) (sp_entries spec)) \<lparr>ct_files = 0, ct_total = 0\<rparr>)
           (io_bind (io_wrap ''digest snapshot: %w'' [] (digest_path sha stg)) (\<lambda>(d, es).
            io_bind (Publish sha SnapshotObject stg d) (\<lambda>obj. io_ret (snapshot_result obj es))))))
      (\<lambda>res s. snapshot_ok sha view rv spec res \<and> present (sn_path res) s)"
    if stg: "fst stg = Staging" "snd stg \<noteq> []" for stg
  proof (rule triple_bind [OF triple_of [where Q = "\<lambda>L s. newWalker rv (sp_root spec) (sp_limits spec) = Inr L \<and>
        (\<exists>F. (\<forall>ds. F (fst stg, snd stg @ ds) = None) \<and> holding (fst stg) F s)"]])
    fix L s assume s: "wf_dir Staging s \<and> lookup s stg = Some (Directory [])"
    obtain p where p: "stg = (Staging, p)" using stg(1) by (cases stg) simp
    have "node_at (Directory []) ds \<noteq> Some (RegularFile m b)" for ds m b by (cases ds) auto
    then have "\<forall>ds. file_node s (fst stg, snd stg @ ds) = None" "holding (fst stg) (file_node s) s"
      using s lookup_append [of s Staging p] by (auto simp: p file_node_def holding_def split: option.splits node.splits)
    then show "newWalker rv (sp_root spec) (sp_limits spec) = Inr L \<Longrightarrow> newWalker rv (sp_root spec) (sp_limits spec) = Inr L \<and>
        (\<exists>F. (\<forall>ds. F (fst stg, snd stg @ ds) = None) \<and> holding (fst stg) F s)" by blast
  next
    fix L
    show "snaps (\<lambda>s. newWalker rv (sp_root spec) (sp_limits spec) = Inr L \<and>
        (\<exists>F. (\<forall>ds. F (fst stg, snd stg @ ds) = None) \<and> holding (fst stg) F s))
        (io_then (copy_entries L um stg (map (\<lambda>e. (e, view e)) (sp_entries spec)) \<lparr>ct_files = 0, ct_total = 0\<rparr>)
           (io_bind (io_wrap ''digest snapshot: %w'' [] (digest_path sha stg)) (\<lambda>(d, es).
            io_bind (Publish sha SnapshotObject stg d) (\<lambda>obj. io_ret (snapshot_result obj es)))))
        (\<lambda>res s. snapshot_ok sha view rv spec res \<and> present (sn_path res) s)"
    proof (rule triple_pure, rule triple_ex, rule triple_pure, rule triple_bind [OF snaps_copy_entries [OF stg(2)]])
      fix F :: files and b :: counters
      assume nw: "newWalker rv (sp_root spec) (sp_limits spec) = Inr L" and F: "\<forall>ds. F (fst stg, snd stg @ ds) = None"
      have lim: "lm_file_bytes L < 2 ^ 62" "lm_total L < 2 ^ 62"
        using nw L by (auto simp: newWalker_def split: sum.splits if_splits)
      have cs: "concat (map entry_captures (map (\<lambda>e. (e, view e)) (sp_entries spec))) = captures view spec"
        by (simp add: captures_def o_def)
      let ?P = "\<lambda>s. \<exists>F'. takes L um stg (captures view spec) (F, \<lparr>ct_files = 0, ct_total = 0\<rparr>) (F', b) \<and> holding (fst stg) F' s"
      let ?G = "\<lambda>r. \<exists>s t. ?P s \<and> lookup s stg = Some t \<and> DigestTree sha t = Inr r"
      have h: "hassert ?P" unfolding holding_def by (simp add: hassert_def wf_dir_def)
      have fin: "snaps (\<lambda>_. True) (io_bind (Publish sha SnapshotObject stg d) (\<lambda>obj. io_ret (snapshot_result obj es)))
          (\<lambda>res s. snapshot_ok sha view rv spec res \<and> present (sn_path res) s)" if "?G (d, es)" for d es
      proof (rule triple_bind [OF snaps_Publish [OF stg(1)]], rule triple_ret)
        fix obj :: object_ref and u :: host
        assume obj: "(ob_digest obj = d \<and> objectPath SnapshotObject d = Inr (ob_path obj)) \<and> present (ob_path obj) u"
        from that obtain s t where s: "takes L um stg (captures view spec) (F, \<lparr>ct_files = 0, ct_total = 0\<rparr>) (file_node s, b)"
          "wf_dir (fst stg) s" "lookup s stg = Some t" "DigestTree sha t = Inr (d, es)"
          by (auto simp: holding_def)
        have "wf_node t" using wf_lookup [of "fst stg" s "snd stg"] s(2,3) by simp
        then have "snapshot_ok sha view rv spec (snapshot_result obj es)"
          using snapshot_facts [OF s(1) _ s(3) _ s(4) um nw lim] F obj by blast
        then show "snapshot_ok sha view rv spec (snapshot_result obj es) \<and> present (sn_path (snapshot_result obj es)) u"
          using obj by (simp add: snapshot_result_def)
      qed
      have dig: "snaps ?P (digest_path sha stg) (\<lambda>r _. ?G r \<and> True)"
        by (rule triple_post [OF triple_digest_path [OF h]]) blast+
      show "snaps (took_all L um stg (concat (map entry_captures (map (\<lambda>e. (e, view e)) (sp_entries spec)))) F
            \<lparr>ct_files = 0, ct_total = 0\<rparr> b)
          (io_bind (io_wrap ''digest snapshot: %w'' [] (digest_path sha stg)) (\<lambda>(d, es).
            io_bind (Publish sha SnapshotObject stg d) (\<lambda>obj. io_ret (snapshot_result obj es))))
          (\<lambda>res s. snapshot_ok sha view rv spec res \<and> present (sn_path res) s)"
        unfolding cs
      proof (rule triple_bind [OF triple_wrap [OF dig]])
        fix r :: "digest \<times> tree_entry list"
        show "snaps (\<lambda>_. ?G r \<and> True) (case r of (d, es) \<Rightarrow>
            io_bind (Publish sha SnapshotObject stg d) (\<lambda>obj. io_ret (snapshot_result obj es)))
          (\<lambda>res s. snapshot_ok sha view rv spec res \<and> present (sn_path res) s)"
          by (rule triple_pure) (cases r, simp only: prod.case, rule fin, simp)
      qed
    qed
  qed simp
  show ?thesis
    unfolding snapshot_Create_def
  proof (rule triple_if)
    show "snaps (wf_dir Staging) (io_bind (NewStaging ''snapshot'') (\<lambda>stg.
        io_defer (os_RemoveAll stg)
          (io_bind (io_of (newWalker rv (sp_root spec) (sp_limits spec))) (\<lambda>L.
           io_then (copy_entries L um stg (map (\<lambda>e. (e, view e)) (sp_entries spec)) \<lparr>ct_files = 0, ct_total = 0\<rparr>)
           (io_bind (io_wrap ''digest snapshot: %w'' [] (digest_path sha stg)) (\<lambda>(d, es).
            io_bind (Publish sha SnapshotObject stg d) (\<lambda>obj. io_ret (snapshot_result obj es))))))))
        (\<lambda>res s. snapshot_ok sha view rv spec res \<and> present (sn_path res) s)"
    proof (rule triple_bind [OF triple_NewStaging], simp, rule triple_pure)
      fix stg :: hpath assume stg: "fst stg = Staging \<and> snd stg \<noteq> [] \<and> list_all file_name (snd stg)"
      let ?Q = "\<lambda>res s. snapshot_ok sha view rv spec res \<and> present (sn_path res) s"
      have clean: "triple (?Q res) (os_RemoveAll stg) (\<lambda>_. ?Q res) (\<lambda>_. ?Q res) (\<lambda>_. True)" for res
      proof (cases "snapshot_ok sha view rv spec res")
        case True
        then have "path_apart (sn_path res) stg" using stg by (simp add: snapshot_ok_def Let_def path_apart_def)
        from keeps_RemoveAll [OF hassert_present present_writable [OF this]]
        show ?thesis by (rule triple_post [OF triple_pre]) (simp_all add: True)
      qed (simp add: triple_def)
      show "snaps (\<lambda>s. wf_dir Staging s \<and> lookup s stg = Some (Directory [])) (io_defer (os_RemoveAll stg)
          (io_bind (io_of (newWalker rv (sp_root spec) (sp_limits spec))) (\<lambda>L.
           io_then (copy_entries L um stg (map (\<lambda>e. (e, view e)) (sp_entries spec)) \<lparr>ct_files = 0, ct_total = 0\<rparr>)
           (io_bind (io_wrap ''digest snapshot: %w'' [] (digest_path sha stg)) (\<lambda>(d, es).
            io_bind (Publish sha SnapshotObject stg d) (\<lambda>obj. io_ret (snapshot_result obj es)))))))
          (\<lambda>res s. snapshot_ok sha view rv spec res \<and> present (sn_path res) s)"
        by (rule triple_defer [OF body clean snaps_any]) (use stg in auto)
    qed
  qed (rule snaps_fail)
qed

lemma keeps_copyFile:
  assumes "staging_free P" "fst stg = Staging"
  shows "keeps P (copyFile L um stg src dst depth opened b)"
proof -
  have t: "fst (staged_path stg dst) = Staging" using assms(2) by (simp add: staged_path_def)
  have c: "keeps P (copy_bytes um stg src dst f st)" for f st
    unfolding copy_bytes_def Let_def
    by (intro keeps_intros keeps_staging_MkdirAll staging_freeD [OF assms(1)] assms(1) t) (simp add: t)
  show ?thesis unfolding copyFile_def Let_def by (intro keeps_intros c)
qed

lemma keeps_walk:
  assumes "staging_free P" "fst stg = Staging"
  shows "keeps P (snap_walk L um stg src dst ps b)"
  using assms(2)
proof (induction L um stg src dst ps b rule: snap_walk.induct)
  case (2 L um stg src dst p x ps b)
  have t: "fst (staged_path stg q) = Staging" for q using 2(3) by (simp add: staged_path_def)
  show ?case
    unfolding snap_walk.simps
  proof (intro triple_if keeps_ops(2))
    assume d: "\<not> path_depth p > lm_depth L"
    show "keeps P (case x of
        WFile opened \<Rightarrow>
          io_bind (copyFile L um stg (below_path src p) (below_path dst p) (path_depth p) opened b)
            (snap_walk L um stg src dst ps)
      | WOther t \<Rightarrow> io_fail (reject_type (below_path src p) t)
      | WDir r \<Rightarrow>
          io_then (os_MkdirAll (staged_path stg (below_path dst p)))
            (case (if ValidPath p then r else Inl (Plain ''invalid name'' [])) of
               Inl e \<Rightarrow> io_fail (Wrapped ''walk %s: %w'' [src] e)
             | Inr ch \<Rightarrow> snap_walk L um stg src dst (listed p ch @ ps) b))"
    proof (cases x)
      case (WFile opened)
      show ?thesis unfolding WFile wnode.case
        by (rule keeps_ops(4) [OF keeps_copyFile [OF assms(1) 2(3)]]) (rule 2(1) [OF d WFile 2(3)])
    next
      case (WDir r)
      show ?thesis unfolding WDir wnode.case
        by (rule keeps_ops(4) [OF keeps_staging_MkdirAll [OF assms(1) t]], rule triple_sum, rule keeps_ops(2))
          (erule 2(2) [OF d WDir _ 2(3)])
    qed (simp add: keeps_ops(2))
  qed
qed (simp add: snap_walk.simps keeps_ops(1))

lemma keeps_copy_entries:
  assumes "staging_free P" "fst stg = Staging"
  shows "keeps P (copy_entries L um stg evs b)"
  unfolding copy_entries_def copyEntry_def copyDir_def split_def
  by (intro keeps_intros keeps_copyFile keeps_walk assms)
    (auto intro!: keeps_intros keeps_copyFile keeps_walk assms split: ftype.splits)

lemma keeps_snapshot_Create: "keeps (content_addressed sha) (snapshot_Create sha um rv view spec)"
proof -
  have body: "keeps (content_addressed sha) (io_defer (os_RemoveAll stg)
          (io_bind (io_of (newWalker rv (sp_root spec) (sp_limits spec))) (\<lambda>L.
           io_then (copy_entries L um stg (map (\<lambda>e. (e, view e)) (sp_entries spec)) \<lparr>ct_files = 0, ct_total = 0\<rparr>)
           (io_bind (io_wrap ''digest snapshot: %w'' [] (digest_path sha stg)) (\<lambda>(d, es).
            io_bind (Publish sha SnapshotObject stg d) (\<lambda>obj. io_ret (snapshot_result obj es)))))))"
    if "fst stg = Staging" for stg
    by (intro keeps_intros hassert_content staging_writable keeps_copy_entries staging_free_content keeps_Publish that)
  show ?thesis
    unfolding snapshot_Create_def
  proof (rule triple_if)
    show "keeps (content_addressed sha) (io_bind (NewStaging ''snapshot'') (\<lambda>stg. io_defer (os_RemoveAll stg)
          (io_bind (io_of (newWalker rv (sp_root spec) (sp_limits spec))) (\<lambda>L.
           io_then (copy_entries L um stg (map (\<lambda>e. (e, view e)) (sp_entries spec)) \<lparr>ct_files = 0, ct_total = 0\<rparr>)
           (io_bind (io_wrap ''digest snapshot: %w'' [] (digest_path sha stg)) (\<lambda>(d, es).
            io_bind (Publish sha SnapshotObject stg d) (\<lambda>obj. io_ret (snapshot_result obj es))))))))"
      by (rule triple_bind [OF content_NewStaging], rule triple_pure) (rule body)
  qed (rule keeps_ops(2))
qed


text \<open>One file and an optional entry that is not there.\<close>

definition demo_stat :: fstat where
  "demo_stat = \<lparr>fs_type = TRegular, fs_perm = 0x1ED, fs_nlink = 1, fs_size = 2, fs_mtime = 7\<rparr>"

definition demo_view :: "snap_entry \<Rightarrow> entry_view" where
  "demo_view e =
     \<lparr>ev_canceled = False,
      ev_lstat = (if en_source e = ''m'' then Some (Inr TRegular) else None),
      ev_file = Inr \<lparr>fo_before = Inr demo_stat, fo_bytes = ''hi'', fo_end = None, fo_after = Inr demo_stat\<rparr>,
      ev_walk = Inr (WDir (Inr []))\<rparr>"

definition demo_spec :: snap_spec where
  "demo_spec =
     \<lparr>sp_root = \<lparr>ro_path = ''/src'', ro_identity = \<lparr>fi_device = 1, fi_inode = 2\<rparr>\<rparr>,
      sp_entries = [\<lparr>en_source = ''m'', en_dest = ''v'', en_optional = False\<rparr>,
        \<lparr>en_source = ''q'', en_dest = ''q'', en_optional = True\<rparr>],
      sp_limits = \<lparr>lm_files = 3, lm_file_bytes = 2, lm_total = 0, lm_depth = 0\<rparr>\<rparr>"

definition demo_root_view :: root_view where
  "demo_root_view = \<lparr>rv_open = Inr (), rv_identity = Inr \<lparr>fi_device = 1, fi_inode = 2\<rparr>\<rparr>"

definition demo_staging :: host where
  "demo_staging =
     demo_store\<lparr>tree := (\<lambda>d. if d = Staging \<or> d = Snapshots then Some (Directory []) else None)\<rparr>"

lemma demo_frozen:
  "(case fst (snapshot_Create demo_sha 0x12 demo_root_view demo_view demo_spec demo_staging) of
      Ret r \<Rightarrow> map sf_path (sn_files r) | _ \<Rightarrow> []) = [''v'']"
  by code_simp


end
