(* ===== verification/Payload.thy ===== *)
theory Payload
  imports Staging
begin

text \<open>
  The container payload (\<^verbatim>\<open>internal/payload\<close>): the manifest with its modes, sizes and digests, the bundle
  embedded in the binary, and its extraction. JSON is a parameter: \<open>decode\<close> is the strict decoder of the
  standard library on the manifest type, \<open>marshal\<close> its indented encoder.
\<close>

section \<open>The manifest (manifest.go)\<close>

definition ManifestPath :: string where "ManifestPath = ''manifest.json''"
definition manifestFormat :: int where "manifestFormat = 1"

record pfile =
  pf_path :: string
  pf_mode :: string
  pf_size :: int
  pf_digest :: digest

record pmanifest =
  pm_format :: int
  pm_files :: "pfile list"
  pm_digest :: digest

text \<open>\<^verbatim>\<open>strconv.ParseUint(s, 8, 32)\<close>.\<close>

definition octal_digit :: "char \<Rightarrow> bool" where
  "octal_digit c = (CHR ''0'' \<le> c \<and> c \<le> CHR ''7'')"

definition octal_value :: "string \<Rightarrow> nat" where
  "octal_value s = foldl (\<lambda>n c. 8 * n + (byte c - byte (CHR ''0''))) 0 s"

definition ParseUint_8_32 :: "string \<Rightarrow> nat option" where
  "ParseUint_8_32 s =
     (if s \<noteq> '''' \<and> list_all octal_digit s \<and> int (octal_value s) < 2 ^ 32 then Some (octal_value s) else None)"

definition Perm :: "pfile \<Rightarrow> error + 32 word" where
  "Perm f =
     (case ParseUint_8_32 (pf_mode f) of
        None \<Rightarrow> Inl (Class ErrInvalid ''%w: payload mode %q for %s'' [pf_mode f, pf_path f])
      | Some n \<Rightarrow>
          if (of_nat n :: 64 word) AND NOT 0x1FF \<noteq> 0
          then Inl (Class ErrInvalid ''%w: payload mode %q for %s'' [pf_mode f, pf_path f])
          else Inr (of_nat n))"

definition payload_line :: "pfile \<Rightarrow> string" where
  "payload_line f =
     ''f'' @ [CHR 0x00] @ pf_mode f @ [CHR 0x00] @ itoa_int (pf_size f) @ [CHR 0x00] @ pf_path f @ [CHR 0x00] @
     Digest_String (pf_digest f) @ [CHR 0x0A]"

definition ComputeDigest :: "(string \<Rightarrow> string) \<Rightarrow> pfile list \<Rightarrow> digest" where
  "ComputeDigest sha fs = SHA256 sha (concat (map payload_line (sort_key pf_path fs)))"

definition check_pfile :: "pfile \<Rightarrow> string set \<Rightarrow> error + string set" where
  "check_pfile f seen =
     (if pf_path f = '''' \<or> pf_path f = ManifestPath \<or> pf_path f \<in> seen
      then Inl (Class ErrInvalid ''%w: payload manifest entry %q'' [pf_path f])
      else if \<not> ValidPath (pf_path f) then Inl (Class ErrInvalid ''%w: payload path %q'' [pf_path f])
      else rbind (Perm f) (\<lambda>_.
        if Digest_IsZero (pf_digest f) then Inl (Class ErrInvalid ''%w: payload entry %s has no digest'' [pf_path f])
        else Inr (insert (pf_path f) seen)))"

definition ParseManifest :: "(string \<Rightarrow> string) \<Rightarrow> (string \<Rightarrow> error + pmanifest) \<Rightarrow> string \<Rightarrow> error + pmanifest" where
  "ParseManifest sha decode_json bytes =
     (case decode_json bytes of
        Inl _ \<Rightarrow> Inl (Class ErrInvalid ''%w: payload manifest: %v'' [])
      | Inr m \<Rightarrow>
          if pm_format m \<noteq> manifestFormat
          then Inl (Class ErrNotSupported ''%w: payload manifest format %d (supported: %d)''
                 [itoa_int (pm_format m), itoa_int manifestFormat])
          else rbind (rfold check_pfile (pm_files m) {}) (\<lambda>_.
            let got = ComputeDigest sha (pm_files m) in
            if got \<noteq> pm_digest m
            then Inl (Class ErrConflict ''%w: payload manifest digest %s does not match entries (%s)''
                   [Digest_String (pm_digest m), Digest_String got])
            else Inr m))"

definition EncodeManifest :: "(string \<Rightarrow> string) \<Rightarrow> (pmanifest \<Rightarrow> error + string) \<Rightarrow> pfile list \<Rightarrow> error + string" where
  "EncodeManifest sha marshal fs =
     (let sorted = sort_key pf_path fs in
      rbind (marshal \<lparr>pm_format = manifestFormat, pm_files = sorted, pm_digest = ComputeDigest sha sorted\<rparr>)
        (\<lambda>bytes. Inr (bytes @ [CHR 0x0A])))"

section \<open>The bundle (payload.go)\<close>

text \<open>The embedded files by their path; an embedded file system is read-only and cannot fail otherwise.\<close>

record payload_bundle =
  bu_fs :: "(string \<times> string) list"
  bu_manifest :: pmanifest

definition check_embedded :: "(string \<Rightarrow> string) \<Rightarrow> (string \<times> string) list \<Rightarrow> pfile \<Rightarrow> string list \<Rightarrow> error + string list" where
  "check_embedded sha fsys f left =
     (case map_of fsys (pf_path f) of
        None \<Rightarrow> Inl (Class ErrConflict ''%w: payload file %s is in the manifest but not embedded'' [pf_path f])
      | Some content \<Rightarrow>
          if int (length content) \<noteq> pf_size f \<or> SHA256 sha content \<noteq> pf_digest f
          then Inl (Class ErrConflict
                 ''%w: payload file %s does not match its manifest entry (regenerate with go generate ./internal/payload)''
                 [pf_path f])
          else Inr (removeAll (pf_path f) left))"

definition payload_New :: "(string \<Rightarrow> string) \<Rightarrow> (string \<Rightarrow> error + pmanifest) \<Rightarrow> (string \<times> string) list \<Rightarrow> error + payload_bundle" where
  "payload_New sha decode_json fsys =
     (case map_of fsys ManifestPath of
        None \<Rightarrow> Inl (Wrapped ''embedded payload manifest: %w'' [] (Plain ''file does not exist'' []))
      | Some bytes \<Rightarrow>
          rbind (ParseManifest sha decode_json bytes) (\<lambda>m.
          rbind (rfold (check_embedded sha fsys) (pm_files m) (removeAll ManifestPath (map fst fsys))) (\<lambda>left.
            case left of
              [] \<Rightarrow> Inr \<lparr>bu_fs = fsys, bu_manifest = m\<rparr>
            | p # _ \<Rightarrow> Inl (Class ErrConflict
                ''%w: payload file %s is embedded but not in the manifest (regenerate with go generate ./internal/payload)''
                [p]))))"

definition writeExclusive :: "32 word \<Rightarrow> hpath \<Rightarrow> string \<Rightarrow> 32 word \<Rightarrow> unit hio" where
  "writeExclusive um p content perm =
     io_then (io_wrap ''extract payload: %w'' [] (os_OpenExcl p (perm AND NOT um))) (os_Write p content)"

definition extract_file :: "32 word \<Rightarrow> (pfile \<Rightarrow> bool) \<Rightarrow> (string \<times> string) list \<Rightarrow> hpath \<Rightarrow> pfile \<Rightarrow> unit hio" where
  "extract_file um canceled fsys dest f =
     (if canceled f then io_fail (Class ErrCanceled ''%w: extract payload: %v'' [])
      else io_bind (io_of (Perm f)) (\<lambda>perm.
        case map_of fsys (pf_path f) of
          None \<Rightarrow> io_fail (Wrapped ''read embedded %s: %w'' [pf_path f] (Plain ''file does not exist'' []))
        | Some content \<Rightarrow>
            (let target = staged_path dest (pf_path f) in
             io_then (os_MkdirAll (fst target, butlast (snd target))) (writeExclusive um target content perm))))"

definition Extract ::
  "(string \<Rightarrow> string) \<Rightarrow> (pmanifest \<Rightarrow> error + string) \<Rightarrow> 32 word \<Rightarrow> (pfile \<Rightarrow> bool) \<Rightarrow> payload_bundle \<Rightarrow> hpath \<Rightarrow> digest hio" where
  "Extract sha marshal um canceled b dest =
     io_then (io_each (extract_file um canceled (bu_fs b) dest) (pm_files (bu_manifest b)))
     (io_bind (io_of (EncodeManifest sha marshal (pm_files (bu_manifest b)))) (\<lambda>encoded.
      io_then (writeExclusive um (staged_path dest ManifestPath) encoded 0x1A4)
        (io_ret (pm_digest (bu_manifest b)))))"

section \<open>Presets\<close>

definition presetDir :: string where "presetDir = ''presets''"
definition CommonPreset :: string where "CommonPreset = ''common''"

definition preset_name :: "pfile \<Rightarrow> string option" where
  "preset_name f =
     (case cut_prefix (pf_path f) (presetDir @ ''/'') of
        (rest, ok) \<Rightarrow>
          if ok then (case cut rest ''/'' of (name, _, found) \<Rightarrow> if found then Some name else None) else None)"

definition Names :: "payload_bundle \<Rightarrow> string list" where
  "Names b =
     sort (removeAll CommonPreset (remdups (List.map_filter preset_name (pm_files (bu_manifest b)))))"

record preset =
  pr_name :: string
  pr_files :: "(string \<times> string) list"

definition preset_file :: "payload_bundle \<Rightarrow> string \<Rightarrow> pfile \<Rightarrow> (string \<times> string) list \<Rightarrow> error + (string \<times> string) list" where
  "preset_file b pre f files =
     (case cut_prefix (pf_path f) pre of
        (rel, ok) \<Rightarrow>
          if \<not> ok then Inr files
          else (case map_of (bu_fs b) (pf_path f) of
                  None \<Rightarrow> Inl (Wrapped ''read preset file %s: %w'' [pf_path f] (Plain ''file does not exist'' []))
                | Some content \<Rightarrow> Inr (AList.update rel content files)))"

definition Preset :: "payload_bundle \<Rightarrow> string \<Rightarrow> error + preset" where
  "Preset b name =
     rbind (rfold (preset_file b (presetDir @ ''/'' @ name @ ''/'')) (pm_files (bu_manifest b)) []) (\<lambda>files.
       if files = []
       then Inl (Class ErrNotFound ''%w: preset %q (available: %s)'' [name, join '', '' (Names b)])
       else Inr \<lparr>pr_name = name, pr_files = files\<rparr>)"

end
