(* ===== verification/GoScan.thy ===== *)
theory GoScan
  imports GoStrings
begin

text \<open>
  \<^verbatim>\<open>bufio.Scanner\<close> with its line splitter and a bounded buffer, and a reader as what it yields: its bytes and
  how reading ends after them.
\<close>

record stream =
  st_data :: string
  st_end :: "error option"

text \<open>\<^verbatim>\<open>io.LimitReader\<close>: past the limit the reader is not asked again, so its error is not seen.\<close>

definition LimitReader :: "int \<Rightarrow> stream \<Rightarrow> stream" where
  "LimitReader n r =
     (if int (length (st_data r)) < n then r else \<lparr>st_data = take (nat n) (st_data r), st_end = None\<rparr>)"

text \<open>
  The lines up to the first that does not fit the buffer of \<open>mx\<close> bytes, and whether there was one. A line break
  and one carriage return before it are dropped; there is no line after a final break.
\<close>

definition scan_limited :: "int \<Rightarrow> string \<Rightarrow> string list \<times> bool" where
  "scan_limited mx s =
     (let ls = split_on (CHR 0x0A) s;
          all = (if last ls = [] then butlast ls else ls);
          fit = takeWhile (\<lambda>l. int (length l) < mx) all
      in (map (\<lambda>l. trim_suffix l [CHR 0x0D]) fit, length fit < length all))"

text \<open>\<^verbatim>\<open>Scanner.Err\<close> after the loop.\<close>

definition scan_err :: "int \<Rightarrow> stream \<Rightarrow> error option" where
  "scan_err mx r = (if snd (scan_limited mx (st_data r)) then Some (Plain ''bufio.Scanner: token too long'' []) else st_end r)"

end
