(* ===== verification/Release.thy ===== *)
theory Release
  imports Payload GoScan
begin

text \<open>
  Release acquisition (\<^verbatim>\<open>internal/release\<close>): resolving a version, checking the download against the published
  checksums, unpacking the archive into staging, validating it against its own payload manifest in both directions,
  and publishing it. HTTP, gzip and tar are what the standard library hands over: a response per URL, and the
  entries of an archive with their contents. The theorem says what any artifact that is returned has been through.
\<close>

section \<open>The source (source.go)\<close>

record descriptor =
  de_version :: string
  de_platform :: platform
  de_archive_name :: string
  de_archive_url :: string
  de_checksums_url :: string

definition release_Resolve :: "string \<Rightarrow> string \<Rightarrow> platform \<Rightarrow> error + descriptor" where
  "release_Resolve base ver plat =
     (if ver = '''' \<or> hd ver \<noteq> CHR ''v''
      then Inl (Class ErrInvalid ''%w: release version %q (want v-prefixed, e.g. v2.0.0)'' [ver])
      else let name = ''vibe_'' @ ver @ ''_'' @ OS plat @ ''_'' @ Arch plat @ ''.tar.gz'' in
        Inr \<lparr>de_version = ver, de_platform = plat, de_archive_name = name,
          de_archive_url = base @ ''/'' @ ver @ ''/'' @ name, de_checksums_url = base @ ''/'' @ ver @ ''/checksums.txt''\<rparr>)"

text \<open>What the HTTP client answers: a transport error, or a status with a body.\<close>

type_synonym http = "string \<Rightarrow> error + (nat \<times> stream)"

definition source_get :: "http \<Rightarrow> string \<Rightarrow> error + stream" where
  "source_get http url =
     (case http url of
        Inl e \<Rightarrow> Inl (Class ErrUnavailable ''%w: fetch %s: %v'' [url])
      | Inr (st, body) \<Rightarrow>
          if st = 200 then Inr body
          else if st = 404 then Inl (Class ErrNotFound ''%w: %s'' [url])
          else Inl (Class ErrUnavailable ''%w: fetch %s: HTTP %d'' [url, itoa st]))"

section \<open>The attestation (verify.go)\<close>

definition maxChecksumsBytes :: int where "maxChecksumsBytes = 1048576"

definition checksum_line :: "(nat \<Rightarrow> nat) \<Rightarrow> string \<Rightarrow> string \<Rightarrow> (error + string) option" where
  "checksum_line lower name line =
     (case Utf8.fields line of
        [sum0, file] \<Rightarrow>
          if trim_prefix file ''*'' \<noteq> name then None
          else Some (let sum = to_lower lower sum0 in
            if length sum \<noteq> 64 \<or> \<not> list_all (\<lambda>c. is_lower_hex (byte c)) sum
            then Inl (Class ErrInvalid ''%w: malformed checksum for %s'' [name])
            else Inr sum)
      | _ \<Rightarrow> None)"

definition findChecksum :: "(nat \<Rightarrow> nat) \<Rightarrow> stream \<Rightarrow> string \<Rightarrow> error + string" where
  "findChecksum lower r name =
     (let lr = LimitReader maxChecksumsBytes r in
      case List.map_filter (checksum_line lower name) (fst (scan_limited 65536 (st_data lr))) of
        x # _ \<Rightarrow> x
      | [] \<Rightarrow>
          (case scan_err 65536 lr of
             Some e \<Rightarrow> Inl (Wrapped ''read checksums: %w'' [] e)
           | None \<Rightarrow> Inl (Class ErrNotFound ''%w: no checksum entry for %s'' [name])))"

record verified =
  ve_archive_digest :: digest
  ve_method :: string

definition verify_finish :: "(string \<Rightarrow> string) \<Rightarrow> descriptor \<Rightarrow> string \<Rightarrow> string \<Rightarrow> error + verified" where
  "verify_finish sha d want hashed =
     (let got = sha hashed in
      if got \<noteq> want
      then Inl (Class ErrConflict ''%w: archive %s digest sha256:%s does not match released checksum sha256:%s''
             [de_archive_name d, got, want])
      else rbind (ParseDigest (''sha256:'' @ got)) (\<lambda>dg. Inr \<lparr>ve_archive_digest = dg, ve_method = ''checksums.txt''\<rparr>))"

section \<open>Unpacking (acquire.go)\<close>

definition archiveBinaryName :: string where "archiveBinaryName = ''vibe''"
definition archivePayloadPrefix :: string where "archivePayloadPrefix = ''payload/''"
definition maxArchiveEntries :: int where "maxArchiveEntries = 10000"
definition maxEntryBytes :: int where "maxEntryBytes = 536870912"
definition maxTotalBytes :: int where "maxTotalBytes = 1073741824"
definition ArtifactBinaryRelPath :: string where "ArtifactBinaryRelPath = ''bin/vibe''"
definition ArtifactPayloadRelPath :: string where "ArtifactPayloadRelPath = ''payload''"

record tar_header =
  th_name :: string
  th_typeflag :: char
  th_size :: nat
  th_mode :: "64 word"

text \<open>One \<^verbatim>\<open>Next\<close> of the tar reader: an entry with the bytes it yields and how they end, or an error.\<close>

datatype tar_step = TarEntry tar_header string "error option" | TarError error

definition mapEntry :: "string \<Rightarrow> error + (string \<times> 32 word)" where
  "mapEntry name =
     (if \<not> ValidPath name then Inl (Class ErrInvalid ''%w: archive entry %q'' [name])
      else if name = archiveBinaryName then Inr (ArtifactBinaryRelPath, 0x1ED)
      else if name = ''payload'' \<or> has_prefix name archivePayloadPrefix then Inr (name, 0x1A4)
      else Inl (Class ErrInvalid ''%w: unexpected archive entry %q'' [name]))"

definition extract_regular :: "32 word \<Rightarrow> hpath \<Rightarrow> string \<Rightarrow> 32 word \<Rightarrow> tar_header \<Rightarrow> string \<Rightarrow> error option \<Rightarrow> unit hio" where
  "extract_regular um target name mode h content fin =
     (let perm = (if mode = 0x1ED \<or> th_mode h AND 0x40 \<noteq> 0 then 0x1ED else 0x1A4);
          n = min (length content) (th_size h + 1) in
      io_then (os_MkdirAll (fst target, butlast (snd target)))
      (io_then (io_wrap ''extract %s: %w'' [name] (os_OpenExcl target (perm AND NOT um)))
      (io_then (io_wrap ''extract %s: %w'' [name] (os_Write target (take n content)))
        (case (if n < th_size h + 1 then fin else None) of
           Some e \<Rightarrow> io_fail (Wrapped ''extract %s: %w'' [name] e)
         | None \<Rightarrow>
             if n \<noteq> th_size h then io_fail (Class ErrInvalid ''%w: archive entry %s size mismatch'' [name])
             else io_ret ()))))"

definition extract_entry :: "32 word \<Rightarrow> hpath \<Rightarrow> tar_header \<Rightarrow> string \<Rightarrow> error option \<Rightarrow> int \<Rightarrow> int hio" where
  "extract_entry um stg h content fin tot =
     (let name = path_clean (th_name h) in
      if name = ''.'' then io_ret tot
      else io_bind (io_of (mapEntry name)) (\<lambda>(dest, mode).
        if th_typeflag h = CHR ''5'' then io_then (os_MkdirAll (staged_path stg dest)) (io_ret tot)
        else if th_typeflag h = CHR ''0'' then
          if int (th_size h) > maxEntryBytes
          then io_fail (Class ErrInvalid ''%w: archive entry %s exceeds %d bytes'' [name, itoa_int maxEntryBytes])
          else if tot + int (th_size h) > maxTotalBytes
          then io_fail (Class ErrInvalid ''%w: release archive exceeds %d bytes'' [itoa_int maxTotalBytes])
          else io_then (extract_regular um (staged_path stg dest) name mode h content fin) (io_ret (tot + int (th_size h)))
        else io_fail (Class ErrInvalid
               ''%w: archive entry %s has unsupported type %q (regular files and directories only)'' [name, [th_typeflag h]])))"

text \<open>The loop; \<open>k\<close> counts the entries, the context is looked at before each.\<close>

fun extract_entries :: "32 word \<Rightarrow> hpath \<Rightarrow> (int \<Rightarrow> bool) \<Rightarrow> int \<Rightarrow> tar_step list \<Rightarrow> int \<Rightarrow> unit hio" where
  "extract_entries um stg canceled k steps tot =
     (if canceled k then io_fail (Class ErrCanceled ''%w: extract release: %v'' [])
      else case steps of
        [] \<Rightarrow> io_ret ()
      | TarError e # _ \<Rightarrow> io_fail (Class ErrInvalid ''%w: release archive: %v'' [])
      | TarEntry h content fin # rest \<Rightarrow>
          if k + 1 > maxArchiveEntries
          then io_fail (Class ErrInvalid ''%w: release archive exceeds %d entries'' [itoa_int maxArchiveEntries])
          else io_bind (extract_entry um stg h content fin tot) (extract_entries um stg canceled (k + 1) rest))"

declare extract_entries.simps [simp del]

definition extractArchive :: "(stream \<Rightarrow> error + tar_step list) \<Rightarrow> 32 word \<Rightarrow> (int \<Rightarrow> bool) \<Rightarrow> stream \<Rightarrow> hpath \<Rightarrow> unit hio" where
  "extractArchive untar um canceled r stg =
     (case untar r of
        Inl e \<Rightarrow> io_fail (Class ErrInvalid ''%w: release archive is not gzip: %v'' [])
      | Inr steps \<Rightarrow>
          io_then (extract_entries um stg canceled 0 steps 0)
            (case st_end r of
               Some e \<Rightarrow> io_fail (Wrapped ''read release archive: %w'' [] e)
             | None \<Rightarrow> io_ret ()))"

section \<open>Validating what was unpacked\<close>

definition digestFileSized :: "(string \<Rightarrow> string) \<Rightarrow> hpath \<Rightarrow> (digest \<times> int) hio" where
  "digestFileSized sha p = hquery (\<lambda>s.
     case lookup s p of
       Some (RegularFile _ b) \<Rightarrow> Inr (SHA256 sha b, int (length b))
     | _ \<Rightarrow> Inl (Plain ''no such file or directory'' []))"

text \<open>The paths of everything that is not a directory, in the order of \<^verbatim>\<open>filepath.WalkDir\<close>.\<close>

function leaves :: "node \<Rightarrow> string list list" where
  "leaves (Directory ch) = concat (map (\<lambda>(n, x). map (\<lambda>p. n # p) (leaves x)) (sort_key fst ch))"
| "leaves (RegularFile m b) = [[]]"
| "leaves (SpecialFile k) = [[]]"
  by pat_completeness auto
termination
proof (relation "measure StoreTree.node_count", goal_cases)
  case (2 ch z n x)
  have "z \<in> set (sort_key fst ch)" using 2(1) by simp
  then have "(n, x) \<in> set ch" using 2(2) by simp
  then have "StoreTree.node_count x \<in> set (map (\<lambda>(n, x). StoreTree.node_count x) ch)" by force
  then have "StoreTree.node_count x \<le> sum_list (map (\<lambda>(n, x). StoreTree.node_count x) ch)"
    by (intro member_le_sum_list) simp_all
  then show ?case by simp
qed simp

definition walk_files :: "hpath \<Rightarrow> string list list hio" where
  "walk_files p = hquery (\<lambda>s.
     case lookup s p of
       None \<Rightarrow> Inl (Plain ''no such file or directory'' [])
     | Some t \<Rightarrow> Inr (leaves t))"

definition check_payload_file :: "(string \<Rightarrow> string) \<Rightarrow> hpath \<Rightarrow> pfile \<Rightarrow> unit hio" where
  "check_payload_file sha root f =
     (let target = staged_path root (pf_path f) in
      io_bind (io_try (digestFileSized sha target)) (\<lambda>r.
        case r of
          Inl _ \<Rightarrow> io_fail (Class ErrConflict ''%w: payload file %s missing from archive'' [pf_path f])
        | Inr (d, sz) \<Rightarrow>
            if sz \<noteq> pf_size f \<or> d \<noteq> pf_digest f
            then io_fail (Class ErrConflict ''%w: payload file %s does not match the payload manifest'' [pf_path f])
            else io_bind (io_of (Perm f)) (\<lambda>perm. os_Chmod target perm)))"

definition validateExtracted ::
  "(string \<Rightarrow> string) \<Rightarrow> (string \<Rightarrow> error + pmanifest) \<Rightarrow> hpath \<Rightarrow> (digest \<times> digest) hio" where
  "validateExtracted sha decode_json stg =
     (let root = staged_path stg ArtifactPayloadRelPath in
      io_bind (io_try (digestFileSized sha (staged_path stg ArtifactBinaryRelPath))) (\<lambda>r.
        case r of
          Inl _ \<Rightarrow> io_fail (Class ErrInvalid ''%w: release archive has no engine binary'' [])
        | Inr (bin, _) \<Rightarrow>
            io_bind (io_try (os_ReadFile (staged_path root ManifestPath))) (\<lambda>md.
              case md of
                Inr (Some bytes) \<Rightarrow>
                  io_bind (io_of (ParseManifest sha decode_json bytes)) (\<lambda>m.
                  io_then (io_each (check_payload_file sha root) (pm_files m))
                  (io_bind (walk_files root) (\<lambda>ps.
                     case find (\<lambda>p. join ''/'' p \<notin> insert ManifestPath (pf_path ` set (pm_files m))) ps of
                       Some p \<Rightarrow> io_fail (Class ErrConflict
                         ''%w: archive carries payload file %s that the payload manifest does not list'' [join ''/'' p])
                     | None \<Rightarrow> io_ret (bin, pm_digest m))))
              | _ \<Rightarrow> io_fail (Class ErrInvalid ''%w: release archive has no payload manifest'' []))))"

section \<open>Acquire\<close>

record artifact_ref =
  ar_record :: artifact_record
  ar_path :: hpath

record acquirer =
  aq_base :: string
  aq_http :: http
  aq_untar :: "stream \<Rightarrow> error + tar_step list"
  aq_decode :: "string \<Rightarrow> error + pmanifest"
  aq_lower :: "nat \<Rightarrow> nat"
  aq_platform :: platform
  aq_now :: int

definition release_record :: "descriptor \<Rightarrow> verified \<Rightarrow> digest \<Rightarrow> digest \<Rightarrow> digest \<Rightarrow> int \<Rightarrow> artifact_record" where
  "release_record desc v d bin pay t =
     \<lparr>ac_format = 0, ac_digest = d, ac_version = de_version desc, ac_platform = de_platform desc,
      ac_binary_digest = bin, ac_payload_digest = pay,
      ac_release = \<lparr>pv_source = de_archive_url desc, pv_version = de_version desc, pv_attestation = ve_method v,
        pv_archive_hash = ve_archive_digest v\<rparr>,
      ac_installed_at = t\<rparr>"

text \<open>From the staged, extracted archive to the installed artifact.\<close>

definition install_staged ::
  "(string \<Rightarrow> string) \<Rightarrow> artifact_record codec \<Rightarrow> acquirer \<Rightarrow> descriptor \<Rightarrow> string \<Rightarrow> stream \<Rightarrow> hpath \<Rightarrow> artifact_ref hio" where
  "install_staged sha c aq desc want archive stg =
     io_bind (io_of (verify_finish sha desc want (st_data archive))) (\<lambda>v.
     io_bind (validateExtracted sha (aq_decode aq) stg) (\<lambda>(bin, pay).
     io_bind (digest_path sha stg) (\<lambda>(d, es).
     io_bind (Publish sha ArtifactObject stg d) (\<lambda>obj.
     io_bind (io_try (ReadArtifactRecord c d)) (\<lambda>r.
       case r of
         Inr existing \<Rightarrow> io_ret \<lparr>ar_record = existing, ar_path = ob_path obj\<rparr>
       | Inl e \<Rightarrow>
           if \<not> errors_is e ErrNotFound then io_fail e
           else (let rec = release_record desc v d bin pay (aq_now aq) in
                 io_then (WriteArtifactRecord c rec) (io_ret \<lparr>ar_record = rec, ar_path = ob_path obj\<rparr>)))))))"

definition Acquire ::
  "(string \<Rightarrow> string) \<Rightarrow> artifact_record codec \<Rightarrow> 32 word \<Rightarrow> (int \<Rightarrow> bool) \<Rightarrow> acquirer \<Rightarrow> string \<Rightarrow> artifact_ref hio" where
  "Acquire sha c um canceled aq ver =
     io_bind (io_of (release_Resolve (aq_base aq) ver (aq_platform aq))) (\<lambda>desc.
     io_bind (io_of (source_get (aq_http aq) (de_checksums_url desc))) (\<lambda>attestation.
     io_bind (io_of (findChecksum (aq_lower aq) attestation (de_archive_name desc))) (\<lambda>want.
     io_bind (io_of (source_get (aq_http aq) (de_archive_url desc))) (\<lambda>archive.
     io_bind (NewStaging ''release'') (\<lambda>stg.
       io_defer (os_RemoveAll stg)
         (io_then (extractArchive (aq_untar aq) um canceled archive stg)
           (install_staged sha c aq desc want archive stg)))))))"

section \<open>What an installed release has been through\<close>

text \<open>
  A validated tree: the binary, a manifest that parses, every file the manifest lists with its bytes and mode, and
  nothing else.
\<close>

definition release_tree ::
  "(string \<Rightarrow> string) \<Rightarrow> (string \<Rightarrow> error + pmanifest) \<Rightarrow> node \<Rightarrow> pmanifest \<Rightarrow> digest \<Rightarrow> bool" where
  "release_tree sha decode_json t m bin \<longleftrightarrow>
     (\<exists>p b. node_at t [''bin'', ''vibe''] = Some (RegularFile p b) \<and> SHA256 sha b = bin) \<and>
     (\<exists>p b. node_at t [''payload'', ''manifest.json''] = Some (RegularFile p b) \<and> ParseManifest sha decode_json b = Inr m) \<and>
     (\<forall>f \<in> set (pm_files m). \<exists>p b. Perm f = Inr p \<and> node_at t (''payload'' # elems (pf_path f)) = Some (RegularFile p b) \<and>
        int (length b) = pf_size f \<and> SHA256 sha b = pf_digest f) \<and>
     (\<forall>cs p b. node_at t cs = Some (RegularFile p b) \<longrightarrow>
        cs = [''bin'', ''vibe''] \<or> cs = [''payload'', ''manifest.json''] \<or> (\<exists>f \<in> set (pm_files m). cs = ''payload'' # elems (pf_path f)))"

text \<open>Staging holds nothing but what an archive may contain.\<close>

definition laid :: "hpath \<Rightarrow> files \<Rightarrow> bool" where
  "laid stg F \<longleftrightarrow>
     (\<forall>cs v. F (fst stg, snd stg @ cs) = Some v \<longrightarrow> cs = [''bin'', ''vibe''] \<or> (\<exists>ds. cs = ''payload'' # ds))"

definition holding_laid :: "hpath \<Rightarrow> host \<Rightarrow> bool" where
  "holding_laid stg s \<longleftrightarrow> (\<exists>F. laid stg F \<and> holding (fst stg) F s)"

lemma elems_cons: "CHR ''/'' \<notin> set a \<Longrightarrow> a \<noteq> '''' \<Longrightarrow> elems (a @ ''/'' @ b) = a # elems b"
  by (simp add: elems_def split_on_append)

lemma elems_single: "CHR ''/'' \<notin> set a \<Longrightarrow> a \<noteq> '''' \<Longrightarrow> elems a = [a]"
  by (simp add: elems_def split_on_no_sep)

lemma mapEntry_laid:
  assumes "mapEntry name = Inr (dest, mode)"
  shows "elems dest = [''bin'', ''vibe''] \<or> (\<exists>ds. elems dest = ''payload'' # ds)"
proof -
  have "elems ArtifactBinaryRelPath = [''bin'', ''vibe'']" by code_simp
  moreover have "elems ''payload'' = [''payload'']" by code_simp
  moreover have "\<exists>ds. elems n = ''payload'' # ds" if n: "has_prefix n archivePayloadPrefix" for n
  proof -
    obtain r where "n = ''payload/'' @ r" using n by (auto simp: has_prefix_iff archivePayloadPrefix_def)
    then show ?thesis using elems_cons [of "''payload''" r] by simp
  qed
  ultimately show ?thesis using assms by (auto simp: mapEntry_def split: if_splits)
qed

lemma snaps_regular:
  assumes "snd stg \<noteq> []" "elems dest = [''bin'', ''vibe''] \<or> (\<exists>ds. elems dest = ''payload'' # ds)"
  shows "snaps (holding_laid stg) (extract_regular um (staged_path stg dest) name mode h content fin) (\<lambda>_. holding_laid stg)"
proof -
  let ?p = "staged_path stg dest"
  have p: "snd ?p \<noteq> []" "fst ?p = fst stg" using assms(1) by (simp_all add: staged_path_def)
  have laid: "laid stg (F(?p \<mapsto> v))" if "laid stg F" for F v
    using that assms(2) by (auto simp: laid_def staged_path_def split: if_splits)
  have mk: "snaps (holding_laid stg) (os_MkdirAll (fst ?p, butlast (snd ?p))) (\<lambda>_. holding_laid stg)"
    unfolding holding_laid_def
    by (rule triple_ex, rule triple_pure, rule triple_post [OF snaps_MkdirAll]) (auto simp: p)
  have op: "snaps (holding_laid stg) (os_OpenExcl ?p q)
      (\<lambda>_ s. \<exists>F v. (laid stg F \<and> list_all file_name (snd ?p)) \<and> holding (fst stg) (F(?p \<mapsto> v)) s)" for q
    unfolding holding_laid_def
  proof (rule triple_ex, rule triple_pure)
    fix F assume "laid stg F"
    have "snaps (holding (fst stg) F) (os_OpenExcl ?p q)
        (\<lambda>_ s. (F ?p = None \<and> list_all file_name (snd ?p)) \<and> holding (fst stg) (F(?p \<mapsto> (q, []))) s)"
      using triple_OpenExcl [OF p(1), of F q] by (simp only: holding_def [abs_def] p(2))
    then show "snaps (holding (fst stg) F) (os_OpenExcl ?p q)
        (\<lambda>_ s. \<exists>F v. (laid stg F \<and> list_all file_name (snd ?p)) \<and> holding (fst stg) (F(?p \<mapsto> v)) s)"
      by (rule triple_post) (use \<open>laid stg F\<close> in blast)+
  qed
  have wr: "snaps (\<lambda>s. \<exists>F v. (laid stg F \<and> list_all file_name (snd ?p)) \<and> holding (fst stg) (F(?p \<mapsto> v)) s)
      (os_Write ?p bytes) (\<lambda>_. holding_laid stg)" for bytes
  proof (rule triple_ex, rule triple_ex, rule triple_pure)
    fix F :: files and v :: "32 word \<times> string"
    assume "laid stg F \<and> list_all file_name (snd ?p)"
    then have L: "laid stg F" "list_all file_name (snd ?p)" by blast+
    have "snaps (holding (fst stg) (F(?p \<mapsto> (fst v, snd v)))) (os_Write ?p bytes)
        (\<lambda>_. holding (fst stg) (F(?p \<mapsto> (fst v, bytes))))"
      using triple_Write [OF p(1) L(2), of F "fst v" "snd v" bytes] by (simp only: holding_def [abs_def] p(2))
    then have "snaps (holding (fst stg) (F(?p \<mapsto> v))) (os_Write ?p bytes)
        (\<lambda>_. holding (fst stg) (F(?p \<mapsto> (fst v, bytes))))" by simp
    then show "snaps (holding (fst stg) (F(?p \<mapsto> v))) (os_Write ?p bytes) (\<lambda>_. holding_laid stg)"
      by (rule triple_post) (use laid [OF L(1), of "(fst v, bytes)"] in \<open>auto simp: holding_laid_def\<close>)
  qed
  show ?thesis
    unfolding extract_regular_def Let_def
    by (intro triple_bind [OF mk] triple_bind [OF triple_wrap [OF op]] triple_bind [OF triple_wrap [OF wr]]
        triple_option snaps_fail triple_if triple_ret)
qed

lemma snaps_extract_entry:
  assumes "snd stg \<noteq> []"
  shows "snaps (holding_laid stg) (extract_entry um stg h content fin tot) (\<lambda>_. holding_laid stg)"
proof -
  have mk: "snaps (holding_laid stg) (os_MkdirAll (staged_path stg dest)) (\<lambda>_. holding_laid stg)" for dest
    unfolding holding_laid_def
    by (rule triple_ex, rule triple_pure, rule triple_post [OF snaps_MkdirAll]) (auto simp: staged_path_def)
  show ?thesis
    unfolding extract_entry_def Let_def
  proof (rule triple_if, rule triple_ret, simp,
      rule triple_bind [OF triple_of [where Q = "\<lambda>dm s. mapEntry (path_clean (th_name h)) = Inr dm \<and> holding_laid stg s"]],
      simp, simp, rule triple_pure)
    fix dm assume dm: "mapEntry (path_clean (th_name h)) = Inr dm"
    obtain dest mode where [simp]: "dm = (dest, mode)" by (cases dm)
    note reg = snaps_regular [OF assms mapEntry_laid [OF dm [simplified]]]
    show "snaps (holding_laid stg) (case dm of (dest, mode) \<Rightarrow>
        if th_typeflag h = CHR ''5'' then io_then (os_MkdirAll (staged_path stg dest)) (io_ret tot)
        else if th_typeflag h = CHR ''0'' then
          if int (th_size h) > maxEntryBytes
          then io_fail (Class ErrInvalid ''%w: archive entry %s exceeds %d bytes'' [path_clean (th_name h), itoa_int maxEntryBytes])
          else if tot + int (th_size h) > maxTotalBytes
          then io_fail (Class ErrInvalid ''%w: release archive exceeds %d bytes'' [itoa_int maxTotalBytes])
          else io_then (extract_regular um (staged_path stg dest) (path_clean (th_name h)) mode h content fin) (io_ret (tot + int (th_size h)))
        else io_fail (Class ErrInvalid
               ''%w: archive entry %s has unsupported type %q (regular files and directories only)'' [path_clean (th_name h), [th_typeflag h]]))
        (\<lambda>_. holding_laid stg)"
      unfolding \<open>dm = _\<close> prod.case
      by (intro triple_if snaps_fail triple_bind [OF mk] triple_bind [OF reg] triple_ret)
  qed
qed

lemma snaps_extract_entries:
  assumes "snd stg \<noteq> []"
  shows "snaps (holding_laid stg) (extract_entries um stg canceled k steps tot) (\<lambda>_. holding_laid stg)"
proof (induction steps arbitrary: k tot)
  case Nil
  then show ?case by (subst extract_entries.simps) (auto intro: snaps_fail triple_ret)
next
  case (Cons x rest)
  then show ?case
    by (subst extract_entries.simps)
      (cases x; auto intro!: snaps_fail triple_bind [OF snaps_extract_entry [OF assms]])
qed

lemma snaps_extractArchive:
  assumes "snd stg \<noteq> []"
  shows "snaps (holding_laid stg) (extractArchive untar um canceled r stg) (\<lambda>_. holding_laid stg)"
  unfolding extractArchive_def
  by (rule triple_sum, rule snaps_fail, rule triple_bind [OF snaps_extract_entries [OF assms]])
    (intro triple_option snaps_fail triple_ret)

text \<open>What the manifest's own checks guarantee of its paths.\<close>

lemma ValidPath_elems: "ValidPath p \<Longrightarrow> elems p = split_on (CHR ''/'') p"
proof -
  assume "ValidPath p"
  then consider "p = ''.''" | "list_all (\<lambda>e. e \<noteq> '''' \<and> e \<noteq> ''.'' \<and> e \<noteq> ''..'') (split_on (CHR ''/'') p)"
    by (auto simp: ValidPath_def)
  then show ?thesis by cases (auto simp: elems_def filter_id_conv list_all_iff)
qed

lemma ValidPath_join: "ValidPath p \<Longrightarrow> join ''/'' (elems p) = p"
  using join_split_on by (simp add: ValidPath_elems)

lemma check_pfiles:
  assumes "rfold check_pfile fs seen = Inr seen'"
  shows "distinct (map pf_path fs) \<and> set (map pf_path fs) \<inter> seen = {} \<and>
    (\<forall>f \<in> set fs. ValidPath (pf_path f) \<and> pf_path f \<noteq> ManifestPath \<and> (\<exists>p. Perm f = Inr p))"
  using assms
proof (induction fs arbitrary: seen)
  case (Cons f fs)
  then obtain seen1 where f1: "check_pfile f seen = Inr seen1" and r1: "rfold check_pfile fs seen1 = Inr seen'"
    by (auto simp: rbind_eq_Inr)
  then have rest: "rfold check_pfile fs (insert (pf_path f) seen) = Inr seen'"
    by (auto simp: rbind_eq_Inr check_pfile_def [of f seen] split: if_splits)
  from f1 obtain p where f: "pf_path f \<notin> seen" "ValidPath (pf_path f)" "pf_path f \<noteq> ManifestPath" "Perm f = Inr p"
    by (auto simp: rbind_eq_Inr check_pfile_def split: if_splits)
  show ?case using Cons.IH [OF rest] f by auto
qed simp

lemma ParseManifest_ok:
  assumes "ParseManifest sha decode_json bytes = Inr m"
  shows "distinct (map pf_path (pm_files m))"
    "f \<in> set (pm_files m) \<Longrightarrow> ValidPath (pf_path f) \<and> pf_path f \<noteq> ManifestPath \<and> (\<exists>p. Perm f = Inr p)"
    "pm_digest m = ComputeDigest sha (pm_files m)"
  using assms check_pfiles [of "pm_files m" "{}"]
  by (auto simp: ParseManifest_def rbind_eq_Inr Let_def split: sum.splits if_splits)

lemma leaves_iff:
  "wf_node t \<Longrightarrow> ds \<in> set (leaves t) \<longleftrightarrow> (\<exists>n. node_at t ds = Some n \<and> (\<forall>ch. n \<noteq> Directory ch))"
proof (induction t arbitrary: ds rule: leaves.induct)
  case (1 ch)
  have d: "distinct (map fst ch)" and w: "\<And>n x. (n, x) \<in> set ch \<Longrightarrow> wf_node x" using 1(2) by (auto simp: list_all_iff)
  have m: "map_of ch n = Some x \<longleftrightarrow> (n, x) \<in> set ch" for n x using d by (simp add: map_of_eq_Some_iff)
  have "ds \<in> set (leaves (Directory ch)) \<longleftrightarrow> (\<exists>n x p. (n, x) \<in> set ch \<and> ds = n # p \<and> p \<in> set (leaves x))"
    by auto
  also have "\<dots> \<longleftrightarrow> (\<exists>n x p. (n, x) \<in> set ch \<and> ds = n # p \<and> (\<exists>k. node_at x p = Some k \<and> (\<forall>ch. k \<noteq> Directory ch)))"
    using 1(1) w by (metis prod.collapse set_sort)
  also have "\<dots> \<longleftrightarrow> (\<exists>n. node_at (Directory ch) ds = Some n \<and> (\<forall>ch. n \<noteq> Directory ch))"
    by (cases ds) (auto simp flip: m split: option.splits)
  finally show ?case .
qed (simp_all add: node_at_leaf_if)

definition contents :: "files \<Rightarrow> hpath \<Rightarrow> string option" where
  "contents F p = map_option snd (F p)"

definition payload_place :: "hpath \<Rightarrow> pfile \<Rightarrow> hpath" where
  "payload_place stg f = staged_path (staged_path stg ArtifactPayloadRelPath) (pf_path f)"

definition matches :: "(string \<Rightarrow> string) \<Rightarrow> hpath \<Rightarrow> files \<Rightarrow> pfile \<Rightarrow> bool" where
  "matches sha stg F f \<longleftrightarrow>
     (\<exists>p b. Perm f = Inr p \<and> F (payload_place stg f) = Some (p, b) \<and> int (length b) = pf_size f \<and> SHA256 sha b = pf_digest f)"

lemma payload_place_simps: "fst (payload_place stg f) = fst stg" "snd (payload_place stg f) = snd stg @ ''payload'' # elems (pf_path f)"
proof -
  have "elems ArtifactPayloadRelPath = [''payload'']" by code_simp
  then show "fst (payload_place stg f) = fst stg" "snd (payload_place stg f) = snd stg @ ''payload'' # elems (pf_path f)"
    by (simp_all add: payload_place_def staged_path_def)
qed

lemma payload_place_inj:
  "ValidPath (pf_path f) \<Longrightarrow> ValidPath (pf_path g) \<Longrightarrow> payload_place stg f = payload_place stg g \<Longrightarrow> pf_path f = pf_path g"
  using payload_place_simps(2) [of stg f] payload_place_simps(2) [of stg g] ValidPath_join by (metis append_same_eq list.inject same_append_eq)

lemma wf_names: "wf_dir D s \<Longrightarrow> lookup s (D, p) = Some n \<Longrightarrow> list_all file_name p"
  by (cases "tree s D") (auto simp: lookup_def wf_dir_def intro: node_at_names)

lemma file_node_names: "wf_dir (fst p) s \<Longrightarrow> file_node s p = Some v \<Longrightarrow> list_all file_name (snd p)"
  by (cases p) (auto simp: file_node_def intro: wf_names split: option.splits)

lemma snaps_digestFileSized:
  "snaps (holding D F) (digestFileSized sha p)
    (\<lambda>r s. (\<exists>q b. F p = Some (q, b) \<and> r = (SHA256 sha b, int (length b))) \<and> holding D F s)"
  unfolding digestFileSized_def holding_def
  by (rule triple_hquery) (auto intro: hassert_intros simp: file_node_def split: option.splits node.splits)

lemma snaps_try: "snaps P m Q \<Longrightarrow> snaps P (io_try m) (\<lambda>r s. case r of Inl _ \<Rightarrow> True | Inr x \<Rightarrow> Q x s)"
  by (rule triple_try) simp

lemma snaps_check_payload_file:
  assumes names: "\<And>f g. f \<in> fs \<Longrightarrow> g \<in> fs \<Longrightarrow> payload_place stg f = payload_place stg g \<Longrightarrow> f = g"
    and f: "f \<in> fs" and pre: "done \<subseteq> fs" "\<forall>g \<in> done. matches sha stg F g"
  shows "snaps (holding (fst stg) F) (check_payload_file sha (staged_path stg ArtifactPayloadRelPath) f)
    (\<lambda>_ s. \<exists>F'. (contents F' = contents F \<and> (\<forall>g \<in> insert f done. matches sha stg F' g)) \<and> holding (fst stg) F' s)"
proof -
  let ?p = "payload_place stg f"
  let ?Q = "\<lambda>_ s. \<exists>F'. (contents F' = contents F \<and> (\<forall>g \<in> insert f done. matches sha stg F' g)) \<and> holding (fst stg) F' s"
  have chmod: "snaps (holding (fst stg) F) (os_Chmod ?p perm) ?Q"
    if F: "F ?p = Some (q, b)" "Perm f = Inr perm" "int (length b) = pf_size f" "SHA256 sha b = pf_digest f" for q b perm
  proof (cases "\<exists>s. holding (fst stg) F s")
    case True
    then have "list_all file_name (snd ?p)"
      using file_node_names [of ?p] F(1) by (auto simp: holding_def payload_place_simps)
    then have "snaps (holding (fst stg) F) (os_Chmod ?p perm) (\<lambda>_. holding (fst stg) (F(?p \<mapsto> (perm, b))))"
      using triple_Chmod [of ?p F q b perm] F(1) by (simp add: holding_def [abs_def] payload_place_simps)
    moreover have "contents (F(?p \<mapsto> (perm, b))) = contents F" using F(1) by (auto simp: contents_def)
    moreover have "matches sha stg (F(?p \<mapsto> (perm, b))) g" if g: "g \<in> insert f done" for g
    proof (cases "g = f")
      case False
      then have "payload_place stg g \<noteq> ?p" using names [of g f] g f pre(1) by auto
      then show ?thesis using pre(2) g False by (auto simp: matches_def)
    qed (use F in \<open>auto simp: matches_def\<close>)
    ultimately have "contents (F(?p \<mapsto> (perm, b))) = contents F \<and> (\<forall>g \<in> insert f done. matches sha stg (F(?p \<mapsto> (perm, b))) g)"
      and run: "snaps (holding (fst stg) F) (os_Chmod ?p perm) (\<lambda>_. holding (fst stg) (F(?p \<mapsto> (perm, b))))"
      by simp_all
    note post = exI [of "\<lambda>F'. (contents F' = contents F \<and> (\<forall>g \<in> insert f done. matches sha stg F' g)) \<and> holding (fst stg) F' s" for s,
        OF conjI [OF this(1)]]
    show ?thesis by (rule triple_post [OF run]) (erule post, simp_all)
  qed (auto simp: triple_def)
  show ?thesis
    unfolding check_payload_file_def Let_def payload_place_def [symmetric]
  proof (rule triple_bind [OF snaps_try [OF snaps_digestFileSized]])
    fix r :: "error + digest \<times> int"
    show "snaps (\<lambda>s. case r of Inl _ \<Rightarrow> True | Inr r \<Rightarrow> (\<exists>q b. F ?p = Some (q, b) \<and> r = (SHA256 sha b, int (length b))) \<and> holding (fst stg) F s)
        (case r of
          Inl _ \<Rightarrow> io_fail (Class ErrConflict ''%w: payload file %s missing from archive'' [pf_path f])
        | Inr (d, sz) \<Rightarrow>
            if sz \<noteq> pf_size f \<or> d \<noteq> pf_digest f
            then io_fail (Class ErrConflict ''%w: payload file %s does not match the payload manifest'' [pf_path f])
            else io_bind (io_of (Perm f)) (\<lambda>perm. os_Chmod ?p perm)) ?Q"
    proof (cases r)
      case (Inr x)
      obtain d sz where x: "x = (d, sz)" by (cases x)
      show ?thesis
        unfolding Inr x sum.case prod.case
      proof (rule triple_pure, rule triple_if, rule snaps_fail,
          rule triple_bind [OF triple_of [where Q = "\<lambda>perm s. Perm f = Inr perm \<and> holding (fst stg) F s"]], simp, simp, rule triple_pure)
        fix perm
        assume "\<exists>q b. F ?p = Some (q, b) \<and> (d, sz) = (SHA256 sha b, int (length b))" "\<not> (sz \<noteq> pf_size f \<or> d \<noteq> pf_digest f)"
          "Perm f = Inr perm"
        then show "snaps (holding (fst stg) F) (os_Chmod ?p perm) ?Q" using chmod by auto
      qed
    qed (simp add: snaps_fail)
  qed
qed

lemma check_pfiles_run:
  assumes names: "\<And>f g. f \<in> fs \<Longrightarrow> g \<in> fs \<Longrightarrow> payload_place stg f = payload_place stg g \<Longrightarrow> f = g"
    and pre: "set xs \<subseteq> fs" "got \<subseteq> fs" "\<forall>g \<in> got. matches sha stg F g"
  shows "snaps (holding (fst stg) F) (io_each (check_payload_file sha (staged_path stg ArtifactPayloadRelPath)) xs)
    (\<lambda>_ s. \<exists>F'. (contents F' = contents F \<and> (\<forall>g \<in> got \<union> set xs. matches sha stg F' g)) \<and> holding (fst stg) F' s)"
  using pre
proof (induction xs arbitrary: got F)
  case Nil
  then show ?case by (auto intro!: triple_ret)
next
  case (Cons f xs)
  have f: "f \<in> fs" "set xs \<subseteq> fs" "insert f got \<subseteq> fs" using Cons.prems(1,2) by auto
  show ?case
    unfolding io_each.simps
  proof (rule triple_bind [OF snaps_check_payload_file [OF names f(1) Cons.prems(2,3)]], assumption+,
      rule triple_ex, rule triple_pure)
    fix F1 assume F1: "contents F1 = contents F \<and> (\<forall>g \<in> insert f got. matches sha stg F1 g)"
    show "snaps (holding (fst stg) F1) (io_each (check_payload_file sha (staged_path stg ArtifactPayloadRelPath)) xs)
      (\<lambda>_ s. \<exists>F'. (contents F' = contents F \<and> (\<forall>g \<in> got \<union> set (f # xs). matches sha stg F' g)) \<and> holding (fst stg) F' s)"
      by (rule triple_post [OF Cons.IH [OF f(2,3)]]) (use F1 in auto)
  qed
qed

text \<open>What validation leaves in staging.\<close>

definition validated :: "(string \<Rightarrow> string) \<Rightarrow> (string \<Rightarrow> error + pmanifest) \<Rightarrow> hpath \<Rightarrow> digest \<times> digest \<Rightarrow> host \<Rightarrow> bool" where
  "validated sha decode_json stg r s \<longleftrightarrow>
     wf_dir (fst stg) s \<and> (\<exists>t m. lookup s stg = Some t \<and> snd r = pm_digest m \<and> release_tree sha decode_json t m (fst r))"

lemma rel_paths:
  "elems ArtifactBinaryRelPath = [''bin'', ''vibe'']" "elems ArtifactPayloadRelPath = [''payload'']"
  "elems ManifestPath = [''manifest.json'']"
  by code_simp+

lemma file_node_below: "lookup s stg = Some t \<Longrightarrow> file_node s (fst stg, snd stg @ cs) = (case node_at t cs of Some (RegularFile m b) \<Rightarrow> Some (m, b) | _ \<Rightarrow> None)"
  using lookup_append [of s "fst stg" "snd stg" cs] by (simp add: file_node_def)

lemma join_elems_inv: "list_all file_name ds \<Longrightarrow> ds \<noteq> [] \<Longrightarrow> elems (join ''/'' ds) = ds"
  using split_on_join_clean [of ds]
  by (auto simp: elems_def file_name_def list_all_iff intro!: filter_True)

lemma validated_tree:
  assumes hold: "holding (fst stg) F' s" "contents F' = contents F" "laid stg F"
    and bin: "F (staged_path stg ArtifactBinaryRelPath) = Some (q, b)"
    and man: "F (staged_path (staged_path stg ArtifactPayloadRelPath) ManifestPath) = Some (q', mb)"
      "ParseManifest sha decode_json mb = Inr m"
    and files: "\<forall>f \<in> set (pm_files m). matches sha stg F' f"
    and walk: "lookup s (staged_path stg ArtifactPayloadRelPath) = Some pt"
      "find (\<lambda>p. join ''/'' p \<notin> insert ManifestPath (pf_path ` set (pm_files m))) (leaves pt) = None"
  shows "validated sha decode_json stg (SHA256 sha b, pm_digest m) s"
proof -
  have F': "F' = file_node s" "wf_dir (fst stg) s" using hold(1) by (auto simp: holding_def)
  have pl: "lookup s (fst stg, snd stg @ [''payload'']) = Some pt" using walk(1) by (simp add: staged_path_def rel_paths)
  then obtain t where t: "lookup s stg = Some t" and tp: "node_at t [''payload''] = Some pt"
    using lookup_append [of s "fst stg" "snd stg" "[''payload'']"] by (auto split: Option.bind_splits)
  have cont: "map_option snd (file_node s p) = map_option snd (F p)" for p
    using fun_cong [OF hold(2), of p] by (simp add: contents_def F')
  note node = file_node_below [OF t]
  have reg: "\<exists>p. node_at t cs = Some (RegularFile p c)" if "F (fst stg, snd stg @ cs) = Some (p, c)" for cs p c
    using cont [of "(fst stg, snd stg @ cs)"] that by (auto simp: node split: option.splits node.splits)
  have 1: "\<exists>p. node_at t [''bin'', ''vibe''] = Some (RegularFile p b)"
    using reg [of "[''bin'', ''vibe'']"] bin by (simp add: staged_path_def rel_paths)
  have 2: "\<exists>p. node_at t [''payload'', ''manifest.json''] = Some (RegularFile p mb)"
    using reg [of "[''payload'', ''manifest.json'']"] man(1) by (simp add: staged_path_def rel_paths)
  have 3: "\<exists>p c. Perm f = Inr p \<and> node_at t (''payload'' # elems (pf_path f)) = Some (RegularFile p c) \<and>
      int (length c) = pf_size f \<and> SHA256 sha c = pf_digest f" if f: "f \<in> set (pm_files m)" for f
  proof -
    obtain p c where pc: "Perm f = Inr p" "F' (payload_place stg f) = Some (p, c)" "int (length c) = pf_size f" "SHA256 sha c = pf_digest f"
      using files f by (auto simp: matches_def)
    have "payload_place stg f = (fst stg, snd stg @ ''payload'' # elems (pf_path f))"
      using payload_place_simps [of stg f] by (simp add: prod_eq_iff)
    then show ?thesis using pc node [of "''payload'' # elems (pf_path f)"] unfolding F' by (auto split: option.splits node.splits)
  qed
  have 4: "cs = [''bin'', ''vibe''] \<or> cs = [''payload'', ''manifest.json''] \<or> (\<exists>f \<in> set (pm_files m). cs = ''payload'' # elems (pf_path f))"
    if n: "node_at t cs = Some (RegularFile p c)" for cs p c
  proof -
    have "F (fst stg, snd stg @ cs) \<noteq> None"
      using cont [of "(fst stg, snd stg @ cs)"] n by (cases "F (fst stg, snd stg @ cs)") (auto simp: node)
    then consider "cs = [''bin'', ''vibe'']" | ds where "cs = ''payload'' # ds" using hold(3) by (auto simp: laid_def)
    then show ?thesis
    proof cases
      case (2 ds)
      have d: "node_at pt ds = Some (RegularFile p c)" using n tp node_at_append [of t "[''payload'']" ds] by (simp add: 2)
      have "lookup s (fst stg, snd stg @ ''payload'' # ds) = Some (RegularFile p c)"
        using n lookup_append [of s "fst stg" "snd stg"] t by (simp add: 2)
      then have names: "list_all file_name ds" using wf_names [OF F'(2)] by fastforce
      have "wf_node pt" using wf_lookup [OF F'(2) pl] .
      then have "ds \<in> set (leaves pt)" using d by (simp add: leaves_iff)
      then have kn: "join ''/'' ds = ManifestPath \<or> (\<exists>f \<in> set (pm_files m). join ''/'' ds = pf_path f)"
        using walk(2) by (auto simp: find_None_iff)
      have "\<not> ValidPath ''''" by code_simp
      then have "pf_path f \<noteq> ''''" if "f \<in> set (pm_files m)" for f using ParseManifest_ok(2) [OF man(2) that] by metis
      then have "ds \<noteq> []" using kn by (fastforce simp: ManifestPath_def)
      then have "ds = elems (join ''/'' ds)" using join_elems_inv [OF names] by simp
      then show ?thesis using kn 2 by (auto simp: rel_paths)
    qed simp
  qed
  have "release_tree sha decode_json t m (SHA256 sha b)"
    unfolding release_tree_def using 1 2 3 4 man(2) by blast
  then show ?thesis using t F'(2) unfolding validated_def by auto
qed

lemma snaps_ReadFile:
  "snaps (holding D F) (os_ReadFile p)
    (\<lambda>r s. (\<forall>bytes. r = Some bytes \<longrightarrow> (\<exists>q. F p = Some (q, bytes))) \<and> holding D F s)"
  unfolding os_ReadFile_def holding_def
  by (rule triple_hquery) (auto intro: hassert_intros simp: file_node_def split: option.splits node.splits)

lemma snaps_walk_files:
  "hassert P \<Longrightarrow> snaps P (walk_files p) (\<lambda>ps s. (\<exists>t. lookup s p = Some t \<and> ps = leaves t) \<and> P s)"
  unfolding walk_files_def by (rule triple_hquery) (auto split: option.splits)

lemma snaps_validateExtracted: "snaps (holding_laid stg) (validateExtracted sha decode_json stg) (validated sha decode_json stg)"
proof -
  let ?root = "staged_path stg ArtifactPayloadRelPath"
  let ?known = "\<lambda>m. insert ManifestPath (pf_path ` set (pm_files m))"
  let ?Q = "validated sha decode_json stg"
  let ?h = "holding (fst stg)"
  have walk: "snaps (\<lambda>s. \<exists>F'. (contents F' = contents F \<and> (\<forall>g \<in> {} \<union> set (pm_files m). matches sha stg F' g)) \<and> ?h F' s)
      (io_bind (walk_files ?root) (\<lambda>ps.
         case find (\<lambda>p. join ''/'' p \<notin> ?known m) ps of
           Some p \<Rightarrow> io_fail (Class ErrConflict
             ''%w: archive carries payload file %s that the payload manifest does not list'' [join ''/'' p])
         | None \<Rightarrow> io_ret (SHA256 sha b, pm_digest m))) ?Q"
    if F: "laid stg F" "F (staged_path stg ArtifactBinaryRelPath) = Some (q, b)" "F (staged_path ?root ManifestPath) = Some (q', mb)"
      "ParseManifest sha decode_json mb = Inr m" for F q b q' mb m
  proof (rule triple_ex, rule triple_pure, rule triple_bind [OF snaps_walk_files])
    fix F' ps
    assume F': "contents F' = contents F \<and> (\<forall>g \<in> {} \<union> set (pm_files m). matches sha stg F' g)"
    show "hassert (?h F')" unfolding holding_def by (intro hassert_intros)
    show "snaps (\<lambda>s. (\<exists>t. lookup s ?root = Some t \<and> ps = leaves t) \<and> ?h F' s)
       (case find (\<lambda>p. join ''/'' p \<notin> ?known m) ps of
           Some p \<Rightarrow> io_fail (Class ErrConflict
             ''%w: archive carries payload file %s that the payload manifest does not list'' [join ''/'' p])
         | None \<Rightarrow> io_ret (SHA256 sha b, pm_digest m)) ?Q"
    proof (cases "find (\<lambda>p. join ''/'' p \<notin> ?known m) ps")
      case None
      have "?Q (SHA256 sha b, pm_digest m) s" if s: "(\<exists>t. lookup s ?root = Some t \<and> ps = leaves t) \<and> ?h F' s" for s
        using s None F' by (elim conjE exE) (rule validated_tree [OF _ _ F(1-4)], auto)
      then show ?thesis unfolding None option.case by (rule triple_ret)
    qed (simp add: snaps_fail)
  qed
  have files: "snaps (?h F) (io_bind (io_of (ParseManifest sha decode_json mb)) (\<lambda>m.
      io_then (io_each (check_payload_file sha ?root) (pm_files m))
      (io_bind (walk_files ?root) (\<lambda>ps.
         case find (\<lambda>p. join ''/'' p \<notin> ?known m) ps of
           Some p \<Rightarrow> io_fail (Class ErrConflict
             ''%w: archive carries payload file %s that the payload manifest does not list'' [join ''/'' p])
         | None \<Rightarrow> io_ret (SHA256 sha b, pm_digest m))))) ?Q"
    if F: "laid stg F" "F (staged_path stg ArtifactBinaryRelPath) = Some (q, b)" "F (staged_path ?root ManifestPath) = Some (q', mb)"
    for F q b q' mb
  proof (rule triple_bind [OF triple_of [where Q = "\<lambda>m s. ParseManifest sha decode_json mb = Inr m \<and> ?h F s"]],
      simp, simp, rule triple_pure)
    fix m assume m: "ParseManifest sha decode_json mb = Inr m"
    have inj: "f = g" if "f \<in> set (pm_files m)" "g \<in> set (pm_files m)" "payload_place stg f = payload_place stg g" for f g
      using payload_place_inj [OF _ _ that(3)] ParseManifest_ok(1,2) [OF m] that(1,2) by (metis inj_on_def distinct_map)
    show "snaps (?h F) (io_then (io_each (check_payload_file sha ?root) (pm_files m))
      (io_bind (walk_files ?root) (\<lambda>ps.
         case find (\<lambda>p. join ''/'' p \<notin> ?known m) ps of
           Some p \<Rightarrow> io_fail (Class ErrConflict
             ''%w: archive carries payload file %s that the payload manifest does not list'' [join ''/'' p])
         | None \<Rightarrow> io_ret (SHA256 sha b, pm_digest m)))) ?Q"
      by (rule triple_bind [OF check_pfiles_run [OF inj] walk [OF F m]]) auto
  qed
  show ?thesis
    unfolding validateExtracted_def Let_def holding_laid_def
  proof (rule triple_ex, rule triple_pure, rule triple_bind [OF snaps_try [OF snaps_digestFileSized]], rule triple_sum, rule snaps_fail, goal_cases)
    case (1 F r x)
    note 0 = 1(1)
    obtain bin sz where x: "x = (bin, sz)" by (cases x)
    show ?case unfolding 1(2) x sum.case prod.case
    proof (rule triple_pure, rule triple_bind [OF snaps_try [OF snaps_ReadFile]], goal_cases)
      case (1 md)
      obtain q b where b: "F (staged_path stg ArtifactBinaryRelPath) = Some (q, b)" "bin = SHA256 sha b"
        using 1 by blast
      show ?case
      proof (cases "\<exists>bytes. md = Inr (Some bytes)")
        case True
        then obtain bytes where md: "md = Inr (Some bytes)" by blast
        show ?thesis unfolding md sum.case option.case b(2)
        proof (rule triple_pure)
          assume "\<forall>bytes'. Some bytes = Some bytes' \<longrightarrow> (\<exists>q. F (staged_path ?root ManifestPath) = Some (q, bytes'))"
          then obtain q' where "F (staged_path ?root ManifestPath) = Some (q', bytes)" by blast
          from files [OF 0 b(1) this] show "snaps (?h F) (io_bind (io_of (ParseManifest sha decode_json bytes)) (\<lambda>m.
              io_then (io_each (check_payload_file sha ?root) (pm_files m))
              (io_bind (walk_files ?root) (\<lambda>ps.
                 case find (\<lambda>p. join ''/'' p \<notin> ?known m) ps of
                   Some p \<Rightarrow> io_fail (Class ErrConflict
                     ''%w: archive carries payload file %s that the payload manifest does not list'' [join ''/'' p])
                 | None \<Rightarrow> io_ret (SHA256 sha b, pm_digest m))))) ?Q" .
        qed
      next
        case False
        then show ?thesis by (auto split: sum.splits option.splits intro: snaps_fail)
      qed
    qed
  qed
qed

section \<open>Acquisition\<close>

text \<open>
  What is known of an artifact that is returned: its archive had the checksum that the attestation of the resolved
  release gives for it, and its object is named by the digest of a tree that passed validation.
\<close>

definition release_ok :: "(string \<Rightarrow> string) \<Rightarrow> acquirer \<Rightarrow> string \<Rightarrow> artifact_ref \<Rightarrow> bool" where
  "release_ok sha aq ver art \<longleftrightarrow>
     (\<exists>desc attestation archive t d es m bin.
        release_Resolve (aq_base aq) ver (aq_platform aq) = Inr desc \<and>
        source_get (aq_http aq) (de_checksums_url desc) = Inr attestation \<and>
        source_get (aq_http aq) (de_archive_url desc) = Inr archive \<and>
        findChecksum (aq_lower aq) attestation (de_archive_name desc) = Inr (sha (st_data archive)) \<and>
        release_tree sha (aq_decode aq) t m bin \<and> DigestTree sha t = Inr (d, es) \<and> ar_path art = (Artifacts, [hex d]))"

lemma present_records:
  assumes "ac_digest rec = d"
  shows "keeps (present (Artifacts, [hex d])) (WriteArtifactRecord c rec)"
proof -
  have w: "writable (present (Artifacts, [hex d])) (Artifacts, [n]) v" if "length (hex d) < length n" for n v
    by (rule present_writable) (use that in \<open>auto simp: path_apart_def\<close>)
  have "keeps (present (Artifacts, [hex d])) (WriteFileAtomic (Artifacts, []) (hex d @ record_suffix) bytes perm)" for bytes perm
    by (rule keeps_WriteFileAtomic [OF hassert_present]) (simp_all add: w record_suffix_def)
  then show ?thesis
    unfolding WriteArtifactRecord_def writeRecordOnce_def assms
    by (intro keeps_intros hassert_present) (auto intro!: keeps_intros split: sum.splits option.splits)
qed

lemma hassert_validated: "hassert (validated sha decode_json stg r)"
  by (simp add: hassert_def validated_def wf_dir_def)

lemma snaps_install_staged:
  assumes stg: "fst stg = Staging"
    and src: "release_Resolve (aq_base aq) ver (aq_platform aq) = Inr desc"
      "source_get (aq_http aq) (de_checksums_url desc) = Inr attestation"
      "source_get (aq_http aq) (de_archive_url desc) = Inr archive"
      "findChecksum (aq_lower aq) attestation (de_archive_name desc) = Inr want"
  shows "snaps (holding_laid stg) (install_staged sha c aq desc want archive stg)
    (\<lambda>art s. release_ok sha aq ver art \<and> present (ar_path art) s)"
proof -
  let ?Q = "\<lambda>art s. release_ok sha aq ver art \<and> present (ar_path art) s"
  let ?G = "\<lambda>bp r. \<exists>s t. validated sha (aq_decode aq) stg bp s \<and> lookup s stg = Some t \<and> DigestTree sha t = Inr r"
  have records: "snaps (present p) (io_bind (io_try (ReadArtifactRecord c d)) (\<lambda>r.
       case r of
         Inr existing \<Rightarrow> io_ret \<lparr>ar_record = existing, ar_path = p\<rparr>
       | Inl e \<Rightarrow>
           if \<not> errors_is e ErrNotFound then io_fail e
           else (let rec = release_record desc v d bin pay (aq_now aq) in
                 io_then (WriteArtifactRecord c rec) (io_ret \<lparr>ar_record = rec, ar_path = p\<rparr>)))) ?Q"
    if ok: "\<And>x. release_ok sha aq ver \<lparr>ar_record = x, ar_path = p\<rparr>" and p: "p = (Artifacts, [hex d])" for p d v bin pay
  proof (rule triple_bind [OF snaps_keeps [OF keeps_ops(5) [OF keeps_reads(9) [OF hassert_present]]]])
    fix r :: "error + artifact_record"
    have w: "snaps (present p) (WriteArtifactRecord c (release_record desc v d bin pay t)) (\<lambda>_. present p)" for t
      by (rule snaps_keeps, unfold p, rule present_records) (simp_all add: release_record_def)
    show "snaps (present p) (case r of
         Inr existing \<Rightarrow> io_ret \<lparr>ar_record = existing, ar_path = p\<rparr>
       | Inl e \<Rightarrow>
           if \<not> errors_is e ErrNotFound then io_fail e
           else (let rec = release_record desc v d bin pay (aq_now aq) in
                 io_then (WriteArtifactRecord c rec) (io_ret \<lparr>ar_record = rec, ar_path = p\<rparr>))) ?Q"
      unfolding Let_def
      by (intro triple_sum triple_if snaps_fail triple_bind [OF w] triple_ret) (simp_all add: ok)
  qed
  have fin: "snaps (\<lambda>_. True) (io_bind (Publish sha ArtifactObject stg d) (\<lambda>obj.
     io_bind (io_try (ReadArtifactRecord c d)) (\<lambda>r.
       case r of
         Inr existing \<Rightarrow> io_ret \<lparr>ar_record = existing, ar_path = ob_path obj\<rparr>
       | Inl e \<Rightarrow>
           if \<not> errors_is e ErrNotFound then io_fail e
           else (let rec = release_record desc v d bin pay (aq_now aq) in
                 io_then (WriteArtifactRecord c rec) (io_ret \<lparr>ar_record = rec, ar_path = ob_path obj\<rparr>))))) ?Q"
    if v: "verify_finish sha desc want (st_data archive) = Inr v" and G: "?G bp (d, es)" for v d es bp bin pay
  proof (rule triple_bind [OF snaps_Publish [OF stg]], rule triple_pure)
    fix obj :: object_ref
    assume obj: "ob_digest obj = d \<and> objectPath ArtifactObject d = Inr (ob_path obj)"
    then have p: "ob_path obj = (Artifacts, [hex d])"
      using objectPathD [of ArtifactObject d "ob_path obj"] by (cases "ob_path obj") auto
    have "want = sha (st_data archive)" using v by (auto simp: verify_finish_def Let_def split: if_splits)
    then have "release_ok sha aq ver \<lparr>ar_record = x, ar_path = ob_path obj\<rparr>" for x
      using src G p unfolding release_ok_def validated_def by fastforce
    from records [OF this p] show "snaps (present (ob_path obj)) (io_bind (io_try (ReadArtifactRecord c d)) (\<lambda>r.
       case r of
         Inr existing \<Rightarrow> io_ret \<lparr>ar_record = existing, ar_path = ob_path obj\<rparr>
       | Inl e \<Rightarrow>
           if \<not> errors_is e ErrNotFound then io_fail e
           else (let rec = release_record desc v d bin pay (aq_now aq) in
                 io_then (WriteArtifactRecord c rec) (io_ret \<lparr>ar_record = rec, ar_path = ob_path obj\<rparr>)))) ?Q" .
  qed
  have dig: "snaps (validated sha (aq_decode aq) stg bp) (digest_path sha stg) (\<lambda>r _. ?G bp r \<and> True)" for bp
    by (rule triple_post [OF triple_digest_path [OF hassert_validated]]) blast+
  show ?thesis
    unfolding install_staged_def
  proof (rule triple_bind [OF triple_of [where Q = "\<lambda>v s. verify_finish sha desc want (st_data archive) = Inr v \<and> holding_laid stg s"]],
      simp, simp, rule triple_pure, rule triple_bind [OF snaps_validateExtracted], goal_cases)
    case (1 v bp)
    obtain bin pay where bp: "bp = (bin, pay)" by (cases bp)
    show ?case
      unfolding bp prod.case
    proof (rule triple_bind [OF dig], rule triple_pure, goal_cases)
      case (1 r)
      obtain d es where r: "r = (d, es)" by (cases r)
      show ?case unfolding r prod.case by (rule fin [OF \<open>verify_finish _ _ _ _ = _\<close>]) (use 1 in \<open>simp add: r\<close>)
    qed
  qed
qed

lemma snaps_Acquire:
  "snaps (wf_dir Staging) (Acquire sha c um canceled aq ver) (\<lambda>art s. release_ok sha aq ver art \<and> present (ar_path art) s)"
proof -
  let ?Q = "\<lambda>art s. release_ok sha aq ver art \<and> present (ar_path art) s"
  have pure: "snaps P (io_of r) (\<lambda>x s. r = Inr x \<and> P s)" for P and r :: "error + 'a"
    by (rule triple_of) simp_all
  have body: "snaps (\<lambda>s. wf_dir Staging s \<and> lookup s stg = Some (Directory []))
      (io_defer (os_RemoveAll stg) (io_then (extractArchive (aq_untar aq) um canceled archive stg)
        (install_staged sha c aq desc want archive stg))) ?Q"
    if src: "release_Resolve (aq_base aq) ver (aq_platform aq) = Inr desc"
      "source_get (aq_http aq) (de_checksums_url desc) = Inr attestation"
      "source_get (aq_http aq) (de_archive_url desc) = Inr archive"
      "findChecksum (aq_lower aq) attestation (de_archive_name desc) = Inr want"
      and stg: "fst stg = Staging" "snd stg \<noteq> []" for desc attestation archive want stg
  proof -
    have start: "holding_laid stg s" if s: "wf_dir Staging s \<and> lookup s stg = Some (Directory [])" for s
    proof -
      have "node_at (Directory []) ds \<noteq> Some (RegularFile m b)" for ds m b by (cases ds) auto
      then have "laid stg (file_node s)"
        using s file_node_below [of s stg] by (auto simp: laid_def split: option.splits node.splits)
      then show ?thesis using s stg(1) by (auto simp: holding_laid_def holding_def)
    qed
    have clean: "triple (?Q art) (os_RemoveAll stg) (\<lambda>_. ?Q art) (\<lambda>_. ?Q art) (\<lambda>_. True)" for art
    proof (cases "release_ok sha aq ver art")
      case True
      then have "path_apart (ar_path art) stg" using stg by (auto simp: release_ok_def path_apart_def)
      from keeps_RemoveAll [OF hassert_present present_writable [OF this]]
      show ?thesis by (rule triple_post [OF triple_pre]) (simp_all add: True)
    qed (simp add: triple_def)
    have run: "snaps (\<lambda>s. wf_dir Staging s \<and> lookup s stg = Some (Directory []))
        (io_then (extractArchive (aq_untar aq) um canceled archive stg) (install_staged sha c aq desc want archive stg)) ?Q"
      by (rule triple_pre [OF triple_bind [OF snaps_extractArchive [OF stg(2)] snaps_install_staged [OF stg(1) src]]]) (rule start)
    show ?thesis by (rule triple_defer [OF run clean snaps_any])
  qed
  show ?thesis
    unfolding Acquire_def
  proof (rule triple_bind [OF pure], rule triple_pure, rule triple_bind [OF pure], rule triple_pure,
      rule triple_bind [OF pure], rule triple_pure, rule triple_bind [OF pure], rule triple_pure,
      rule triple_bind [OF triple_NewStaging], simp, rule triple_pure)
  qed (rule body; simp)
qed

lemma keeps_extract_entry:
  assumes "staging_free P" "fst stg = Staging"
  shows "keeps P (extract_entry um stg h content fin tot)"
proof -
  have t: "fst (staged_path stg q) = Staging" for q using assms(2) by (simp add: staged_path_def)
  have r: "keeps P (extract_regular um (staged_path stg q) name mode h content fin)" for q name mode
    unfolding extract_regular_def Let_def
    by (intro keeps_intros keeps_staging_MkdirAll staging_freeD [OF assms(1)] assms(1) t) (simp add: t)
  show ?thesis
    unfolding extract_entry_def Let_def split_def
    by (intro keeps_intros keeps_staging_MkdirAll assms(1) t r)
qed

lemma keeps_extract_entries:
  assumes "staging_free P" "fst stg = Staging"
  shows "keeps P (extract_entries um stg canceled k steps tot)"
proof (induction steps arbitrary: k tot)
  case Nil
  then show ?case by (subst extract_entries.simps) (auto intro: keeps_ops)
next
  case (Cons x rest)
  then show ?case
    by (subst extract_entries.simps) (cases x; auto intro!: keeps_ops keeps_extract_entry [OF assms])
qed

lemma keeps_check_payload_file:
  assumes "staging_free P" "fst root = Staging"
  shows "keeps P (check_payload_file sha root f)"
proof -
  have t: "fst (staged_path root q) = Staging" for q using assms(2) by (simp add: staged_path_def)
  show ?thesis
    unfolding check_payload_file_def digestFileSized_def Let_def split_def
    by (intro keeps_intros keeps_hquery staging_freeD [OF assms(1)] t)
qed

lemma keeps_Acquire: "keeps (content_addressed sha) (Acquire sha c um canceled aq ver)"
proof -
  have val: "keeps (content_addressed sha) (validateExtracted sha dj stg)" if "fst stg = Staging" for stg dj
    unfolding validateExtracted_def digestFileSized_def walk_files_def Let_def split_def
    by (intro keeps_intros keeps_hquery hassert_content keeps_check_payload_file staging_free_content)
       (auto intro!: keeps_intros keeps_hquery hassert_content keeps_check_payload_file staging_free_content simp: staged_path_def that split: sum.splits option.splits)
  have inst: "keeps (content_addressed sha) (install_staged sha c aq desc want archive stg)" if "fst stg = Staging" for desc want archive stg
    unfolding install_staged_def split_def Let_def
    by (intro keeps_intros hassert_content val keeps_Publish keeps_records that)
  have ext: "keeps (content_addressed sha) (extractArchive untar um canceled archive stg)" if "fst stg = Staging" for untar archive stg
    unfolding extractArchive_def by (intro keeps_intros keeps_extract_entries staging_free_content that)
  have body: "keeps (content_addressed sha) (io_defer (os_RemoveAll stg)
         (io_then (extractArchive (aq_untar aq) um canceled archive stg) (install_staged sha c aq desc want archive stg)))"
    if "fst stg = Staging" for desc want archive stg
    by (intro keeps_intros hassert_content staging_writable ext inst that)
  show ?thesis
    unfolding Acquire_def
    by (intro keeps_ops(3,4) triple_bind [OF content_NewStaging] triple_pure body)
qed

text \<open>
  C12. An artifact that acquisition returns was published under the digest of a tree with the engine binary, a payload
  manifest that parses, every file the manifest lists with its size, digest and mode, and no other file; and the archive
  it came from has the checksum the release publishes for that name. This holds for any archive, any
  answers of the server and any fault; whatever happens, published objects keep hashing to their names.
\<close>

theorem Acquire_verified:
  assumes "wf_dir Staging s" "content_addressed sha s"
  shows "case Acquire sha c um canceled aq ver s of (r, s') \<Rightarrow>
    content_addressed sha s' \<and>
    (case r of Ret art \<Rightarrow> release_ok sha aq ver art \<and> present (ar_path art) s' | _ \<Rightarrow> True)"
  using tripleD [OF snaps_Acquire [where sha = sha and c = c and um = um and canceled = canceled and aq = aq and ver = ver] assms(1)]
    keeps_result [OF keeps_Acquire [where c = c and um = um and canceled = canceled and aq = aq and ver = ver] assms(2)]
  by (auto split: prod.splits res.splits)

text \<open>A release with one payload file.\<close>

definition demo_payload :: pmanifest where
  "demo_payload =
     (let fs = [\<lparr>pf_path = ''a'', pf_mode = ''0644'', pf_size = 1, pf_digest = SHA256 StoreTree.demo_sha ''c''\<rparr>] in
      \<lparr>pm_format = 1, pm_files = fs, pm_digest = ComputeDigest StoreTree.demo_sha fs\<rparr>)"

definition demo_entry :: "string \<Rightarrow> string \<Rightarrow> tar_step" where
  "demo_entry name bytes = TarEntry \<lparr>th_name = name, th_typeflag = CHR ''0'', th_size = length bytes, th_mode = 0x1A4\<rparr> bytes None"

definition demo_acquirer :: acquirer where
  "demo_acquirer =
     \<lparr>aq_base = ''b'',
      aq_http = (\<lambda>url. Inr (200, \<lparr>st_data =
        (if url = ''b/v2/checksums.txt'' then StoreTree.demo_sha ''x'' @ ''  *vibe_v2_linux_amd64.tar.gz'' else ''x''), st_end = None\<rparr>)),
      aq_untar = (\<lambda>_. Inr [demo_entry ''./vibe'' ''x'', demo_entry ''payload/manifest.json'' ''m'', demo_entry ''payload/a'' ''c'']),
      aq_decode = (\<lambda>_. Inr demo_payload), aq_lower = (\<lambda>c. c), aq_platform = \<lparr>OS = ''linux'', Arch = ''amd64''\<rparr>, aq_now = 7\<rparr>"

definition demo_target :: host where
  "demo_target =
     demo_store\<lparr>tree := (\<lambda>d. if d = Staging \<or> d = Artifacts then Some (Directory []) else None)\<rparr>"

definition demo_artifact_codec :: "artifact_record codec" where
  "demo_artifact_codec =
     \<lparr>c_marshal = (\<lambda>r. Inr ''r''), c_probe = (\<lambda>_. Inr 1), c_decode = (\<lambda>s. Inl (Plain ''x'' []))\<rparr>"

lemma demo_acquired:
  "(case fst (Acquire StoreTree.demo_sha demo_artifact_codec 0x12 (\<lambda>_. False) demo_acquirer ''v2'' demo_target) of
      Ret art \<Rightarrow> ac_version (ar_record art) | _ \<Rightarrow> []) = ''v2''"
  by code_simp

theorem Acquire_verified_witness:
  "case Acquire StoreTree.demo_sha demo_artifact_codec 0x12 (\<lambda>_. False) demo_acquirer ''v2'' demo_target of (r, s') \<Rightarrow>
    content_addressed StoreTree.demo_sha s' \<and>
    (case r of Ret art \<Rightarrow> release_ok StoreTree.demo_sha demo_acquirer ''v2'' art \<and> present (ar_path art) s' | _ \<Rightarrow> False)"
proof -
  have "wf_dir Staging demo_target" "content_addressed StoreTree.demo_sha demo_target"
    by (simp_all add: wf_dir_def demo_target_def content_addressed_def lookup_def)
  then show ?thesis
    using Acquire_verified [where s = demo_target and sha = StoreTree.demo_sha and c = demo_artifact_codec and um = "0x12" and canceled = "\<lambda>_. False" and aq = demo_acquirer and ver = "''v2''"] demo_acquired
    by (auto split: prod.splits res.splits)
qed

end
