(* ===== verification/Builder.thy ===== *)
theory Builder
  imports Utf8 GoScan Domain
begin

text \<open>
  The contract on Dockerfiles and the request of a build (\<^verbatim>\<open>internal/builder/builder.go\<close>). The check reads
  physical lines; \<open>quiet\<close> is a shape of line that can be recognized by its first two characters and that the check passes over,
  which is how the generated Dockerfile is shown to pass.
\<close>

section \<open>The check\<close>

definition BaseImageArg :: string where "BaseImageArg = ''VIBE_BASE_IMAGE''"

text \<open>What the loop keeps: how many \<^verbatim>\<open>FROM\<close> it saw and the last user.\<close>

record docker_scan =
  ds_from :: int
  ds_user :: string

definition line_error :: "int \<Rightarrow> string \<Rightarrow> string list \<Rightarrow> error + docker_scan" where
  "line_error n f as = Inl (Class ErrInvalid (''%w: line %d: '' @ f) (itoa_int n # as))"

text \<open>One line that is neither empty nor a comment; \<open>lower\<close> and \<open>upper\<close> are the case tables of \<^verbatim>\<open>unicode\<close>.\<close>

definition check_instruction :: "(nat \<Rightarrow> nat) \<Rightarrow> (nat \<Rightarrow> nat) \<Rightarrow> int \<Rightarrow> string list \<Rightarrow> docker_scan \<Rightarrow> error + docker_scan" where
  "check_instruction lower upper n fs st =
     (let instr = to_upper upper (hd fs) in
      if instr = ''FROM'' then
        let st1 = st\<lparr>ds_from := ds_from st + 1\<rparr> in
        if ds_from st1 > 1 then line_error n ''multi-stage builds are not allowed'' []
        else if length fs < 2 \<or> fs ! 1 \<noteq> ''${'' @ BaseImageArg @ ''}'' \<and> fs ! 1 \<noteq> ''$'' @ BaseImageArg
        then line_error n ''extension images must start FROM ${%s}'' [BaseImageArg]
        else Inr st1
      else if instr = ''ADD'' then line_error n ''ADD is not allowed (use COPY)'' []
      else if instr = ''COPY'' then
        (if list_ex (\<lambda>f. has_prefix (to_lower lower f) ''--from'') (tl fs)
         then line_error n
                ''COPY --from is not allowed (all content comes from the pinned base or the frozen context)'' []
         else Inr st)
      else if instr = ''ONBUILD'' then line_error n ''ONBUILD is not allowed'' []
      else if instr = ''USER'' then
        (if length fs < 2 then line_error n ''USER needs a name'' [] else Inr (st\<lparr>ds_user := fs ! 1\<rparr>))
      else Inr st)"

definition check_line :: "(nat \<Rightarrow> nat) \<Rightarrow> (nat \<Rightarrow> nat) \<Rightarrow> int \<times> string \<Rightarrow> docker_scan \<Rightarrow> error + docker_scan" where
  "check_line lower upper = (\<lambda>(n, raw) st.
     let line = trim_space raw in
     if line = '''' then Inr st
     else if has_prefix line ''#'' then
       (let directive = to_lower lower (filter (\<lambda>c. c \<noteq> CHR '' '') line) in
        if has_prefix directive ''#syntax=''
        then line_error n ''custom BuildKit frontends (# syntax) are not allowed'' []
        else Inr st)
     else check_instruction lower upper n (Utf8.fields line) st)"

fun numbered :: "int \<Rightarrow> 'a list \<Rightarrow> (int \<times> 'a) list" where
  "numbered n [] = []"
| "numbered n (x # xs) = (n, x) # numbered (n + 1) xs"

definition ValidateDockerfile :: "(nat \<Rightarrow> nat) \<Rightarrow> (nat \<Rightarrow> nat) \<Rightarrow> string \<Rightarrow> error + unit" where
  "ValidateDockerfile lower upper content =
     (case scan_limited 1048576 content of
        (ls, long) \<Rightarrow>
          rbind (rfold (check_line lower upper) (numbered 1 ls) \<lparr>ds_from = 0, ds_user = ''''\<rparr>) (\<lambda>st.
            if long then Inl (Class ErrInvalid ''%w: dockerfile: %v'' [])
            else if ds_from st = 0 then Inl (Class ErrInvalid ''%w: dockerfile has no FROM instruction'' [])
            else if ds_user st \<noteq> '''' \<and> ds_user st \<noteq> ''vscode''
            then Inl (Class ErrInvalid ''%w: extension images must end as user vscode, not %q'' [ds_user st])
            else if \<not> contains content (''ARG '' @ BaseImageArg)
            then Inl (Class ErrInvalid ''%w: dockerfile must declare `ARG %s` before FROM'' [BaseImageArg])
            else Inr ()))"

section \<open>The build request\<close>

record build_input =
  bi_digest :: digest
  bi_context :: string
  bi_dockerfile :: string
  bi_base_ref :: string
  bi_base_digest :: digest
  bi_tag :: string
  bi_refresh :: "(string \<times> string) list"

record build_request =
  br_tag :: string
  br_context :: string
  br_dockerfile :: string
  br_args :: "string \<Rightarrow> string option"

definition pinned_base :: "string \<Rightarrow> digest \<Rightarrow> string" where
  "pinned_base ref d =
     (if Digest_IsZero d then ref
      else (case cut ref ''@'' of (name, _, found) \<Rightarrow> (if found then name else ref) @ ''@'' @ Digest_String d))"

definition Build :: "build_input \<Rightarrow> build_request" where
  "Build c =
     \<lparr>br_tag = bi_tag c, br_context = bi_context c, br_dockerfile = bi_dockerfile c,
      br_args = foldl (\<lambda>m (a, v). if v \<noteq> '''' then m(a \<mapsto> v) else m)
        [BaseImageArg \<mapsto> pinned_base (bi_base_ref c) (bi_base_digest c)] (bi_refresh c)\<rparr>"

section \<open>Lines the check passes over\<close>

lemma has_prefix_Cons_iff: "has_prefix (c # s) (d # p) \<longleftrightarrow> c = d \<and> has_prefix s p"
  by (auto simp: has_prefix_def)

definition visible :: "char \<Rightarrow> bool" where
  "visible c = (CHR ''!'' \<le> c \<and> c \<le> CHR ''~'')"

lemma visible_byte: "visible c \<Longrightarrow> 32 < byte c \<and> byte c < 127"
  by (cases c) (auto simp: visible_def less_eq_char_def)

lemma not_space_visible: "visible c \<Longrightarrow> \<not> is_space (byte c)"
  using visible_byte [of c] by (auto simp: is_space_def)

text \<open>What is left of a line that starts with blanks and a visible character.\<close>

lemma decode_blanks: "decode (replicate n (CHR '' '') @ s) = replicate n (32, '' '', True) @ decode s"
  by (induction n) simp_all

definition right_trimmed :: "string \<Rightarrow> string" where
  "right_trimmed s = concat (map (\<lambda>(_, w, _). w) (rev (dropWhile (\<lambda>(r, _, ok). ok \<and> is_space r) (rev (decode s)))))"

lemma visible_decode: "visible c \<Longrightarrow> decode (c # s) = (byte c, [c], True) # decode s"
  using visible_byte [of c] by simp

lemma right_trimmed_Cons: "visible c \<Longrightarrow> right_trimmed (c # s) = c # right_trimmed s"
  using not_space_visible [of c] by (simp add: right_trimmed_def visible_decode dropWhile_append3)

lemma trim_space_blanks: "visible c \<Longrightarrow> trim_space (replicate n (CHR '' '') @ c # s) = c # right_trimmed s"
proof -
  assume c: "visible c"
  let ?sp = "\<lambda>(r, _, ok). ok \<and> is_space r"
  have "dropWhile ?sp (decode (replicate n (CHR '' '') @ c # s)) = (byte c, [c], True) # decode s"
    unfolding decode_blanks
    by (induction n) (use not_space_visible [OF c] in \<open>simp_all add: visible_decode c is_space_def [of 32]\<close>)
  then show ?thesis
    using not_space_visible [OF c] by (simp add: trim_space_def Let_def right_trimmed_def dropWhile_append3)
qed

lemma group_fields_starts: "acc \<noteq> '''' \<Longrightarrow> \<exists>t fs. group_fields ds acc = (acc @ t) # fs"
proof (induction ds arbitrary: acc)
  case (Cons d ds)
  obtain r w ok where d: "d = (r, w, ok)" by (cases d)
  show ?case
  proof (cases "ok \<and> is_space r")
    case False
    obtain t fs where "group_fields ds (acc @ w) = ((acc @ w) @ t) # fs" using Cons.IH [of "acc @ w"] Cons.prems by auto
    then show ?thesis using False by (auto simp: d)
  qed (use Cons.prems in \<open>auto simp: d\<close>)
qed auto

lemma fields_starts: "visible c \<Longrightarrow> visible d \<Longrightarrow> \<exists>t fs. Utf8.fields (c # d # s) = (c # d # t) # fs"
  using group_fields_starts [of "[c, d]" "decode s"] not_space_visible [of c] not_space_visible [of d]
  by (simp add: Utf8.fields_def visible_decode)

text \<open>
  Quiet lines: empty, a comment whose first word starts with other letters than \<^verbatim>\<open>syntax\<close>, or any
  other line whose first two characters begin none of the instructions the check knows.
\<close>

definition keyword_starts :: "string list" where
  "keyword_starts = [''FR'', ''AD'', ''CO'', ''ON'', ''US'']"

definition quiet :: "string \<Rightarrow> bool" where
  "quiet l =
     (case dropWhile (\<lambda>c. c = CHR '' '') l of
        [] \<Rightarrow> True
      | c # s \<Rightarrow>
          if c = CHR ''#'' then
            (case s of b # d # e # _ \<Rightarrow> b = CHR '' '' \<and> visible d \<and> visible e \<and> [ascii_lower d, ascii_lower e] \<noteq> ''sy''
             | _ \<Rightarrow> False)
          else (case s of d # _ \<Rightarrow> visible c \<and> visible d \<and> [ascii_upper c, ascii_upper d] \<notin> set keyword_starts | [] \<Rightarrow> False))"

lemma keyword_prefixes:
  assumes "[a, b] \<notin> set keyword_starts"
  shows "a # b # t \<notin> {''FROM'', ''ADD'', ''COPY'', ''ONBUILD'', ''USER''}"
  using assms by (auto simp: keyword_starts_def)

lemma check_instruction_quiet:
  assumes "visible c" "visible d" "[ascii_upper c, ascii_upper d] \<notin> set keyword_starts"
  shows "check_instruction lower upper n ((c # d # t) # fs) st = Inr st"
proof -
  have "to_upper upper (c # d # t) = ascii_upper c # ascii_upper d # to_upper upper t"
    using assms(1,2) visible_byte [of c] visible_byte [of d] by (simp add: to_upper_Cons)
  then show ?thesis using keyword_prefixes [OF assms(3)] by (auto simp: check_instruction_def Let_def)
qed

lemma check_line_quiet:
  assumes "quiet l"
  shows "check_line lower upper (n, l) st = Inr st"
proof -
  obtain k s where l: "l = replicate k (CHR '' '') @ s" "dropWhile (\<lambda>c. c = CHR '' '') l = s"
  proof
    let ?b = "takeWhile (\<lambda>c. c = CHR '' '') l"
    have "?b = replicate (length ?b) (CHR '' '')" by (intro replicate_eqI) (auto dest: set_takeWhileD)
    then show "l = replicate (length ?b) (CHR '' '') @ dropWhile (\<lambda>c. c = CHR '' '') l"
      by (metis takeWhile_dropWhile_id)
  qed simp
  show ?thesis
  proof (cases s)
    case Nil
    have "decode l = replicate k (32, '' '', True)" using decode_blanks [of k "[]"] by (simp add: l(1) Nil)
    moreover have "dropWhile P (replicate k x) = []" if "P x" for P :: "nat \<times> string \<times> bool \<Rightarrow> bool" and x
      using that by (induction k) auto
    ultimately have "trim_space l = ''''" by (simp add: trim_space_def is_space_def Let_def)
    then show ?thesis by (simp add: check_line_def)
  next
    case (Cons c s')
    show ?thesis
    proof (cases "c = CHR ''#''")
      case True
      then obtain d e t where s': "s' = CHR '' '' # d # e # t" and d: "visible d" "visible e" "[ascii_lower d, ascii_lower e] \<noteq> ''sy''"
        using assms l(2) Cons by (auto simp: quiet_def split: list.splits)
      have "visible c" using True by (simp add: visible_def)
      moreover have "right_trimmed s' = CHR '' '' # d # right_trimmed (e # t)"
        using not_space_visible [OF d(1)] by (simp add: s' right_trimmed_def visible_decode [OF d(1)] dropWhile_append3)
      ultimately have tr: "trim_space l = CHR ''#'' # CHR '' '' # d # e # right_trimmed t"
        using trim_space_blanks [of c k s'] by (simp add: l(1) Cons True right_trimmed_Cons [OF d(2)])
      have "d \<noteq> CHR '' ''" "e \<noteq> CHR '' ''" using d(1,2) by (auto simp: visible_def)
      then have "to_lower lower (filter (\<lambda>c. c \<noteq> CHR '' '') (trim_space l)) =
          CHR ''#'' # ascii_lower d # ascii_lower e # to_lower lower (filter (\<lambda>c. c \<noteq> CHR '' '') (right_trimmed t))"
        using visible_byte [OF d(1)] visible_byte [OF d(2)] by (simp add: tr to_lower_Cons ascii_lower_def is_upper_def)
      then show ?thesis using d(3) by (auto simp: check_line_def tr has_prefix_Cons_iff Let_def)
    next
      case False
      then obtain d t where s': "s' = d # t" and cd: "visible c" "visible d" "[ascii_upper c, ascii_upper d] \<notin> set keyword_starts"
        using assms l(2) Cons by (auto simp: quiet_def split: list.splits)
      have tr: "trim_space l = c # d # right_trimmed t"
        using trim_space_blanks [OF cd(1), of k s'] by (simp add: l(1) Cons s' right_trimmed_Cons [OF cd(2)])
      obtain u fs where "Utf8.fields (c # d # right_trimmed t) = (c # d # u) # fs" using fields_starts [OF cd(1,2)] by blast
      then show ?thesis
        using False check_instruction_quiet [OF cd] by (simp add: check_line_def tr has_prefix_Cons_iff Let_def)
    qed
  qed
qed

section \<open>Texts of quiet lines\<close>

abbreviation newline :: string where "newline \<equiv> [CHR 0x0A]"

definition lines_text :: "string list \<Rightarrow> string" where
  "lines_text ls = concat (map (\<lambda>l. l @ newline) ls)"

lemma lines_text_simps [simp]:
  "lines_text [] = ''''" "lines_text (l # ls) = l @ newline @ lines_text ls" "lines_text (ls @ ms) = lines_text ls @ lines_text ms"
  by (simp_all add: lines_text_def)

definition plain_line :: "string \<Rightarrow> bool" where
  "plain_line l = (CHR 0x0A \<notin> set l \<and> CHR 0x0D \<notin> set l \<and> int (length l) < 1048576)"

definition good_text :: "string \<Rightarrow> bool" where
  "good_text t \<longleftrightarrow> (\<exists>ls. t = lines_text ls \<and> list_all (\<lambda>l. quiet l \<and> plain_line l) ls)"

lemma good_text_lines: "list_all (\<lambda>l. quiet l \<and> plain_line l) ls \<Longrightarrow> good_text (lines_text ls)"
  by (auto simp: good_text_def)

lemma good_text_append: "good_text s \<Longrightarrow> good_text t \<Longrightarrow> good_text (s @ t)"
  unfolding good_text_def by (metis lines_text_simps(3) list_all_append)

lemma good_text_Nil: "good_text ''''"
  using good_text_lines [of "[]"] by simp

lemma good_text_concat: "list_all good_text ts \<Longrightarrow> good_text (concat ts)"
  by (induction ts) (simp_all add: good_text_Nil good_text_append)

lemma split_on_lines: "list_all (\<lambda>l. CHR 0x0A \<notin> set l) ls \<Longrightarrow> split_on (CHR 0x0A) (lines_text ls) = ls @ ['''']"
  by (induction ls) (simp_all add: split_on_append)

lemma scan_lines:
  assumes "list_all plain_line ls"
  shows "scan_limited 1048576 (lines_text ls) = (ls, False)"
proof -
  have s: "split_on (CHR 0x0A) (lines_text ls) = ls @ ['''']"
    by (rule split_on_lines) (use assms in \<open>auto simp: list_all_iff plain_line_def\<close>)
  have "takeWhile (\<lambda>l. length l < 1048576) ls = ls"
    using assms by (simp add: list_all_iff plain_line_def)
  moreover have "map (\<lambda>l. trim_suffix l [CHR 0x0D]) ls = ls"
    using assms by (fastforce simp: list_all_iff plain_line_def trim_suffix_def has_suffix_iff intro!: map_idI)
  ultimately show ?thesis by (simp add: scan_limited_def s Let_def takeWhile_eq_all_conv [THEN iffD2])
qed

lemma numbered_append: "numbered n (xs @ ys) = numbered n xs @ numbered (n + int (length xs)) ys"
  by (induction xs arbitrary: n) (simp_all add: ac_simps)

lemma rfold_quiet: "list_all quiet ls \<Longrightarrow> rfold (check_line lower upper) (numbered n ls) st = Inr st"
  by (induction ls arbitrary: n) (simp_all add: check_line_quiet rbind_def)

lemma check_line_base:
  "ds_from st = 0 \<Longrightarrow>
   check_line lower upper (n, ''FROM ${'' @ BaseImageArg @ ''}'') st = Inr (st\<lparr>ds_from := 1\<rparr>)"
  by (simp add: check_line_def trim_space_def Utf8.fields_def BaseImageArg_def is_space_def check_instruction_def Let_def
      has_prefix_def to_upper_def map_case_def ascii_upper_def is_lower_def)

lemma check_line_user:
  "check_line lower upper (n, ''USER vscode'') st = Inr (st\<lparr>ds_user := ''vscode''\<rparr>)"
  "check_line lower upper (n, ''USER root'') st = Inr (st\<lparr>ds_user := ''root''\<rparr>)"
  by (simp_all add: check_line_def trim_space_def Utf8.fields_def is_space_def check_instruction_def Let_def
      has_prefix_def to_upper_def map_case_def ascii_upper_def is_lower_def)

lemma contains_middle: "contains (a @ b @ c) b"
proof -
  have "index_of (a @ b @ c) b \<noteq> None"
  proof (induction a)
    case Nil
    show ?case by (cases "b @ c") (auto simp: has_prefix_def, metis append_eq_conv_conj)
  qed auto
  then show ?thesis by (simp add: contains_def)
qed

text \<open>The shape that every generated Dockerfile has.\<close>

lemma ValidateDockerfile_generated:
  assumes "good_text head" "good_text env" "good_text rooted" "good_text user"
  shows "ValidateDockerfile lower upper
    (head @ (''ARG '' @ BaseImageArg) @ newline @ (''FROM ${'' @ BaseImageArg @ ''}'') @ newline @ env @
     ''USER root'' @ newline @ rooted @ ''USER vscode'' @ newline @ user) = Inr ()"
proof -
  obtain H where H: "head = lines_text H" "list_all (\<lambda>l. quiet l \<and> plain_line l) H" using assms(1) by (auto simp: good_text_def)
  obtain E where E: "env = lines_text E" "list_all (\<lambda>l. quiet l \<and> plain_line l) E" using assms(2) by (auto simp: good_text_def)
  obtain R where R: "rooted = lines_text R" "list_all (\<lambda>l. quiet l \<and> plain_line l) R" using assms(3) by (auto simp: good_text_def)
  obtain U where U: "user = lines_text U" "list_all (\<lambda>l. quiet l \<and> plain_line l) U" using assms(4) by (auto simp: good_text_def)
  note T = H(1) E(1) R(1) U(1) and G = H(2) E(2) R(2) U(2)
  let ?arg = "''ARG '' @ BaseImageArg" and ?from = "''FROM ${'' @ BaseImageArg @ ''}''"
  let ?ls = "H @ [?arg] @ [?from] @ E @ [''USER root''] @ R @ [''USER vscode''] @ U"
  have t: "head @ ?arg @ newline @ ?from @ newline @ env @ ''USER root'' @ newline @ rooted @ ''USER vscode'' @ newline @ user =
      lines_text ?ls" by (simp add: T)
  have arg: "quiet ?arg" by code_simp
  have "plain_line ?arg" "plain_line ?from" "plain_line ''USER root''" "plain_line ''USER vscode''"
    by (simp_all add: plain_line_def BaseImageArg_def)
  then have p: "list_all plain_line ?ls" using G by (auto simp: list_all_iff)
  have q: "list_all quiet H" "list_all quiet E" "list_all quiet R" "list_all quiet U"
    using G by (auto simp: list_all_iff)
  have "rfold (check_line lower upper) (numbered 1 ?ls) \<lparr>ds_from = 0, ds_user = ''''\<rparr> = Inr \<lparr>ds_from = 1, ds_user = ''vscode''\<rparr>"
    unfolding numbered_append rfold_append rfold_quiet [OF q(1)] rfold_quiet [OF q(2)] rfold_quiet [OF q(3)] rfold_quiet [OF q(4)]
    by (simp add: check_line_quiet [OF arg, simplified] check_line_base [simplified] check_line_user rfold_quiet q rbind_def)
  then show ?thesis
    unfolding t ValidateDockerfile_def scan_lines [OF p] prod.case
    using contains_middle [of "lines_text H" ?arg] by (simp add: rbind_def)
qed

section \<open>What the check does not see\<close>

text \<open>
  The daemon joins lines that end in a backslash before it looks at an instruction; the check does not. A
  \<^verbatim>\<open>COPY --from\<close> over two lines, or an instruction word split over two, passes it, and so does a
  declaration of the base image in a comment.
\<close>

lemma copy_from_continuation_accepted:
  "ValidateDockerfile lower upper
     (lines_text [''ARG '' @ BaseImageArg, ''FROM $'' @ BaseImageArg, ''COPY '' @ [CHR 0x5C], ''  --from=x /a /a'']) = Inr ()"
  by code_simp

lemma split_add_accepted:
  "ValidateDockerfile lower upper
     (lines_text [''# ARG '' @ BaseImageArg, ''FROM $'' @ BaseImageArg, ''A'' @ [CHR 0x5C], ''DD http://x /a'']) = Inr ()"
  by code_simp

end
