(* ===== verification/Install.thy ===== *)
theory Install
  imports Builder SchemaTypes
begin

text \<open>
  The Dockerfile that installs the agents and toolchains a manifest selects (\<^verbatim>\<open>internal/builder/install.go\<close>), with the
  texts of its layers, the bill of materials and the map from build steps to parts. A text is kept as the list of its
  lines; in the line of a \<^verbatim>\<open>RUN\<close> that can be made to miss the layer cache, \<open>refreshBust\<close> may put in a line break.
\<close>

section \<open>Characters a literal does not hold\<close>

abbreviation bsl :: string where "bsl \<equiv> [CHR 0x5C]"
abbreviation sq :: string where "sq \<equiv> [CHR 0x27]"
abbreviation em_dash :: string where "em_dash \<equiv> [CHR 0xE2, CHR 0x80, CHR 0x94]"
abbreviation mid_dot :: string where "mid_dot \<equiv> [CHR 0xC2, CHR 0xB7]"

section \<open>Pins\<close>

definition claudeChannel :: string where "claudeChannel = ''latest''"
definition codexChannel :: string where "codexChannel = ''latest''"
definition grokChannel :: string where "grokChannel = ''stable''"
definition nodeMajor :: string where "nodeMajor = ''22''"
definition bunVersion :: string where "bunVersion = ''1.3.14''"
definition rokitVersion :: string where "rokitVersion = ''1.2.0''"
definition uvVersion :: string where "uvVersion = ''0.12.3''"
definition goVersion :: string where "goVersion = ''1.26.5''"
definition goSHA256AMD64 :: string where "goSHA256AMD64 = ''5c2c3b16caefa1d968a94c1daca04a7ca301a496d9b086e17ad77bb81393f053''"
definition goSHA256ARM64 :: string where "goSHA256ARM64 = ''fe4789e92b1f33358680864bbe8704289e7bb5fc207d80623c308935bd696d49''"
definition tmuxVersion :: string where "tmuxVersion = ''3.7b''"
definition tmuxSHA256 :: string where "tmuxSHA256 = ''87f2e99e3b685973f2ca002ffd6ed7e51a5744f7009daae5a15670b6d532db96''"
definition chafaVersion :: string where "chafaVersion = ''1.18.2''"
definition chafaSHA256 :: string where "chafaSHA256 = ''0b8d9ba9f347e8b6c0c71878217c9b0e478b4a42aa4babea0bf20840567239c2''"
definition nvimVersion :: string where "nvimVersion = ''0.12.4''"
definition nvimSHA256AMD64 :: string where "nvimSHA256AMD64 = ''012bf3fcac5ade43914df3f174668bf64d05e049a4f032a388c027b1ebd78628''"
definition nvimSHA256ARM64 :: string where "nvimSHA256ARM64 = ''ceb7e88c6b681f0515d135dcdfad54f5eb4373b25ce6172197cd9a69c758063f''"
definition lazygitVersion :: string where "lazygitVersion = ''0.63.1''"
definition lazygitSHA256AMD64 :: string where "lazygitSHA256AMD64 = ''8e033bc78c8e192dee9510e951f6c9e154289b7198d22c924ed1d0a951b0dac1''"
definition lazygitSHA256ARM64 :: string where "lazygitSHA256ARM64 = ''555dbc9a8efcf2e33bc24e7fbd9463e9fa375e3c5e23cc270763733c38eeae36''"
definition ghVersion :: string where "ghVersion = ''2.96.0''"
definition ghSHA256AMD64 :: string where "ghSHA256AMD64 = ''83d5c2ccad5498f58bf6368acb1ab32588cf43ab3a4b1c301bf36328b1c8bd60''"
definition ghSHA256ARM64 :: string where "ghSHA256ARM64 = ''06f86ec7103d41993b76cd78072f43595c34aaa56506d971d9860e67140bf909''"
definition treesitterCLIVersion :: string where "treesitterCLIVersion = ''0.25.10''"
definition treesitterCLISHA256AMD64 :: string where "treesitterCLISHA256AMD64 = ''8283ddba69253c698f6e987ba0e2f9285e079c8db4d36ebe1394b5bb3a0ebdfd''"
definition treesitterCLISHA256ARM64 :: string where "treesitterCLISHA256ARM64 = ''07fbff8ae0eeb0d3e496e14fc1a30dcc730cc2c97d70e601e5357f2e51958af5''"

definition reviewPlugins :: "(string \<times> string) list" where
  "reviewPlugins =
    [(''echasnovski/mini.nvim'', ''946ae64e0ee807ae3c41f382f0114b4ed4915b2c''),
     (''stevearc/oil.nvim'', ''b73018b75affd13fa38e2fc94ef753b465f770d7''),
     (''lewis6991/gitsigns.nvim'', ''31d6fb2d618bca1482b9f274751ead5f03461408''),
     (''folke/tokyonight.nvim'', ''cdc07ac78467a233fd62c493de29a17e0cf2b2b6''),
     (''nvim-treesitter/nvim-treesitter'', ''8b3a191c015dd66a92d51a112ed96af0aac13b63'')]"

definition reviewParsers :: "string list" where
  "reviewParsers =
    [''bash'', ''c'', ''css'', ''diff'', ''go'', ''gomod'', ''gosum'', ''html'', ''javascript'',
     ''json'', ''lua'', ''luau'', ''markdown'', ''markdown_inline'', ''python'', ''regex'', ''rust'', ''toml'',
     ''tsx'', ''typescript'', ''vim'', ''vimdoc'', ''yaml'']"

definition agentRefreshArgPrefix :: string where "agentRefreshArgPrefix = ''VIBE_AGENT_REFRESH_''"

text \<open>The names of the kinds are ASCII, so upper case needs no table here.\<close>

definition AgentRefreshArgFor :: "agent_kind \<Rightarrow> string" where
  "AgentRefreshArgFor k = agentRefreshArgPrefix @ map ascii_upper (agent_text k)"

definition isChannel :: "string \<Rightarrow> bool" where
  "isChannel v = (v \<noteq> '''' \<and> (byte (hd v) < 48 \<or> 57 < byte (hd v)))"

definition AgentChannel :: "agent_spec \<Rightarrow> string" where
  "AgentChannel spec =
     (if as_version spec \<noteq> '''' then (if isChannel (as_version spec) then as_version spec else '''')
      else (case as_kind spec of
              AgentClaude \<Rightarrow> claudeChannel
            | AgentCodex \<Rightarrow> codexChannel
            | AgentGrok \<Rightarrow> grokChannel
            | NoAgent \<Rightarrow> ''''))"

section \<open>Parts, chunks and steps\<close>

record install_part =
  ip_id :: string
  ip_title :: string
  ip_detail :: string
  ip_refresh :: bool

record install_plan =
  il_dockerfile :: string
  il_parts :: "install_part list"
  il_steps :: "nat list"
  il_refresh_kinds :: "string list"

text \<open>A chunk is a part with a text; chrome has the part without a name.\<close>

type_synonym install_chunk = "install_part \<times> string"

definition no_part :: install_part where
  "no_part = \<lparr>ip_id = '''', ip_title = '''', ip_detail = '''', ip_refresh = False\<rparr>"

definition chrome :: "string \<Rightarrow> install_chunk" where
  "chrome text = (no_part, text)"

abbreviation part :: "string \<Rightarrow> string \<Rightarrow> install_part" where
  "part n detail \<equiv> \<lparr>ip_id = n, ip_title = n, ip_detail = detail, ip_refresh = False\<rparr>"

definition is_instruction :: "string \<Rightarrow> bool" where
  "is_instruction l = (\<not> (l = '''' \<or> has_prefix l ''#'' \<or> has_prefix l '' '' \<or> has_prefix l [CHR 0x09]))"

definition countInstructions :: "string \<Rightarrow> nat" where
  "countInstructions text = length (filter is_instruction (split_on (CHR 0x0A) text))"

section \<open>The layers that need root\<close>

definition wants :: "string set \<Rightarrow> agent_kind \<Rightarrow> bool" where "wants want k = (agent_text k \<in> want)"
definition wants_tool :: "string set \<Rightarrow> toolchain \<Rightarrow> bool" where "wants_tool want t = (toolchain_text t \<in> want)"

definition wantsAgent :: "string set \<Rightarrow> bool" where
  "wantsAgent want = (wants want AgentClaude \<or> wants want AgentCodex \<or> wants want AgentGrok)"

definition pathEntries :: "string set \<Rightarrow> string list" where
  "pathEntries want =
     (if wantsAgent want \<or> wants_tool want ToolchainUv then [''/home/vscode/.local/bin''] else []) @
     (if wants_tool want ToolchainBun then [''/home/vscode/.bun/bin''] else []) @
     (if wants_tool want ToolchainRokit then [''/home/vscode/.rokit/bin''] else []) @
     (if wants_tool want ToolchainGo then [''/usr/local/go/bin'', ''/home/vscode/go/bin''] else [])"

definition partBase :: install_part where "partBase = part ''base'' ''''"
definition partRokit :: install_part where "partRokit = part ''rokit'' rokitVersion"

definition base_lines :: "string list" where
  "base_lines =
    [
     ''# Agent-state mount point: fresh named volumes inherit this ownership.'',
     ''RUN mkdir -p /vibe/agent-state && chown vscode:vscode /vibe/agent-state'']"

definition tmux_lines :: "string list" where
  "tmux_lines =
    [
     ''# tmux '' @ tmuxVersion @ '' carries the persistent agent session (docs/architecture.md'',
     ''# (agent sessions)): pinned source build with --enable-sixel '' @ em_dash @ '' distro tmux'',
     ''# drops sixel images on pane redraw and varies per base image. jq'',
     ''# parses the Claude statusline JSON.'',
     ''RUN apt-get update '' @ bsl,
     ''    && apt-get install -y --no-install-recommends jq build-essential byacc pkg-config libevent-dev libncurses-dev ca-certificates curl '' @ bsl,
     ''    && tmp=\"$(mktemp -d)\" '' @ bsl,
     ''    && curl -fsSL -o \"$tmp/tmux.tar.gz\" \"https://github.com/tmux/tmux/releases/download/'' @ tmuxVersion @ ''/tmux-'' @ tmuxVersion @ ''.tar.gz\" '' @ bsl,
     ''    && echo \"'' @ tmuxSHA256 @ ''  $tmp/tmux.tar.gz\" | sha256sum -c - '' @ bsl,
     ''    && tar -C \"$tmp\" -xzf \"$tmp/tmux.tar.gz\" '' @ bsl,
     ''    && cd \"$tmp/tmux-'' @ tmuxVersion @ ''\" '' @ bsl,
     ''    && ./configure --prefix=/usr/local --enable-sixel '' @ bsl,
     ''    && make -j\"$(nproc)\" '' @ bsl,
     ''    && make install '' @ bsl,
     ''    && cd / '' @ bsl,
     ''    && rm -rf \"$tmp\" '' @ bsl,
     ''    && apt-get clean '' @ bsl,
     ''    && rm -rf /var/lib/apt/lists/*'']"

definition chafa_lines :: "string list" where
  "chafa_lines =
    [
     ''# chafa '' @ chafaVersion @ '' encodes preview images to sixel for the tui'' @ sq @ ''s preview'',
     ''# window (docs/tui-layout.md \"Preview window\"); pinned source build '' @ em_dash,
     ''# distro chafa predates --probe and the current sixel work.'',
     ''RUN apt-get update '' @ bsl,
     ''    && apt-get install -y --no-install-recommends libglib2.0-dev libjpeg62-turbo-dev libpng-dev libwebp-dev libfreetype6-dev librsvg2-dev xz-utils '' @ bsl,
     ''    && tmp=\"$(mktemp -d)\" '' @ bsl,
     ''    && curl -fsSL -o \"$tmp/chafa.tar.xz\" \"https://hpjansson.org/chafa/releases/chafa-'' @ chafaVersion @ ''.tar.xz\" '' @ bsl,
     ''    && echo \"'' @ chafaSHA256 @ ''  $tmp/chafa.tar.xz\" | sha256sum -c - '' @ bsl,
     ''    && tar -C \"$tmp\" -xJf \"$tmp/chafa.tar.xz\" '' @ bsl,
     ''    && cd \"$tmp/chafa-'' @ chafaVersion @ ''\" '' @ bsl,
     ''    && ./configure --prefix=/usr/local '' @ bsl,
     ''    && make -j\"$(nproc)\" '' @ bsl,
     ''    && make install '' @ bsl,
     ''    && ldconfig '' @ bsl,
     ''    && cd / '' @ bsl,
     ''    && rm -rf \"$tmp\" '' @ bsl,
     ''    && apt-get clean '' @ bsl,
     ''    && rm -rf /var/lib/apt/lists/*'']"

definition gh_lines :: "string list" where
  "gh_lines =
    [
     ''# gh (GitHub CLI): the in-container push path. Logins are per-project'',
     ''# fine-grained tokens behind GH_CONFIG_DIR on the agent-state volume;'',
     ''# lifecycle.sh post-start wires git to push through them'',
     ''# (docs/configuration.md \"GitHub access\").'',
     ''RUN tmp=\"$(mktemp -d)\" '' @ bsl,
     ''    && case \"$(uname -m)\" in '' @ bsl,
     ''         x86_64)  arch=amd64; sha=\"'' @ ghSHA256AMD64 @ ''\" ;; '' @ bsl,
     ''         aarch64) arch=arm64; sha=\"'' @ ghSHA256ARM64 @ ''\" ;; '' @ bsl,
     ''         *'' @ '') echo \"unsupported architecture: $(uname -m)\" >&2; exit 1 ;; '' @ bsl,
     ''       esac '' @ bsl,
     ''    && curl -fsSL -o \"$tmp/gh.tar.gz\" \"https://github.com/cli/cli/releases/download/v'' @ ghVersion @ ''/gh_'' @ ghVersion @ ''_linux_${arch}.tar.gz\" '' @ bsl,
     ''    && echo \"${sha}  $tmp/gh.tar.gz\" | sha256sum -c - '' @ bsl,
     ''    && tar -C \"$tmp\" -xzf \"$tmp/gh.tar.gz\" '' @ bsl,
     ''    && install -m 0755 \"$tmp/gh_'' @ ghVersion @ ''_linux_${arch}/bin/gh\" /usr/local/bin/gh '' @ bsl,
     ''    && rm -rf \"$tmp\"'']"

definition go_lines :: "string list" where
  "go_lines =
    [
     ''# Go toolchain: official tarball pinned by version + per-arch checksum,'',
     ''# upstream layout under /usr/local/go (PATH above carries its bin dirs).'',
     ''RUN tmp=\"$(mktemp -d)\" '' @ bsl,
     ''    && case \"$(uname -m)\" in '' @ bsl,
     ''         x86_64)  arch=amd64; sha=\"'' @ goSHA256AMD64 @ ''\" ;; '' @ bsl,
     ''         aarch64) arch=arm64; sha=\"'' @ goSHA256ARM64 @ ''\" ;; '' @ bsl,
     ''         *'' @ '') echo \"unsupported architecture: $(uname -m)\" >&2; exit 1 ;; '' @ bsl,
     ''       esac '' @ bsl,
     ''    && curl -fsSL -o \"$tmp/go.tar.gz\" \"https://go.dev/dl/go'' @ goVersion @ ''.linux-${arch}.tar.gz\" '' @ bsl,
     ''    && echo \"${sha}  $tmp/go.tar.gz\" | sha256sum -c - '' @ bsl,
     ''    && rm -rf /usr/local/go '' @ bsl,
     ''    && tar -C /usr/local -xzf \"$tmp/go.tar.gz\" '' @ bsl,
     ''    && rm -rf \"$tmp\"'']"

definition node_lines :: "string list" where
  "node_lines =
    [
     ''# Node: required by npm-distributed agent CLIs and available standalone.'',
     ''RUN curl -fsSL \"https://deb.nodesource.com/setup_'' @ nodeMajor @ ''.x\" | bash - '' @ bsl,
     ''    && apt-get install -y --no-install-recommends nodejs '' @ bsl,
     ''    && apt-get clean '' @ bsl,
     ''    && rm -rf /var/lib/apt/lists/*'']"

definition unzip_lines :: "string list" where
  "unzip_lines =
    [
     ''# rokit ships as a zip; make sure unzip exists on lean bases.'',
     ''RUN command -v unzip >/dev/null 2>&1 '' @ bsl,
     ''    || { apt-get update '' @ bsl,
     ''         && apt-get install -y --no-install-recommends unzip '' @ bsl,
     ''         && apt-get clean '' @ bsl,
     ''         && rm -rf /var/lib/apt/lists/*; }'']"

text \<open>The bundled review stack.\<close>

definition review_lines :: "string list" where
  "review_lines =
    [
     ''# The bundled review stack (docs/tui-layout.md \"Editor surfaces\"):'',
     ''# nvim + lazygit as pinned release artifacts '' @ em_dash @ '' the container carries'',
     ''# the review surface because a cold host is the norm.'',
     ''RUN tmp=\"$(mktemp -d)\" '' @ bsl,
     ''    && case \"$(uname -m)\" in '' @ bsl,
     ''         x86_64)  arch=x86_64; nvim_sha=\"'' @ nvimSHA256AMD64 @ ''\"; lazygit_sha=\"'' @ lazygitSHA256AMD64 @ ''\" ;; '' @ bsl,
     ''         aarch64) arch=arm64;  nvim_sha=\"'' @ nvimSHA256ARM64 @ ''\"; lazygit_sha=\"'' @ lazygitSHA256ARM64 @ ''\" ;; '' @ bsl,
     ''         *'' @ '') echo \"unsupported architecture: $(uname -m)\" >&2; exit 1 ;; '' @ bsl,
     ''       esac '' @ bsl,
     ''    && curl -fsSL -o \"$tmp/nvim.tar.gz\" \"https://github.com/neovim/neovim/releases/download/v'' @ nvimVersion @ ''/nvim-linux-${arch}.tar.gz\" '' @ bsl,
     ''    && echo \"${nvim_sha}  $tmp/nvim.tar.gz\" | sha256sum -c - '' @ bsl,
     ''    && tar -C /opt -xzf \"$tmp/nvim.tar.gz\" '' @ bsl,
     ''    && ln -sfn \"/opt/nvim-linux-${arch}\" /opt/nvim '' @ bsl,
     ''    && ln -sf /opt/nvim/bin/nvim /usr/local/bin/nvim '' @ bsl,
     ''    && curl -fsSL -o \"$tmp/lazygit.tar.gz\" \"https://github.com/jesseduffield/lazygit/releases/download/v'' @ lazygitVersion @ ''/lazygit_'' @ lazygitVersion @ ''_linux_${arch}.tar.gz\" '' @ bsl,
     ''    && echo \"${lazygit_sha}  $tmp/lazygit.tar.gz\" | sha256sum -c - '' @ bsl,
     ''    && tar -C \"$tmp\" -xzf \"$tmp/lazygit.tar.gz\" lazygit '' @ bsl,
     ''    && install -m 0755 \"$tmp/lazygit\" /usr/local/bin/lazygit '' @ bsl,
     ''    && rm -rf \"$tmp\"'']"

definition plugin_name :: "string \<Rightarrow> string" where
  "plugin_name repo = drop 1 (dropWhile (\<lambda>c. c \<noteq> CHR ''/'') repo)"

definition plugin_lines :: "string \<times> string \<Rightarrow> string list" where
  "plugin_lines = (\<lambda>(repo, sha).
     let dst = ''/opt/vibe/nvim/pack/vibe/start/'' @ plugin_name repo in
     [''    && git clone --no-checkout \"https://github.com/'' @ repo @ ''\" \"'' @ dst @ ''\"'',
      ''    && git -C \"'' @ dst @ ''\" checkout --detach '' @ sha])"

definition plugins_lines :: "string list" where
  "plugins_lines =
    [
     ''# Review-stack plugins at pinned SHAs into a root-owned native'',
     ''# packpath '' @ em_dash @ '' no plugin manager, no runtime network; .git dirs stripped'',
     ''# so the bytes are inert.''] @
    map (\<lambda>l. l @ '' '' @ bsl) (''RUN mkdir -p /opt/vibe/nvim/pack/vibe/start'' # concat (map plugin_lines reviewPlugins)) @
    [''    && rm -rf /opt/vibe/nvim/pack/vibe/start/*/.git'']"

definition parsers_lines :: "string list" where
  "parsers_lines =
    [
     ''# Treesitter parsers for the engine-owned language list, compiled at'',
     ''# image build (the tmux layer'' @ sq @ ''s build-essential compiles, the pinned'',
     ''# OFFICIAL tree-sitter CLI drives '' @ em_dash @ '' see the pin comment for why the'',
     ''# 0.25 line) into a root-owned site dir the payload nvim config puts'',
     ''# on the runtime path '' @ em_dash @ '' no runtime compiles, no writable plugin state.'',
     ''RUN tmp=\"$(mktemp -d)\" '' @ bsl,
     ''    && case \"$(uname -m)\" in '' @ bsl,
     ''         x86_64)  tsarch=x64;   ts_sha=\"'' @ treesitterCLISHA256AMD64 @ ''\" ;; '' @ bsl,
     ''         aarch64) tsarch=arm64; ts_sha=\"'' @ treesitterCLISHA256ARM64 @ ''\" ;; '' @ bsl,
     ''         *'' @ '') echo \"unsupported architecture: $(uname -m)\" >&2; exit 1 ;; '' @ bsl,
     ''       esac '' @ bsl,
     ''    && curl -fsSL -o \"$tmp/tree-sitter.gz\" \"https://github.com/tree-sitter/tree-sitter/releases/download/v'' @ treesitterCLIVersion @ ''/tree-sitter-linux-${tsarch}.gz\" '' @ bsl,
     ''    && echo \"${ts_sha}  $tmp/tree-sitter.gz\" | sha256sum -c - '' @ bsl,
     ''    && gunzip \"$tmp/tree-sitter.gz\" '' @ bsl,
     ''    && install -m 0755 \"$tmp/tree-sitter\" /usr/local/bin/tree-sitter '' @ bsl,
     ''    && rm -rf \"$tmp\" '' @ bsl,
     ''    && mkdir -p /opt/vibe/nvim-data '' @ bsl,
     ''    && HOME=/tmp XDG_DATA_HOME=/opt/vibe/nvim-data nvim --headless '' @ bsl,
     ''       --cmd \"set packpath^=/opt/vibe/nvim\" '' @ bsl,
     ''       -c \"lua require('' @ sq @ ''nvim-treesitter'' @ sq @ '').install({'' @ sq @ join (sq @ '','' @ sq) reviewParsers @ sq @ ''}):wait(900000)\" '' @ bsl,
     ''       -c \"quitall!\" '' @ bsl,
     ''    && test \"$(ls /opt/vibe/nvim-data/nvim/site/parser/*.so | wc -l)\" -eq '' @ itoa (length reviewParsers)]"

definition reviewLayers :: "install_chunk list" where
  "reviewLayers =
     [(part ''review'' (''nvim '' @ nvimVersion @ '' '' @ mid_dot @ '' lazygit '' @ lazygitVersion), lines_text review_lines),
      (part ''plugins'' (itoa (length reviewPlugins) @ '' nvim plugins '' @ mid_dot @ '' SHA-pinned''), lines_text plugins_lines),
      (part ''parsers'' (''treesitter '' @ mid_dot @ '' '' @ itoa (length reviewParsers) @ '' languages''), lines_text parsers_lines)]"

definition rootLayers :: "string set \<Rightarrow> install_chunk list" where
  "rootLayers want =
     [(partBase, lines_text base_lines)] @
     (if wantsAgent want
      then [(part ''tmux'' (tmuxVersion @ '' '' @ mid_dot @ '' source build''), lines_text tmux_lines),
            (part ''chafa'' (chafaVersion @ '' '' @ mid_dot @ '' source build''), lines_text chafa_lines)] @
           reviewLayers @ [(part ''gh'' ghVersion, lines_text gh_lines)]
      else []) @
     (if wants_tool want ToolchainGo then [(part ''go'' goVersion, lines_text go_lines)] else []) @
     (if wants_tool want ToolchainNode then [(part ''node'' (nodeMajor @ ''.x''), lines_text node_lines)] else []) @
     (if wants_tool want ToolchainRokit then [(partRokit, lines_text unzip_lines)] else [])"

section \<open>The layers of the user\<close>

definition refreshBust :: "bool \<Rightarrow> agent_kind \<Rightarrow> string" where
  "refreshBust b k =
     (if \<not> b then ''''
      else '': \"agents-refresh=${'' @ AgentRefreshArgFor k @ ''}\" '' @ bsl @ newline @ ''    && '')"

definition refreshArgDecl :: "bool \<Rightarrow> agent_kind \<Rightarrow> string" where
  "refreshArgDecl b k =
     (if \<not> b then ''''
      else lines_text
        [''# The arg'' @ sq @ ''s value tracks this agent'' @ sq @ ''s channel (resolved version,'',
         ''# or a rebuild timestamp when the probe failed): unchanged upstream'',
         ''# keeps the layer warm-cached, a real bump re-pulls.'',
         ''ARG '' @ AgentRefreshArgFor k])"

definition bun_lines :: "string list" where
  "bun_lines =
    [
     ''RUN curl -fsSL https://bun.sh/install | bash -s -- \"bun-v'' @ bunVersion @ ''\" '' @ bsl,
     ''    && test -x /home/vscode/.bun/bin/bun'']"

definition rokit_lines :: "string list" where
  "rokit_lines =
    [
     ''RUN tmp=\"$(mktemp -d)\" && cd \"$tmp\" '' @ bsl,
     ''    && curl -fsSL -o rokit.zip \"https://github.com/rojo-rbx/rokit/releases/download/v'' @ rokitVersion @ ''/rokit-'' @ rokitVersion @ ''-linux-$(uname -m).zip\" '' @ bsl,
     ''    && unzip -q rokit.zip '' @ bsl,
     ''    && ./rokit self-install '' @ bsl,
     ''    && rm -rf \"$tmp\"'']"

definition uv_lines :: "string list" where
  "uv_lines =
    [
     ''RUN curl -fsSL https://astral.sh/uv/'' @ uvVersion @ ''/install.sh | env UV_INSTALL_DIR=/home/vscode/.local/bin UV_NO_MODIFY_PATH=1 sh '' @ bsl,
     ''    && test -x /home/vscode/.local/bin/uv'']"

definition codex_lines :: "bool \<Rightarrow> string \<Rightarrow> string list" where
  "codex_lines b codexSpec =
    [
     ''RUN '' @ refreshBust b AgentCodex @ ''npm install -g --prefix /home/vscode/.local \"@openai/codex@'' @ codexSpec @ ''\"'']"

definition grok_lines :: "bool \<Rightarrow> string list" where
  "grok_lines b =
    [
     ''# Grok (xAI official). Its state (auth.json, config.toml) lives in'',
     ''# ~/.grok with no env override, so ~/.grok is symlinked onto the'',
     ''# agent-state volume path BEFORE install (fresh volumes inherit the'',
     ''# dir from the image; lifecycle.sh materializes it on older volumes),'',
     ''# making logins survive rebuilds like claude/codex relocation does.'',
     ''# The installer symlinks grok/agent into GROK_BIN_DIR pointing at'',
     ''# ~/.grok/downloads/, which the runtime volume mount would shadow '' @ em_dash @ '' so'',
     ''# the real binary is materialized instead.'',
     ''RUN '' @ refreshBust b AgentGrok @ ''mkdir -p /vibe/agent-state/grok '' @ bsl,
     ''    && ln -s /vibe/agent-state/grok /home/vscode/.grok '' @ bsl,
     ''    && curl -fsSL https://x.ai/cli/install.sh | GROK_BIN_DIR=/home/vscode/.local/bin bash -s -- '' @ bsl,
     ''    && bin=\"$(readlink -f /home/vscode/.local/bin/grok)\" '' @ bsl,
     ''    && rm -f /home/vscode/.local/bin/grok /home/vscode/.local/bin/agent '' @ bsl,
     ''    && cp \"$bin\" /home/vscode/.local/bin/grok '' @ bsl,
     ''    && ln -s grok /home/vscode/.local/bin/agent '' @ bsl,
     ''    && rm -rf /vibe/agent-state/grok/downloads'']"

definition claude_lines :: "bool \<Rightarrow> string \<Rightarrow> string \<Rightarrow> string list" where
  "claude_lines b target spec =
    [
     ''# Claude Code: the installer'' @ sq @ ''s '' @ target @ ''.'',
     ''RUN '' @ refreshBust b AgentClaude @ ''curl -fsSL https://claude.ai/install.sh | bash -s -- '' @ spec @ '' '' @ bsl,
     ''    && test -x /home/vscode/.local/bin/claude'']"

text \<open>\<open>pin\<close> is the version of each kind, empty without one.\<close>

definition bustFor :: "(agent_kind \<Rightarrow> string) \<Rightarrow> bool \<Rightarrow> agent_kind \<Rightarrow> bool" where
  "bustFor pin refresh k = (refresh \<and> (pin k = '''' \<or> isChannel (pin k)))"

definition agentDetail :: "(agent_kind \<Rightarrow> string) \<Rightarrow> agent_kind \<Rightarrow> string \<Rightarrow> string" where
  "agentDetail pin k channel =
     (if pin k = '''' then channel @ '' channel''
      else if isChannel (pin k) then pin k @ '' channel''
      else pin k)"

definition agent_part :: "(agent_kind \<Rightarrow> string) \<Rightarrow> bool \<Rightarrow> agent_kind \<Rightarrow> string \<Rightarrow> install_part" where
  "agent_part pin refresh k channel =
     \<lparr>ip_id = agent_text k, ip_title = agent_text k, ip_detail = agentDetail pin k channel,
      ip_refresh = bustFor pin refresh k\<rparr>"

definition claude_target :: "string \<Rightarrow> string" where
  "claude_target v =
     (if v = '''' then claudeChannel @ '' channel''
      else if isChannel v then ''manifest-selected '' @ v @ '' channel''
      else ''manifest-pinned '' @ v)"

definition userLayers :: "string set \<Rightarrow> (agent_kind \<Rightarrow> string) \<Rightarrow> bool \<Rightarrow> install_chunk list" where
  "userLayers want pin refresh =
     (if wants_tool want ToolchainBun then [(part ''bun'' bunVersion, lines_text bun_lines)] else []) @
     (if wants_tool want ToolchainRokit then [(partRokit, lines_text rokit_lines)] else []) @
     (if wants_tool want ToolchainUv then [(part ''uv'' uvVersion, lines_text uv_lines)] else []) @
     (if wants want AgentCodex
      then (let b = bustFor pin refresh AgentCodex; v = pin AgentCodex in
            [(agent_part pin refresh AgentCodex codexChannel,
              refreshArgDecl b AgentCodex @ lines_text (codex_lines b (if v \<noteq> '''' then v else codexChannel)))])
      else []) @
     (if wants want AgentGrok
      then (let b = bustFor pin refresh AgentGrok in
            [(agent_part pin refresh AgentGrok grokChannel, refreshArgDecl b AgentGrok @ lines_text (grok_lines b))])
      else []) @
     (if wants want AgentClaude
      then (let b = bustFor pin refresh AgentClaude; v = pin AgentClaude in
            [(agent_part pin refresh AgentClaude claudeChannel,
              refreshArgDecl b AgentClaude @
              lines_text (claude_lines b (claude_target v) (if v \<noteq> '''' then v else claudeChannel)))])
      else [])"

section \<open>Assembly\<close>

record assembly =
  am_text :: string
  am_parts :: "install_part list"
  am_steps :: "nat list"
  am_index :: "string \<Rightarrow> nat option"
  am_pending :: nat

definition add_chunk :: "install_chunk \<Rightarrow> assembly \<Rightarrow> assembly" where
  "add_chunk = (\<lambda>(p, text) a.
     let a1 = a\<lparr>am_text := am_text a @ text\<rparr>; n = countInstructions text in
     if ip_id p = '''' then a1\<lparr>am_pending := am_pending a + n\<rparr>
     else
       let a2 = (case am_index a1 (ip_id p) of
                   Some _ \<Rightarrow> a1
                 | None \<Rightarrow> a1\<lparr>am_index := (am_index a1)(ip_id p \<mapsto> length (am_parts a1)),
                              am_parts := am_parts a1 @ [p]\<rparr>);
           idx = (case am_index a2 (ip_id p) of Some i \<Rightarrow> i | None \<Rightarrow> 0)
       in a2\<lparr>am_steps := am_steps a2 @ replicate (am_pending a2 + n) idx, am_pending := 0\<rparr>)"

definition assemble :: "install_chunk list \<Rightarrow> install_plan" where
  "assemble chunks =
     (let a = fold add_chunk chunks
            \<lparr>am_text = '''', am_parts = [], am_steps = [], am_index = (\<lambda>_. None), am_pending = 0\<rparr>
      in \<lparr>il_dockerfile = am_text a, il_parts = am_parts a,
          il_steps = am_steps a @ replicate (am_pending a) (length (am_parts a) - 1),
          il_refresh_kinds = map ip_id (filter ip_refresh (am_parts a))\<rparr>)"

definition pin_of :: "agent_spec list \<Rightarrow> agent_kind \<Rightarrow> string" where
  "pin_of agents = fold (\<lambda>a f. f(as_kind a := as_version a)) agents (\<lambda>_. '''')"

definition wanted :: "agent_spec list \<Rightarrow> toolchain list \<Rightarrow> string set" where
  "wanted agents tools =
     (let want = set (map (agent_text \<circ> as_kind) agents) \<union> set (map toolchain_text tools) in
      if wants want AgentCodex then insert (toolchain_text ToolchainNode) want else want)"

definition header_text :: string where
  "header_text = lines_text
     [''# Generated by the vibe engine from image.agents / image.toolchains.'',
      ''# Not project input: regenerated every build, pins move with engine releases.'',
      ''ARG '' @ BaseImageArg,
      ''FROM ${'' @ BaseImageArg @ ''}'']"

definition spaced :: "install_chunk \<Rightarrow> install_chunk" where
  "spaced = (\<lambda>(p, text). (p, newline @ text))"

definition install_chunks :: "string set \<Rightarrow> (agent_kind \<Rightarrow> string) \<Rightarrow> bool \<Rightarrow> install_chunk list" where
  "install_chunks want pin refresh =
     [chrome header_text] @
     (if pathEntries want \<noteq> []
      then [chrome (lines_text ['''', ''ENV PATH='' @ join '':'' (pathEntries want) @ '':${PATH}''])] else []) @
     (if rootLayers want \<noteq> []
      then chrome (lines_text ['''', ''USER root'']) # map spaced (rootLayers want) else []) @
     [chrome (lines_text ['''', ''USER vscode''])] @
     map spaced (userLayers want pin refresh)"

definition GenerateInstallPlan :: "agent_spec list \<Rightarrow> toolchain list \<Rightarrow> bool \<Rightarrow> install_plan option" where
  "GenerateInstallPlan agents tools refresh =
     (if agents = [] \<and> tools = [] then None
      else Some (assemble (install_chunks (wanted agents tools) (pin_of agents) refresh)))"

section \<open>The generated Dockerfile\<close>

lemma good_constant_layers:
  "good_text (lines_text base_lines)" "good_text (lines_text tmux_lines)" "good_text (lines_text chafa_lines)"
  "good_text (lines_text gh_lines)" "good_text (lines_text go_lines)" "good_text (lines_text node_lines)"
  "good_text (lines_text unzip_lines)"
  by (rule good_text_lines, code_simp)+

lemma good_review_layers:
  "good_text (lines_text review_lines)" "good_text (lines_text plugins_lines)" "good_text (lines_text parsers_lines)"
  by (rule good_text_lines, code_simp)+

lemma good_tool_layers:
  "good_text (lines_text bun_lines)" "good_text (lines_text rokit_lines)" "good_text (lines_text uv_lines)"
  by (rule good_text_lines, code_simp)+

text \<open>Versions and channel words hold no character that could end a line.\<close>

definition word_ok :: "string \<Rightarrow> bool" where
  "word_ok v = (list_all version_char v \<and> length v \<le> 64)"

lemma word_ok_line: "word_ok v \<Longrightarrow> CHR 0x0A \<notin> set v \<and> CHR 0x0D \<notin> set v \<and> length v \<le> 64"
  by (auto simp: word_ok_def version_char_def version_rune_def list_all_iff)

lemma word_ok_channels: "word_ok claudeChannel" "word_ok codexChannel" "word_ok grokChannel"
  by code_simp+

lemma good_arg_decl: "k \<noteq> NoAgent \<Longrightarrow> good_text (refreshArgDecl b k)"
proof -
  assume "k \<noteq> NoAgent"
  then have "list_all (\<lambda>l. quiet l \<and> plain_line l)
      [''# The arg'' @ sq @ ''s value tracks this agent'' @ sq @ ''s channel (resolved version,'',
       ''# or a rebuild timestamp when the probe failed): unchanged upstream'',
       ''# keeps the layer warm-cached, a real bump re-pulls.'',
       ''ARG '' @ AgentRefreshArgFor k]"
    by (cases k; simp only: simp_thms agent_kind.distinct; code_simp)
  from good_text_lines [OF this] good_text_Nil show ?thesis unfolding refreshArgDecl_def by (simp only: if_split) blast
qed

text \<open>A \<^verbatim>\<open>RUN\<close> line with the cache buster is two lines.\<close>

lemma busted_line:
  "lines_text [''RUN '' @ refreshBust True k @ l] =
   lines_text [''RUN : \"agents-refresh=${'' @ AgentRefreshArgFor k @ ''}\" '' @ bsl, ''    && '' @ l]"
  "lines_text [''RUN '' @ refreshBust False k @ l] = lines_text [''RUN '' @ l]"
  by (simp_all add: refreshBust_def)

lemma good_run_line:
  assumes "k \<noteq> NoAgent" "plain_line (''    && '' @ l)"
  shows "good_text (lines_text [''RUN '' @ refreshBust b k @ l])"
proof -
  have arg: "quiet (''RUN : \"agents-refresh=${'' @ AgentRefreshArgFor k @ ''}\" '' @ bsl) \<and>
      plain_line (''RUN : \"agents-refresh=${'' @ AgentRefreshArgFor k @ ''}\" '' @ bsl)"
    using assms(1) by (cases k; simp only: simp_thms agent_kind.distinct; code_simp)
  have "quiet (''RUN '' @ l)" "quiet (''    && '' @ l)"
    by (simp_all add: quiet_def visible_def keyword_starts_def ascii_upper_def is_lower_def less_eq_char_def)
  moreover have "plain_line (''RUN '' @ l)" using assms(2) by (simp add: plain_line_def)
  ultimately show ?thesis using arg assms(2) by (cases b; simp only: busted_line) (rule good_text_lines; simp)+
qed

lemma good_codex: "word_ok v \<Longrightarrow> good_text (lines_text (codex_lines b v))"
  unfolding codex_lines_def
  by (rule good_run_line) (use word_ok_line [of v] in \<open>simp_all add: plain_line_def\<close>)

lemma lines_text_split: "good_text (lines_text ls) \<Longrightarrow> good_text (lines_text [l]) \<Longrightarrow> good_text (lines_text ms) \<Longrightarrow>
  good_text (lines_text (ls @ [l] @ ms))"
  unfolding lines_text_simps(3) by (intro good_text_append)

lemma good_claude:
  assumes "word_ok v" "word_ok w"
  shows "good_text (lines_text (claude_lines b (claude_target w) v))"
proof -
  have "quiet (''# Claude Code: the installer'' @ sq @ ''s '' @ t @ ''.'')" for t
    by (simp add: quiet_def visible_def ascii_lower_def is_upper_def less_eq_char_def)
  moreover have "plain_line (''# Claude Code: the installer'' @ sq @ ''s '' @ claude_target w @ ''.'')"
    using word_ok_line [OF assms(2)] by (simp add: plain_line_def claude_target_def claudeChannel_def)
  ultimately have 1: "good_text (lines_text [''# Claude Code: the installer'' @ sq @ ''s '' @ claude_target w @ ''.''])"
    by (intro good_text_lines) simp
  have 2: "good_text (lines_text [''RUN '' @ refreshBust b AgentClaude @
      ''curl -fsSL https://claude.ai/install.sh | bash -s -- '' @ v @ '' '' @ bsl])"
    by (rule good_run_line) (use word_ok_line [OF assms(1)] in \<open>simp_all add: plain_line_def\<close>)
  have 3: "good_text (lines_text [''    && test -x /home/vscode/.local/bin/claude''])"
    by (rule good_text_lines) code_simp
  from lines_text_split [OF 1 2 3] show ?thesis by (simp add: claude_lines_def)
qed

lemma good_grok: "good_text (lines_text (grok_lines b))"
proof -
  have 1: "good_text (lines_text (take 8 (grok_lines b)))" by (rule good_text_lines) code_simp
  have 2: "good_text (lines_text [''RUN '' @ refreshBust b AgentGrok @ ''mkdir -p /vibe/agent-state/grok '' @ bsl])"
    by (rule good_run_line) (simp_all add: plain_line_def)
  have 3: "good_text (lines_text (drop 9 (grok_lines b)))" by (rule good_text_lines) code_simp
  from lines_text_split [OF 1 2 3] show ?thesis by (simp add: grok_lines_def)
qed

lemma word_ok_Nil: "word_ok ''''"
  by (simp add: word_ok_def)

lemma pin_of_ok: "list_all agent_spec_ok agents \<Longrightarrow> word_ok (pin_of agents k)"
proof -
  have "word_ok (f k) \<Longrightarrow> list_all agent_spec_ok agents \<Longrightarrow> word_ok (fold (\<lambda>a f. f(as_kind a := as_version a)) agents f k)" for f
  proof (induction agents arbitrary: f)
    case (Cons a agents)
    have "word_ok (as_version a)"
      using Cons.prems(2) validAgentVersion_chars by (cases "as_version a = ''''") (auto simp: word_ok_def agent_spec_ok_def)
    then show ?case using Cons by simp
  qed simp
  then show "list_all agent_spec_ok agents \<Longrightarrow> word_ok (pin_of agents k)" using word_ok_Nil by (simp add: pin_of_def)
qed

lemma good_text_newline: "good_text t \<Longrightarrow> good_text (CHR 0x0A # t)"
  using good_text_append [OF good_text_lines [of "['''']"]] by (simp add: quiet_def plain_line_def)

lemma good_user_layers:
  assumes "\<And>k. word_ok (pin k)"
  shows "list_all good_text (map snd (map spaced (userLayers want pin refresh)))"
proof -
  have "word_ok (if pin k \<noteq> '''' then pin k else c)" if "word_ok c" for k c using that assms by simp
  then show ?thesis
    unfolding userLayers_def Let_def
    by (auto simp: spaced_def word_ok_channels list_all_iff simp del: lines_text_simps
        intro!: good_text_newline good_text_append good_arg_decl good_codex good_grok good_claude good_tool_layers assms word_ok_Nil)
qed

lemma good_root_layers: "list_all good_text (map snd (map spaced (rootLayers want)))"
  unfolding rootLayers_def reviewLayers_def
  by (auto simp: spaced_def list_all_iff simp del: lines_text_simps
      intro!: good_text_newline good_constant_layers good_review_layers)

lemma am_text_fold: "am_text (fold add_chunk cs a) = am_text a @ concat (map snd cs)"
proof (induction cs arbitrary: a)
  case (Cons c cs)
  have "am_text (add_chunk c a) = am_text a @ snd c" by (cases c) (auto simp: add_chunk_def Let_def split: option.splits)
  then show ?case by (simp add: Cons)
qed simp

lemma dockerfile_text: "il_dockerfile (assemble cs) = concat (map snd cs)"
  by (simp add: assemble_def Let_def am_text_fold)

text \<open>
  C29. Whatever agents and toolchains a manifest selects, the Dockerfile that is generated for them passes the check that
  every build input has to pass, so no version of the manifest can break out of its line into an instruction of its own.
\<close>

theorem generated_is_valid:
  assumes "list_all agent_spec_ok agents" "GenerateInstallPlan agents tools refresh = Some plan"
  shows "ValidateDockerfile lower upper (il_dockerfile plan) = Inr ()"
proof -
  define want pin where "want = wanted agents tools" and "pin = pin_of agents"
  have pin: "word_ok (pin k)" for k unfolding pin_def by (rule pin_of_ok [OF assms(1)])
  let ?env = "concat (map snd (if pathEntries want \<noteq> []
      then [chrome (lines_text ['''', ''ENV PATH='' @ join '':'' (pathEntries want) @ '':${PATH}''])] else [])) @ newline"
  have blank: "good_text newline" using good_text_lines [of "['''']"] by (simp add: quiet_def plain_line_def)
  have env: "good_text ?env"
  proof -
    have "list_all (\<lambda>l. quiet l \<and> plain_line l) ['''', ''ENV PATH='' @ join '':'' (pathEntries want) @ '':${PATH}'']"
      by (auto simp: pathEntries_def quiet_def plain_line_def visible_def keyword_starts_def ascii_upper_def is_lower_def less_eq_char_def)
    from good_text_lines [OF this] show ?thesis using blank by (auto simp: chrome_def simp del: lines_text_simps intro!: good_text_append)
  qed
  have head: "good_text (lines_text
     [''# Generated by the vibe engine from image.agents / image.toolchains.'',
      ''# Not project input: regenerated every build, pins move with engine releases.''])"
    by (rule good_text_lines) code_simp
  have root: "good_text (concat (map snd (map spaced (rootLayers want))) @ newline)"
    using good_text_append [OF good_text_concat [OF good_root_layers] blank] .
  have user: "good_text (concat (map snd (map spaced (userLayers want pin refresh))))"
    by (rule good_text_concat [OF good_user_layers [OF pin]])
  have "rootLayers want \<noteq> []" by (simp add: rootLayers_def)
  then have "il_dockerfile plan = lines_text
     [''# Generated by the vibe engine from image.agents / image.toolchains.'',
      ''# Not project input: regenerated every build, pins move with engine releases.''] @
     (''ARG '' @ BaseImageArg) @ newline @ (''FROM ${'' @ BaseImageArg @ ''}'') @ newline @ ?env @
     ''USER root'' @ newline @ (concat (map snd (map spaced (rootLayers want))) @ newline) @ ''USER vscode'' @ newline @
     concat (map snd (map spaced (userLayers want pin refresh)))"
    using assms(2) by (auto simp: GenerateInstallPlan_def dockerfile_text install_chunks_def header_text_def chrome_def
        want_def pin_def split: if_splits)
  then show ?thesis using ValidateDockerfile_generated [OF head env root user] by simp
qed

section \<open>Steps and parts\<close>

definition lined :: "string \<Rightarrow> bool" where
  "lined t \<longleftrightarrow> (\<exists>ls. t = lines_text ls \<and> list_all (\<lambda>l. CHR 0x0A \<notin> set l) ls)"

lemma good_text_lined: "good_text t \<Longrightarrow> lined t"
  unfolding good_text_def lined_def by (auto simp: list_all_iff plain_line_def)

lemma countInstructions_append:
  assumes "lined s" "lined t"
  shows "countInstructions (s @ t) = countInstructions s + countInstructions t \<and> lined (s @ t)"
proof -
  obtain ls ms where "s = lines_text ls" "list_all (\<lambda>l. CHR 0x0A \<notin> set l) ls"
    "t = lines_text ms" "list_all (\<lambda>l. CHR 0x0A \<notin> set l) ms" using assms by (auto simp: lined_def)
  then show ?thesis
    using split_on_lines [of "ls @ ms"]
    by (auto simp: countInstructions_def split_on_lines is_instruction_def lined_def simp flip: lines_text_simps(3) simp del: lines_text_simps(3))
qed

definition assembled :: "assembly \<Rightarrow> bool" where
  "assembled a \<longleftrightarrow>
     lined (am_text a) \<and> length (am_steps a) + am_pending a = countInstructions (am_text a) \<and>
     (\<forall>i \<in> set (am_steps a). i < length (am_parts a)) \<and> distinct (map ip_id (am_parts a)) \<and>
     (\<forall>n i. am_index a n = Some i \<longleftrightarrow> i < length (am_parts a) \<and> ip_id (am_parts a ! i) = n)"

lemma index_grows:
  assumes "\<forall>n i. f n = Some i \<longleftrightarrow> i < length ps \<and> ip_id (ps ! i) = n" "f (ip_id p) = None"
  shows "(f(ip_id p \<mapsto> length ps)) n = Some i \<longleftrightarrow> i < length (ps @ [p]) \<and> ip_id ((ps @ [p]) ! i) = n"
  using assms by (auto simp: nth_append less_Suc_eq) (metis option.distinct(1))+

lemma assembled_add_chunk:
  assumes a: "assembled a" and t: "lined t"
  shows "assembled (add_chunk (p, t) a)"
proof -
  have c: "countInstructions (am_text a @ t) = countInstructions (am_text a) + countInstructions t" "lined (am_text a @ t)"
    using countInstructions_append [of "am_text a" t] a t by (simp_all add: assembled_def)
  show ?thesis
  proof (cases "ip_id p = ''''")
    case True
    then show ?thesis using a c by (simp add: add_chunk_def assembled_def Let_def)
  next
    case False
    show ?thesis
    proof (cases "am_index a (ip_id p)")
      case None
      have "distinct (map ip_id (am_parts a @ [p]))"
        using a None by (auto simp: assembled_def in_set_conv_nth) (metis option.distinct(1))
      moreover have "(\<forall>n i. ((am_index a)(ip_id p \<mapsto> length (am_parts a))) n = Some i \<longleftrightarrow>
          i < length (am_parts a @ [p]) \<and> ip_id ((am_parts a @ [p]) ! i) = n)"
        using index_grows [of "am_index a" "am_parts a" p] a None unfolding assembled_def by blast
      moreover have "add_chunk (p, t) a =
          a\<lparr>am_text := am_text a @ t, am_parts := am_parts a @ [p],
            am_steps := am_steps a @ replicate (am_pending a + countInstructions t) (length (am_parts a)),
            am_index := (am_index a)(ip_id p \<mapsto> length (am_parts a)), am_pending := 0\<rparr>"
        using False None by (cases a) (simp add: add_chunk_def Let_def)
      moreover have "\<forall>i \<in> set (am_steps a @ replicate (am_pending a + countInstructions t) (length (am_parts a))). i < length (am_parts a @ [p])"
        using a by (auto simp: assembled_def less_Suc_eq)
      ultimately show ?thesis
        using a c unfolding assembled_def by (simp del: fun_upd_apply map_append)
    next
      case (Some i)
      then have "i < length (am_parts a)" using a by (auto simp: assembled_def)
      moreover have "add_chunk (p, t) a =
          a\<lparr>am_text := am_text a @ t, am_steps := am_steps a @ replicate (am_pending a + countInstructions t) i, am_pending := 0\<rparr>"
        using False Some by (cases a) (simp add: add_chunk_def Let_def)
      ultimately show ?thesis using a c unfolding assembled_def by auto
    qed
  qed
qed

lemma assembled_fold: "assembled a \<Longrightarrow> list_all lined (map snd cs) \<Longrightarrow> assembled (fold add_chunk cs a)"
  by (induction cs arbitrary: a) (auto simp: assembled_add_chunk)

lemma lined_all: "list_all good_text ts \<Longrightarrow> list_all lined ts"
  by (simp add: list_all_iff good_text_lined)

lemma lined_chunks:
  assumes "\<And>k. word_ok (pin k)"
  shows "list_all lined (map snd (install_chunks want pin refresh))"
proof -
  have l: "lined (lines_text ls)" if "list_all (\<lambda>l. CHR 0x0A \<notin> set l) ls" for ls using that by (auto simp: lined_def)
  have "lined header_text" unfolding header_text_def by (rule l) (simp add: BaseImageArg_def)
  moreover have "lined (lines_text ['''', ''ENV PATH='' @ join '':'' (pathEntries want) @ '':${PATH}''])"
    by (rule l) (auto simp: pathEntries_def)
  moreover have "lined (lines_text ['''', ''USER root''])" "lined (lines_text ['''', ''USER vscode''])"
    by (rule l, simp)+
  moreover note lined_all [OF good_root_layers [of want]] lined_all [OF good_user_layers [OF assms, of want _ refresh]]
  ultimately show ?thesis by (simp add: install_chunks_def chrome_def del: lines_text_simps map_map)
qed

text \<open>The parts are the named ones of the chunks, each once.\<close>

definition named :: "install_chunk list \<Rightarrow> install_part set" where
  "named cs = {p. p \<in> set (map fst cs) \<and> ip_id p \<noteq> ''''}"

lemma parts_fold:
  assumes "assembled a" "list_all lined (map snd cs)" "inj_on ip_id (set (am_parts a) \<union> named cs)"
  shows "set (am_parts (fold add_chunk cs a)) = set (am_parts a) \<union> named cs"
  using assms
proof (induction cs arbitrary: a)
  case (Cons c cs)
  obtain p t where c: "c = (p, t)" by (cases c)
  have n: "named (c # cs) = (if ip_id p = '''' then {} else {p}) \<union> named cs" by (auto simp: named_def c)
  have parts: "set (am_parts (add_chunk c a)) = set (am_parts a) \<union> (if ip_id p = '''' then {} else {p})"
  proof (cases "ip_id p = '''' \<or> am_index a (ip_id p) = None")
    case False
    then obtain i where i: "am_index a (ip_id p) = Some i" "ip_id p \<noteq> ''''" by auto
    then have "i < length (am_parts a)" "ip_id (am_parts a ! i) = ip_id p" using Cons.prems(1) by (auto simp: assembled_def)
    then have "p \<in> set (am_parts a)" using Cons.prems(3) i(2) nth_mem by (fastforce simp: n inj_on_def)
    then show ?thesis using i by (cases a) (auto simp: c add_chunk_def Let_def)
  qed (cases a; auto simp: c add_chunk_def Let_def)
  moreover have "assembled (add_chunk c a)" using Cons.prems by (simp add: c assembled_add_chunk)
  moreover have "inj_on ip_id (set (am_parts (add_chunk c a)) \<union> named cs)"
    using Cons.prems(3) unfolding parts n by (simp only: Un_assoc)
  ultimately show ?case using Cons by (simp add: n Un_assoc)
qed (simp add: named_def)

text \<open>All the parts there are.\<close>

definition all_parts :: "(agent_kind \<Rightarrow> string) \<Rightarrow> bool \<Rightarrow> install_part list" where
  "all_parts pin refresh = map fst (rootLayers UNIV @ filter (\<lambda>c. ip_id (fst c) \<noteq> ''rokit'') (userLayers UNIV pin refresh))"

lemma all_parts_distinct: "inj_on ip_id (set (all_parts pin refresh))"
proof -
  have "distinct (map ip_id (all_parts pin refresh))"
    by (simp add: all_parts_def rootLayers_def userLayers_def reviewLayers_def wantsAgent_def wants_def wants_tool_def
        partBase_def partRokit_def agent_part_def Let_def)
  then show ?thesis by (simp add: distinct_map)
qed


lemma named_parts: "named (install_chunks want pin refresh) \<subseteq> set (all_parts pin refresh)"
proof -
  have "set (map fst (rootLayers want)) \<subseteq> set (map fst (rootLayers UNIV))"
    unfolding rootLayers_def map_append set_append wantsAgent_def wants_def wants_tool_def by auto
  moreover have "set (map fst (userLayers want pin refresh)) \<subseteq> set (map fst (userLayers UNIV pin refresh))"
    unfolding userLayers_def map_append set_append wants_def wants_tool_def Let_def by auto
  moreover have "partRokit \<in> set (map fst (rootLayers UNIV))"
    unfolding rootLayers_def map_append set_append wants_tool_def by auto
  moreover have "\<forall>p \<in> set (map fst (userLayers UNIV pin refresh)). ip_id p = ''rokit'' \<longrightarrow> p = partRokit"
    unfolding userLayers_def map_append set_append wants_def wants_tool_def Let_def by (auto simp: agent_part_def)
  moreover have "named (install_chunks want pin refresh) \<subseteq> set (map fst (rootLayers want)) \<union> set (map fst (userLayers want pin refresh))"
    by (auto simp: named_def install_chunks_def chrome_def no_part_def spaced_def image_image split_def; force)
  moreover have "set (all_parts pin refresh) = set (map fst (rootLayers UNIV)) \<union>
      {p \<in> set (map fst (userLayers UNIV pin refresh)). ip_id p \<noteq> ''rokit''}"
    unfolding all_parts_def by auto
  ultimately show ?thesis by blast
qed

lemma agent_text_inject: "agent_text k = agent_text k' \<longleftrightarrow> k = k'"
  by (cases k; cases k'; simp)

lemma tool_not_agent: "k \<noteq> NoAgent \<Longrightarrow> agent_text k \<noteq> toolchain_text t"
  by (cases k; cases t; simp)

lemma root_part_facts: "p \<in> set (map fst (rootLayers want)) \<Longrightarrow> ip_id p \<noteq> '''' \<and> \<not> ip_refresh p"
  unfolding rootLayers_def reviewLayers_def map_append set_append
  by (auto simp: partBase_def partRokit_def split: if_splits)

lemma mem_if: "p \<in> set (map fst (if b then cs else [])) \<longleftrightarrow> b \<and> p \<in> set (map fst cs)"
  by (cases b) simp_all

lemma user_parts:
  "p \<in> set (map fst (userLayers want pin refresh)) \<longleftrightarrow>
     wants_tool want ToolchainBun \<and> p = part ''bun'' bunVersion \<or> wants_tool want ToolchainRokit \<and> p = partRokit \<or>
     wants_tool want ToolchainUv \<and> p = part ''uv'' uvVersion \<or>
     wants want AgentCodex \<and> p = agent_part pin refresh AgentCodex codexChannel \<or>
     wants want AgentGrok \<and> p = agent_part pin refresh AgentGrok grokChannel \<or>
     wants want AgentClaude \<and> p = agent_part pin refresh AgentClaude claudeChannel"
  unfolding userLayers_def map_append set_append Un_iff mem_if Let_def by simp

lemma agent_part_simps [simp]:
  "ip_id (agent_part pin refresh k c) = agent_text k" "ip_refresh (agent_part pin refresh k c) = bustFor pin refresh k"
  by (simp_all add: agent_part_def)

lemma user_part_facts:
  assumes "p \<in> set (map fst (userLayers want pin refresh))"
  shows "ip_id p \<noteq> ''''"
    "ip_refresh p \<Longrightarrow> \<exists>k. k \<in> {AgentCodex, AgentGrok, AgentClaude} \<and> wants want k \<and> bustFor pin refresh k \<and> ip_id p = agent_text k"
proof -
  note cases = assms [unfolded user_parts]
  from cases show "ip_id p \<noteq> ''''" by (elim disjE conjE) (simp_all add: partRokit_def)
  assume r: "ip_refresh p"
  from cases show "\<exists>k. k \<in> {AgentCodex, AgentGrok, AgentClaude} \<and> wants want k \<and> bustFor pin refresh k \<and> ip_id p = agent_text k"
  proof (elim disjE conjE)
    assume "wants want AgentCodex" "p = agent_part pin refresh AgentCodex codexChannel"
    then show ?thesis using r by (intro exI [of _ AgentCodex]) simp
  next
    assume "wants want AgentGrok" "p = agent_part pin refresh AgentGrok grokChannel"
    then show ?thesis using r by (intro exI [of _ AgentGrok]) simp
  next
    assume "wants want AgentClaude" "p = agent_part pin refresh AgentClaude claudeChannel"
    then show ?thesis using r by (intro exI [of _ AgentClaude]) simp
  qed (use r in \<open>simp_all add: partRokit_def\<close>)
qed

lemma user_part_exists:
  assumes "k \<in> {AgentCodex, AgentGrok, AgentClaude}" "wants want k" "bustFor pin refresh k"
  shows "\<exists>p. p \<in> set (map fst (userLayers want pin refresh)) \<and> ip_refresh p \<and> agent_text k = ip_id p"
proof -
  have "\<exists>c. agent_part pin refresh k c \<in> set (map fst (userLayers want pin refresh))"
    using assms(1,2) unfolding user_parts by blast
  then obtain c where "agent_part pin refresh k c \<in> set (map fst (userLayers want pin refresh))" ..
  then show ?thesis using assms(3) by (intro exI [of _ "agent_part pin refresh k c"]) (simp del: set_map)
qed

lemma named_eq: "named (install_chunks want pin refresh) = set (map fst (rootLayers want)) \<union> set (map fst (userLayers want pin refresh))"
proof -
  have m: "set (map fst (map spaced cs)) = set (map fst cs)" for cs by (force simp: spaced_def)
  have "rootLayers want \<noteq> []" by (simp add: rootLayers_def)
  then have "set (map fst (install_chunks want pin refresh)) =
      insert no_part (set (map fst (rootLayers want)) \<union> set (map fst (userLayers want pin refresh)))"
    unfolding install_chunks_def by (auto simp: chrome_def m simp del: map_map set_map lines_text_simps)
  then show ?thesis
    using root_part_facts user_part_facts(1) unfolding named_def by (auto simp: no_part_def simp del: set_map)
qed

lemma refresh_ids:
  "{ip_id p | p. p \<in> named (install_chunks want pin refresh) \<and> ip_refresh p} =
     {agent_text k | k. k \<in> {AgentCodex, AgentGrok, AgentClaude} \<and> wants want k \<and> bustFor pin refresh k}" (is "?L = ?R")
proof
  show "?L \<subseteq> ?R" unfolding named_eq using root_part_facts user_part_facts(2) by blast
  show "?R \<subseteq> ?L" unfolding named_eq
  proof
    fix n assume "n \<in> ?R"
    then obtain k where "n = agent_text k" "k \<in> {AgentCodex, AgentGrok, AgentClaude}" "wants want k" "bustFor pin refresh k" by blast
    with user_part_exists [of k want pin refresh] show "n \<in> {ip_id p | p. p \<in> set (map fst (rootLayers want)) \<union>
        set (map fst (userLayers want pin refresh)) \<and> ip_refresh p}" by blast
  qed
qed

text \<open>
  C30. The plan of a tools build is well formed: there is one entry for every instruction of the Dockerfile, each names
  an existing part, parts have distinct names, and the agents whose layers declare a refresh argument are
  exactly those of the manifest that follow a channel, when a refresh is asked for.
\<close>

theorem install_plan_typed:
  assumes "list_all agent_spec_ok agents" "GenerateInstallPlan agents tools refresh = Some plan"
  shows "length (il_steps plan) = countInstructions (il_dockerfile plan) \<and>
    (\<forall>i \<in> set (il_steps plan). i < length (il_parts plan)) \<and> distinct (map ip_id (il_parts plan)) \<and>
    set (il_refresh_kinds plan) =
      {agent_text k | k. refresh \<and> k \<in> as_kind ` set agents \<and> (pin_of agents k = '''' \<or> isChannel (pin_of agents k))}"
proof -
  let ?cs = "install_chunks (wanted agents tools) (pin_of agents) refresh"
  let ?init = "\<lparr>am_text = '''', am_parts = [], am_steps = [], am_index = (\<lambda>_. None), am_pending = 0\<rparr>"
  define a where "a = fold add_chunk ?cs ?init"
  have plan: "plan = assemble ?cs" using assms(2) by (auto simp: GenerateInstallPlan_def split: if_splits)
  have li: "list_all lined (map snd ?cs)" by (rule lined_chunks) (rule pin_of_ok [OF assms(1)])
  have init: "assembled ?init"
    by (auto simp: assembled_def lined_def countInstructions_def is_instruction_def intro!: exI [of _ "[]"])
  have am: "assembled a" unfolding a_def by (rule assembled_fold [OF init li])
  have parts: "set (am_parts a) = named ?cs"
    unfolding a_def using parts_fold [OF init li] inj_on_subset [OF all_parts_distinct named_parts] by simp
  have "partBase \<in> named ?cs" by (simp add: named_def install_chunks_def rootLayers_def spaced_def partBase_def)
  then have "am_parts a \<noteq> []" using parts by auto
  then have steps: "length (il_steps plan) = countInstructions (il_dockerfile plan)"
      "\<forall>i \<in> set (il_steps plan). i < length (il_parts plan)" "distinct (map ip_id (il_parts plan))"
    using am by (auto simp: plan assemble_def Let_def a_def [symmetric] assembled_def)
  have want: "wants (wanted agents tools) k \<longleftrightarrow> k \<in> as_kind ` set agents" if "k \<in> {AgentCodex, AgentGrok, AgentClaude}" for k
    using that tool_not_agent [of k] by (auto simp: wants_def wanted_def Let_def agent_text_inject image_iff)
  have "set (il_refresh_kinds plan) = {ip_id p | p. p \<in> named ?cs \<and> ip_refresh p}"
    using parts by (auto simp: plan assemble_def Let_def a_def [symmetric])
  also have "\<dots> = {agent_text k | k. k \<in> {AgentCodex, AgentGrok, AgentClaude} \<and> k \<in> as_kind ` set agents \<and> bustFor (pin_of agents) refresh k}"
    unfolding refresh_ids using want by blast
  also have "\<dots> = {agent_text k | k. refresh \<and> k \<in> as_kind ` set agents \<and> (pin_of agents k = '''' \<or> isChannel (pin_of agents k))}"
  proof -
    have "k \<in> {AgentCodex, AgentGrok, AgentClaude}" if "k \<in> as_kind ` set agents" for k
      using that assms(1) by (cases k) (auto simp: list_all_iff agent_spec_ok_def)
    then show ?thesis unfolding bustFor_def by blast
  qed
  finally show ?thesis using steps by blast
qed

definition demo_agents :: "agent_spec list" where
  "demo_agents =
     [\<lparr>as_kind = AgentClaude, as_version = ''''\<rparr>, \<lparr>as_kind = AgentCodex, as_version = ''0.46.0''\<rparr>]"

lemma demo_agents_ok: "list_all agent_spec_ok demo_agents"
  by code_simp

theorem generated_is_valid_witness:
  "\<exists>plan. GenerateInstallPlan demo_agents [ToolchainBun] True = Some plan \<and>
     ValidateDockerfile (\<lambda>r. r) (\<lambda>r. r) (il_dockerfile plan) = Inr ()"
proof -
  obtain plan where p: "GenerateInstallPlan demo_agents [ToolchainBun] True = Some plan"
    by (simp add: GenerateInstallPlan_def)
  then show ?thesis using generated_is_valid [OF demo_agents_ok p] by blast
qed

theorem install_plan_typed_witness:
  "\<exists>plan. GenerateInstallPlan demo_agents [ToolchainBun] True = Some plan \<and>
     length (il_steps plan) = countInstructions (il_dockerfile plan) \<and> set (il_refresh_kinds plan) = {''claude''}"
proof -
  obtain plan where p: "GenerateInstallPlan demo_agents [ToolchainBun] True = Some plan"
    by (simp add: GenerateInstallPlan_def)
  have k: "as_kind ` set demo_agents = {AgentClaude, AgentCodex}" by (simp add: demo_agents_def)
  have c: "pin_of demo_agents AgentClaude = ''''" "pin_of demo_agents AgentCodex \<noteq> ''''" "\<not> isChannel (pin_of demo_agents AgentCodex)"
    by code_simp+
  have "{agent_text k | k. True \<and> k \<in> as_kind ` set demo_agents \<and> (pin_of demo_agents k = '''' \<or> isChannel (pin_of demo_agents k))} =
      {agent_text AgentClaude}"
    unfolding k using c by blast
  then show ?thesis using install_plan_typed [OF demo_agents_ok p] p by (intro exI [of _ plan]) simp
qed

end
