(* ===== verification/AgentRefresh.thy ===== *)
theory AgentRefresh
  imports Install GoRegexp
begin

text \<open>
  The versions of agents that follow a channel (\<^verbatim>\<open>internal/builder/resolve.go\<close>) and the token a rebuild mints of
  them (\<^verbatim>\<open>mintAgentRefresh\<close> of \<^verbatim>\<open>internal/app/lifecycle.go\<close>). The HTTP client is the function \<open>http\<close> from a URL to a
  transport error or a status code, its text and a body; the JSON decoder is the function \<open>json\<close>.
\<close>

section \<open>Probing a channel\<close>

definition claudeReleasesURL :: string where "claudeReleasesURL = ''https://downloads.claude.ai/claude-code-releases/''"
definition codexDistTagsURL :: string where "codexDistTagsURL = ''https://registry.npmjs.org/-/package/@openai/codex/dist-tags''"
definition grokReleasesURL :: string where "grokReleasesURL = ''https://x.ai/cli/''"

abbreviation digit_class :: regex where "digit_class \<equiv> RxClass [(48, 57)]"

definition resolvedVersionRe :: regex where
  "resolvedVersionRe =
     rx_seqs [rx_plus digit_class, rx_lit ''.'', rx_plus digit_class, rx_lit ''.'', digit_class,
       rx_between 0 60 (RxClass [(48, 57), (65, 90), (97, 122), (46, 46), (95, 95), (43, 43), (45, 45)])]"

definition channelRe :: regex where
  "channelRe = rx_between 1 64 (RxClass [(48, 57), (65, 90), (97, 122), (46, 46), (95, 95), (45, 45)])"

definition probeBodyLimit :: int where "probeBodyLimit = 65536"

type_synonym http_client = "string \<Rightarrow> error + (int \<times> string \<times> stream)"
type_synonym tags_decoder = "string \<Rightarrow> error + (string \<Rightarrow> string option)"

definition probe_get :: "http_client \<Rightarrow> string \<Rightarrow> error + string" where
  "probe_get http url =
     rbind (http url) (\<lambda>(status, text, body).
       if status \<noteq> 200 then Inl (Class ErrUnavailable ''%w: GET %s: %s'' [url, text])
       else let got = LimitReader probeBodyLimit body in
         (case st_end got of Some e \<Rightarrow> Inl e | None \<Rightarrow> Inr (st_data got)))"

definition fetchVersionFile :: "http_client \<Rightarrow> string \<Rightarrow> error + string" where
  "fetchVersionFile http url =
     rbind (probe_get http url) (\<lambda>body. Inr (trim_space (fst (cut body [CHR 0x0A]))))"

definition fetchDistTag :: "http_client \<Rightarrow> tags_decoder \<Rightarrow> string \<Rightarrow> error + string" where
  "fetchDistTag http json channel =
     rbind (probe_get http codexDistTagsURL) (\<lambda>body.
       case json body of
         Inl _ \<Rightarrow> Inl (Class ErrUnavailable ''%w: dist-tags: %v'' [])
       | Inr tags \<Rightarrow>
           (case tags channel of
              None \<Rightarrow> Inl (Class ErrUnavailable ''%w: dist-tag %q not published'' [channel])
            | Some v \<Rightarrow> Inr v))"

definition probe_Resolve :: "http_client \<Rightarrow> tags_decoder \<Rightarrow> agent_kind \<Rightarrow> string \<Rightarrow> error + string" where
  "probe_Resolve http json k channel =
     (if \<not> rx_match channelRe channel then Inl (Class ErrInvalid ''%w: agent channel %q'' [channel])
      else rbind
        (case k of
           AgentClaude \<Rightarrow> fetchVersionFile http (claudeReleasesURL @ channel)
         | AgentGrok \<Rightarrow> fetchVersionFile http (grokReleasesURL @ channel)
         | AgentCodex \<Rightarrow> fetchDistTag http json channel
         | NoAgent \<Rightarrow> Inl (Class ErrInvalid ''%w: unknown agent kind %q'' [agent_text k]))
        (\<lambda>v. if rx_match resolvedVersionRe v then Inr v
             else Inl (Class ErrUnavailable ''%w: %s/%s resolved to non-version content'' [agent_text k, channel])))"

section \<open>The token\<close>

text \<open>The map of a token; a later pair of a kind overrides an earlier one.\<close>

definition refresh_pair :: "string \<Rightarrow> (string \<times> string) option" where
  "refresh_pair f =
     (case cut f ''='' of (kind, v, ok) \<Rightarrow> if ok \<and> kind \<noteq> '''' \<and> v \<noteq> '''' then Some (kind, v) else None)"

definition ParseAgentRefresh :: "string \<Rightarrow> string \<Rightarrow> string option" where
  "ParseAgentRefresh token = foldl (\<lambda>m (kind, v). m(kind \<mapsto> v)) (\<lambda>_. None) (List.map_filter refresh_pair (Utf8.fields token))"

text \<open>The value of one agent: what the prober answers, when it fits the grammar of pairs, or the time.\<close>

type_synonym prober = "agent_kind \<Rightarrow> string \<Rightarrow> error + string"

definition refresh_value :: "prober option \<Rightarrow> string \<Rightarrow> agent_spec \<Rightarrow> string" where
  "refresh_value prober stamp ag =
     (case prober of
        None \<Rightarrow> stamp
      | Some p \<Rightarrow>
          (case p (as_kind ag) (AgentChannel ag) of
             Inr v \<Rightarrow> if v \<noteq> '''' \<and> CHR '' '' \<notin> set v \<and> CHR ''='' \<notin> set v then v else stamp
           | Inl _ \<Rightarrow> stamp))"

text \<open>
  \<open>loaded\<close> is what loading the workspace manifest gives, \<open>stamp\<close> the time in the format RFC3339Nano.
\<close>

definition mintAgentRefresh :: "prober option \<Rightarrow> string \<Rightarrow> error + agent_spec list \<Rightarrow> string" where
  "mintAgentRefresh prober stamp loaded =
     (case loaded of
        Inl _ \<Rightarrow> stamp
      | Inr agents \<Rightarrow>
          let pairs = map (\<lambda>ag. agent_text (as_kind ag) @ ''='' @ refresh_value prober stamp ag)
                (filter (\<lambda>ag. AgentChannel ag \<noteq> '''') agents) in
          if pairs = [] then stamp else join '' '' pairs)"

section \<open>What a token carries\<close>

text \<open>Characters that stay inert inside the double quotes of the generated \<^verbatim>\<open>RUN\<close> line.\<close>

definition inert :: "char \<Rightarrow> bool" where
  "inert c = in_class [(48, 57), (65, 90), (97, 122), (46, 46), (95, 95), (43, 43), (45, 45), (58, 58)] c"

lemma inert_visible: "inert c \<Longrightarrow> visible c \<and> c \<noteq> CHR ''='' \<and> c \<noteq> CHR '' ''"
  by (auto simp: inert_def in_class_def visible_def less_eq_char_def)

lemma resolvedVersionRe_inert: "rx_match resolvedVersionRe v \<Longrightarrow> v \<noteq> '''' \<and> list_all inert v"
proof
  assume m: "rx_match resolvedVersionRe v"
  show "list_all inert v"
    by (rule rx_match_over [OF m])
      (auto simp: resolvedVersionRe_def in_class_def inert_def intro!: rx_over_derived)
  show "v \<noteq> ''''" using m by (cases v) (simp_all add: resolvedVersionRe_def rx_plus_def)
qed

lemma probe_Resolve_inert: "probe_Resolve http json k c = Inr v \<Longrightarrow> v \<noteq> '''' \<and> list_all inert v"
  using resolvedVersionRe_inert by (auto simp: probe_Resolve_def rbind_eq_Inr split: if_splits)

lemma decode_visible: "list_all visible s \<Longrightarrow> decode s = map (\<lambda>c. (byte c, [c], True)) s"
  by (induction s) (simp_all add: visible_decode)

lemma group_visible:
  "list_all visible s \<Longrightarrow> group_fields (map (\<lambda>c. (byte c, [c], True)) s @ ds) acc = group_fields ds (acc @ s)"
  by (induction s arbitrary: acc) (simp_all add: not_space_visible)

lemma decode_visible_append: "list_all visible s \<Longrightarrow> decode (s @ t) = map (\<lambda>c. (byte c, [c], True)) s @ decode t"
  by (induction s) (simp_all add: visible_decode)

text \<open>Splitting words that were joined with blanks.\<close>

lemma fields_join: "list_all (\<lambda>w. w \<noteq> '''' \<and> list_all visible w) ws \<Longrightarrow> Utf8.fields (join '' '' ws) = ws"
proof (induction ws)
  case (Cons w ws)
  then have w: "w \<noteq> ''''" "list_all visible w" by simp_all
  have sp: "is_space 32" by (simp add: is_space_def)
  show ?case
  proof (cases ws)
    case Nil
    then show ?thesis using w group_visible [OF w(2), of "[]" "[]"] by (simp add: Utf8.fields_def decode_visible)
  next
    case (Cons u us)
    then have "Utf8.fields (join '' '' (w # ws)) = group_fields (decode (w @ CHR '' '' # join '' '' ws)) []"
      by (simp add: Utf8.fields_def)
    also have "\<dots> = group_fields ((32, '' '', True) # decode (join '' '' ws)) w"
      using group_visible [OF w(2), of _ "[]"] by (simp add: decode_visible_append [OF w(2)])
    also have "\<dots> = w # Utf8.fields (join '' '' ws)" using w(1) sp by (simp add: Utf8.fields_def)
    finally show ?thesis using Cons.IH Cons.prems by simp
  qed
qed (simp add: Utf8.fields_def)

lemma refresh_value_inert:
  assumes "prober = None \<or> prober = Some (probe_Resolve http json)" "stamp \<noteq> ''''" "list_all inert stamp"
  shows "refresh_value prober stamp ag \<noteq> '''' \<and> list_all inert (refresh_value prober stamp ag)"
  using assms probe_Resolve_inert by (auto simp: refresh_value_def split: option.splits sum.splits)

lemma refresh_pair_of:
  assumes "k \<noteq> NoAgent" "v \<noteq> ''''"
  shows "refresh_pair (agent_text k @ ''='' @ v) = Some (agent_text k, v)"
proof -
  have "CHR ''='' \<notin> set (agent_text k)" by (cases k) simp_all
  then show ?thesis using assms cut_single [of "CHR ''=''" "agent_text k" v] by (cases k) (simp_all add: refresh_pair_def)
qed

lemma no_pair: "CHR ''='' \<notin> set f \<Longrightarrow> refresh_pair f = None"
  using cut_single_False [of f "CHR ''=''" f "[]"] by (simp add: refresh_pair_def)

lemma map_filter_pairs:
  "list_all (\<lambda>x. f (g x) = Some (h x)) xs \<Longrightarrow> List.map_filter f (map g xs) = map h xs"
  by (induction xs) (simp_all add: List.map_filter_simps)

text \<open>A map built from left to right over distinct keys finds the first entry.\<close>

lemma foldl_updates:
  assumes "distinct (map key xs)"
  shows "foldl (\<lambda>m (k, v). m(k \<mapsto> v)) m0 (map (\<lambda>x. (key x, val x)) xs) =
    (\<lambda>n. case find (\<lambda>x. key x = n) xs of None \<Rightarrow> m0 n | Some x \<Rightarrow> Some (val x))"
  using assms
proof (induction xs arbitrary: m0)
  case (Cons x xs)
  have "find (\<lambda>y. key y = key x) xs = None" using Cons.prems by (simp add: find_None_iff image_iff) metis
  then show ?case using Cons by (auto simp: fun_eq_iff split: option.splits)
qed simp

lemma find_filter: "find P (filter Q xs) = find (\<lambda>x. Q x \<and> P x) xs"
  by (induction xs) auto

text \<open>
  C31. The token of a rebuild is read back exactly: every agent that follows a channel gets the value minted for it and no
  other key has one, and a value is never empty and made of characters that mean nothing to a shell, whatever the
  release endpoints answered.
\<close>

theorem refresh_token_roundtrip:
  assumes "prober = None \<or> prober = Some (probe_Resolve http json)" "stamp \<noteq> ''''" "list_all inert stamp"
    and "list_all agent_spec_ok agents" "distinct (map as_kind agents)"
  shows "ParseAgentRefresh (mintAgentRefresh prober stamp (Inr agents)) =
      (\<lambda>n. case find (\<lambda>ag. AgentChannel ag \<noteq> '''' \<and> agent_text (as_kind ag) = n) agents of
             None \<Rightarrow> None
           | Some ag \<Rightarrow> Some (refresh_value prober stamp ag)) \<and>
    (\<forall>ag. refresh_value prober stamp ag \<noteq> '''' \<and> list_all inert (refresh_value prober stamp ag))"
proof
  let ?v = "refresh_value prober stamp" and ?as = "filter (\<lambda>ag. AgentChannel ag \<noteq> '''') agents"
  let ?pair = "\<lambda>ag. agent_text (as_kind ag) @ ''='' @ ?v ag"
  have v: "?v ag \<noteq> ''''" "list_all inert (?v ag)" for ag using refresh_value_inert [OF assms(1-3)] by blast+
  then show "\<forall>ag. ?v ag \<noteq> '''' \<and> list_all inert (?v ag)" by blast
  have vis: "list_all visible s" if "list_all inert s" for s using that inert_visible by (auto simp: list_all_iff)
  show "ParseAgentRefresh (mintAgentRefresh prober stamp (Inr agents)) =
      (\<lambda>n. case find (\<lambda>ag. AgentChannel ag \<noteq> '''' \<and> agent_text (as_kind ag) = n) agents of None \<Rightarrow> None | Some ag \<Rightarrow> Some (?v ag))"
  proof (cases "?as = []")
    case True
    have "Utf8.fields stamp = [stamp]" using fields_join [of "[stamp]"] vis assms(2,3) by simp
    moreover have "CHR ''='' \<notin> set stamp" using assms(3) inert_visible by (auto simp: list_all_iff)
    moreover have "find (\<lambda>ag. AgentChannel ag \<noteq> '''' \<and> agent_text (as_kind ag) = n) agents = None" for n
      using True by (auto simp: find_None_iff filter_empty_conv)
    ultimately show ?thesis
      using True by (simp add: mintAgentRefresh_def ParseAgentRefresh_def no_pair List.map_filter_simps)
  next
    case False
    have k: "as_kind ag \<noteq> NoAgent" if "ag \<in> set agents" for ag using that assms(4) by (auto simp: list_all_iff agent_spec_ok_def)
    have "list_all visible (agent_text n)" for n by (cases n) (simp_all add: visible_def)
    moreover have "visible (CHR ''='')" by code_simp
    ultimately have "Utf8.fields (join '' '' (map ?pair ?as)) = map ?pair ?as"
      using v(1) vis [OF v(2)] by (intro fields_join) (simp add: list_all_iff ball_Un)
    moreover have "List.map_filter refresh_pair (map ?pair ?as) = map (\<lambda>ag. (agent_text (as_kind ag), ?v ag)) ?as"
      using refresh_pair_of [OF k v(1)] by (intro map_filter_pairs) (auto simp: list_all_iff)
    moreover have "distinct (map (\<lambda>ag. agent_text (as_kind ag)) ?as)"
      using assms(5) by (auto simp: distinct_map inj_on_def agent_text_inject)
    ultimately show ?thesis
      using False by (simp add: mintAgentRefresh_def ParseAgentRefresh_def Let_def foldl_updates find_filter)
  qed
qed

text \<open>Two agents, one of which is pinned; the endpoint of the other answers.\<close>

definition demo_http :: http_client where
  "demo_http url = Inr (200, ''200 OK'', \<lparr>st_data = ''2.1.220'' @ [CHR 0x0A], st_end = None\<rparr>)"

lemma demo_probe: "probe_Resolve demo_http (\<lambda>_. Inr (\<lambda>_. None)) AgentClaude ''latest'' = Inr ''2.1.220''"
  by code_simp

theorem refresh_token_roundtrip_witness:
  "ParseAgentRefresh (mintAgentRefresh (Some (probe_Resolve demo_http (\<lambda>_. Inr (\<lambda>_. None)))) ''2026-08-04T10:00:00Z'' (Inr demo_agents)) ''claude''
     = Some ''2.1.220'' \<and>
   ParseAgentRefresh (mintAgentRefresh (Some (probe_Resolve demo_http (\<lambda>_. Inr (\<lambda>_. None)))) ''2026-08-04T10:00:00Z'' (Inr demo_agents)) ''codex''
     = None"
proof -
  let ?p = "Some (probe_Resolve demo_http (\<lambda>_. Inr (\<lambda>_. None)))" and ?t = "''2026-08-04T10:00:00Z''"
  have t: "list_all inert ?t" by code_simp
  have d: "distinct (map as_kind demo_agents)" by code_simp
  have v: "refresh_value ?p ?t (hd demo_agents) = ''2.1.220''"
    using demo_probe by (simp add: refresh_value_def demo_agents_def AgentChannel_def claudeChannel_def)
  have f: "find (\<lambda>ag. AgentChannel ag \<noteq> '''' \<and> agent_text (as_kind ag) = ''claude'') demo_agents = Some (hd demo_agents)"
    "find (\<lambda>ag. AgentChannel ag \<noteq> '''' \<and> agent_text (as_kind ag) = ''codex'') demo_agents = None"
    by code_simp+
  show ?thesis
    using refresh_token_roundtrip [of ?p demo_http "\<lambda>_. Inr (\<lambda>_. None)" ?t demo_agents] t d demo_agents_ok by (simp add: f v)
qed

text \<open>
  The guard on a prober names blanks and equals signs only; any other space splits the pair, and the agent is left
  without its value.
\<close>

lemma tab_corrupts_token:
  "ParseAgentRefresh (mintAgentRefresh (Some (\<lambda>_ _. Inr [CHR 0x09, CHR ''1''])) ''now'' (Inr demo_agents)) ''claude'' = None"
  by code_simp

end
