(* ===== verification/Spec2Isabelle.thy ===== *)
theory Spec2Isabelle
  imports Domain Diff EnvFile UpProperties CompileUp Egress Lock Gc Snapshot Release AgentRefresh
begin

text \<open>
  A verification development for \<^verbatim>\<open>vibe\<close>, an engine that runs a project's development containers under Docker.

  \<^bold>\<open>The program.\<close> A project's manifest is loaded and validated (\<^verbatim>\<open>internal/schema\<close>) and compiled, with an
  installed artifact and a frozen snapshot of the workspace, into a plan of containers, networks and
  volumes (\<^verbatim>\<open>internal/model\<close>). The plan is kept as an immutable candidate in a content-addressed store
  (\<^verbatim>\<open>internal/store\<close>); the registry (\<^verbatim>\<open>internal/registry\<close>) says which candidate a project has
  approved. The runtime (\<^verbatim>\<open>internal/runtime\<close>) brings a candidate up by replacing containers in a journalled
  transaction and recovers interrupted ones. An agent inside a container asks for a rebuild by writing a file into
  the workspace; the broker (\<^verbatim>\<open>internal/broker\<close>, \<^verbatim>\<open>internal/app/requests.go\<close>) binds it to a candidate that the operator
  decides on. Garbage collection (\<^verbatim>\<open>internal/app/gc.go\<close>) removes what nothing refers to. All of them
  serialize through the host locks (\<^verbatim>\<open>internal/lock\<close>), and everything an agent wrote reaches the terminal
  through the sanitizer and the bounded diff (\<^verbatim>\<open>internal/terminal\<close>).

  \<^bold>\<open>Foundations.\<close>
  \<^item> \<open>Prelude\<close>: errors (class, format, arguments), results, folds, and the locales \<open>text_codec\<close> of text round trips that the
    domain values instantiate.
  \<^item> \<open>GoStrings\<close>, \<open>Utf8\<close>, \<open>GoPath\<close>, \<open>GoRegexp\<close>: what the source uses of Go's strings, runes, paths and
    regular expressions, as functions on byte strings.
  \<^item> \<open>Effect\<close>: operations that return, fail or die. A machine carries a fault schedule: each external call consumes one entry,
    which lets it be, makes it fail before or after it took effect, or ends the process there. A schedule
    is a list, so every statement over all schedules covers any number and placement of faults. \<open>triple\<close> is the
    Hoare triple with a postcondition for each way a call can end; its rules carry all proofs about effects.

  \<^bold>\<open>Values and text.\<close>
  \<^item> \<open>Domain\<close> (\<^verbatim>\<open>internal/domain\<close>): digests, identifiers, platforms, error classes; parsing and printing are inverse.
  \<^item> \<open>Sanitize\<close>, \<open>Diff\<close> (\<^verbatim>\<open>internal/terminal\<close>): no control or format character reaches the terminal, lines are bounded, the
    diff is a minimal edit script and complete unless it says it was cut.
  \<^item> \<open>EnvFile\<close> (\<^verbatim>\<open>internal/envfile\<close>): parsed entries are well formed; rendering and parsing round-trip.
  \<^item> \<open>Egress\<close> (\<^verbatim>\<open>internal/app/egress.go\<close>): the two parsers of untrusted container output and the bounded view built from them.

  \<^bold>\<open>From manifest to plan.\<close>
  \<^item> \<open>SchemaTypes\<close>, \<open>SchemaLoad\<close>, \<open>SchemaValidate\<close> (\<^verbatim>\<open>internal/schema\<close>): the inspection accepts exactly the well-formed
    documents within its budgets, validation accepts exactly the manifests that satisfy every rule.
  \<^item> \<open>Plan\<close>, \<open>Compile\<close> (\<^verbatim>\<open>internal/model\<close>): plans and names; a valid manifest compiles exactly when no mount
    covers another, and the plan confines the host: one writable bind, dropped capabilities.
  \<^item> \<open>CompileUp\<close>: every compiled plan satisfies what the transaction theorems assume of a plan.

  \<^bold>\<open>Bringing a candidate up.\<close>
  \<^item> \<open>Docker\<close> (\<^verbatim>\<open>internal/dockerapi/types.go\<close> and the cooperative daemon of \<^verbatim>\<open>internal/dockerapi/fake\<close>), \<open>Journal\<close>,
    \<open>Transaction\<close>, \<open>Reconcile\<close> (\<^verbatim>\<open>internal/runtime\<close>): the operations, statement by statement.
  \<^item> \<open>IoRules\<close>, \<open>Recovery\<close>, \<open>Undo\<close>, \<open>Sweep\<close>, \<open>UpSafe\<close>, \<open>UpOutcome\<close>, \<open>UpProperties\<close>: the invariant that a journalled state can be
    recovered, kept by every step under every fault; an interrupted Up followed by a recovery leaves exactly the old
    containers or exactly the next generation.
  \<^item> \<open>Lock\<close> (\<^verbatim>\<open>internal/lock\<close>): the intent gate as a step relation of callers, worker and kernel; mutual exclusion, no grant
    after a cancellation, and that queued callers can be served. The poll loop takes its clock as a list of attempts.

  \<^bold>\<open>State on the host.\<close>
  \<^item> \<open>StoreTree\<close>, \<open>Host\<close>: file trees, the tree digest of \<^verbatim>\<open>internal/store/atomic.go\<close>, and the directories of
    \<^verbatim>\<open>internal/paths/layout.go\<close> with the calls the engine makes on them; \<^verbatim>\<open>WriteFileAtomic\<close> takes a directory from one
    assertion to another by its rename alone. \<open>HostFiles\<close>: the same seen as a map from record files to contents.
  \<^item> \<open>Store\<close> (\<^verbatim>\<open>internal/store\<close>): publishing, records, leases, removal; published objects always hash to their names.
  \<^item> \<open>Staging\<close>: one directory being filled in the staging area while every published object keeps hashing to its name.
  \<^item> \<open>Snapshot\<close> (\<^verbatim>\<open>internal/snapshot\<close>): the walker over any sequence of observations of a workspace that others keep
    writing to; what it freezes is exactly the accepted files, within the limits.
  \<^item> \<open>Payload\<close> (\<^verbatim>\<open>internal/payload\<close>): the embedded container payload, its manifest, extraction and presets. \<open>GoScan\<close>: readers
    and the line scanner of the Go library, as functions on the bytes read.
  \<^item> \<open>Release\<close> (\<^verbatim>\<open>internal/release\<close>): from a version to an installed artifact. The answers of the server, the
    decompressed archive entries and their ends are arguments; what is returned has the published checksum and holds
    exactly what its payload manifest lists.
  \<^item> \<open>Builder\<close>, \<open>Install\<close>, \<open>AgentRefresh\<close> (\<^verbatim>\<open>internal/builder\<close>, \<^verbatim>\<open>mintAgentRefresh\<close>): the check on Dockerfiles, the generated
    Dockerfile of the agents and toolchains with every text of its layers, and the versions that agents which follow a channel
    resolve to. Everything generated passes the check, its steps are attributed to parts, and a token of
    versions is read back exactly with values that mean nothing to a shell. \<open>quiet\<close> is the shape of line that the check
    passes over; the texts are shown to consist of such lines by evaluation.
  \<^item> \<open>Registry\<close> (\<^verbatim>\<open>internal/registry\<close>): updates are compare-and-swap, roots are claimed once.
  \<^item> \<open>Broker\<close>, \<open>Requests\<close> (\<^verbatim>\<open>internal/broker\<close>, \<^verbatim>\<open>internal/app/requests.go\<close>): what a poll binds, and that an approval is for the
    bound candidate and follows the registry's pointer.
  \<^item> \<open>Gc\<close> (\<^verbatim>\<open>internal/app/gc.go\<close>): nothing referenced, young or leased is collected; doubt stops the collection; a
    dry run removes nothing.

  \<^bold>\<open>How states correspond.\<close> Docker's containers, networks and volumes are the record \<open>world\<close>; the engine's state
  directories are the record \<open>host\<close>, one tree for each directory of the layout, with modification times and other processes' leases beside
  it. Locks are held for whole operations, as in the code, so an operation runs against a state
  that others do not change; acquiring and releasing them are steps that can fail. Interleaving is modelled where it
  is the point: in \<open>Lock\<close>, and in the leases that a collection meets. Machine integers keep their width where they
  can wrap (revisions, modes, identifiers); sizes and times are unbounded. The recursion of the tree walks, the
  wrapping loops and the diff tables terminate by measures proved with their definitions, so no fuel occurs outside
  the lists that stand for a clock, a random supply or a schedule, each of which only limits how long
  the environment is observed.

  \<^bold>\<open>Parameters.\<close> SHA-256, the JSON and YAML codecs, the rune tables of \<^verbatim>\<open>unicode\<close>, HTTP responses, randomness, clocks, the answers of the
  Docker daemon and of the operator are arguments. What is assumed of them is stated where it is used: that a marshalled record
  decodes to itself (\<open>codec_ok\<close>, \<open>codec_exact\<close>), that a hash has no collision on the trees at hand,
  that a callback leaves the engine's files alone (\<open>untouched\<close>); each such property has a witness.

  \<^bold>\<open>Not modelled.\<close> The command line, the terminal and tmux interfaces, progress output and process runner are presentation and glue. The
  SDK adapter of \<^verbatim>\<open>internal/dockerapi\<close> and the payload generator consist of calls into third-party code. The composition of operations in
  \<^verbatim>\<open>internal/app\<close> beyond requests, egress and collection are left to extensions. \<^verbatim>\<open>RemoveAll\<close> is one step that takes effect
  or not; it is only applied to staging and to state whose loss is intended. Symbolic links are a kind of special file.
\<close>

end
